(* ===== verification/Prelude.thy ===== *)
theory Prelude
  imports Main
begin

text \<open>
  The shared layer of the development: the domain errors of \<open>internal/store/errors.go\<close>, the
  state-and-error computations that model code running inside a database transaction, the
  association-list tables that stand for relations, and the lemma collections the components
  extend. A computation maps a state to an error or to a result and a successor state; an error
  carries no state, because a failed transaction is rolled back.
\<close>

section \<open>Identifiers and errors\<close>

type_synonym uuid = nat

datatype err = ErrNotFound | ErrConflict | ErrValidation | ErrDuplicate | ErrResyncRequired | ErrInternal

text \<open>Collections: \<open>tx_iff\<close> inverts a successful run, \<open>tx_eval\<close> evaluates a run.\<close>

named_theorems tx_iff
named_theorems tx_eval

section \<open>Transactional computations\<close>

type_synonym ('s, 'a) tx = "'s \<Rightarrow> err + ('a \<times> 's)"

definition ret_tx :: "'a \<Rightarrow> ('s, 'a) tx" where
  "ret_tx a s = Inr (a, s)"

definition fail_tx :: "err \<Rightarrow> ('s, 'a) tx" where
  "fail_tx e s = Inl e"

definition bind_tx :: "('s, 'a) tx \<Rightarrow> ('a \<Rightarrow> ('s, 'b) tx) \<Rightarrow> ('s, 'b) tx" where
  "bind_tx m f s = (case m s of Inl e \<Rightarrow> Inl e | Inr (a, s') \<Rightarrow> f a s')"

definition seq_tx :: "('s, 'a) tx \<Rightarrow> ('s, 'b) tx \<Rightarrow> ('s, 'b) tx" where
  "seq_tx m k = bind_tx m (\<lambda>_. k)"

definition guard_tx :: "bool \<Rightarrow> err \<Rightarrow> ('s, unit) tx" where
  "guard_tx b e = (if b then ret_tx () else fail_tx e)"

definition get_tx :: "('s \<Rightarrow> 'a) \<Rightarrow> ('s, 'a) tx" where
  "get_tx f s = Inr (f s, s)"

definition mod_tx :: "('s \<Rightarrow> 's) \<Rightarrow> ('s, unit) tx" where
  "mod_tx f s = Inr ((), f s)"

text \<open>A condition on the state, such as a foreign key, that fails with the given error.\<close>

definition check_tx :: "('s \<Rightarrow> bool) \<Rightarrow> err \<Rightarrow> ('s, unit) tx" where
  "check_tx P e s = (if P s then Inr ((), s) else Inl e)"

text \<open>A read of at most one row: an absent row is the given error.\<close>

definition row_tx :: "err \<Rightarrow> ('s \<Rightarrow> 'a option) \<Rightarrow> ('s, 'a) tx" where
  "row_tx e f s = (case f s of None \<Rightarrow> Inl e | Some a \<Rightarrow> Inr (a, s))"

definition when_tx :: "bool \<Rightarrow> ('s, unit) tx \<Rightarrow> ('s, unit) tx" where
  "when_tx b m = (if b then m else ret_tx ())"

fun iter_tx :: "('a \<Rightarrow> ('s, unit) tx) \<Rightarrow> 'a list \<Rightarrow> ('s, unit) tx" where
  "iter_tx f [] = ret_tx ()"
| "iter_tx f (x # xs) = bind_tx (f x) (\<lambda>_. iter_tx f xs)"

fun fold_tx :: "('a \<Rightarrow> 'b \<Rightarrow> ('s, 'b) tx) \<Rightarrow> 'a list \<Rightarrow> 'b \<Rightarrow> ('s, 'b) tx" where
  "fold_tx f [] b = ret_tx b"
| "fold_tx f (x # xs) b = bind_tx (f x b) (\<lambda>b'. fold_tx f xs b')"

text \<open>
  \<open>inTx\<close> of \<open>internal/store/tx.go\<close>: the body's effects are kept exactly when it succeeds.
\<close>

definition in_tx :: "('s, 'a) tx \<Rightarrow> 's \<Rightarrow> (err + 'a) \<times> 's" where
  "in_tx m s = (case m s of Inl e \<Rightarrow> (Inl e, s) | Inr (a, s') \<Rightarrow> (Inr a, s'))"

lemma ret_tx_iff [tx_iff]: "ret_tx a s = Inr r \<longleftrightarrow> r = (a, s)"
  by (auto simp: ret_tx_def)

lemma fail_tx_iff [tx_iff]: "fail_tx e s = Inr r \<longleftrightarrow> False"
  by (simp add: fail_tx_def)

lemma bind_tx_iff [tx_iff]:
  "bind_tx m f s = Inr r \<longleftrightarrow> (\<exists>a s'. m s = Inr (a, s') \<and> f a s' = Inr r)"
  by (auto simp: bind_tx_def split: sum.splits)

lemma seq_tx_iff [tx_iff]:
  "seq_tx m k s = Inr r \<longleftrightarrow> (\<exists>a s'. m s = Inr (a, s') \<and> k s' = Inr r)"
  by (simp add: seq_tx_def bind_tx_iff)

lemma guard_tx_iff [tx_iff]: "guard_tx b e s = Inr r \<longleftrightarrow> b \<and> r = ((), s)"
  by (auto simp: guard_tx_def ret_tx_def fail_tx_def)

lemma check_tx_iff [tx_iff]: "check_tx P e s = Inr r \<longleftrightarrow> P s \<and> r = ((), s)"
  by (auto simp: check_tx_def)

lemma get_tx_iff [tx_iff]: "get_tx f s = Inr r \<longleftrightarrow> r = (f s, s)"
  by (auto simp: get_tx_def)

lemma mod_tx_iff [tx_iff]: "mod_tx f s = Inr r \<longleftrightarrow> r = ((), f s)"
  by (auto simp: mod_tx_def)

lemma row_tx_iff [tx_iff]: "row_tx e f s = Inr r \<longleftrightarrow> (\<exists>a. f s = Some a \<and> r = (a, s))"
  by (auto simp: row_tx_def split: option.splits)

lemma when_tx_iff [tx_iff]:
  "when_tx b m s = Inr r \<longleftrightarrow> (if b then m s = Inr r else r = ((), s))"
  by (auto simp: when_tx_def ret_tx_def)

lemma bind_tx_Inr: "m s = Inr (a, s') \<Longrightarrow> bind_tx m f s = f a s'"
  by (simp add: bind_tx_def)

lemma bind_tx_Inl: "m s = Inl e \<Longrightarrow> bind_tx m f s = Inl e"
  by (simp add: bind_tx_def)

lemmas tx_defs [tx_eval] =
  ret_tx_def fail_tx_def bind_tx_def seq_tx_def guard_tx_def check_tx_def get_tx_def
  mod_tx_def row_tx_def when_tx_def

lemma in_tx_Inl [simp]: "m s = Inl e \<Longrightarrow> in_tx m s = (Inl e, s)"
  by (simp add: in_tx_def)

lemma in_tx_Inr [simp]: "m s = Inr (a, s') \<Longrightarrow> in_tx m s = (Inr a, s')"
  by (simp add: in_tx_def)

lemma in_tx_cases:
  assumes "in_tx m s = (r, s')"
  obtains (rolled_back) e where "m s = Inl e" "r = Inl e" "s' = s"
    | (committed) a where "m s = Inr (a, s')" "r = Inr a"
  using assms by (auto simp: in_tx_def split: sum.splits)

section \<open>Preservation of a state predicate\<close>

text \<open>
  \<open>keeps P m\<close>: whenever \<open>m\<close> succeeds from a state with \<open>P\<close>, the successor has \<open>P\<close>.
  The rules in \<open>keeps_intros\<close> follow the structure of a computation.
\<close>

definition keeps :: "('s \<Rightarrow> bool) \<Rightarrow> ('s, 'a) tx \<Rightarrow> bool" where
  "keeps P m \<longleftrightarrow> (\<forall>s a s'. P s \<longrightarrow> m s = Inr (a, s') \<longrightarrow> P s')"

named_theorems keeps_intros

lemma keepsI: "(\<And>s a s'. P s \<Longrightarrow> m s = Inr (a, s') \<Longrightarrow> P s') \<Longrightarrow> keeps P m"
  by (auto simp: keeps_def)

lemma keepsD: "keeps P m \<Longrightarrow> P s \<Longrightarrow> m s = Inr (a, s') \<Longrightarrow> P s'"
  by (auto simp: keeps_def)

lemma keeps_ret [keeps_intros]: "keeps P (ret_tx a)"
  by (auto simp: keeps_def ret_tx_def)

lemma keeps_fail [keeps_intros]: "keeps P (fail_tx e)"
  by (auto simp: keeps_def fail_tx_def)

lemma keeps_guard [keeps_intros]: "keeps P (guard_tx b e)"
  by (auto simp: keeps_def guard_tx_iff)

lemma keeps_check [keeps_intros]: "keeps P (check_tx Q e)"
  by (auto simp: keeps_def check_tx_iff)

lemma keeps_get [keeps_intros]: "keeps P (get_tx f)"
  by (auto simp: keeps_def get_tx_iff)

lemma keeps_row [keeps_intros]: "keeps P (row_tx e f)"
  by (auto simp: keeps_def row_tx_iff)

lemma keeps_bind [keeps_intros]:
  "keeps P m \<Longrightarrow> (\<And>a. keeps P (f a)) \<Longrightarrow> keeps P (bind_tx m f)"
  unfolding keeps_def bind_tx_iff by blast

lemma keeps_seq [keeps_intros]: "keeps P m \<Longrightarrow> keeps P k \<Longrightarrow> keeps P (seq_tx m k)"
  by (simp add: seq_tx_def keeps_bind)

lemma keeps_when [keeps_intros]: "(b \<Longrightarrow> keeps P m) \<Longrightarrow> keeps P (when_tx b m)"
  by (simp add: when_tx_def keeps_ret)

lemma keeps_if [keeps_intros]:
  "(b \<Longrightarrow> keeps P m) \<Longrightarrow> (\<not> b \<Longrightarrow> keeps P k) \<Longrightarrow> keeps P (if b then m else k)"
  by simp

lemma keeps_option [keeps_intros]:
  "(x = None \<Longrightarrow> keeps P m) \<Longrightarrow> (\<And>a. x = Some a \<Longrightarrow> keeps P (f a)) \<Longrightarrow>
   keeps P (case x of None \<Rightarrow> m | Some a \<Rightarrow> f a)"
  by (cases x) auto

lemma keeps_iter [keeps_intros]:
  "(\<And>x. x \<in> set xs \<Longrightarrow> keeps P (f x)) \<Longrightarrow> keeps P (iter_tx f xs)"
  by (induction xs) (simp_all add: keeps_ret keeps_bind)

lemma keeps_fold [keeps_intros]:
  "(\<And>x b. x \<in> set xs \<Longrightarrow> keeps P (f x b)) \<Longrightarrow> keeps P (fold_tx f xs b)"
  by (induction xs arbitrary: b) (simp_all add: keeps_ret keeps_bind)

lemma in_tx_keeps: "keeps P m \<Longrightarrow> P s \<Longrightarrow> P (snd (in_tx m s))"
  by (auto simp: in_tx_def split: sum.splits dest: keepsD)

section \<open>Tables\<close>

text \<open>
  A relation keyed by id is an association list in insertion order: \<open>tbl_ins\<close> is INSERT,
  \<open>tbl_upd\<close> is UPDATE of one id, \<open>tbl_map\<close> is UPDATE with a WHERE clause, \<open>tbl_del\<close> is
  DELETE with a WHERE clause and \<open>map_of\<close> is SELECT by primary key.
\<close>

type_synonym 'r table = "(uuid \<times> 'r) list"

abbreviation keys :: "('k \<times> 'r) list \<Rightarrow> 'k list" where
  "keys t \<equiv> map fst t"

definition tbl_ins :: "'k \<Rightarrow> 'r \<Rightarrow> ('k \<times> 'r) list \<Rightarrow> ('k \<times> 'r) list" where
  "tbl_ins k r t = t @ [(k, r)]"

definition tbl_map :: "('k \<Rightarrow> 'r \<Rightarrow> bool) \<Rightarrow> ('r \<Rightarrow> 'r) \<Rightarrow> ('k \<times> 'r) list \<Rightarrow> ('k \<times> 'r) list" where
  "tbl_map P f t = map (\<lambda>(k, r). (k, if P k r then f r else r)) t"

definition tbl_upd :: "'k \<Rightarrow> ('r \<Rightarrow> 'r) \<Rightarrow> ('k \<times> 'r) list \<Rightarrow> ('k \<times> 'r) list" where
  "tbl_upd k f t = tbl_map (\<lambda>k' _. k' = k) f t"

definition tbl_del :: "('k \<Rightarrow> 'r \<Rightarrow> bool) \<Rightarrow> ('k \<times> 'r) list \<Rightarrow> ('k \<times> 'r) list" where
  "tbl_del P t = filter (\<lambda>(k, r). \<not> P k r) t"

definition tbl_has :: "'k \<Rightarrow> ('k \<times> 'r) list \<Rightarrow> bool" where
  "tbl_has k t \<longleftrightarrow> map_of t k \<noteq> None"

definition tbl_select :: "('k \<Rightarrow> 'r \<Rightarrow> bool) \<Rightarrow> ('k \<times> 'r) list \<Rightarrow> ('k \<times> 'r) list" where
  "tbl_select P t = filter (\<lambda>(k, r). P k r) t"

lemma keys_tbl_ins [simp]: "keys (tbl_ins k r t) = keys t @ [k]"
  by (simp add: tbl_ins_def)

lemma keys_tbl_map [simp]: "keys (tbl_map P f t) = keys t"
  by (induction t) (auto simp: tbl_map_def)

lemma keys_tbl_upd [simp]: "keys (tbl_upd k f t) = keys t"
  by (simp add: tbl_upd_def)

lemma map_of_tbl_map:
  "map_of (tbl_map P f t) k = map_option (\<lambda>r. if P k r then f r else r) (map_of t k)"
  by (induction t) (auto simp: tbl_map_def)

lemma map_of_tbl_upd [simp]:
  "map_of (tbl_upd k f t) k' = (if k' = k then map_option f (map_of t k) else map_of t k')"
  by (auto simp: tbl_upd_def map_of_tbl_map option.map_ident cong: option.map_cong)

lemma map_of_tbl_ins:
  "k \<notin> set (keys t) \<Longrightarrow> map_of (tbl_ins k r t) k' = (if k' = k then Some r else map_of t k')"
  by (induction t) (auto simp: tbl_ins_def)

lemma map_of_tbl_del:
  "distinct (keys t) \<Longrightarrow>
   map_of (tbl_del P t) k = (case map_of t k of None \<Rightarrow> None
     | Some r \<Rightarrow> if P k r then None else Some r)"
proof (induction t)
  case Nil
  then show ?case by (simp add: tbl_del_def)
next
  case (Cons x t)
  obtain k0 r0 where x: "x = (k0, r0)" by (cases x)
  show ?case
  proof (cases "k = k0")
    case True
    with Cons.prems x have "map_of t k = None"
      by (simp add: map_of_eq_None_iff)
    then have "map_of (filter (\<lambda>(k, r). \<not> P k r) t) k = None"
      by (auto simp: map_of_eq_None_iff)
    with True x show ?thesis by (simp add: tbl_del_def)
  next
    case False
    with Cons x show ?thesis by (simp add: tbl_del_def)
  qed
qed

lemma set_keys_tbl_del: "set (keys (tbl_del P t)) \<subseteq> set (keys t)"
  by (auto simp: tbl_del_def)

lemma distinct_keys_tbl_del: "distinct (keys t) \<Longrightarrow> distinct (keys (tbl_del P t))"
  by (simp add: tbl_del_def distinct_map_filter)

lemma map_of_Some_in_keys: "map_of t k = Some r \<Longrightarrow> k \<in> set (keys t)"
  by (force dest: map_of_SomeD)

lemma map_of_None_keys: "map_of t k = None \<longleftrightarrow> k \<notin> set (keys t)"
  by (simp add: map_of_eq_None_iff)

lemma set_tbl_ins [simp]: "set (tbl_ins k r t) = insert (k, r) (set t)"
  by (auto simp: tbl_ins_def)

lemma tbl_has_keys: "tbl_has k t \<longleftrightarrow> k \<in> set (keys t)"
  by (simp add: tbl_has_def map_of_eq_None_iff)

lemma map_of_insert_fresh: "\<not> tbl_has k t \<Longrightarrow> map_of (tbl_ins k r t) = (map_of t)(k \<mapsto> r)"
  by (simp add: map_of_tbl_ins tbl_has_keys fun_eq_iff)

text \<open>
  Sums over a table: the effect of each write on a total of an integer column.
\<close>

definition tbl_sum :: "('k \<Rightarrow> 'r \<Rightarrow> int) \<Rightarrow> ('k \<times> 'r) list \<Rightarrow> int" where
  "tbl_sum f t = sum_list (map (\<lambda>(k, r). f k r) t)"

lemma tbl_sum_ins [simp]: "tbl_sum f (tbl_ins k r t) = tbl_sum f t + f k r"
  by (simp add: tbl_sum_def tbl_ins_def)

lemma tbl_sum_Nil [simp]: "tbl_sum f [] = 0"
  by (simp add: tbl_sum_def)

lemma tbl_sum_Cons [simp]: "tbl_sum f ((k, r) # t) = f k r + tbl_sum f t"
  by (simp add: tbl_sum_def)

lemma tbl_sum_upd_absent: "k \<notin> set (keys t) \<Longrightarrow> tbl_upd k g t = t"
  by (induction t) (auto simp: tbl_upd_def tbl_map_def)

lemma tbl_upd_Cons:
  "tbl_upd k g ((k', r) # t) = (k', if k' = k then g r else r) # tbl_upd k g t"
  by (simp add: tbl_upd_def tbl_map_def)

lemma tbl_sum_upd:
  "distinct (keys t) \<Longrightarrow> map_of t k = Some r \<Longrightarrow>
   tbl_sum f (tbl_upd k g t) = tbl_sum f t - f k r + f k (g r)"
proof (induction t)
  case Nil
  then show ?case by simp
next
  case (Cons x t)
  obtain k0 r0 where x: "x = (k0, r0)" by (cases x)
  show ?case
  proof (cases "k0 = k")
    case True
    with Cons.prems x have "k \<notin> set (keys t)" by simp
    with True Cons.prems x show ?thesis
      by (simp add: tbl_upd_Cons tbl_sum_upd_absent)
  next
    case False
    with Cons x show ?thesis by (simp add: tbl_upd_Cons)
  qed
qed

lemma tbl_sum_map_cong:
  "(\<And>k r. (k, r) \<in> set t \<Longrightarrow> P k r \<Longrightarrow> f k (g r) = f k r) \<Longrightarrow>
   tbl_sum f (tbl_map P g t) = tbl_sum f t"
  by (induction t) (auto simp: tbl_map_def tbl_sum_def)

lemma tbl_sum_zero: "(\<And>k r. (k, r) \<in> set t \<Longrightarrow> f k r = 0) \<Longrightarrow> tbl_sum f t = 0"
  by (induction t) auto

lemma tbl_sum_del_zero:
  "(\<And>k r. (k, r) \<in> set t \<Longrightarrow> P k r \<Longrightarrow> f k r = 0) \<Longrightarrow> tbl_sum f (tbl_del P t) = tbl_sum f t"
  by (induction t) (auto simp: tbl_del_def tbl_sum_def)

text \<open>Rows that change their owner carry their amount along.\<close>

lemma tbl_sum_repoint:
  assumes "old \<noteq> new" and "\<And>r. owner r = old \<Longrightarrow> owner (g r) = new \<and> amount (g r) = amount r"
  shows "tbl_sum (\<lambda>_ r. if owner r = p then amount r else 0) (tbl_map (\<lambda>_ r. owner r = old) g t)
    = (if p = old then 0
       else tbl_sum (\<lambda>_ r. if owner r = p then amount r else 0) t
          + (if p = new then tbl_sum (\<lambda>_ r. if owner r = old then amount r else 0) t else 0))"
  using assms by (induction t) (auto simp: tbl_map_def tbl_sum_def)

lemma tbl_del_none: "(\<And>k r. (k, r) \<in> set t \<Longrightarrow> \<not> P k r) \<Longrightarrow> tbl_del P t = t"
  by (induction t) (auto simp: tbl_del_def)

lemma tbl_map_none: "(\<And>k r. (k, r) \<in> set t \<Longrightarrow> \<not> P k r) \<Longrightarrow> tbl_map P f t = t"
  by (induction t) (auto simp: tbl_map_def)

lemma tbl_del_key_absent: "k \<notin> set (keys t) \<Longrightarrow> tbl_del (\<lambda>k' _. k' = k) t = t"
  by (induction t) (auto simp: tbl_del_def)

lemma tbl_sum_del_key:
  "distinct (keys t) \<Longrightarrow> map_of t k = Some r \<Longrightarrow>
   tbl_sum f (tbl_del (\<lambda>k' _. k' = k) t) = tbl_sum f t - f k r"
proof (induction t)
  case Nil
  then show ?case by simp
next
  case (Cons x t)
  obtain k0 r0 where x: "x = (k0, r0)" by (cases x)
  show ?case
  proof (cases "k0 = k")
    case True
    with Cons.prems x have "k \<notin> set (keys t)" by simp
    then have "tbl_del (\<lambda>k' _. k' = k) t = t" by (rule tbl_del_key_absent)
    with True Cons.prems x show ?thesis by (simp add: tbl_del_def)
  next
    case False
    with Cons x show ?thesis by (simp add: tbl_del_def)
  qed
qed

section \<open>PostgreSQL integers\<close>

text \<open>An INT column holds a 32-bit signed integer; a value outside is a database error.\<close>

definition int4 :: "int \<Rightarrow> bool" where
  "int4 n \<longleftrightarrow> - (2 ^ 31) \<le> n \<and> n < 2 ^ 31"

text \<open>A check on an optional column computes.\<close>

lemma pred_option_code [code]:
  "pred_option P None = True"
  "pred_option P (Some x) = P x"
  by simp_all

end
