(* ===== verification/Images.thy ===== *)
theory Images
  imports Prelude "HOL-Library.Word"
begin

text \<open>
  \<open>internal/images\<close>: the EXIF orientation parser (\<open>exif.go\<close>), the pixel rotation
  (\<open>transform.go\<close>) and the metadata stripping of JPEG and PNG files (\<open>strip.go\<close>). A Go byte
  slice is a list of 8-bit words; an index into the file is represented by the suffix that starts
  there, so every indexed read keeps the length check the code makes before it. The pixel codecs
  \<open>image/jpeg\<close> and \<open>image/png\<close> are arguments (record \<open>codec\<close>); what is proved of the
  stripping path does not depend on them.
\<close>

section \<open>Bytes\<close>

type_synonym byte = "8 word"

definition byte_of :: "nat \<Rightarrow> byte" where
  "byte_of n = word_of_nat n"

definition u16be :: "byte \<Rightarrow> byte \<Rightarrow> nat" where
  "u16be a b = unat a * 256 + unat b"

definition u32be :: "byte \<Rightarrow> byte \<Rightarrow> byte \<Rightarrow> byte \<Rightarrow> nat" where
  "u32be a b c d = u16be a b * 65536 + u16be c d"

lemma unat_byte_less [simp]: "unat (b :: byte) < 256"
  using unsigned_less [of b] by simp

lemma u16be_less: "u16be a b < 65536"
proof -
  have "unat a \<le> 255" and "unat b \<le> 255"
    using unat_byte_less [of a] unat_byte_less [of b] by linarith+
  then show ?thesis by (simp add: u16be_def)
qed

lemma u16be_byte_of:
  assumes "n < 65536"
  shows "u16be (byte_of (n div 256)) (byte_of n) = n"
proof -
  have "n div 256 < 256" using assms by linarith
  then show ?thesis
    by (simp add: u16be_def byte_of_def unat_of_nat)
qed

section \<open>Orientation\<close>

text \<open>\<open>Orientation\<close> is a \<open>uint16\<close>; the eight defined values are 1 to 8.\<close>

type_synonym orientation = nat

definition orientation_normal :: orientation where "orientation_normal = 1"

definition orientation_first_invalid :: orientation where "orientation_first_invalid = 9"

definition needs_transform :: "orientation \<Rightarrow> bool" where
  "needs_transform o' \<longleftrightarrow> o' > orientation_normal \<and> o' < orientation_first_invalid"

definition normalize_orientation :: "nat \<Rightarrow> orientation" where
  "normalize_orientation raw =
     (if raw < orientation_normal \<or> raw \<ge> orientation_first_invalid
      then orientation_normal else raw)"

datatype byte_order = LittleEndian | BigEndian

definition ord_u16 :: "byte_order \<Rightarrow> byte list \<Rightarrow> nat \<Rightarrow> nat" where
  "ord_u16 bo p i = (case bo of
      LittleEndian \<Rightarrow> u16be (p ! (i + 1)) (p ! i)
    | BigEndian \<Rightarrow> u16be (p ! i) (p ! (i + 1)))"

definition ord_u32 :: "byte_order \<Rightarrow> byte list \<Rightarrow> nat \<Rightarrow> nat" where
  "ord_u32 bo p i = (case bo of
      LittleEndian \<Rightarrow> u32be (p ! (i + 3)) (p ! (i + 2)) (p ! (i + 1)) (p ! i)
    | BigEndian \<Rightarrow> u32be (p ! i) (p ! (i + 1)) (p ! (i + 2)) (p ! (i + 3)))"

definition tag_orientation :: nat where "tag_orientation = 0x0112"
definition exif_header :: "byte list" where "exif_header = [0x45, 0x78, 0x69, 0x66, 0, 0]"
definition type_short :: nat where "type_short = 3"
definition type_long :: nat where "type_long = 4"
definition tiff_header_len :: nat where "tiff_header_len = 8"
definition ifd_entry_len :: nat where "ifd_entry_len = 12"
definition max_ifd_entries :: nat where "max_ifd_entries = 512"

text \<open>The entry loop: \<open>left\<close> entries remain and the next one begins at \<open>start\<close>.\<close>

fun ifd_loop :: "byte_order \<Rightarrow> byte list \<Rightarrow> nat \<Rightarrow> nat \<Rightarrow> orientation" where
  "ifd_loop bo p start 0 = orientation_normal"
| "ifd_loop bo p start (Suc left) =
     (if start + ifd_entry_len > length p then orientation_normal
      else if ord_u16 bo p start \<noteq> tag_orientation
        then ifd_loop bo p (start + ifd_entry_len) left
      else if ord_u16 bo p (start + 2) = type_short
        then normalize_orientation (ord_u16 bo p (start + 8))
      else if ord_u16 bo p (start + 2) = type_long
        then normalize_orientation (ord_u32 bo p (start + 8) mod 65536)
      else orientation_normal)"

definition tiff_byte_order :: "byte list \<Rightarrow> byte_order option" where
  "tiff_byte_order p =
     (if p ! 0 = 0x49 \<and> p ! 1 = 0x49 then Some LittleEndian
      else if p ! 0 = 0x4D \<and> p ! 1 = 0x4D then Some BigEndian
      else None)"

definition orientation_from_exif :: "byte list \<Rightarrow> orientation" where
  "orientation_from_exif p =
     (if length p < tiff_header_len then orientation_normal
      else case tiff_byte_order p of
        None \<Rightarrow> orientation_normal
      | Some bo \<Rightarrow>
          if ord_u16 bo p 2 \<noteq> 0x2A then orientation_normal
          else let off = ord_u32 bo p 4 in
            if off > length p mod 2 ^ 32 \<or> off + 2 > length p then orientation_normal
            else ifd_loop bo p (off + 2) (min (ord_u16 bo p off) max_ifd_entries))"

definition valid_orientation :: "orientation \<Rightarrow> bool" where
  "valid_orientation o' \<longleftrightarrow> 1 \<le> o' \<and> o' \<le> 8"

lemma normalize_orientation_valid: "valid_orientation (normalize_orientation n)"
  by (auto simp: normalize_orientation_def valid_orientation_def orientation_normal_def
      orientation_first_invalid_def)

lemma orientation_normal_valid: "valid_orientation orientation_normal"
  by (simp add: valid_orientation_def orientation_normal_def)

lemma ifd_loop_valid: "valid_orientation (ifd_loop bo p start left)"
  by (induction bo p start left rule: ifd_loop.induct)
    (simp_all add: orientation_normal_valid normalize_orientation_valid)

lemma orientation_from_exif_valid: "valid_orientation (orientation_from_exif p)"
  by (simp add: orientation_from_exif_def orientation_normal_valid ifd_loop_valid Let_def
      split: option.split)

text \<open>
  No read leaves the payload: the loop's result depends only on bytes inside the slice, so
  appending anything to the payload of a well-bounded directory cannot change an answer that was
  found inside it.
\<close>

lemma ord_u16_append: "i + 1 < length p \<Longrightarrow> ord_u16 bo (p @ q) i = ord_u16 bo p i"
  by (cases bo) (auto simp: ord_u16_def nth_append)

lemma ord_u32_append: "i + 3 < length p \<Longrightarrow> ord_u32 bo (p @ q) i = ord_u32 bo p i"
  by (cases bo) (auto simp: ord_u32_def nth_append)

lemma ifd_loop_append:
  "ifd_loop bo p start left \<noteq> orientation_normal \<Longrightarrow>
   ifd_loop bo (p @ q) start left = ifd_loop bo p start left"
proof (induction bo p start left rule: ifd_loop.induct)
  case (1 bo p start)
  then show ?case by simp
next
  case (2 bo p start left)
  show ?case
  proof (cases "start + ifd_entry_len > length p")
    case True
    with "2.prems" show ?thesis by simp
  next
    case False
    then have len: "start + 12 \<le> length p" by (simp add: ifd_entry_len_def)
    have "ord_u16 bo (p @ q) start = ord_u16 bo p start"
      "ord_u16 bo (p @ q) (start + 2) = ord_u16 bo p (start + 2)"
      "ord_u16 bo (p @ q) (start + 8) = ord_u16 bo p (start + 8)"
      "ord_u32 bo (p @ q) (start + 8) = ord_u32 bo p (start + 8)"
      using len by (auto intro!: ord_u16_append ord_u32_append)
    with "2" False show ?thesis by (auto split: if_splits)
  qed
qed

section \<open>Pixel rotation\<close>

text \<open>\<open>mapPixel\<close>: where the source pixel lands. Coordinates are Go ints.\<close>

definition map_pixel :: "orientation \<Rightarrow> int \<Rightarrow> int \<Rightarrow> int \<Rightarrow> int \<Rightarrow> int \<times> int" where
  "map_pixel o' x y w h =
     (if o' = 2 then (w - 1 - x, y)
      else if o' = 3 then (w - 1 - x, h - 1 - y)
      else if o' = 4 then (x, h - 1 - y)
      else if o' = 5 then (y, x)
      else if o' = 6 then (h - 1 - y, x)
      else if o' = 7 then (h - 1 - y, w - 1 - x)
      else if o' = 8 then (y, w - 1 - x)
      else (x, y))"

record 'c pixmap =
  pm_w :: int
  pm_h :: int
  pm_at :: "int \<times> int \<Rightarrow> 'c"

definition swaps_axes :: "orientation \<Rightarrow> bool" where
  "swaps_axes o' \<longleftrightarrow> o' = 5 \<or> o' = 6 \<or> o' = 7 \<or> o' = 8"

definition out_dims :: "orientation \<Rightarrow> int \<Rightarrow> int \<Rightarrow> int \<times> int" where
  "out_dims o' w h = (if swaps_axes o' then (h, w) else (w, h))"

text \<open>The two nested loops visit every coordinate, row by row.\<close>

definition coords :: "int \<Rightarrow> int \<Rightarrow> (int \<times> int) list" where
  "coords w h = concat (map (\<lambda>y. map (\<lambda>x. (x, y)) [0..w - 1]) [0..h - 1])"

text \<open>
  \<open>blank\<close> is the zero pixel of a new RGBA image; \<open>conv\<close> is the colour conversion \<open>Set\<close>
  performs.
\<close>

definition apply_orientation :: "'c \<Rightarrow> ('c \<Rightarrow> 'c) \<Rightarrow> 'c pixmap \<Rightarrow> orientation \<Rightarrow> 'c pixmap" where
  "apply_orientation blank conv src o' =
     (if \<not> needs_transform o' then src
      else let w = pm_w src; h = pm_h src in
        \<lparr>pm_w = fst (out_dims o' w h), pm_h = snd (out_dims o' w h),
         pm_at = fold (\<lambda>(x, y) f. f(map_pixel o' x y w h := conv (pm_at src (x, y))))
                   (coords w h) (\<lambda>_. blank)\<rparr>)"

definition in_frame :: "int \<Rightarrow> int \<Rightarrow> int \<times> int \<Rightarrow> bool" where
  "in_frame w h p \<longleftrightarrow> 0 \<le> fst p \<and> fst p < w \<and> 0 \<le> snd p \<and> snd p < h"

lemma set_coords: "p \<in> set (coords w h) \<longleftrightarrow> in_frame w h p"
  by (cases p) (force simp: coords_def in_frame_def)

lemma map_pixel_in_frame:
  "in_frame w h (x, y) \<Longrightarrow>
   in_frame (fst (out_dims o' w h)) (snd (out_dims o' w h)) (map_pixel o' x y w h)"
  by (auto simp: in_frame_def map_pixel_def out_dims_def swaps_axes_def)

lemma map_pixel_inj:
  "map_pixel o' x y w h = map_pixel o' x' y' w h \<Longrightarrow> (x, y) = (x', y')"
  by (auto simp: map_pixel_def split: if_splits)

text \<open>The orientation that undoes another one.\<close>

definition inverse_orientation :: "orientation \<Rightarrow> orientation" where
  "inverse_orientation o' = (if o' = 6 then 8 else if o' = 8 then 6 else o')"

lemma map_pixel_inverse:
  assumes "valid_orientation o'"
  shows "(case map_pixel o' x y w h of (x', y') \<Rightarrow>
            map_pixel (inverse_orientation o') x' y'
              (fst (out_dims o' w h)) (snd (out_dims o' w h))) = (x, y)"
proof -
  from assms have "o' \<in> {1, 2, 3, 4, 5, 6, 7, 8}"
    unfolding valid_orientation_def by (simp add: numeral_eq_Suc) linarith
  then show ?thesis
    by (auto simp: map_pixel_def inverse_orientation_def out_dims_def swaps_axes_def)
qed

lemma fold_upd_other:
  "k \<notin> g ` set xs \<Longrightarrow> fold (\<lambda>x f. f(g x := v x)) xs f0 k = f0 k"
  by (induction xs arbitrary: f0) auto

lemma fold_upd_inj:
  "inj g \<Longrightarrow> x \<in> set xs \<Longrightarrow> fold (\<lambda>x f. f(g x := v x)) xs f0 (g x) = v x"
proof (induction xs arbitrary: f0)
  case Nil
  then show ?case by simp
next
  case (Cons a xs)
  show ?case
  proof (cases "x \<in> set xs")
    case True
    with Cons show ?thesis by simp
  next
    case False
    with Cons.prems have "x = a" and "g x \<notin> g ` set xs"
      by (auto dest: injD)
    then show ?thesis
      using fold_upd_other [of "g x" g xs v "f0(g x := v x)"]
      by (simp only: fold.simps comp_apply fun_upd_same simp_thms)
  qed
qed

lemma apply_orientation_at:
  assumes "needs_transform o'" and "in_frame (pm_w src) (pm_h src) (x, y)"
  shows "pm_at (apply_orientation blank conv src o') (map_pixel o' x y (pm_w src) (pm_h src))
         = conv (pm_at src (x, y))"
proof -
  let ?g = "\<lambda>(x, y). map_pixel o' x y (pm_w src) (pm_h src)"
  have inj: "inj ?g"
    by (auto intro!: injI dest: map_pixel_inj)
  have "(x, y) \<in> set (coords (pm_w src) (pm_h src))"
    using assms(2) by (simp add: set_coords)
  from fold_upd_inj [OF inj this, of "\<lambda>p. conv (pm_at src p)" "\<lambda>_. blank"]
  show ?thesis using assms(1)
    by (simp add: apply_orientation_def Let_def case_prod_beta')
qed


section \<open>JPEG\<close>

datatype img_err =
    ErrUnsupportedFormat | MalformedMarker | TruncatedLength | LengthOutOfRange
  | TruncatedChunk | DecodeFailed | EncodeFailed | TooManyPixels

datatype format = FormatJPEG | FormatPNG

definition extension :: "format \<Rightarrow> string" where
  "extension f = (case f of FormatJPEG \<Rightarrow> ''.jpg'' | FormatPNG \<Rightarrow> ''.png'')"

definition content_type :: "format \<Rightarrow> string" where
  "content_type f = (case f of FormatJPEG \<Rightarrow> ''image/jpeg'' | FormatPNG \<Rightarrow> ''image/png'')"

definition marker_SOI :: byte where "marker_SOI = 0xD8"
definition marker_EOI :: byte where "marker_EOI = 0xD9"
definition marker_SOS :: byte where "marker_SOS = 0xDA"
definition marker_APP0 :: byte where "marker_APP0 = 0xE0"
definition marker_APP1 :: byte where "marker_APP1 = 0xE1"
definition marker_APPF :: byte where "marker_APPF = 0xEF"
definition marker_COM :: byte where "marker_COM = 0xFE"
definition marker_TEM :: byte where "marker_TEM = 0x01"
definition marker_RST0 :: byte where "marker_RST0 = 0xD0"
definition marker_RST7 :: byte where "marker_RST7 = 0xD7"

lemmas marker_defs = marker_SOI_def marker_EOI_def marker_SOS_def marker_APP0_def
  marker_APP1_def marker_APPF_def marker_COM_def marker_TEM_def marker_RST0_def marker_RST7_def

definition is_jpeg :: "byte list \<Rightarrow> bool" where
  "is_jpeg d \<longleftrightarrow> length d \<ge> 2 \<and> d ! 0 = 0xFF \<and> d ! 1 = 0xD8"

definition is_metadata_marker :: "byte \<Rightarrow> bool" where
  "is_metadata_marker m \<longleftrightarrow> (m \<ge> marker_APP0 \<and> m \<le> marker_APPF) \<or> m = marker_COM"

definition is_standalone_marker :: "byte \<Rightarrow> bool" where
  "is_standalone_marker m \<longleftrightarrow> m = marker_TEM \<or> (m \<ge> marker_RST0 \<and> m \<le> marker_RST7)"

lemma dropWhile_Cons_length:
  "dropWhile P xs = y # ys \<Longrightarrow> length ys < length xs"
  using length_dropWhile_le [of P xs] by simp

text \<open>
  \<open>walkJPEGSegments\<close> from the offset whose suffix is \<open>xs\<close>. The visitor takes the marker, the
  payload and its accumulator and says whether to go on; the result is the accumulator and the
  suffix at the returned offset (the empty suffix for \<open>len(data)\<close>).
\<close>

function walk_jpeg_from ::
    "(byte \<Rightarrow> byte list \<Rightarrow> 'a \<Rightarrow> bool \<times> 'a) \<Rightarrow> 'a \<Rightarrow> byte list \<Rightarrow> img_err + ('a \<times> byte list)" where
  "walk_jpeg_from visit acc xs =
     (if length xs < 2 then Inr (acc, [])
      else if xs ! 0 \<noteq> 0xFF then Inl MalformedMarker
      else case dropWhile (\<lambda>b. b = 0xFF) xs of
        [] \<Rightarrow> Inr (acc, [])
      | marker # zs \<Rightarrow>
          if marker = marker_EOI then Inr (acc, zs)
          else if is_standalone_marker marker \<or> marker = marker_SOI
            then walk_jpeg_from visit acc zs
          else if length zs < 2 then Inl TruncatedLength
          else let len = u16be (zs ! 0) (zs ! 1) in
            if len < 2 \<or> len > length zs then Inl LengthOutOfRange
            else case visit marker (take (len - 2) (drop 2 zs)) acc of (cont, acc') \<Rightarrow>
              if \<not> cont then Inr (acc', drop len zs)
              else if marker = marker_SOS then Inr (acc', drop len zs)
              else walk_jpeg_from visit acc' (drop len zs))"
  by pat_completeness auto

termination
  by (relation "measure (\<lambda>(v, a, xs). length xs)") (auto dest: dropWhile_Cons_length)

declare walk_jpeg_from.simps [simp del]

definition walk_jpeg ::
    "(byte \<Rightarrow> byte list \<Rightarrow> 'a \<Rightarrow> bool \<times> 'a) \<Rightarrow> 'a \<Rightarrow> byte list \<Rightarrow> img_err + ('a \<times> byte list)" where
  "walk_jpeg visit acc d =
     (if \<not> is_jpeg d then Inl ErrUnsupportedFormat else walk_jpeg_from visit acc (drop 2 d))"

text \<open>\<open>jpegOrientation\<close>: the first EXIF segment decides and stops the walk.\<close>

definition orientation_visit :: "byte \<Rightarrow> byte list \<Rightarrow> orientation \<Rightarrow> bool \<times> orientation" where
  "orientation_visit m p acc =
     (if m \<noteq> marker_APP1 \<or> length p < length exif_header then (True, acc)
      else if take (length exif_header) p \<noteq> exif_header then (True, acc)
      else (False, orientation_from_exif (drop (length exif_header) p)))"

definition jpeg_orientation :: "byte list \<Rightarrow> img_err + orientation" where
  "jpeg_orientation d = map_sum id fst (walk_jpeg orientation_visit orientation_normal d)"

text \<open>\<open>dropJPEGMetadataSegments\<close>: the visitor appends each kept segment to the output.\<close>

definition segment_bytes :: "byte \<Rightarrow> byte list \<Rightarrow> byte list" where
  "segment_bytes m p =
     [0xFF, m, byte_of ((length p + 2) div 256), byte_of (length p + 2)] @ p"

definition drop_visit :: "byte \<Rightarrow> byte list \<Rightarrow> byte list \<Rightarrow> bool \<times> byte list" where
  "drop_visit m p out =
     (True, if is_metadata_marker m then out else out @ segment_bytes m p)"

definition drop_jpeg_metadata :: "byte list \<Rightarrow> img_err + byte list" where
  "drop_jpeg_metadata d =
     (case walk_jpeg drop_visit [0xFF, marker_SOI] d of
        Inl e \<Rightarrow> Inl e
      | Inr (out, scan) \<Rightarrow> Inr (out @ scan))"


text \<open>The segments of a file: the walk with a visitor that collects every segment.\<close>

type_synonym segment = "byte \<times> byte list"

definition collect_visit :: "byte \<Rightarrow> byte list \<Rightarrow> segment list \<Rightarrow> bool \<times> segment list" where
  "collect_visit m p acc = (True, acc @ [(m, p)])"

definition jpeg_segments :: "byte list \<Rightarrow> img_err + (segment list \<times> byte list)" where
  "jpeg_segments d = walk_jpeg collect_visit [] d"

definition segs_bytes :: "segment list \<Rightarrow> byte list" where
  "segs_bytes ss = concat (map (\<lambda>(m, p). segment_bytes m p) ss)"

definition render_jpeg :: "segment list \<Rightarrow> byte list \<Rightarrow> byte list" where
  "render_jpeg ss scan = [0xFF, marker_SOI] @ segs_bytes ss @ scan"

definition wf_segment :: "segment \<Rightarrow> bool" where
  "wf_segment s \<longleftrightarrow> fst s \<noteq> 0xFF \<and> fst s \<noteq> marker_EOI \<and> fst s \<noteq> marker_SOI
     \<and> \<not> is_standalone_marker (fst s) \<and> length (snd s) + 2 < 65536"

text \<open>
  A segment list is well ended when bytes follow it only after a start-of-scan segment. An end
  marker in front of the scan is the one way a file can fail it.
\<close>

fun well_ended :: "segment list \<Rightarrow> byte list \<Rightarrow> bool" where
  "well_ended [] r \<longleftrightarrow> r = []"
| "well_ended (s # ss) r \<longleftrightarrow> (if fst s = marker_SOS then ss = [] else well_ended ss r)"

definition jpeg_ended :: "segment list \<Rightarrow> byte list \<Rightarrow> bool" where
  "jpeg_ended ss r \<longleftrightarrow> list_all wf_segment ss \<and> well_ended ss r"

definition jpeg_meta :: "segment \<Rightarrow> bool" where
  "jpeg_meta s \<longleftrightarrow> is_metadata_marker (fst s)"

lemma SOS_not_meta: "\<not> is_metadata_marker marker_SOS"
  by (simp add: is_metadata_marker_def marker_defs)

lemma walk_jpeg_from_fold_aux:
  assumes v: "\<And>m p a. v m p a = (True, g (m, p) a)" and "visit = collect_visit"
  shows "walk_jpeg_from v (fold g pre a) xs
       = map_sum id (\<lambda>(ss, r). (fold g ss a, r)) (walk_jpeg_from visit pre xs)"
  using assms(2)
proof (induction visit pre xs rule: walk_jpeg_from.induct)
  case (1 visit pre xs)
  note IH = "1.IH"
  show ?case
  proof (cases "length xs < 2 \<or> xs ! 0 \<noteq> 0xFF")
    case True
    then show ?thesis
      by (auto simp: walk_jpeg_from.simps [of v] walk_jpeg_from.simps [of visit])
  next
    case False
    then have f: "\<not> length xs < 2" "\<not> xs ! 0 \<noteq> 0xFF" by auto
    show ?thesis
    proof (cases "dropWhile (\<lambda>b. b = 0xFF) xs")
      case Nil
      with f show ?thesis
        by (simp add: walk_jpeg_from.simps [of v _ xs] walk_jpeg_from.simps [of visit _ xs]
            del: dropWhile_eq_Nil_conv)
    next
      case (Cons marker zs)
      show ?thesis
      proof (cases "marker = marker_EOI")
        case True
        with f Cons show ?thesis
          by (simp add: walk_jpeg_from.simps [of v _ xs] walk_jpeg_from.simps [of visit _ xs])
      next
        case ne: False
        show ?thesis
        proof (cases "is_standalone_marker marker \<or> marker = marker_SOI")
          case True
          with f Cons ne IH(1) [OF f Cons ne True "1.prems"] show ?thesis
            by (simp add: walk_jpeg_from.simps [of v _ xs] walk_jpeg_from.simps [of visit _ xs])
        next
          case ns: False
          show ?thesis
          proof (cases "length zs < 2 \<or> u16be (zs ! 0) (zs ! 1) < 2
              \<or> u16be (zs ! 0) (zs ! 1) > length zs \<or> marker = marker_SOS")
            case True
            have "visit marker p pre = (True, pre @ [(marker, p)])" for p
              using "1.prems" by (simp add: collect_visit_def)
            moreover have "v marker p (fold g pre a) = (True, g (marker, p) (fold g pre a))" for p
              by (rule v)
            ultimately show ?thesis using f Cons ne ns True
              by (auto simp: walk_jpeg_from.simps [of v _ xs] walk_jpeg_from.simps [of visit _ xs]
                  Let_def)
          next
            case go: False
            let ?len = "u16be (zs ! 0) (zs ! 1)"
            let ?p = "take (?len - 2) (drop 2 zs)"
            have vis: "visit marker ?p pre = (True, pre @ [(marker, ?p)])"
              using "1.prems" by (simp add: collect_visit_def)
            have "walk_jpeg_from v (fold g (pre @ [(marker, ?p)]) a) (drop ?len zs)
              = map_sum id (\<lambda>(ss, r). (fold g ss a, r))
                  (walk_jpeg_from visit (pre @ [(marker, ?p)]) (drop ?len zs))"
              using go "1.prems" by (intro IH(2) [OF f Cons ne ns _ refl _ vis [symmetric]]) auto
            with f Cons ne ns go vis v [of marker ?p "fold g pre a"] show ?thesis
              by (simp add: walk_jpeg_from.simps [of v _ xs] walk_jpeg_from.simps [of visit _ xs]
                  Let_def id_def)
          qed
        qed
      qed
    qed
  qed
qed

lemma walk_jpeg_fold:
  assumes "\<And>m p a. v m p a = (True, g (m, p) a)"
  shows "walk_jpeg v a d = map_sum id (\<lambda>(ss, r). (fold g ss a, r)) (jpeg_segments d)"
  using walk_jpeg_from_fold_aux [of v g collect_visit "[]" a, OF assms refl]
  by (simp add: walk_jpeg_def jpeg_segments_def)

lemma fold_append_bytes:
  "fold (\<lambda>(m, p) out. if is_metadata_marker m then out else out @ segment_bytes m p) ss out
   = out @ segs_bytes (filter (\<lambda>s. \<not> jpeg_meta s) ss)"
  by (induction ss arbitrary: out) (auto simp: segs_bytes_def jpeg_meta_def)

lemma drop_jpeg_metadata_eq:
  "drop_jpeg_metadata d =
     map_sum id (\<lambda>(ss, scan). render_jpeg (filter (\<lambda>s. \<not> jpeg_meta s) ss) scan) (jpeg_segments d)"
proof -
  have "walk_jpeg drop_visit [0xFF, marker_SOI] d
      = map_sum id (\<lambda>(ss, r). (fold (\<lambda>(m, p) out. if is_metadata_marker m then out
          else out @ segment_bytes m p) ss [0xFF, marker_SOI], r)) (jpeg_segments d)"
    by (rule walk_jpeg_fold) (simp add: drop_visit_def)
  then show ?thesis
    by (cases "jpeg_segments d")
      (auto simp: drop_jpeg_metadata_def fold_append_bytes render_jpeg_def)
qed

lemma walk_jpeg_segment:
  assumes "wf_segment (m, p)"
  shows "walk_jpeg_from visit acc (segment_bytes m p @ t)
       = (case visit m p acc of (cont, acc') \<Rightarrow>
            if \<not> cont \<or> m = marker_SOS then Inr (acc', t) else walk_jpeg_from visit acc' t)"
  using assms u16be_byte_of [of "length p + 2"]
  by (simp add: walk_jpeg_from.simps [of visit acc] wf_segment_def segment_bytes_def Let_def
      split: prod.split)

lemma walk_jpeg_Nil [simp]: "walk_jpeg_from visit acc [] = Inr (acc, [])"
  by (simp add: walk_jpeg_from.simps)

lemma walk_jpeg_render:
  "list_all wf_segment ss \<Longrightarrow> well_ended ss r \<Longrightarrow>
   walk_jpeg_from collect_visit pre (segs_bytes ss @ r) = Inr (pre @ ss, r)"
proof (induction ss arbitrary: pre)
  case Nil
  then show ?case by (simp add: segs_bytes_def)
next
  case (Cons s ss)
  obtain m p where s: "s = (m, p)" by (cases s)
  have "segs_bytes (s # ss) @ r = segment_bytes m p @ (segs_bytes ss @ r)"
    by (simp add: segs_bytes_def s)
  moreover have "ss = []" if "m = marker_SOS"
    using Cons.prems(2) that s by simp
  ultimately show ?case
    using Cons s by (auto simp: walk_jpeg_segment collect_visit_def segs_bytes_def)
qed

lemma jpeg_segments_render:
  "jpeg_ended ss r \<Longrightarrow> jpeg_segments (render_jpeg ss r) = Inr (ss, r)"
  by (simp add: jpeg_segments_def walk_jpeg_def render_jpeg_def is_jpeg_def marker_SOI_def
      walk_jpeg_render jpeg_ended_def)

lemma jpeg_ended_filter: "jpeg_ended ss r \<Longrightarrow> jpeg_ended (filter (\<lambda>s. \<not> jpeg_meta s) ss) r"
  by (induction ss) (auto simp: jpeg_ended_def jpeg_meta_def SOS_not_meta)

text \<open>Every segment the walk visits is well formed, so only the end of the walk matters.\<close>

lemma dropWhile_hd: "dropWhile P xs = y # ys \<Longrightarrow> \<not> P y"
  by (metis hd_dropWhile list.distinct(1) list.sel(1))

lemma walk_collect_wf:
  "walk_jpeg_from visit pre xs = Inr (ss, r) \<Longrightarrow> visit = collect_visit \<Longrightarrow>
   list_all wf_segment pre \<Longrightarrow> list_all wf_segment ss"
proof (induction visit pre xs rule: walk_jpeg_from.induct)
  case (1 visit pre xs)
  note IH = "1.IH"
  from "1.prems"(1) have f: "\<not> xs ! 0 \<noteq> 0xFF" if "\<not> length xs < 2"
    using that by (auto simp: walk_jpeg_from.simps [of visit pre xs] split: if_splits)
  show ?case
  proof (cases "length xs < 2 \<or> dropWhile (\<lambda>b. b = 0xFF) xs = []")
    case True
    with "1.prems" f show ?thesis
      by (auto simp: walk_jpeg_from.simps [of collect_visit pre xs] split: if_splits
          simp del: dropWhile_eq_Nil_conv)
  next
    case False
    then have l: "\<not> length xs < 2" by simp
    from False obtain m zs where Cons: "dropWhile (\<lambda>b. b = 0xFF) xs = m # zs"
      by (cases "dropWhile (\<lambda>b. b = 0xFF) xs") auto
    have mff: "m \<noteq> 0xFF" using dropWhile_hd [OF Cons] .
    show ?thesis
    proof (cases "m = marker_EOI \<or> is_standalone_marker m \<or> m = marker_SOI")
      case True
      with IH(1) [OF l f [OF l] Cons] "1.prems" l f [OF l] Cons show ?thesis
        by (cases "m = marker_EOI") (auto simp: walk_jpeg_from.simps [of collect_visit pre xs])
    next
      case ns: False
      let ?len = "u16be (zs ! 0) (zs ! 1)"
      let ?p = "take (?len - 2) (drop 2 zs)"
      from "1.prems" l f [OF l] Cons ns
      have ok: "\<not> length zs < 2" "\<not> (?len < 2 \<or> ?len > length zs)"
        by (auto simp: walk_jpeg_from.simps [of collect_visit pre xs] Let_def split: if_splits)
      have vis: "visit m ?p pre = (True, pre @ [(m, ?p)])"
        using "1.prems"(2) by (simp add: collect_visit_def)
      have "length ?p + 2 \<le> ?len"
        using ok unfolding length_take length_drop by linarith
      then have wf: "wf_segment (m, ?p)"
        using ns mff u16be_less [of "zs ! 0" "zs ! 1"] by (simp add: wf_segment_def)
      show ?thesis
      proof (cases "m = marker_SOS")
        case True
        with "1.prems"(1,3) l f [OF l] Cons ns ok vis wf show ?thesis
          by (auto simp: walk_jpeg_from.simps [of visit pre xs] Let_def)
      next
        case go: False
        have "walk_jpeg_from visit (pre @ [(m, ?p)]) (drop ?len zs) = Inr (ss, r)"
          using "1.prems"(1) l f [OF l] Cons ns ok vis go
          by (simp add: walk_jpeg_from.simps [of visit pre xs] Let_def)
        then show ?thesis
          using "1.prems" wf ns go
          by (intro IH(2) [OF l f [OF l] Cons _ _ ok(1) refl ok(2) vis [symmetric]]) auto
      qed
    qed
  qed
qed

lemma jpeg_segments_wf: "jpeg_segments d = Inr (ss, r) \<Longrightarrow> list_all wf_segment ss"
  by (auto simp: jpeg_segments_def walk_jpeg_def split: if_splits intro: walk_collect_wf)

section \<open>PNG\<close>

definition png_signature :: "byte list" where
  "png_signature = [0x89, 0x50, 0x4E, 0x47, 0x0D, 0x0A, 0x1A, 0x0A]"

definition is_png :: "byte list \<Rightarrow> bool" where
  "is_png d \<longleftrightarrow> length d \<ge> length png_signature \<and> take (length png_signature) d = png_signature"

definition chunk_eXIf :: "byte list" where "chunk_eXIf = [0x65, 0x58, 0x49, 0x66]"
definition chunk_tEXt :: "byte list" where "chunk_tEXt = [0x74, 0x45, 0x58, 0x74]"
definition chunk_iTXt :: "byte list" where "chunk_iTXt = [0x69, 0x54, 0x58, 0x74]"
definition chunk_zTXt :: "byte list" where "chunk_zTXt = [0x7A, 0x54, 0x58, 0x74]"
definition chunk_IEND :: "byte list" where "chunk_IEND = [0x49, 0x45, 0x4E, 0x44]"

definition png_metadata_chunks :: "byte list list" where
  "png_metadata_chunks = [chunk_eXIf, chunk_tEXt, chunk_iTXt, chunk_zTXt]"

definition png_chunk_header_len :: nat where "png_chunk_header_len = 8"
definition png_chunk_crc_len :: nat where "png_chunk_crc_len = 4"

lemmas png_len_defs = png_chunk_header_len_def png_chunk_crc_len_def

definition chunk_length :: "byte list \<Rightarrow> nat" where
  "chunk_length xs = u32be (xs ! 0) (xs ! 1) (xs ! 2) (xs ! 3)"

definition chunk_type :: "byte list \<Rightarrow> byte list" where
  "chunk_type xs = take 4 (drop 4 xs)"

text \<open>
  \<open>walkPNGChunks\<close> from the offset whose suffix is \<open>xs\<close>. No visitor of the package returns an
  error, so the visitor is a plain accumulation. What follows IEND, and a tail shorter than a
  chunk header, is not visited.
\<close>

function walk_png_from ::
    "(byte list \<Rightarrow> byte list \<Rightarrow> 'a \<Rightarrow> 'a) \<Rightarrow> 'a \<Rightarrow> byte list \<Rightarrow> img_err + 'a" where
  "walk_png_from visit acc xs =
     (if length xs < png_chunk_header_len then Inr acc
      else let n = png_chunk_header_len + chunk_length xs + png_chunk_crc_len in
        if n > length xs then Inl TruncatedChunk
        else let acc' = visit (chunk_type xs) (take n xs) acc in
          if chunk_type xs = chunk_IEND then Inr acc'
          else walk_png_from visit acc' (drop n xs))"
  by pat_completeness auto

termination
  by (relation "measure (\<lambda>(v, a, xs). length xs)") (auto simp: png_len_defs)

declare walk_png_from.simps [simp del]

definition walk_png ::
    "(byte list \<Rightarrow> byte list \<Rightarrow> 'a \<Rightarrow> 'a) \<Rightarrow> 'a \<Rightarrow> byte list \<Rightarrow> img_err + 'a" where
  "walk_png visit acc d =
     (if \<not> is_png d then Inl ErrUnsupportedFormat
      else walk_png_from visit acc (drop (length png_signature) d))"

text \<open>\<open>pngOrientation\<close>: the last \<open>eXIf\<close> chunk decides; a JPEG-style prefix is tolerated.\<close>

definition chunk_payload :: "byte list \<Rightarrow> byte list" where
  "chunk_payload whole =
     take (length whole - png_chunk_crc_len - png_chunk_header_len) (drop png_chunk_header_len whole)"

definition exif_payload :: "byte list \<Rightarrow> byte list" where
  "exif_payload p =
     (if length p \<ge> length exif_header \<and> take (length exif_header) p = exif_header
      then drop (length exif_header) p else p)"

definition png_orientation_visit :: "byte list \<Rightarrow> byte list \<Rightarrow> orientation \<Rightarrow> orientation" where
  "png_orientation_visit ty whole acc =
     (if ty \<noteq> chunk_eXIf then acc else orientation_from_exif (exif_payload (chunk_payload whole)))"

definition png_orientation :: "byte list \<Rightarrow> img_err + orientation" where
  "png_orientation d = walk_png png_orientation_visit orientation_normal d"

definition png_drop_visit :: "byte list \<Rightarrow> byte list \<Rightarrow> byte list \<Rightarrow> byte list" where
  "png_drop_visit ty whole out = (if ty \<in> set png_metadata_chunks then out else out @ whole)"

definition drop_png_metadata :: "byte list \<Rightarrow> img_err + byte list" where
  "drop_png_metadata d = walk_png png_drop_visit png_signature d"

text \<open>The chunks of a file, each with its header and checksum.\<close>

definition png_collect_visit :: "byte list \<Rightarrow> byte list \<Rightarrow> byte list list \<Rightarrow> byte list list" where
  "png_collect_visit ty whole acc = acc @ [whole]"

definition png_chunks :: "byte list \<Rightarrow> img_err + byte list list" where
  "png_chunks d = walk_png png_collect_visit [] d"

definition render_png :: "byte list list \<Rightarrow> byte list" where
  "render_png cs = png_signature @ concat cs"

definition png_meta :: "byte list \<Rightarrow> bool" where
  "png_meta c \<longleftrightarrow> chunk_type c \<in> set png_metadata_chunks"

definition wf_chunk :: "byte list \<Rightarrow> bool" where
  "wf_chunk c \<longleftrightarrow> length c = png_chunk_header_len + chunk_length c + png_chunk_crc_len"

fun png_ended :: "byte list list \<Rightarrow> bool" where
  "png_ended [] \<longleftrightarrow> True"
| "png_ended (c # cs) \<longleftrightarrow> wf_chunk c \<and> (chunk_type c = chunk_IEND \<longrightarrow> cs = []) \<and> png_ended cs"

lemma chunk_length_append: "length c \<ge> 4 \<Longrightarrow> chunk_length (c @ t) = chunk_length c"
  by (auto simp: chunk_length_def nth_append)

lemma chunk_type_append: "length c \<ge> 8 \<Longrightarrow> chunk_type (c @ t) = chunk_type c"
  by (simp add: chunk_type_def)

lemma chunk_length_take: "n \<ge> 4 \<Longrightarrow> chunk_length (take n xs) = chunk_length xs"
  by (simp add: chunk_length_def)

lemma chunk_type_take: "n \<ge> 8 \<Longrightarrow> chunk_type (take n xs) = chunk_type xs"
  by (simp add: chunk_type_def drop_take)

lemma walk_png_from_fold:
  "walk_png_from v (fold (\<lambda>c. v (chunk_type c) c) pre a) xs
   = map_sum id (\<lambda>cs. fold (\<lambda>c. v (chunk_type c) c) cs a) (walk_png_from png_collect_visit pre xs)"
proof (induction "png_collect_visit" pre xs rule: walk_png_from.induct)
  case (1 pre xs)
  let ?n = "png_chunk_header_len + chunk_length xs + png_chunk_crc_len"
  have ty: "chunk_type (take ?n xs) = chunk_type xs"
    by (rule chunk_type_take) (simp add: png_len_defs)
  show ?case
  proof (cases "length xs < png_chunk_header_len \<or> ?n > length xs \<or> chunk_type xs = chunk_IEND")
    case True
    then show ?thesis
      by (auto simp: walk_png_from.simps [of _ _ xs] Let_def ty png_collect_visit_def)
  next
    case False
    then have *: "walk_png_from v (fold (\<lambda>c. v (chunk_type c) c) (pre @ [take ?n xs]) a) (drop ?n xs)
      = map_sum id (\<lambda>cs. fold (\<lambda>c. v (chunk_type c) c) cs a)
          (walk_png_from png_collect_visit (pre @ [take ?n xs]) (drop ?n xs))"
      using "1" [OF _ refl _ refl] by (simp add: png_collect_visit_def)
    from False have w': "walk_png_from png_collect_visit pre xs
        = walk_png_from png_collect_visit (pre @ [take ?n xs]) (drop ?n xs)"
      by (simp add: walk_png_from.simps [of png_collect_visit pre xs] Let_def png_collect_visit_def)
    from False have "walk_png_from v (fold (\<lambda>c. v (chunk_type c) c) pre a) xs
        = walk_png_from v (fold (\<lambda>c. v (chunk_type c) c) (pre @ [take ?n xs]) a) (drop ?n xs)"
      by (simp add: walk_png_from.simps [of v "fold (\<lambda>c. v (chunk_type c) c) pre a" xs] Let_def ty)
    with * w' show ?thesis by simp
  qed
qed

lemma walk_png_fold:
  "walk_png v a d = map_sum id (\<lambda>cs. fold (\<lambda>c. v (chunk_type c) c) cs a) (png_chunks d)"
  using walk_png_from_fold [of v "[]" a]
  by (simp add: walk_png_def png_chunks_def)

lemma fold_keep_chunks:
  "fold (\<lambda>c. png_drop_visit (chunk_type c) c) cs out = out @ concat (filter (\<lambda>c. \<not> png_meta c) cs)"
  by (induction cs arbitrary: out) (auto simp: png_drop_visit_def png_meta_def)

lemma drop_png_metadata_eq:
  "drop_png_metadata d = map_sum id (\<lambda>cs. render_png (filter (\<lambda>c. \<not> png_meta c) cs)) (png_chunks d)"
  by (simp add: drop_png_metadata_def walk_png_fold fold_keep_chunks render_png_def)

lemma walk_png_chunk:
  assumes "wf_chunk c"
  shows "walk_png_from visit acc (c @ t) = (let acc' = visit (chunk_type c) c acc in
           if chunk_type c = chunk_IEND then Inr acc' else walk_png_from visit acc' t)"
proof -
  have l: "length c \<ge> 8" "length c = 12 + chunk_length c"
    using assms by (simp_all add: wf_chunk_def png_len_defs)
  then show ?thesis
    by (simp add: walk_png_from.simps [of visit acc "c @ t"] png_len_defs chunk_length_append
        chunk_type_append Let_def)
qed

lemma walk_png_Nil [simp]: "walk_png_from visit acc [] = Inr acc"
  by (simp add: walk_png_from.simps png_len_defs)

lemma walk_png_render:
  "png_ended cs \<Longrightarrow> walk_png_from png_collect_visit pre (concat cs) = Inr (pre @ cs)"
  by (induction cs arbitrary: pre)
    (auto simp: walk_png_chunk png_collect_visit_def Let_def)

lemma png_chunks_render: "png_ended cs \<Longrightarrow> png_chunks (render_png cs) = Inr cs"
  by (simp add: png_chunks_def walk_png_def render_png_def is_png_def walk_png_render)

lemma IEND_not_meta: "chunk_type c = chunk_IEND \<Longrightarrow> \<not> png_meta c"
  by (simp add: png_meta_def png_metadata_chunks_def chunk_IEND_def chunk_eXIf_def chunk_tEXt_def
      chunk_iTXt_def chunk_zTXt_def)

lemma png_ended_filter: "png_ended cs \<Longrightarrow> png_ended (filter (\<lambda>c. \<not> png_meta c) cs)"
  by (induction cs) (auto simp: IEND_not_meta)

lemma png_ended_snoc:
  "png_ended (cs @ [c]) \<longleftrightarrow>
     png_ended cs \<and> wf_chunk c \<and> (\<forall>x \<in> set cs. chunk_type x \<noteq> chunk_IEND)"
  by (induction cs) auto

lemma walk_png_ended:
  "walk_png_from png_collect_visit pre xs = Inr cs \<Longrightarrow>
   png_ended pre \<Longrightarrow> \<forall>x \<in> set pre. chunk_type x \<noteq> chunk_IEND \<Longrightarrow> png_ended cs"
proof (induction "png_collect_visit" pre xs rule: walk_png_from.induct)
  case (1 pre xs)
  let ?n = "png_chunk_header_len + chunk_length xs + png_chunk_crc_len"
  have ty: "chunk_type (take ?n xs) = chunk_type xs"
    by (rule chunk_type_take) (simp add: png_len_defs)
  show ?case
  proof (cases "length xs < png_chunk_header_len")
    case True
    with "1.prems" show ?thesis by (simp add: walk_png_from.simps [of _ _ xs])
  next
    case l: False
    with "1.prems"(1) have n: "\<not> ?n > length xs"
      by (auto simp: walk_png_from.simps [of _ _ xs] Let_def)
    have "chunk_length (take ?n xs) = chunk_length xs"
      by (rule chunk_length_take) (simp add: png_len_defs)
    with n have "wf_chunk (take ?n xs)" by (simp add: wf_chunk_def)
    then have pe: "png_ended (pre @ [take ?n xs])"
      using "1.prems" by (simp add: png_ended_snoc)
    show ?thesis
    proof (cases "chunk_type xs = chunk_IEND")
      case True
      with "1.prems"(1) l n pe show ?thesis
        by (simp add: walk_png_from.simps [of _ _ xs] Let_def png_collect_visit_def)
    next
      case False
      have "walk_png_from png_collect_visit (pre @ [take ?n xs]) (drop ?n xs) = Inr cs"
        using "1.prems"(1) l n False
        by (simp add: walk_png_from.simps [of _ pre xs] Let_def png_collect_visit_def)
      then show ?thesis
        using "1.hyps" [OF l refl n refl False] pe "1.prems"(3) ty False
        by (simp add: png_collect_visit_def)
    qed
  qed
qed

lemma png_chunks_ended: "png_chunks d = Inr cs \<Longrightarrow> png_ended cs"
  by (auto simp: png_chunks_def walk_png_def split: if_splits dest!: walk_png_ended)

end
