(* ===== verification/Strip.thy ===== *)
theory Strip
  imports Images
begin

text \<open>
  \<open>Strip\<close> and its parts (\<open>internal/images/strip.go\<close>): format detection, the dimension
  guard, the choice between segment surgery and re-encoding, and what the result promises. The
  locale \<open>segmented_format\<close> is the contract both containers meet: a file is a list of segments
  and a tail, and stripping filters the segments. It is interpreted for JPEG and for PNG.
\<close>

section \<open>The segmented-format contract\<close>

locale segmented_format =
  fixes parse :: "'b list \<Rightarrow> 'e + ('s list \<times> 'r)"
    and render :: "'s list \<Rightarrow> 'r \<Rightarrow> 'b list"
    and meta :: "'s \<Rightarrow> bool"
    and ended :: "'s list \<Rightarrow> 'r \<Rightarrow> bool"
    and strip :: "'b list \<Rightarrow> 'e + 'b list"
  assumes parse_render: "ended ss r \<Longrightarrow> parse (render ss r) = Inr (ss, r)"
    and ended_filter: "ended ss r \<Longrightarrow> ended (filter (\<lambda>s. \<not> meta s) ss) r"
    and strip_render: "strip d = map_sum id (\<lambda>(ss, r). render (filter (\<lambda>s. \<not> meta s) ss) r) (parse d)"
begin

lemma strip_parse:
  assumes "strip d = Inr out"
  obtains ss r where "parse d = Inr (ss, r)" "out = render (filter (\<lambda>s. \<not> meta s) ss) r"
  using assms by (cases "parse d") (auto simp: strip_render)

lemma strip_clean:
  assumes "parse d = Inr (ss, r)" and "ended ss r"
  shows "\<exists>out. strip d = Inr out \<and> parse out = Inr (filter (\<lambda>s. \<not> meta s) ss, r)"
  using assms by (simp add: strip_render parse_render ended_filter)

lemma strip_idem:
  assumes "parse d = Inr (ss, r)" and "ended ss r" and "strip d = Inr out"
  shows "strip out = Inr out"
proof -
  have out: "out = render (filter (\<lambda>s. \<not> meta s) ss) r"
    using assms by (simp add: strip_render)
  then have "parse out = Inr (filter (\<lambda>s. \<not> meta s) ss, r)"
    using assms by (simp add: parse_render ended_filter)
  then show ?thesis by (simp add: strip_render out)
qed

lemma strip_fails: "parse d = Inl e \<Longrightarrow> strip d = Inl e"
  by (simp add: strip_render)

end

definition png_parse :: "byte list \<Rightarrow> img_err + (byte list list \<times> unit)" where
  "png_parse d = map_sum id (\<lambda>cs. (cs, ())) (png_chunks d)"

interpretation jpeg: segmented_format jpeg_segments render_jpeg jpeg_meta jpeg_ended drop_jpeg_metadata
  by unfold_locales (simp_all add: jpeg_segments_render jpeg_ended_filter drop_jpeg_metadata_eq)

interpretation png: segmented_format png_parse "\<lambda>cs _. render_png cs" png_meta "\<lambda>cs _. png_ended cs"
    drop_png_metadata
proof unfold_locales
  fix d
  show "drop_png_metadata d
      = map_sum id (\<lambda>(ss, r :: unit). render_png (filter (\<lambda>s. \<not> png_meta s) ss)) (png_parse d)"
    by (cases "png_chunks d") (simp_all add: drop_png_metadata_eq png_parse_def)
qed (simp_all add: png_parse_def png_chunks_render png_ended_filter)

section \<open>Strip\<close>

definition max_pixels :: int where "max_pixels = 50000000"

text \<open>The codecs of the Go standard library and its format registry.\<close>

record 'c codec =
  decode_config :: "byte list \<Rightarrow> (int \<times> int) option"
  image_decode :: "byte list \<Rightarrow> 'c pixmap option"
  jpeg_decode :: "byte list \<Rightarrow> 'c pixmap option"
  jpeg_encode :: "'c pixmap \<Rightarrow> byte list option"
  png_decode :: "byte list \<Rightarrow> 'c pixmap option"
  png_encode :: "'c pixmap \<Rightarrow> byte list option"
  blank_pixel :: 'c
  to_rgba :: "'c \<Rightarrow> 'c"

record strip_result =
  sr_data :: "byte list"
  sr_format :: format
  sr_orientation :: orientation
  sr_re_encoded :: bool

definition detect_format :: "byte list \<Rightarrow> img_err + format" where
  "detect_format d =
     (if is_jpeg d then Inr FormatJPEG
      else if is_png d then Inr FormatPNG
      else Inl ErrUnsupportedFormat)"

definition check_dimensions :: "'c codec \<Rightarrow> byte list \<Rightarrow> int \<Rightarrow> img_err option" where
  "check_dimensions cd d mx =
     (case decode_config cd d of
        None \<Rightarrow> Some DecodeFailed
      | Some (w, h) \<Rightarrow> if mx > 0 \<and> w * h > mx then Some TooManyPixels else None)"

definition decode_bounded :: "'c codec \<Rightarrow> byte list \<Rightarrow> int \<Rightarrow> img_err + 'c pixmap" where
  "decode_bounded cd d mx =
     (case check_dimensions cd d mx of
        Some e \<Rightarrow> Inl e
      | None \<Rightarrow> (case image_decode cd d of None \<Rightarrow> Inl DecodeFailed | Some img \<Rightarrow> Inr img))"

definition strip_jpeg :: "'c codec \<Rightarrow> byte list \<Rightarrow> img_err + strip_result" where
  "strip_jpeg cd d =
     (case jpeg_orientation d of
        Inl e \<Rightarrow> Inl e
      | Inr o' \<Rightarrow>
          if needs_transform o' then
            (case check_dimensions cd d max_pixels of
               Some e \<Rightarrow> Inl e
             | None \<Rightarrow>
                 (case jpeg_decode cd d of
                    None \<Rightarrow> Inl DecodeFailed
                  | Some src \<Rightarrow>
                      (case jpeg_encode cd (apply_orientation (blank_pixel cd) (to_rgba cd) src o') of
                         None \<Rightarrow> Inl EncodeFailed
                       | Some out \<Rightarrow> Inr \<lparr>sr_data = out, sr_format = FormatJPEG,
                                          sr_orientation = o', sr_re_encoded = True\<rparr>)))
          else
            (case drop_jpeg_metadata d of
               Inl e \<Rightarrow> Inl e
             | Inr out \<Rightarrow> Inr \<lparr>sr_data = out, sr_format = FormatJPEG,
                               sr_orientation = o', sr_re_encoded = False\<rparr>))"

definition strip_png :: "'c codec \<Rightarrow> byte list \<Rightarrow> img_err + strip_result" where
  "strip_png cd d =
     (case png_orientation d of
        Inl e \<Rightarrow> Inl e
      | Inr o' \<Rightarrow>
          if needs_transform o' then
            (case check_dimensions cd d max_pixels of
               Some e \<Rightarrow> Inl e
             | None \<Rightarrow>
                 (case png_decode cd d of
                    None \<Rightarrow> Inl DecodeFailed
                  | Some src \<Rightarrow>
                      (case png_encode cd (apply_orientation (blank_pixel cd) (to_rgba cd) src o') of
                         None \<Rightarrow> Inl EncodeFailed
                       | Some out \<Rightarrow> Inr \<lparr>sr_data = out, sr_format = FormatPNG,
                                          sr_orientation = o', sr_re_encoded = True\<rparr>)))
          else
            (case drop_png_metadata d of
               Inl e \<Rightarrow> Inl e
             | Inr out \<Rightarrow> Inr \<lparr>sr_data = out, sr_format = FormatPNG,
                               sr_orientation = o', sr_re_encoded = False\<rparr>))"

definition strip_image :: "'c codec \<Rightarrow> byte list \<Rightarrow> img_err + strip_result" where
  "strip_image cd d =
     (if is_jpeg d then strip_jpeg cd d
      else if is_png d then strip_png cd d
      else Inl ErrUnsupportedFormat)"

section \<open>What a stripped file shows\<close>

lemma orientation_walk_clean:
  "list_all wf_segment ss \<Longrightarrow> well_ended ss r \<Longrightarrow> \<forall>s \<in> set ss. \<not> jpeg_meta s \<Longrightarrow>
   walk_jpeg_from orientation_visit a (segs_bytes ss @ r) = Inr (a, r)"
proof (induction ss)
  case Nil
  then show ?case by (simp add: segs_bytes_def)
next
  case (Cons s ss)
  obtain m p where s: "s = (m, p)" by (cases s)
  have m: "m \<noteq> marker_APP1"
    using Cons.prems(3) s by (auto simp: jpeg_meta_def is_metadata_marker_def marker_defs)
  have "segs_bytes (s # ss) @ r = segment_bytes m p @ (segs_bytes ss @ r)"
    by (simp add: segs_bytes_def s)
  moreover have "ss = []" if "m = marker_SOS"
    using Cons.prems(2) that s by simp
  ultimately show ?case
    using Cons s m by (auto simp: walk_jpeg_segment orientation_visit_def segs_bytes_def)
qed

lemma jpeg_orientation_clean:
  "jpeg_ended ss r \<Longrightarrow> \<forall>s \<in> set ss. \<not> jpeg_meta s \<Longrightarrow>
   jpeg_orientation (render_jpeg ss r) = Inr orientation_normal"
  by (simp add: jpeg_orientation_def walk_jpeg_def render_jpeg_def is_jpeg_def marker_SOI_def
      orientation_walk_clean jpeg_ended_def)

lemma png_orientation_clean:
  "png_ended cs \<Longrightarrow> \<forall>c \<in> set cs. \<not> png_meta c \<Longrightarrow>
   png_orientation (render_png cs) = Inr orientation_normal"
proof -
  assume e: "png_ended cs" and m: "\<forall>c \<in> set cs. \<not> png_meta c"
  have "fold (\<lambda>c. png_orientation_visit (chunk_type c) c) cs a = a" for a
    using m by (induction cs)
      (auto simp: png_orientation_visit_def png_meta_def png_metadata_chunks_def)
  then show ?thesis
    by (simp add: png_orientation_def walk_png_fold png_chunks_render e)
qed

lemma walk_jpeg_from_inv:
  assumes step: "\<And>m p b. I b \<Longrightarrow> I (snd (visit m p b))"
    and "walk_jpeg_from visit a xs = Inr (a', r)" and "I a"
  shows "I a'"
  using assms(2,3)
proof (induction "length xs" arbitrary: a xs rule: less_induct)
  case less
  show ?case
  proof (cases "length xs < 2 \<or> xs ! 0 \<noteq> 0xFF \<or> dropWhile (\<lambda>b. b = 0xFF) xs = []")
    case True
    with less.prems show ?thesis
      by (auto simp: walk_jpeg_from.simps [of visit a xs] simp del: dropWhile_eq_Nil_conv
          split: if_splits)
  next
    case False
    then have f: "\<not> length xs < 2" "\<not> xs ! 0 \<noteq> 0xFF" by auto
    from False obtain m zs where Cons: "dropWhile (\<lambda>b. b = 0xFF) xs = m # zs"
      by (cases "dropWhile (\<lambda>b. b = 0xFF) xs") auto
    have zs: "length zs < length xs" by (rule dropWhile_Cons_length [OF Cons])
    let ?len = "u16be (zs ! 0) (zs ! 1)"
    let ?v = "visit m (take (?len - 2) (drop 2 zs)) a"
    have v: "I (snd ?v)" using less.prems(2) by (rule step)
    have eq: "walk_jpeg_from visit a xs =
        (if m = marker_EOI then Inr (a, zs)
         else if is_standalone_marker m \<or> m = marker_SOI then walk_jpeg_from visit a zs
         else if length zs < 2 then Inl TruncatedLength
         else if ?len < 2 \<or> ?len > length zs then Inl LengthOutOfRange
         else if \<not> fst ?v \<or> m = marker_SOS then Inr (snd ?v, drop ?len zs)
         else walk_jpeg_from visit (snd ?v) (drop ?len zs))"
      using f Cons by (simp add: walk_jpeg_from.simps [of visit a xs] Let_def case_prod_beta)
    have d: "length (drop ?len zs) < length xs" using zs by simp
    show ?thesis
      using less.prems(1) less.hyps [OF zs _ less.prems(2)] less.hyps [OF d _ v] v less.prems(2)
      unfolding eq by (simp split: if_split_asm)
  qed
qed

lemma jpeg_orientation_valid: "jpeg_orientation d = Inr o' \<Longrightarrow> valid_orientation o'"
proof -
  assume "jpeg_orientation d = Inr o'"
  then obtain r where w: "walk_jpeg_from orientation_visit orientation_normal (drop 2 d) = Inr (o', r)"
    by (cases "walk_jpeg orientation_visit orientation_normal d")
      (auto simp: jpeg_orientation_def walk_jpeg_def split: if_splits)
  have "valid_orientation (snd (orientation_visit m p b))" if "valid_orientation b" for m p b
    using that by (simp add: orientation_visit_def orientation_from_exif_valid)
  from walk_jpeg_from_inv [of valid_orientation, OF this w orientation_normal_valid]
  show "valid_orientation o'" .
qed

lemma png_orientation_valid: "png_orientation d = Inr o' \<Longrightarrow> valid_orientation o'"
proof -
  have "valid_orientation (fold (\<lambda>c. png_orientation_visit (chunk_type c) c) cs a)"
    if "valid_orientation a" for cs a
    using that by (induction cs arbitrary: a)
      (auto simp: png_orientation_visit_def orientation_from_exif_valid)
  then show "png_orientation d = Inr o' \<Longrightarrow> valid_orientation o'"
    by (cases "png_chunks d") (auto simp: png_orientation_def walk_png_fold orientation_normal_valid)
qed

lemmas strip_cases = strip_image_def strip_jpeg_def strip_png_def

section \<open>Concrete inputs\<close>

text \<open>A codec over one-colour pixels; its decoders know one picture of two by one pixels.\<close>

definition demo_codec :: "bool codec" where
  "demo_codec = \<lparr>decode_config = (\<lambda>_. Some (2, 1)),
     image_decode = (\<lambda>_. Some \<lparr>pm_w = 2, pm_h = 1, pm_at = (\<lambda>p. p = (0, 0))\<rparr>),
     jpeg_decode = (\<lambda>_. Some \<lparr>pm_w = 2, pm_h = 1, pm_at = (\<lambda>p. p = (0, 0))\<rparr>),
     jpeg_encode = (\<lambda>pm. Some [if pm_at pm (0, 1) then 1 else 0]),
     png_decode = (\<lambda>_. Some \<lparr>pm_w = 2, pm_h = 1, pm_at = (\<lambda>p. p = (0, 0))\<rparr>),
     png_encode = (\<lambda>pm. Some [if pm_at pm (0, 1) then 1 else 0]),
     blank_pixel = False, to_rgba = (\<lambda>c. c)\<rparr>"

definition demo_jpeg :: "byte list" where
  "demo_jpeg = [0xFF, 0xD8, 0xFF, 0xE0, 0, 3, 7, 0xFF, 0xDB, 0, 4, 1, 2, 0xFF, 0xDA, 0, 3, 9, 0xAA, 0xBB]"

definition demo_png :: "byte list" where
  "demo_png = png_signature @ [0, 0, 0, 1] @ chunk_tEXt @ [65, 1, 2, 3, 4]
     @ [0, 0, 0, 0] @ chunk_IEND @ [5, 6, 7, 8] @ [99, 99]"

text \<open>An upright-cancelling EXIF block: orientation 6, little endian.\<close>

definition demo_rotated :: "byte list" where
  "demo_rotated = [0xFF, 0xD8, 0xFF, 0xE1, 0, 34] @ exif_header
     @ [0x49, 0x49, 0x2A, 0, 8, 0, 0, 0, 1, 0, 0x12, 0x01, 3, 0, 1, 0, 0, 0, 6, 0, 0, 0, 0, 0, 0, 0]
     @ [0xFF, 0xDA, 0, 2, 1]"

section \<open>Properties\<close>

lemma not_needs_transform:
  "valid_orientation o' \<Longrightarrow> \<not> needs_transform o' \<Longrightarrow> o' = orientation_normal"
  by (auto simp: valid_orientation_def needs_transform_def orientation_normal_def
      orientation_first_invalid_def)

lemma normal_no_transform: "\<not> needs_transform orientation_normal"
  by (simp add: needs_transform_def)

lemma is_jpeg_render: "is_jpeg (render_jpeg ss r)"
  by (simp add: is_jpeg_def render_jpeg_def marker_SOI_def)

lemma is_png_render: "is_png (render_png cs)"
  by (simp add: is_png_def render_png_def)

lemma png_not_jpeg: "is_png d \<Longrightarrow> \<not> is_jpeg d"
proof
  assume p: "is_png d" and j: "is_jpeg d"
  from p have "take (length png_signature) d ! 0 = png_signature ! 0"
    by (simp add: is_png_def)
  then have "d ! 0 = 0x89" by (simp add: png_signature_def)
  with j show False by (simp add: is_jpeg_def)
qed

lemma strip_surgery_jpeg:
  assumes "strip_image cd d = Inr r" and "sr_format r = FormatJPEG" and "\<not> sr_re_encoded r"
  shows "is_jpeg d" and "drop_jpeg_metadata d = Inr (sr_data r)"
    and "r = \<lparr>sr_data = sr_data r, sr_format = FormatJPEG, sr_orientation = orientation_normal,
             sr_re_encoded = False\<rparr>"
  using assms jpeg_orientation_valid
  by (auto simp: strip_cases not_needs_transform split: if_splits sum.splits option.splits)

lemma strip_surgery_png:
  assumes "strip_image cd d = Inr r" and "sr_format r = FormatPNG" and "\<not> sr_re_encoded r"
  shows "is_png d" and "drop_png_metadata d = Inr (sr_data r)"
    and "r = \<lparr>sr_data = sr_data r, sr_format = FormatPNG, sr_orientation = orientation_normal,
             sr_re_encoded = False\<rparr>"
  using assms png_orientation_valid
  by (auto simp: strip_cases not_needs_transform split: if_splits sum.splits option.splits)


text \<open>
  The same for PNG, with no condition on the file: a PNG that needs no rotation is stored with
  exactly the chunks that are not \<open>eXIf\<close>, \<open>tEXt\<close>, \<open>iTXt\<close> or \<open>zTXt\<close>, byte for byte and in
  order; nothing that followed \<open>IEND\<close> survives, the stored file shows the normal orientation, and
  stripping it again changes nothing.
\<close>

theorem strip_png_clean:
  assumes "strip_image cd d = Inr r" and "sr_format r = FormatPNG" and "\<not> sr_re_encoded r"
  shows "\<exists>cs. png_chunks d = Inr cs
       \<and> sr_data r = png_signature @ concat (filter (\<lambda>c. chunk_type c \<notin> set png_metadata_chunks) cs)
       \<and> png_chunks (sr_data r) = Inr (filter (\<lambda>c. chunk_type c \<notin> set png_metadata_chunks) cs)
       \<and> png_orientation (sr_data r) = Inr orientation_normal
       \<and> strip_image cd (sr_data r) = Inr r"
proof -
  note surg = strip_surgery_png [OF assms]
  obtain cs where cs: "png_chunks d = Inr cs"
    and data: "sr_data r = render_png (filter (\<lambda>c. \<not> png_meta c) cs)"
    using surg(2) by (cases "png_chunks d") (auto simp: drop_png_metadata_eq)
  have ended: "png_ended cs" by (rule png_chunks_ended [OF cs])
  have parse: "png_parse d = Inr (cs, ())" by (simp add: png_parse_def cs)
  have chunks: "png_chunks (sr_data r) = Inr (filter (\<lambda>c. \<not> png_meta c) cs)"
    by (simp add: data png_chunks_render png_ended_filter ended)
  have ori: "png_orientation (sr_data r) = Inr orientation_normal"
    unfolding data by (rule png_orientation_clean) (simp_all add: png_ended_filter ended)
  have "drop_png_metadata (sr_data r) = Inr (sr_data r)"
    by (rule png.strip_idem [OF parse ended surg(2)])
  with ori have "strip_image cd (sr_data r) = Inr r"
    using surg(3) is_png_render [of "filter (\<lambda>c. \<not> png_meta c) cs"] data png_not_jpeg
    by (simp add: strip_cases normal_no_transform)
  with cs data chunks ori show ?thesis
    by (auto simp: png_meta_def [abs_def] render_png_def)
qed

text \<open>
  Where surgery is not enough: in a JPEG whose end marker stands before any scan, the walk
  stops at the end marker, drops it, and copies what follows as if it were scan data. Here an EXIF
  segment that the original hid behind its end marker is the first segment of the stripped file.
\<close>

theorem strip_exposes_after_eoi:
  "(let d = [0xFF, 0xD8, 0xFF, 0xD9, 0xFF, 0xE1, 0x00, 0x08, 0x45, 0x78, 0x69, 0x66, 0x00, 0x00] in
     jpeg_segments d = Inr ([], drop 4 d)
     \<and> drop_jpeg_metadata d = Inr ([0xFF, 0xD8] @ drop 4 d)
     \<and> jpeg_segments ([0xFF, 0xD8] @ drop 4 d) = Inr ([(0xE1, exif_header)], []))"
  by code_simp

text \<open>
  What \<open>Strip\<close> reports is consistent: the format is the one \<open>DetectFormat\<close> finds, the
  orientation is one of the eight EXIF values, the image was re-encoded exactly when that
  orientation needs a rotation, and a rotated image is stored only if its header declares at most
  \<open>MaxPixels\<close> pixels and is the encoding of the rotated decoded pixels.
\<close>

theorem strip_consistent:
  assumes "strip_image cd d = Inr r"
  shows "detect_format d = Inr (sr_format r)
       \<and> 1 \<le> sr_orientation r \<and> sr_orientation r \<le> 8
       \<and> (sr_re_encoded r \<longleftrightarrow> sr_orientation r \<noteq> 1)
       \<and> (sr_re_encoded r \<longrightarrow>
           (\<exists>w h src. decode_config cd d = Some (w, h) \<and> w * h \<le> 50000000
             \<and> (case sr_format r of
                  FormatJPEG \<Rightarrow> jpeg_decode cd d = Some src \<and> jpeg_encode cd
                    (apply_orientation (blank_pixel cd) (to_rgba cd) src (sr_orientation r))
                    = Some (sr_data r)
                | FormatPNG \<Rightarrow> png_decode cd d = Some src \<and> png_encode cd
                    (apply_orientation (blank_pixel cd) (to_rgba cd) src (sr_orientation r))
                    = Some (sr_data r))))"
proof -
  have v: "valid_orientation (sr_orientation r)" "detect_format d = Inr (sr_format r)"
    and re: "sr_re_encoded r \<longleftrightarrow> needs_transform (sr_orientation r)"
    using assms jpeg_orientation_valid png_orientation_valid
    by (auto simp: strip_cases detect_format_def split: if_splits sum.splits option.splits)
  have nt: "needs_transform (sr_orientation r) \<longleftrightarrow> sr_orientation r \<noteq> 1"
    using v(1) by (auto simp: needs_transform_def valid_orientation_def orientation_normal_def
        orientation_first_invalid_def)
  have "\<exists>w h src. decode_config cd d = Some (w, h) \<and> w * h \<le> 50000000
             \<and> (case sr_format r of
                  FormatJPEG \<Rightarrow> jpeg_decode cd d = Some src \<and> jpeg_encode cd
                    (apply_orientation (blank_pixel cd) (to_rgba cd) src (sr_orientation r))
                    = Some (sr_data r)
                | FormatPNG \<Rightarrow> png_decode cd d = Some src \<and> png_encode cd
                    (apply_orientation (blank_pixel cd) (to_rgba cd) src (sr_orientation r))
                    = Some (sr_data r))" if "sr_re_encoded r"
    using assms that
    by (auto simp: strip_cases check_dimensions_def max_pixels_def
        split: if_splits sum.splits option.splits prod.splits)
  with v re nt show ?thesis by (simp add: valid_orientation_def)
qed

text \<open>
  Rotation is a bijection on pixels: the rotated image has the upright dimensions, every pixel
  of the source lands inside it holding its converted colour, and every pixel of the result comes
  from exactly the source pixel that the inverse orientation names.
\<close>

theorem rotation_bijective:
  assumes "needs_transform o'" and "0 \<le> pm_w src" and "0 \<le> pm_h src"
  shows "let out = apply_orientation blank conv src o' in
       (pm_w out, pm_h out) = out_dims o' (pm_w src) (pm_h src)
       \<and> (\<forall>x y. in_frame (pm_w src) (pm_h src) (x, y) \<longrightarrow>
            in_frame (pm_w out) (pm_h out) (map_pixel o' x y (pm_w src) (pm_h src))
            \<and> pm_at out (map_pixel o' x y (pm_w src) (pm_h src)) = conv (pm_at src (x, y)))
       \<and> (\<forall>u v. in_frame (pm_w out) (pm_h out) (u, v) \<longrightarrow>
            in_frame (pm_w src) (pm_h src)
              (map_pixel (inverse_orientation o') u v (pm_w out) (pm_h out))
            \<and> pm_at out (u, v)
              = conv (pm_at src (map_pixel (inverse_orientation o') u v (pm_w out) (pm_h out))))"
proof -
  let ?w = "pm_w src" and ?h = "pm_h src"
  define out where "out = apply_orientation blank conv src o'"
  have v: "valid_orientation o'"
    using assms(1) by (simp add: needs_transform_def valid_orientation_def orientation_normal_def
        orientation_first_invalid_def)
  then have vi: "valid_orientation (inverse_orientation o')"
    and ii: "inverse_orientation (inverse_orientation o') = o'"
    by (auto simp: inverse_orientation_def valid_orientation_def)
  have dims: "(pm_w out, pm_h out) = out_dims o' ?w ?h"
    using assms(1) by (simp add: out_def apply_orientation_def Let_def)
  have undo: "out_dims (inverse_orientation o') (pm_w out) (pm_h out) = (?w, ?h)"
    using dims by (auto simp: out_dims_def swaps_axes_def inverse_orientation_def split: if_splits)
  have fwd: "in_frame (pm_w out) (pm_h out) (map_pixel o' x y ?w ?h)
      \<and> pm_at out (map_pixel o' x y ?w ?h) = conv (pm_at src (x, y))"
    if "in_frame ?w ?h (x, y)" for x y
    using map_pixel_in_frame [OF that, of o'] dims
      apply_orientation_at [OF assms(1) that, of blank conv, folded out_def]
    by (simp add: prod_eq_iff)
  have bwd: "in_frame ?w ?h (map_pixel (inverse_orientation o') u v' (pm_w out) (pm_h out))
      \<and> pm_at out (u, v')
        = conv (pm_at src (map_pixel (inverse_orientation o') u v' (pm_w out) (pm_h out)))"
    if uv: "in_frame (pm_w out) (pm_h out) (u, v')" for u v'
  proof -
    obtain x y where xy: "map_pixel (inverse_orientation o') u v' (pm_w out) (pm_h out) = (x, y)"
      by (cases "map_pixel (inverse_orientation o') u v' (pm_w out) (pm_h out)")
    have fr: "in_frame ?w ?h (x, y)"
      using map_pixel_in_frame [OF uv, of "inverse_orientation o'"] undo xy by simp
    have "map_pixel o' x y ?w ?h = (u, v')"
      using map_pixel_inverse [OF vi, of "pm_w out" "pm_h out" u v'] undo xy ii by simp
    with fwd [OF fr] fr xy show ?thesis by simp
  qed
  from dims fwd bwd show ?thesis by (simp add: out_def [symmetric] Let_def)
qed

section \<open>Witnesses\<close>

lemmas chunk_defs = chunk_eXIf_def chunk_tEXt_def chunk_iTXt_def chunk_zTXt_def chunk_IEND_def

lemmas png_eval = png_signature_def is_png_def walk_png_def walk_png_from.simps chunk_length_def
  chunk_type_def u32be_def u16be_def png_len_defs chunk_defs

lemmas exif_eval = orientation_from_exif_def tiff_byte_order_def Let_def ord_u16_def ord_u32_def
  u32be_def u16be_def tiff_header_len_def tag_orientation_def type_short_def ifd_entry_len_def
  max_ifd_entries_def normalize_orientation_def orientation_normal_def
  orientation_first_invalid_def

lemma demo_jpeg_segments:
  "jpeg_segments demo_jpeg = Inr ([(0xE0, [7]), (0xDB, [1, 2]), (0xDA, [9])], [0xAA, 0xBB])"
  by code_simp

lemma demo_jpeg_strip:
  "strip_image demo_codec demo_jpeg = Inr
     \<lparr>sr_data = [0xFF, 0xD8, 0xFF, 0xDB, 0, 4, 1, 2, 0xFF, 0xDA, 0, 3, 9, 0xAA, 0xBB],
      sr_format = FormatJPEG, sr_orientation = 1, sr_re_encoded = False\<rparr>"
proof -
  have "jpeg_orientation demo_jpeg = Inr 1" by code_simp
  moreover have "drop_jpeg_metadata demo_jpeg
      = Inr [0xFF, 0xD8, 0xFF, 0xDB, 0, 4, 1, 2, 0xFF, 0xDA, 0, 3, 9, 0xAA, 0xBB]"
    by code_simp
  ultimately show ?thesis
    by (simp add: strip_cases is_jpeg_def demo_jpeg_def needs_transform_def orientation_normal_def)
qed

lemma demo_png_strip:
  "strip_image demo_codec demo_png = Inr
     \<lparr>sr_data = png_signature @ [0, 0, 0, 0] @ chunk_IEND @ [5, 6, 7, 8],
      sr_format = FormatPNG, sr_orientation = 1, sr_re_encoded = False\<rparr>"
proof -
  have "png_orientation demo_png = Inr 1"
    by (simp add: demo_png_def png_orientation_def png_orientation_visit_def
        orientation_normal_def png_eval)
  moreover have "drop_png_metadata demo_png
      = Inr (png_signature @ [0, 0, 0, 0] @ chunk_IEND @ [5, 6, 7, 8])"
    by (simp add: demo_png_def drop_png_metadata_def png_drop_visit_def png_metadata_chunks_def
        png_eval)
  moreover have "is_png demo_png" by (simp add: demo_png_def is_png_def)
  ultimately show ?thesis
    by (simp add: strip_cases png_not_jpeg needs_transform_def orientation_normal_def)
qed

lemma demo_rotated_strip:
  "strip_image demo_codec demo_rotated = Inr
     \<lparr>sr_data = [0], sr_format = FormatJPEG, sr_orientation = 6, sr_re_encoded = True\<rparr>"
proof -
  have "orientation_from_exif [0x49, 0x49, 0x2A, 0, 8, 0, 0, 0, 1, 0, 0x12, 0x01, 3, 0, 1, 0, 0, 0,
      6, 0, 0, 0, 0, 0, 0, 0] = 6"
    by (simp add: exif_eval)
  then have "jpeg_orientation demo_rotated = Inr 6"
    by (simp add: demo_rotated_def exif_header_def jpeg_orientation_def walk_jpeg_def is_jpeg_def
        walk_jpeg_from.simps marker_defs is_standalone_marker_def u16be_def orientation_visit_def
        Let_def)
  moreover have "is_jpeg demo_rotated" by (simp add: demo_rotated_def is_jpeg_def)
  moreover have "needs_transform 6" by code_simp
  moreover have "\<not> pm_at (apply_orientation False (\<lambda>c. c)
      \<lparr>pm_w = 2, pm_h = 1, pm_at = (\<lambda>p. p = (0, 0))\<rparr> 6) (0, 1)"
    by code_simp
  ultimately show ?thesis
    by (simp add: strip_cases demo_codec_def check_dimensions_def max_pixels_def)
qed


theorem strip_png_clean_witness:
  "png_chunks (png_signature @ [0, 0, 0, 0] @ chunk_IEND @ [5, 6, 7, 8])
     = Inr [[0, 0, 0, 0, 0x49, 0x45, 0x4E, 0x44, 5, 6, 7, 8]]"
proof -
  have cs: "png_chunks demo_png
      = Inr [[0, 0, 0, 1, 0x74, 0x45, 0x58, 0x74, 65, 1, 2, 3, 4],
             [0, 0, 0, 0, 0x49, 0x45, 0x4E, 0x44, 5, 6, 7, 8]]"
    by (simp add: demo_png_def png_chunks_def png_collect_visit_def png_eval)
  show ?thesis
    using strip_png_clean [OF demo_png_strip] cs
    by (simp add: chunk_type_def png_metadata_chunks_def chunk_eXIf_def chunk_tEXt_def
        chunk_iTXt_def chunk_zTXt_def)
qed

theorem strip_consistent_witness:
  "decode_config demo_codec demo_rotated = Some (2, 1)
   \<and> detect_format demo_rotated = Inr FormatJPEG"
  using strip_consistent [OF demo_rotated_strip] by (simp add: demo_codec_def)

theorem rotation_bijective_witness:
  "pm_at (apply_orientation False id \<lparr>pm_w = 2, pm_h = 1, pm_at = (\<lambda>p. p = (0, 0))\<rparr> 6) (0, 0)"
proof -
  let ?src = "\<lparr>pm_w = 2, pm_h = 1, pm_at = (\<lambda>p. p = (0, 0))\<rparr>"
  have "needs_transform 6" by code_simp
  then have "\<forall>x y. in_frame 2 1 (x, y) \<longrightarrow>
      pm_at (apply_orientation False id ?src 6) (map_pixel 6 x y 2 1) = id ((x, y) = (0, 0))"
    using rotation_bijective [of 6 ?src False id] by (simp add: Let_def)
  from spec [OF spec [OF this, of 0], of 0] show ?thesis
    by (simp add: in_frame_def map_pixel_def)
qed

end
