(* ===== verification/Expiry.thy ===== *)
theory Expiry
  imports Prelude
begin

text \<open>
  \<open>internal/expiry/expiry.go\<close>: which shelf-life rule applies to a batch, the date it gives and
  the urgency of a date. An instant is an integer number of nanoseconds, a date a day number; a
  \<open>time.Time\<close> with a zone is an instant and an offset, because \<open>calendarDay\<close> reads the wall
  clock of the value's own zone.
\<close>

type_synonym instant = int
type_synonym date = int

definition ns_per_day :: int where "ns_per_day = 86400000000000"

definition day_of :: "instant \<Rightarrow> date" where
  "day_of t = t div ns_per_day"

datatype item_type = Perishable | LongShelfLife | NonPerishable | OtherItemType string

text \<open>The fallback table: the outer option says whether the type is known.\<close>

definition item_type_fallback_days :: "item_type \<Rightarrow> int option option" where
  "item_type_fallback_days t = (case t of
      Perishable \<Rightarrow> Some (Some 7)
    | LongShelfLife \<Rightarrow> Some (Some 365)
    | NonPerishable \<Rightarrow> Some None
    | OtherItemType _ \<Rightarrow> None)"

record rules =
  ru_product_days :: "int option"
  ru_catalog_days :: "int option"
  ru_category_days :: "int option list"
  ru_item_type :: item_type

datatype rule_source =
  SourceProduct | SourceCatalog | SourceCategory | SourceItemType | SourceUnclassified

record resolution =
  re_days :: "int option"
  re_source :: rule_source

fun first_days :: "int option list \<Rightarrow> int option" where
  "first_days [] = None"
| "first_days (Some d # ds) = Some d"
| "first_days (None # ds) = first_days ds"

definition resolve :: "rules \<Rightarrow> resolution" where
  "resolve r =
     (case ru_product_days r of
        Some d \<Rightarrow> \<lparr>re_days = Some d, re_source = SourceProduct\<rparr>
      | None \<Rightarrow>
     (case ru_catalog_days r of
        Some d \<Rightarrow> \<lparr>re_days = Some d, re_source = SourceCatalog\<rparr>
      | None \<Rightarrow>
     (case first_days (ru_category_days r) of
        Some d \<Rightarrow> \<lparr>re_days = Some d, re_source = SourceCategory\<rparr>
      | None \<Rightarrow>
     (case item_type_fallback_days (ru_item_type r) of
        None \<Rightarrow> \<lparr>re_days = None, re_source = SourceUnclassified\<rparr>
      | Some fb \<Rightarrow> \<lparr>re_days = fb, re_source = SourceItemType\<rparr>))))"

definition date_for :: "instant \<Rightarrow> resolution \<Rightarrow> date option" where
  "date_for created res = map_option (\<lambda>d. day_of created + d) (re_days res)"

datatype urgency = UrgencyExpired | UrgencyCritical | UrgencySoon | UrgencyOK | UrgencyNone

definition critical_within_days :: int where "critical_within_days = 3"
definition soon_within_days :: int where "soon_within_days = 14"

record zoned =
  z_instant :: instant
  z_offset :: int

definition calendar_day :: "zoned \<Rightarrow> date" where
  "calendar_day z = day_of (z_instant z + z_offset z)"

definition classify :: "zoned option \<Rightarrow> zoned \<Rightarrow> urgency" where
  "classify d today =
     (case d of
        None \<Rightarrow> UrgencyNone
      | Some z \<Rightarrow>
          (let day = calendar_day z; start = calendar_day today in
           if day < start then UrgencyExpired
           else if day < start + critical_within_days then UrgencyCritical
           else if day < start + soon_within_days then UrgencySoon
           else UrgencyOK))"

text \<open>A PostgreSQL DATE is read back as midnight UTC.\<close>

definition utc_midnight :: "date \<Rightarrow> zoned" where
  "utc_midnight d = \<lparr>z_instant = d * ns_per_day, z_offset = 0\<rparr>"

lemma ns_per_day_pos [simp]: "0 < ns_per_day" "ns_per_day \<noteq> 0"
  by (simp_all add: ns_per_day_def)

lemma calendar_day_midnight [simp]: "calendar_day (utc_midnight d) = d"
  by (simp add: calendar_day_def utc_midnight_def day_of_def)

lemma first_days_eq: "first_days ds = (case concat (map (\<lambda>d. case d of None \<Rightarrow> [] | Some x \<Rightarrow> [x]) ds)
    of [] \<Rightarrow> None | x # _ \<Rightarrow> Some x)"
  by (induction ds rule: first_days.induct) simp_all

lemma first_days_None: "first_days ds = None \<longleftrightarrow> (\<forall>d \<in> set ds. d = None)"
  by (induction ds rule: first_days.induct) simp_all

lemma first_days_Some:
  "first_days ds = Some n \<longleftrightarrow> (\<exists>i < length ds. ds ! i = Some n \<and> (\<forall>j < i. ds ! j = None))"
proof (induction ds rule: first_days.induct)
  case 1
  then show ?case by simp
next
  case (2 d ds)
  show ?case
  proof
    assume "first_days (Some d # ds) = Some n"
    then show "\<exists>i < length (Some d # ds). (Some d # ds) ! i = Some n \<and> (\<forall>j < i. (Some d # ds) ! j = None)"
      by (intro exI [of _ 0]) simp
  next
    assume "\<exists>i < length (Some d # ds). (Some d # ds) ! i = Some n \<and> (\<forall>j < i. (Some d # ds) ! j = None)"
    then obtain i where i: "(Some d # ds) ! i = Some n" "\<forall>j < i. (Some d # ds) ! j = None" by blast
    then show "first_days (Some d # ds) = Some n"
      by (cases i) auto
  qed
next
  case (3 ds)
  have "(\<exists>i < length (None # ds). (None # ds) ! i = Some n \<and> (\<forall>j < i. (None # ds) ! j = None))
      \<longleftrightarrow> (\<exists>i < length ds. ds ! i = Some n \<and> (\<forall>j < i. ds ! j = None))" (is "?l \<longleftrightarrow> ?r")
  proof
    assume ?l
    then obtain i where i: "i < length (None # ds)" "(None # ds) ! i = Some n"
      "\<forall>j < i. (None # ds) ! j = None" by blast
    then obtain k where k: "i = Suc k" by (cases i) auto
    with i have "\<forall>j < k. ds ! j = None" by (metis Suc_mono nth_Cons_Suc)
    with i k show ?r by auto
  next
    assume ?r
    then obtain i where i: "i < length ds" "ds ! i = Some n" "\<forall>j < i. ds ! j = None" by blast
    then have "\<forall>j < Suc i. (None # ds) ! j = None"
      by (auto simp: less_Suc_eq_0_disj)
    with i show ?l by (intro exI [of _ "Suc i"]) simp
  qed
  with 3 show ?case by simp
qed

text \<open>The urgency bands as an order: the sooner the date, the more urgent.\<close>

fun urgency_rank :: "urgency \<Rightarrow> nat" where
  "urgency_rank UrgencyExpired = 0"
| "urgency_rank UrgencyCritical = 1"
| "urgency_rank UrgencySoon = 2"
| "urgency_rank UrgencyOK = 3"
| "urgency_rank UrgencyNone = 4"

section \<open>Properties\<close>

text \<open>
  The rule that dates a batch is the first one present in the order product, catalog,
  categories from the product's own category to the root, item type; the reported source says
  which one it was, and no date results exactly when the item type is non-perishable or unknown
  and no rule precedes it.
\<close>

theorem resolve_priority:
  "let rs = [ru_product_days r, ru_catalog_days r] @ ru_category_days r in
   (re_source (resolve r) \<in> {SourceItemType, SourceUnclassified} \<longleftrightarrow> (\<forall>x \<in> set rs. x = None))
   \<and> (\<forall>n i. i < length rs \<and> rs ! i = Some n \<and> (\<forall>j < i. rs ! j = None) \<longrightarrow>
        re_days (resolve r) = Some n
        \<and> re_source (resolve r) =
            (if i = 0 then SourceProduct else if i = 1 then SourceCatalog else SourceCategory))
   \<and> (re_days (resolve r) = None \<longleftrightarrow>
        (\<forall>x \<in> set rs. x = None) \<and> ru_item_type r \<noteq> Perishable \<and> ru_item_type r \<noteq> LongShelfLife)"
proof -
  let ?rs = "[ru_product_days r, ru_catalog_days r] @ ru_category_days r"
  have src: "re_source (resolve r) \<in> {SourceItemType, SourceUnclassified} \<longleftrightarrow> (\<forall>x \<in> set ?rs. x = None)"
    by (auto simp: resolve_def first_days_None [symmetric] split: option.splits)
  have days: "re_days (resolve r) = None \<longleftrightarrow> (\<forall>x \<in> set ?rs. x = None)
      \<and> ru_item_type r \<noteq> Perishable \<and> ru_item_type r \<noteq> LongShelfLife"
    by (auto simp: resolve_def first_days_None [symmetric] item_type_fallback_days_def
        split: option.splits item_type.splits)
  have idx: "re_days (resolve r) = Some n \<and> re_source (resolve r) =
      (if i = 0 then SourceProduct else if i = 1 then SourceCatalog else SourceCategory)"
    if i: "i < length ?rs" "?rs ! i = Some n" "\<forall>j < i. ?rs ! j = None" for n i
  proof -
    consider "i = 0" | "i = 1" | k where "i = Suc (Suc k)"
      by (metis One_nat_def not0_implies_Suc)
    then show ?thesis
    proof cases
      case 1
      with i show ?thesis by (simp add: resolve_def)
    next
      case 2
      with i(3) have "ru_product_days r = None" by auto
      with 2 i show ?thesis by (simp add: resolve_def)
    next
      case 3
      have p: "ru_product_days r = None"
        using i(3) 3 by (metis append_Cons nth_Cons_0 zero_less_Suc)
      have c: "ru_catalog_days r = None"
        using i(3) 3 by (metis append_Cons nth_Cons_0 nth_Cons_Suc Suc_mono zero_less_Suc)
      have "\<forall>j < k. ru_category_days r ! j = None"
        using i(3) 3 by (metis append_Cons append_Nil nth_Cons_Suc Suc_mono)
      moreover have "k < length (ru_category_days r)" "ru_category_days r ! k = Some n"
        using i 3 by auto
      ultimately have "first_days (ru_category_days r) = Some n"
        unfolding first_days_Some by blast
      with p c 3 show ?thesis by (simp add: resolve_def)
    qed
  qed
  from src days idx show ?thesis unfolding Let_def by blast
qed

text \<open>
  Urgency depends only on the calendar days: with the stored date \<open>d\<close> and a clock whose wall
  date is \<open>t\<close>, the bands are before today, the next 3 days, the next 14, later; a batch that
  expires today is not expired yet, whatever the time of day or the zone of the clock, and a
  later date is never more urgent.
\<close>

theorem classify_bands:
  "classify None today = UrgencyNone
   \<and> (\<forall>d. classify (Some (utc_midnight d)) today =
        (let n = d - calendar_day today in
         if n < 0 then UrgencyExpired else if n < 3 then UrgencyCritical
         else if n < 14 then UrgencySoon else UrgencyOK))
   \<and> classify (Some today) today = UrgencyCritical
   \<and> (\<forall>d d'. urgency_rank (classify (Some (utc_midnight (min d d'))) today)
             \<le> urgency_rank (classify (Some (utc_midnight d)) today))"
  by (simp add: classify_def critical_within_days_def soon_within_days_def Let_def min_def)

section \<open>Witnesses\<close>

theorem resolve_priority_witness:
  "re_days (resolve \<lparr>ru_product_days = None, ru_catalog_days = None,
      ru_category_days = [None, Some 9, Some 4], ru_item_type = Perishable\<rparr>) = Some 9"
proof -
  have "\<forall>j < 3. [None, None, None, Some 9, Some (4 :: int)] ! j = None"
    by (simp add: less_Suc_eq numeral_3_eq_3)
  then show ?thesis
    using resolve_priority [of "\<lparr>ru_product_days = None, ru_catalog_days = None,
      ru_category_days = [None, Some 9, Some 4], ru_item_type = Perishable\<rparr>",
        unfolded Let_def, THEN conjunct2, THEN conjunct1, THEN spec, of 9, THEN spec, of 3]
    by simp
qed

end
