(* ===== verification/RateLimit.thy ===== *)
theory RateLimit
  imports Expiry
begin

text \<open>
  The fixed-window rate limiter of \<open>internal/httpapi/ratelimit.go\<close>. The mutex makes every
  method one step, so a limiter is a value and each method a function on it, taking the clock
  reading it makes under the lock. The map from keys to windows is a partial function.
\<close>

record rate_window =
  rw_count :: int
  rw_start :: instant

record rate_limiter =
  rl_limit :: int
  rl_window :: int
  rl_windows :: "string \<Rightarrow> rate_window option"

definition credential_failures_per_window :: int where "credential_failures_per_window = 10"
definition credential_window :: int where "credential_window = 15 * 60 * 1000000000"

definition credential_keys :: "string \<Rightarrow> string \<Rightarrow> string list" where
  "credential_keys ip username =
     (if ip \<noteq> '''' then [''ip:'' @ ip] else []) @ (if username \<noteq> '''' then [''user:'' @ username] else [])"

definition new_rate_limiter :: "int \<Rightarrow> int \<Rightarrow> rate_limiter" where
  "new_rate_limiter limit window = \<lparr>rl_limit = limit, rl_window = window, rl_windows = (\<lambda>_. None)\<rparr>"

definition elapsed :: "rate_limiter \<Rightarrow> instant \<Rightarrow> rate_window \<Rightarrow> bool" where
  "elapsed l now w \<longleftrightarrow> now - rw_start w \<ge> rl_window l"

text \<open>\<open>blockedLocked\<close>: the loop keeps the longest wait and whether any key was over.\<close>

definition blocked_step :: "rate_limiter \<Rightarrow> instant \<Rightarrow> string \<Rightarrow> int \<times> bool \<Rightarrow> int \<times> bool" where
  "blocked_step l now key st = (case st of (retry, found) \<Rightarrow>
     (case rl_windows l key of
        None \<Rightarrow> (retry, found)
      | Some w \<Rightarrow>
          if elapsed l now w \<or> rw_count w < rl_limit l then (retry, found)
          else (let left = rl_window l - (now - rw_start w) in
                (if left > retry then left else retry, True))))"

definition blocked :: "instant \<Rightarrow> string list \<Rightarrow> rate_limiter \<Rightarrow> int \<times> bool" where
  "blocked now ks l = fold (blocked_step l now) ks (0, False)"

definition sweep :: "instant \<Rightarrow> rate_limiter \<Rightarrow> rate_limiter" where
  "sweep now l = l\<lparr>rl_windows := (\<lambda>k. case rl_windows l k of
       None \<Rightarrow> None | Some w \<Rightarrow> if elapsed l now w then None else Some w)\<rparr>"

definition record_key :: "instant \<Rightarrow> string \<Rightarrow> rate_limiter \<Rightarrow> rate_limiter" where
  "record_key now key l =
     (case rl_windows l key of
        None \<Rightarrow> l\<lparr>rl_windows := (rl_windows l)(key \<mapsto> \<lparr>rw_count = 1, rw_start = now\<rparr>)\<rparr>
      | Some w \<Rightarrow>
          if elapsed l now w
          then l\<lparr>rl_windows := (rl_windows l)(key \<mapsto> \<lparr>rw_count = 1, rw_start = now\<rparr>)\<rparr>
          else l\<lparr>rl_windows := (rl_windows l)(key \<mapsto> w\<lparr>rw_count := rw_count w + 1\<rparr>)\<rparr>)"

definition record_failures :: "instant \<Rightarrow> string list \<Rightarrow> rate_limiter \<Rightarrow> rate_limiter" where
  "record_failures now ks l = fold (record_key now) ks (sweep now l)"

definition reset_keys :: "string list \<Rightarrow> rate_limiter \<Rightarrow> rate_limiter" where
  "reset_keys ks l = l\<lparr>rl_windows := fold (\<lambda>k m. m(k := None)) ks (rl_windows l)\<rparr>"

definition allow :: "instant \<Rightarrow> string \<Rightarrow> rate_limiter \<Rightarrow> (int \<times> bool) \<times> rate_limiter" where
  "allow now key l =
     (case blocked now [key] l of (retry, b) \<Rightarrow> ((retry, \<not> b), record_failures now [key] l))"

section \<open>The counter of one key\<close>

text \<open>
  What one key sees of the limiter: its window if it is live. Every operation acts on this view,
  and an operation on another key only ever removes an elapsed window.
\<close>

definition live :: "instant \<Rightarrow> string \<Rightarrow> rate_limiter \<Rightarrow> rate_window option" where
  "live now key l = (case rl_windows l key of
      None \<Rightarrow> None | Some w \<Rightarrow> if elapsed l now w then None else Some w)"

lemma record_key_frame [simp]:
  "rl_limit (record_key now key l) = rl_limit l"
  "rl_window (record_key now key l) = rl_window l"
  by (simp_all add: record_key_def split: option.split)

lemma sweep_frame [simp]:
  "rl_limit (sweep now l) = rl_limit l" "rl_window (sweep now l) = rl_window l"
  by (simp_all add: sweep_def)

lemma record_failures_frame [simp]:
  "rl_limit (record_failures now ks l) = rl_limit l"
  "rl_window (record_failures now ks l) = rl_window l"
proof -
  have "rl_limit (fold (record_key now) ks l') = rl_limit l'
      \<and> rl_window (fold (record_key now) ks l') = rl_window l'" for l'
    by (induction ks arbitrary: l') simp_all
  then show "rl_limit (record_failures now ks l) = rl_limit l"
    "rl_window (record_failures now ks l) = rl_window l"
    by (simp_all add: record_failures_def)
qed

lemma blocked_single:
  "blocked now [key] l = (case live now key l of
      None \<Rightarrow> (0, False)
    | Some w \<Rightarrow> if rw_count w < rl_limit l then (0, False)
              else (rl_window l - (now - rw_start w), True))"
  by (auto simp: blocked_def blocked_step_def live_def elapsed_def Let_def split: option.split)

lemma live_record_key:
  "live now' k (record_key now key l) =
     (if k = key then
        (let w = (case live now key l of None \<Rightarrow> \<lparr>rw_count = 1, rw_start = now\<rparr>
                  | Some w \<Rightarrow> w\<lparr>rw_count := rw_count w + 1\<rparr>) in
         if elapsed l now' w then None else Some w)
      else live now' k l)"
  by (auto simp: live_def record_key_def elapsed_def Let_def split: option.split)

lemma live_sweep:
  "now \<le> now' \<Longrightarrow> live now' k (sweep now l) = live now' k l"
  by (auto simp: live_def sweep_def elapsed_def split: option.split)

text \<open>A trace of \<open>allow\<close> calls: who called, when, and what was answered.\<close>

fun allow_run :: "(instant \<times> string) list \<Rightarrow> rate_limiter \<Rightarrow> bool list \<times> rate_limiter" where
  "allow_run [] l = ([], l)"
| "allow_run ((now, key) # cs) l =
     (case allow now key l of ((_, ok), l') \<Rightarrow>
        (case allow_run cs l' of (oks, l'') \<Rightarrow> (ok # oks, l'')))"

definition granted :: "string \<Rightarrow> (instant \<times> string) list \<Rightarrow> rate_limiter \<Rightarrow> nat" where
  "granted key cs l = length (filter (\<lambda>((now, k), ok). k = key \<and> ok) (zip cs (fst (allow_run cs l))))"

lemma granted_Nil [simp]: "granted key [] l = 0"
  by (simp add: granted_def)

lemma granted_Cons:
  "granted key ((now, k) # cs) l =
     (if k = key \<and> \<not> snd (blocked now [key] l) then 1 else 0)
     + granted key cs (record_failures now [k] l)"
  by (auto simp: granted_def allow_def split: prod.split)

lemma live_record_failures:
  "now \<le> now' \<Longrightarrow> live now' k (record_failures now [key] l) =
     (if k = key then
        (let w = (case live now key l of None \<Rightarrow> \<lparr>rw_count = 1, rw_start = now\<rparr>
                  | Some w \<Rightarrow> w\<lparr>rw_count := rw_count w + 1\<rparr>) in
         if elapsed l now' w then None else Some w)
      else live now' k l)"
  by (simp add: record_failures_def live_record_key live_sweep elapsed_def)

text \<open>While the window that is live stays live, at most the rest of the limit is granted.\<close>

lemma live_later: "now \<le> now' \<Longrightarrow> live now k l = None \<Longrightarrow> live now' k l = None"
  by (auto simp: live_def elapsed_def split: option.splits if_splits)

lemma live_later_Some:
  "live now k l = Some w \<Longrightarrow> now' - rw_start w < rl_window l \<Longrightarrow> live now' k l = Some w"
  by (auto simp: live_def elapsed_def split: option.splits if_splits)

lemma granted_in_window:
  assumes "sorted (map fst cs)" and "\<forall>c \<in> set cs. now0 \<le> fst c \<and> fst c - rw_start w < rl_window l"
    and "live now0 key l = Some w"
  shows "int (granted key cs l) \<le> max 0 (rl_limit l - rw_count w)"
  using assms
proof (induction cs arbitrary: l w now0)
  case Nil
  then show ?case by simp
next
  case (Cons c cs)
  obtain now k where c: "c = (now, k)" by (cases c)
  let ?l' = "record_failures now [k] l"
  have now: "now0 \<le> now" "now - rw_start w < rl_window l" using Cons.prems(2) c by auto
  have lv: "live now key l = Some w" by (rule live_later_Some [OF Cons.prems(3) now(2)])
  have ord: "\<forall>c \<in> set cs. now \<le> fst c" using Cons.prems(1) c by auto
  show ?case
  proof (cases "k = key")
    case True
    let ?w = "w\<lparr>rw_count := rw_count w + 1\<rparr>"
    have lv': "live now key ?l' = Some ?w"
      using lv True now(2) by (simp add: live_record_failures Let_def elapsed_def)
    have "int (granted key cs ?l') \<le> max 0 (rl_limit ?l' - rw_count ?w)"
      by (rule Cons.IH [of now]) (use Cons.prems ord lv' in auto)
    with True c lv show ?thesis
      by (auto simp: granted_Cons blocked_single)
  next
    case False
    have lv': "live now key ?l' = Some w"
      using lv False by (simp add: live_record_failures)
    have "int (granted key cs ?l') \<le> max 0 (rl_limit ?l' - rw_count w)"
      by (rule Cons.IH [of now]) (use Cons.prems ord lv' in auto)
    with False c show ?thesis by (simp add: granted_Cons)
  qed
qed

text \<open>With no live window the next call of the key opens one, so one limit is granted.\<close>

lemma granted_fresh:
  assumes "sorted (map fst cs)" and "\<forall>c \<in> set cs. now0 \<le> fst c \<and> fst c < now0 + rl_window l"
    and "live now0 key l = None" and "1 \<le> rl_limit l"
  shows "int (granted key cs l) \<le> rl_limit l"
  using assms
proof (induction cs arbitrary: l now0)
  case Nil
  then show ?case by simp
next
  case (Cons c cs)
  obtain now k where c: "c = (now, k)" by (cases c)
  let ?l' = "record_failures now [k] l"
  have now: "now0 \<le> now" "now < now0 + rl_window l" using Cons.prems(2) c by auto
  have lv: "live now key l = None" by (rule live_later [OF now(1) Cons.prems(3)])
  have ord: "\<forall>c \<in> set cs. now \<le> fst c" using Cons.prems(1) c by auto
  show ?case
  proof (cases "k = key")
    case True
    let ?w = "\<lparr>rw_count = 1, rw_start = now\<rparr>"
    have lv': "live now key ?l' = Some ?w"
      using lv True now by (simp add: live_record_failures Let_def elapsed_def)
    have "int (granted key cs ?l') \<le> max 0 (rl_limit ?l' - rw_count ?w)"
      by (rule granted_in_window [of cs now ?w])
        (use Cons.prems(1,2) c ord lv' now in \<open>auto simp: algebra_simps\<close>)
    with True c lv Cons.prems(4) show ?thesis by (simp add: granted_Cons blocked_single)
  next
    case False
    have lv': "live now key ?l' = None" using lv False by (simp add: live_record_failures)
    have "int (granted key cs ?l') \<le> rl_limit ?l'"
    proof (rule Cons.IH [of now])
      show "\<forall>c \<in> set cs. now \<le> fst c \<and> fst c < now + rl_window ?l'"
        using Cons.prems(2) c ord now by force
    qed (use Cons.prems lv' in auto)
    with False c show ?thesis by (simp add: granted_Cons)
  qed
qed

definition rest_of_window :: "rate_limiter \<Rightarrow> rate_window option \<Rightarrow> int" where
  "rest_of_window l wo = (case wo of None \<Rightarrow> 0 | Some w \<Rightarrow> max 0 (rl_limit l - rw_count w))"

lemma granted_span:
  assumes "sorted (map fst cs)" and "\<forall>c \<in> set cs. now0 \<le> fst c \<and> fst c < now0 + rl_window l"
    and "1 \<le> rl_limit l"
  shows "int (granted key cs l) \<le> rest_of_window l (live now0 key l) + rl_limit l"
  using assms
proof (induction cs arbitrary: l now0)
  case Nil
  then show ?case by (simp add: rest_of_window_def split: option.split)
next
  case (Cons c cs)
  obtain now k where c: "c = (now, k)" by (cases c)
  have now: "now0 \<le> now" using Cons.prems(2) c by auto
  have nonneg: "0 \<le> rest_of_window l (live now0 key l)"
    by (simp add: rest_of_window_def split: option.split)
  show ?case
  proof (cases "live now key l")
    case None
    have "\<forall>c' \<in> set (c # cs). now \<le> fst c' \<and> fst c' < now + rl_window l"
      using Cons.prems(1,2) c now by force
    from granted_fresh [OF Cons.prems(1) this None Cons.prems(3)] nonneg show ?thesis by simp
  next
    case (Some w)
    let ?l' = "record_failures now [k] l"
    have w0: "live now0 key l = Some w"
      using Some now by (auto simp: live_def elapsed_def split: option.splits if_splits)
    have ih: "int (granted key cs ?l') \<le> rest_of_window ?l' (live now key ?l') + rl_limit ?l'"
      by (rule Cons.IH [of now]) (use Cons.prems c now in force)+
    have el: "\<not> elapsed l now w"
      using Some by (auto simp: live_def split: option.splits if_splits)
    have lv: "live now key ?l' = (if k = key then Some (w\<lparr>rw_count := rw_count w + 1\<rparr>) else Some w)"
      using Some el by (simp add: live_record_failures Let_def elapsed_def)
    show ?thesis
      using ih w0 c Some unfolding lv
      by (cases "k = key") (auto simp: granted_Cons blocked_single rest_of_window_def)
  qed
qed

definition counts_positive :: "rate_limiter \<Rightarrow> bool" where
  "counts_positive l \<longleftrightarrow> (\<forall>k w. rl_windows l k = Some w \<longrightarrow> 1 \<le> rw_count w)"

lemma counts_positiveD: "counts_positive l \<Longrightarrow> live now k l = Some w \<Longrightarrow> 1 \<le> rw_count w"
proof -
  assume "counts_positive l" and "live now k l = Some w"
  then have "\<forall>k w. rl_windows l k = Some w \<longrightarrow> 1 \<le> rw_count w" and "rl_windows l k = Some w"
    by (auto simp: counts_positive_def live_def split: option.splits if_splits)
  then show ?thesis by blast
qed

lemma counts_positive_sweep: "counts_positive l \<Longrightarrow> counts_positive (sweep now l)"
  by (auto simp: counts_positive_def sweep_def split: option.splits if_splits)

lemma counts_positive_record_key:
  assumes "counts_positive l"
  shows "counts_positive (record_key now key l)"
proof (cases "rl_windows l key")
  case None
  with assms show ?thesis by (auto simp: counts_positive_def record_key_def)
next
  case (Some w)
  with assms have w: "1 \<le> rw_count w" unfolding counts_positive_def by blast
  show ?thesis
    unfolding counts_positive_def
  proof (intro allI impI)
    fix k v
    assume v: "rl_windows (record_key now key l) k = Some v"
    have "rl_windows l k = Some v \<Longrightarrow> 1 \<le> rw_count v"
      using assms by (simp add: counts_positive_def)
    with v w show "1 \<le> rw_count v"
      by (auto simp: record_key_def Some split: if_splits)
  qed
qed

lemma counts_positive_record: "counts_positive l \<Longrightarrow> counts_positive (record_failures now [key] l)"
  by (simp add: record_failures_def counts_positive_record_key counts_positive_sweep)

lemma allow_run_inv:
  "counts_positive l \<Longrightarrow> counts_positive (snd (allow_run cs l))
     \<and> rl_limit (snd (allow_run cs l)) = rl_limit l \<and> rl_window (snd (allow_run cs l)) = rl_window l"
proof (induction cs arbitrary: l)
  case Nil
  then show ?case by simp
next
  case (Cons c cs)
  obtain now k where c: "c = (now, k)" by (cases c)
  obtain r b where "blocked now [k] l = (r, b)" by fastforce
  moreover obtain oks l'' where "allow_run cs (record_failures now [k] l) = (oks, l'')" by fastforce
  ultimately show ?case
    using Cons.IH [OF counts_positive_record [OF Cons.prems, of now k]] c
    by (simp add: allow_def)
qed

section \<open>Failure counting\<close>

text \<open>A run of failures charged to one key, none of them past the window of the first.\<close>

lemma record_run:
  assumes "live now0 key l = Some w" and "\<forall>t \<in> set ts. t - rw_start w < rl_window l \<and> now0 \<le> t"
    and "sorted ts" and "now' - rw_start w < rl_window l" and "\<forall>t \<in> set (now0 # ts). t \<le> now'"
  shows "live now' key (fold (\<lambda>t. record_failures t [key]) ts l)
       = Some (w\<lparr>rw_count := rw_count w + int (length ts)\<rparr>)"
  using assms
proof (induction ts arbitrary: l w now0)
  case Nil
  from live_later_Some [OF Nil(1) Nil(4)] show ?case by simp
next
  case (Cons t ts)
  let ?l' = "record_failures t [key] l"
  have t: "now0 \<le> t" "t - rw_start w < rl_window l" using Cons.prems(2) by auto
  have lv: "live t key l = Some w" by (rule live_later_Some [OF Cons.prems(1) t(2)])
  have lv': "live t key ?l' = Some (w\<lparr>rw_count := rw_count w + 1\<rparr>)"
    using lv t(2) by (simp add: live_record_failures Let_def elapsed_def)
  have "live now' key (fold (\<lambda>t. record_failures t [key]) ts ?l')
      = Some ((w\<lparr>rw_count := rw_count w + 1\<rparr>)\<lparr>rw_count := rw_count (w\<lparr>rw_count := rw_count w + 1\<rparr>) + int (length ts)\<rparr>)"
    by (rule Cons.IH [OF lv']) (use Cons.prems in auto)
  then show ?case by (simp add: algebra_simps)
qed

section \<open>Properties\<close>

text \<open>
  C39. Attempt counting bounds abuse: whatever calls of whatever keys went before, in any span
  shorter than the window a key is granted at most twice the limit less one, and at most the limit
  when no window of the key was live at the start of the span; calls of other keys do not matter.
\<close>

theorem allow_bounded:
  assumes "1 \<le> limit" and "sorted (map fst (pre @ span))"
    and "\<forall>c \<in> set span. now0 \<le> fst c \<and> fst c < now0 + window"
    and "l = snd (allow_run pre (new_rate_limiter limit window))"
  shows "int (granted key span l) \<le> 2 * limit - 1
       \<and> (live now0 key l = None \<longrightarrow> int (granted key span l) \<le> limit)"
proof -
  have "counts_positive (new_rate_limiter limit window)"
    by (simp add: counts_positive_def new_rate_limiter_def)
  from allow_run_inv [OF this, of pre]
  have l: "counts_positive l" "rl_limit l = limit" "rl_window l = window"
    by (simp_all add: assms(4) new_rate_limiter_def)
  have so: "sorted (map fst span)" using assms(2) by (simp add: sorted_append)
  have span: "int (granted key span l) \<le> rest_of_window l (live now0 key l) + limit"
    using granted_span [OF so, of now0 l key] assms(1,3) l by simp
  have "rest_of_window l (live now0 key l) \<le> limit - 1"
    using counts_positiveD [OF l(1), of now0 key] l(2) assms(1)
    by (auto simp: rest_of_window_def split: option.splits)
  with span show ?thesis by (auto simp: rest_of_window_def)
qed

text \<open>
  Failure counting: after \<open>n\<close> failures of a fresh key inside one window the key is refused
  exactly when \<open>n\<close> has reached the limit, the reported wait is what is left of the window of the
  first failure, asking does not count, the refusal ends with that window, and a success clears it
  at once.
\<close>

theorem failures_block:
  assumes "live t0 key l = None" and "1 \<le> rl_limit l"
    and "sorted (t0 # ts)" and "\<forall>t \<in> set (t0 # ts). t \<le> now" and "now < t0 + rl_window l"
    and "l' = fold (\<lambda>t. record_failures t [key]) (t0 # ts) l"
  shows "blocked now [key] l' =
           (if rl_limit l \<le> int (length (t0 # ts)) then (t0 + rl_window l - now, True) else (0, False))
       \<and> blocked (t0 + rl_window l) [key] l' = (0, False)
       \<and> blocked now [key] (reset_keys [key] l') = (0, False)"
proof -
  let ?w = "\<lparr>rw_count = 1, rw_start = t0\<rparr>"
  let ?l1 = "record_failures t0 [key] l"
  have win: "0 < rl_window l" using assms(4,5) by force
  have "live t0 key ?l1 = Some ?w"
    using assms(1) win by (simp add: live_record_failures Let_def elapsed_def)
  moreover have "\<forall>t \<in> set ts. t - rw_start ?w < rl_window ?l1 \<and> t0 \<le> t"
    using assms(3,4,5) by auto
  ultimately have lv: "live now key l' = Some (?w\<lparr>rw_count := rw_count ?w + int (length ts)\<rparr>)"
    unfolding assms(6) fold.simps comp_apply
    by (rule record_run) (use assms(3,4,5) in auto)
  have frame: "rl_limit l' = rl_limit l" "rl_window l' = rl_window l"
  proof -
    have "rl_limit (fold (\<lambda>t. record_failures t [key]) us m) = rl_limit m
        \<and> rl_window (fold (\<lambda>t. record_failures t [key]) us m) = rl_window m" for us m
      by (induction us arbitrary: m) simp_all
    then show "rl_limit l' = rl_limit l" "rl_window l' = rl_window l"
      unfolding assms(6) by blast+
  qed
  have "live (t0 + rl_window l) key l' = None"
    using lv frame by (auto simp: live_def elapsed_def split: option.splits if_splits)
  moreover have "live now key (reset_keys [key] l') = None"
    by (simp add: live_def reset_keys_def)
  ultimately show ?thesis
    using lv frame by (auto simp: blocked_single)
qed

section \<open>Witnesses\<close>

theorem allow_bounded_witness:
  "int (granted ''k'' [(5, ''k''), (6, ''k''), (7, ''k'')] (new_rate_limiter 2 10)) \<le> 2
   \<and> fst (allow_run [(5, ''k''), (6, ''k''), (7, ''k'')] (new_rate_limiter 2 10)) = [True, True, False]"
proof
  have "live 5 ''k'' (new_rate_limiter 2 10) = None" by (simp add: live_def new_rate_limiter_def)
  then show "int (granted ''k'' [(5, ''k''), (6, ''k''), (7, ''k'')] (new_rate_limiter 2 10)) \<le> 2"
    using allow_bounded [of 2 "[]" "[(5, ''k''), (6, ''k''), (7, ''k'')]" 5 10
        "new_rate_limiter 2 10" "''k''"] by simp
  show "fst (allow_run [(5, ''k''), (6, ''k''), (7, ''k'')] (new_rate_limiter 2 10)) = [True, True, False]"
    by (simp add: allow_def blocked_def blocked_step_def record_failures_def sweep_def record_key_def
        new_rate_limiter_def elapsed_def)
qed

theorem failures_block_witness:
  "blocked 8 [''ip:a''] (fold (\<lambda>t. record_failures t [''ip:a'']) [5, 6] (new_rate_limiter 2 10)) = (7, True)"
  using failures_block [of 5 "''ip:a''" "new_rate_limiter 2 10" "[6]" 8
      "fold (\<lambda>t. record_failures t [''ip:a'']) [5, 6] (new_rate_limiter 2 10)"]
  by (simp add: live_def new_rate_limiter_def)

end
