(* ===== verification/Gamification.thy ===== *)
theory Gamification
  imports Complex_Main Expiry "HOL-Library.Multiset"
begin

text \<open>
  \<open>internal/gamification\<close>, the pure scoring package: XP constants, the coalescing of events into
  contributions, the level curve, the rolling holiday window, quest selection and the milestone
  ladders; and the week arithmetic of \<open>internal/store/gamification.go\<close>. Instants are
  nanoseconds; \<open>time.Duration\<close> differences are exact integers (spans are far below the 292 years
  a Duration holds). \<open>Level\<close> computes the integer part of the root of \<open>xp / 50\<close> in double
  precision; for the 32-bit XP totals the database holds, both roundings keep the integer part, so
  the model takes the integer root.
\<close>

section \<open>Constants\<close>

datatype contribution_kind =
    AICorrection | MetadataFilled | LocationMapped | CategoryCreated
  | ExpiryConfirmed | AmbiguityResolved

definition kind_name :: "contribution_kind \<Rightarrow> string" where
  "kind_name k = (case k of
      AICorrection \<Rightarrow> ''ai_correction'' | MetadataFilled \<Rightarrow> ''metadata_filled''
    | LocationMapped \<Rightarrow> ''location_mapped'' | CategoryCreated \<Rightarrow> ''category_created''
    | ExpiryConfirmed \<Rightarrow> ''expiry_confirmed'' | AmbiguityResolved \<Rightarrow> ''ambiguity_resolved'')"

definition xp_ledger_contribution :: int where "xp_ledger_contribution = 3"

definition xp_for_ledger_reason :: "string \<Rightarrow> int option" where
  "xp_for_ledger_reason reason =
     (if reason \<in> set [''purchase'', ''consumption'', ''vision_ingestion'']
      then Some xp_ledger_contribution else None)"

definition xp_for_contribution :: "contribution_kind \<Rightarrow> int" where
  "xp_for_contribution k = (case k of
      AICorrection \<Rightarrow> 5 | AmbiguityResolved \<Rightarrow> 4 | MetadataFilled \<Rightarrow> 2
    | ExpiryConfirmed \<Rightarrow> 2 | LocationMapped \<Rightarrow> 5 | CategoryCreated \<Rightarrow> 2)"

section \<open>Coalescing\<close>

record event =
  ev_ref :: uuid
  ev_kind :: string
  ev_at :: instant
  ev_xp :: int

definition score_window :: int where "score_window = 2 * 3600 * 1000000000"

definition coalesce_group :: "string \<Rightarrow> string" where
  "coalesce_group kind =
     (if kind \<in> set [''vision_ingestion'', ''ai_correction''] then ''confirm action'' else kind)"

definition max_xp :: "event list \<Rightarrow> int" where
  "max_xp es = fold (\<lambda>e highest. if ev_xp e > highest then ev_xp e else highest) es 0"

text \<open>
  The window loop over one sorted group: \<open>w\<close> is the slice from \<open>windowStart\<close> to the current
  index and the remaining list holds the rest of the group.
\<close>

fun window_scan :: "event list \<Rightarrow> event list \<Rightarrow> int \<Rightarrow> int" where
  "window_scan w [] tot = tot + max_xp w"
| "window_scan w (e # es) tot =
     (if ev_at e - ev_at (last w) \<ge> score_window then window_scan [e] es (tot + max_xp w)
      else window_scan (w @ [e]) es tot)"

definition group_xp :: "event list \<Rightarrow> int" where
  "group_xp g = (case g of [] \<Rightarrow> 0 | e # es \<Rightarrow> window_scan [e] es 0)"

definition event_key :: "event \<Rightarrow> uuid \<times> string" where
  "event_key e = (ev_ref e, coalesce_group (ev_kind e))"

definition coalesce :: "event list \<Rightarrow> int" where
  "coalesce es =
     sum_list (map (\<lambda>k. group_xp (sort_key ev_at (filter (\<lambda>e. event_key e = k) es)))
       (remdups (map event_key es)))"

text \<open>
  The same loop as a fold over a small state: the last instant, the best XP of the open window and
  the total of the closed ones. Two events at one instant can be swapped in it.
\<close>

definition window_step :: "event \<Rightarrow> (instant \<times> int \<times> int) option \<Rightarrow> (instant \<times> int \<times> int) option" where
  "window_step e st = (case st of
      None \<Rightarrow> Some (ev_at e, max 0 (ev_xp e), 0)
    | Some (t, m, tot) \<Rightarrow>
        if ev_at e - t \<ge> score_window then Some (ev_at e, max 0 (ev_xp e), tot + m)
        else Some (ev_at e, max m (ev_xp e), tot))"

definition window_total :: "(instant \<times> int \<times> int) option \<Rightarrow> int" where
  "window_total st = (case st of None \<Rightarrow> 0 | Some (t, m, tot) \<Rightarrow> tot + m)"

lemma max_xp_snoc [simp]: "max_xp (es @ [e]) = max (max_xp es) (ev_xp e)"
  by (simp add: max_xp_def max_def)

lemma max_xp_single [simp]: "max_xp [e] = max 0 (ev_xp e)"
  by (simp add: max_xp_def max_def)

lemma window_scan_fold:
  "window_scan w es tot = window_total (fold window_step es (Some (ev_at (last w), max_xp w, tot)))"
proof (induction w es tot rule: window_scan.induct)
  case (1 w tot)
  then show ?case by (simp add: window_total_def)
next
  case (2 w e es tot)
  then show ?case by (simp add: window_step_def del: max_xp_single) simp
qed

lemma group_xp_fold: "group_xp g = window_total (fold window_step g None)"
  by (cases g) (simp_all add: group_xp_def window_scan_fold window_step_def window_total_def)

lemma window_step_commute:
  "ev_at a = ev_at b \<Longrightarrow> window_step b (window_step a st) = window_step a (window_step b st)"
  by (cases st) (auto simp: window_step_def score_window_def max.commute max.left_commute)

text \<open>Two sorted arrangements of one multiset fold alike when ties commute.\<close>

lemma fold_move_front:
  assumes "\<And>a b s. key a = key b \<Longrightarrow> f b (f a s) = f a (f b s)"
    and "\<forall>u \<in> set us. key u = key a"
  shows "fold f (us @ a # vs) s = fold f (a # us @ vs) s"
  using assms(2)
proof (induction us arbitrary: s)
  case Nil
  then show ?case by simp
next
  case (Cons u us)
  then show ?case using assms(1) [of u a] by simp
qed

lemma fold_sorted_perm:
  fixes key :: "'a \<Rightarrow> 'k :: linorder"
  assumes comm: "\<And>a b s. key a = key b \<Longrightarrow> f b (f a s) = f a (f b s)"
    and "sorted (map key g)" and "sorted (map key g')" and "mset g = mset g'"
  shows "fold f g s = fold f g' s"
  using assms(2-4)
proof (induction g arbitrary: g' s)
  case Nil
  then show ?case by simp
next
  case (Cons a g)
  then have "a \<in> set g'" by (metis list.set_intros(1) set_mset_mset)
  then obtain us vs where g': "g' = us @ a # vs" by (meson split_list)
  have "key u = key a" if "u \<in> set us" for u
  proof (rule antisym)
    show "key u \<le> key a" using Cons.prems(2) that by (auto simp: g' sorted_append)
    have "u \<in> set (a # g)" using Cons.prems(3) that g' by (metis UnCI set_append set_mset_mset)
    then show "key a \<le> key u" using Cons.prems(1) by auto
  qed
  then have "fold f g' s = fold f (us @ vs) (f a s)"
    using fold_move_front [of key f us a vs, OF comm] by (simp add: g')
  moreover have "fold f g (f a s) = fold f (us @ vs) (f a s)"
  proof (rule Cons.IH)
    show "sorted (map key g)" using Cons.prems(1) by simp
    show "sorted (map key (us @ vs))" using Cons.prems(2) by (auto simp: g' sorted_append)
    show "mset g = mset (us @ vs)" using Cons.prems(3) by (simp add: g')
  qed
  ultimately show ?case by simp
qed

lemma group_xp_perm:
  assumes "sorted (map ev_at g)" and "sorted (map ev_at g')" and "mset g = mset g'"
  shows "group_xp g = group_xp g'"
  unfolding group_xp_fold
  using fold_sorted_perm [of ev_at window_step g g' None, OF window_step_commute assms] by simp

lemma coalesce_sum:
  "coalesce es = (\<Sum>k \<in> event_key ` set es.
      group_xp (sort_key ev_at (filter (\<lambda>e. event_key e = k) es)))"
  by (simp add: coalesce_def sum_list_distinct_conv_sum_set)

section \<open>Levels\<close>

text \<open>The largest root below the bound, searched downwards.\<close>

fun isqrt_below :: "nat \<Rightarrow> nat \<Rightarrow> nat" where
  "isqrt_below n 0 = 0"
| "isqrt_below n (Suc k) = (if Suc k * Suc k \<le> n then Suc k else isqrt_below n k)"

definition level_of :: "int \<Rightarrow> int" where
  "level_of xp = (let x = if xp < 0 then 0 else xp; q = nat (x div 50) in int (isqrt_below q q) + 1)"

definition xp_threshold_for_level :: "int \<Rightarrow> int" where
  "xp_threshold_for_level l = (let step = (if l < 1 then 1 else l) - 1 in 50 * step * step)"

lemma isqrt_below_ge: "j \<le> k \<Longrightarrow> j * j \<le> n \<Longrightarrow> j \<le> isqrt_below n k"
  by (induction k) (auto simp: le_Suc_eq)

lemma isqrt_below_sq: "isqrt_below n k * isqrt_below n k \<le> n"
  by (induction k) auto

lemma le_isqrt_iff: "j \<le> isqrt_below n n \<longleftrightarrow> j * j \<le> n"
proof
  assume "j \<le> isqrt_below n n"
  then have "j * j \<le> isqrt_below n n * isqrt_below n n" by (simp add: mult_le_mono)
  also have "\<dots> \<le> n" by (rule isqrt_below_sq)
  finally show "j * j \<le> n" .
next
  assume h: "j * j \<le> n"
  have "j \<le> j * j" by (cases j) auto
  with h have "j \<le> n" by linarith
  from isqrt_below_ge [OF this h] show "j \<le> isqrt_below n n" .
qed

lemma level_ge_iff:
  assumes "1 \<le> l"
  shows "l \<le> level_of xp \<longleftrightarrow> l = 1 \<or> xp_threshold_for_level l \<le> xp"
proof -
  let ?x = "if xp < 0 then 0 else xp"
  let ?q = "nat (?x div 50)"
  have pos: "0 \<le> ?x div 50" by (simp add: pos_imp_zdiv_nonneg_iff)
  have "l \<le> level_of xp \<longleftrightarrow> nat (l - 1) \<le> isqrt_below ?q ?q"
    using assms by (auto simp: level_of_def Let_def)
  also have "\<dots> \<longleftrightarrow> nat (l - 1) * nat (l - 1) \<le> ?q" by (rule le_isqrt_iff)
  also have "\<dots> \<longleftrightarrow> (l - 1) * (l - 1) \<le> ?x div 50"
    using assms pos by (simp add: nat_mult_distrib [symmetric] nat_le_eq_zle)
  also have "\<dots> \<longleftrightarrow> 50 * ((l - 1) * (l - 1)) \<le> ?x" by linarith
  also have "\<dots> \<longleftrightarrow> l = 1 \<or> xp_threshold_for_level l \<le> xp"
  proof (cases "xp < 0")
    case True
    have z: "l = 1" if "(l - 1) * (l - 1) \<le> 0" using that assms by (simp add: mult_le_0_iff)
    have "0 \<le> (l - 1) * (l - 1)" by simp
    then show ?thesis using True assms
      by (auto simp: xp_threshold_for_level_def Let_def mult.assoc intro: z)
  next
    case False
    then show ?thesis using assms by (auto simp: xp_threshold_for_level_def Let_def mult.assoc)
  qed
  finally show ?thesis .
qed

section \<open>Weeks\<close>

text \<open>1970-01-01 was a Thursday; Go's \<open>Weekday\<close> counts from Sunday.\<close>

definition weekday :: "date \<Rightarrow> int" where
  "weekday d = (d + 4) mod 7"

definition monday_of :: "instant \<Rightarrow> date" where
  "monday_of t = (let d = day_of t in d - (weekday d + 6) mod 7)"

lemma monday_of_monday: "weekday (monday_of t) = 1"
  unfolding monday_of_def weekday_def Let_def by presburger

lemma monday_of_bounds: "monday_of t \<le> day_of t \<and> day_of t < monday_of t + 7"
  unfolding monday_of_def weekday_def Let_def by presburger

section \<open>The holiday budget\<close>

definition holiday_budget_weeks :: int where "holiday_budget_weeks = 8"
definition holiday_window_weeks :: int where "holiday_window_weeks = 52"

definition weeks_between :: "date \<Rightarrow> date \<Rightarrow> int" where
  "weeks_between a b = (if a \<le> b then (b - a) div 7 else - ((a - b) div 7))"

text \<open>The inner loop moves \<open>left\<close> up to at most \<open>right\<close>, where the distance is zero.\<close>

function advance_left :: "date list \<Rightarrow> nat \<Rightarrow> nat \<Rightarrow> nat" where
  "advance_left ws left right =
     (if left < right \<and> weeks_between (ws ! left) (ws ! right) \<ge> holiday_window_weeks
      then advance_left ws (Suc left) right else left)"
  by pat_completeness auto

termination
  by (relation "measure (\<lambda>(s, l, r). r - l)") auto

declare advance_left.simps [simp del]

definition max_weeks_step :: "date list \<Rightarrow> nat \<Rightarrow> nat \<times> nat \<Rightarrow> nat \<times> nat" where
  "max_weeks_step ws right st = (case st of (left, maxc) \<Rightarrow>
     (let left' = advance_left ws left right; count = right - left' + 1 in
      (left', if count > maxc then count else maxc)))"

definition max_weeks_in_window :: "date list \<Rightarrow> nat" where
  "max_weeks_in_window weeks =
     (if weeks = [] then 0
      else let s = sort weeks in snd (fold (max_weeks_step s) [0..<length s] (0, 0)))"

text \<open>The specification: the fullest 52-week window that begins at a marked week.\<close>

definition weeks_in_window_from :: "date list \<Rightarrow> date \<Rightarrow> nat" where
  "weeks_in_window_from weeks w = length (filter (\<lambda>v. w \<le> v \<and> v < w + 7 * holiday_window_weeks) weeks)"

lemma weeks_between_ge:
  "a \<le> b \<Longrightarrow> weeks_between a b \<ge> holiday_window_weeks \<longleftrightarrow> a + 7 * holiday_window_weeks \<le> b"
  by (auto simp: weeks_between_def holiday_window_weeks_def)

lemma advance_left_spec:
  assumes "sorted s" and "left \<le> right" and "right < length s"
  shows "left \<le> advance_left s left right \<and> advance_left s left right \<le> right
       \<and> s ! right < s ! advance_left s left right + 7 * holiday_window_weeks
       \<and> (\<forall>i. left \<le> i \<and> i < advance_left s left right \<longrightarrow>
              s ! i + 7 * holiday_window_weeks \<le> s ! right)"
  using assms
proof (induction s left right rule: advance_left.induct)
  case (1 s left right)
  have le: "s ! left \<le> s ! right"
    using "1.prems" by (simp add: sorted_nth_mono)
  show ?case
  proof (cases "left < right \<and> weeks_between (s ! left) (s ! right) \<ge> holiday_window_weeks")
    case True
    with "1.IH" "1.prems" have ih: "Suc left \<le> advance_left s (Suc left) right"
      "advance_left s (Suc left) right \<le> right"
      "s ! right < s ! advance_left s (Suc left) right + 7 * holiday_window_weeks"
      "\<forall>i. Suc left \<le> i \<and> i < advance_left s (Suc left) right \<longrightarrow>
          s ! i + 7 * holiday_window_weeks \<le> s ! right" by auto
    have "s ! left + 7 * holiday_window_weeks \<le> s ! right"
      using True le by (simp add: weeks_between_ge)
    with ih(4) have "\<forall>i. left \<le> i \<and> i < advance_left s (Suc left) right \<longrightarrow>
          s ! i + 7 * holiday_window_weeks \<le> s ! right"
      by (metis Suc_leI le_neq_implies_less)
    with ih True show ?thesis by (simp add: advance_left.simps [of s left right])
  next
    case False
    then have "s ! right < s ! left + 7 * holiday_window_weeks"
      using le "1.prems" weeks_between_ge [OF le]
      by (cases "left = right") (auto simp: holiday_window_weeks_def)
    moreover have "advance_left s left right = left"
      using False by (auto simp: advance_left.simps [of s left right])
    ultimately show ?thesis using "1.prems" by simp
  qed
qed

text \<open>After the loop has passed \<open>n\<close> positions: \<open>left\<close> is the first week the last window holds.\<close>

lemma max_weeks_fold:
  assumes "sorted s" and "n \<le> length s" and "fold (max_weeks_step s) [0..<n] (0, 0) = (left, m)"
  shows "(\<forall>i < left. \<exists>r < n. s ! i + 7 * holiday_window_weeks \<le> s ! r)
       \<and> (n = 0 \<longrightarrow> left = 0) \<and> (n > 0 \<longrightarrow> left < n)
       \<and> (\<forall>l r. l \<le> r \<and> r < n \<and> s ! r < s ! l + 7 * holiday_window_weeks \<longrightarrow> r - l + 1 \<le> m)
       \<and> (m > 0 \<longrightarrow> (\<exists>l r. l \<le> r \<and> r < n \<and> s ! r < s ! l + 7 * holiday_window_weeks \<and> m = r - l + 1))"
  using assms(2,3)
proof (induction n arbitrary: left m)
  case 0
  then show ?case by simp
next
  case (Suc n)
  obtain l0 m0 where prev: "fold (max_weeks_step s) [0..<n] (0, 0) = (l0, m0)"
    by fastforce
  note ih = Suc.IH [OF _ prev]
  have l0: "l0 \<le> n" using ih Suc.prems(1) by (cases n) auto
  let ?l = "advance_left s l0 n"
  have "max_weeks_step s n (l0, m0) = (left, m)"
    using Suc.prems(2) prev by simp
  then have lm: "left = ?l" "m = max m0 (n - ?l + 1)"
    by (auto simp: max_weeks_step_def Let_def)
  have n: "n < length s" using Suc.prems(1) by simp
  note adv = advance_left_spec [OF assms(1) l0 n]
  have w: "0 < 7 * holiday_window_weeks" by (simp add: holiday_window_weeks_def)
  have c1: "\<exists>r < Suc n. s ! i + 7 * holiday_window_weeks \<le> s ! r" if "i < left" for i
  proof (cases "i < l0")
    case True
    with ih Suc.prems(1) show ?thesis by (meson Suc_leD less_SucI)
  next
    case False
    with that lm(1) adv show ?thesis by (meson lessI not_less)
  qed
  have tail: "?l \<le> l" if l: "l \<le> n" "s ! n < s ! l + 7 * holiday_window_weeks" for l
  proof (rule ccontr)
    assume "\<not> ?l \<le> l"
    then obtain r where r: "r < Suc n" "s ! l + 7 * holiday_window_weeks \<le> s ! r"
      using c1 [of l] lm(1) by auto
    have "s ! r \<le> s ! n" using assms(1) r(1) n by (simp add: sorted_nth_mono)
    with r(2) l(2) show False by linarith
  qed
  have c3: "r - l + 1 \<le> m"
    if "l \<le> r" "r < Suc n" "s ! r < s ! l + 7 * holiday_window_weeks" for l r
  proof (cases "r = n")
    case True
    with that tail [of l] lm(2) show ?thesis by simp
  next
    case False
    with that ih Suc.prems(1) have "r - l + 1 \<le> m0"
      by (metis Suc_leD less_SucE)
    with lm(2) show ?thesis by simp
  qed
  have c4: "\<exists>l r. l \<le> r \<and> r < Suc n \<and> s ! r < s ! l + 7 * holiday_window_weeks \<and> m = r - l + 1"
  proof (cases "m0 \<ge> n - ?l + 1")
    case True
    with lm(2) have "m = m0" "m0 > 0" by auto
    with ih Suc.prems(1) show ?thesis by (metis Suc_leD less_SucI)
  next
    case False
    with lm(2) have "m = n - ?l + 1" by simp
    with adv show ?thesis by blast
  qed
  have "left < Suc n" using adv lm(1) by simp
  with c1 c3 c4 show ?case by blast
qed

lemma weeks_in_window_from_perm:
  "mset s = mset ws \<Longrightarrow> weeks_in_window_from s w = weeks_in_window_from ws w"
  unfolding weeks_in_window_from_def by (metis mset_filter size_mset)

lemma window_card:
  "weeks_in_window_from s w = card {i. i < length s \<and> w \<le> s ! i \<and> s ! i < w + 7 * holiday_window_weeks}"
  by (simp add: weeks_in_window_from_def length_filter_conv_card)

lemma interval_le_window:
  assumes "sorted s" and "l \<le> r" and "r < length s" and "s ! r < s ! l + 7 * holiday_window_weeks"
  shows "r - l + 1 \<le> weeks_in_window_from s (s ! l)"
proof -
  let ?I = "{i. i < length s \<and> s ! l \<le> s ! i \<and> s ! i < s ! l + 7 * holiday_window_weeks}"
  have "{l..r} \<subseteq> ?I"
  proof
    fix i assume "i \<in> {l..r}"
    then have i: "l \<le> i" "i \<le> r" by auto
    then have "s ! l \<le> s ! i" "s ! i \<le> s ! r"
      using assms by (simp_all add: sorted_nth_mono)
    with i assms show "i \<in> ?I" by auto
  qed
  then have "card {l..r} \<le> card ?I" by (rule card_mono [rotated]) simp
  then show ?thesis using assms(2) by (simp add: window_card)
qed

lemma window_le_interval:
  assumes "0 < weeks_in_window_from s w"
  shows "\<exists>l r. l \<le> r \<and> r < length s \<and> s ! r < s ! l + 7 * holiday_window_weeks
             \<and> weeks_in_window_from s w \<le> r - l + 1"
proof -
  let ?I = "{i. i < length s \<and> w \<le> s ! i \<and> s ! i < w + 7 * holiday_window_weeks}"
  have fin: "finite ?I" by simp
  have ne: "?I \<noteq> {}" using assms by (metis card.empty less_irrefl window_card)
  let ?l = "Min ?I" and ?r = "Max ?I"
  have l: "?l \<in> ?I" and r: "?r \<in> ?I"
    using Min_in [OF fin ne] Max_in [OF fin ne] by blast+
  have lr: "?l \<le> ?r" using Min_le [OF fin r] .
  have "?I \<subseteq> {?l..?r}" using Min_le [OF fin] Max_ge [OF fin] by auto
  then have "card ?I \<le> card {?l..?r}" by (rule card_mono [rotated]) simp
  also have "\<dots> = ?r - ?l + 1" using lr by simp
  finally have "weeks_in_window_from s w \<le> ?r - ?l + 1" by (simp add: window_card)
  moreover have "s ! ?r < s ! ?l + 7 * holiday_window_weeks" using l r by auto
  ultimately show ?thesis using lr r by blast
qed

section \<open>Quests\<close>

datatype generator_kind =
    StaleLocation | MissingExpiry | Uncategorized | Imageless | UntrackedReorder
  | ExpiringSoon | ConsumptionHygiene | FirstMile

definition generator_order :: "generator_kind list" where
  "generator_order = [StaleLocation, MissingExpiry, Uncategorized, Imageless, UntrackedReorder,
     ExpiringSoon, ConsumptionHygiene, FirstMile]"

fun index_from :: "generator_kind \<Rightarrow> generator_kind list \<Rightarrow> nat \<Rightarrow> nat" where
  "index_from g [] i = i"
| "index_from g (k # ks) i = (if k = g then i else index_from g ks (Suc i))"

definition generator_priority :: "generator_kind \<Rightarrow> nat" where
  "generator_priority g = index_from g generator_order 0"

definition xp_for_generator :: "generator_kind \<Rightarrow> int" where
  "xp_for_generator g = (case g of
      StaleLocation \<Rightarrow> 40 | MissingExpiry \<Rightarrow> 25 | Uncategorized \<Rightarrow> 20 | Imageless \<Rightarrow> 20
    | UntrackedReorder \<Rightarrow> 20 | ExpiringSoon \<Rightarrow> 30 | ConsumptionHygiene \<Rightarrow> 15 | FirstMile \<Rightarrow> 40)"

text \<open>Need scores are ratios of counts; \<open>'p\<close> is whatever parameter shape the store chose.\<close>

record 'p candidate =
  ca_generator :: generator_kind
  ca_fires :: bool
  ca_need :: rat
  ca_target :: int
  ca_params :: 'p

definition select_quests :: "'p candidate list \<Rightarrow> 'p candidate list" where
  "select_quests cs =
     (let fired = sort_key (\<lambda>c. - ca_need c) (filter ca_fires cs) in
      if length fired > 3 then take 3 fired else fired)"

lemma select_quests_take:
  "select_quests cs = take 3 (sort_key (\<lambda>c. - ca_need c) (filter ca_fires cs))"
  by (simp add: select_quests_def Let_def)

lemma sorted_take_drop:
  "sorted xs \<Longrightarrow> a \<in> set (take n xs) \<Longrightarrow> b \<in> set (drop n xs) \<Longrightarrow> a \<le> b"
  by (metis append_take_drop_id sorted_append)

section \<open>Milestones\<close>

datatype achievement =
    FirstShelf | Cartographer | Curator | Librarian | Archivist | ZeroWasteWeek | WellStocked
  | DeepFreeze | SteadyHand | SteadyHand13 | SteadyHand26 | SteadyHand39 | SteadyHand52
  | SpringClean

definition steady_hand_tiers :: "(int \<times> achievement) list" where
  "steady_hand_tiers = [(4, SteadyHand), (13, SteadyHand13), (26, SteadyHand26),
     (39, SteadyHand39), (52, SteadyHand52)]"

definition steady_hand_tiers_reached :: "int \<Rightarrow> achievement list" where
  "steady_hand_tiers_reached weeks = map snd (filter (\<lambda>t. weeks \<ge> fst t) steady_hand_tiers)"

text \<open>The key of a milestone: one of the four named ones or the generated yearly one.\<close>

datatype milestone_key = Immaculate int | ImmaculateYear int

definition immaculate_fixed :: "(int \<times> milestone_key \<times> int) list" where
  "immaculate_fixed = [(90, Immaculate 90, 200), (180, Immaculate 180, 500),
     (365, Immaculate 365, 1200), (730, Immaculate 730, 3000)]"

definition immaculate_year_xp :: int where "immaculate_year_xp = 3000"

definition immaculate_milestones_reached :: "int \<Rightarrow> (milestone_key \<times> int) list" where
  "immaculate_milestones_reached clean =
     map snd (filter (\<lambda>m. clean \<ge> fst m) immaculate_fixed)
     @ (let last_days = fst (last immaculate_fixed) in
        if clean > last_days
        then map (\<lambda>y. (ImmaculateYear y, immaculate_year_xp)) [1..(clean - last_days) div 365]
        else [])"

section \<open>Streaks\<close>

definition weeks_left :: "date list \<Rightarrow> date \<Rightarrow> nat" where
  "weeks_left ws w = card {v \<in> set ws. v \<le> w}"

lemma weeks_left_mono: "v \<le> w \<Longrightarrow> weeks_left ws v \<le> weeks_left ws w"
  unfolding weeks_left_def by (rule card_mono) auto

lemma weeks_left_less: "w \<in> set ws \<Longrightarrow> v < w \<Longrightarrow> weeks_left ws v < weeks_left ws w"
  unfolding weeks_left_def
proof (rule psubset_card_mono)
  assume "w \<in> set ws" and "v < w"
  then have "w \<in> {v \<in> set ws. v \<le> w}" and "w \<notin> {v' \<in> set ws. v' \<le> v}"
    and "{v' \<in> set ws. v' \<le> v} \<subseteq> {v \<in> set ws. v \<le> w}" by auto
  then show "{v' \<in> set ws. v' \<le> v} \<subset> {v \<in> set ws. v \<le> w}" by blast
qed simp

text \<open>
  \<open>computeStreakWeeks\<close>: the loop steps back a week while the week is marked, active or the
  current one. Every step but the first passes one of the finitely many marked weeks.
\<close>

function streak_loop :: "date list \<Rightarrow> date list \<Rightarrow> date \<Rightarrow> bool \<Rightarrow> int \<Rightarrow> int" where
  "streak_loop active holiday week current streak =
     (if week \<in> set holiday then streak_loop active holiday (week - 7) False streak
      else if week \<in> set active then streak_loop active holiday (week - 7) False (streak + 1)
      else if current then streak_loop active holiday (week - 7) False streak
      else streak)"
  by pat_completeness auto

termination
proof (relation "measure (\<lambda>(a, h, w, c, s). weeks_left (a @ h) w + (if c then 1 else 0))", goal_cases)
  case 1
  then show ?case by simp
next
  case (2 active holiday week current streak)
  then show ?case using weeks_left_less [of week "active @ holiday" "week - 7"] by simp
next
  case (3 active holiday week current streak)
  then show ?case using weeks_left_less [of week "active @ holiday" "week - 7"] by simp
next
  case (4 active holiday week current streak)
  then show ?case using weeks_left_mono [of "week - 7" week "active @ holiday"] by simp
qed

declare streak_loop.simps [simp del]

definition compute_streak_weeks :: "date list \<Rightarrow> date list \<Rightarrow> instant \<Rightarrow> int" where
  "compute_streak_weeks active holiday now = streak_loop active holiday (monday_of now) True 0"

text \<open>
  What the loop computes: with \<open>k\<close> the number of weeks it passes, the active weeks among them
  that are not holidays.
\<close>

definition counted_weeks :: "date list \<Rightarrow> date list \<Rightarrow> date \<Rightarrow> nat \<Rightarrow> int" where
  "counted_weeks active holiday week k = int (length (filter
     (\<lambda>i. week - 7 * int i \<in> set active \<and> week - 7 * int i \<notin> set holiday) [0..<k]))"

definition passed_week :: "date list \<Rightarrow> date list \<Rightarrow> date \<Rightarrow> bool" where
  "passed_week active holiday w \<longleftrightarrow> w \<in> set active \<or> w \<in> set holiday"

lemma counted_weeks_Suc:
  "counted_weeks active holiday week (Suc k) =
     (if week \<in> set active \<and> week \<notin> set holiday then 1 else 0)
     + counted_weeks active holiday (week - 7) k"
proof -
  have "[0..<Suc k] = 0 # map Suc [0..<k]" by (simp add: upt_conv_Cons map_Suc_upt del: upt_Suc)
  then show ?thesis
    by (simp add: counted_weeks_def filter_map o_def algebra_simps del: upt_Suc)
qed

lemma streak_loop_spec:
  "\<exists>k. streak_loop active holiday week current streak
        = streak + counted_weeks active holiday week k
     \<and> (current \<longrightarrow> 0 < k)
     \<and> \<not> passed_week active holiday (week - 7 * int k)
     \<and> (\<forall>i < k. passed_week active holiday (week - 7 * int i) \<or> i = 0 \<and> current)"
proof (induction active holiday week current streak rule: streak_loop.induct)
  case (1 active holiday week current streak)
  have step: "\<exists>k. streak_loop active holiday week current streak
        = streak + counted_weeks active holiday week k
     \<and> (current \<longrightarrow> 0 < k)
     \<and> \<not> passed_week active holiday (week - 7 * int k)
     \<and> (\<forall>i < k. passed_week active holiday (week - 7 * int i) \<or> i = 0 \<and> current)"
    if ih: "\<exists>k. streak_loop active holiday (week - 7) False s'
        = s' + counted_weeks active holiday (week - 7) k
     \<and> (False \<longrightarrow> 0 < k)
     \<and> \<not> passed_week active holiday (week - 7 - 7 * int k)
     \<and> (\<forall>i < k. passed_week active holiday (week - 7 - 7 * int i) \<or> i = 0 \<and> False)"
    and eq: "streak_loop active holiday week current streak = streak_loop active holiday (week - 7) False s'"
    and s': "s' = streak + (if week \<in> set active \<and> week \<notin> set holiday then 1 else 0)"
    and pw: "passed_week active holiday week \<or> current" for s'
  proof -
    from ih obtain k where k: "streak_loop active holiday (week - 7) False s'
        = s' + counted_weeks active holiday (week - 7) k"
      "\<not> passed_week active holiday (week - 7 - 7 * int k)"
      "\<forall>i < k. passed_week active holiday (week - 7 - 7 * int i)" by auto
    have "\<forall>i < Suc k. passed_week active holiday (week - 7 * int i) \<or> i = 0 \<and> current"
      using k(3) pw by (auto simp: less_Suc_eq_0_disj algebra_simps)
    with k eq s' show ?thesis
      by (intro exI [of _ "Suc k"]) (simp add: counted_weeks_Suc algebra_simps)
  qed
  consider (hol) "week \<in> set holiday" | (act) "week \<notin> set holiday" "week \<in> set active"
    | (cur) "week \<notin> set holiday" "week \<notin> set active" current
    | (stop) "week \<notin> set holiday" "week \<notin> set active" "\<not> current" by blast
  then show ?case
  proof cases
    case hol
    show ?thesis
      by (rule step [OF "1.IH"(1) [OF hol]])
        (simp_all add: hol streak_loop.simps [of active holiday week] passed_week_def)
  next
    case act
    show ?thesis
      by (rule step [OF "1.IH"(2) [OF act]])
        (simp_all add: act streak_loop.simps [of active holiday week] passed_week_def)
  next
    case cur
    show ?thesis
      by (rule step [OF "1.IH"(3) [OF cur]])
        (simp_all add: cur streak_loop.simps [of active holiday week])
  next
    case stop
    then show ?thesis
      by (intro exI [of _ 0])
        (simp add: streak_loop.simps [of active holiday week] counted_weeks_def passed_week_def)
  qed
qed

section \<open>Bounds of coalescing\<close>

lemma window_step_total:
  "window_total (window_step e st) \<le> window_total st + max 0 (ev_xp e)
   \<or> (\<exists>t m tot. st = Some (t, m, tot) \<and> m < 0)"
  by (cases st) (auto simp: window_step_def window_total_def max_def)

definition window_ok :: "(instant \<times> int \<times> int) option \<Rightarrow> bool" where
  "window_ok st \<longleftrightarrow> (case st of None \<Rightarrow> True | Some (t, m, tot) \<Rightarrow> 0 \<le> m \<and> 0 \<le> tot)"

lemma window_ok_step: "window_ok st \<Longrightarrow> window_ok (window_step e st)"
  by (cases st) (auto simp: window_ok_def window_step_def)

lemma window_fold_bound:
  "window_ok st \<Longrightarrow> window_ok (fold window_step g st)
     \<and> window_total (fold window_step g st) \<le> window_total st + sum_list (map (\<lambda>e. max 0 (ev_xp e)) g)"
proof (induction g arbitrary: st)
  case Nil
  then show ?case by simp
next
  case (Cons e g)
  have "window_total (window_step e st) \<le> window_total st + max 0 (ev_xp e)"
    using window_step_total [of e st] Cons.prems by (auto simp: window_ok_def)
  with Cons.IH [OF window_ok_step [OF Cons.prems], of e] show ?case by simp
qed

lemma group_xp_bound:
  "0 \<le> group_xp g \<and> group_xp g \<le> sum_list (map (\<lambda>e. max 0 (ev_xp e)) g)"
proof -
  have "window_ok None" by (simp add: window_ok_def)
  from window_fold_bound [OF this, of g] show ?thesis
    by (auto simp: group_xp_fold window_ok_def window_total_def split: option.splits)
qed

lemma sum_list_groups:
  assumes "finite K" and "key ` set es \<subseteq> K"
  shows "(\<Sum>k \<in> K. sum_list (map f (filter (\<lambda>e. key e = k) es))) = (sum_list (map f es) :: int)"
  using assms(2)
proof (induction es)
  case Nil
  then show ?case by simp
next
  case (Cons e es)
  have "(\<Sum>k \<in> K. sum_list (map f (filter (\<lambda>e. key e = k) (e # es))))
      = (\<Sum>k \<in> K. (if key e = k then f e else 0) + sum_list (map f (filter (\<lambda>e. key e = k) es)))"
    by (rule sum.cong) auto
  also have "\<dots> = f e + sum_list (map f es)"
    using Cons assms(1) by (simp add: sum.distrib)
  finally show ?case by simp
qed

section \<open>Properties\<close>

text \<open>
  The score of a set of events does not depend on the order in which they are read, nor on
  how the sort orders events with one timestamp; it is never negative and never more than what
  the events would earn one by one.
\<close>

theorem coalesce_order_free:
  assumes "mset es = mset es'"
  shows "coalesce es = coalesce es'
       \<and> 0 \<le> coalesce es \<and> coalesce es \<le> sum_list (map (\<lambda>e. max 0 (ev_xp e)) es)"
proof -
  let ?f = "\<lambda>es k. sort_key ev_at (filter (\<lambda>e. event_key e = k) es)"
  have keys: "event_key ` set es = event_key ` set es'"
    using assms by (metis set_mset_mset)
  have "group_xp (?f es k) = group_xp (?f es' k)" for k
    by (rule group_xp_perm) (simp_all add: assms)
  then have eq: "coalesce es = coalesce es'" by (simp add: coalesce_sum keys)
  have "coalesce es \<le> (\<Sum>k \<in> event_key ` set es.
      sum_list (map (\<lambda>e. max 0 (ev_xp e)) (filter (\<lambda>e. event_key e = k) es)))"
    unfolding coalesce_sum
  proof (rule sum_mono)
    fix k
    have "mset (map (\<lambda>e. max 0 (ev_xp e)) (?f es k))
        = mset (map (\<lambda>e. max 0 (ev_xp e)) (filter (\<lambda>e. event_key e = k) es))" by simp
    then have "sum_list (map (\<lambda>e. max 0 (ev_xp e)) (?f es k))
        = sum_list (map (\<lambda>e. max 0 (ev_xp e)) (filter (\<lambda>e. event_key e = k) es))"
      by (metis sum_mset_sum_list)
    then show "group_xp (?f es k)
        \<le> sum_list (map (\<lambda>e. max 0 (ev_xp e)) (filter (\<lambda>e. event_key e = k) es))"
      using group_xp_bound [of "?f es k"] by simp
  qed
  also have "\<dots> = sum_list (map (\<lambda>e. max 0 (ev_xp e)) es)"
    by (rule sum_list_groups) auto
  finally show ?thesis
    using eq by (simp add: coalesce_sum sum_nonneg group_xp_bound)
qed

text \<open>
  The level curve and its thresholds agree: a user has reached level \<open>l\<close> exactly when the XP
  is at least the threshold of \<open>l\<close> (everybody has level 1, also with a negative balance).
\<close>

theorem level_threshold:
  assumes "1 \<le> l"
  shows "l \<le> level_of xp \<longleftrightarrow> l = 1 \<or> xp_threshold_for_level l \<le> xp"
  by (rule level_ge_iff [OF assms])

text \<open>
  The two-pointer scan of the holiday budget computes the fullest rolling window: the maximum,
  over all marked weeks, of the number of marked weeks in the 52 weeks that begin there.
\<close>

theorem max_weeks_correct:
  "max_weeks_in_window weeks =
     (if weeks = [] then 0 else Max (weeks_in_window_from weeks ` set weeks))"
proof (cases "weeks = []")
  case True
  then show ?thesis by (simp add: max_weeks_in_window_def)
next
  case False
  define s where "s = sort weeks"
  obtain left m where m: "fold (max_weeks_step s) [0..<length s] (0, 0) = (left, m)"
    by fastforce
  have sorted: "sorted s" by (simp add: s_def)
  note inv = max_weeks_fold [OF sorted order_refl m]
  have perm: "weeks_in_window_from s w = weeks_in_window_from weeks w" for w
    by (rule weeks_in_window_from_perm) (simp add: s_def)
  have ss: "set s = set weeks" by (simp add: s_def)
  have w: "0 < 7 * holiday_window_weeks" by (simp add: holiday_window_weeks_def)
  have "s \<noteq> []" using False ss by auto
  then have pos: "1 \<le> m"
    using inv w by (metis add_0 diff_self_eq_0 less_add_same_cancel1 length_greater_0_conv order_refl)
  obtain l r where lr: "l \<le> r" "r < length s" "s ! r < s ! l + 7 * holiday_window_weeks" "m = r - l + 1"
    using inv pos by auto
  have sl: "s ! l \<in> set weeks" using lr ss by (metis le_less_trans nth_mem)
  have up: "weeks_in_window_from weeks v \<le> m" for v
  proof (cases "weeks_in_window_from s v = 0")
    case True
    then show ?thesis by (simp add: perm)
  next
    case False
    then obtain l r where "l \<le> r" "r < length s" "s ! r < s ! l + 7 * holiday_window_weeks"
      "weeks_in_window_from s v \<le> r - l + 1"
      using window_le_interval [of s v] by auto
    moreover from this inv have "r - l + 1 \<le> m" by blast
    ultimately show ?thesis by (simp add: perm)
  qed
  have "m \<le> weeks_in_window_from weeks (s ! l)"
    using interval_le_window [OF sorted lr(1-3)] lr(4) perm by simp
  with up [of "s ! l"] have "m = weeks_in_window_from weeks (s ! l)" by simp
  then have "Max (weeks_in_window_from weeks ` set weeks) = m"
    using sl up by (intro Max_eqI) auto
  with m False show ?thesis by (simp add: max_weeks_in_window_def s_def [symmetric] Let_def)
qed

text \<open>
  Quest selection: the chosen quests are fired candidates, at most three and as many as
  possible, in order of falling need; no fired candidate left out needs more than a chosen one,
  and with equal need the earlier candidate in the list comes first.
\<close>

theorem select_quests_best:
  "let fired = filter ca_fires cs; chosen = select_quests cs in
   length chosen = min 3 (length fired)
   \<and> mset chosen \<subseteq># mset fired
   \<and> sorted (map (\<lambda>c. - ca_need c) chosen)
   \<and> (\<forall>c \<in># mset fired - mset chosen. \<forall>d \<in> set chosen. ca_need c \<le> ca_need d)
   \<and> (\<forall>n. \<exists>k. filter (\<lambda>c. ca_need c = n) chosen = take k (filter (\<lambda>c. ca_need c = n) fired))"
proof -
  let ?fired = "filter ca_fires cs"
  let ?s = "sort_key (\<lambda>c. - ca_need c) ?fired"
  have ch: "select_quests cs = take 3 ?s" by (rule select_quests_take)
  have split: "mset ?fired = mset (take 3 ?s) + mset (drop 3 ?s)"
    by (metis append_take_drop_id mset_append mset_sort)
  have sub: "mset (take 3 ?s) \<subseteq># mset ?fired"
    unfolding split by simp
  have rest: "mset ?fired - mset (take 3 ?s) = mset (drop 3 ?s)"
    unfolding split by simp
  have so: "sorted (map (\<lambda>c. - ca_need c) ?s)" by simp
  have le: "ca_need c \<le> ca_need d" if "c \<in> set (drop 3 ?s)" "d \<in> set (take 3 ?s)" for c d
    using sorted_take_drop [OF so, of "- ca_need d" 3 "- ca_need c"] that
    by (simp add: take_map drop_map)
  have srt: "sorted (map (\<lambda>c. - ca_need c) (take 3 ?s))"
    using so by (metis sorted_wrt_take take_map)
  have stable: "filter (\<lambda>c. ca_need c = n) ?s = filter (\<lambda>c. ca_need c = n) ?fired" for n
    using filter_sort [of "\<lambda>c. ca_need c = n"] sort_key_stable [of "\<lambda>c. - ca_need c" "- n" ?fired] by simp
  have pre: "\<exists>k. filter P (take j xs) = take k (filter P xs)" for P j and xs :: "'a candidate list"
    by (metis append_eq_conv_conj append_take_drop_id filter_append)
  have cut: "\<forall>n. \<exists>k. filter (\<lambda>c. ca_need c = n) (take 3 ?s)
      = take k (filter (\<lambda>c. ca_need c = n) ?fired)"
    using pre [of _ 3 ?s] stable by metis
  have len: "length (take 3 ?s) = min 3 (length ?fired)" by (simp add: min.commute)
  have out: "\<forall>c \<in># mset (drop 3 ?s). \<forall>d \<in> set (take 3 ?s). ca_need c \<le> ca_need d"
    using le by simp
  show ?thesis
    unfolding Let_def ch rest
    using len sub srt out cut by blast
qed

definition demo_candidates :: "unit candidate list" where
  "demo_candidates = map (\<lambda>(n, f). \<lparr>ca_generator = StaleLocation, ca_fires = f, ca_need = n,
     ca_target = 1, ca_params = ()\<rparr>) [(2, True), (9, False), (5, True), (1, True), (7, True)]"

theorem select_quests_best_witness:
  "map ca_need (select_quests demo_candidates) = [7, 5, 2]
   \<and> length (select_quests demo_candidates) = min 3 (length (filter ca_fires demo_candidates))
   \<and> sorted (map (\<lambda>c. - ca_need c) (select_quests demo_candidates))"
proof
  show "map ca_need (select_quests demo_candidates) = [7, 5, 2]"
    by (simp add: select_quests_def demo_candidates_def)
  show "length (select_quests demo_candidates) = min 3 (length (filter ca_fires demo_candidates))
      \<and> sorted (map (\<lambda>c. - ca_need c) (select_quests demo_candidates))"
    using select_quests_best [of demo_candidates] unfolding Let_def by blast
qed


section \<open>Witnesses\<close>

theorem coalesce_order_free_witness:
  "coalesce [\<lparr>ev_ref = 1, ev_kind = ''ai_correction'', ev_at = 5, ev_xp = 5\<rparr>,
             \<lparr>ev_ref = 1, ev_kind = ''vision_ingestion'', ev_at = 0, ev_xp = 3\<rparr>] = 5"
proof -
  let ?a = "\<lparr>ev_ref = 1, ev_kind = ''vision_ingestion'', ev_at = 0, ev_xp = 3\<rparr>"
  let ?b = "\<lparr>ev_ref = 1, ev_kind = ''ai_correction'', ev_at = 5, ev_xp = 5\<rparr>"
  have "coalesce [?a, ?b] = 5"
    by (simp add: coalesce_def event_key_def coalesce_group_def group_xp_def score_window_def max_xp_def)
  then show ?thesis
    using coalesce_order_free [of "[?a, ?b]" "[?b, ?a]"] by simp
qed

theorem level_threshold_witness: "3 \<le> level_of 200 \<and> \<not> 4 \<le> level_of 449"
  using level_threshold [of 3 200] level_threshold [of 4 449]
  by (simp add: xp_threshold_for_level_def Let_def)


end
