(* ===== verification/Db.thy ===== *)
theory Db
  imports Gamification
begin

text \<open>
  The database as the store sees it: one record field per table of \<open>migrations/\<close> that the
  modelled operations touch, rows as records with the columns of the table, the constraints the
  schema declares as checks in the write primitives (a primary key that is taken, a foreign key
  without its row or a value outside a 32-bit column is \<open>ErrInternal\<close>), the identifier supply
  \<open>uuid.NewV7\<close> draws from, and the two clocks: \<open>db_now\<close> is \<open>now()\<close> of the transaction,
  \<open>app_now\<close> is \<open>time.Now()\<close> of the process. Row locks and the advisory tree lock make the
  transactions of the modelled operations serial, so an operation is a function of one state.
\<close>

section \<open>Rows\<close>

record location =
  lo_storage :: uuid
  lo_parent :: "uuid option"
  lo_name :: string
  lo_description :: "string option"
  lo_created :: instant
  lo_updated :: instant
  lo_audited :: "instant option"

record category =
  cg_storage :: uuid
  cg_parent :: "uuid option"
  cg_name :: string
  cg_days :: "int option"
  cg_created :: instant
  cg_updated :: instant

record catalog_entry =
  ct_normalized :: string
  ct_display :: string
  ct_base :: "uuid option"
  ct_category_path :: "string option"
  ct_item_type :: item_type
  ct_image :: "string option"
  ct_icon :: "string option"
  ct_days :: "int option"
  ct_created :: instant

record product =
  pr_storage :: uuid
  pr_name :: string
  pr_category :: "uuid option"
  pr_catalog :: "uuid option"
  pr_item_type :: item_type
  pr_days :: "int option"
  pr_min_stock :: int
  pr_image :: "string option"
  pr_icon :: "string option"
  pr_created :: instant
  pr_updated :: instant

datatype expiration_source = ExpirationDerived | ExpirationUser

record batch =
  ba_product :: uuid
  ba_location :: uuid
  ba_quantity :: int
  ba_expiration :: "date option"
  ba_source :: expiration_source
  ba_created :: instant
  ba_container :: "uuid option"

datatype log_reason = ReasonPurchase | ReasonConsumption | ReasonAudit | ReasonVisionIngestion | ReasonMove

definition reason_name :: "log_reason \<Rightarrow> string" where
  "reason_name r = (case r of
      ReasonPurchase \<Rightarrow> ''purchase'' | ReasonConsumption \<Rightarrow> ''consumption''
    | ReasonAudit \<Rightarrow> ''audit'' | ReasonVisionIngestion \<Rightarrow> ''vision_ingestion''
    | ReasonMove \<Rightarrow> ''move'')"

record log_row =
  lg_product :: uuid
  lg_batch :: "uuid option"
  lg_change :: int
  lg_reason :: log_reason
  lg_by :: "uuid option"
  lg_at :: instant

record container =
  cn_storage :: uuid
  cn_label :: string
  cn_type :: "string option"
  cn_created :: instant
  cn_destroyed :: "instant option"

datatype entity_type =
  TombstoneProduct | TombstoneCategory | TombstoneLocation | TombstoneShoppingList
  | TombstoneShoppingListItem

record tombstone =
  ts_storage :: uuid
  ts_kind :: entity_type
  ts_entity :: uuid
  ts_deleted :: instant

datatype job_kind = JobShelfIngestion | JobProductPhoto | JobShoppingListPhoto | JobConsumptionPhoto

datatype job_status = JobPending | JobDone | JobFailed | JobConsumed

text \<open>
  A job payload is JSON. What the confirms read of it are the rows: the id of each and, when the model
  was sure, the one product it proposed; a payload that is absent or does not decode is \<open>None\<close>.
\<close>

record proposal_row =
  pw_row :: string
  pw_exact :: "uuid option"

record job =
  jb_storage :: uuid
  jb_kind :: job_kind
  jb_status :: job_status
  jb_payload :: "proposal_row list option"
  jb_error :: "string option"
  jb_created_by :: "uuid option"
  jb_image :: "string option"
  jb_hint :: "uuid option"
  jb_created :: instant
  jb_updated :: instant
  jb_owner :: "uuid option"
  jb_expires :: "instant option"

text \<open>A job lease: no owner is the nil id of the code, which leases nothing.\<close>

record job_lease =
  le_owner :: "uuid option"
  le_ttl :: int

text \<open>Barcodes of a storage's products, keyed by storage and code.\<close>

record product_barcode =
  bc_product :: uuid
  bc_created :: instant

text \<open>Anonymous barcode hints and the popularity counter of each.\<close>

record catalog_barcode =
  cb_catalog :: uuid
  cb_scans :: int
  cb_created :: instant

text \<open>Accounts; the last two columns steer the capture-time barcode offer.\<close>

record account =
  ac_username :: string
  ac_hash :: string
  ac_display :: string
  ac_admin :: bool
  ac_created :: instant
  bq_enabled :: bool
  bq_seen :: "instant option"

record storage_row =
  sr_name :: string
  sr_created :: instant

text \<open>A membership is keyed by storage and user; the start page is one of the values the column admits.\<close>

record membership =
  mb_added :: instant
  mb_start :: string

datatype session_kind = SessionBrowser | SessionDevice

record session =
  se_user :: uuid
  se_kind :: session_kind
  se_label :: "string option"
  se_seen :: "instant option"
  se_created :: instant
  se_expires :: instant

record pairing_code =
  pc_user :: uuid
  pc_created :: instant
  pc_expires :: instant
  pc_used :: "instant option"

text \<open>The recorded reply to a write that carried an idempotency key.\<close>

record idempotency_record =
  ik_storage :: "uuid option"
  ik_hash :: string
  ik_status :: int
  ik_body :: string
  ik_created :: instant

record setting =
  sv_value :: string
  sv_by :: "uuid option"
  sv_updated :: instant

text \<open>The digest settings of a storage, keyed by the storage; no token is the empty column.\<close>

datatype notice_kind = NotificationNtfy | NotificationGotify | NotificationWebhook

record notice =
  nt_enabled :: bool
  nt_kind :: notice_kind
  nt_url :: string
  nt_token :: "string option"
  nt_hour :: int
  nt_soon :: bool
  nt_last_run :: "instant option"
  nt_last_result :: "string option"
  nt_updated :: instant

text \<open>The tables of the sign-in and of the client contract.\<close>

record access_tables =
  at_sessions :: "(string \<times> session) list"
  at_pairing :: "(string \<times> pairing_code) list"
  at_replies :: "((string \<times> uuid) \<times> idempotency_record) list"
  at_settings :: "(string \<times> setting) list"

datatype list_source = SourceText | SourcePhoto

record shopping_list =
  sl_storage :: uuid
  sl_source :: list_source
  sl_by :: "uuid option"
  sl_created :: instant

datatype item_status = ItemExactMatch | ItemNew | ItemAmbiguous | ItemResolved

record shopping_item =
  si_list :: uuid
  si_text :: string
  si_status :: item_status
  si_matched :: "uuid option"
  si_quantity :: "int option"
  si_created :: instant

datatype admin_action =
  ActionUserCreated | ActionUserDeleted | ActionUserPasswordReset | ActionStorageCreated
  | ActionStorageDeleted | ActionStorageMemberAdded | ActionStorageMemberRemoved
  | ActionSettingsUpdated | ActionCatalogEntryUpdated | ActionCatalogEntryDeleted
  | ActionCatalogBarcodeDeleted

text \<open>
  \<open>AuditDetails\<close>: what changed, an absent field being the empty string or \<open>None\<close>. The target of an
  entry is an id or, for a barcode or a setting, its text.
\<close>

datatype audit_target = TargetId uuid | TargetText string

record audit_details =
  ad_username :: string
  ad_display :: string
  ad_admin :: "bool option"
  ad_storage_name :: string
  ad_storage :: "uuid option"
  ad_user :: "uuid option"
  ad_key :: string
  ad_value :: string
  ad_days :: "int option"
  ad_recomputed :: "int option"

definition no_details :: audit_details where
  "no_details = \<lparr>ad_username = [], ad_display = [], ad_admin = None, ad_storage_name = [], ad_storage = None,
     ad_user = None, ad_key = [], ad_value = [], ad_days = None, ad_recomputed = None\<rparr>"

text \<open>One row of the admin trail: no actor is the system.\<close>

record audit_row =
  au_actor :: "uuid option"
  au_action :: admin_action
  au_target :: "audit_target option"
  au_details :: audit_details
  au_at :: instant

section \<open>Gamification tables\<close>

record progress =
  pg_xp :: int
  pg_level :: int
  pg_streak :: int
  pg_week :: "date option"
  pg_recomputed :: instant

record contribution =
  ce_storage :: uuid
  ce_user :: uuid
  ce_kind :: contribution_kind
  ce_ref :: "uuid option"
  ce_at :: instant

text \<open>The JSON of \<open>quests.params\<close>: the shapes the generators write, or text that does not decode.\<close>

datatype quest_params =
  ParamsIds "uuid list" | ParamsStale uuid | ParamsFirstMile int | ParamsMalformed

record quest =
  qu_storage :: uuid
  qu_week :: date
  qu_generator :: generator_kind
  qu_params :: quest_params
  qu_target :: int
  qu_xp :: int
  qu_completed :: "instant option"

record gamification_tables =
  gt_progress :: "((uuid \<times> uuid) \<times> progress) list"
  gt_contributions :: "contribution table"
  gt_quests :: "quest table"
  gt_contributors :: "(uuid \<times> uuid) list"
  gt_unlocked :: "(uuid \<times> uuid \<times> (achievement + milestone_key)) list"
  gt_holidays :: "(uuid \<times> date) list"

section \<open>The state\<close>

record db =
  idgen :: "uuid list"
  db_now :: instant
  app_now :: instant
  accounts :: "account table"
  storage_rows :: "storage_row table"
  memberships :: "((uuid \<times> uuid) \<times> membership) list"
  locations :: "location table"
  categories :: "category table"
  catalog :: "catalog_entry table"
  products :: "product table"
  batches :: "batch table"
  logs :: "log_row table"
  containers :: "container table"
  tombstones :: "tombstone table"
  jobs :: "job table"
  product_barcodes :: "((uuid \<times> string) \<times> product_barcode) list"
  catalog_barcodes :: "(string \<times> catalog_barcode) list"
  shopping_lists :: "shopping_list table"
  shopping_items :: "shopping_item table"
  audits :: "audit_row table"
  notices :: "(uuid \<times> notice) list"
  access :: access_tables
  gam :: gamification_tables

text \<open>Rows for the examples of the development.\<close>

definition some_account :: account where
  "some_account = \<lparr>ac_username = ''ada'', ac_hash = ''hash'', ac_display = ''Ada'', ac_admin = False, ac_created = 0,
     bq_enabled = True, bq_seen = None\<rparr>"

definition some_storage :: storage_row where
  "some_storage = \<lparr>sr_name = ''Home'', sr_created = 0\<rparr>"

type_synonym 'a dbtx = "(db, 'a) tx"

definition empty_gam :: gamification_tables where
  "empty_gam = \<lparr>gt_progress = [], gt_contributions = [], gt_quests = [],
     gt_contributors = [], gt_unlocked = [], gt_holidays = []\<rparr>"

definition empty_db :: db where
  "empty_db = \<lparr>idgen = [], db_now = 0, app_now = 0, accounts = [], storage_rows = [], memberships = [], locations = [],
     categories = [], catalog = [], products = [], batches = [], logs = [], containers = [],
     tombstones = [], jobs = [], product_barcodes = [], catalog_barcodes = [], shopping_lists = [],
     shopping_items = [], audits = [], notices = [],
     access = \<lparr>at_sessions = [], at_pairing = [], at_replies = [], at_settings = []\<rparr>, gam = empty_gam\<rparr>"

text \<open>What is left of a state without the identifier supply and the gamification tables.\<close>

definition core :: "db \<Rightarrow> db" where
  "core s = s\<lparr>idgen := [], gam := empty_gam\<rparr>"

lemma core_fields [simp]:
  "locations (core s) = locations s" "categories (core s) = categories s"
  "catalog (core s) = catalog s" "products (core s) = products s" "batches (core s) = batches s"
  "logs (core s) = logs s" "containers (core s) = containers s" "tombstones (core s) = tombstones s"
  "jobs (core s) = jobs s" "product_barcodes (core s) = product_barcodes s"
  "catalog_barcodes (core s) = catalog_barcodes s" "memberships (core s) = memberships s"
  "access (core s) = access s"
  "shopping_lists (core s) = shopping_lists s"
  "shopping_items (core s) = shopping_items s" "audits (core s) = audits s" "accounts (core s) = accounts s"
  "storage_rows (core s) = storage_rows s" "notices (core s) = notices s"
  "db_now (core s) = db_now s" "app_now (core s) = app_now s"
  by (simp_all add: core_def)

lemma core_gam_update [simp]:
  "core (s\<lparr>gam := g\<rparr>) = core s" "core (s\<lparr>idgen := is\<rparr>) = core s"
  "core (gam_update f s) = core s"
  by (simp_all add: core_def)

text \<open>A computation that leaves the core alone; \<open>silent_keeps\<close> turns it into preservation.\<close>

definition silent :: "'a dbtx \<Rightarrow> bool" where
  "silent m \<longleftrightarrow> (\<forall>c. keeps (\<lambda>s. core s = c) m)"

lemma silentD: "silent m \<Longrightarrow> m s = Inr (a, s') \<Longrightarrow> core s' = core s"
  by (auto simp: silent_def keeps_def)

lemma silentI: "(\<And>s a s'. m s = Inr (a, s') \<Longrightarrow> core s' = core s) \<Longrightarrow> silent m"
  by (auto simp: silent_def keeps_def)

lemma silent_keeps: "silent m \<Longrightarrow> (\<And>s. P s \<longleftrightarrow> P (core s)) \<Longrightarrow> keeps P m"
  unfolding keeps_def by (metis silentD)

named_theorems silent_intros

lemma silent_ret [silent_intros]: "silent (ret_tx a)"
  and silent_fail [silent_intros]: "silent (fail_tx e)"
  and silent_guard [silent_intros]: "silent (guard_tx b e)"
  and silent_check [silent_intros]: "silent (check_tx Q e)"
  and silent_get [silent_intros]: "silent (get_tx f)"
  and silent_row [silent_intros]: "silent (row_tx e r)"
  by (simp_all add: silent_def keeps_intros)

lemma silent_bind [silent_intros]: "silent m \<Longrightarrow> (\<And>a. silent (f a)) \<Longrightarrow> silent (bind_tx m f)"
  by (simp add: silent_def keeps_bind)

lemma silent_seq [silent_intros]: "silent m \<Longrightarrow> silent k \<Longrightarrow> silent (seq_tx m k)"
  by (simp add: silent_def keeps_seq)

lemma silent_when [silent_intros]: "(b \<Longrightarrow> silent m) \<Longrightarrow> silent (when_tx b m)"
  by (simp add: silent_def keeps_when)

lemma silent_if [silent_intros]: "(b \<Longrightarrow> silent m) \<Longrightarrow> (\<not> b \<Longrightarrow> silent k) \<Longrightarrow> silent (if b then m else k)"
  by simp

lemma silent_option [silent_intros]:
  "(x = None \<Longrightarrow> silent m) \<Longrightarrow> (\<And>a. x = Some a \<Longrightarrow> silent (f a)) \<Longrightarrow>
   silent (case x of None \<Rightarrow> m | Some a \<Rightarrow> f a)"
  by (cases x) auto

lemma silent_iter [silent_intros]: "(\<And>x. x \<in> set xs \<Longrightarrow> silent (f x)) \<Longrightarrow> silent (iter_tx f xs)"
  by (simp add: silent_def keeps_iter)

lemma silent_gam [silent_intros]: "silent (mod_tx (gam_update f))"
  by (rule silentI) (auto simp: mod_tx_iff)

section \<open>Identifiers\<close>

definition new_id :: "uuid dbtx" where
  "new_id s = (case idgen s of [] \<Rightarrow> Inl ErrInternal | i # is \<Rightarrow> Inr (i, s\<lparr>idgen := is\<rparr>))"

lemma new_id_iff [tx_iff]:
  "new_id s = Inr r \<longleftrightarrow> (\<exists>i is. idgen s = i # is \<and> r = (i, s\<lparr>idgen := is\<rparr>))"
  by (auto simp: new_id_def split: list.splits)

lemma silent_new_id [silent_intros]: "silent new_id"
  by (rule silentI) (auto simp: new_id_iff)

section \<open>Write primitives\<close>

definition user_exists :: "uuid option \<Rightarrow> db \<Rightarrow> bool" where
  "user_exists u s \<longleftrightarrow> pred_option (\<lambda>i. tbl_has i (accounts s)) u"

text \<open>INSERT INTO inventory_batches with its constraints.\<close>

definition insert_batch :: "uuid \<Rightarrow> batch \<Rightarrow> unit dbtx" where
  "insert_batch i b =
     seq_tx (check_tx (\<lambda>s. \<not> tbl_has i (batches s) \<and> tbl_has (ba_product b) (products s)
         \<and> tbl_has (ba_location b) (locations s) \<and> int4 (ba_quantity b) \<and> 0 \<le> ba_quantity b
         \<and> pred_option (\<lambda>c. tbl_has c (containers s)) (ba_container b)) ErrInternal)
       (mod_tx (\<lambda>s. s\<lparr>batches := tbl_ins i b (batches s)\<rparr>))"

definition update_batch :: "uuid \<Rightarrow> (batch \<Rightarrow> batch) \<Rightarrow> unit dbtx" where
  "update_batch i f = mod_tx (\<lambda>s. s\<lparr>batches := tbl_upd i f (batches s)\<rparr>)"

text \<open>A quantity is written through its column: 32 bits and the CHECK of the table.\<close>

definition update_quantity :: "uuid \<Rightarrow> int \<Rightarrow> unit dbtx" where
  "update_quantity i q =
     seq_tx (guard_tx (int4 q \<and> 0 \<le> q) ErrInternal) (update_batch i (\<lambda>b. b\<lparr>ba_quantity := q\<rparr>))"

text \<open>DELETE of one batch; \<open>inventory_logs.batch_id\<close> is ON DELETE SET NULL.\<close>

definition delete_batch :: "uuid \<Rightarrow> unit dbtx" where
  "delete_batch i = mod_tx (\<lambda>s. s\<lparr>batches := tbl_del (\<lambda>k _. k = i) (batches s),
     logs := tbl_map (\<lambda>_ l. lg_batch l = Some i) (\<lambda>l. l\<lparr>lg_batch := None\<rparr>) (logs s)\<rparr>)"

definition insert_log :: "uuid \<Rightarrow> log_row \<Rightarrow> unit dbtx" where
  "insert_log i l =
     seq_tx (check_tx (\<lambda>s. \<not> tbl_has i (logs s) \<and> tbl_has (lg_product l) (products s)
         \<and> pred_option (\<lambda>b. tbl_has b (batches s)) (lg_batch l)
         \<and> int4 (lg_change l) \<and> user_exists (lg_by l) s) ErrInternal)
       (mod_tx (\<lambda>s. s\<lparr>logs := tbl_ins i l (logs s)\<rparr>))"

text \<open>\<open>writeLog\<close> of \<open>batches.go\<close>.\<close>

definition write_log :: "uuid \<Rightarrow> uuid option \<Rightarrow> int \<Rightarrow> log_reason \<Rightarrow> uuid option \<Rightarrow> unit dbtx" where
  "write_log product batch change reason user =
     bind_tx new_id (\<lambda>i. bind_tx (get_tx db_now) (\<lambda>now.
       insert_log i \<lparr>lg_product = product, lg_batch = batch, lg_change = change,
         lg_reason = reason, lg_by = user, lg_at = now\<rparr>))"

text \<open>\<open>recordTombstones\<close> of \<open>tombstones.go\<close>.\<close>

definition record_tombstones :: "uuid \<Rightarrow> entity_type \<Rightarrow> uuid list \<Rightarrow> unit dbtx" where
  "record_tombstones storage kind entities = iter_tx (\<lambda>e.
     bind_tx new_id (\<lambda>i. bind_tx (get_tx db_now) (\<lambda>now.
       seq_tx (check_tx (\<lambda>s. \<not> tbl_has i (tombstones s) \<and> tbl_has storage (storage_rows s)) ErrInternal)
         (mod_tx (\<lambda>s. s\<lparr>tombstones := tbl_ins i \<lparr>ts_storage = storage, ts_kind = kind,
            ts_entity = e, ts_deleted = now\<rparr> (tombstones s)\<rparr>))))) entities"

text \<open>\<open>SweepTombstones\<close>: deletions older than the retention go, and their number is returned.\<close>

definition tombstone_retention :: int where "tombstone_retention = 30 * ns_per_day"

definition sweep_tombstones :: "instant \<Rightarrow> nat dbtx" where
  "sweep_tombstones now =
     bind_tx (get_tx (\<lambda>s. length (tbl_select (\<lambda>_ t. ts_deleted t < now - tombstone_retention) (tombstones s)))) (\<lambda>n.
       seq_tx (mod_tx (\<lambda>s. s\<lparr>tombstones :=
           tbl_del (\<lambda>_ t. ts_deleted t < now - tombstone_retention) (tombstones s)\<rparr>))
         (ret_tx n))"

lemma insert_batch_iff [tx_iff]:
  "insert_batch i b s = Inr r \<longleftrightarrow>
     \<not> tbl_has i (batches s) \<and> tbl_has (ba_product b) (products s)
     \<and> tbl_has (ba_location b) (locations s) \<and> int4 (ba_quantity b) \<and> 0 \<le> ba_quantity b
     \<and> pred_option (\<lambda>c. tbl_has c (containers s)) (ba_container b)
     \<and> r = ((), s\<lparr>batches := tbl_ins i b (batches s)\<rparr>)"
  by (auto simp: insert_batch_def tx_iff)

lemma update_batch_iff [tx_iff]:
  "update_batch i f s = Inr r \<longleftrightarrow> r = ((), s\<lparr>batches := tbl_upd i f (batches s)\<rparr>)"
  by (auto simp: update_batch_def tx_iff)

lemma update_quantity_iff [tx_iff]:
  "update_quantity i q s = Inr r \<longleftrightarrow> int4 q \<and> 0 \<le> q
     \<and> r = ((), s\<lparr>batches := tbl_upd i (\<lambda>b. b\<lparr>ba_quantity := q\<rparr>) (batches s)\<rparr>)"
  by (auto simp: update_quantity_def tx_iff)

lemma delete_batch_iff [tx_iff]:
  "delete_batch i s = Inr r \<longleftrightarrow> r = ((), s\<lparr>batches := tbl_del (\<lambda>k _. k = i) (batches s),
     logs := tbl_map (\<lambda>_ l. lg_batch l = Some i) (\<lambda>l. l\<lparr>lg_batch := None\<rparr>) (logs s)\<rparr>)"
  by (auto simp: delete_batch_def tx_iff)

lemma write_log_iff [tx_iff]:
  "write_log product b change reason user s = Inr r \<longleftrightarrow>
     (\<exists>i is. idgen s = i # is \<and> \<not> tbl_has i (logs s) \<and> tbl_has product (products s)
       \<and> pred_option (\<lambda>i. tbl_has i (batches s)) b
       \<and> int4 change \<and> user_exists user s
       \<and> r = ((), s\<lparr>idgen := is, logs := tbl_ins i \<lparr>lg_product = product, lg_batch = b,
           lg_change = change, lg_reason = reason, lg_by = user, lg_at = db_now s\<rparr> (logs s)\<rparr>))"
  by (auto simp: write_log_def insert_log_def tx_iff user_exists_def)

end
