(* ===== verification/Tree.thy ===== *)
theory Tree
  imports Db
begin

text \<open>
  \<open>internal/store/tree.go\<close>: the two self-referencing trees of a storage (locations and
  categories) and the checks every structural write shares. The recursive queries become walks
  over the parent function with the same bound of 64 levels. The locale \<open>parent_tree\<close> states what
  re-parenting does to the parent function and proves when it keeps the tree acyclic; it is
  interpreted for both tables.
\<close>

section \<open>Walks over a parent function\<close>

type_synonym tree_fun = "uuid \<Rightarrow> (uuid \<times> uuid option) option"

text \<open>The recursive query that climbs: at most \<open>n\<close> rows, beginning with the row of \<open>i\<close>.\<close>

fun ancestors :: "tree_fun \<Rightarrow> nat \<Rightarrow> uuid \<Rightarrow> uuid list" where
  "ancestors f 0 i = []"
| "ancestors f (Suc n) i = (case f i of
      None \<Rightarrow> []
    | Some (_, p) \<Rightarrow> i # (case p of None \<Rightarrow> [] | Some q \<Rightarrow> ancestors f n q))"

text \<open>The recursive query that descends, level by level.\<close>

fun descend :: "(uuid \<Rightarrow> uuid list) \<Rightarrow> nat \<Rightarrow> uuid list \<Rightarrow> uuid list" where
  "descend children 0 lv = []"
| "descend children (Suc n) lv = lv @ descend children n (concat (map children lv))"

fun level_at :: "(uuid \<Rightarrow> uuid list) \<Rightarrow> nat \<Rightarrow> uuid list \<Rightarrow> uuid list" where
  "level_at children 0 lv = lv"
| "level_at children (Suc n) lv = level_at children n (concat (map children lv))"

definition up_rel :: "tree_fun \<Rightarrow> (uuid \<times> uuid) set" where
  "up_rel f = {(c, p). \<exists>st. f c = Some (st, Some p)}"

text \<open>Every parent exists and belongs to the storage of its child; there is no ring.\<close>

definition tree_ok :: "tree_fun \<Rightarrow> bool" where
  "tree_ok f \<longleftrightarrow> acyclic (up_rel f)
     \<and> (\<forall>c st p. f c = Some (st, Some p) \<longrightarrow> (\<exists>q. f p = Some (st, q)))"

lemma up_rel_iff: "(c, p) \<in> up_rel f \<longleftrightarrow> (\<exists>st. f c = Some (st, Some p))"
  by (simp add: up_rel_def)

lemma up_rel_cong: "(\<And>i. f i = g i) \<Longrightarrow> up_rel f = up_rel g"
  by (simp add: up_rel_def)

lemma ancestors_sound: "j \<in> set (ancestors f n i) \<Longrightarrow> (i, j) \<in> (up_rel f)\<^sup>*"
proof (induction n arbitrary: i)
  case 0
  then show ?case by simp
next
  case (Suc n)
  then obtain st p where fi: "f i = Some (st, p)" by (cases "f i") auto
  show ?case
  proof (cases "j = i")
    case False
    with Suc.prems fi obtain q where p: "p = Some q" and j: "j \<in> set (ancestors f n q)"
      by (auto split: option.splits)
    have "(i, q) \<in> up_rel f" using fi p by (auto simp: up_rel_iff)
    from this Suc.IH [OF j] show ?thesis by (rule converse_rtrancl_into_rtrancl)
  qed simp
qed

text \<open>A walk that ends before its bound has seen every ancestor.\<close>

lemma ancestors_complete:
  "(i, j) \<in> (up_rel f)\<^sup>* \<Longrightarrow> f j \<noteq> None \<Longrightarrow> length (ancestors f (Suc n) i) \<le> n \<Longrightarrow>
   j \<in> set (ancestors f n i)"
proof (induction n arbitrary: i)
  case 0
  then have fi: "f i = None" by (auto split: option.splits)
  have "i = j"
    using 0(1) by (rule converse_rtranclE) (use fi in \<open>auto simp: up_rel_iff\<close>)
  with fi 0(2) show ?case by simp
next
  case (Suc n)
  show ?case
  proof (cases "i = j")
    case True
    with Suc.prems(2) show ?thesis by (auto split: option.splits)
  next
    case False
    then obtain q where q: "(i, q) \<in> up_rel f" "(q, j) \<in> (up_rel f)\<^sup>*"
      using Suc.prems(1) by (meson converse_rtranclE)
    then obtain st where fi: "f i = Some (st, Some q)" by (auto simp: up_rel_iff)
    have "length (ancestors f (Suc n) q) \<le> n"
      using Suc.prems(3) fi by (simp del: ancestors.simps(2) add: ancestors.simps(2) [of f "Suc n" i])
    from Suc.IH [OF q(2) Suc.prems(2) this] fi show ?thesis by simp
  qed
qed

section \<open>The checks of tree.go\<close>

datatype tree_table = TreeLocations | TreeCategories

definition tree_row :: "tree_table \<Rightarrow> db \<Rightarrow> tree_fun" where
  "tree_row t s i = (case t of
      TreeLocations \<Rightarrow> map_option (\<lambda>l. (lo_storage l, lo_parent l)) (map_of (locations s) i)
    | TreeCategories \<Rightarrow> map_option (\<lambda>c. (cg_storage c, cg_parent c)) (map_of (categories s) i))"

definition max_tree_depth :: nat where "max_tree_depth = 64"

definition in_storage :: "tree_table \<Rightarrow> uuid \<Rightarrow> uuid \<Rightarrow> db \<Rightarrow> bool" where
  "in_storage t storage i s \<longleftrightarrow> map_option fst (tree_row t s i) = Some storage"

definition require_same_storage :: "tree_table \<Rightarrow> uuid \<Rightarrow> uuid \<Rightarrow> unit dbtx" where
  "require_same_storage t storage i = check_tx (in_storage t storage i) ErrNotFound"

definition would_cycle :: "tree_table \<Rightarrow> uuid \<Rightarrow> uuid \<Rightarrow> bool dbtx" where
  "would_cycle t node parent =
     (if node = parent then ret_tx True
      else get_tx (\<lambda>s. node \<in> set (ancestors (tree_row t s) max_tree_depth parent)))"

definition resolve_parent :: "tree_table \<Rightarrow> uuid \<Rightarrow> uuid option \<Rightarrow> uuid option \<Rightarrow> unit dbtx" where
  "resolve_parent t storage node parent =
     (case parent of
        None \<Rightarrow> ret_tx ()
      | Some p \<Rightarrow>
          seq_tx (require_same_storage t storage p)
            (case node of
               None \<Rightarrow> ret_tx ()
             | Some n \<Rightarrow> bind_tx (would_cycle t n p) (\<lambda>cycles. guard_tx (\<not> cycles) ErrConflict)))"

lemma require_same_storage_iff [tx_iff]:
  "require_same_storage t storage i s = Inr r \<longleftrightarrow> in_storage t storage i s \<and> r = ((), s)"
  by (auto simp: require_same_storage_def tx_iff)

lemma would_cycle_iff [tx_iff]:
  "would_cycle t node parent s = Inr r \<longleftrightarrow>
     r = (node = parent \<or> node \<in> set (ancestors (tree_row t s) max_tree_depth parent), s)"
  by (auto simp: would_cycle_def tx_iff)

lemma resolve_parent_iff [tx_iff]:
  "resolve_parent t storage node parent s = Inr r \<longleftrightarrow>
     r = ((), s) \<and> (\<forall>p. parent = Some p \<longrightarrow> in_storage t storage p s
       \<and> (\<forall>n. node = Some n \<longrightarrow> n \<noteq> p \<and> n \<notin> set (ancestors (tree_row t s) max_tree_depth p)))"
  by (cases parent; cases node) (auto simp: resolve_parent_def tx_iff)

lemma tree_reads_silent [silent_intros]:
  "silent (require_same_storage t storage i)"
  "silent (would_cycle t node parent)"
  "silent (resolve_parent t storage n p)"
  by (auto intro!: silentI simp: tx_iff)

section \<open>Re-parenting\<close>

locale parent_tree =
  fixes row :: "'s \<Rightarrow> tree_fun"
    and set_parent :: "uuid \<Rightarrow> uuid option \<Rightarrow> 's \<Rightarrow> 's"
  assumes row_set_parent:
    "row (set_parent i p s) j = (if j = i then map_option (\<lambda>(st, _). (st, p)) (row s i) else row s j)"
begin

definition shallow :: "'s \<Rightarrow> uuid \<Rightarrow> bool" where
  "shallow s i \<longleftrightarrow> length (ancestors (row s) (Suc max_tree_depth) i) \<le> max_tree_depth"

lemma up_rel_set_parent:
  "up_rel (row (set_parent i p s)) \<subseteq>
     (case p of None \<Rightarrow> up_rel (row s) | Some q \<Rightarrow> insert (i, q) (up_rel (row s)))"
  by (auto simp: up_rel_def row_set_parent split: if_splits option.splits)

text \<open>The bounded check is enough when the new parent is at most 64 levels deep.\<close>

lemma reparent_ok:
  assumes ok: "tree_ok (row s)" and i: "row s i = Some (st, p0)"
    and p: "\<And>q. p = Some q \<Longrightarrow> (\<exists>r. row s q = Some (st, r)) \<and> q \<noteq> i
        \<and> i \<notin> set (ancestors (row s) max_tree_depth q) \<and> shallow s q"
  shows "tree_ok (row (set_parent i p s))"
proof -
  have acyc: "acyclic (up_rel (row s))" using ok by (simp add: tree_ok_def)
  have "acyclic (up_rel (row (set_parent i p s)))"
  proof (cases p)
    case None
    then show ?thesis using acyc up_rel_set_parent [of i p s] by (auto intro: acyclic_subset)
  next
    case (Some q)
    have "(q, i) \<notin> (up_rel (row s))\<^sup>*"
      using ancestors_complete [of q i "row s" max_tree_depth] p [OF Some] i
      by (auto simp: shallow_def)
    then have "acyclic (insert (i, q) (up_rel (row s)))"
      using acyc by (simp add: acyclic_insert)
    with Some show ?thesis using up_rel_set_parent [of i p s] by (auto intro: acyclic_subset)
  qed
  moreover have "\<exists>q'. row (set_parent i p s) q = Some (st', q')"
    if c: "row (set_parent i p s) c = Some (st', Some q)" for c st' q
  proof -
    have "\<exists>r. row s q = Some (st', r)"
    proof (cases "c = i")
      case True
      with c i have "st' = st" "p = Some q" by (auto simp: row_set_parent)
      with p show ?thesis by blast
    next
      case False
      with c ok show ?thesis by (simp add: row_set_parent tree_ok_def)
    qed
    then show ?thesis by (auto simp: row_set_parent)
  qed
  ultimately show ?thesis by (simp add: tree_ok_def)
qed

text \<open>Beyond the bound the check sees nothing: the ring is closed.\<close>

lemma reparent_ring:
  assumes "row s i = Some (st, p0)" and "(q, i) \<in> (up_rel (row s))\<^sup>*" and "q \<noteq> i"
    and root: "p0 = None"
  shows "\<not> tree_ok (row (set_parent i (Some q) s))"
proof -
  have sub: "up_rel (row s) \<subseteq> up_rel (row (set_parent i (Some q) s))"
    using assms(1) root by (auto simp: up_rel_def row_set_parent)
  have "(i, q) \<in> up_rel (row (set_parent i (Some q) s))"
    using assms(1) by (auto simp: up_rel_def row_set_parent)
  moreover have "(q, i) \<in> (up_rel (row (set_parent i (Some q) s)))\<^sup>*"
    using assms(2) rtrancl_mono [OF sub] by blast
  ultimately have "(i, i) \<in> (up_rel (row (set_parent i (Some q) s)))\<^sup>+"
    by (rule rtrancl_into_trancl2)
  then show ?thesis by (auto simp: tree_ok_def acyclic_def)
qed

end

definition set_location_parent :: "uuid \<Rightarrow> uuid option \<Rightarrow> db \<Rightarrow> db" where
  "set_location_parent i p s =
     s\<lparr>locations := tbl_upd i (\<lambda>l. l\<lparr>lo_parent := p, lo_updated := db_now s\<rparr>) (locations s)\<rparr>"

definition set_category_parent :: "uuid \<Rightarrow> uuid option \<Rightarrow> db \<Rightarrow> db" where
  "set_category_parent i p s =
     s\<lparr>categories := tbl_upd i (\<lambda>c. c\<lparr>cg_parent := p, cg_updated := db_now s\<rparr>) (categories s)\<rparr>"

interpretation loc_tree: parent_tree "tree_row TreeLocations" set_location_parent
  by unfold_locales (auto simp: tree_row_def set_location_parent_def option.map_comp o_def)

interpretation cat_tree: parent_tree "tree_row TreeCategories" set_category_parent
  by unfold_locales (auto simp: tree_row_def set_category_parent_def option.map_comp o_def)

text \<open>Inserting a node below an existing parent of its storage, or as a root, keeps the tree.\<close>

lemma tree_ok_insert:
  assumes ok: "tree_ok f" and new: "f i = None"
    and p: "\<And>q. p = Some q \<Longrightarrow> \<exists>r. f q = Some (st, r)"
    and g: "\<And>j. g j = (if j = i then Some (st, p) else f j)"
  shows "tree_ok g"
proof -
  have no_child: "(c, i) \<notin> up_rel f" for c
    using ok new unfolding tree_ok_def up_rel_iff by (metis option.distinct(1))
  have sub: "up_rel g \<subseteq> (case p of None \<Rightarrow> up_rel f | Some q \<Rightarrow> insert (i, q) (up_rel f))"
    by (auto simp: up_rel_def g split: if_splits option.splits)
  have "acyclic (up_rel g)"
  proof (cases p)
    case None
    with sub ok show ?thesis by (auto simp: tree_ok_def intro: acyclic_subset)
  next
    case (Some q)
    have "(q, i) \<notin> (up_rel f)\<^sup>*"
    proof
      assume "(q, i) \<in> (up_rel f)\<^sup>*"
      then show False
        by (rule rtranclE) (use p [OF Some] new no_child in auto)
    qed
    then have "acyclic (insert (i, q) (up_rel f))"
      using ok by (simp add: acyclic_insert tree_ok_def)
    with Some sub show ?thesis by (auto intro: acyclic_subset)
  qed
  moreover have "\<exists>q'. g q = Some (st', q')" if "g c = Some (st', Some q)" for c st' q
  proof (cases "c = i")
    case True
    with that have "st' = st" "p = Some q" by (auto simp: g)
    with p obtain r where "f q = Some (st', r)" by blast
    then show ?thesis using new by (auto simp: g)
  next
    case False
    with that have "f c = Some (st', Some q)" by (simp add: g)
    with ok obtain r where "f q = Some (st', r)" unfolding tree_ok_def by blast
    then show ?thesis using new by (auto simp: g)
  qed
  ultimately show ?thesis by (simp add: tree_ok_def)
qed

section \<open>Descent\<close>

lemma descend_Suc_level: "descend ch (Suc n) lv = descend ch n lv @ level_at ch n lv"
  by (induction n arbitrary: lv) auto

lemma level_at_Nil [simp]: "level_at ch n [] = []"
  by (induction n) auto

lemma level_at_add: "level_at ch (m + n) lv = level_at ch n (level_at ch m lv)"
  by (induction m arbitrary: lv) auto

text \<open>When level \<open>n\<close> is empty, a longer descent finds nothing more.\<close>

lemma descend_stable:
  "level_at ch n lv = [] \<Longrightarrow> descend ch (n + k) lv = descend ch n lv"
proof (induction k)
  case (Suc k)
  then show ?case
    by (simp add: descend_Suc_level level_at_add del: descend.simps)
qed simp

lemma descend_level: "x \<in> set (level_at ch k lv) \<Longrightarrow> k < n \<Longrightarrow> x \<in> set (descend ch n lv)"
proof (induction n arbitrary: k lv)
  case (Suc n)
  then show ?case by (cases k) auto
qed simp

lemma descend_has_level: "x \<in> set (descend ch n lv) \<Longrightarrow> \<exists>k < n. x \<in> set (level_at ch k lv)"
proof (induction n arbitrary: lv)
  case (Suc n)
  show ?case
  proof (cases "x \<in> set lv")
    case True
    then show ?thesis by (intro exI [of _ 0]) simp
  next
    case False
    with Suc obtain k where "k < n" "x \<in> set (level_at ch k (concat (map ch lv)))" by auto
    then show ?thesis by (intro exI [of _ "Suc k"]) simp
  qed
qed simp

lemma level_at_child:
  "x \<in> set (level_at ch k lv) \<Longrightarrow> y \<in> set (ch x) \<Longrightarrow> y \<in> set (level_at ch (Suc k) lv)"
proof (induction k arbitrary: lv)
  case (Suc k)
  then show ?case by (metis level_at.simps(2))
qed auto

end
