(* ===== verification/Progress.thy ===== *)
theory Progress
  imports Tree
begin

text \<open>
  The gamification side of the store (\<open>gamification.go\<close>, \<open>quests.go\<close> and \<open>achievements.go\<close>
  of \<open>internal/store\<close>): what a scored write adds to the cached progress and to the running
  quests, and the nightly rebuild of the cache from the ledger. None of it writes outside the
  gamification tables: every operation is \<open>silent\<close>.
\<close>

section \<open>Achievements and progress\<close>

type_synonym achievement_key = "achievement + milestone_key"

definition member_refs :: "uuid \<Rightarrow> uuid \<Rightarrow> db \<Rightarrow> bool" where
  "member_refs storage user s \<longleftrightarrow> tbl_has storage (storage_rows s) \<and> tbl_has user (accounts s)"

text \<open>\<open>unlockAchievement\<close>: INSERT ... ON CONFLICT DO NOTHING.\<close>

definition unlock_achievement :: "uuid \<Rightarrow> uuid \<Rightarrow> achievement_key \<Rightarrow> unit dbtx" where
  "unlock_achievement storage user key =
     bind_tx (get_tx (\<lambda>s. (storage, user, key) \<in> set (gt_unlocked (gam s)))) (\<lambda>had.
       when_tx (\<not> had)
         (seq_tx (check_tx (member_refs storage user) ErrInternal)
           (mod_tx (gam_update (\<lambda>g. g\<lparr>gt_unlocked := gt_unlocked g @ [(storage, user, key)]\<rparr>)))))"

text \<open>\<open>achievementNewlyUnlocked\<close> reports whether that insert did something.\<close>

definition achievement_newly_unlocked :: "uuid \<Rightarrow> uuid \<Rightarrow> achievement_key \<Rightarrow> bool dbtx" where
  "achievement_newly_unlocked storage user key =
     bind_tx (get_tx (\<lambda>s. (storage, user, key) \<in> set (gt_unlocked (gam s)))) (\<lambda>had.
       seq_tx (unlock_achievement storage user key) (ret_tx (\<not> had)))"

definition fresh_progress :: "instant \<Rightarrow> progress" where
  "fresh_progress now = \<lparr>pg_xp = 0, pg_level = 1, pg_streak = 0, pg_week = None, pg_recomputed = now\<rparr>"

text \<open>The first statement of \<open>bumpProgress\<close>: make sure the row exists.\<close>

definition ensure_progress :: "uuid \<Rightarrow> uuid \<Rightarrow> unit dbtx" where
  "ensure_progress storage user =
     bind_tx (get_tx (\<lambda>s. map_of (gt_progress (gam s)) (storage, user))) (\<lambda>row.
       when_tx (row = None)
         (seq_tx (check_tx (member_refs storage user) ErrInternal)
           (bind_tx (get_tx db_now) (\<lambda>now.
             mod_tx (gam_update (\<lambda>g. g\<lparr>gt_progress :=
               tbl_ins (storage, user) (fresh_progress now) (gt_progress g)\<rparr>))))))"

definition bump_progress :: "uuid \<Rightarrow> uuid \<Rightarrow> int \<Rightarrow> unit dbtx" where
  "bump_progress storage user delta =
     seq_tx (ensure_progress storage user)
       (bind_tx (row_tx ErrInternal (\<lambda>s. map_of (gt_progress (gam s)) (storage, user))) (\<lambda>row.
         bind_tx (get_tx app_now) (\<lambda>clk. bind_tx (get_tx db_now) (\<lambda>now.
           let xp' = pg_xp row + delta in
           seq_tx (guard_tx (int4 xp') ErrInternal)
             (mod_tx (gam_update (\<lambda>g. g\<lparr>gt_progress := tbl_upd (storage, user)
               (\<lambda>r. r\<lparr>pg_xp := xp', pg_level := level_of xp', pg_week := Some (monday_of clk),
                     pg_recomputed := now\<rparr>) (gt_progress g)\<rparr>)))))))"

lemma silent_unlock [silent_intros]: "silent (unlock_achievement st u k)"
  unfolding unlock_achievement_def by (intro silent_intros)

lemma silent_newly [silent_intros]: "silent (achievement_newly_unlocked st u k)"
  unfolding achievement_newly_unlocked_def by (intro silent_intros)

lemma silent_ensure [silent_intros]: "silent (ensure_progress st u)"
  unfolding ensure_progress_def by (intro silent_intros)

lemma silent_bump [silent_intros]: "silent (bump_progress st u d)"
  unfolding bump_progress_def Let_def by (intro silent_intros)

section \<open>Quests\<close>

text \<open>What each reader decodes from the JSON of the parameters: absent fields are zero values.\<close>

definition param_ids :: "quest_params \<Rightarrow> uuid list option" where
  "param_ids p = (case p of ParamsIds ids \<Rightarrow> Some ids | ParamsMalformed \<Rightarrow> None | _ \<Rightarrow> Some [])"

definition param_location :: "quest_params \<Rightarrow> uuid option option" where
  "param_location p = (case p of ParamsStale l \<Rightarrow> Some (Some l) | ParamsMalformed \<Rightarrow> None | _ \<Rightarrow> Some None)"

definition param_start :: "quest_params \<Rightarrow> int option" where
  "param_start p = (case p of ParamsFirstMile n \<Rightarrow> Some n | ParamsMalformed \<Rightarrow> None | _ \<Rightarrow> Some 0)"

definition count_rows :: "('k \<Rightarrow> 'r \<Rightarrow> bool) \<Rightarrow> ('k \<times> 'r) list \<Rightarrow> int" where
  "count_rows P t = int (length (tbl_select P t))"

definition count_matching :: "quest_params \<Rightarrow> (uuid list \<Rightarrow> db \<Rightarrow> int) \<Rightarrow> int dbtx" where
  "count_matching params query =
     bind_tx (row_tx ErrInternal (\<lambda>_. param_ids params)) (\<lambda>ids. get_tx (query ids))"

definition quest_progress :: "uuid \<Rightarrow> quest \<Rightarrow> int dbtx" where
  "quest_progress storage q = (case qu_generator q of
      MissingExpiry \<Rightarrow> count_matching (qu_params q) (\<lambda>ids s.
        count_rows (\<lambda>i b. i \<in> set ids \<and> ba_expiration b \<noteq> None) (batches s))
    | Uncategorized \<Rightarrow> count_matching (qu_params q) (\<lambda>ids s.
        count_rows (\<lambda>i p. i \<in> set ids \<and> pr_category p \<noteq> None) (products s))
    | Imageless \<Rightarrow> count_matching (qu_params q) (\<lambda>ids s.
        count_rows (\<lambda>i p. i \<in> set ids \<and> (pr_image p \<noteq> None \<or> pr_icon p \<noteq> None)) (products s))
    | UntrackedReorder \<Rightarrow> count_matching (qu_params q) (\<lambda>ids s.
        count_rows (\<lambda>i p. i \<in> set ids \<and> pr_min_stock p > 0) (products s))
    | ExpiringSoon \<Rightarrow> count_matching (qu_params q) (\<lambda>ids s.
        count_rows (\<lambda>i b. i \<in> set ids \<and> (ba_quantity b \<le> 0 \<or>
          (case ba_expiration b of None \<Rightarrow> False
           | Some d \<Rightarrow> d < day_of (db_now s) \<or> d \<ge> day_of (db_now s) + 3))) (batches s))
    | StaleLocation \<Rightarrow>
        bind_tx (row_tx ErrInternal (\<lambda>_. param_location (qu_params q))) (\<lambda>lo.
          get_tx (\<lambda>s. if \<exists>(_, l) \<in> set (logs s). lg_at l \<ge> qu_week q * ns_per_day \<and>
              (case lg_batch l of None \<Rightarrow> False | Some b \<Rightarrow>
                (case map_of (batches s) b of None \<Rightarrow> False | Some r \<Rightarrow> lo = Some (ba_location r)))
            then 1 else 0))
    | ConsumptionHygiene \<Rightarrow>
        get_tx (\<lambda>s. if \<exists>(_, l) \<in> set (logs s). lg_reason l = ReasonConsumption
              \<and> lg_at l \<ge> qu_week q * ns_per_day
              \<and> map_option pr_storage (map_of (products s) (lg_product l)) = Some storage
            then 1 else 0)
    | FirstMile \<Rightarrow>
        bind_tx (row_tx ErrInternal (\<lambda>_. param_start (qu_params q))) (\<lambda>start.
          get_tx (\<lambda>s. let n = count_rows (\<lambda>_ p. pr_storage p = storage) (products s) - start;
                        n' = (if n < 0 then 0 else n) in
            if n' > qu_target q then qu_target q else n')))"

definition quest_target_qualifies :: "generator_kind \<Rightarrow> quest_params \<Rightarrow> uuid option \<Rightarrow> bool" where
  "quest_target_qualifies g params target =
     (if g \<in> set [MissingExpiry, Uncategorized, Imageless, UntrackedReorder, ExpiringSoon]
      then (case target of None \<Rightarrow> False
            | Some t \<Rightarrow> (case param_ids params of None \<Rightarrow> False | Some ids \<Rightarrow> t \<in> set ids))
      else True)"

definition quest_relevant_generators :: "string \<Rightarrow> generator_kind list" where
  "quest_relevant_generators kind =
     (if kind = ''purchase'' then [FirstMile, StaleLocation]
      else if kind = ''vision_ingestion'' then [FirstMile, StaleLocation]
      else if kind = ''consumption'' then [ConsumptionHygiene, ExpiringSoon]
      else if kind = ''expiry_confirmed'' then [MissingExpiry]
      else if kind = ''location_mapped'' then [StaleLocation]
      else [])"

definition active_quest :: "uuid \<Rightarrow> generator_kind \<Rightarrow> db \<Rightarrow> (uuid \<times> quest) option" where
  "active_quest storage g s = find (\<lambda>(_, q). qu_storage q = storage
      \<and> qu_week q = monday_of (app_now s) \<and> qu_generator q = g \<and> qu_completed q = None)
    (gt_quests (gam s))"

definition add_contributor :: "uuid \<Rightarrow> uuid \<Rightarrow> unit dbtx" where
  "add_contributor quest user =
     bind_tx (get_tx (\<lambda>s. (quest, user) \<in> set (gt_contributors (gam s)))) (\<lambda>had.
       when_tx (\<not> had)
         (seq_tx (check_tx (\<lambda>s. tbl_has user (accounts s)) ErrInternal)
           (mod_tx (gam_update (\<lambda>g. g\<lparr>gt_contributors := gt_contributors g @ [(quest, user)]\<rparr>)))))"

definition advance_one_quest ::
    "uuid \<Rightarrow> uuid \<Rightarrow> generator_kind \<Rightarrow> uuid option \<Rightarrow> unit dbtx" where
  "advance_one_quest storage user g target =
     bind_tx (get_tx (active_quest storage g)) (\<lambda>found. case found of
       None \<Rightarrow> ret_tx ()
     | Some (i, q) \<Rightarrow>
         when_tx (quest_target_qualifies (qu_generator q) (qu_params q) target)
           (seq_tx (add_contributor i user)
             (bind_tx (quest_progress storage q) (\<lambda>n.
               when_tx (\<not> n < qu_target q)
                 (bind_tx (get_tx db_now) (\<lambda>now.
                   seq_tx (mod_tx (gam_update (\<lambda>gt. gt\<lparr>gt_quests :=
                       tbl_upd i (\<lambda>r. r\<lparr>qu_completed := Some now\<rparr>) (gt_quests gt)\<rparr>)))
                     (bind_tx (get_tx (\<lambda>s. map snd (filter (\<lambda>c. fst c = i) (gt_contributors (gam s)))))
                       (iter_tx (\<lambda>u. bump_progress storage u (qu_xp q))))))))))"

definition advance_quests :: "uuid \<Rightarrow> uuid \<Rightarrow> string \<Rightarrow> uuid option \<Rightarrow> unit dbtx" where
  "advance_quests storage user kind target =
     iter_tx (\<lambda>g. advance_one_quest storage user g target) (quest_relevant_generators kind)"

definition advance_quest_for_generator ::
    "uuid \<Rightarrow> uuid \<Rightarrow> generator_kind \<Rightarrow> uuid option \<Rightarrow> unit dbtx" where
  "advance_quest_for_generator = advance_one_quest"

lemma silent_count_matching [silent_intros]: "silent (count_matching p q)"
  unfolding count_matching_def by (intro silent_intros)

lemma silent_quest_progress [silent_intros]: "silent (quest_progress st q)"
  by (cases "qu_generator q") (simp_all add: quest_progress_def silent_intros)

lemma silent_contributor [silent_intros]: "silent (add_contributor q u)"
  unfolding add_contributor_def by (intro silent_intros)

lemma silent_advance_one [silent_intros]: "silent (advance_one_quest st u g t)"
  unfolding advance_one_quest_def
  by (intro silent_bind silent_get) (auto split: option.split intro!: silent_intros)

lemma silent_advance [silent_intros]:
  "silent (advance_quests st u k t)" "silent (advance_quest_for_generator st u g t)"
  by (simp_all add: advance_quests_def advance_quest_for_generator_def silent_intros)

section \<open>Contribution achievements\<close>

definition curator_corrections :: int where "curator_corrections = 25"
definition cartographer_tree_depth :: nat where "cartographer_tree_depth = 3"

definition check_curator :: "uuid \<Rightarrow> uuid \<Rightarrow> unit dbtx" where
  "check_curator storage user =
     bind_tx (get_tx (\<lambda>s. count_rows (\<lambda>_ c. ce_storage c = storage \<and> ce_user c = user
         \<and> ce_kind c = AICorrection) (gt_contributions (gam s)))) (\<lambda>n.
       when_tx (\<not> n < curator_corrections) (unlock_achievement storage user (Inl Curator)))"

text \<open>The maximum of no rows is NULL, which does not scan into an integer.\<close>

definition location_depth :: "uuid \<Rightarrow> nat dbtx" where
  "location_depth i = row_tx ErrInternal (\<lambda>s.
     case length (ancestors (tree_row TreeLocations s) 64 i) of 0 \<Rightarrow> None | Suc n \<Rightarrow> Some (Suc n))"

definition check_cartographer :: "uuid \<Rightarrow> uuid \<Rightarrow> uuid \<Rightarrow> unit dbtx" where
  "check_cartographer storage user i =
     bind_tx (location_depth i) (\<lambda>d.
       when_tx (\<not> d < cartographer_tree_depth) (unlock_achievement storage user (Inl Cartographer)))"

definition evaluate_contribution_achievements ::
    "uuid \<Rightarrow> uuid \<Rightarrow> contribution_kind \<Rightarrow> uuid option \<Rightarrow> unit dbtx" where
  "evaluate_contribution_achievements storage user kind ref = (case kind of
      AICorrection \<Rightarrow> check_curator storage user
    | LocationMapped \<Rightarrow> (case ref of None \<Rightarrow> ret_tx () | Some i \<Rightarrow> check_cartographer storage user i)
    | _ \<Rightarrow> ret_tx ())"

lemma silent_achievements [silent_intros]: "silent (evaluate_contribution_achievements st u k r)"
  by (cases k; cases r)
    (simp_all add: evaluate_contribution_achievements_def check_curator_def check_cartographer_def
      location_depth_def silent_intros)

section \<open>Recording scored work\<close>

definition record_contribution ::
    "uuid \<Rightarrow> uuid \<Rightarrow> contribution_kind \<Rightarrow> uuid option \<Rightarrow> generator_kind option \<Rightarrow> unit dbtx" where
  "record_contribution storage user kind ref generator =
     bind_tx new_id (\<lambda>i. bind_tx (get_tx db_now) (\<lambda>now.
       seq_tx (check_tx (\<lambda>s. \<not> tbl_has i (gt_contributions (gam s)) \<and> member_refs storage user s) ErrInternal)
      (seq_tx (mod_tx (gam_update (\<lambda>g. g\<lparr>gt_contributions := tbl_ins i
           \<lparr>ce_storage = storage, ce_user = user, ce_kind = kind, ce_ref = ref, ce_at = now\<rparr>
           (gt_contributions g)\<rparr>)))
      (seq_tx (bump_progress storage user (xp_for_contribution kind))
      (seq_tx (case generator of
                 Some g \<Rightarrow> advance_quest_for_generator storage user g ref
               | None \<Rightarrow> advance_quests storage user (kind_name kind) ref)
        (evaluate_contribution_achievements storage user kind ref))))))"

definition bump_for_ledger_reason ::
    "uuid \<Rightarrow> uuid option \<Rightarrow> log_reason \<Rightarrow> uuid \<Rightarrow> unit dbtx" where
  "bump_for_ledger_reason storage user reason batch =
     (case user of
        None \<Rightarrow> ret_tx ()
      | Some u \<Rightarrow>
          (case xp_for_ledger_reason (reason_name reason) of
             None \<Rightarrow> ret_tx ()
           | Some xp \<Rightarrow> seq_tx (bump_progress storage u xp)
               (advance_quests storage u (reason_name reason) (Some batch))))"

lemma silent_record_contribution [silent_intros]: "silent (record_contribution st u k r g)"
  unfolding record_contribution_def
  by (intro silent_bind silent_seq) (auto split: option.split intro: silent_intros)

lemma silent_bump_ledger [silent_intros]: "silent (bump_for_ledger_reason st u r b)"
  unfolding bump_for_ledger_reason_def
  by (auto split: option.split intro: silent_intros)

section \<open>The nightly rebuild\<close>

type_synonym progress_pair = "uuid \<times> uuid"

text \<open>\<open>allScoringEvents\<close>: every event with the pair it belongs to.\<close>

definition ledger_events :: "db \<Rightarrow> (progress_pair \<times> event) list" where
  "ledger_events s = concat (map (\<lambda>(_, l).
     case (map_of (products s) (lg_product l), lg_by l, xp_for_ledger_reason (reason_name (lg_reason l))) of
       (Some p, Some u, Some xp) \<Rightarrow>
         [((pr_storage p, u), \<lparr>ev_ref = lg_product l, ev_kind = reason_name (lg_reason l),
            ev_at = lg_at l, ev_xp = xp\<rparr>)]
     | _ \<Rightarrow> []) (logs s))"

definition contribution_events :: "db \<Rightarrow> (progress_pair \<times> event) list" where
  "contribution_events s = map (\<lambda>(i, c). ((ce_storage c, ce_user c),
       \<lparr>ev_ref = (case ce_ref c of None \<Rightarrow> i | Some r \<Rightarrow> r), ev_kind = kind_name (ce_kind c),
        ev_at = ce_at c, ev_xp = xp_for_contribution (ce_kind c)\<rparr>)) (gt_contributions (gam s))"

definition scoring_events :: "db \<Rightarrow> (progress_pair \<times> event) list" where
  "scoring_events s = ledger_events s @ contribution_events s"

definition events_of :: "progress_pair \<Rightarrow> db \<Rightarrow> event list" where
  "events_of pair s = map snd (filter (\<lambda>e. fst e = pair) (scoring_events s))"

definition last_active_week :: "event list \<Rightarrow> date option" where
  "last_active_week es = fold (\<lambda>e last. let week = monday_of (ev_at e) in
     (case last of None \<Rightarrow> Some week | Some w \<Rightarrow> if week > w then Some week else last)) es None"

definition recomputed_row :: "event list \<Rightarrow> date list \<Rightarrow> instant \<Rightarrow> instant \<Rightarrow> progress" where
  "recomputed_row es holidays clk now =
     \<lparr>pg_xp = coalesce es, pg_level = level_of (coalesce es),
      pg_streak = compute_streak_weeks (map (\<lambda>e. monday_of (ev_at e)) es) holidays clk,
      pg_week = last_active_week es, pg_recomputed = now\<rparr>"

definition holiday_weeks_of :: "uuid \<Rightarrow> db \<Rightarrow> date list" where
  "holiday_weeks_of user s = map snd (filter (\<lambda>h. fst h = user) (gt_holidays (gam s)))"

text \<open>\<open>recomputeOnePair\<close>: the upsert and the streak achievements.\<close>

definition recompute_one_pair :: "progress_pair \<Rightarrow> event list \<Rightarrow> unit dbtx" where
  "recompute_one_pair pair es = (case pair of (storage, user) \<Rightarrow>
     bind_tx (get_tx (holiday_weeks_of user)) (\<lambda>hol.
     bind_tx (get_tx app_now) (\<lambda>clk. bind_tx (get_tx db_now) (\<lambda>now.
       let row = recomputed_row es hol clk now in
       seq_tx (guard_tx (int4 (pg_xp row)) ErrInternal)
      (seq_tx (bind_tx (get_tx (\<lambda>s. map_of (gt_progress (gam s)) pair)) (\<lambda>old.
         case old of
           None \<Rightarrow> seq_tx (check_tx (member_refs storage user) ErrInternal)
             (mod_tx (gam_update (\<lambda>g. g\<lparr>gt_progress := tbl_ins pair row (gt_progress g)\<rparr>)))
         | Some _ \<Rightarrow> mod_tx (gam_update (\<lambda>g. g\<lparr>gt_progress := tbl_upd pair (\<lambda>_. row) (gt_progress g)\<rparr>))))
         (iter_tx (\<lambda>a. unlock_achievement storage user (Inl a)) (steady_hand_tiers_reached (pg_streak row))))))))"

text \<open>
  \<open>RecomputeAllProgress\<close>: one snapshot, then one transaction per pair; the first failure stops
  the loop with the number of pairs already written. The map iteration order of the source is the
  list order here.
\<close>

definition recompute_pairs :: "db \<Rightarrow> progress_pair list" where
  "recompute_pairs s = remdups (map fst (scoring_events s) @ keys (gt_progress (gam s)))"

fun recompute_loop :: "db \<Rightarrow> progress_pair list \<Rightarrow> nat \<Rightarrow> db \<Rightarrow> (err option \<times> nat) \<times> db" where
  "recompute_loop snap [] n s = ((None, n), s)"
| "recompute_loop snap (p # ps) n s =
     (case in_tx (recompute_one_pair p (events_of p snap)) s of
        (Inl e, s') \<Rightarrow> ((Some e, n), s')
      | (Inr _, s') \<Rightarrow> recompute_loop snap ps (Suc n) s')"

definition recompute_all_progress :: "db \<Rightarrow> (err option \<times> nat) \<times> db" where
  "recompute_all_progress s = recompute_loop s (recompute_pairs s) 0 s"

lemma silent_recompute_one [silent_intros]: "silent (recompute_one_pair p es)"
  unfolding recompute_one_pair_def Let_def
  by (cases p) (auto split: option.split intro!: silent_intros)

text \<open>What the rebuild reads is outside of what it writes.\<close>

definition rebuild_inputs :: "db \<Rightarrow> db \<times> contribution table \<times> (uuid \<times> date) list" where
  "rebuild_inputs s = (core s, gt_contributions (gam s), gt_holidays (gam s))"

lemma rebuild_inputs_events:
  "rebuild_inputs s' = rebuild_inputs s \<Longrightarrow>
   scoring_events s' = scoring_events s \<and> holiday_weeks_of u s' = holiday_weeks_of u s
   \<and> app_now s' = app_now s \<and> db_now s' = db_now s"
proof -
  assume h: "rebuild_inputs s' = rebuild_inputs s"
  then have c: "core s' = core s" and g: "gt_contributions (gam s') = gt_contributions (gam s)"
    "gt_holidays (gam s') = gt_holidays (gam s)"
    by (simp_all add: rebuild_inputs_def)
  from c have "logs s' = logs s" "products s' = products s" "app_now s' = app_now s" "db_now s' = db_now s"
    by (metis core_fields)+
  with g show ?thesis
    by (simp add: scoring_events_def ledger_events_def contribution_events_def holiday_weeks_of_def)
qed

lemma unlock_progress:
  "unlock_achievement st u k s = Inr (a, s') \<Longrightarrow>
   gt_progress (gam s') = gt_progress (gam s) \<and> rebuild_inputs s' = rebuild_inputs s"
  by (auto simp: unlock_achievement_def tx_iff rebuild_inputs_def split: if_splits)

lemma unlock_iter_progress:
  "iter_tx (\<lambda>a. unlock_achievement st u (Inl a)) as s = Inr (a, s') \<Longrightarrow>
   gt_progress (gam s') = gt_progress (gam s) \<and> rebuild_inputs s' = rebuild_inputs s"
proof (induction "as" arbitrary: s)
  case Nil
  then show ?case by (simp add: tx_iff)
next
  case (Cons b bs)
  then obtain s1 where "unlock_achievement st u (Inl b) s = Inr ((), s1)"
    "iter_tx (\<lambda>a. unlock_achievement st u (Inl a)) bs s1 = Inr (a, s')" by (auto simp: tx_iff)
  with Cons.IH [of s1] unlock_progress show ?case by metis
qed

lemma recompute_one_effect:
  assumes "recompute_one_pair p es s = Inr (a, s')"
  shows "map_of (gt_progress (gam s')) q =
      (if q = p then Some (recomputed_row es (holiday_weeks_of (snd p) s) (app_now s) (db_now s))
       else map_of (gt_progress (gam s)) q)"
    and "rebuild_inputs s' = rebuild_inputs s"
proof -
  obtain st u where p: "p = (st, u)" by (cases p)
  let ?row = "recomputed_row es (holiday_weeks_of u s) (app_now s) (db_now s)"
  let ?t = "gt_progress (gam s)"
  obtain s1 where w: "map_of ?t p = None
        \<and> s1 = gam_update (\<lambda>g. g\<lparr>gt_progress := tbl_ins p ?row (gt_progress g)\<rparr>) s
      \<or> map_of ?t p \<noteq> None
        \<and> s1 = gam_update (\<lambda>g. g\<lparr>gt_progress := tbl_upd p (\<lambda>_. ?row) (gt_progress g)\<rparr>) s"
    and it: "iter_tx (\<lambda>a. unlock_achievement st u (Inl a)) (steady_hand_tiers_reached (pg_streak ?row)) s1
        = Inr (a, s')"
    using assms p
    by (auto simp: recompute_one_pair_def tx_iff Let_def split: option.splits)
  have s1: "gt_progress (gam s1) = (if map_of ?t p = None then tbl_ins p ?row ?t else tbl_upd p (\<lambda>_. ?row) ?t)"
    "rebuild_inputs s1 = rebuild_inputs s"
    using w by (auto simp: rebuild_inputs_def)
  note un = unlock_iter_progress [OF it]
  show "map_of (gt_progress (gam s')) q =
      (if q = p then Some (recomputed_row es (holiday_weeks_of (snd p) s) (app_now s) (db_now s))
       else map_of (gt_progress (gam s)) q)"
  proof (cases "map_of ?t p = None")
    case True
    then have "p \<notin> set (keys ?t)" by (simp add: map_of_None_keys)
    from map_of_tbl_ins [OF this, of ?row q] un s1(1) True p show ?thesis by simp
  next
    case False
    with un s1(1) p show ?thesis by auto
  qed
  show "rebuild_inputs s' = rebuild_inputs s" using un s1(2) by simp
qed

lemma recompute_loop_effect:
  assumes "recompute_loop snap ps n s = ((None, m), s')" and "distinct ps"
  shows "m = n + length ps \<and> rebuild_inputs s' = rebuild_inputs s
       \<and> (\<forall>q. map_of (gt_progress (gam s')) q =
            (if q \<in> set ps then Some (recomputed_row (events_of q snap) (holiday_weeks_of (snd q) s)
               (app_now s) (db_now s)) else map_of (gt_progress (gam s)) q))"
  using assms
proof (induction ps arbitrary: n s)
  case Nil
  then show ?case by simp
next
  case (Cons p ps)
  obtain s1 where one: "recompute_one_pair p (events_of p snap) s = Inr ((), s1)"
    and rest: "recompute_loop snap ps (Suc n) s1 = ((None, m), s')"
    using Cons.prems(1) by (auto simp: in_tx_def split: sum.splits)
  note e = recompute_one_effect [OF one]
  note ih = Cons.IH [OF rest]
  from rebuild_inputs_events [OF e(2)] ih Cons.prems(2) e show ?case by auto
qed

section \<open>Properties\<close>

text \<open>
  C38. The nightly rebuild makes the cache what the ledger says: when it succeeds it has written
  every pair that has a scored event or a cached row, each row is computed from the events alone
  (the coalesced XP, its level, the streak and the last active week), a pair whose events are all
  gone is reset to zero, nothing outside the progress and achievement tables changes, and running
  it again over the result changes no row.
\<close>

theorem recompute_rebuilds:
  assumes "recompute_all_progress s = ((None, n), s')"
  shows "n = length (recompute_pairs s) \<and> core s' = core s
       \<and> (\<forall>pair. map_of (gt_progress (gam s')) pair =
            (if pair \<in> set (recompute_pairs s)
             then Some (recomputed_row (events_of pair s) (holiday_weeks_of (snd pair) s) (app_now s) (db_now s))
             else None))
       \<and> (\<forall>pair \<in> set (keys (gt_progress (gam s))). events_of pair s = [] \<longrightarrow>
            map_option pg_xp (map_of (gt_progress (gam s')) pair) = Some 0)
       \<and> (\<forall>n2 s2. recompute_all_progress s' = ((None, n2), s2) \<longrightarrow>
            map_of (gt_progress (gam s2)) = map_of (gt_progress (gam s')))"
proof -
  have main: "m = length (recompute_pairs t) \<and> rebuild_inputs t' = rebuild_inputs t
      \<and> (\<forall>pair. map_of (gt_progress (gam t')) pair =
          (if pair \<in> set (recompute_pairs t)
           then Some (recomputed_row (events_of pair t) (holiday_weeks_of (snd pair) t) (app_now t) (db_now t))
           else None))"
    if r: "recompute_all_progress t = ((None, m), t')" for t m t'
  proof -
    have d: "distinct (recompute_pairs t)" by (simp add: recompute_pairs_def)
    note e = recompute_loop_effect [OF r [unfolded recompute_all_progress_def] d]
    have "map_of (gt_progress (gam t)) q = None" if "q \<notin> set (recompute_pairs t)" for q
      using that by (auto simp: recompute_pairs_def map_of_None_keys)
    with e show ?thesis by auto
  qed
  note m1 = main [OF assms]
  have core: "core s' = core s" using m1 by (simp add: rebuild_inputs_def)
  note ev = rebuild_inputs_events [OF conjunct1 [OF conjunct2 [OF m1]]]
  have zero: "map_option pg_xp (map_of (gt_progress (gam s')) pair) = Some 0"
    if "pair \<in> set (keys (gt_progress (gam s)))" "events_of pair s = []" for pair
  proof -
    have "pair \<in> set (recompute_pairs s)" using that(1) by (simp add: recompute_pairs_def)
    with m1 that(2) show ?thesis by (cases pair) (simp add: recomputed_row_def coalesce_def)
  qed
  have "map_of (gt_progress (gam s2)) pair = map_of (gt_progress (gam s')) pair"
    if r2: "recompute_all_progress s' = ((None, n2), s2)" for n2 s2 pair
  proof -
    note m2 = main [OF r2]
    have evs: "events_of pair s' = events_of pair s" using ev by (simp add: events_of_def)
    have "pair \<in> set (recompute_pairs s') \<longleftrightarrow> pair \<in> set (recompute_pairs s)"
    proof -
      have "pair \<in> set (keys (gt_progress (gam s'))) \<longleftrightarrow> pair \<in> set (recompute_pairs s)"
        using m1 by (metis map_of_None_keys option.distinct(1))
      then show ?thesis using ev by (auto simp: recompute_pairs_def)
    qed
    with m1 m2 ev evs show ?thesis by (cases pair) simp
  qed
  then show ?thesis using m1 core zero by (intro conjI) (auto intro!: ext)
qed

section \<open>Witnesses\<close>

text \<open>
  A storage with one user: one purchase of a product that still exists, and a second user whose
  cached 40 XP have no event behind them any more.
\<close>

definition progress_demo :: db where
  "progress_demo = empty_db\<lparr>accounts := [(7, some_account), (8, some_account)], storage_rows := [(1, some_storage)],
     products := [(5, \<lparr>pr_storage = 1, pr_name = ''Rice'', pr_category = None, pr_catalog = None,
       pr_item_type = LongShelfLife, pr_days = None, pr_min_stock = 0, pr_image = None,
       pr_icon = None, pr_created = 0, pr_updated = 0\<rparr>)],
     logs := [(9, \<lparr>lg_product = 5, lg_batch = None, lg_change = 2, lg_reason = ReasonPurchase,
       lg_by = Some 7, lg_at = 0\<rparr>)],
     gam := empty_gam\<lparr>gt_progress := [((1, 8), \<lparr>pg_xp = 40, pg_level = 1, pg_streak = 2,
       pg_week = None, pg_recomputed = 0\<rparr>)]\<rparr>\<rparr>"

lemma progress_demo_events:
  "scoring_events progress_demo =
     [((1, 7), \<lparr>ev_ref = 5, ev_kind = ''purchase'', ev_at = 0, ev_xp = 3\<rparr>)]"
  by (simp add: scoring_events_def ledger_events_def contribution_events_def progress_demo_def
      empty_db_def empty_gam_def reason_name_def xp_for_ledger_reason_def xp_ledger_contribution_def)

lemma monday_zero: "monday_of 0 = -3"
  by (simp add: monday_of_def day_of_def weekday_def)

lemma progress_demo_runs: "\<exists>s'. recompute_all_progress progress_demo = ((None, 2), s')"
proof -
  have pairs: "recompute_pairs progress_demo = [(1, 7), (1, 8)]"
    by (simp add: recompute_pairs_def progress_demo_events) (simp add: progress_demo_def empty_db_def)
  have e7: "events_of (1, 7) progress_demo = [\<lparr>ev_ref = 5, ev_kind = ''purchase'', ev_at = 0, ev_xp = 3\<rparr>]"
    and e8: "events_of (1, 8) progress_demo = []"
    by (simp_all add: events_of_def progress_demo_events)
  have st: "compute_streak_weeks [-3] [] 0 = 1" "compute_streak_weeks [] [] 0 = 0"
    by (simp_all add: compute_streak_weeks_def monday_zero streak_loop.simps)
  have xp: "coalesce [\<lparr>ev_ref = 5, ev_kind = ''purchase'', ev_at = 0, ev_xp = 3\<rparr>] = 3"
    by (simp add: coalesce_def event_key_def coalesce_group_def group_xp_def)
  have row7: "recomputed_row [\<lparr>ev_ref = 5, ev_kind = ''purchase'', ev_at = 0, ev_xp = 3\<rparr>] [] 0 0
      = \<lparr>pg_xp = 3, pg_level = 1, pg_streak = 1, pg_week = Some (-3), pg_recomputed = 0\<rparr>"
    by (simp add: recomputed_row_def xp st monday_zero last_active_week_def level_of_def)
  have row8: "recomputed_row [] [] 0 0
      = \<lparr>pg_xp = 0, pg_level = 1, pg_streak = 0, pg_week = None, pg_recomputed = 0\<rparr>"
    by (simp add: recomputed_row_def st coalesce_def last_active_week_def level_of_def)
  show ?thesis
    unfolding recompute_all_progress_def pairs recompute_loop.simps e7 e8
    by (simp add: in_tx_def recompute_one_pair_def tx_defs Let_def holiday_weeks_of_def progress_demo_def
        empty_db_def empty_gam_def row7 row8 int4_def member_refs_def steady_hand_tiers_reached_def
        steady_hand_tiers_def tbl_ins_def tbl_has_def)
qed

theorem recompute_rebuilds_witness:
  "\<exists>s'. recompute_all_progress progress_demo = ((None, 2), s')
     \<and> map_option pg_xp (map_of (gt_progress (gam s')) (1, 8)) = Some 0"
proof -
  obtain s' where r: "recompute_all_progress progress_demo = ((None, 2), s')"
    using progress_demo_runs by blast
  have "events_of (1, 8) progress_demo = []"
    by (simp add: events_of_def progress_demo_events)
  moreover have "(1, 8) \<in> set (keys (gt_progress (gam progress_demo)))"
    by (simp add: progress_demo_def)
  ultimately have "map_option pg_xp (map_of (gt_progress (gam s')) (1, 8)) = Some 0"
    using recompute_rebuilds [OF r, THEN conjunct2, THEN conjunct2, THEN conjunct2, THEN conjunct1]
    by blast
  with r show ?thesis by blast
qed

end
