(* ===== verification/Stock.thy ===== *)
theory Stock
  imports Progress
begin

text \<open>
  The stock invariant of \<open>docs/specs/02-data-model.md\<close>: every batch holds at least one unit of a
  product at a location of the same storage, in a container of that storage that is not destroyed,
  and for every product the ledger adds up to what the batches hold. The gap between ledger and
  shelf is the quantity each write primitive shifts; an operation keeps the invariant when its
  shifts cancel. This theory holds the invariant and one lemma per primitive.
\<close>

section \<open>The invariant\<close>

definition container_ok :: "db \<Rightarrow> uuid \<Rightarrow> uuid option \<Rightarrow> bool" where
  "container_ok s storage c = pred_option (\<lambda>c. \<exists>n. map_of (containers s) c = Some n
     \<and> cn_storage n = storage \<and> cn_destroyed n = None) c"

definition batch_ok :: "db \<Rightarrow> batch \<Rightarrow> bool" where
  "batch_ok s b \<longleftrightarrow> 1 \<le> ba_quantity b
     \<and> (\<exists>p l. map_of (products s) (ba_product b) = Some p \<and> map_of (locations s) (ba_location b) = Some l
          \<and> lo_storage l = pr_storage p \<and> container_ok s (pr_storage p) (ba_container b))"

definition log_ok :: "db \<Rightarrow> log_row \<Rightarrow> bool" where
  "log_ok s l \<longleftrightarrow> tbl_has (lg_product l) (products s) \<and> pred_option (\<lambda>b. tbl_has b (batches s)) (lg_batch l)"

definition rows_ok :: "db \<Rightarrow> bool" where
  "rows_ok s \<longleftrightarrow> distinct (keys (batches s)) \<and> distinct (keys (logs s)) \<and> distinct (keys (containers s))
     \<and> distinct (keys (products s)) \<and> distinct (keys (locations s))
     \<and> (\<forall>(i, b) \<in> set (batches s). batch_ok s b) \<and> (\<forall>(i, l) \<in> set (logs s). log_ok s l)"

definition ledger_total :: "uuid \<Rightarrow> db \<Rightarrow> int" where
  "ledger_total p s = tbl_sum (\<lambda>_ l. if lg_product l = p then lg_change l else 0) (logs s)"

definition stock_total :: "uuid \<Rightarrow> db \<Rightarrow> int" where
  "stock_total p s = tbl_sum (\<lambda>_ b. if ba_product b = p then ba_quantity b else 0) (batches s)"

definition gap :: "db \<Rightarrow> uuid \<Rightarrow> int" where
  "gap s p = ledger_total p s - stock_total p s"

definition stock_inv :: "db \<Rightarrow> bool" where
  "stock_inv s \<longleftrightarrow> rows_ok s \<and> (\<forall>p. ledger_total p s = stock_total p s)"

lemma stock_inv_gap: "stock_inv s \<longleftrightarrow> rows_ok s \<and> (\<forall>p. gap s p = 0)"
  by (auto simp: stock_inv_def gap_def)

text \<open>\<open>shifts\<close>: the rows stay in order and the gap moves by the given amount.\<close>

definition shifts :: "(uuid \<Rightarrow> int) \<Rightarrow> db \<Rightarrow> db \<Rightarrow> bool" where
  "shifts d s s' \<longleftrightarrow> rows_ok s' \<and> (\<forall>p. gap s' p = gap s p + d p)"

definition at_product :: "uuid \<Rightarrow> int \<Rightarrow> uuid \<Rightarrow> int" where
  "at_product q n p = (if p = q then n else 0)"

lemma shifts_trans: "shifts d s s1 \<Longrightarrow> shifts e s1 s2 \<Longrightarrow> shifts (\<lambda>p. d p + e p) s s2"
  by (simp add: shifts_def)

lemma shifts_rows: "shifts d s s' \<Longrightarrow> rows_ok s'"
  by (simp add: shifts_def)

lemma shifts_cong: "shifts d s s' \<Longrightarrow> (\<And>p. d p = e p) \<Longrightarrow> shifts e s s'"
  by (simp add: shifts_def)

lemma shifts_refl: "rows_ok s \<Longrightarrow> shifts (\<lambda>_. 0) s s"
  by (simp add: shifts_def)

lemma shifts_keep: "stock_inv s \<Longrightarrow> shifts (\<lambda>_. 0) s s' \<Longrightarrow> stock_inv s'"
  by (simp add: stock_inv_gap shifts_def)

lemma stock_inv_rows: "stock_inv s \<Longrightarrow> rows_ok s"
  by (simp add: stock_inv_def)

lemma stock_of_ledger:
  "stock_inv s \<Longrightarrow> stock_inv s' \<Longrightarrow> logs s' = logs s \<Longrightarrow> stock_total p s' = stock_total p s"
  unfolding stock_inv_def ledger_total_def by metis

section \<open>The core decides\<close>

lemma rows_ok_core: "rows_ok s \<longleftrightarrow> rows_ok (core s)"
  by (simp add: rows_ok_def batch_ok_def log_ok_def container_ok_def)

lemma gap_core: "gap s p = gap (core s) p"
  by (simp add: gap_def ledger_total_def stock_total_def)

lemma stock_inv_core: "stock_inv s \<longleftrightarrow> stock_inv (core s)"
  using rows_ok_core gap_core by (simp add: stock_inv_gap)

lemma shifts_silent: "silent m \<Longrightarrow> m s = Inr (a, s') \<Longrightarrow> rows_ok s \<Longrightarrow> shifts (\<lambda>_. 0) s s'"
  unfolding shifts_def by (metis add.right_neutral gap_core rows_ok_core silentD)

section \<open>Table lemmas\<close>

lemma set_tbl_upd: "(k, r) \<in> set (tbl_upd i f t) \<longleftrightarrow> (\<exists>r0. (k, r0) \<in> set t \<and> r = (if k = i then f r0 else r0))"
  by (induction t) (auto simp: tbl_upd_def tbl_map_def)

lemma set_tbl_map: "(k, r) \<in> set (tbl_map P f t) \<longleftrightarrow> (\<exists>r0. (k, r0) \<in> set t \<and> r = (if P k r0 then f r0 else r0))"
  by (induction t) (auto simp: tbl_map_def)

lemma tbl_map_off:
  assumes "\<And>r. owner r = old \<Longrightarrow> owner (g r) \<noteq> old"
  shows "old \<notin> owner ` snd ` set (tbl_map (\<lambda>_ r. owner r = old) g t)"
proof
  assume "old \<in> owner ` snd ` set (tbl_map (\<lambda>_ r. owner r = old) g t)"
  then obtain k x where x: "(k, x) \<in> set (tbl_map (\<lambda>_ r. owner r = old) g t)" "owner x = old" by auto
  from x(1) obtain r where "x = (if owner r = old then g r else r)" unfolding set_tbl_map by blast
  with x(2) assms [of r] show False by (cases "owner r = old") auto
qed

lemma set_tbl_del: "(k, r) \<in> set (tbl_del P t) \<longleftrightarrow> (k, r) \<in> set t \<and> \<not> P k r"
  by (auto simp: tbl_del_def)

lemma tbl_has_upd [simp]: "tbl_has k (tbl_upd i f t) = tbl_has k t"
  by (auto simp: tbl_has_def)

lemma tbl_has_map [simp]: "tbl_has k (tbl_map P f t) = tbl_has k t"
  by (simp add: tbl_has_keys del: set_map)

lemma length_tbl_ins [simp]: "length (tbl_ins k r t) = Suc (length t)"
  by (simp add: tbl_ins_def)

lemma tbl_has_ins [simp]: "tbl_has k (tbl_ins i r t) \<longleftrightarrow> k = i \<or> tbl_has k t"
  by (auto simp: tbl_has_keys)

lemma tbl_has_del_key: "tbl_has k (tbl_del (\<lambda>k' _. k' = i) t) \<longleftrightarrow> k \<noteq> i \<and> tbl_has k t"
  by (auto simp: tbl_has_keys tbl_del_def)

lemma distinct_keys_ins: "distinct (keys t) \<Longrightarrow> \<not> tbl_has i t \<Longrightarrow> distinct (keys (tbl_ins i r t))"
  by (simp add: tbl_has_keys)

lemma in_table_map_of: "distinct (keys t) \<Longrightarrow> (k, r) \<in> set t \<longleftrightarrow> map_of t k = Some r"
  by (auto dest: map_of_SomeD)

lemma batch_ok_frame:
  "products s' = products s \<Longrightarrow> locations s' = locations s \<Longrightarrow> containers s' = containers s \<Longrightarrow>
   batch_ok s' b = batch_ok s b"
  by (simp add: batch_ok_def container_ok_def)

lemma log_ok_frame: "products s' = products s \<Longrightarrow> batches s' = batches s \<Longrightarrow> log_ok s' l = log_ok s l"
  by (simp add: log_ok_def)

lemma rows_ok_batch: "rows_ok s \<Longrightarrow> map_of (batches s) i = Some b \<Longrightarrow> batch_ok s b"
  by (auto simp: rows_ok_def dest!: map_of_SomeD)

section \<open>Batch and ledger primitives\<close>

lemma shifts_insert_batch:
  assumes "rows_ok s" and "insert_batch i b s = Inr (u, s')" and "batch_ok s b"
  shows "shifts (at_product (ba_product b) (- ba_quantity b)) s s'"
proof -
  have s': "s' = s\<lparr>batches := tbl_ins i b (batches s)\<rparr>" and new: "\<not> tbl_has i (batches s)"
    using assms(2) by (auto simp: tx_iff)
  have "rows_ok s'"
    using assms(1,3) distinct_keys_ins [OF _ new] unfolding rows_ok_def s'
    by (auto simp: log_ok_def batch_ok_def container_ok_def pred_option_def option.pred_set)
  then show ?thesis
    by (simp add: shifts_def s' gap_def ledger_total_def stock_total_def at_product_def)
qed

text \<open>An update of one batch that leaves product and keys alone.\<close>

lemma shifts_update_batch:
  assumes ok: "rows_ok s" and b: "map_of (batches s) i = Some b"
    and s': "s' = s\<lparr>batches := tbl_upd i f (batches s)\<rparr>"
    and f: "ba_product (f b) = ba_product b" "batch_ok s (f b)"
  shows "shifts (at_product (ba_product b) (ba_quantity b - ba_quantity (f b))) s s'"
proof -
  have d: "distinct (keys (batches s))" using ok by (simp add: rows_ok_def)
  have batches: "batch_ok s r" if "(k, r) \<in> set (tbl_upd i f (batches s))" for k r
  proof -
    from that obtain r0 where r0: "(k, r0) \<in> set (batches s)" "r = (if k = i then f r0 else r0)"
      by (auto simp: set_tbl_upd)
    show ?thesis
    proof (cases "k = i")
      case True
      have "map_of (batches s) i = Some r0" using in_table_map_of [OF d] r0(1) True by blast
      with b have "r0 = b" by simp
      with True r0 f show ?thesis by simp
    next
      case False
      with r0 ok show ?thesis by (auto simp: rows_ok_def)
    qed
  qed
  have "rows_ok s'"
    using ok batches unfolding rows_ok_def s'
    by (auto simp: log_ok_def batch_ok_def container_ok_def)
  moreover have "stock_total p s' = stock_total p s
      - (if ba_product b = p then ba_quantity b else 0) + (if ba_product b = p then ba_quantity (f b) else 0)" for p
    using tbl_sum_upd [OF d b, of "\<lambda>_ b. if ba_product b = p then ba_quantity b else 0" f] f(1)
    by (simp add: stock_total_def s')
  ultimately show ?thesis
    by (auto simp: shifts_def gap_def ledger_total_def s' at_product_def)
qed

lemma shifts_update_quantity:
  assumes "rows_ok s" and "map_of (batches s) i = Some b" and "update_quantity i q s = Inr (u, s')" and "1 \<le> q"
  shows "shifts (at_product (ba_product b) (ba_quantity b - q)) s s'"
proof -
  have "s' = s\<lparr>batches := tbl_upd i (\<lambda>b. b\<lparr>ba_quantity := q\<rparr>) (batches s)\<rparr>"
    using assms(3) by (simp add: tx_iff)
  moreover have "batch_ok s (b\<lparr>ba_quantity := q\<rparr>)"
    using rows_ok_batch [OF assms(1,2)] assms(4) by (simp add: batch_ok_def)
  ultimately show ?thesis
    using shifts_update_batch [OF assms(1,2), of s' "\<lambda>b. b\<lparr>ba_quantity := q\<rparr>"] by simp
qed

lemma shifts_delete_batch:
  assumes ok: "rows_ok s" and b: "map_of (batches s) i = Some b" and run: "delete_batch i s = Inr (u, s')"
  shows "shifts (at_product (ba_product b) (ba_quantity b)) s s'"
proof -
  have d: "distinct (keys (batches s))" using ok by (simp add: rows_ok_def)
  have s': "s' = s\<lparr>batches := tbl_del (\<lambda>k _. k = i) (batches s),
     logs := tbl_map (\<lambda>_ l. lg_batch l = Some i) (\<lambda>l. l\<lparr>lg_batch := None\<rparr>) (logs s)\<rparr>"
    using run by (simp add: tx_iff)
  have logs_ok: "log_ok s' l"
    if l: "(k, l) \<in> set (tbl_map (\<lambda>_ l. lg_batch l = Some i) (\<lambda>l. l\<lparr>lg_batch := None\<rparr>) (logs s))" for k l
  proof -
    from l obtain l0 where l0: "(k, l0) \<in> set (logs s)"
      "l = (if lg_batch l0 = Some i then l0\<lparr>lg_batch := None\<rparr> else l0)" by (auto simp: set_tbl_map)
    have "log_ok s l0" using ok l0(1) by (auto simp: rows_ok_def)
    with l0(2) show ?thesis
      by (cases "lg_batch l0") (auto simp: log_ok_def s' tbl_has_del_key)
  qed
  have frame: "batch_ok s' r = batch_ok s r" for r by (rule batch_ok_frame) (simp_all add: s')
  have keys: "distinct (keys (batches s'))" "distinct (keys (logs s'))"
    using d ok by (simp_all add: s' distinct_keys_tbl_del rows_ok_def)
  have "\<forall>(k, r) \<in> set (batches s'). batch_ok s' r"
    using ok unfolding frame by (auto simp: s' set_tbl_del rows_ok_def)
  moreover have "\<forall>(k, l) \<in> set (logs s'). log_ok s' l"
    using logs_ok by (auto simp: s')
  ultimately have "rows_ok s'"
    using ok keys by (simp add: rows_ok_def s')
  moreover have "ledger_total p s' = ledger_total p s" for p
    unfolding ledger_total_def s' by (simp add: tbl_sum_map_cong)
  moreover have "stock_total p s' = stock_total p s - (if ba_product b = p then ba_quantity b else 0)" for p
    unfolding stock_total_def s' using tbl_sum_del_key [OF d b] by simp
  ultimately show ?thesis by (auto simp: shifts_def gap_def at_product_def)
qed

lemma shifts_write_log:
  assumes ok: "rows_ok s" and run: "write_log product b change reason user s = Inr (u, s')"
  shows "shifts (at_product product change) s s'"
proof -
  obtain i "is" where new: "\<not> tbl_has i (logs s)" "tbl_has product (products s)"
      "pred_option (\<lambda>i. tbl_has i (batches s)) b"
    and s': "s' = s\<lparr>idgen := is, logs := tbl_ins i \<lparr>lg_product = product, lg_batch = b,
           lg_change = change, lg_reason = reason, lg_by = user, lg_at = db_now s\<rparr> (logs s)\<rparr>"
    using run by (auto simp: tx_iff)
  have "rows_ok s'"
    using ok new distinct_keys_ins [OF _ new(1)] unfolding rows_ok_def s'
    by (auto simp: log_ok_def batch_ok_def container_ok_def)
  then show ?thesis
    by (auto simp: shifts_def s' gap_def ledger_total_def stock_total_def at_product_def)
qed

section \<open>Container primitives\<close>

text \<open>Changes to the container table that keep every live container where it was.\<close>

lemma shifts_containers:
  assumes ok: "rows_ok s" and s': "s' = s\<lparr>containers := cs\<rparr>" and d: "distinct (keys cs)"
    and live: "\<And>c n. map_of (containers s) c = Some n \<Longrightarrow> cn_destroyed n = None \<Longrightarrow>
        \<exists>n'. map_of cs c = Some n' \<and> cn_storage n' = cn_storage n \<and> cn_destroyed n' = None"
  shows "shifts (\<lambda>_. 0) s s'"
proof -
  have "container_ok s' st c" if "container_ok s st c" for st c
    using that live by (cases c) (fastforce simp: container_ok_def s')+
  then have "batch_ok s' b" if "batch_ok s b" for b
    using that by (auto simp: batch_ok_def s')
  then have "rows_ok s'"
    using ok d by (auto simp: rows_ok_def log_ok_def s')
  then show ?thesis by (simp add: shifts_def gap_def ledger_total_def stock_total_def s')
qed

text \<open>Clearing a container off some batches.\<close>

lemma shifts_clear_container:
  assumes ok: "rows_ok s"
    and s': "s' = s\<lparr>batches := tbl_map P (\<lambda>b. b\<lparr>ba_container := None\<rparr>) (batches s)\<rparr>"
  shows "shifts (\<lambda>_. 0) s s'"
proof -
  have "batch_ok s' r" if r: "(k, r) \<in> set (batches s')" for k r
  proof -
    from r obtain r0 where r0: "(k, r0) \<in> set (batches s)"
      "r = (if P k r0 then r0\<lparr>ba_container := None\<rparr> else r0)" by (auto simp: s' set_tbl_map)
    have "batch_ok s r0" using ok r0(1) by (auto simp: rows_ok_def)
    with r0(2) show ?thesis by (auto simp: batch_ok_def container_ok_def s')
  qed
  then have "rows_ok s'"
    using ok by (auto simp: rows_ok_def log_ok_def tbl_has_keys s')
  moreover have "stock_total p s' = stock_total p s" for p
    unfolding stock_total_def s' by (simp add: tbl_sum_map_cong)
  ultimately show ?thesis by (simp add: shifts_def gap_def ledger_total_def s')
qed

text \<open>Rewriting columns of batches that no invariant reads.\<close>

lemma shifts_map_batches:
  assumes ok: "rows_ok s" and s': "s' = s\<lparr>batches := tbl_map P f (batches s)\<rparr>"
    and f: "\<And>b. ba_product (f b) = ba_product b \<and> ba_location (f b) = ba_location b
        \<and> ba_quantity (f b) = ba_quantity b \<and> ba_container (f b) = ba_container b"
  shows "shifts (\<lambda>_. 0) s s'"
proof -
  have "batch_ok s' r" if r: "(k, r) \<in> set (batches s')" for k r
  proof -
    from r obtain r0 where r0: "(k, r0) \<in> set (batches s)" "r = (if P k r0 then f r0 else r0)"
      by (auto simp: s' set_tbl_map)
    have "batch_ok s r0" using ok r0(1) by (auto simp: rows_ok_def)
    then have "batch_ok s' r0" by (simp add: batch_ok_def container_ok_def s')
    with r0(2) f [of r0] show ?thesis by (simp add: batch_ok_def)
  qed
  then have "rows_ok s'"
    using ok by (auto simp: rows_ok_def log_ok_def tbl_has_keys s')
  moreover have "stock_total p s' = stock_total p s" for p
    unfolding stock_total_def s' by (simp add: tbl_sum_map_cong f)
  ultimately show ?thesis by (simp add: shifts_def gap_def ledger_total_def s')
qed

section \<open>Frames for other tables\<close>

text \<open>A change that touches none of the tables the invariant reads.\<close>

lemma shifts_other:
  assumes "rows_ok s" and "batches s' = batches s" and "logs s' = logs s" and "products s' = products s"
    and "locations s' = locations s" and "containers s' = containers s"
  shows "shifts (\<lambda>_. 0) s s'"
proof -
  have b: "batch_ok s' b = batch_ok s b" for b by (rule batch_ok_frame) fact+
  have l: "log_ok s' l = log_ok s l" for l by (rule log_ok_frame) fact+
  from b l assms show ?thesis
    by (simp add: shifts_def rows_ok_def gap_def ledger_total_def stock_total_def)
qed

text \<open>Locations that stay in their storage.\<close>

lemma shifts_locations:
  assumes ok: "rows_ok s" and s': "s' = s\<lparr>locations := ls\<rparr>" and d: "distinct (keys ls)"
    and same: "\<And>i l. map_of (locations s) i = Some l \<Longrightarrow>
        \<exists>l'. map_of ls i = Some l' \<and> lo_storage l' = lo_storage l"
  shows "shifts (\<lambda>_. 0) s s'"
proof -
  have "batch_ok s' b" if "batch_ok s b" for b
    using that same [of "ba_location b"] by (fastforce simp: batch_ok_def container_ok_def s')
  then have "rows_ok s'"
    using ok d by (auto simp: rows_ok_def log_ok_def s')
  then show ?thesis by (simp add: shifts_def gap_def ledger_total_def stock_total_def s')
qed

text \<open>Products that stay in their storage.\<close>

lemma shifts_products:
  assumes ok: "rows_ok s" and s': "s' = s\<lparr>products := ps\<rparr>" and d: "distinct (keys ps)"
    and same: "\<And>i p. map_of (products s) i = Some p \<Longrightarrow>
        \<exists>p'. map_of ps i = Some p' \<and> pr_storage p' = pr_storage p"
  shows "shifts (\<lambda>_. 0) s s'"
proof -
  have "batch_ok s' b" if "batch_ok s b" for b
    using that same [of "ba_product b"] by (fastforce simp: batch_ok_def container_ok_def s')
  moreover have "log_ok s' l" if "log_ok s l" for l
    using that same [of "lg_product l"] by (auto simp: log_ok_def tbl_has_def s')
  ultimately have "rows_ok s'"
    using ok d by (auto simp: rows_ok_def s')
  then show ?thesis by (simp add: shifts_def gap_def ledger_total_def stock_total_def s')
qed

text \<open>A loop of balanced steps is balanced.\<close>

lemma shifts_fold:
  assumes step: "\<And>x b s a s'. rows_ok s \<Longrightarrow> f x b s = Inr (a, s') \<Longrightarrow> shifts (\<lambda>_. 0) s s'"
  shows "rows_ok s \<Longrightarrow> fold_tx f xs b s = Inr (a, s') \<Longrightarrow> shifts (\<lambda>_. 0) s s'"
proof (induction xs arbitrary: b s)
  case Nil
  then show ?case by (simp add: ret_tx_iff shifts_refl)
next
  case (Cons x xs)
  then obtain b1 s1 where 1: "f x b s = Inr (b1, s1)" and 2: "fold_tx f xs b1 s1 = Inr (a, s')"
    by (auto simp: bind_tx_iff)
  note s1 = step [OF Cons.prems(1) 1]
  from shifts_trans [OF s1 Cons.IH [OF shifts_rows [OF s1] 2]] show ?case by simp
qed

section \<open>The contract of a stock operation\<close>

text \<open>
  An operation that keeps the stock invariant when it succeeds keeps it alone or in any sequence of
  transactions, whether they commit or roll back. A ledger operation promises more: from ordered
  rows, and whatever the totals, no product's gap between ledger and shelf moves.
\<close>

locale stock_operation =
  fixes run :: "'r \<Rightarrow> 'a dbtx"
  assumes commit_keeps: "stock_inv s \<Longrightarrow> run r s = Inr (a, s') \<Longrightarrow> stock_inv s'"
begin

lemma keeps_stock: "keeps stock_inv (run r)"
  by (rule keepsI) (rule commit_keeps)

lemma transaction_keeps: "stock_inv s \<Longrightarrow> stock_inv (snd (in_tx (run r) s))"
  by (rule in_tx_keeps [OF keeps_stock])

lemma transactions_keep: "stock_inv s \<Longrightarrow> stock_inv (fold (\<lambda>r s. snd (in_tx (run r) s)) rs s)"
  by (induction rs arbitrary: s) (simp_all add: transaction_keeps)

end

locale ledger_operation =
  fixes run :: "'r \<Rightarrow> 'a dbtx"
  assumes balanced: "rows_ok s \<Longrightarrow> run r s = Inr (a, s') \<Longrightarrow> shifts (\<lambda>_. 0) s s'"

sublocale ledger_operation \<subseteq> stock_operation
  by unfold_locales (blast intro: shifts_keep balanced stock_inv_rows)

end
