(* ===== verification/Containers.thy ===== *)
theory Containers
  imports Stock
begin

text \<open>
  \<open>internal/store/containers.go\<close> and the reads of batches it rests on: what a batch is held in.
  A container row is created when a batch first gets a label, renamed afterwards, typed, detached
  from a batch, or destroyed. No operation here touches a quantity, so each shifts nothing.
\<close>

section \<open>Reading a batch of a storage\<close>

text \<open>The join with \<open>products\<close> every batch query makes: a batch of another storage has no row.\<close>

definition find_batch :: "uuid \<Rightarrow> uuid \<Rightarrow> db \<Rightarrow> batch option" where
  "find_batch storage i s = (case map_of (batches s) i of
      None \<Rightarrow> None
    | Some b \<Rightarrow> (case map_of (products s) (ba_product b) of
          None \<Rightarrow> None
        | Some p \<Rightarrow> if pr_storage p = storage then Some b else None))"

lemma find_batch_Some:
  "find_batch storage i s = Some b \<longleftrightarrow> map_of (batches s) i = Some b
     \<and> (\<exists>p. map_of (products s) (ba_product b) = Some p \<and> pr_storage p = storage)"
  by (auto simp: find_batch_def split: option.splits if_splits)

text \<open>A batch with its container's label and type joined in, as a client sees it.\<close>

record batch_view =
  bv_id :: uuid
  bv_row :: batch
  bv_label :: "string option"
  bv_type :: "string option"

definition join_container :: "db \<Rightarrow> uuid \<times> batch \<Rightarrow> batch_view" where
  "join_container s = (\<lambda>(i, b).
     let c = Option.bind (ba_container b) (map_of (containers s)) in
     \<lparr>bv_id = i, bv_row = b, bv_label = map_option cn_label c, bv_type = Option.bind c cn_type\<rparr>)"

definition scan_batch :: "uuid \<Rightarrow> batch \<Rightarrow> batch_view" where
  "scan_batch i b = \<lparr>bv_id = i, bv_row = b, bv_label = None, bv_type = None\<rparr>"

definition load_batch :: "uuid \<Rightarrow> uuid \<Rightarrow> batch_view dbtx" where
  "load_batch storage i = row_tx ErrNotFound (\<lambda>s.
     map_option (\<lambda>b. join_container s (i, b)) (find_batch storage i s))"

section \<open>Container operations\<close>

datatype disposition =
  DispositionSource | DispositionTarget | DispositionBoth | DispositionNeither | DispositionDestroy
  | DispositionUnknown string

definition valid_container_disposition :: "disposition \<Rightarrow> bool" where
  "valid_container_disposition d = (case d of DispositionUnknown _ \<Rightarrow> False | _ \<Rightarrow> True)"

definition live_container :: "uuid \<Rightarrow> uuid \<Rightarrow> db \<Rightarrow> bool" where
  "live_container storage c s = pred_option (\<lambda>n. cn_storage n = storage \<and> cn_destroyed n = None)
     (map_of (containers s) c)"

definition destroy_container :: "uuid \<Rightarrow> uuid \<Rightarrow> unit dbtx" where
  "destroy_container storage c =
     bind_tx (get_tx db_now) (\<lambda>now.
     seq_tx (check_tx (\<lambda>s. tbl_has c (containers s) \<and> live_container storage c s) ErrNotFound)
    (seq_tx (mod_tx (\<lambda>s. s\<lparr>containers := tbl_map
         (\<lambda>i n. i = c \<and> cn_storage n = storage \<and> cn_destroyed n = None)
         (\<lambda>n. n\<lparr>cn_destroyed := Some now\<rparr>) (containers s)\<rparr>))
       (mod_tx (\<lambda>s. s\<lparr>batches := tbl_map (\<lambda>_ b. ba_container b = Some c)
         (\<lambda>b. b\<lparr>ba_container := None\<rparr>) (batches s)\<rparr>))))"

definition batch_container_id :: "uuid \<Rightarrow> uuid option dbtx" where
  "batch_container_id i = row_tx ErrNotFound (\<lambda>s. map_option ba_container (map_of (batches s) i))"

definition rename_container :: "uuid \<Rightarrow> uuid \<Rightarrow> (container \<Rightarrow> container) \<Rightarrow> unit dbtx" where
  "rename_container storage c f = mod_tx (\<lambda>s. s\<lparr>containers :=
     tbl_map (\<lambda>i n. i = c \<and> cn_storage n = storage) f (containers s)\<rparr>)"

definition insert_container :: "uuid \<Rightarrow> container \<Rightarrow> unit dbtx" where
  "insert_container c n =
     seq_tx (check_tx (\<lambda>s. \<not> tbl_has c (containers s) \<and> tbl_has (cn_storage n) (storage_rows s)) ErrInternal)
       (mod_tx (\<lambda>s. s\<lparr>containers := tbl_ins c n (containers s)\<rparr>))"

definition upsert_batch_container_label :: "uuid \<Rightarrow> uuid \<Rightarrow> string \<Rightarrow> unit dbtx" where
  "upsert_batch_container_label storage i label =
     bind_tx (batch_container_id i) (\<lambda>current. case current of
        Some c \<Rightarrow> rename_container storage c (\<lambda>n. n\<lparr>cn_label := label\<rparr>)
      | None \<Rightarrow>
          bind_tx new_id (\<lambda>c. bind_tx (get_tx db_now) (\<lambda>now.
            seq_tx (insert_container c \<lparr>cn_storage = storage, cn_label = label, cn_type = None,
                cn_created = now, cn_destroyed = None\<rparr>)
              (update_batch i (\<lambda>b. b\<lparr>ba_container := Some c\<rparr>)))))"

definition detach_batch_container :: "uuid \<Rightarrow> unit dbtx" where
  "detach_batch_container i = update_batch i (\<lambda>b. b\<lparr>ba_container := None\<rparr>)"

definition set_batch_container_type :: "uuid \<Rightarrow> uuid \<Rightarrow> string option \<Rightarrow> unit dbtx" where
  "set_batch_container_type storage i ty =
     bind_tx (batch_container_id i) (\<lambda>current. case current of
        None \<Rightarrow> fail_tx ErrValidation
      | Some c \<Rightarrow> rename_container storage c (\<lambda>n. n\<lparr>cn_type := ty\<rparr>))"

section \<open>What they do\<close>

lemma batch_container_id_iff [tx_iff]:
  "batch_container_id i s = Inr r \<longleftrightarrow> (\<exists>b. map_of (batches s) i = Some b \<and> r = (ba_container b, s))"
  by (auto simp: batch_container_id_def tx_iff)

lemma load_batch_iff [tx_iff]:
  "load_batch storage i s = Inr r \<longleftrightarrow>
     (\<exists>b. find_batch storage i s = Some b \<and> r = (join_container s (i, b), s))"
  by (auto simp: load_batch_def tx_iff)

lemma silent_batch_reads [silent_intros]:
  "silent (load_batch storage i)" "silent (batch_container_id i)"
  by (auto intro!: silentI simp: tx_iff)

lemma shifts_rename:
  assumes ok: "rows_ok s" and run: "rename_container storage c f s = Inr (u, s')"
    and f: "\<And>n. cn_storage (f n) = cn_storage n \<and> cn_destroyed (f n) = cn_destroyed n"
  shows "shifts (\<lambda>_. 0) s s'"
proof (rule shifts_containers [OF ok])
  show "s' = s\<lparr>containers := tbl_map (\<lambda>i n. i = c \<and> cn_storage n = storage) f (containers s)\<rparr>"
    using run by (simp add: rename_container_def tx_iff)
  show "distinct (keys (tbl_map (\<lambda>i n. i = c \<and> cn_storage n = storage) f (containers s)))"
    using ok by (simp add: rows_ok_def)
qed (auto simp: map_of_tbl_map f)

text \<open>What a container write leaves alone: everything but containers and the container column.\<close>

definition container_frame :: "db \<Rightarrow> db \<Rightarrow> bool" where
  "container_frame s s' \<longleftrightarrow> products s' = products s \<and> locations s' = locations s \<and> logs s' = logs s
     \<and> gam s' = gam s \<and> storage_rows s' = storage_rows s \<and> jobs s' = jobs s \<and> db_now s' = db_now s
     \<and> map (\<lambda>(k, b). (k, b\<lparr>ba_container := None\<rparr>)) (batches s')
       = map (\<lambda>(k, b). (k, b\<lparr>ba_container := None\<rparr>)) (batches s)"

lemma container_frame_refl [simp]: "container_frame s s"
  by (simp add: container_frame_def)

lemma container_frame_trans: "container_frame s s1 \<Longrightarrow> container_frame s1 s2 \<Longrightarrow> container_frame s s2"
  by (simp add: container_frame_def)

lemma map_of_strip:
  "map_of (map (\<lambda>(k, b). (k, b\<lparr>ba_container := None\<rparr>)) t) i
   = map_option (\<lambda>b. b\<lparr>ba_container := None\<rparr>) (map_of t i)"
  by (induction t) auto

lemma container_frame_batch:
  assumes "container_frame s s'"
  shows "map_option (\<lambda>b. b\<lparr>ba_container := None\<rparr>) (map_of (batches s') i)
       = map_option (\<lambda>b. b\<lparr>ba_container := None\<rparr>) (map_of (batches s) i)"
  using assms unfolding container_frame_def by (metis map_of_strip)

lemma strip_container_eq:
  "(b :: batch)\<lparr>ba_container := None\<rparr> = b'\<lparr>ba_container := None\<rparr> \<longleftrightarrow>
   ba_product b = ba_product b' \<and> ba_location b = ba_location b' \<and> ba_quantity b = ba_quantity b'
   \<and> ba_expiration b = ba_expiration b' \<and> ba_source b = ba_source b' \<and> ba_created b = ba_created b'"
  by (cases b; cases b') simp

lemma container_frame_find:
  assumes "container_frame s s'" and "find_batch storage i s = Some b"
  obtains b' where "find_batch storage i s' = Some b'"
    "b'\<lparr>ba_container := None\<rparr> = b\<lparr>ba_container := None\<rparr>"
proof -
  from assms(2) obtain p where b: "map_of (batches s) i = Some b"
    and p: "map_of (products s) (ba_product b) = Some p" "pr_storage p = storage"
    by (auto simp: find_batch_Some)
  from container_frame_batch [OF assms(1), of i] b obtain b'
    where b': "map_of (batches s') i = Some b'" "b'\<lparr>ba_container := None\<rparr> = b\<lparr>ba_container := None\<rparr>"
    by auto
  have "ba_product b' = ba_product b" using b'(2) by (simp add: strip_container_eq)
  with p assms(1) b'(1) have "find_batch storage i s' = Some b'"
    by (simp add: find_batch_Some container_frame_def)
  with b'(2) show ?thesis by (rule that [rotated])
qed

lemma strip_tbl_map [simp]:
  "map (\<lambda>(k, b). (k, b\<lparr>ba_container := None\<rparr>)) (tbl_map P (\<lambda>b. b\<lparr>ba_container := c\<rparr>) t)
   = map (\<lambda>(k, b). (k, b\<lparr>ba_container := None\<rparr>)) t"
  by (induction t) (auto simp: tbl_map_def)

lemma frame_destroy: "destroy_container storage c s = Inr (u, s') \<Longrightarrow> container_frame s s'"
  by (auto simp: destroy_container_def tx_iff container_frame_def)

lemma frame_rename: "rename_container storage c f s = Inr (u, s') \<Longrightarrow> container_frame s s'"
  by (auto simp: rename_container_def tx_iff container_frame_def)

lemma frame_upsert: "upsert_batch_container_label storage i l s = Inr (u, s') \<Longrightarrow> container_frame s s'"
  by (auto simp: upsert_batch_container_label_def insert_container_def tx_iff container_frame_def
      tbl_upd_def dest: frame_rename split: option.splits)
     (auto simp: rename_container_def tx_iff)

lemma frame_detach: "detach_batch_container i s = Inr (u, s') \<Longrightarrow> container_frame s s'"
  by (auto simp: detach_batch_container_def tx_iff container_frame_def tbl_upd_def)

lemma frame_set_type: "set_batch_container_type storage i ty s = Inr (u, s') \<Longrightarrow> container_frame s s'"
  by (auto simp: set_batch_container_type_def tx_iff split: option.splits dest: frame_rename)

lemmas container_frames = frame_destroy frame_upsert frame_detach frame_set_type

section \<open>The invariant\<close>

lemma shifts_detach:
  assumes ok: "rows_ok s" and run: "detach_batch_container i s = Inr (u, s')"
  shows "shifts (\<lambda>_. 0) s s'"
  by (rule shifts_clear_container [OF ok, of _ "\<lambda>k _. k = i"])
    (use run in \<open>simp add: detach_batch_container_def tx_iff tbl_upd_def\<close>)

lemma shifts_set_type:
  assumes ok: "rows_ok s" and run: "set_batch_container_type storage i ty s = Inr (u, s')"
  shows "shifts (\<lambda>_. 0) s s'"
proof -
  obtain c where "rename_container storage c (\<lambda>n. n\<lparr>cn_type := ty\<rparr>) s = Inr (u, s')"
    using run by (auto simp: set_batch_container_type_def tx_iff split: option.splits)
  from shifts_rename [OF ok this] show ?thesis by simp
qed

lemma shifts_upsert:
  assumes ok: "rows_ok s" and b: "find_batch storage i s = Some b"
    and run: "upsert_batch_container_label storage i label s = Inr (u, s')"
  shows "shifts (\<lambda>_. 0) s s'"
proof (cases "ba_container b")
  case (Some c)
  with b run have "rename_container storage c (\<lambda>n. n\<lparr>cn_label := label\<rparr>) s = Inr (u, s')"
    by (auto simp: upsert_batch_container_label_def tx_iff find_batch_Some)
  from shifts_rename [OF ok this] show ?thesis by simp
next
  case None
  with b run obtain c "is" n where new: "\<not> tbl_has c (containers s)"
    and n: "cn_storage n = storage" "cn_destroyed n = None"
    and s': "s' = s\<lparr>idgen := is, containers := tbl_ins c n (containers s),
        batches := tbl_upd i (\<lambda>b. b\<lparr>ba_container := Some c\<rparr>) (batches s)\<rparr>"
    by (force simp: upsert_batch_container_label_def insert_container_def tx_iff find_batch_Some)
  define s1 where "s1 = s\<lparr>idgen := is\<rparr>"
  define s2 where "s2 = s1\<lparr>containers := tbl_ins c n (containers s1)\<rparr>"
  have 1: "shifts (\<lambda>_. 0) s s1" by (rule shifts_other [OF ok]) (simp_all add: s1_def)
  have key: "c \<notin> set (keys (containers s))" using new by (simp add: tbl_has_keys)
  have 2: "shifts (\<lambda>_. 0) s1 s2"
  proof (rule shifts_containers [OF shifts_rows [OF 1]])
    show "s2 = s1\<lparr>containers := tbl_ins c n (containers s1)\<rparr>" by (rule s2_def)
    show "distinct (keys (tbl_ins c n (containers s1)))"
      using ok new by (simp add: s1_def distinct_keys_ins rows_ok_def del: keys_tbl_ins)
    fix d m assume "map_of (containers s1) d = Some m" and live: "cn_destroyed m = None"
    with key have "map_of (tbl_ins c n (containers s1)) d = Some m"
      by (auto simp: s1_def map_of_tbl_ins dest: map_of_Some_in_keys)
    with live show "\<exists>n'. map_of (tbl_ins c n (containers s1)) d = Some n'
        \<and> cn_storage n' = cn_storage m \<and> cn_destroyed n' = None" by blast
  qed
  have bs: "map_of (batches s2) i = Some b" using b by (simp add: s2_def s1_def find_batch_Some)
  have "batch_ok s2 b" by (rule rows_ok_batch [OF shifts_rows [OF 2] bs])
  moreover have "container_ok s2 storage (Some c)"
    using n key by (simp add: container_ok_def s2_def s1_def map_of_tbl_ins)
  ultimately have "batch_ok s2 (b\<lparr>ba_container := Some c\<rparr>)"
    using b by (auto simp: batch_ok_def find_batch_Some s2_def s1_def)
  then have "shifts (at_product (ba_product b) 0) s2 s'"
    using shifts_update_batch [OF shifts_rows [OF 2] bs, of s' "\<lambda>b. b\<lparr>ba_container := Some c\<rparr>"]
    by (simp add: s' s2_def s1_def)
  from shifts_trans [OF shifts_trans [OF 1 2] this] show ?thesis
    by (rule shifts_cong) (simp add: at_product_def)
qed

lemma shifts_destroy:
  assumes ok: "rows_ok s" and run: "destroy_container storage c s = Inr (u, s')"
  shows "shifts (\<lambda>_. 0) s s'"
proof -
  let ?P = "\<lambda>i n. i = c \<and> cn_storage n = storage \<and> cn_destroyed n = None"
  let ?cs = "tbl_map ?P (\<lambda>n. n\<lparr>cn_destroyed := Some (db_now s)\<rparr>) (containers s)"
  define s1 where "s1 = s\<lparr>batches := tbl_map (\<lambda>_ b. ba_container b = Some c)
      (\<lambda>b. b\<lparr>ba_container := None\<rparr>) (batches s)\<rparr>"
  have s': "s' = s1\<lparr>containers := ?cs\<rparr>" using run by (simp add: destroy_container_def tx_iff s1_def)
  have 1: "shifts (\<lambda>_. 0) s s1" by (rule shifts_clear_container [OF ok]) (simp add: s1_def)
  note ok1 = shifts_rows [OF 1]
  have other: "container_ok s' st (ba_container b) = container_ok s1 st (ba_container b)"
    if b: "(k, b) \<in> set (batches s1)" for k b st
  proof -
    obtain r0 where r: "b = (if ba_container r0 = Some c then r0\<lparr>ba_container := None\<rparr> else r0)"
      using b unfolding s1_def by (simp add: set_tbl_map) blast
    have "ba_container b \<noteq> Some c" by (simp add: r)
    then show ?thesis by (cases "ba_container b") (auto simp: container_ok_def s' s1_def map_of_tbl_map)
  qed
  have "\<forall>(k, b) \<in> set (batches s'). batch_ok s' b"
  proof safe
    fix k b assume "(k, b) \<in> set (batches s')"
    then have b: "(k, b) \<in> set (batches s1)" by (simp add: s')
    with ok1 have "batch_ok s1 b" by (auto simp: rows_ok_def)
    with other [OF b] show "batch_ok s' b" by (auto simp: batch_ok_def s')
  qed
  moreover have "log_ok s' l = log_ok s1 l" for l by (rule log_ok_frame) (simp_all add: s')
  moreover have "distinct (keys (containers s))" using ok by (simp add: rows_ok_def)
  ultimately have "rows_ok s'" using ok1 by (simp add: rows_ok_def s')
  then have "shifts (\<lambda>_. 0) s1 s'"
    by (simp add: shifts_def gap_def ledger_total_def stock_total_def s')
  from shifts_trans [OF 1 this] show ?thesis by simp
qed

end
