(* ===== verification/Batches.thy ===== *)
theory Batches
  imports Containers "HOL-Library.Product_Lexorder"
begin

text \<open>
  \<open>internal/store/batches.go\<close>: every write to a quantity on a shelf and the ledger row that explains
  it. The definitions follow the functions statement by statement; the lemmas compute what each
  operation shifts (always nothing: the ledger and the shelf move together), what it answers on
  every branch, and that a batch of another storage is not found by any of them.
\<close>

section \<open>Operations\<close>

definition require_product_in_storage :: "uuid \<Rightarrow> uuid \<Rightarrow> unit dbtx" where
  "require_product_in_storage storage p = check_tx (\<lambda>s.
     map_option pr_storage (map_of (products s) p) = Some storage) ErrNotFound"

text \<open>\<open>expiryRulesFor\<close> of \<open>store/expiry.go\<close>: the product's own rule, its catalog entry's, and the
  rules up the category tree, nearest first.\<close>

definition category_days :: "uuid \<Rightarrow> uuid \<Rightarrow> db \<Rightarrow> int option list" where
  "category_days storage c s =
     (if in_storage TreeCategories storage c s
      then map (\<lambda>i. Option.bind (map_of (categories s) i) cg_days)
             (ancestors (tree_row TreeCategories s) max_tree_depth c)
      else [])"

definition product_rules :: "uuid \<Rightarrow> product \<Rightarrow> db \<Rightarrow> rules" where
  "product_rules storage p s = \<lparr>ru_product_days = pr_days p,
     ru_catalog_days = Option.bind (Option.bind (pr_catalog p) (map_of (catalog s))) ct_days,
     ru_category_days = (case pr_category p of None \<Rightarrow> [] | Some c \<Rightarrow> category_days storage c s),
     ru_item_type = pr_item_type p\<rparr>"

definition expiry_rules_for :: "uuid \<Rightarrow> uuid \<Rightarrow> rules dbtx" where
  "expiry_rules_for storage product = row_tx ErrNotFound (\<lambda>s.
     case map_of (products s) product of
       None \<Rightarrow> None
     | Some p \<Rightarrow> if pr_storage p = storage then Some (product_rules storage p s) else None)"

record new_batch =
  nb_product :: uuid
  nb_location :: uuid
  nb_quantity :: int
  nb_expiration :: "date option"
  nb_source :: "expiration_source option"
  nb_reason :: "log_reason option"
  nb_created_by :: "uuid option"
  nb_label :: "string option"
  nb_type :: "string option"

definition resolved_expiration :: "uuid \<Rightarrow> new_batch \<Rightarrow> date option dbtx" where
  "resolved_expiration storage inp =
     (if nb_expiration inp = None \<and> nb_source inp \<noteq> Some ExpirationUser
      then bind_tx (expiry_rules_for storage (nb_product inp)) (\<lambda>rules.
           bind_tx (get_tx app_now) (\<lambda>t. ret_tx (date_for t (resolve rules))))
      else ret_tx (nb_expiration inp))"

definition new_row :: "new_batch \<Rightarrow> date option \<Rightarrow> instant \<Rightarrow> batch" where
  "new_row inp expiration now = \<lparr>ba_product = nb_product inp, ba_location = nb_location inp,
     ba_quantity = nb_quantity inp, ba_expiration = expiration,
     ba_source = (case nb_source inp of None \<Rightarrow> ExpirationDerived | Some x \<Rightarrow> x),
     ba_created = now, ba_container = None\<rparr>"

lemma new_row_fields [simp]:
  "ba_product (new_row inp e t) = nb_product inp" "ba_location (new_row inp e t) = nb_location inp"
  "ba_quantity (new_row inp e t) = nb_quantity inp" "ba_expiration (new_row inp e t) = e"
  "ba_created (new_row inp e t) = t" "ba_container (new_row inp e t) = None"
  by (simp_all add: new_row_def)

definition create_batch :: "uuid \<Rightarrow> new_batch \<Rightarrow> batch_view dbtx" where
  "create_batch storage inp =
     seq_tx (guard_tx (\<not> nb_quantity inp < 1) ErrValidation)
    (case nb_reason inp of
       None \<Rightarrow> fail_tx ErrValidation
     | Some reason \<Rightarrow>
         bind_tx new_id (\<lambda>i.
         seq_tx (require_product_in_storage storage (nb_product inp))
        (seq_tx (require_same_storage TreeLocations storage (nb_location inp))
        (bind_tx (resolved_expiration storage inp) (\<lambda>expiration.
         bind_tx (get_tx db_now) (\<lambda>now.
         seq_tx (insert_batch i (new_row inp expiration now))
        (seq_tx (case nb_label inp of None \<Rightarrow> ret_tx ()
                 | Some l \<Rightarrow> upsert_batch_container_label storage i l)
        (seq_tx (case nb_type inp of None \<Rightarrow> ret_tx ()
                 | Some ty \<Rightarrow> set_batch_container_type storage i (Some ty))
        (seq_tx (write_log (nb_product inp) (Some i) (nb_quantity inp) reason (nb_created_by inp))
        (seq_tx (bump_for_ledger_reason storage (nb_created_by inp) reason i)
          (if nb_label inp \<noteq> None \<or> nb_type inp \<noteq> None then load_batch storage i
           else ret_tx (scan_batch i (new_row inp expiration now)))))))))))))"

definition adjust_batch :: "uuid \<Rightarrow> uuid \<Rightarrow> int \<Rightarrow> log_reason \<Rightarrow> uuid option \<Rightarrow> uuid dbtx" where
  "adjust_batch storage i delta reason user =
     bind_tx (row_tx ErrNotFound (find_batch storage i)) (\<lambda>b.
       let updated = ba_quantity b + delta in
       if updated < 0 then fail_tx ErrValidation
       else if updated = 0 then
         seq_tx (delete_batch i)
        (seq_tx (write_log (ba_product b) None delta reason user)
        (seq_tx (bump_for_ledger_reason storage user reason i) (ret_tx (ba_product b))))
       else
         seq_tx (update_quantity i updated)
        (seq_tx (write_log (ba_product b) (Some i) delta reason user)
        (seq_tx (bump_for_ledger_reason storage user reason i) (ret_tx (ba_product b)))))"

text \<open>The exported \<open>AdjustBatch\<close>, whose reason may be empty.\<close>

definition adjust_batch_request ::
    "uuid \<Rightarrow> uuid \<Rightarrow> int \<Rightarrow> log_reason option \<Rightarrow> uuid option \<Rightarrow> unit dbtx" where
  "adjust_batch_request storage i delta reason user =
     (if delta = 0 then fail_tx ErrValidation
      else case reason of
        None \<Rightarrow> fail_tx ErrValidation
      | Some r \<Rightarrow> bind_tx (adjust_batch storage i delta r user) (\<lambda>_. ret_tx ()))"

text \<open>Nearest expiration first, no expiration last, then by creation.\<close>

definition batch_order :: "uuid \<times> batch \<Rightarrow> bool \<times> date \<times> instant" where
  "batch_order = (\<lambda>(i, b). case ba_expiration b of
      None \<Rightarrow> (True, 0, ba_created b) | Some d \<Rightarrow> (False, d, ba_created b))"

definition list_product_batches :: "uuid \<Rightarrow> uuid \<Rightarrow> batch_view list dbtx" where
  "list_product_batches storage p =
     seq_tx (require_product_in_storage storage p)
       (get_tx (\<lambda>s. map (join_container s)
          (sort_key batch_order (tbl_select (\<lambda>_ b. ba_product b = p) (batches s)))))"

record split_input =
  sp_quantity :: int
  sp_target :: uuid
  sp_disposition :: "disposition option"

definition split_source_container :: "uuid \<Rightarrow> uuid \<Rightarrow> uuid option \<Rightarrow> disposition \<Rightarrow> uuid option dbtx" where
  "split_source_container storage i container d =
     (case container of
        None \<Rightarrow> ret_tx None
      | Some c \<Rightarrow>
          seq_tx (case d of
              DispositionTarget \<Rightarrow> detach_batch_container i
            | DispositionNeither \<Rightarrow> detach_batch_container i
            | DispositionDestroy \<Rightarrow> destroy_container storage c
            | _ \<Rightarrow> ret_tx ())
           (ret_tx (case d of DispositionTarget \<Rightarrow> Some c | DispositionBoth \<Rightarrow> Some c | _ \<Rightarrow> None)))"

definition split_batch :: "uuid \<Rightarrow> uuid \<Rightarrow> split_input \<Rightarrow> uuid option \<Rightarrow> batch_view dbtx" where
  "split_batch storage i inp user =
     (let d = (case sp_disposition inp of None \<Rightarrow> DispositionSource | Some d \<Rightarrow> d); q = sp_quantity inp in
      if \<not> valid_container_disposition d then fail_tx ErrValidation
      else bind_tx new_id (\<lambda>j.
        bind_tx (row_tx ErrNotFound (find_batch storage i)) (\<lambda>src.
        seq_tx (guard_tx (\<not> (q < 1 \<or> q > ba_quantity src - 1)) ErrValidation)
       (seq_tx (require_same_storage TreeLocations storage (sp_target inp))
       (seq_tx (update_quantity i (ba_quantity src - q))
       (bind_tx (split_source_container storage i (ba_container src) d) (\<lambda>target_container.
        bind_tx (get_tx db_now) (\<lambda>now.
        seq_tx (insert_batch j \<lparr>ba_product = ba_product src, ba_location = sp_target inp,
            ba_quantity = q, ba_expiration = ba_expiration src, ba_source = ba_source src,
            ba_created = now, ba_container = target_container\<rparr>)
       (seq_tx (write_log (ba_product src) (Some i) (- q) ReasonMove user)
       (seq_tx (write_log (ba_product src) (Some j) q ReasonMove user)
         (load_batch storage j)))))))))))"

definition set_batch_quantity :: "uuid \<Rightarrow> uuid \<Rightarrow> int \<Rightarrow> uuid option \<Rightarrow> (uuid \<times> bool) dbtx" where
  "set_batch_quantity storage i quantity user =
     seq_tx (guard_tx (\<not> quantity < 0) ErrValidation)
       (bind_tx (row_tx ErrNotFound (find_batch storage i)) (\<lambda>b.
         if quantity = ba_quantity b then ret_tx (ba_product b, False)
         else seq_tx (adjust_batch storage i (quantity - ba_quantity b) ReasonAudit user)
                (ret_tx (ba_product b, True))))"

definition move_batch :: "uuid \<Rightarrow> uuid \<Rightarrow> uuid \<Rightarrow> uuid option \<Rightarrow> batch_view dbtx" where
  "move_batch storage i target user =
     bind_tx (row_tx ErrNotFound (find_batch storage i)) (\<lambda>b.
     seq_tx (require_same_storage TreeLocations storage target)
      (if ba_location b = target then load_batch storage i
       else
         seq_tx (update_batch i (\<lambda>b. b\<lparr>ba_location := target\<rparr>))
        (seq_tx (write_log (ba_product b) (Some i) (- ba_quantity b) ReasonMove user)
        (seq_tx (write_log (ba_product b) (Some i) (ba_quantity b) ReasonMove user)
          (ret_tx (scan_batch i (b\<lparr>ba_location := target\<rparr>)))))))"

record batch_patch =
  bp_quantity :: "int option"
  bp_location :: "uuid option"
  bp_set_label :: bool
  bp_label :: "string option"
  bp_set_type :: bool
  bp_type :: "string option"

definition touches_container :: "batch_patch \<Rightarrow> bool" where
  "touches_container p \<longleftrightarrow> bp_set_label p \<or> bp_set_type p"

definition update_batch_container :: "uuid \<Rightarrow> uuid \<Rightarrow> batch_patch \<Rightarrow> unit dbtx" where
  "update_batch_container storage i patch =
     when_tx (touches_container patch)
       (seq_tx (load_batch storage i)
       (seq_tx (when_tx (bp_set_label patch)
           (case bp_label patch of
              None \<Rightarrow> detach_batch_container i
            | Some l \<Rightarrow> upsert_batch_container_label storage i l))
         (when_tx (bp_set_type patch) (set_batch_container_type storage i (bp_type patch)))))"

definition update_batch_request :: "uuid \<Rightarrow> uuid \<Rightarrow> batch_patch \<Rightarrow> uuid option \<Rightarrow> batch_view option dbtx" where
  "update_batch_request storage i patch user =
     (if bp_quantity patch = None \<and> bp_location patch = None \<and> \<not> touches_container patch
      then fail_tx ErrValidation
      else if bp_quantity patch = Some 0 \<and> bp_location patch \<noteq> None then fail_tx ErrValidation
      else if bp_quantity patch = Some 0 \<and> touches_container patch then fail_tx ErrValidation
      else
        seq_tx (case bp_quantity patch of
            None \<Rightarrow> ret_tx ()
          | Some q \<Rightarrow> bind_tx (set_batch_quantity storage i q user) (\<lambda>_. ret_tx ()))
         (if bp_quantity patch = Some 0 then ret_tx None
          else
            seq_tx (update_batch_container storage i patch)
           (seq_tx (case bp_location patch of
               None \<Rightarrow> ret_tx ()
             | Some l \<Rightarrow> bind_tx (move_batch storage i l user) (\<lambda>_. ret_tx ()))
              (bind_tx (load_batch storage i) (\<lambda>v. ret_tx (Some v))))))"

section \<open>Frames\<close>

lemma core_eqD:
  "core s' = core s \<Longrightarrow> batches s' = batches s \<and> logs s' = logs s \<and> products s' = products s
     \<and> locations s' = locations s \<and> containers s' = containers s \<and> categories s' = categories s
     \<and> catalog s' = catalog s \<and> jobs s' = jobs s \<and> tombstones s' = tombstones s
     \<and> accounts s' = accounts s \<and> storage_rows s' = storage_rows s
     \<and> catalog_barcodes s' = catalog_barcodes s \<and> memberships s' = memberships s \<and> access s' = access s \<and> shopping_lists s' = shopping_lists s
     \<and> product_barcodes s' = product_barcodes s \<and> shopping_items s' = shopping_items s
     \<and> audits s' = audits s \<and> db_now s' = db_now s \<and> app_now s' = app_now s"
  by (metis core_fields)

lemma tree_row_core [simp]: "tree_row t (core s) = tree_row t s"
  by (rule ext, cases t) (simp_all add: tree_row_def)

lemma product_rules_core [simp]: "product_rules storage p (core s) = product_rules storage p s"
proof -
  have "category_days storage c (core s) = category_days storage c s" for c
    by (simp add: category_days_def in_storage_def)
  then show ?thesis by (cases "pr_category p") (simp_all add: product_rules_def)
qed

lemma require_product_iff [tx_iff]:
  "require_product_in_storage storage p s = Inr r \<longleftrightarrow>
     map_option pr_storage (map_of (products s) p) = Some storage \<and> r = ((), s)"
  by (auto simp: require_product_in_storage_def tx_iff)

lemma silent_reads [silent_intros]:
  "silent (require_product_in_storage storage p)" "silent (expiry_rules_for storage p)"
  "silent (resolved_expiration storage inp)" "silent (list_product_batches storage p)"
  by (simp_all add: require_product_in_storage_def expiry_rules_for_def resolved_expiration_def
      list_product_batches_def silent_intros)

lemma resolved_expiration_state:
  "resolved_expiration storage inp s = Inr (d, s') \<Longrightarrow> s' = s"
  by (auto simp: resolved_expiration_def expiry_rules_for_def tx_iff split: if_splits)

lemma find_batch_rows: "rows_ok s \<Longrightarrow> find_batch storage i s = Some b \<Longrightarrow>
  batch_ok s b \<and> container_ok s storage (ba_container b)"
  by (auto simp: find_batch_Some batch_ok_def dest!: rows_ok_batch)

section \<open>Adjusting\<close>

text \<open>The whole effect of a successful adjustment.\<close>

definition adjusted :: "uuid \<Rightarrow> int \<Rightarrow> log_reason \<Rightarrow> uuid option \<Rightarrow> batch \<Rightarrow> uuid \<Rightarrow> db \<Rightarrow> db \<Rightarrow> bool" where
  "adjusted i delta reason user b l s s' \<longleftrightarrow>
     (let gone = (ba_quantity b + delta = 0);
          row = \<lparr>lg_product = ba_product b, lg_batch = (if gone then None else Some i),
            lg_change = delta, lg_reason = reason, lg_by = user, lg_at = db_now s\<rparr> in
      batches s' = (if gone then tbl_del (\<lambda>k _. k = i) (batches s)
         else tbl_upd i (\<lambda>b'. b'\<lparr>ba_quantity := ba_quantity b + delta\<rparr>) (batches s))
      \<and> logs s' = tbl_ins l row (if gone
           then tbl_map (\<lambda>_ l. lg_batch l = Some i) (\<lambda>l. l\<lparr>lg_batch := None\<rparr>) (logs s) else logs s)
      \<and> products s' = products s \<and> locations s' = locations s \<and> containers s' = containers s
      \<and> jobs s' = jobs s \<and> tombstones s' = tombstones s)"

lemma adjust_effect:
  assumes "adjust_batch storage i delta reason user s = Inr (p, s')"
  obtains b l where "find_batch storage i s = Some b" "p = ba_product b" "0 \<le> ba_quantity b + delta"
    "\<not> tbl_has l (logs s)" "adjusted i delta reason user b l s s'"
proof -
  obtain b where b: "find_batch storage i s = Some b" "0 \<le> ba_quantity b + delta" and
    run: "if ba_quantity b + delta = 0
      then \<exists>s1 s2. delete_batch i s = Inr ((), s1) \<and> write_log (ba_product b) None delta reason user s1 = Inr ((), s2)
        \<and> bump_for_ledger_reason storage user reason i s2 = Inr ((), s') \<and> p = ba_product b
      else \<exists>s1 s2. update_quantity i (ba_quantity b + delta) s = Inr ((), s1)
        \<and> write_log (ba_product b) (Some i) delta reason user s1 = Inr ((), s2)
        \<and> bump_for_ledger_reason storage user reason i s2 = Inr ((), s') \<and> p = ba_product b"
    using assms by (auto simp: adjust_batch_def Let_def bind_tx_iff seq_tx_iff ret_tx_iff row_tx_iff
        fail_tx_iff split: if_splits)
  have p: "p = ba_product b" using run by (auto split: if_splits)
  show ?thesis
  proof (cases "ba_quantity b + delta = 0")
    case True
    with run obtain s1 s2 where d: "delete_batch i s = Inr ((), s1)"
      and w: "write_log (ba_product b) None delta reason user s1 = Inr ((), s2)"
      and bump: "bump_for_ledger_reason storage user reason i s2 = Inr ((), s')" by auto
    from w obtain l where l: "\<not> tbl_has l (logs s1)" "logs s2 = tbl_ins l \<lparr>lg_product = ba_product b,
        lg_batch = None, lg_change = delta, lg_reason = reason, lg_by = user, lg_at = db_now s1\<rparr> (logs s1)"
      and s2: "batches s2 = batches s1" "products s2 = products s1" "locations s2 = locations s1"
        "containers s2 = containers s1" "jobs s2 = jobs s1" "tombstones s2 = tombstones s1"
      by (auto simp: tx_iff)
    have "adjusted i delta reason user b l s s'"
      using core_eqD [OF silentD [OF silent_bump_ledger bump]] d l s2 True
      by (simp add: adjusted_def Let_def delete_batch_iff)
    moreover have "\<not> tbl_has l (logs s)" using l(1) d by (simp add: delete_batch_iff)
    ultimately show ?thesis using that b p by blast
  next
    case False
    with run obtain s1 s2 where d: "update_quantity i (ba_quantity b + delta) s = Inr ((), s1)"
      and w: "write_log (ba_product b) (Some i) delta reason user s1 = Inr ((), s2)"
      and bump: "bump_for_ledger_reason storage user reason i s2 = Inr ((), s')" by auto
    from w obtain l where l: "\<not> tbl_has l (logs s1)" "logs s2 = tbl_ins l \<lparr>lg_product = ba_product b,
        lg_batch = Some i, lg_change = delta, lg_reason = reason, lg_by = user, lg_at = db_now s1\<rparr> (logs s1)"
      and s2: "batches s2 = batches s1" "products s2 = products s1" "locations s2 = locations s1"
        "containers s2 = containers s1" "jobs s2 = jobs s1" "tombstones s2 = tombstones s1"
      by (auto simp: tx_iff)
    have "adjusted i delta reason user b l s s'"
      using core_eqD [OF silentD [OF silent_bump_ledger bump]] d l s2 False
      by (simp add: adjusted_def Let_def update_quantity_iff)
    moreover have "\<not> tbl_has l (logs s)" using l(1) d by (simp add: update_quantity_iff)
    ultimately show ?thesis using that b p by blast
  qed
qed

lemma adjust_shifts:
  assumes ok: "rows_ok s" and run: "adjust_batch storage i delta reason user s = Inr (p, s')"
  shows "shifts (\<lambda>_. 0) s s'"
proof -
  obtain b where b: "find_batch storage i s = Some b" "0 \<le> ba_quantity b + delta" and
    steps: "if ba_quantity b + delta = 0
      then \<exists>s1 s2. delete_batch i s = Inr ((), s1) \<and> write_log (ba_product b) None delta reason user s1 = Inr ((), s2)
        \<and> bump_for_ledger_reason storage user reason i s2 = Inr ((), s')
      else \<exists>s1 s2. update_quantity i (ba_quantity b + delta) s = Inr ((), s1)
        \<and> write_log (ba_product b) (Some i) delta reason user s1 = Inr ((), s2)
        \<and> bump_for_ledger_reason storage user reason i s2 = Inr ((), s')"
    using run by (auto simp: adjust_batch_def Let_def bind_tx_iff seq_tx_iff ret_tx_iff row_tx_iff
        fail_tx_iff split: if_splits)
  have row: "map_of (batches s) i = Some b" using b by (simp add: find_batch_Some)
  obtain s1 s2 x where 1: "shifts (at_product (ba_product b) (- delta)) s s1"
    and w: "write_log (ba_product b) x delta reason user s1 = Inr ((), s2)"
    and bump: "bump_for_ledger_reason storage user reason i s2 = Inr ((), s')"
  proof (cases "ba_quantity b + delta = 0")
    case True
    then have "ba_quantity b = - delta" by simp
    with True steps shifts_delete_batch [OF ok row] show ?thesis by (metis that)
  next
    case False
    with b(2) have pos: "1 \<le> ba_quantity b + delta" by simp
    from False steps obtain s1 s2 where u: "update_quantity i (ba_quantity b + delta) s = Inr ((), s1)"
      and w: "write_log (ba_product b) (Some i) delta reason user s1 = Inr ((), s2)"
        "bump_for_ledger_reason storage user reason i s2 = Inr ((), s')" by auto
    have "shifts (at_product (ba_product b) (- delta)) s s1"
      using shifts_update_quantity [OF ok row u pos] by simp
    from that [OF this w] show ?thesis .
  qed
  note 2 = shifts_write_log [OF shifts_rows [OF 1] w]
  note 3 = shifts_silent [OF silent_bump_ledger bump shifts_rows [OF 2]]
  from shifts_trans [OF shifts_trans [OF 1 2] 3] show ?thesis
    by (rule shifts_cong) (simp add: at_product_def)
qed

interpretation adjust: ledger_operation
  "\<lambda>(storage, i, delta, reason, user). adjust_batch storage i delta reason user"
  by unfold_locales (auto intro: adjust_shifts)

section \<open>Setting, moving and patching\<close>

lemma set_quantity_shifts:
  assumes ok: "rows_ok s" and run: "set_batch_quantity storage i q user s = Inr (r, s')"
  shows "shifts (\<lambda>_. 0) s s'"
  using run adjust_shifts [OF ok] shifts_refl [OF ok]
  by (auto simp: set_batch_quantity_def tx_iff split: if_splits)

lemma shifts_relocate:
  assumes ok: "rows_ok s" and b: "find_batch storage i s = Some b" and t: "in_storage TreeLocations storage l s"
    and run: "update_batch i (\<lambda>b. b\<lparr>ba_location := l\<rparr>) s = Inr (u, s')"
  shows "shifts (\<lambda>_. 0) s s'"
proof -
  have row: "map_of (batches s) i = Some b" using b by (simp add: find_batch_Some)
  have s': "s' = s\<lparr>batches := tbl_upd i (\<lambda>b. b\<lparr>ba_location := l\<rparr>) (batches s)\<rparr>"
    using run by (simp add: tx_iff)
  have "batch_ok s (b\<lparr>ba_location := l\<rparr>)"
    using rows_ok_batch [OF ok row] b t
    by (auto simp: batch_ok_def find_batch_Some in_storage_def tree_row_def)
  then show ?thesis
    using shifts_update_batch [OF ok row s'] by (simp add: shifts_def at_product_def)
qed

lemma move_shifts:
  assumes ok: "rows_ok s" and run: "move_batch storage i l user s = Inr (v, s')"
  shows "shifts (\<lambda>_. 0) s s'"
proof -
  obtain b where b: "find_batch storage i s = Some b" and l: "in_storage TreeLocations storage l s"
    and steps: "if ba_location b = l then s' = s
      else \<exists>s1 s2. update_batch i (\<lambda>b. b\<lparr>ba_location := l\<rparr>) s = Inr ((), s1)
        \<and> write_log (ba_product b) (Some i) (- ba_quantity b) ReasonMove user s1 = Inr ((), s2)
        \<and> write_log (ba_product b) (Some i) (ba_quantity b) ReasonMove user s2 = Inr ((), s')"
    using run by (auto simp: move_batch_def bind_tx_iff seq_tx_iff ret_tx_iff row_tx_iff
        require_same_storage_iff load_batch_iff split: if_splits)
  show ?thesis
  proof (cases "ba_location b = l")
    case True
    with steps shifts_refl [OF ok] show ?thesis by simp
  next
    case False
    with steps obtain s1 s2 where u: "update_batch i (\<lambda>b. b\<lparr>ba_location := l\<rparr>) s = Inr ((), s1)"
      and w1: "write_log (ba_product b) (Some i) (- ba_quantity b) ReasonMove user s1 = Inr ((), s2)"
      and w2: "write_log (ba_product b) (Some i) (ba_quantity b) ReasonMove user s2 = Inr ((), s')" by auto
    note 1 = shifts_relocate [OF ok b l u]
    note 2 = shifts_write_log [OF shifts_rows [OF 1] w1]
    note 3 = shifts_write_log [OF shifts_rows [OF 2] w2]
    from shifts_trans [OF shifts_trans [OF 1 2] 3] show ?thesis
      by (rule shifts_cong) (simp add: at_product_def)
  qed
qed

lemma shifts_container_patch:
  assumes ok: "rows_ok s" and run: "update_batch_container storage i patch s = Inr (u, s')"
  shows "shifts (\<lambda>_. 0) s s'"
proof (cases "touches_container patch")
  case False
  with run shifts_refl [OF ok] show ?thesis by (simp add: update_batch_container_def tx_iff)
next
  case True
  with run obtain b s1 where b: "find_batch storage i s = Some b"
    and label: "if bp_set_label patch then (case bp_label patch of None \<Rightarrow> detach_batch_container i
        | Some l \<Rightarrow> upsert_batch_container_label storage i l) s = Inr ((), s1) else s1 = s"
    and ty: "if bp_set_type patch then set_batch_container_type storage i (bp_type patch) s1 = Inr ((), s')
        else s' = s1"
    by (auto simp: update_batch_container_def seq_tx_iff when_tx_iff load_batch_iff split: if_splits)
  have 1: "shifts (\<lambda>_. 0) s s1"
  proof (cases "bp_set_label patch")
    case True
    with label shifts_detach [OF ok] shifts_upsert [OF ok b] show ?thesis
      by (cases "bp_label patch") auto
  next
    case False
    with label shifts_refl [OF ok] show ?thesis by simp
  qed
  have 2: "shifts (\<lambda>_. 0) s1 s'"
    using ty shifts_set_type [OF shifts_rows [OF 1]] shifts_refl [OF shifts_rows [OF 1]]
    by (cases "bp_set_type patch") auto
  from shifts_trans [OF 1 2] show ?thesis by simp
qed

lemma update_shifts:
  assumes ok: "rows_ok s" and run: "update_batch_request storage i patch user s = Inr (v, s')"
  shows "shifts (\<lambda>_. 0) s s'"
proof -
  obtain s1 where set: "case bp_quantity patch of None \<Rightarrow> s1 = s
      | Some q \<Rightarrow> \<exists>r. set_batch_quantity storage i q user s = Inr (r, s1)"
    and rest: "if bp_quantity patch = Some 0 then s' = s1
      else \<exists>s2. update_batch_container storage i patch s1 = Inr ((), s2)
        \<and> (case bp_location patch of None \<Rightarrow> s' = s2
            | Some l \<Rightarrow> \<exists>v. move_batch storage i l user s2 = Inr (v, s'))"
    using run
    by (fastforce simp: update_batch_request_def seq_tx_iff bind_tx_iff ret_tx_iff fail_tx_iff load_batch_iff
        split: if_splits option.splits)
  have 1: "shifts (\<lambda>_. 0) s s1"
    using set set_quantity_shifts [OF ok] shifts_refl [OF ok] by (auto split: option.splits)
  note ok1 = shifts_rows [OF 1]
  have "shifts (\<lambda>_. 0) s1 s'"
  proof (cases "bp_quantity patch = Some 0")
    case True
    with rest shifts_refl [OF ok1] show ?thesis by simp
  next
    case False
    with rest obtain s2 where c: "update_batch_container storage i patch s1 = Inr ((), s2)"
      and m: "case bp_location patch of None \<Rightarrow> s' = s2
            | Some l \<Rightarrow> \<exists>v. move_batch storage i l user s2 = Inr (v, s')" by auto
    note 2 = shifts_container_patch [OF ok1 c]
    have "shifts (\<lambda>_. 0) s2 s'"
      using m move_shifts [OF shifts_rows [OF 2]] shifts_refl [OF shifts_rows [OF 2]]
      by (auto split: option.splits)
    from shifts_trans [OF 2 this] show ?thesis by simp
  qed
  from shifts_trans [OF 1 this] show ?thesis by simp
qed

section \<open>Creating\<close>

lemma create_steps:
  assumes "create_batch storage inp s = Inr (v, s')"
  obtains i reason e s1 s2 s3 s4 s5 where
    "nb_reason inp = Some reason" "1 \<le> nb_quantity inp"
    "new_id s = Inr (i, s1)" "insert_batch i (new_row inp e (db_now s)) s1 = Inr ((), s2)"
    "map_option pr_storage (map_of (products s) (nb_product inp)) = Some storage"
    "in_storage TreeLocations storage (nb_location inp) s"
    "resolved_expiration storage inp s1 = Inr (e, s1)"
    "case nb_label inp of None \<Rightarrow> s3 = s2 | Some l \<Rightarrow> upsert_batch_container_label storage i l s2 = Inr ((), s3)"
    "case nb_type inp of None \<Rightarrow> s4 = s3 | Some ty \<Rightarrow> set_batch_container_type storage i (Some ty) s3 = Inr ((), s4)"
    "write_log (nb_product inp) (Some i) (nb_quantity inp) reason (nb_created_by inp) s4 = Inr ((), s5)"
    "bump_for_ledger_reason storage (nb_created_by inp) reason i s5 = Inr ((), s')"
    "if nb_label inp \<noteq> None \<or> nb_type inp \<noteq> None then load_batch storage i s' = Inr (v, s')
     else v = scan_batch i (new_row inp e (db_now s))"
proof -
  obtain reason where r: "nb_reason inp = Some reason"
    using assms by (cases "nb_reason inp") (auto simp: create_batch_def tx_iff)
  obtain i s1 e sx s2 s3 s4 s5 s6 where q: "\<not> nb_quantity inp < 1"
    and i: "new_id s = Inr (i, s1)"
    and p: "map_option pr_storage (map_of (products s1) (nb_product inp)) = Some storage"
    and l: "in_storage TreeLocations storage (nb_location inp) s1"
    and e: "resolved_expiration storage inp s1 = Inr (e, sx)"
    and ins: "insert_batch i (new_row inp e (db_now sx)) sx = Inr ((), s2)"
    and lab: "(case nb_label inp of None \<Rightarrow> ret_tx ()
        | Some l \<Rightarrow> upsert_batch_container_label storage i l) s2 = Inr ((), s3)"
    and ty: "(case nb_type inp of None \<Rightarrow> ret_tx ()
        | Some ty \<Rightarrow> set_batch_container_type storage i (Some ty)) s3 = Inr ((), s4)"
    and w: "write_log (nb_product inp) (Some i) (nb_quantity inp) reason (nb_created_by inp) s4 = Inr ((), s5)"
    and bump: "bump_for_ledger_reason storage (nb_created_by inp) reason i s5 = Inr ((), s6)"
    and out: "(if nb_label inp \<noteq> None \<or> nb_type inp \<noteq> None then load_batch storage i
        else ret_tx (scan_batch i (new_row inp e (db_now sx)))) s6 = Inr (v, s')"
    using assms r unfolding create_batch_def
    by (simp add: bind_tx_iff seq_tx_iff guard_tx_iff get_tx_iff require_product_iff
        require_same_storage_iff) blast
  have sx: "sx = s1" using resolved_expiration_state [OF e] .
  have s1: "products s1 = products s" "db_now s1 = db_now s" "locations s1 = locations s"
    using i by (auto simp: new_id_iff)
  have s': "s' = s6" using out by (auto simp: tx_iff split: if_splits)
  show ?thesis
  proof (rule that [OF r _ i])
    show "insert_batch i (new_row inp e (db_now s)) s1 = Inr ((), s2)" using ins sx s1 by simp
    show "in_storage TreeLocations storage (nb_location inp) s"
      using l s1 by (simp add: in_storage_def tree_row_def)
    show "if nb_label inp \<noteq> None \<or> nb_type inp \<noteq> None then load_batch storage i s' = Inr (v, s')
     else v = scan_batch i (new_row inp e (db_now s))"
      using out sx s1 s' by (auto simp: ret_tx_iff)
  qed (use q p lab ty w bump e sx s1 s' in \<open>auto simp: ret_tx_iff split: option.splits\<close>)
qed

lemma create_shifts:
  assumes ok: "rows_ok s" and run: "create_batch storage inp s = Inr (v, s')"
  shows "shifts (\<lambda>_. 0) s s'"
proof -
  obtain i reason e s1 s2 s3 s4 s5 where
    q: "1 \<le> nb_quantity inp" and i: "new_id s = Inr (i, s1)"
    and ins: "insert_batch i (new_row inp e (db_now s)) s1 = Inr ((), s2)"
    and p: "map_option pr_storage (map_of (products s) (nb_product inp)) = Some storage"
    and l: "in_storage TreeLocations storage (nb_location inp) s"
    and lab: "case nb_label inp of None \<Rightarrow> s3 = s2 | Some l \<Rightarrow> upsert_batch_container_label storage i l s2 = Inr ((), s3)"
    and ty: "case nb_type inp of None \<Rightarrow> s4 = s3 | Some ty \<Rightarrow> set_batch_container_type storage i (Some ty) s3 = Inr ((), s4)"
    and w: "write_log (nb_product inp) (Some i) (nb_quantity inp) reason (nb_created_by inp) s4 = Inr ((), s5)"
    and bump: "bump_for_ledger_reason storage (nb_created_by inp) reason i s5 = Inr ((), s')"
    by (rule create_steps [OF run]) blast
  let ?b = "new_row inp e (db_now s)"
  note 1 = shifts_silent [OF silent_new_id i ok]
  have s1: "products s1 = products s" "locations s1 = locations s" "batches s1 = batches s"
    using i by (auto simp: new_id_iff)
  have "batch_ok s1 ?b"
    using p l q s1 by (auto simp: batch_ok_def container_ok_def in_storage_def tree_row_def)
  note 2 = shifts_insert_batch [OF shifts_rows [OF 1] ins this]
  have "i \<notin> set (keys (batches s1))" using ins by (auto simp: insert_batch_iff tbl_has_keys)
  then have "find_batch storage i s2 = Some ?b"
    using ins p s1(1) by (auto simp: insert_batch_iff find_batch_Some map_of_tbl_ins)
  then have 3: "shifts (\<lambda>_. 0) s2 s3"
    using lab shifts_upsert [OF shifts_rows [OF 2]] shifts_refl [OF shifts_rows [OF 2]]
    by (auto split: option.splits)
  have 4: "shifts (\<lambda>_. 0) s3 s4"
    using ty shifts_set_type [OF shifts_rows [OF 3]] shifts_refl [OF shifts_rows [OF 3]]
    by (auto split: option.splits)
  note 5 = shifts_write_log [OF shifts_rows [OF 4] w]
  note 6 = shifts_silent [OF silent_bump_ledger bump shifts_rows [OF 5]]
  from shifts_trans [OF shifts_trans [OF shifts_trans [OF shifts_trans [OF shifts_trans [OF 1 2] 3] 4] 5] 6]
  show ?thesis by (rule shifts_cong) (simp add: at_product_def)
qed

section \<open>Splitting\<close>

text \<open>What each disposition leaves on the two halves.\<close>

definition source_keeps :: "disposition \<Rightarrow> bool" where
  "source_keeps d \<longleftrightarrow> d = DispositionSource \<or> d = DispositionBoth"

definition target_gets :: "disposition \<Rightarrow> bool" where
  "target_gets d \<longleftrightarrow> d = DispositionTarget \<or> d = DispositionBoth"

lemma split_source_effect:
  assumes ok: "rows_ok s" and b: "map_of (batches s) i = Some b" and c: "ba_container b = container"
    and run: "split_source_container storage i container d s = Inr (tc, s')"
    and valid: "valid_container_disposition d"
  shows "shifts (\<lambda>_. 0) s s' \<and> container_frame s s'
     \<and> tc = (if target_gets d then container else None)
     \<and> map_of (batches s') i = Some (b\<lparr>ba_container := (if source_keeps d then container else None)\<rparr>)
     \<and> (tc \<noteq> None \<longrightarrow> containers s' = containers s)"
proof (cases container)
  case None
  with run shifts_refl [OF ok] b c show ?thesis
    by (cases b) (simp add: split_source_container_def tx_iff)
next
  case (Some k)
  have same: "b\<lparr>ba_container := Some k\<rparr> = b" using c Some by simp
  show ?thesis
  proof (cases d)
    case DispositionDestroy
    with Some run have r: "destroy_container storage k s = Inr ((), s')" "tc = None"
      by (simp_all add: split_source_container_def tx_iff)
    then have "map_of (batches s') i = Some (b\<lparr>ba_container := None\<rparr>)"
      using b c Some by (auto simp: destroy_container_def tx_iff map_of_tbl_map)
    with r shifts_destroy [OF ok r(1)] frame_destroy [OF r(1)] DispositionDestroy show ?thesis
      by (simp add: target_gets_def source_keeps_def)
  next
    case DispositionTarget
    with Some run have r: "detach_batch_container i s = Inr ((), s')" "tc = Some k"
      by (simp_all add: split_source_container_def tx_iff)
    with shifts_detach [OF ok r(1)] frame_detach [OF r(1)] DispositionTarget Some b show ?thesis
      by (simp add: target_gets_def source_keeps_def detach_batch_container_def tx_iff)
  next
    case DispositionNeither
    with Some run have r: "detach_batch_container i s = Inr ((), s')" "tc = None"
      by (simp_all add: split_source_container_def tx_iff)
    with shifts_detach [OF ok r(1)] frame_detach [OF r(1)] DispositionNeither Some b show ?thesis
      by (simp add: target_gets_def source_keeps_def detach_batch_container_def tx_iff)
  next
    case DispositionSource
    with Some run shifts_refl [OF ok] b same show ?thesis
      by (simp add: split_source_container_def tx_iff target_gets_def source_keeps_def)
  next
    case DispositionBoth
    with Some run shifts_refl [OF ok] b same show ?thesis
      by (simp add: split_source_container_def tx_iff target_gets_def source_keeps_def)
  next
    case (DispositionUnknown x)
    with valid show ?thesis by (simp add: valid_container_disposition_def)
  qed
qed

abbreviation split_disposition :: "split_input \<Rightarrow> disposition" where
  "split_disposition inp \<equiv> (case sp_disposition inp of None \<Rightarrow> DispositionSource | Some d \<Rightarrow> d)"

definition split_row :: "split_input \<Rightarrow> batch \<Rightarrow> uuid option \<Rightarrow> instant \<Rightarrow> batch" where
  "split_row inp src tc now = \<lparr>ba_product = ba_product src, ba_location = sp_target inp,
     ba_quantity = sp_quantity inp, ba_expiration = ba_expiration src, ba_source = ba_source src,
     ba_created = now, ba_container = tc\<rparr>"

lemma split_steps:
  assumes "split_batch storage i inp user s = Inr (v, s')"
  obtains j src s1 s2 s3 s4 s5 tc where
    "valid_container_disposition (split_disposition inp)" "new_id s = Inr (j, s1)"
    "find_batch storage i s = Some src" "1 \<le> sp_quantity inp" "sp_quantity inp \<le> ba_quantity src - 1"
    "in_storage TreeLocations storage (sp_target inp) s"
    "update_quantity i (ba_quantity src - sp_quantity inp) s1 = Inr ((), s2)"
    "split_source_container storage i (ba_container src) (split_disposition inp) s2 = Inr (tc, s3)"
    "insert_batch j (split_row inp src tc (db_now s3)) s3 = Inr ((), s4)"
    "write_log (ba_product src) (Some i) (- sp_quantity inp) ReasonMove user s4 = Inr ((), s5)"
    "write_log (ba_product src) (Some j) (sp_quantity inp) ReasonMove user s5 = Inr ((), s')"
    "load_batch storage j s' = Inr (v, s')"
proof -
  have valid: "valid_container_disposition (split_disposition inp)"
    using assms by (auto simp: split_batch_def Let_def tx_iff split: if_splits)
  with assms obtain j src s1 s2 s3 s4 s5 s6 tc where
    "new_id s = Inr (j, s1)" "find_batch storage i s1 = Some src"
    "\<not> (sp_quantity inp < 1 \<or> sp_quantity inp > ba_quantity src - 1)"
    "in_storage TreeLocations storage (sp_target inp) s1"
    "update_quantity i (ba_quantity src - sp_quantity inp) s1 = Inr ((), s2)"
    "split_source_container storage i (ba_container src) (split_disposition inp) s2 = Inr (tc, s3)"
    "insert_batch j (split_row inp src tc (db_now s3)) s3 = Inr ((), s4)"
    "write_log (ba_product src) (Some i) (- sp_quantity inp) ReasonMove user s4 = Inr ((), s5)"
    "write_log (ba_product src) (Some j) (sp_quantity inp) ReasonMove user s5 = Inr ((), s6)"
    "load_batch storage j s6 = Inr (v, s')"
    by (simp add: split_batch_def Let_def bind_tx_iff seq_tx_iff guard_tx_iff get_tx_iff row_tx_iff
        require_same_storage_iff split_row_def) blast
  note st = this
  have "products s1 = products s" "locations s1 = locations s" "batches s1 = batches s"
    using st(1) by (auto simp: new_id_iff)
  then have "find_batch storage i s = Some src" "in_storage TreeLocations storage (sp_target inp) s"
    using st(2,4) by (simp_all add: find_batch_Some in_storage_def tree_row_def)
  moreover have "s' = s6" using st(10) by (auto simp: load_batch_iff)
  ultimately show ?thesis using that valid st by (metis not_less)
qed

lemma shifts_pay: "shifts (at_product p n) s s1 \<Longrightarrow> n = m \<Longrightarrow> shifts (at_product p m) s s1"
  by simp

lemma split_shifts:
  assumes ok: "rows_ok s" and run: "split_batch storage i inp user s = Inr (v, s')"
  shows "shifts (\<lambda>_. 0) s s'"
proof -
  obtain j src s1 s2 s3 s4 s5 tc where
    valid: "valid_container_disposition (split_disposition inp)" and j: "new_id s = Inr (j, s1)"
    and src: "find_batch storage i s = Some src" and q: "1 \<le> sp_quantity inp" "sp_quantity inp \<le> ba_quantity src - 1"
    and l: "in_storage TreeLocations storage (sp_target inp) s"
    and upd: "update_quantity i (ba_quantity src - sp_quantity inp) s1 = Inr ((), s2)"
    and con: "split_source_container storage i (ba_container src) (split_disposition inp) s2 = Inr (tc, s3)"
    and ins: "insert_batch j (split_row inp src tc (db_now s3)) s3 = Inr ((), s4)"
    and w1: "write_log (ba_product src) (Some i) (- sp_quantity inp) ReasonMove user s4 = Inr ((), s5)"
    and w2: "write_log (ba_product src) (Some j) (sp_quantity inp) ReasonMove user s5 = Inr ((), s')"
    by (rule split_steps [OF run])
  note 1 = shifts_silent [OF silent_new_id j ok]
  have s1: "map_of (batches s1) i = Some src" using src j by (auto simp: find_batch_Some new_id_iff)
  have "1 \<le> ba_quantity src - sp_quantity inp" using q by simp
  note 2 = shifts_update_quantity [OF shifts_rows [OF 1] s1 upd this]
  have s2: "map_of (batches s2) i = Some (src\<lparr>ba_quantity := ba_quantity src - sp_quantity inp\<rparr>)"
    "containers s2 = containers s"
    "products s2 = products s" "locations s2 = locations s"
    using upd s1 j by (auto simp: update_quantity_iff new_id_iff)
  have e: "shifts (\<lambda>_. 0) s2 s3" "container_frame s2 s3"
    "tc = (if target_gets (split_disposition inp) then ba_container src else None)"
    "tc \<noteq> None \<longrightarrow> containers s3 = containers s2"
    using split_source_effect [OF shifts_rows [OF 2] s2(1) _ con valid] by auto
  have cok: "container_ok s storage (ba_container src)" using find_batch_rows [OF ok src] by simp
  have c3: "container_ok s3 storage tc"
  proof (cases tc)
    case None
    then show ?thesis by (simp add: container_ok_def)
  next
    case (Some k)
    with e s2(2) have "tc = ba_container src" "containers s3 = containers s" by (auto split: if_splits)
    with cok show ?thesis by (simp add: container_ok_def)
  qed
  have s3: "products s3 = products s" "locations s3 = locations s"
    using e(2) s2 by (simp_all add: container_frame_def)
  have "batch_ok s3 (split_row inp src tc (db_now s3))"
    using src l q c3 s3 by (auto simp: batch_ok_def find_batch_Some in_storage_def tree_row_def split_row_def)
  note 4 = shifts_insert_batch [OF shifts_rows [OF e(1)] ins this]
  note 5 = shifts_write_log [OF shifts_rows [OF 4] w1]
  note 6 = shifts_write_log [OF shifts_rows [OF 5] w2]
  from shifts_trans [OF shifts_trans [OF shifts_trans [OF shifts_trans [OF shifts_trans [OF 1 2] e(1)] 4] 5] 6]
  show ?thesis by (rule shifts_cong) (simp add: at_product_def split_row_def)
qed

section \<open>The ledger contract\<close>

interpretation create: ledger_operation "\<lambda>(storage, inp). create_batch storage inp"
  by unfold_locales (auto intro: create_shifts)

interpretation split_op: ledger_operation "\<lambda>(storage, i, inp, user). split_batch storage i inp user"
  by unfold_locales (auto intro: split_shifts)

interpretation patch: ledger_operation
  "\<lambda>(storage, i, patch, user). update_batch_request storage i patch user"
  by unfold_locales (auto intro: update_shifts)

interpretation destroy: ledger_operation "\<lambda>(storage, c). destroy_container storage c"
  by unfold_locales (auto intro: shifts_destroy)

end
