(* ===== verification/BatchTheorems.thy ===== *)
theory BatchTheorems
  imports Batches
begin

text \<open>
  What the batch operations promise, on every branch: the adjustment and its delete-on-zero, the
  split of a batch in two, creation with its resolved date, the patch, the destruction of a
  container, and the answer to an id of another storage.
\<close>

section \<open>A storage with stock\<close>

text \<open>
  Storage 2 with the shelves 10 and 11 and one product, three units of which stand on shelf 10 in
  the box 30; storage 3 with a shelf of its own.
\<close>

definition demo_location :: "uuid \<Rightarrow> location" where
  "demo_location st = \<lparr>lo_storage = st, lo_parent = None, lo_name = ''Shelf'', lo_description = None,
     lo_created = 0, lo_updated = 0, lo_audited = None\<rparr>"

definition demo_product :: product where
  "demo_product = \<lparr>pr_storage = 2, pr_name = ''Milk'', pr_category = None, pr_catalog = None,
     pr_item_type = Perishable, pr_days = None, pr_min_stock = 0, pr_image = None, pr_icon = None,
     pr_created = 0, pr_updated = 0\<rparr>"

definition demo_batch :: batch where
  "demo_batch = \<lparr>ba_product = 5, ba_location = 10, ba_quantity = 3, ba_expiration = Some 40,
     ba_source = ExpirationUser, ba_created = 0, ba_container = Some 30\<rparr>"

definition demo_db :: db where
  "demo_db = empty_db\<lparr>idgen := [100, 101, 102], storage_rows := [(2, some_storage), (3, some_storage)],
     locations := [(10, demo_location 2), (11, demo_location 2), (12, demo_location 3)],
     products := [(5, demo_product)], batches := [(20, demo_batch)],
     logs := [(9, \<lparr>lg_product = 5, lg_batch = Some 20, lg_change = 3, lg_reason = ReasonPurchase,
       lg_by = None, lg_at = 0\<rparr>)],
     containers := [(30, \<lparr>cn_storage = 2, cn_label = ''Box'', cn_type = None, cn_created = 0,
       cn_destroyed = None\<rparr>)]\<rparr>"

lemmas demo_defs = demo_db_def demo_location_def demo_product_def demo_batch_def empty_db_def empty_gam_def

lemma demo_stock_inv: "stock_inv demo_db"
  by (simp add: stock_inv_def rows_ok_def batch_ok_def log_ok_def container_ok_def tbl_has_def
      ledger_total_def stock_total_def demo_defs)

lemma demo_find: "find_batch 2 20 demo_db = Some demo_batch"
  by (simp add: find_batch_Some demo_defs)

section \<open>Adjusting\<close>

text \<open>
  C2. Changing a batch by a delta, on every branch: a batch that is not in the storage is not found;
  a delta that would go below zero is refused; otherwise the ledger of the product moves by exactly
  the delta in one new row, the batch holds the sum, is deleted when the sum is zero (the ledger row
  then names no batch), every other batch is as before, and the ledger still equals the shelf.
\<close>

theorem adjust_batch_correct:
  assumes inv: "stock_inv s"
  shows "case find_batch storage i s of
      None \<Rightarrow> adjust_batch storage i delta reason user s = Inl ErrNotFound
    | Some b \<Rightarrow>
        (ba_quantity b + delta < 0 \<longrightarrow> adjust_batch storage i delta reason user s = Inl ErrValidation)
      \<and> (\<forall>p s'. adjust_batch storage i delta reason user s = Inr (p, s') \<longrightarrow>
           p = ba_product b \<and> stock_inv s'
         \<and> ledger_total p s' = ledger_total p s + delta
         \<and> length (logs s') = Suc (length (logs s))
         \<and> lg_batch (snd (last (logs s'))) = (if ba_quantity b + delta = 0 then None else Some i)
         \<and> map_of (batches s') i = (if ba_quantity b + delta = 0 then None
              else Some (b\<lparr>ba_quantity := ba_quantity b + delta\<rparr>))
         \<and> (\<forall>j. j \<noteq> i \<longrightarrow> map_of (batches s') j = map_of (batches s) j))"
proof (cases "find_batch storage i s")
  case None
  then show ?thesis by (simp add: adjust_batch_def tx_defs)
next
  case (Some b)
  then have row: "map_of (batches s) i = Some b" by (simp add: find_batch_Some)
  have d: "distinct (keys (batches s))" using inv by (simp add: stock_inv_def rows_ok_def)
  have neg: "adjust_batch storage i delta reason user s = Inl ErrValidation" if "ba_quantity b + delta < 0"
    using that Some by (simp add: adjust_batch_def tx_defs)
  have main: "p = ba_product b \<and> stock_inv s' \<and> ledger_total p s' = ledger_total p s + delta
      \<and> length (logs s') = Suc (length (logs s))
      \<and> lg_batch (snd (last (logs s'))) = (if ba_quantity b + delta = 0 then None else Some i)
      \<and> map_of (batches s') i = (if ba_quantity b + delta = 0 then None
           else Some (b\<lparr>ba_quantity := ba_quantity b + delta\<rparr>))
      \<and> (\<forall>j. j \<noteq> i \<longrightarrow> map_of (batches s') j = map_of (batches s) j)"
    if run: "adjust_batch storage i delta reason user s = Inr (p, s')" for p s'
  proof -
    obtain l where p: "p = ba_product b" and a: "adjusted i delta reason user b l s s'"
      using adjust_effect [OF run] Some by (metis option.inject)
    have inv': "stock_inv s'"
      using adjust.commit_keeps [of s "(storage, i, delta, reason, user)"] inv run by simp
    have "ledger_total p s' = ledger_total p s + delta"
      using a p by (auto simp: adjusted_def Let_def ledger_total_def tbl_sum_map_cong)
    moreover have "length (logs s') = Suc (length (logs s))"
      "lg_batch (snd (last (logs s'))) = (if ba_quantity b + delta = 0 then None else Some i)"
      using a by (auto simp: adjusted_def Let_def tbl_ins_def tbl_map_def)
    moreover have "map_of (batches s') j = (if j = i then (if ba_quantity b + delta = 0 then None
           else Some (b\<lparr>ba_quantity := ba_quantity b + delta\<rparr>)) else map_of (batches s) j)" for j
      using a row by (simp add: adjusted_def Let_def map_of_tbl_del [OF d] split: option.splits)
    ultimately show ?thesis using p inv' by simp
  qed
  from Some neg main show ?thesis by simp
qed

lemma demo_adjust: "\<exists>s'. adjust_batch 2 20 (- 3) reason None demo_db = Inr (5, s')"
  by (simp add: adjust_batch_def tx_iff demo_find Let_def bump_for_ledger_reason_def int4_def
      user_exists_def tbl_has_def demo_batch_def)
    (simp add: demo_defs map_of_tbl_map)

theorem adjust_batch_correct_witness:
  "\<exists>s'. adjust_batch 2 20 (- 3) ReasonConsumption None demo_db = Inr (5, s')
     \<and> map_of (batches s') 20 = None \<and> ledger_total 5 s' = 0"
proof -
  obtain s' where run: "adjust_batch 2 20 (- 3) ReasonConsumption None demo_db = Inr (5, s')"
    using demo_adjust by blast
  note t = adjust_batch_correct [OF demo_stock_inv, of 2 20 "- 3" ReasonConsumption None]
  have "map_of (batches s') 20 = None \<and> ledger_total 5 s' = ledger_total 5 demo_db + (- 3)"
    using t run by (simp add: demo_find demo_batch_def)
  moreover have "ledger_total 5 demo_db = 3" by (simp add: ledger_total_def demo_defs)
  ultimately show ?thesis using run by auto
qed

section \<open>Splitting\<close>

text \<open>
  C3. A split conserves the stock: it takes between one unit and all but one from the source, puts
  them on a new batch at a shelf of the same storage with the same product, expiration date and
  provenance, leaves every product's total and every other batch unchanged (a destroyed container
  is cleared off the batches that shared it), hands the container over as the disposition says, and
  keeps the ledger equal to the shelf.
\<close>

theorem split_conserves:
  assumes inv: "stock_inv s" and run: "split_batch storage i inp user s = Inr (v, s')"
  shows "stock_inv s'
    \<and> (\<forall>p. stock_total p s' = stock_total p s \<and> ledger_total p s' = ledger_total p s)
    \<and> (\<exists>src src' new. find_batch storage i s = Some src \<and> 1 \<le> sp_quantity inp
        \<and> sp_quantity inp < ba_quantity src \<and> in_storage TreeLocations storage (sp_target inp) s
        \<and> find_batch storage i s' = Some src' \<and> find_batch storage (bv_id v) s' = Some new
        \<and> \<not> tbl_has (bv_id v) (batches s) \<and> bv_row v = new
        \<and> src' = src\<lparr>ba_quantity := ba_quantity src - sp_quantity inp,
             ba_container := (if source_keeps (split_disposition inp) then ba_container src else None)\<rparr>
        \<and> ba_product new = ba_product src \<and> ba_location new = sp_target inp
        \<and> ba_quantity new = sp_quantity inp \<and> ba_expiration new = ba_expiration src
        \<and> ba_source new = ba_source src
        \<and> ba_container new = (if target_gets (split_disposition inp) then ba_container src else None)
        \<and> (\<forall>j. j \<noteq> i \<and> j \<noteq> bv_id v \<longrightarrow>
             map_option (\<lambda>b. b\<lparr>ba_container := None\<rparr>) (map_of (batches s') j)
             = map_option (\<lambda>b. b\<lparr>ba_container := None\<rparr>) (map_of (batches s) j)))"
proof -
  have ok: "rows_ok s" using inv by (rule stock_inv_rows)
  obtain j src s1 s2 s3 s4 s5 tc where
    valid: "valid_container_disposition (split_disposition inp)" and j: "new_id s = Inr (j, s1)"
    and src: "find_batch storage i s = Some src" and q: "1 \<le> sp_quantity inp" "sp_quantity inp \<le> ba_quantity src - 1"
    and l: "in_storage TreeLocations storage (sp_target inp) s"
    and upd: "update_quantity i (ba_quantity src - sp_quantity inp) s1 = Inr ((), s2)"
    and con: "split_source_container storage i (ba_container src) (split_disposition inp) s2 = Inr (tc, s3)"
    and ins: "insert_batch j (split_row inp src tc (db_now s3)) s3 = Inr ((), s4)"
    and w1: "write_log (ba_product src) (Some i) (- sp_quantity inp) ReasonMove user s4 = Inr ((), s5)"
    and w2: "write_log (ba_product src) (Some j) (sp_quantity inp) ReasonMove user s5 = Inr ((), s')"
    and v: "load_batch storage j s' = Inr (v, s')"
    by (rule split_steps [OF run])
  let ?row = "split_row inp src tc (db_now s3)"
  let ?src2 = "src\<lparr>ba_quantity := ba_quantity src - sp_quantity inp\<rparr>"
  let ?src3 = "?src2\<lparr>ba_container := (if source_keeps (split_disposition inp) then ba_container src else None)\<rparr>"
  have src1: "map_of (batches s1) i = Some src" using src j by (auto simp: find_batch_Some new_id_iff)
  have p1: "products s1 = products s" "batches s1 = batches s" "logs s1 = logs s" using j by (auto simp: new_id_iff)
  have src2: "map_of (batches s2) i = Some ?src2" using upd src1 by (simp add: update_quantity_iff)
  have ok1: "rows_ok s1" by (rule shifts_rows [OF shifts_silent [OF silent_new_id j ok]])
  have "1 \<le> ba_quantity src - sp_quantity inp" using q by simp
  note ok2 = shifts_rows [OF shifts_update_quantity [OF ok1 src1 upd this]]
  have e: "container_frame s2 s3" "tc = (if target_gets (split_disposition inp) then ba_container src else None)"
    "map_of (batches s3) i = Some ?src3"
    using split_source_effect [OF ok2 src2 _ con valid] by auto
  have s3: "products s3 = products s" "logs s3 = logs s"
    using e(1) upd p1 by (simp_all add: container_frame_def update_quantity_iff)
  have key: "j \<notin> set (keys (batches s3))" and b4: "batches s4 = tbl_ins j ?row (batches s3)"
    and l4: "logs s4 = logs s" "products s4 = products s"
    using ins s3 by (auto simp: insert_batch_iff tbl_has_keys)
  have b': "batches s' = batches s4" "products s' = products s"
    using w1 w2 l4 by (auto simp: write_log_iff)
  have led: "ledger_total p s' = ledger_total p s" for p
    using w1 w2 l4 by (auto simp: write_log_iff ledger_total_def)
  have inv': "stock_inv s'"
    using split_op.commit_keeps [of s "(storage, i, inp, user)"] inv run by simp
  have st: "stock_total p s' = stock_total p s" for p
    using led [of p] inv inv' by (simp add: stock_inv_def)
  have m: "map_of (batches s') k = (if k = j then Some ?row else map_of (batches s3) k)" for k
    using b' b4 map_of_tbl_ins [OF key] by simp
  have ij: "i \<noteq> j" using e(3) key by (auto dest: map_of_Some_in_keys)
  have find_i: "find_batch storage i s' = Some ?src3"
    using src b'(2) e(3) ij by (simp add: m find_batch_Some)
  have find_j: "find_batch storage j s' = Some ?row"
    using src b'(2) by (simp add: m find_batch_Some split_row_def)
  have vj: "bv_id v = j" "bv_row v = ?row" using v find_j by (auto simp: load_batch_iff join_container_def Let_def)
  have other: "map_option (\<lambda>b. b\<lparr>ba_container := None\<rparr>) (map_of (batches s') k)
      = map_option (\<lambda>b. b\<lparr>ba_container := None\<rparr>) (map_of (batches s) k)" if "k \<noteq> i" "k \<noteq> j" for k
    using that container_frame_batch [OF e(1), of k] upd p1 by (simp add: m update_quantity_iff)
  have fresh: "\<not> tbl_has j (batches s)"
  proof -
    have "map_of (batches s3) j = None" using key by (simp add: map_of_None_keys)
    with container_frame_batch [OF e(1), of j] upd p1 ij show ?thesis
      by (auto simp: tbl_has_def update_quantity_iff)
  qed
  show ?thesis
    using inv' st led src q l find_i find_j fresh vj other e(2)
    by (intro conjI allI exI [of _ src] exI [of _ ?src3] exI [of _ ?row]) (auto simp: split_row_def)
qed

definition demo_split :: split_input where
  "demo_split = \<lparr>sp_quantity = 1, sp_target = 11, sp_disposition = None\<rparr>"

lemma demo_split_runs: "\<exists>v s'. split_batch 2 20 demo_split None demo_db = Inr (v, s')"
proof -
  have "\<exists>s'. split_batch 2 20 demo_split None demo_db
      = Inr (\<lparr>bv_id = 100, bv_row = \<lparr>ba_product = 5, ba_location = 11, ba_quantity = 1,
          ba_expiration = Some 40, ba_source = ExpirationUser, ba_created = 0, ba_container = None\<rparr>,
          bv_label = None, bv_type = None\<rparr>, s')"
    by (simp add: split_batch_def Let_def demo_split_def valid_container_disposition_def tx_iff demo_defs
        find_batch_def in_storage_def tree_row_def split_source_container_def int4_def user_exists_def
        tbl_has_def map_of_tbl_ins join_container_def)
  then show ?thesis by blast
qed

theorem split_conserves_witness:
  "\<exists>v s'. split_batch 2 20 demo_split None demo_db = Inr (v, s') \<and> stock_total 5 s' = 3"
proof -
  obtain v s' where run: "split_batch 2 20 demo_split None demo_db = Inr (v, s')"
    using demo_split_runs by blast
  have "stock_total 5 s' = stock_total 5 demo_db"
    using split_conserves [OF demo_stock_inv run] by blast
  with run show ?thesis by (auto simp: stock_total_def demo_defs)
qed

section \<open>Creating\<close>

text \<open>
  C4. A created batch is of a product and at a shelf of the caller's storage, holds at least one
  unit, carries the given date or, when none was given and the source is not the user, the date the
  shelf-life rules resolve to, is in a fresh container exactly when a label was given, and is
  explained by one new ledger row of its quantity, so the ledger still equals the shelf.
\<close>

theorem create_batch_correct:
  assumes inv: "stock_inv s" and run: "create_batch storage inp s = Inr (v, s')"
  shows "stock_inv s' \<and> 1 \<le> nb_quantity inp \<and> nb_reason inp \<noteq> None
    \<and> map_option pr_storage (map_of (products s) (nb_product inp)) = Some storage
    \<and> in_storage TreeLocations storage (nb_location inp) s
    \<and> ledger_total (nb_product inp) s' = ledger_total (nb_product inp) s + nb_quantity inp
    \<and> stock_total (nb_product inp) s' = stock_total (nb_product inp) s + nb_quantity inp
    \<and> length (logs s') = Suc (length (logs s))
    \<and> \<not> tbl_has (bv_id v) (batches s)
    \<and> (\<exists>row. find_batch storage (bv_id v) s' = Some row
         \<and> ba_location row = nb_location inp \<and> ba_quantity row = nb_quantity inp
         \<and> ba_expiration row = (if nb_expiration inp = None \<and> nb_source inp \<noteq> Some ExpirationUser
              then Option.bind (map_of (products s) (nb_product inp))
                     (\<lambda>p. date_for (app_now s) (resolve (product_rules storage p s)))
              else nb_expiration inp)
         \<and> (ba_container row = None \<longleftrightarrow> nb_label inp = None))"
proof -
  obtain i reason e s1 s2 s3 s4 s5 where
    r: "nb_reason inp = Some reason" and q: "1 \<le> nb_quantity inp" and i: "new_id s = Inr (i, s1)"
    and ins: "insert_batch i (new_row inp e (db_now s)) s1 = Inr ((), s2)"
    and p: "map_option pr_storage (map_of (products s) (nb_product inp)) = Some storage"
    and l: "in_storage TreeLocations storage (nb_location inp) s"
    and e: "resolved_expiration storage inp s1 = Inr (e, s1)"
    and lab: "case nb_label inp of None \<Rightarrow> s3 = s2 | Some l \<Rightarrow> upsert_batch_container_label storage i l s2 = Inr ((), s3)"
    and ty: "case nb_type inp of None \<Rightarrow> s4 = s3 | Some ty \<Rightarrow> set_batch_container_type storage i (Some ty) s3 = Inr ((), s4)"
    and w: "write_log (nb_product inp) (Some i) (nb_quantity inp) reason (nb_created_by inp) s4 = Inr ((), s5)"
    and bump: "bump_for_ledger_reason storage (nb_created_by inp) reason i s5 = Inr ((), s')"
    and v: "if nb_label inp \<noteq> None \<or> nb_type inp \<noteq> None then load_batch storage i s' = Inr (v, s')
     else v = scan_batch i (new_row inp e (db_now s))"
    by (rule create_steps [OF run])
  have inv': "stock_inv s'" using create.commit_keeps [of s "(storage, inp)"] inv run by simp
  have key: "i \<notin> set (keys (batches s))" using ins i by (auto simp: insert_batch_iff new_id_iff tbl_has_keys)
  have s2: "map_of (batches s2) i = Some (new_row inp e (db_now s))" "logs s2 = logs s" "products s2 = products s"
    using ins i key by (auto simp: insert_batch_iff new_id_iff map_of_tbl_ins)
  have f: "container_frame s2 s4"
    using lab ty container_frame_trans
    by (auto split: option.splits dest: frame_upsert frame_set_type)
  have c: "map_option ba_container (map_of (batches s4) i) = Some None \<longleftrightarrow> nb_label inp = None"
    using lab ty s2(1)
    by (auto simp: upsert_batch_container_label_def set_batch_container_type_def rename_container_def
        insert_container_def tx_iff split: option.splits)
  have s': "batches s' = batches s4" "products s' = products s4"
    "ledger_total x s' = ledger_total x s4 + at_product (nb_product inp) (nb_quantity inp) x"
    "length (logs s') = Suc (length (logs s4))" for x
    using w core_eqD [OF silentD [OF silent_bump_ledger bump]]
    by (auto simp: write_log_iff ledger_total_def at_product_def)
  have s4: "logs s4 = logs s" "products s4 = products s" using f s2 by (simp_all add: container_frame_def)
  have led: "ledger_total (nb_product inp) s' = ledger_total (nb_product inp) s + nb_quantity inp"
    using s'(3) [of "nb_product inp"] s4(1) by (simp add: ledger_total_def at_product_def)
  have vid: "bv_id v = i" using v by (auto simp: load_batch_iff join_container_def scan_batch_def Let_def split: if_splits)
  obtain row where row: "map_of (batches s') i = Some row"
    "row\<lparr>ba_container := None\<rparr> = (new_row inp e (db_now s))\<lparr>ba_container := None\<rparr>"
    using container_frame_batch [OF f, of i] s2(1) s'(1) by auto
  have find: "find_batch storage i s' = Some row"
    using row p s'(2) s4(2) by (auto simp: find_batch_Some strip_container_eq)
  have date: "e = (if nb_expiration inp = None \<and> nb_source inp \<noteq> Some ExpirationUser
              then Option.bind (map_of (products s) (nb_product inp))
                     (\<lambda>p. date_for (app_now s) (resolve (product_rules storage p s)))
              else nb_expiration inp)"
  proof -
    have same: "products s1 = products s" "app_now s1 = app_now s"
      "product_rules storage pr s1 = product_rules storage pr s" for pr
      using core_eqD [OF silentD [OF silent_new_id i]] silentD [OF silent_new_id i]
      by (simp_all, metis product_rules_core)
    show ?thesis using e same
      by (auto simp: resolved_expiration_def expiry_rules_for_def tx_iff split: if_splits option.splits)
  qed
  show ?thesis
    using inv' q r p l led find date vid key inv c row s'(1,4) s4(1)
    by (auto simp: stock_inv_def tbl_has_keys strip_container_eq intro!: exI [of _ row])
qed

definition demo_new :: new_batch where
  "demo_new = \<lparr>nb_product = 5, nb_location = 11, nb_quantity = 4, nb_expiration = None, nb_source = None,
     nb_reason = Some ReasonPurchase, nb_created_by = None, nb_label = None, nb_type = None\<rparr>"

lemma demo_create_runs: "\<exists>s'. create_batch 2 demo_new demo_db
    = Inr (scan_batch 100 (new_row demo_new (Some 7) 0), s')"
  by (simp add: create_batch_def resolved_expiration_def expiry_rules_for_def Let_def demo_new_def tx_iff
      demo_defs in_storage_def tree_row_def int4_def user_exists_def tbl_has_def map_of_tbl_ins
      bump_for_ledger_reason_def product_rules_def resolve_def item_type_fallback_days_def date_for_def
      day_of_def)

theorem create_batch_correct_witness:
  "\<exists>v s'. create_batch 2 demo_new demo_db = Inr (v, s') \<and> stock_total 5 s' = 7"
proof -
  obtain s' where run: "create_batch 2 demo_new demo_db
      = Inr (scan_batch 100 (new_row demo_new (Some 7) 0), s')"
    using demo_create_runs by blast
  have "stock_total (nb_product demo_new) s' = stock_total (nb_product demo_new) demo_db + nb_quantity demo_new"
    using create_batch_correct [OF demo_stock_inv run] by blast
  with run show ?thesis by (auto simp: stock_total_def demo_new_def demo_defs)
qed

section \<open>Other storages\<close>

text \<open>A patch the guards before the transaction let through.\<close>

definition patch_admissible :: "batch_patch \<Rightarrow> bool" where
  "patch_admissible patch \<longleftrightarrow>
     (bp_quantity patch \<noteq> None \<or> bp_location patch \<noteq> None \<or> touches_container patch)
     \<and> (bp_quantity patch = Some 0 \<longrightarrow> bp_location patch = None \<and> \<not> touches_container patch)
     \<and> pred_option (\<lambda>q. 0 \<le> q) (bp_quantity patch)"

lemma find_batch_idgen [simp]: "find_batch storage i (s\<lparr>idgen := is\<rparr>) = find_batch storage i s"
  by (cases "map_of (batches s) i") (simp_all add: find_batch_def)

text \<open>
  Tenant isolation of the batch routes: an id whose product belongs to another storage is
  answered like an id that does not exist by every operation on a batch, a shelf of another storage
  is answered the same way by a move and a split, a container of another storage by its
  destruction, and none of these answers leaves anything behind.
\<close>

theorem foreign_ids_not_found:
  "(find_batch storage i s = None \<longrightarrow>
      in_tx (adjust_batch storage i delta reason user) s = (Inl ErrNotFound, s)
    \<and> in_tx (load_batch storage i) s = (Inl ErrNotFound, s)
    \<and> in_tx (move_batch storage i target user) s = (Inl ErrNotFound, s)
    \<and> (patch_admissible patch \<longrightarrow>
         in_tx (update_batch_request storage i patch user) s = (Inl ErrNotFound, s))
    \<and> (idgen s \<noteq> [] \<and> valid_container_disposition (split_disposition inp) \<longrightarrow>
         in_tx (split_batch storage i inp user) s = (Inl ErrNotFound, s)))
   \<and> (find_batch storage i s = Some b \<and> \<not> in_storage TreeLocations storage target s \<longrightarrow>
      in_tx (move_batch storage i target user) s = (Inl ErrNotFound, s))
   \<and> (pred_option (\<lambda>n. cn_storage n \<noteq> storage) (map_of (containers s) c) \<longrightarrow>
      in_tx (destroy_container storage c) s = (Inl ErrNotFound, s))"
proof (intro conjI [of "_ \<longrightarrow> _"] impI)
  assume none: "find_batch storage i s = None"
  have adj: "adjust_batch storage i d r user s = Inl ErrNotFound" for d r
    using none by (simp add: adjust_batch_def tx_defs)
  have load: "load_batch storage i s = Inl ErrNotFound"
    using none by (simp add: load_batch_def tx_defs)
  have move: "move_batch storage i l user s = Inl ErrNotFound" for l
    using none by (simp add: move_batch_def tx_defs)
  have set: "set_batch_quantity storage i q user s = Inl ErrNotFound" if "0 \<le> q" for q
    using none that by (simp add: set_batch_quantity_def tx_defs)
  have patch: "update_batch_request storage i patch user s = Inl ErrNotFound" if "patch_admissible patch"
  proof (cases "bp_quantity patch")
    case None
    with that load move show ?thesis
      by (auto simp: update_batch_request_def update_batch_container_def patch_admissible_def tx_defs
          split: option.splits)
  next
    case (Some q)
    with that set [of q] show ?thesis
      by (auto simp: update_batch_request_def patch_admissible_def tx_defs)
  qed
  have sp: "split_batch storage i inp user s = Inl ErrNotFound"
    if "idgen s \<noteq> []" "valid_container_disposition (split_disposition inp)"
    using that none by (auto simp: split_batch_def Let_def tx_defs new_id_def split: list.splits)
  show "in_tx (adjust_batch storage i delta reason user) s = (Inl ErrNotFound, s)
    \<and> in_tx (load_batch storage i) s = (Inl ErrNotFound, s)
    \<and> in_tx (move_batch storage i target user) s = (Inl ErrNotFound, s)
    \<and> (patch_admissible patch \<longrightarrow>
         in_tx (update_batch_request storage i patch user) s = (Inl ErrNotFound, s))
    \<and> (idgen s \<noteq> [] \<and> valid_container_disposition (split_disposition inp) \<longrightarrow>
         in_tx (split_batch storage i inp user) s = (Inl ErrNotFound, s))"
    using adj load move patch sp by (simp add: in_tx_def)
next
  assume "find_batch storage i s = Some b \<and> \<not> in_storage TreeLocations storage target s"
  then show "in_tx (move_batch storage i target user) s = (Inl ErrNotFound, s)"
    by (simp add: move_batch_def tx_defs require_same_storage_def in_tx_def)
next
  assume "pred_option (\<lambda>n. cn_storage n \<noteq> storage) (map_of (containers s) c)"
  then show "in_tx (destroy_container storage c) s = (Inl ErrNotFound, s)"
    by (cases "map_of (containers s) c")
      (simp_all add: destroy_container_def tx_defs tbl_has_def live_container_def in_tx_def)
qed

theorem foreign_ids_not_found_witness:
  "in_tx (adjust_batch 3 20 1 ReasonPurchase None) demo_db = (Inl ErrNotFound, demo_db)
   \<and> in_tx (move_batch 2 20 12 None) demo_db = (Inl ErrNotFound, demo_db)
   \<and> in_tx (destroy_container 3 30) demo_db = (Inl ErrNotFound, demo_db)"
proof (intro conjI)
  have none: "find_batch 3 20 demo_db = None" by (simp add: find_batch_def demo_defs)
  show "in_tx (adjust_batch 3 20 1 ReasonPurchase None) demo_db = (Inl ErrNotFound, demo_db)"
    using none foreign_ids_not_found [of 3 20 demo_db 1 ReasonPurchase None] by blast
  have "\<not> in_storage TreeLocations 2 12 demo_db" by (simp add: in_storage_def tree_row_def demo_defs)
  then show "in_tx (move_batch 2 20 12 None) demo_db = (Inl ErrNotFound, demo_db)"
    using demo_find foreign_ids_not_found [of 2 20 demo_db] by blast
  show "in_tx (destroy_container 3 30) demo_db = (Inl ErrNotFound, demo_db)"
    using foreign_ids_not_found [of 3 _ demo_db _ _ _ _ _ _ _ 30] by (simp add: demo_defs)
qed

section \<open>Setting a quantity\<close>

definition quantity_patch :: "int \<Rightarrow> batch_patch" where
  "quantity_patch q = \<lparr>bp_quantity = Some q, bp_location = None, bp_set_label = False, bp_label = None,
     bp_set_type = False, bp_type = None\<rparr>"

text \<open>
  Correcting a quantity: a negative one is refused, the current one writes nothing at all and
  returns the batch as it stands, and any other one is explained by exactly one new ledger row for
  the difference with reason audit; the batch is returned, or is gone when the new quantity is zero.
\<close>

theorem correction_writes_the_difference:
  assumes inv: "stock_inv s" and b: "find_batch storage i s = Some b"
  shows "(q < 0 \<longrightarrow> update_batch_request storage i (quantity_patch q) user s = Inl ErrValidation)
    \<and> (q = ba_quantity b \<longrightarrow>
      update_batch_request storage i (quantity_patch q) user s = Inr (Some (join_container s (i, b)), s))
    \<and> (q \<noteq> ba_quantity b \<and> update_batch_request storage i (quantity_patch q) user s = Inr (v, s') \<longrightarrow>
      (\<exists>l row. logs s' = tbl_ins l row (if q = 0
            then tbl_map (\<lambda>_ l. lg_batch l = Some i) (\<lambda>l. l\<lparr>lg_batch := None\<rparr>) (logs s) else logs s)
        \<and> lg_change row = q - ba_quantity b \<and> lg_reason row = ReasonAudit \<and> lg_product row = ba_product b
        \<and> (v = None \<longleftrightarrow> q = 0) \<and> (q = 0 \<longrightarrow> find_batch storage i s' = None)
        \<and> (q \<noteq> 0 \<longrightarrow> find_batch storage i s' = Some (b\<lparr>ba_quantity := q\<rparr>)) \<and> stock_inv s'))"
proof (intro conjI [of "_ \<longrightarrow> _"] impI)
  assume "q < 0"
  then show "update_batch_request storage i (quantity_patch q) user s = Inl ErrValidation"
    by (simp add: update_batch_request_def quantity_patch_def set_batch_quantity_def tx_defs
        touches_container_def)
next
  assume q: "q = ba_quantity b"
  have "1 \<le> ba_quantity b"
    using find_batch_rows [OF stock_inv_rows [OF inv] b] by (simp add: batch_ok_def)
  with q b show "update_batch_request storage i (quantity_patch q) user s = Inr (Some (join_container s (i, b)), s)"
    by (simp add: update_batch_request_def quantity_patch_def set_batch_quantity_def tx_defs
        touches_container_def update_batch_container_def load_batch_def)
next
  assume h: "q \<noteq> ba_quantity b \<and> update_batch_request storage i (quantity_patch q) user s = Inr (v, s')"
  then have q: "q \<noteq> ba_quantity b" and run: "update_batch_request storage i (quantity_patch q) user s = Inr (v, s')"
    by simp_all
  obtain p s1 where adj: "adjust_batch storage i (q - ba_quantity b) ReasonAudit user s = Inr (p, s1)"
    and rest: "if q = 0 then v = None \<and> s' = s1
       else \<exists>b. find_batch storage i s1 = Some b \<and> v = Some (join_container s1 (i, b)) \<and> s' = s1"
    using run q b
    by (auto simp: update_batch_request_def quantity_patch_def set_batch_quantity_def touches_container_def
        update_batch_container_def tx_iff split: if_splits)
  have s': "s' = s1" and v: "v = None \<longleftrightarrow> q = 0" using rest by (auto split: if_splits)
  obtain l where a: "adjusted i (q - ba_quantity b) ReasonAudit user b l s s1"
    using adjust_effect [OF adj] b by (metis option.inject)
  have inv': "stock_inv s'"
    using adjust.commit_keeps [of s "(storage, i, q - ba_quantity b, ReasonAudit, user)"] inv adj s' by simp
  have d: "distinct (keys (batches s))" using inv by (simp add: stock_inv_def rows_ok_def)
  have "q = 0 \<longrightarrow> find_batch storage i s1 = None" "q \<noteq> 0 \<longrightarrow> find_batch storage i s1 = Some (b\<lparr>ba_quantity := q\<rparr>)"
    using a b by (auto simp: adjusted_def Let_def find_batch_def map_of_tbl_del [OF d] split: option.splits if_splits)
  with a inv' v show "\<exists>l row. logs s' = tbl_ins l row (if q = 0
            then tbl_map (\<lambda>_ l. lg_batch l = Some i) (\<lambda>l. l\<lparr>lg_batch := None\<rparr>) (logs s) else logs s)
        \<and> lg_change row = q - ba_quantity b \<and> lg_reason row = ReasonAudit \<and> lg_product row = ba_product b
        \<and> (v = None \<longleftrightarrow> q = 0) \<and> (q = 0 \<longrightarrow> find_batch storage i s' = None)
        \<and> (q \<noteq> 0 \<longrightarrow> find_batch storage i s' = Some (b\<lparr>ba_quantity := q\<rparr>)) \<and> stock_inv s'"
    unfolding s' adjusted_def Let_def
    by (intro exI [of _ l] exI [of _ "\<lparr>lg_product = ba_product b, lg_batch = (if q = 0 then None else Some i),
      lg_change = q - ba_quantity b, lg_reason = ReasonAudit, lg_by = user, lg_at = db_now s\<rparr>"]) simp
qed

theorem correction_writes_the_difference_witness:
  "update_batch_request 2 20 (quantity_patch (- 1)) None demo_db = Inl ErrValidation
   \<and> update_batch_request 2 20 (quantity_patch 3) None demo_db = Inr (Some (join_container demo_db (20, demo_batch)), demo_db)
   \<and> (\<exists>v s'. update_batch_request 2 20 (quantity_patch 0) None demo_db = Inr (v, s') \<and> find_batch 2 20 s' = None)"
proof (intro conjI)
  note t = correction_writes_the_difference [OF demo_stock_inv demo_find]
  show "update_batch_request 2 20 (quantity_patch (- 1)) None demo_db = Inl ErrValidation"
    using t [of "- 1" None] by simp
  show "update_batch_request 2 20 (quantity_patch 3) None demo_db = Inr (Some (join_container demo_db (20, demo_batch)), demo_db)"
    using t [of 3 None] by (simp add: demo_batch_def)
  obtain p s' where run: "adjust_batch 2 20 (- 3) ReasonAudit None demo_db = Inr (p, s')"
    using demo_adjust [of ReasonAudit] by blast
  then have r: "update_batch_request 2 20 (quantity_patch 0) None demo_db = Inr (None, s')"
    by (simp add: update_batch_request_def quantity_patch_def set_batch_quantity_def touches_container_def
        tx_iff demo_find demo_batch_def)
  have "ba_quantity demo_batch \<noteq> 0" by (simp add: demo_batch_def)
  with r t [of 0 None None s'] have "find_batch 2 20 s' = None" by auto
  with r show "\<exists>v s'. update_batch_request 2 20 (quantity_patch 0) None demo_db = Inr (v, s')
      \<and> find_batch 2 20 s' = None" by blast
qed

end
