(* ===== verification/AuditTrail.thy ===== *)
theory AuditTrail
  imports Db
begin

text \<open>
  \<open>internal/store/audit.go\<close>: the append-only trail of administrative writes, the page of it an operator
  reads, newest first, and the cursor that continues a page.
\<close>

section \<open>Appending\<close>

definition write_admin_audit ::
    "uuid option \<Rightarrow> admin_action \<Rightarrow> audit_target option \<Rightarrow> audit_details \<Rightarrow> unit dbtx" where
  "write_admin_audit actor action target details =
     bind_tx new_id (\<lambda>i. bind_tx (get_tx db_now) (\<lambda>now.
     seq_tx (check_tx (\<lambda>s. \<not> tbl_has i (audits s) \<and> user_exists actor s) ErrInternal)
       (mod_tx (\<lambda>s. s\<lparr>audits := tbl_ins i \<lparr>au_actor = actor, au_action = action,
          au_target = (if target = Some (TargetText []) then None else target),
          au_details = details, au_at = now\<rparr> (audits s)\<rparr>))))"

end
