(* ===== verification/StoreExpiry.thy ===== *)
theory StoreExpiry
  imports BatchTheorems AuditTrail
begin

text \<open>
  \<open>internal/store/expiry.go\<close>: the shelf-life rules applied to stored batches. A batch whose date is
  derived follows the rules; one whose date a person set is never moved by a cascade. The definitions
  cover the recomputation for a product, for a category and for a catalog entry, and the two edits
  of a single batch.
\<close>

section \<open>Operations\<close>

definition resolve_expiry_for :: "uuid \<Rightarrow> uuid \<Rightarrow> instant \<Rightarrow> (date option \<times> rule_source) dbtx" where
  "resolve_expiry_for storage p created =
     bind_tx (expiry_rules_for storage p) (\<lambda>rules.
       ret_tx (date_for created (resolve rules), re_source (resolve rules)))"

definition load_derived_batches :: "uuid \<Rightarrow> (uuid \<times> instant) list dbtx" where
  "load_derived_batches p = get_tx (\<lambda>s. map (\<lambda>(i, b). (i, ba_created b)) (sort_key fst
     (tbl_select (\<lambda>_ b. ba_product b = p \<and> ba_source b = ExpirationDerived) (batches s))))"

definition redate_batch :: "resolution \<Rightarrow> uuid \<times> instant \<Rightarrow> nat \<Rightarrow> nat dbtx" where
  "redate_batch res d n =
     bind_tx (get_tx (\<lambda>s. length (tbl_select (\<lambda>i b. i = fst d \<and> ba_source b = ExpirationDerived) (batches s)))) (\<lambda>k.
     seq_tx (mod_tx (\<lambda>s. s\<lparr>batches := tbl_map (\<lambda>i b. i = fst d \<and> ba_source b = ExpirationDerived)
         (\<lambda>b. b\<lparr>ba_expiration := date_for (snd d) res, ba_source := ExpirationDerived\<rparr>) (batches s)\<rparr>))
       (ret_tx (n + k)))"

definition apply_derived_expiry :: "(uuid \<times> instant) list \<Rightarrow> resolution \<Rightarrow> nat dbtx" where
  "apply_derived_expiry bs res = fold_tx (redate_batch res) bs 0"

definition recompute_derived_expiry :: "uuid \<Rightarrow> uuid \<Rightarrow> nat dbtx" where
  "recompute_derived_expiry storage p =
     bind_tx (expiry_rules_for storage p) (\<lambda>rules.
     bind_tx (load_derived_batches p) (\<lambda>bs.
       apply_derived_expiry bs (resolve rules)))"

definition category_children :: "db \<Rightarrow> uuid \<Rightarrow> uuid list" where
  "category_children s i = map fst (filter (\<lambda>(_, c). cg_parent c = Some i) (categories s))"

definition products_under_category :: "uuid \<Rightarrow> uuid \<Rightarrow> db \<Rightarrow> uuid list" where
  "products_under_category storage c s =
     (let subtree = (if in_storage TreeCategories storage c s
                     then descend (category_children s) max_tree_depth [c] else []) in
      keys (tbl_select (\<lambda>_ p. pr_storage p = storage \<and> (\<exists>k \<in> set subtree. pr_category p = Some k)) (products s)))"

text \<open>
  \<open>RecomputeDerivedExpiryForCategory\<close>: one transaction per product; the first failure stops the
  loop with what the committed ones changed.
\<close>

fun recompute_products :: "uuid \<Rightarrow> uuid list \<Rightarrow> nat \<Rightarrow> db \<Rightarrow> (err option \<times> nat) \<times> db" where
  "recompute_products storage [] acc s = ((None, acc), s)"
| "recompute_products storage (p # ps) acc s =
     (case in_tx (recompute_derived_expiry storage p) s of
        (Inl e, s') \<Rightarrow> ((Some e, acc), s')
      | (Inr n, s') \<Rightarrow> recompute_products storage ps (acc + n) s')"

definition recompute_for_category :: "uuid \<Rightarrow> uuid \<Rightarrow> db \<Rightarrow> (err option \<times> nat) \<times> db" where
  "recompute_for_category storage c s = recompute_products storage (products_under_category storage c s) 0 s"

definition set_catalog_shelf_life :: "uuid \<Rightarrow> int option \<Rightarrow> unit dbtx" where
  "set_catalog_shelf_life c days =
     seq_tx (guard_tx (pred_option int4 days) ErrInternal)
    (seq_tx (check_tx (\<lambda>s. tbl_has c (catalog s)) ErrNotFound)
       (mod_tx (\<lambda>s. s\<lparr>catalog := tbl_upd c (\<lambda>e. e\<lparr>ct_days := days\<rparr>) (catalog s)\<rparr>)))"

definition catalog_followers :: "uuid \<Rightarrow> db \<Rightarrow> (uuid \<times> uuid) list" where
  "catalog_followers c s = sort (map (\<lambda>(i, p). (pr_storage p, i))
     (tbl_select (\<lambda>_ p. pr_catalog p = Some c \<and> pr_days p = None) (products s)))"

definition correct_catalog_shelf_life :: "uuid option \<Rightarrow> uuid \<Rightarrow> int option \<Rightarrow> nat dbtx" where
  "correct_catalog_shelf_life actor c days =
     seq_tx (set_catalog_shelf_life c days)
    (bind_tx (get_tx (catalog_followers c)) (\<lambda>ps.
     bind_tx (fold_tx (\<lambda>p acc. bind_tx (recompute_derived_expiry (fst p) (snd p)) (\<lambda>n.
         ret_tx (acc + n))) ps 0) (\<lambda>acc.
     seq_tx (write_admin_audit actor ActionCatalogEntryUpdated (Some (TargetId c))
           (no_details\<lparr>ad_days := days, ad_recomputed := Some (int acc)\<rparr>))
       (ret_tx acc))))"

definition require_batch_in_storage :: "uuid \<Rightarrow> uuid \<Rightarrow> unit dbtx" where
  "require_batch_in_storage storage i = check_tx (\<lambda>s. find_batch storage i s \<noteq> None) ErrNotFound"

definition set_batch_expiration :: "uuid \<Rightarrow> uuid \<Rightarrow> date option \<Rightarrow> uuid option \<Rightarrow> batch_view dbtx" where
  "set_batch_expiration storage i d user =
     seq_tx (require_batch_in_storage storage i)
    (seq_tx (update_batch i (\<lambda>b. b\<lparr>ba_expiration := d, ba_source := ExpirationUser\<rparr>))
    (bind_tx (load_batch storage i) (\<lambda>v.
     seq_tx (case user of
         None \<Rightarrow> ret_tx ()
       | Some u \<Rightarrow> record_contribution storage u ExpiryConfirmed (Some i) None)
       (ret_tx v))))"

definition reset_batch_expiration :: "uuid \<Rightarrow> uuid \<Rightarrow> batch_view dbtx" where
  "reset_batch_expiration storage i =
     bind_tx (row_tx ErrNotFound (find_batch storage i)) (\<lambda>b.
     bind_tx (expiry_rules_for storage (ba_product b)) (\<lambda>rules.
     seq_tx (update_batch i (\<lambda>b'. b'\<lparr>ba_expiration := date_for (ba_created b) (resolve rules),
         ba_source := ExpirationDerived\<rparr>))
       (load_batch storage i)))"

section \<open>What a cascade does to the batch table\<close>

definition redate :: "uuid set \<Rightarrow> resolution \<Rightarrow> batch table \<Rightarrow> batch table" where
  "redate ids res = tbl_map (\<lambda>i b. i \<in> ids \<and> ba_source b = ExpirationDerived)
     (\<lambda>b. b\<lparr>ba_expiration := date_for (ba_created b) res\<rparr>)"

lemma map_of_redate: "map_of (redate ids res t) i = map_option (\<lambda>b. if i \<in> ids \<and> ba_source b = ExpirationDerived
    then b\<lparr>ba_expiration := date_for (ba_created b) res\<rparr> else b) (map_of t i)"
  by (simp add: redate_def map_of_tbl_map)

lemma keys_redate [simp]: "keys (redate ids res t) = keys t"
  by (simp add: redate_def)

lemma redate_empty [simp]: "redate {} res t = t"
  by (induction t) (auto simp: redate_def tbl_map_def)

lemma set_redate: "(i, b) \<in> set (redate ids res t) \<longleftrightarrow> (\<exists>b0. (i, b0) \<in> set t
    \<and> b = (if i \<in> ids \<and> ba_source b0 = ExpirationDerived
        then b0\<lparr>ba_expiration := date_for (ba_created b0) res\<rparr> else b0))"
  by (simp add: redate_def set_tbl_map)

lemma redate_insert: "redate ids res (redate {i} res t) = redate (insert i ids) res t"
  by (induction t) (auto simp: redate_def tbl_map_def)

lemma expiry_rules_iff [tx_iff]:
  "expiry_rules_for storage p s = Inr r \<longleftrightarrow> (\<exists>pr. map_of (products s) p = Some pr \<and> pr_storage pr = storage
     \<and> r = (product_rules storage pr s, s))"
  by (auto simp: expiry_rules_for_def tx_iff split: option.splits if_splits)

text \<open>A batch is redated by its own creation time when the list carries that time.\<close>

definition own_times :: "(uuid \<times> instant) list \<Rightarrow> batch table \<Rightarrow> bool" where
  "own_times ds t \<longleftrightarrow> (\<forall>(i, c) \<in> set ds. \<forall>(k, b) \<in> set t. k = i \<longrightarrow> ba_created b = c)"

lemma own_times_redate: "own_times ds t \<Longrightarrow> own_times ds (redate ids res t)"
  by (fastforce simp: own_times_def set_redate split: if_splits)

lemma own_times_Cons: "own_times (d # ds) t \<Longrightarrow> own_times [d] t \<and> own_times ds t"
  by (auto simp: own_times_def)

lemma redate_one:
  assumes "own_times [d] t"
  shows "tbl_map (\<lambda>i b. i = fst d \<and> ba_source b = ExpirationDerived)
      (\<lambda>b. b\<lparr>ba_expiration := date_for (snd d) res, ba_source := ExpirationDerived\<rparr>) t = redate {fst d} res t"
  using assms
proof (induction t)
  case Nil
  then show ?case by (simp add: redate_def tbl_map_def)
next
  case (Cons x t)
  then show ?case by (cases d; cases x) (auto simp: redate_def tbl_map_def own_times_def)
qed

lemma redate_batch_iff:
  "redate_batch res d n s = Inr r \<longleftrightarrow>
     r = (n + length (tbl_select (\<lambda>i b. i = fst d \<and> ba_source b = ExpirationDerived) (batches s)),
          s\<lparr>batches := tbl_map (\<lambda>i b. i = fst d \<and> ba_source b = ExpirationDerived)
            (\<lambda>b. b\<lparr>ba_expiration := date_for (snd d) res, ba_source := ExpirationDerived\<rparr>) (batches s)\<rparr>)"
  by (auto simp: redate_batch_def bind_tx_iff seq_tx_iff get_tx_iff mod_tx_iff ret_tx_iff)

lemma apply_fold_effect:
  assumes "fold_tx (redate_batch res) ds n s = Inr (m, s')" and "own_times ds (batches s)"
  shows "s' = s\<lparr>batches := redate (set (map fst ds)) res (batches s)\<rparr>
    \<and> m = n + sum_list (map (\<lambda>d. length (tbl_select (\<lambda>i b. i = fst d \<and> ba_source b = ExpirationDerived) (batches s))) ds)"
  using assms
proof (induction ds arbitrary: n s)
  case Nil
  then show ?case by (simp add: ret_tx_iff)
next
  case (Cons d ds)
  let ?s1 = "s\<lparr>batches := redate {fst d} res (batches s)\<rparr>"
  note own = own_times_Cons [OF Cons.prems(2)]
  have f: "fold_tx (redate_batch res) ds
      (n + length (tbl_select (\<lambda>i b. i = fst d \<and> ba_source b = ExpirationDerived) (batches s))) ?s1 = Inr (m, s')"
    using Cons.prems(1) own redate_one [of d "batches s" res]
    by (simp add: bind_tx_iff redate_batch_iff)
  have "own_times ds (batches ?s1)" using own own_times_redate by simp
  note ih = Cons.IH [OF f this]
  have "length (tbl_select (\<lambda>i b. i = k \<and> ba_source b = ExpirationDerived) (redate ids res t))
      = length (tbl_select (\<lambda>i b. i = k \<and> ba_source b = ExpirationDerived) t)" for k ids t
    by (induction t) (auto simp: tbl_select_def redate_def tbl_map_def if_distrib [of ba_source] split: if_splits)
  with ih show ?case by (simp add: redate_insert)
qed

text \<open>The derived batches of a product.\<close>

definition derived_of :: "uuid \<Rightarrow> batch table \<Rightarrow> uuid set" where
  "derived_of p t = set (keys (tbl_select (\<lambda>_ b. ba_product b = p \<and> ba_source b = ExpirationDerived) t))"

lemma derived_of_iff:
  "i \<in> derived_of p t \<longleftrightarrow> (\<exists>b. (i, b) \<in> set t \<and> ba_product b = p \<and> ba_source b = ExpirationDerived)"
  by (force simp: derived_of_def tbl_select_def)

lemma derived_of_map_of:
  "distinct (keys t) \<Longrightarrow> map_of t i = Some b \<Longrightarrow>
     i \<in> derived_of p t \<longleftrightarrow> ba_product b = p \<and> ba_source b = ExpirationDerived"
  by (metis derived_of_iff in_table_map_of option.inject)

lemma select_key_length:
  assumes "distinct (keys t)" and "map_of t k = Some b"
  shows "length (tbl_select (\<lambda>i b. i = k \<and> P b) t) = (if P b then 1 else 0)"
  using assms
proof (induction t)
  case (Cons x t)
  obtain i r where x: "x = (i, r)" by (cases x)
  have none: "tbl_select (\<lambda>i b. i = k \<and> P b) t = []" if "k \<notin> set (keys t)"
    using that by (force simp: tbl_select_def filter_empty_conv)
  from Cons x none show ?case by (cases "i = k") (auto simp: tbl_select_def)
qed simp

lemma load_derived_effect:
  assumes d: "distinct (keys (batches s))" and run: "load_derived_batches p s = Inr (ds, s')"
  shows "s' = s" "set (map fst ds) = derived_of p (batches s)" "own_times ds (batches s)"
    "length ds = card (derived_of p (batches s))"
    "\<And>i c. (i, c) \<in> set ds \<Longrightarrow> \<exists>b. map_of (batches s) i = Some b \<and> ba_source b = ExpirationDerived"
proof -
  let ?sel = "tbl_select (\<lambda>_ b. ba_product b = p \<and> ba_source b = ExpirationDerived) (batches s)"
  have ds: "s' = s" "ds = map (\<lambda>(i, b). (i, ba_created b)) (sort_key fst ?sel)"
    using run by (simp_all add: load_derived_batches_def get_tx_iff)
  show "s' = s" by (rule ds)
  show ids: "set (map fst ds) = derived_of p (batches s)"
    by (force simp: ds derived_of_def)
  have mem: "\<exists>b. map_of (batches s) i = Some b \<and> ba_source b = ExpirationDerived \<and> c = ba_created b"
    if "(i, c) \<in> set ds" for i c
  proof -
    from that obtain b where "(i, b) \<in> set (batches s)" "ba_source b = ExpirationDerived" "c = ba_created b"
      by (auto simp: ds tbl_select_def)
    with in_table_map_of [OF d] show ?thesis by blast
  qed
  then show "\<And>i c. (i, c) \<in> set ds \<Longrightarrow> \<exists>b. map_of (batches s) i = Some b \<and> ba_source b = ExpirationDerived"
    by blast
  show "own_times ds (batches s)"
    unfolding own_times_def
  proof (intro ballI, clarify)
    fix i c k b assume i: "(i, c) \<in> set ds" and k: "(i, b) \<in> set (batches s)"
    from k d have "map_of (batches s) i = Some b" by simp
    with mem [OF i] show "ba_created b = c" by auto
  qed
  have "distinct (keys ?sel)" using d by (simp add: tbl_select_def distinct_map_filter)
  from distinct_card [OF this] have "card (derived_of p (batches s)) = length ?sel"
    unfolding derived_of_def by simp
  then show "length ds = card (derived_of p (batches s))" by (simp add: ds)
qed

lemma recompute_effect:
  assumes d: "distinct (keys (batches s))" and run: "recompute_derived_expiry storage p s = Inr (n, s')"
  obtains pr where "map_of (products s) p = Some pr" "pr_storage pr = storage"
    "s' = s\<lparr>batches := redate (derived_of p (batches s)) (resolve (product_rules storage pr s)) (batches s)\<rparr>"
    "n = card (derived_of p (batches s))"
proof -
  obtain pr ds s1 where pr: "map_of (products s) p = Some pr" "pr_storage pr = storage"
    and ds1: "load_derived_batches p s = Inr (ds, s1)"
    and f1: "fold_tx (redate_batch (resolve (product_rules storage pr s))) ds 0 s1 = Inr (n, s')"
    using run
    by (auto simp: recompute_derived_expiry_def apply_derived_expiry_def bind_tx_iff expiry_rules_iff)
  have "s1 = s" by (rule load_derived_effect(1) [OF d ds1])
  with ds1 f1 have ds: "load_derived_batches p s = Inr (ds, s)"
    and f: "fold_tx (redate_batch (resolve (product_rules storage pr s))) ds 0 s = Inr (n, s')" by simp_all
  note l = load_derived_effect [OF d ds]
  note e = apply_fold_effect [OF f l(3)]
  have one: "length (tbl_select (\<lambda>i b. i = fst x \<and> ba_source b = ExpirationDerived) (batches s)) = 1"
    if x: "x \<in> set ds" for x
  proof -
    have "(fst x, snd x) \<in> set ds" using x by simp
    from l(5) [OF this] obtain b where "map_of (batches s) (fst x) = Some b" "ba_source b = ExpirationDerived"
      by blast
    with select_key_length [OF d this(1), of "\<lambda>b. ba_source b = ExpirationDerived"] show ?thesis by simp
  qed
  then have ones: "map (\<lambda>d. length (tbl_select (\<lambda>i b. i = fst d \<and> ba_source b = ExpirationDerived) (batches s))) ds
      = map (\<lambda>_. 1) ds" by (intro map_cong) simp_all
  have "n = card (derived_of p (batches s))" using e l(4) by (simp add: ones sum_list_replicate map_replicate_const)
  with e l(2) pr show ?thesis by (intro that) simp_all
qed

lemma recompute_shifts:
  assumes ok: "rows_ok s" and run: "recompute_derived_expiry storage p s = Inr (n, s')"
  shows "shifts (\<lambda>_. 0) s s'"
proof -
  have d: "distinct (keys (batches s))" using ok by (simp add: rows_ok_def)
  obtain ids res where "s' = s\<lparr>batches := redate ids res (batches s)\<rparr>" by (rule recompute_effect [OF d run])
  then have "s' = s\<lparr>batches := tbl_map (\<lambda>i b. i \<in> ids \<and> ba_source b = ExpirationDerived)
     (\<lambda>b. b\<lparr>ba_expiration := date_for (ba_created b) res\<rparr>) (batches s)\<rparr>" by (simp add: redate_def)
  from shifts_map_batches [OF ok this] show ?thesis by simp
qed

section \<open>The contract of a cascade\<close>

text \<open>
  A cascade may move derived dates and nothing a person decided. Stated once for any family of
  cascades, it carries over to every sequence of them.
\<close>

locale date_cascade =
  fixes run :: "'r \<Rightarrow> db \<Rightarrow> db"
  assumes same_keys: "distinct (keys (batches s)) \<Longrightarrow> keys (batches (run r s)) = keys (batches s)"
    and sticky: "distinct (keys (batches s)) \<Longrightarrow> map_of (batches s) i = Some b \<Longrightarrow>
      ba_source b = ExpirationUser \<Longrightarrow> map_of (batches (run r s)) i = Some b"
begin

lemma sticky_all:
  "distinct (keys (batches s)) \<Longrightarrow> map_of (batches s) i = Some b \<Longrightarrow> ba_source b = ExpirationUser \<Longrightarrow>
   map_of (batches (fold run rs s)) i = Some b"
proof (induction rs arbitrary: s)
  case (Cons r rs)
  then have "map_of (batches (run r s)) i = Some b" by (blast intro: sticky)
  moreover have "distinct (keys (batches (run r s)))"
    using same_keys [OF Cons.prems(1)] Cons.prems(1) by metis
  ultimately show ?case using Cons.IH Cons.prems(3) by (simp del: distinct_map)
qed simp

end

datatype cascade =
    ProductCascade uuid uuid | CategoryCascade uuid uuid | CatalogCascade "uuid option" uuid "int option"

definition run_cascade :: "cascade \<Rightarrow> db \<Rightarrow> db" where
  "run_cascade c s = (case c of
      ProductCascade storage p \<Rightarrow> snd (in_tx (recompute_derived_expiry storage p) s)
    | CategoryCascade storage k \<Rightarrow> snd (recompute_for_category storage k s)
    | CatalogCascade actor k days \<Rightarrow> snd (in_tx (correct_catalog_shelf_life actor k days) s))"

text \<open>Batches that agree up to the dates of derived ones.\<close>

definition only_derived :: "db \<Rightarrow> db \<Rightarrow> bool" where
  "only_derived s s' \<longleftrightarrow> keys (batches s') = keys (batches s)
     \<and> (\<forall>i b. map_of (batches s) i = Some b \<longrightarrow> (\<exists>d. map_of (batches s') i =
         Some (if ba_source b = ExpirationDerived then b\<lparr>ba_expiration := d\<rparr> else b)))"

lemma only_derived_refl: "batches s' = batches s \<Longrightarrow> only_derived s s'"
proof -
  assume "batches s' = batches s"
  moreover have "\<exists>d. Some b = Some (if ba_source b = ExpirationDerived then b\<lparr>ba_expiration := d\<rparr> else b)"
    for b :: batch
    by (rule exI [of _ "ba_expiration b"]) simp
  ultimately show ?thesis by (simp add: only_derived_def)
qed

lemma only_derived_trans: "only_derived s s1 \<Longrightarrow> only_derived s1 s2 \<Longrightarrow> only_derived s s2"
proof -
  assume h: "only_derived s s1" "only_derived s1 s2"
  have "\<exists>d. map_of (batches s2) i = Some (if ba_source b = ExpirationDerived then b\<lparr>ba_expiration := d\<rparr> else b)"
    if b: "map_of (batches s) i = Some b" for i b
  proof -
    obtain d where 1: "map_of (batches s1) i = Some (if ba_source b = ExpirationDerived then b\<lparr>ba_expiration := d\<rparr> else b)"
      using h(1) b unfolding only_derived_def by blast
    show ?thesis
    proof (cases "ba_source b = ExpirationDerived")
      case True
      with 1 have "map_of (batches s1) i = Some (b\<lparr>ba_expiration := d\<rparr>)" by simp
      with h(2) obtain e where "map_of (batches s2) i = Some (if ba_source (b\<lparr>ba_expiration := d\<rparr>) = ExpirationDerived
          then b\<lparr>ba_expiration := d, ba_expiration := e\<rparr> else b\<lparr>ba_expiration := d\<rparr>)"
        unfolding only_derived_def by blast
      with True show ?thesis by (intro exI [of _ e]) simp
    next
      case False
      with 1 have "map_of (batches s1) i = Some b" by simp
      with h(2) False show ?thesis unfolding only_derived_def by metis
    qed
  qed
  with h show ?thesis by (simp add: only_derived_def)
qed

lemma recompute_only_derived:
  assumes d: "distinct (keys (batches s))" and run: "recompute_derived_expiry storage p s = Inr (n, s')"
  shows "only_derived s s'"
proof -
  obtain pr where "s' = s\<lparr>batches := redate (derived_of p (batches s)) (resolve (product_rules storage pr s)) (batches s)\<rparr>"
    by (rule recompute_effect [OF d run])
  then have s': "batches s' = redate (derived_of p (batches s)) (resolve (product_rules storage pr s)) (batches s)"
    by simp
  have "\<exists>e. map_of (redate ids res t) i = Some (if ba_source b = ExpirationDerived then b\<lparr>ba_expiration := e\<rparr> else b)"
    if "map_of t i = Some b" for i ids res b and t :: "batch table"
  proof (cases "i \<in> ids")
    case True
    with that show ?thesis
      by (intro exI [of _ "date_for (ba_created b) res"]) (simp add: map_of_redate)
  next
    case False
    with that show ?thesis by (intro exI [of _ "ba_expiration b"]) (simp add: map_of_redate)
  qed
  then show ?thesis unfolding only_derived_def s' by simp
qed

lemma only_derived_keys: "only_derived s s' \<Longrightarrow> keys (batches s') = keys (batches s)"
  by (simp add: only_derived_def)

lemma recompute_products_only_derived:
  "distinct (keys (batches s)) \<Longrightarrow> only_derived s (snd (recompute_products storage ps n s))"
proof (induction ps arbitrary: n s)
  case Nil
  then show ?case by (simp add: only_derived_refl)
next
  case (Cons p ps)
  show ?case
  proof (cases "recompute_derived_expiry storage p s")
    case (Inl e)
    then show ?thesis by (simp add: in_tx_def only_derived_refl)
  next
    case (Inr r)
    obtain k s1 where r: "r = (k, s1)" by (cases r)
    have 1: "only_derived s s1" using recompute_only_derived Cons.prems Inr r by simp
    have "distinct (keys (batches s1))" using only_derived_keys [OF 1] Cons.prems by metis
    from only_derived_trans [OF 1 Cons.IH [OF this]] show ?thesis using Inr r by (simp add: in_tx_def)
  qed
qed

lemma fold_only_derived:
  assumes "fold_tx (\<lambda>p acc. bind_tx (recompute_derived_expiry (fst p) (snd p)) (\<lambda>n. ret_tx (acc + n))) ps a s = Inr (m, s')"
    and "distinct (keys (batches s))"
  shows "only_derived s s'"
  using assms
proof (induction ps arbitrary: a s)
  case Nil
  then show ?case by (simp add: ret_tx_iff only_derived_refl)
next
  case (Cons p ps)
  then obtain n s1 where 1: "recompute_derived_expiry (fst p) (snd p) s = Inr (n, s1)"
    and 2: "fold_tx (\<lambda>p acc. bind_tx (recompute_derived_expiry (fst p) (snd p)) (\<lambda>n. ret_tx (acc + n))) ps (a + n) s1 = Inr (m, s')"
    by (auto simp: bind_tx_iff ret_tx_iff)
  note o1 = recompute_only_derived [OF Cons.prems(2) 1]
  have "distinct (keys (batches s1))" using only_derived_keys [OF o1] Cons.prems(2) by metis
  from only_derived_trans [OF o1 Cons.IH [OF 2 this]] show ?case .
qed

abbreviation follow :: "uuid \<times> uuid \<Rightarrow> nat \<Rightarrow> nat dbtx" where
  "follow \<equiv> \<lambda>p acc. bind_tx (recompute_derived_expiry (fst p) (snd p)) (\<lambda>n. ret_tx (acc + n))"

definition with_days :: "uuid \<Rightarrow> int option \<Rightarrow> db \<Rightarrow> db" where
  "with_days c days s = s\<lparr>catalog := tbl_upd c (\<lambda>e. e\<lparr>ct_days := days\<rparr>) (catalog s)\<rparr>"

lemma correct_catalog_steps:
  assumes "correct_catalog_shelf_life actor c days s = Inr (n, s')"
  obtains s2 l "is" where "tbl_has c (catalog s)"
    "fold_tx follow (catalog_followers c (with_days c days s)) 0 (with_days c days s) = Inr (n, s2)"
    "s' = s2\<lparr>idgen := is, audits := tbl_ins l \<lparr>au_actor = actor, au_action = ActionCatalogEntryUpdated,
       au_target = Some (TargetId c),
       au_details = no_details\<lparr>ad_days := days, ad_recomputed := Some (int n)\<rparr>, au_at = db_now s2\<rparr> (audits s2)\<rparr>"
  using assms unfolding correct_catalog_shelf_life_def set_catalog_shelf_life_def write_admin_audit_def
  by (auto simp: bind_tx_iff seq_tx_iff guard_tx_iff check_tx_iff mod_tx_iff get_tx_iff ret_tx_iff new_id_iff
      with_days_def [symmetric])

lemma run_cascade_only_derived:
  assumes d: "distinct (keys (batches s))"
  shows "only_derived s (run_cascade c s)"
proof (cases c)
  case (ProductCascade st p)
  then show ?thesis
    using recompute_only_derived [OF d]
    by (auto simp: run_cascade_def in_tx_def only_derived_refl split: sum.splits)
next
  case (CategoryCascade st k)
  then show ?thesis
    using recompute_products_only_derived [OF d] by (simp add: run_cascade_def recompute_for_category_def)
next
  case (CatalogCascade actor k days)
  have "only_derived s s'" if run: "correct_catalog_shelf_life actor k days s = Inr (n, s')" for n s'
  proof -
    obtain s2 l "is" where
      2: "fold_tx follow (catalog_followers k (with_days k days s)) 0 (with_days k days s) = Inr (n, s2)"
      and 3: "s' = s2\<lparr>idgen := is, audits := tbl_ins l \<lparr>au_actor = actor, au_action = ActionCatalogEntryUpdated,
       au_target = Some (TargetId k),
       au_details = no_details\<lparr>ad_days := days, ad_recomputed := Some (int n)\<rparr>, au_at = db_now s2\<rparr> (audits s2)\<rparr>"
      by (rule correct_catalog_steps [OF run])
    have "only_derived (with_days k days s) s2" using fold_only_derived [OF 2] d by (simp add: with_days_def)
    with 3 show ?thesis by (simp add: only_derived_def with_days_def)
  qed
  then show ?thesis using CatalogCascade
    by (auto simp: run_cascade_def in_tx_def only_derived_refl split: sum.splits)
qed

interpretation cascades: date_cascade run_cascade
proof
  fix c :: cascade and s :: db
  assume d: "distinct (keys (batches s))"
  show "keys (batches (run_cascade c s)) = keys (batches s)"
    by (rule only_derived_keys [OF run_cascade_only_derived [OF d]])
next
  fix c :: cascade and s :: db and i b
  assume d: "distinct (keys (batches s))" and b: "map_of (batches s) i = Some b" "ba_source b = ExpirationUser"
  from run_cascade_only_derived [OF d, of c] b(1)
  obtain e where "map_of (batches (run_cascade c s)) i
      = Some (if ba_source b = ExpirationDerived then b\<lparr>ba_expiration := e\<rparr> else b)"
    unfolding only_derived_def by blast
  with b(2) show "map_of (batches (run_cascade c s)) i = Some b" by simp
qed

section \<open>Stock\<close>

lemma shifts_set_expiration:
  assumes ok: "rows_ok s" and run: "update_batch i (\<lambda>b. b\<lparr>ba_expiration := d, ba_source := x\<rparr>) s = Inr (u, s')"
  shows "shifts (\<lambda>_. 0) s s'"
  by (rule shifts_map_batches [OF ok, of s' "\<lambda>k _. k = i" "\<lambda>b. b\<lparr>ba_expiration := d, ba_source := x\<rparr>"])
    (use run in \<open>simp_all add: update_batch_iff tbl_upd_def\<close>)

lemma set_expiration_steps:
  assumes "set_batch_expiration storage i d user s = Inr (v, s')"
  obtains b s1 where "find_batch storage i s = Some b"
    "update_batch i (\<lambda>b. b\<lparr>ba_expiration := d, ba_source := ExpirationUser\<rparr>) s = Inr ((), s1)"
    "load_batch storage i s1 = Inr (v, s1)" "core s' = core s1"
proof -
  obtain b s1 s2 where b: "find_batch storage i s = Some b"
    and u: "update_batch i (\<lambda>b. b\<lparr>ba_expiration := d, ba_source := ExpirationUser\<rparr>) s = Inr ((), s1)"
    and l: "load_batch storage i s1 = Inr (v, s1)"
    and r: "(case user of None \<Rightarrow> ret_tx ()
       | Some u \<Rightarrow> record_contribution storage u ExpiryConfirmed (Some i) None) s1 = Inr ((), s2)" and s2: "s' = s2"
    using assms by (auto simp: set_batch_expiration_def require_batch_in_storage_def bind_tx_iff seq_tx_iff
        check_tx_iff ret_tx_iff load_batch_iff)
  have "silent (case user of None \<Rightarrow> ret_tx ()
       | Some u \<Rightarrow> record_contribution storage u ExpiryConfirmed (Some i) None)"
    by (cases user) (simp_all add: silent_intros)
  from silentD [OF this r] s2 b u l show ?thesis by (intro that) simp_all
qed

lemma set_expiration_shifts:
  assumes ok: "rows_ok s" and run: "set_batch_expiration storage i d user s = Inr (v, s')"
  shows "shifts (\<lambda>_. 0) s s'"
proof -
  obtain s1 where u: "update_batch i (\<lambda>b. b\<lparr>ba_expiration := d, ba_source := ExpirationUser\<rparr>) s = Inr ((), s1)"
    and c: "core s' = core s1" by (rule set_expiration_steps [OF run])
  from shifts_set_expiration [OF ok u] c show ?thesis
    unfolding shifts_def by (metis gap_core rows_ok_core)
qed

lemma reset_steps:
  assumes "reset_batch_expiration storage i s = Inr (v, s')"
  obtains b pr where "find_batch storage i s = Some b" "map_of (products s) (ba_product b) = Some pr"
    "pr_storage pr = storage"
    "update_batch i (\<lambda>b'. b'\<lparr>ba_expiration := date_for (ba_created b) (resolve (product_rules storage pr s)),
       ba_source := ExpirationDerived\<rparr>) s = Inr ((), s')"
  using assms
  by (auto simp: reset_batch_expiration_def bind_tx_iff seq_tx_iff row_tx_iff expiry_rules_iff load_batch_iff)

interpretation reset: ledger_operation "\<lambda>(storage, i). reset_batch_expiration storage i"
  by unfold_locales (auto elim!: reset_steps intro: shifts_set_expiration)

interpretation set_date: ledger_operation "\<lambda>(storage, i, d, user). set_batch_expiration storage i d user"
  by unfold_locales (auto intro: set_expiration_shifts)

interpretation recompute: ledger_operation "\<lambda>(storage, p). recompute_derived_expiry storage p"
  by unfold_locales (auto intro: recompute_shifts)

section \<open>Properties\<close>

lemma product_rules_batches [simp]:
  "product_rules storage p (s\<lparr>batches := bs\<rparr>) = product_rules storage p s"
proof -
  have "tree_row TreeCategories (s\<lparr>batches := bs\<rparr>) = tree_row TreeCategories s"
    by (rule ext) (simp add: tree_row_def)
  then have "category_days storage c (s\<lparr>batches := bs\<rparr>) = category_days storage c s" for c
    by (simp add: category_days_def in_storage_def)
  then show ?thesis by (cases "pr_category p") (simp_all add: product_rules_def)
qed

text \<open>
  C30. Recomputing a product's derived dates: every derived batch of the product gets the date its
  own creation and the current rules give, every other batch (another product's, or one whose date a
  person set) and every other table stay as they are, the number of dates written is returned, and
  doing it again changes nothing more.
\<close>

theorem recompute_follows_rules:
  assumes inv: "stock_inv s" and run: "recompute_derived_expiry storage p s = Inr (n, s')"
  shows "(\<exists>pr. map_of (products s) p = Some pr \<and> pr_storage pr = storage
        \<and> (\<forall>i b. map_of (batches s) i = Some b \<longrightarrow> map_of (batches s') i = Some
             (if ba_product b = p \<and> ba_source b = ExpirationDerived
              then b\<lparr>ba_expiration := date_for (ba_created b) (resolve (product_rules storage pr s))\<rparr> else b)))
    \<and> keys (batches s') = keys (batches s) \<and> s' = s\<lparr>batches := batches s'\<rparr>
    \<and> n = card {i. \<exists>b. map_of (batches s) i = Some b \<and> ba_product b = p \<and> ba_source b = ExpirationDerived}
    \<and> stock_inv s'
    \<and> (\<forall>m s2. recompute_derived_expiry storage p s' = Inr (m, s2) \<longrightarrow> m = n \<and> map_of (batches s2) = map_of (batches s'))"
proof -
  have d: "distinct (keys (batches s))" using inv by (simp add: stock_inv_def rows_ok_def)
  obtain pr where pr: "map_of (products s) p = Some pr" "pr_storage pr = storage"
    and s': "s' = s\<lparr>batches := redate (derived_of p (batches s)) (resolve (product_rules storage pr s)) (batches s)\<rparr>"
    and n: "n = card (derived_of p (batches s))" by (rule recompute_effect [OF d run])
  let ?res = "resolve (product_rules storage pr s)"
  have ids: "derived_of p t = {i. \<exists>b. map_of t i = Some b \<and> ba_product b = p \<and> ba_source b = ExpirationDerived}"
    if "distinct (keys t)" for t :: "batch table"
    using that derived_of_iff [of _ p t] in_table_map_of [OF that] by blast
  have moved: "map_of (batches s') i = Some (if ba_product b = p \<and> ba_source b = ExpirationDerived
      then b\<lparr>ba_expiration := date_for (ba_created b) ?res\<rparr> else b)" if b: "map_of (batches s) i = Some b" for i b
    using b derived_of_map_of [OF d b, of p] by (simp add: s' map_of_redate)
  have d': "distinct (keys (batches s'))" using d by (simp add: s')
  have same: "derived_of p (batches s') = derived_of p (batches s)"
  proof -
    have "(\<exists>b. map_of (batches s') i = Some b \<and> ba_product b = p \<and> ba_source b = ExpirationDerived)
        = (\<exists>b. map_of (batches s) i = Some b \<and> ba_product b = p \<and> ba_source b = ExpirationDerived)" for i
      by (cases "map_of (batches s) i") (auto simp: s' map_of_redate)
    then show ?thesis by (simp add: ids [OF d] ids [OF d'])
  qed
  have again: "m = n \<and> map_of (batches s2) = map_of (batches s')"
    if r2: "recompute_derived_expiry storage p s' = Inr (m, s2)" for m s2
  proof -
    obtain pr2 where pr2: "map_of (products s') p = Some pr2"
      and s2: "s2 = s'\<lparr>batches := redate (derived_of p (batches s')) (resolve (product_rules storage pr2 s')) (batches s')\<rparr>"
      and m: "m = card (derived_of p (batches s'))" by (rule recompute_effect [OF d' r2])
    have "pr2 = pr" using pr2 pr(1) by (simp add: s')
    then have "map_of (batches s2) i = map_of (batches s') i" for i
      by (cases "map_of (batches s) i") (simp_all add: s2 same, simp_all add: s' map_of_redate)
    with m n same show ?thesis by auto
  qed
  have "stock_inv s'" using recompute.commit_keeps [of s "(storage, p)"] inv run by simp
  with pr moved n ids [OF d] again show ?thesis by (auto simp: s')
qed

text \<open>
  C31. A date a person set, or cleared, is final for the rules: no sequence of recomputations for
  products, categories or catalog entries, in any storage, changes the batch that carries it.
\<close>

theorem user_dates_are_sticky:
  assumes inv: "stock_inv s" and run: "set_batch_expiration storage i d user s = Inr (v, s')"
  shows "\<exists>b. find_batch storage i s = Some b \<and> bv_row v = b\<lparr>ba_expiration := d, ba_source := ExpirationUser\<rparr>
    \<and> map_of (batches (fold run_cascade cs s')) i = Some (b\<lparr>ba_expiration := d, ba_source := ExpirationUser\<rparr>)"
proof -
  obtain b s1 where b: "find_batch storage i s = Some b"
    and u: "update_batch i (\<lambda>b. b\<lparr>ba_expiration := d, ba_source := ExpirationUser\<rparr>) s = Inr ((), s1)"
    and l: "load_batch storage i s1 = Inr (v, s1)" and c: "core s' = core s1"
    by (rule set_expiration_steps [OF run])
  let ?b = "b\<lparr>ba_expiration := d, ba_source := ExpirationUser\<rparr>"
  have s1: "map_of (batches s1) i = Some ?b" "keys (batches s1) = keys (batches s)"
    using b u by (simp_all add: update_batch_iff find_batch_Some)
  have "batches s' = batches s1" using core_eqD [OF c] by simp
  then have "map_of (batches s') i = Some ?b" "distinct (keys (batches s'))"
    using s1 inv by (simp_all add: stock_inv_def rows_ok_def)
  moreover have "bv_row v = ?b"
    using l s1 by (auto simp: load_batch_iff find_batch_Some join_container_def Let_def)
  ultimately show ?thesis using b cascades.sticky_all [of s' i ?b cs] by simp
qed

text \<open>
  Putting a batch back under the rules undoes the edit: the batch is derived again with the date
  of its creation under the current rules, so a recomputation of its product leaves it as it is.
\<close>

theorem reset_restores_rules:
  assumes inv: "stock_inv s" and run: "reset_batch_expiration storage i s = Inr (v, s')"
    and re: "recompute_derived_expiry storage p s' = Inr (n, s2)"
  shows "\<exists>b pr. find_batch storage i s = Some b \<and> map_of (products s) (ba_product b) = Some pr
    \<and> find_batch storage i s' = Some (b\<lparr>ba_expiration := date_for (ba_created b) (resolve (product_rules storage pr s)),
         ba_source := ExpirationDerived\<rparr>)
    \<and> map_of (batches s2) i = map_of (batches s') i \<and> stock_inv s'"
proof -
  obtain b pr where b: "find_batch storage i s = Some b" and pr: "map_of (products s) (ba_product b) = Some pr"
    "pr_storage pr = storage"
    and u: "update_batch i (\<lambda>b'. b'\<lparr>ba_expiration := date_for (ba_created b) (resolve (product_rules storage pr s)),
       ba_source := ExpirationDerived\<rparr>) s = Inr ((), s')" by (rule reset_steps [OF run])
  let ?b = "b\<lparr>ba_expiration := date_for (ba_created b) (resolve (product_rules storage pr s)), ba_source := ExpirationDerived\<rparr>"
  have inv': "stock_inv s'" using reset.commit_keeps [of s "(storage, i)"] inv run by simp
  have s': "map_of (batches s') i = Some ?b" "products s' = products s"
    "product_rules storage q s' = product_rules storage q s" for q
    using b u by (auto simp: update_batch_iff find_batch_Some)
  have d': "distinct (keys (batches s'))" using inv' by (simp add: stock_inv_def rows_ok_def)
  obtain pr' where pr': "map_of (products s') p = Some pr'" and s2: "s2 = s'\<lparr>batches :=
      redate (derived_of p (batches s')) (resolve (product_rules storage pr' s')) (batches s')\<rparr>"
    by (rule recompute_effect [OF d' re])
  have "map_of (batches s2) i = Some ?b"
  proof (cases "ba_product b = p")
    case True
    with pr pr' s'(2) have "pr' = pr" by simp
    then show ?thesis by (simp add: s2 map_of_redate s')
  next
    case False
    then have "i \<notin> derived_of p (batches s')" using derived_of_map_of [OF d' s'(1)] by simp
    then show ?thesis by (simp add: s2 map_of_redate s')
  qed
  with b pr s' inv' show ?thesis by (auto simp: find_batch_Some)
qed

lemma demo_rules: "product_rules 2 demo_product demo_db
    = \<lparr>ru_product_days = None, ru_catalog_days = None, ru_category_days = [], ru_item_type = Perishable\<rparr>"
  by (simp add: product_rules_def demo_product_def)

lemma demo_reset: "\<exists>v s'. reset_batch_expiration 2 20 demo_db = Inr (v, s')
    \<and> (\<exists>n s2. recompute_derived_expiry 2 5 s' = Inr (n, s2))"
  by (simp add: reset_batch_expiration_def recompute_derived_expiry_def apply_derived_expiry_def
      load_derived_batches_def tx_iff demo_find)
    (simp add: demo_defs find_batch_Some tbl_select_def redate_batch_iff tbl_upd_def tbl_map_def bind_tx_iff ret_tx_iff)

theorem reset_restores_rules_witness:
  "\<exists>v s' n s2. reset_batch_expiration 2 20 demo_db = Inr (v, s') \<and> recompute_derived_expiry 2 5 s' = Inr (n, s2)
     \<and> map_of (batches s2) 20 = map_of (batches s') 20"
proof -
  obtain v s' n s2 where r: "reset_batch_expiration 2 20 demo_db = Inr (v, s')"
    "recompute_derived_expiry 2 5 s' = Inr (n, s2)" using demo_reset by blast
  with reset_restores_rules [OF demo_stock_inv r] show ?thesis by blast
qed

text \<open>The demonstration storage with its batch under the rules and a date that is not theirs.\<close>

definition stale_db :: db where
  "stale_db = demo_db\<lparr>batches := [(20, demo_batch\<lparr>ba_source := ExpirationDerived\<rparr>)]\<rparr>"

lemma stale_stock_inv: "stock_inv stale_db"
  using demo_stock_inv
  by (simp add: stock_inv_def rows_ok_def batch_ok_def log_ok_def container_ok_def tbl_has_def
      ledger_total_def stock_total_def stale_db_def demo_defs)

lemma stale_recompute: "\<exists>n s'. recompute_derived_expiry 2 5 stale_db = Inr (n, s')"
  by (simp add: recompute_derived_expiry_def apply_derived_expiry_def load_derived_batches_def tx_iff)
    (simp add: stale_db_def demo_defs tbl_select_def redate_batch_iff bind_tx_iff ret_tx_iff)

theorem recompute_follows_rules_witness:
  "\<exists>n s'. recompute_derived_expiry 2 5 stale_db = Inr (n, s')
     \<and> map_of (batches s') 20 = Some (demo_batch\<lparr>ba_source := ExpirationDerived,
          ba_expiration := date_for 0 (resolve (product_rules 2 demo_product stale_db))\<rparr>)"
proof -
  obtain n s' where run: "recompute_derived_expiry 2 5 stale_db = Inr (n, s')" using stale_recompute by blast
  have "map_of (products stale_db) 5 = Some demo_product"
    "map_of (batches stale_db) 20 = Some (demo_batch\<lparr>ba_source := ExpirationDerived\<rparr>)"
    by (simp_all add: stale_db_def demo_db_def empty_db_def)
  with recompute_follows_rules [OF stale_stock_inv run]
  have "map_of (batches s') 20 = Some (demo_batch\<lparr>ba_source := ExpirationDerived,
     ba_expiration := date_for (ba_created demo_batch) (resolve (product_rules 2 demo_product stale_db))\<rparr>)"
    by (auto simp: demo_batch_def)
  moreover have "ba_created demo_batch = 0" by (simp add: demo_batch_def)
  ultimately show ?thesis using run by auto
qed

lemma demo_set_date: "\<exists>v s'. set_batch_expiration 2 20 (Some 50) None demo_db = Inr (v, s')"
  by (simp add: set_batch_expiration_def require_batch_in_storage_def tx_iff demo_find load_batch_iff)
    (simp add: demo_defs find_batch_Some)

theorem user_dates_are_sticky_witness:
  "\<exists>v s' b. set_batch_expiration 2 20 (Some 50) None demo_db = Inr (v, s')
     \<and> map_of (batches (fold run_cascade [ProductCascade 2 5, CatalogCascade None 7 (Some 3)] s')) 20
         = Some (b\<lparr>ba_expiration := Some 50, ba_source := ExpirationUser\<rparr>)"
proof -
  obtain v s' where r: "set_batch_expiration 2 20 (Some 50) None demo_db = Inr (v, s')"
    using demo_set_date by blast
  with user_dates_are_sticky [OF demo_stock_inv r] show ?thesis by blast
qed

end
