(* ===== verification/Products.thy ===== *)
theory Products
  imports StoreExpiry
begin

text \<open>
  \<open>internal/store/products.go\<close>: the products of a storage, their edits and what an edit does to the
  batches, the deletion with its cascades and the merge of two products into one. Beside the stock
  invariant stands the freshness of \<open>docs/specs/08-expiration-and-classification.md\<close>: a derived date is
  the one the current rules give.
\<close>

section \<open>Creating and editing\<close>

record new_product =
  np_name :: string
  np_category :: "uuid option"
  np_catalog :: "uuid option"
  np_item_type :: "item_type option"
  np_days :: "int option"
  np_min_stock :: int
  np_image :: "string option"
  np_icon :: "string option"

text \<open>INSERT INTO products with the constraints of the table.\<close>

definition columns_ok :: "product \<Rightarrow> bool" where
  "columns_ok p \<longleftrightarrow> item_type_fallback_days (pr_item_type p) \<noteq> None
     \<and> pred_option int4 (pr_days p) \<and> int4 (pr_min_stock p)"

definition product_row_ok :: "product \<Rightarrow> db \<Rightarrow> bool" where
  "product_row_ok p s \<longleftrightarrow> tbl_has (pr_storage p) (storage_rows s)
     \<and> pred_option (\<lambda>c. tbl_has c (categories s)) (pr_category p)
     \<and> pred_option (\<lambda>c. tbl_has c (catalog s)) (pr_catalog p) \<and> columns_ok p"

definition insert_product :: "uuid \<Rightarrow> product \<Rightarrow> unit dbtx" where
  "insert_product i p =
     seq_tx (check_tx (\<lambda>s. \<not> tbl_has i (products s) \<and> product_row_ok p s) ErrInternal)
       (mod_tx (\<lambda>s. s\<lparr>products := tbl_ins i p (products s)\<rparr>))"

definition product_of :: "uuid \<Rightarrow> new_product \<Rightarrow> instant \<Rightarrow> product" where
  "product_of storage inp now = \<lparr>pr_storage = storage, pr_name = np_name inp, pr_category = np_category inp,
     pr_catalog = np_catalog inp,
     pr_item_type = (case np_item_type inp of None \<Rightarrow> LongShelfLife | Some t \<Rightarrow> t),
     pr_days = np_days inp, pr_min_stock = np_min_stock inp, pr_image = np_image inp,
     pr_icon = np_icon inp, pr_created = now, pr_updated = now\<rparr>"

definition require_category :: "uuid \<Rightarrow> uuid option \<Rightarrow> unit dbtx" where
  "require_category storage c =
     (case c of None \<Rightarrow> ret_tx () | Some k \<Rightarrow> require_same_storage TreeCategories storage k)"

definition create_product :: "uuid \<Rightarrow> new_product \<Rightarrow> (uuid \<times> product) dbtx" where
  "create_product storage inp =
     bind_tx new_id (\<lambda>i.
     seq_tx (require_category storage (np_category inp))
    (bind_tx (get_tx db_now) (\<lambda>now.
     seq_tx (insert_product i (product_of storage inp now))
       (ret_tx (i, product_of storage inp now)))))"

definition update_product_row :: "uuid \<Rightarrow> (product \<Rightarrow> product) \<Rightarrow> unit dbtx" where
  "update_product_row i f = mod_tx (\<lambda>s. s\<lparr>products :=
     tbl_upd i (\<lambda>p. (f p)\<lparr>pr_updated := db_now s\<rparr>) (products s)\<rparr>)"

definition set_product_category :: "uuid \<Rightarrow> uuid \<Rightarrow> uuid option \<Rightarrow> unit dbtx" where
  "set_product_category storage i c =
     seq_tx (require_product_in_storage storage i)
    (seq_tx (require_category storage c)
    (seq_tx (update_product_row i (\<lambda>p. p\<lparr>pr_category := c\<rparr>))
    (bind_tx (recompute_derived_expiry storage i) (\<lambda>_. ret_tx ()))))"

definition set_product_category_as_user :: "uuid \<Rightarrow> uuid \<Rightarrow> uuid option \<Rightarrow> uuid \<Rightarrow> unit dbtx" where
  "set_product_category_as_user storage i c user =
     seq_tx (require_product_in_storage storage i)
    (bind_tx (row_tx ErrInternal (\<lambda>s. map_option pr_category (map_of (products s) i))) (\<lambda>previous.
     seq_tx (require_category storage c)
    (seq_tx (update_product_row i (\<lambda>p. p\<lparr>pr_category := c\<rparr>))
    (bind_tx (recompute_derived_expiry storage i) (\<lambda>_.
       if previous = None \<and> c \<noteq> None
       then record_contribution storage user MetadataFilled (Some i) (Some Uncategorized)
       else ret_tx ())))))"

definition product_image_in_storage :: "uuid \<Rightarrow> string \<Rightarrow> db \<Rightarrow> bool" where
  "product_image_in_storage storage url s \<longleftrightarrow>
     (\<exists>(_, p) \<in> set (products s). pr_storage p = storage \<and> pr_image p = Some url)"

definition set_product_image_as_user ::
    "uuid \<Rightarrow> uuid \<Rightarrow> string option \<Rightarrow> string option \<Rightarrow> uuid \<Rightarrow> unit dbtx" where
  "set_product_image_as_user storage i picture icon user =
     seq_tx (require_product_in_storage storage i)
    (bind_tx (row_tx ErrInternal (\<lambda>s. map_option (\<lambda>p. (pr_image p, pr_icon p)) (map_of (products s) i))) (\<lambda>previous.
     seq_tx (update_product_row i (\<lambda>p. p\<lparr>pr_image := picture, pr_icon := icon\<rparr>))
       (if previous = (None, None) \<and> (picture \<noteq> None \<or> icon \<noteq> None)
        then record_contribution storage user MetadataFilled (Some i) (Some Imageless)
        else ret_tx ())))"

record product_patch =
  pp_name :: "string option"
  pp_set_category :: bool
  pp_category :: "uuid option"
  pp_item_type :: "item_type option"
  pp_min_stock :: "int option"
  pp_set_days :: bool
  pp_days :: "int option"
  pp_set_icon :: bool
  pp_icon :: "string option"

definition touches_expiry_rules :: "product_patch \<Rightarrow> bool" where
  "touches_expiry_rules patch \<longleftrightarrow> pp_set_category patch \<or> pp_set_days patch"

definition coalesce_to :: "'a option \<Rightarrow> 'a \<Rightarrow> 'a" where
  "coalesce_to x old = (case x of None \<Rightarrow> old | Some v \<Rightarrow> v)"

definition patched :: "product_patch \<Rightarrow> product \<Rightarrow> product" where
  "patched patch p = p\<lparr>pr_name := coalesce_to (pp_name patch) (pr_name p),
     pr_category := (if pp_set_category patch then pp_category patch else pr_category p),
     pr_item_type := coalesce_to (pp_item_type patch) (pr_item_type p),
     pr_min_stock := coalesce_to (pp_min_stock patch) (pr_min_stock p),
     pr_days := (if pp_set_days patch then pp_days patch else pr_days p),
     pr_icon := (if pp_set_icon patch then pp_icon patch else pr_icon p)\<rparr>"

definition update_product :: "uuid \<Rightarrow> uuid \<Rightarrow> product_patch \<Rightarrow> (product \<times> nat) dbtx" where
  "update_product storage i patch =
     seq_tx (require_product_in_storage storage i)
    (seq_tx (if pp_set_category patch then require_category storage (pp_category patch) else ret_tx ())
    (bind_tx (row_tx ErrNotFound (\<lambda>s. map_of (products s) i)) (\<lambda>p.
     seq_tx (guard_tx (columns_ok (patched patch p)) ErrInternal)
    (seq_tx (update_product_row i (patched patch))
    (bind_tx (row_tx ErrNotFound (\<lambda>s. map_of (products s) i)) (\<lambda>out.
       if \<not> touches_expiry_rules patch then ret_tx (out, 0)
       else bind_tx (recompute_derived_expiry storage i) (\<lambda>n. ret_tx (out, n))))))))"

section \<open>Deleting and merging\<close>

text \<open>
  DELETE of one product: batches, ledger and barcodes of the product go with it (ON DELETE CASCADE),
  a shopping line matched to it and a ledger row of a deleted batch lose the reference (SET NULL).
\<close>

definition delete_product_row :: "uuid \<Rightarrow> unit dbtx" where
  "delete_product_row i = mod_tx (\<lambda>s. s\<lparr>products := tbl_del (\<lambda>k _. k = i) (products s),
     batches := tbl_del (\<lambda>_ b. ba_product b = i) (batches s),
     logs := tbl_map (\<lambda>_ l. map_option ba_product (Option.bind (lg_batch l) (map_of (batches s))) = Some i)
       (\<lambda>l. l\<lparr>lg_batch := None\<rparr>) (tbl_del (\<lambda>_ l. lg_product l = i) (logs s)),
     product_barcodes := tbl_del (\<lambda>_ b. bc_product b = i) (product_barcodes s),
     shopping_items := tbl_map (\<lambda>_ x. si_matched x = Some i) (\<lambda>x. x\<lparr>si_matched := None\<rparr>) (shopping_items s)\<rparr>)"

definition orphaned_image :: "string option \<Rightarrow> string dbtx" where
  "orphaned_image img = get_tx (\<lambda>s. case img of
      None \<Rightarrow> []
    | Some url \<Rightarrow> if url = [] then []
        else if \<exists>(_, p) \<in> set (products s). pr_image p = Some url then [] else url)"

definition delete_product :: "uuid \<Rightarrow> uuid \<Rightarrow> string dbtx" where
  "delete_product storage i =
     seq_tx (require_product_in_storage storage i)
    (bind_tx (row_tx ErrInternal (\<lambda>s. map_option pr_image (map_of (products s) i))) (\<lambda>img.
     seq_tx (delete_product_row i)
    (seq_tx (record_tombstones storage TombstoneProduct [i])
       (orphaned_image img))))"

definition repoint_barcodes :: "uuid \<Rightarrow> uuid \<Rightarrow> uuid \<Rightarrow> unit dbtx" where
  "repoint_barcodes storage survivor source =
     seq_tx (mod_tx (\<lambda>s. s\<lparr>product_barcodes := tbl_del (\<lambda>k b. fst k = storage \<and> bc_product b = source
         \<and> (\<exists>(k', b') \<in> set (product_barcodes s). fst k' = storage \<and> bc_product b' = survivor \<and> snd k' = snd k))
         (product_barcodes s)\<rparr>))
       (mod_tx (\<lambda>s. s\<lparr>product_barcodes := tbl_map (\<lambda>k b. fst k = storage \<and> bc_product b = source)
         (\<lambda>b. b\<lparr>bc_product := survivor\<rparr>) (product_barcodes s)\<rparr>))"

definition repoint_batches :: "uuid \<Rightarrow> uuid \<Rightarrow> nat dbtx" where
  "repoint_batches survivor source =
     bind_tx (get_tx (\<lambda>s. length (tbl_select (\<lambda>_ b. ba_product b = source) (batches s)))) (\<lambda>n.
     seq_tx (mod_tx (\<lambda>s. s\<lparr>batches := tbl_map (\<lambda>_ b. ba_product b = source)
         (\<lambda>b. b\<lparr>ba_product := survivor\<rparr>) (batches s)\<rparr>))
       (ret_tx n))"

definition repoint_history :: "uuid \<Rightarrow> uuid \<Rightarrow> unit dbtx" where
  "repoint_history survivor source =
     seq_tx (mod_tx (\<lambda>s. s\<lparr>logs := tbl_map (\<lambda>_ l. lg_product l = source)
         (\<lambda>l. l\<lparr>lg_product := survivor\<rparr>) (logs s)\<rparr>))
       (mod_tx (\<lambda>s. s\<lparr>shopping_items := tbl_map (\<lambda>_ x. si_matched x = Some source)
         (\<lambda>x. x\<lparr>si_matched := Some survivor\<rparr>) (shopping_items s)\<rparr>))"

text \<open>The four re-points of a merge, all before the row of the source goes.\<close>

definition repoint_all :: "uuid \<Rightarrow> uuid \<Rightarrow> uuid \<Rightarrow> nat dbtx" where
  "repoint_all storage survivor source =
     seq_tx (repoint_barcodes storage survivor source)
    (bind_tx (repoint_batches survivor source) (\<lambda>n.
     seq_tx (repoint_history survivor source) (ret_tx n)))"

record merge_result =
  mr_survivor :: product
  mr_moved :: nat
  mr_recomputed :: nat
  mr_orphan :: string

definition lock_product :: "uuid \<Rightarrow> uuid \<Rightarrow> unit dbtx" where
  "lock_product storage i = check_tx (\<lambda>s. \<exists>p. map_of (products s) i = Some p \<and> pr_storage p = storage) ErrNotFound"

definition merge_products :: "uuid \<Rightarrow> uuid \<Rightarrow> uuid \<Rightarrow> merge_result dbtx" where
  "merge_products storage survivor source =
     (if survivor = source then fail_tx ErrValidation
      else
        seq_tx (lock_product storage (min survivor source))
       (seq_tx (lock_product storage (max survivor source))
       (bind_tx (row_tx ErrInternal (\<lambda>s. map_option pr_image (map_of (products s) source))) (\<lambda>img.
        bind_tx (load_derived_batches source) (\<lambda>moved.
        bind_tx (repoint_all storage survivor source) (\<lambda>n.
        bind_tx (expiry_rules_for storage survivor) (\<lambda>rules.
        bind_tx (apply_derived_expiry moved (resolve rules)) (\<lambda>k.
        seq_tx (delete_product_row source)
       (seq_tx (record_tombstones storage TombstoneProduct [source])
       (bind_tx (orphaned_image img) (\<lambda>orphan.
        seq_tx (update_product_row survivor id)
       (bind_tx (row_tx ErrNotFound (\<lambda>s. map_of (products s) survivor)) (\<lambda>p.
          ret_tx \<lparr>mr_survivor = p, mr_moved = n, mr_recomputed = k, mr_orphan = orphan\<rparr>)))))))))))))"

section \<open>Reading\<close>

definition get_product :: "uuid \<Rightarrow> uuid \<Rightarrow> product dbtx" where
  "get_product storage i = row_tx ErrNotFound (\<lambda>s. case map_of (products s) i of
      None \<Rightarrow> None | Some p \<Rightarrow> if pr_storage p = storage then Some p else None)"

text \<open>Newest first; a row names its user by id, which the code resolves to a display name.\<close>

definition list_product_logs :: "uuid \<Rightarrow> uuid \<Rightarrow> nat \<Rightarrow> (uuid \<times> log_row) list dbtx" where
  "list_product_logs storage i limit =
     seq_tx (require_product_in_storage storage i)
       (get_tx (\<lambda>s. take limit (rev (sort_key (\<lambda>(k, l). (lg_at l, k))
          (tbl_select (\<lambda>_ l. lg_product l = i) (logs s))))))"

text \<open>\<open>ORDER BY name\<close> under a collation, given as the key it sorts by.\<close>

definition list_products :: "(string \<Rightarrow> 'c :: linorder) \<Rightarrow> uuid \<Rightarrow> db \<Rightarrow> (uuid \<times> product) list" where
  "list_products coll storage s =
     sort_key (\<lambda>(_, p). coll (pr_name p)) (tbl_select (\<lambda>_ p. pr_storage p = storage) (products s))"

text \<open>
  \<open>LIKE\<close>: a percent sign matches any text, an underscore any character, a backslash takes the next
  character literally. A pattern that ends in a lone backslash is an error of the database; the
  patterns below end in a percent sign.
\<close>

fun like :: "string \<Rightarrow> string \<Rightarrow> bool" where
  "like [] s = (s = [])"
| "like (p # ps) [] = (p = CHR 0x25 \<and> like ps [])"
| "like (p # ps) (c # cs) =
     (if p = CHR 0x25 then like ps (c # cs) \<or> like (p # ps) cs
      else if p = CHR 0x5F then like ps cs
      else if p = CHR 0x5C then (case ps of [] \<Rightarrow> False | q # qs \<Rightarrow> q = c \<and> like qs cs)
      else p = c \<and> like ps cs)"

record product_summary =
  ps_id :: uuid
  ps_name :: string
  ps_category :: "string option"
  ps_image :: "string option"
  ps_icon :: "string option"
  ps_stock :: int

definition summary_of :: "db \<Rightarrow> uuid \<times> product \<Rightarrow> product_summary" where
  "summary_of s x = (case x of (i, p) \<Rightarrow> \<lparr>ps_id = i, ps_name = pr_name p,
     ps_category = map_option cg_name (Option.bind (pr_category p) (map_of (categories s))),
     ps_image = pr_image p, ps_icon = pr_icon p, ps_stock = stock_total i s\<rparr>)"

text \<open>\<open>ILIKE\<close> compares after folding the case of every character by the locale of the database.\<close>

definition name_matches :: "(char \<Rightarrow> char) \<Rightarrow> string \<Rightarrow> string \<Rightarrow> bool" where
  "name_matches low query name \<longleftrightarrow> query = []
     \<or> like (map low ([CHR 0x25] @ query @ [CHR 0x25])) (map low name)"

definition search_products ::
    "(string \<Rightarrow> 'c :: linorder) \<Rightarrow> (char \<Rightarrow> char) \<Rightarrow> uuid \<Rightarrow> string \<Rightarrow> db \<Rightarrow> product_summary list" where
  "search_products coll low storage query s = map (summary_of s)
     (sort_key (\<lambda>(_, p). coll (pr_name p))
       (tbl_select (\<lambda>_ p. pr_storage p = storage \<and> name_matches low query (pr_name p)) (products s)))"

definition current_stock :: "uuid \<Rightarrow> uuid \<Rightarrow> db \<Rightarrow> int" where
  "current_stock storage i s = tbl_sum (\<lambda>_ b. if ba_product b = i
     \<and> map_option pr_storage (map_of (products s) (ba_product b)) = Some storage then ba_quantity b else 0) (batches s)"

section \<open>Steps\<close>

lemma require_category_iff [tx_iff]:
  "require_category storage c s = Inr r \<longleftrightarrow>
     pred_option (\<lambda>k. in_storage TreeCategories storage k s) c \<and> r = ((), s)"
  by (cases c) (auto simp: require_category_def tx_iff)

lemma update_product_row_iff [tx_iff]:
  "update_product_row i f s = Inr r \<longleftrightarrow>
     r = ((), s\<lparr>products := tbl_upd i (\<lambda>p. (f p)\<lparr>pr_updated := db_now s\<rparr>) (products s)\<rparr>)"
  by (auto simp: update_product_row_def tx_iff)

lemma insert_product_iff [tx_iff]:
  "insert_product i p s = Inr r \<longleftrightarrow> \<not> tbl_has i (products s) \<and> product_row_ok p s
     \<and> r = ((), s\<lparr>products := tbl_ins i p (products s)\<rparr>)"
  by (auto simp: insert_product_def tx_iff)

lemma orphaned_image_iff [tx_iff]:
  "orphaned_image img s = Inr r \<longleftrightarrow> r = (case img of
      None \<Rightarrow> [] | Some url \<Rightarrow> if url = [] then []
        else if \<exists>(_, p) \<in> set (products s). pr_image p = Some url then [] else url, s)"
  by (simp only: orphaned_image_def get_tx_iff)

lemma record_tombstone_iff:
  "record_tombstones storage kind [e] s = Inr r \<longleftrightarrow> (\<exists>i is. idgen s = i # is \<and> \<not> tbl_has i (tombstones s)
     \<and> tbl_has storage (storage_rows s) \<and> r = ((), s\<lparr>idgen := is, tombstones := tbl_ins i
         \<lparr>ts_storage = storage, ts_kind = kind, ts_entity = e, ts_deleted = db_now s\<rparr> (tombstones s)\<rparr>))"
  by (auto simp: record_tombstones_def tx_iff)

text \<open>Rules read the product's row, the catalog and the categories, nothing else.\<close>

lemma product_rules_cong:
  assumes "categories s' = categories s" and "catalog s' = catalog s"
  shows "product_rules storage p s' = product_rules storage p s"
proof -
  have "tree_row TreeCategories s' = tree_row TreeCategories s"
    using assms by (intro ext) (simp add: tree_row_def)
  then have "category_days storage c s' = category_days storage c s" for c
    using assms by (simp add: category_days_def in_storage_def)
  then show ?thesis using assms by (cases "pr_category p") (simp_all add: product_rules_def)
qed

section \<open>Dates that follow the rules\<close>

definition rule_date :: "db \<Rightarrow> batch \<Rightarrow> date option option" where
  "rule_date s b = map_option (\<lambda>p. date_for (ba_created b) (resolve (product_rules (pr_storage p) p s)))
     (map_of (products s) (ba_product b))"

definition follows_rules :: "db \<Rightarrow> batch \<Rightarrow> bool" where
  "follows_rules s b \<longleftrightarrow> (ba_source b = ExpirationDerived \<longrightarrow> rule_date s b = Some (ba_expiration b))"

definition dates_follow :: "db \<Rightarrow> bool" where
  "dates_follow s \<longleftrightarrow> (\<forall>(i, b) \<in> set (batches s). follows_rules s b)"

lemma follows_rules_cong:
  assumes "categories s' = categories s" and "catalog s' = catalog s"
    and "map_of (products s') (ba_product b) = map_of (products s) (ba_product b)"
  shows "follows_rules s' b = follows_rules s b"
  using assms product_rules_cong [OF assms(1,2)] by (simp add: follows_rules_def rule_date_def)

text \<open>States that differ in their batches at most, with the same ids.\<close>

definition batches_only :: "db \<Rightarrow> db \<Rightarrow> bool" where
  "batches_only s s' \<longleftrightarrow> s'\<lparr>batches := []\<rparr> = s\<lparr>batches := []\<rparr> \<and> keys (batches s') = keys (batches s)"

lemma batches_only_refl: "batches_only s s"
  by (simp add: batches_only_def)

lemma batches_only_trans: "batches_only s s1 \<Longrightarrow> batches_only s1 s2 \<Longrightarrow> batches_only s s2"
  by (simp add: batches_only_def)

lemma batches_onlyD:
  assumes "batches_only s s'"
  shows "keys (batches s') = keys (batches s)" "products s' = products s" "categories s' = categories s"
    "catalog s' = catalog s" "logs s' = logs s" "locations s' = locations s" "containers s' = containers s"
    "tombstones s' = tombstones s" "db_now s' = db_now s" "audits s' = audits s"
proof -
  have *: "f (s'\<lparr>batches := []\<rparr>) = f (s\<lparr>batches := []\<rparr>)" for f :: "db \<Rightarrow> 'z" using assms by (simp add: batches_only_def)
  show "products s' = products s" "categories s' = categories s"
    "catalog s' = catalog s" "logs s' = logs s" "locations s' = locations s" "containers s' = containers s"
    "tombstones s' = tombstones s" "db_now s' = db_now s" "audits s' = audits s"
    using * [of products] * [of categories] * [of catalog] * [of logs] * [of locations] * [of containers]
      * [of tombstones] * [of db_now] * [of audits] by simp_all
qed (use assms in \<open>simp add: batches_only_def\<close>)

text \<open>The dates follow the rules but for the batches of some products.\<close>

definition follow_except :: "uuid set \<Rightarrow> db \<Rightarrow> bool" where
  "follow_except ps s \<longleftrightarrow> (\<forall>(i, b) \<in> set (batches s). ba_product b \<notin> ps \<longrightarrow> follows_rules s b)"

lemma dates_follow_except: "dates_follow s \<longleftrightarrow> follow_except {} s"
  by (simp add: dates_follow_def follow_except_def)

text \<open>A recomputation puts its product right and moves no other.\<close>

lemma recompute_follow_except:
  assumes d: "distinct (keys (batches s))" and run: "recompute_derived_expiry storage p s = Inr (n, s')"
    and fe: "follow_except ps s"
  shows "follow_except (ps - {p}) s' \<and> batches_only s s'"
proof -
  obtain pr where pr: "map_of (products s) p = Some pr" "pr_storage pr = storage"
    and s': "s' = s\<lparr>batches := redate (derived_of p (batches s)) (resolve (product_rules storage pr s)) (batches s)\<rparr>"
    by (rule recompute_effect [OF d run])
  have cong: "follows_rules s' b = follows_rules s b" for b by (rule follows_rules_cong) (simp_all add: s')
  have "follows_rules s' b" if b: "(i, b) \<in> set (batches s')" "ba_product b \<notin> ps - {p}" for i b
  proof -
    from b obtain b0 where b0: "(i, b0) \<in> set (batches s)"
      and eq: "b = (if i \<in> derived_of p (batches s) \<and> ba_source b0 = ExpirationDerived
        then b0\<lparr>ba_expiration := date_for (ba_created b0) (resolve (product_rules storage pr s))\<rparr> else b0)"
      by (auto simp: s' set_redate)
    have "map_of (batches s) i = Some b0" using b0 in_table_map_of [OF d] by blast
    note der = derived_of_map_of [OF d this, of p]
    show ?thesis
    proof (cases "ba_product b0 = p")
      case True
      then show ?thesis using eq pr unfolding cong by (auto simp: follows_rules_def rule_date_def der)
    next
      case False
      with eq der have "b = b0" by simp
      with False b b0 fe show ?thesis unfolding cong by (auto simp: follow_except_def)
    qed
  qed
  then show ?thesis by (auto simp: follow_except_def batches_only_def s')
qed

lemma recompute_makes_follow:
  assumes d: "distinct (keys (batches s))" and run: "recompute_derived_expiry storage p s = Inr (n, s')"
    and others: "follow_except {p} s"
  shows "dates_follow s'"
  using recompute_follow_except [OF d run others] by (simp add: dates_follow_except)

section \<open>Edits\<close>

lemma shifts_update_product:
  assumes ok: "rows_ok s" and run: "update_product_row i f s = Inr (u, s')"
    and f: "\<And>p. pr_storage (f p) = pr_storage p"
  shows "shifts (\<lambda>_. 0) s s'"
  by (rule shifts_products [OF ok, of s' "products s'"])
    (use run ok f in \<open>auto simp: update_product_row_iff rows_ok_def\<close>)

lemma set_category_steps:
  assumes "set_product_category storage i c s = Inr (u, s')"
  obtains s1 n where "map_option pr_storage (map_of (products s) i) = Some storage"
    "pred_option (\<lambda>k. in_storage TreeCategories storage k s) c"
    "update_product_row i (\<lambda>p. p\<lparr>pr_category := c\<rparr>) s = Inr ((), s1)"
    "recompute_derived_expiry storage i s1 = Inr (n, s')"
  using assms unfolding set_product_category_def
  by (auto simp: seq_tx_iff bind_tx_iff ret_tx_iff require_product_iff require_category_iff)

lemma set_category_as_user_steps:
  assumes "set_product_category_as_user storage i c user s = Inr (u, s')"
  obtains s1 s2 n where "update_product_row i (\<lambda>p. p\<lparr>pr_category := c\<rparr>) s = Inr ((), s1)"
    "recompute_derived_expiry storage i s1 = Inr (n, s2)" "core s' = core s2"
proof -
  obtain s1 s2 n earned where *: "update_product_row i (\<lambda>p. p\<lparr>pr_category := c\<rparr>) s = Inr ((), s1)"
    "recompute_derived_expiry storage i s1 = Inr (n, s2)"
    and r: "(if earned
       then record_contribution storage user MetadataFilled (Some i) (Some Uncategorized)
       else ret_tx ()) s2 = Inr ((), s')"
    using assms unfolding set_product_category_as_user_def
    by (auto simp: seq_tx_iff bind_tx_iff require_product_iff require_category_iff row_tx_iff)
  have "silent (if earned then record_contribution storage user MetadataFilled (Some i) (Some Uncategorized)
      else ret_tx ())" by (intro silent_intros)
  then have "core s' = core s2" using r by (rule silentD)
  with * show ?thesis by (rule that)
qed

lemma set_image_steps:
  assumes "set_product_image_as_user storage i picture icon user s = Inr (u, s')"
  obtains s1 where "update_product_row i (\<lambda>p. p\<lparr>pr_image := picture, pr_icon := icon\<rparr>) s = Inr ((), s1)"
    "core s' = core s1"
proof -
  obtain s1 earned where *: "update_product_row i (\<lambda>p. p\<lparr>pr_image := picture, pr_icon := icon\<rparr>) s = Inr ((), s1)"
    and r: "(if earned
        then record_contribution storage user MetadataFilled (Some i) (Some Imageless)
        else ret_tx ()) s1 = Inr ((), s')"
    using assms unfolding set_product_image_as_user_def
    by (auto simp: seq_tx_iff bind_tx_iff require_product_iff row_tx_iff)
  have "silent (if earned then record_contribution storage user MetadataFilled (Some i) (Some Imageless)
      else ret_tx ())" by (intro silent_intros)
  then have "core s' = core s1" using r by (rule silentD)
  with * show ?thesis by (rule that)
qed

lemma update_product_steps:
  assumes "update_product storage i patch s = Inr (r, s')"
  obtains p s1 where "map_of (products s) i = Some p" "pr_storage p = storage"
    "pp_set_category patch \<longrightarrow> pred_option (\<lambda>k. in_storage TreeCategories storage k s) (pp_category patch)"
    "columns_ok (patched patch p)"
    "update_product_row i (patched patch) s = Inr ((), s1)"
    "fst r = (patched patch p)\<lparr>pr_updated := db_now s\<rparr>"
    "if touches_expiry_rules patch then recompute_derived_expiry storage i s1 = Inr (snd r, s')
     else snd r = 0 \<and> s' = s1"
  using assms unfolding update_product_def
  by (cases r)
    (auto simp: seq_tx_iff bind_tx_iff ret_tx_iff guard_tx_iff require_product_iff require_category_iff row_tx_iff
      update_product_row_iff split: if_splits)

lemma patched_storage [simp]: "pr_storage (patched patch p) = pr_storage p"
  by (simp add: patched_def)

lemma update_product_shifts:
  assumes ok: "rows_ok s" and run: "update_product storage i patch s = Inr (r, s')"
  shows "shifts (\<lambda>_. 0) s s'"
proof -
  obtain s1 where u: "update_product_row i (patched patch) s = Inr ((), s1)"
    and r: "if touches_expiry_rules patch then recompute_derived_expiry storage i s1 = Inr (snd r, s')
     else snd r = 0 \<and> s' = s1" by (rule update_product_steps [OF run])
  have 1: "shifts (\<lambda>_. 0) s s1" by (rule shifts_update_product [OF ok u]) simp
  show ?thesis
  proof (cases "touches_expiry_rules patch")
    case True
    with r have "recompute_derived_expiry storage i s1 = Inr (snd r, s')" by simp
    from shifts_trans [OF 1 recompute_shifts [OF shifts_rows [OF 1] this]] show ?thesis by simp
  next
    case False
    with r 1 show ?thesis by simp
  qed
qed

lemma shifts_core: "shifts d s s1 \<Longrightarrow> core s' = core s1 \<Longrightarrow> shifts d s s'"
  unfolding shifts_def by (metis gap_core rows_ok_core)

lemma recategorize_shifts:
  assumes ok: "rows_ok s" and u: "update_product_row i (\<lambda>p. p\<lparr>pr_category := c\<rparr>) s = Inr ((), s1)"
    and r: "recompute_derived_expiry storage i s1 = Inr (n, s2)"
  shows "shifts (\<lambda>_. 0) s s2"
proof -
  have 1: "shifts (\<lambda>_. 0) s s1" by (rule shifts_update_product [OF ok u]) simp
  from shifts_trans [OF 1 recompute_shifts [OF shifts_rows [OF 1] r]] show ?thesis by simp
qed

lemma set_image_shifts:
  assumes ok: "rows_ok s" and run: "set_product_image_as_user storage i picture icon user s = Inr (u, s')"
  shows "shifts (\<lambda>_. 0) s s'"
proof -
  obtain s1 where r: "update_product_row i (\<lambda>p. p\<lparr>pr_image := picture, pr_icon := icon\<rparr>) s = Inr ((), s1)"
    and c: "core s' = core s1" by (rule set_image_steps [OF run])
  have "shifts (\<lambda>_. 0) s s1" by (rule shifts_update_product [OF ok r]) simp
  then show ?thesis using c by (rule shifts_core)
qed

lemma shifts_insert_product:
  assumes ok: "rows_ok s" and run: "insert_product i p s = Inr (u, s')"
  shows "shifts (\<lambda>_. 0) s s'"
proof (rule shifts_products [OF ok, of s' "products s'"])
  have new: "i \<notin> set (keys (products s))" and s': "s' = s\<lparr>products := tbl_ins i p (products s)\<rparr>"
    using run by (auto simp: insert_product_iff tbl_has_keys)
  then show "s' = s\<lparr>products := products s'\<rparr>" by simp
  show "distinct (keys (products s'))" using ok new by (simp add: s' rows_ok_def)
  fix k q assume "map_of (products s) k = Some q"
  with new map_of_tbl_ins [OF new] show "\<exists>q'. map_of (products s') k = Some q' \<and> pr_storage q' = pr_storage q"
    by (auto simp: s' dest: map_of_Some_in_keys)
qed

lemma create_product_steps:
  assumes "create_product storage inp s = Inr (r, s')"
  obtains i s1 where "new_id s = Inr (i, s1)" "r = (i, product_of storage inp (db_now s))"
    "pred_option (\<lambda>k. in_storage TreeCategories storage k s) (np_category inp)"
    "insert_product i (product_of storage inp (db_now s)) s1 = Inr ((), s')"
proof -
  obtain i s1 where "new_id s = Inr (i, s1)" "r = (i, product_of storage inp (db_now s1))"
    "pred_option (\<lambda>k. in_storage TreeCategories storage k s1) (np_category inp)"
    "insert_product i (product_of storage inp (db_now s1)) s1 = Inr ((), s')"
    using assms unfolding create_product_def
    by (auto simp: seq_tx_iff bind_tx_iff ret_tx_iff get_tx_iff require_category_iff)
  moreover from this(1) have "db_now s1 = db_now s" "tree_row TreeCategories s1 = tree_row TreeCategories s"
    by (auto simp: new_id_iff tree_row_def intro!: ext)
  ultimately show ?thesis by (intro that) (simp_all add: in_storage_def)
qed

lemma create_product_shifts:
  assumes ok: "rows_ok s" and run: "create_product storage inp s = Inr (r, s')"
  shows "shifts (\<lambda>_. 0) s s'"
proof -
  obtain i s1 where n: "new_id s = Inr (i, s1)"
    and ins: "insert_product i (product_of storage inp (db_now s)) s1 = Inr ((), s')"
    by (rule create_product_steps [OF run])
  note 1 = shifts_silent [OF silent_new_id n ok]
  from shifts_trans [OF 1 shifts_insert_product [OF shifts_rows [OF 1] ins]] show ?thesis by simp
qed

interpretation create_product_op: ledger_operation "\<lambda>(storage, inp). create_product storage inp"
  by unfold_locales (auto intro: create_product_shifts)

interpretation categorize: ledger_operation "\<lambda>(storage, i, c). set_product_category storage i c"
  by unfold_locales (auto elim!: set_category_steps intro: recategorize_shifts)

interpretation categorize_user: ledger_operation
  "\<lambda>(storage, i, c, user). set_product_category_as_user storage i c user"
  by unfold_locales (auto elim!: set_category_as_user_steps intro: shifts_core recategorize_shifts)

interpretation picture: ledger_operation
  "\<lambda>(storage, i, picture, icon, user). set_product_image_as_user storage i picture icon user"
  by unfold_locales (auto intro: set_image_shifts)

interpretation update_product_op: ledger_operation "\<lambda>(storage, i, patch). update_product storage i patch"
  by unfold_locales (auto intro: update_product_shifts)

lemma others_follow:
  assumes df: "dates_follow s" and u: "update_product_row i f s = Inr ((), s1)"
  shows "follow_except {i} s1"
proof -
  have "follows_rules s1 b = follows_rules s b" if "ba_product b \<noteq> i" for b
    by (rule follows_rules_cong) (use u that in \<open>simp_all add: update_product_row_iff\<close>)
  with df u show ?thesis by (auto simp: dates_follow_def follow_except_def update_product_row_iff)
qed

text \<open>
  Editing a product: the row becomes the patched one with a new update time and nothing else of it
  changes, every other product stays, quantities and the ledger equality are untouched, the count is
  that of the product's derived batches when the category or the shelf life was patched and zero
  otherwise, and if every derived date followed the rules before, every one does afterwards, provided
  the edit leaves the item type alone or goes through a recomputation.
\<close>

theorem update_product_correct:
  assumes inv: "stock_inv s" and run: "update_product storage i patch s = Inr (r, s')"
  shows "(\<exists>p. map_of (products s) i = Some p \<and> pr_storage p = storage
        \<and> fst r = (patched patch p)\<lparr>pr_updated := db_now s\<rparr> \<and> map_of (products s') i = Some (fst r)
        \<and> snd r = (if touches_expiry_rules patch then card (derived_of i (batches s)) else 0)
        \<and> (dates_follow s \<longrightarrow> touches_expiry_rules patch \<or> pr_item_type (fst r) = pr_item_type p \<longrightarrow> dates_follow s'))
    \<and> (\<forall>j. j \<noteq> i \<longrightarrow> map_of (products s') j = map_of (products s) j)
    \<and> stock_inv s' \<and> (\<forall>j. stock_total j s' = stock_total j s) \<and> logs s' = logs s"
proof -
  obtain p s1 where p: "map_of (products s) i = Some p" "pr_storage p = storage"
    and u: "update_product_row i (patched patch) s = Inr ((), s1)"
    and out: "fst r = (patched patch p)\<lparr>pr_updated := db_now s\<rparr>"
    and r: "if touches_expiry_rules patch then recompute_derived_expiry storage i s1 = Inr (snd r, s')
     else snd r = 0 \<and> s' = s1" by (rule update_product_steps [OF run])
  have s1: "products s1 = tbl_upd i (\<lambda>p. (patched patch p)\<lparr>pr_updated := db_now s\<rparr>) (products s)"
    "batches s1 = batches s" "logs s1 = logs s" using u by (simp_all add: update_product_row_iff)
  have d: "distinct (keys (batches s1))" using inv s1 by (simp add: stock_inv_def rows_ok_def)
  have frame: "products s' = products s1 \<and> logs s' = logs s1
      \<and> snd r = (if touches_expiry_rules patch then card (derived_of i (batches s)) else 0)"
  proof (cases "touches_expiry_rules patch")
    case True
    with r have run2: "recompute_derived_expiry storage i s1 = Inr (snd r, s')" by simp
    show ?thesis by (rule recompute_effect [OF d run2]) (use True s1 in simp)
  next
    case False
    with r show ?thesis by simp
  qed
  have inv': "stock_inv s'" using update_product_op.commit_keeps [of s "(storage, i, patch)"] inv run by simp
  have totals: "stock_total j s' = stock_total j s" for j
    using stock_of_ledger [OF inv inv'] frame s1 by simp
  have follow: "dates_follow s'" if df: "dates_follow s"
    and c: "touches_expiry_rules patch \<or> pr_item_type (fst r) = pr_item_type p"
  proof (cases "touches_expiry_rules patch")
    case True
    with r have run2: "recompute_derived_expiry storage i s1 = Inr (snd r, s')" by simp
    from recompute_makes_follow [OF d run2 others_follow [OF df u]] show ?thesis .
  next
    case False
    with c r out have same: "s' = s1" "pr_item_type (patched patch p) = pr_item_type p"
      "pr_days (patched patch p) = pr_days p" "pr_category (patched patch p) = pr_category p"
      "pr_catalog (patched patch p) = pr_catalog p"
      by (simp_all add: touches_expiry_rules_def patched_def)
    have rules: "product_rules storage ((patched patch p)\<lparr>pr_updated := t\<rparr>) s1 = product_rules storage p s" for t
    proof -
      have "product_rules storage ((patched patch p)\<lparr>pr_updated := t\<rparr>) s1
          = product_rules storage ((patched patch p)\<lparr>pr_updated := t\<rparr>) s"
        by (rule product_rules_cong) (use u in \<open>simp_all add: update_product_row_iff\<close>)
      with same(2-) show ?thesis by (simp add: product_rules_def)
    qed
    have "follows_rules s1 b" if b: "(k, b) \<in> set (batches s1)" for k b
    proof (cases "ba_product b = i")
      case True
      then have "rule_date s1 b = rule_date s b" using p rules s1(1) by (simp add: rule_date_def)
      with df b s1(2) show ?thesis by (auto simp: dates_follow_def follows_rules_def)
    next
      case False
      with others_follow [OF df u] b show ?thesis by (auto simp: follow_except_def)
    qed
    with same(1) show ?thesis by (auto simp: dates_follow_def)
  qed
  have upd: "map_of (products s') j = (if j = i then Some (fst r) else map_of (products s) j)" for j
    using frame s1(1) p out by simp
  from p out follow upd frame inv' totals s1(3) show ?thesis by auto
qed

text \<open>The demonstration storage with its batch under the rules and dated by them.\<close>

definition fresh_db :: db where
  "fresh_db = demo_db\<lparr>batches := [(20, demo_batch\<lparr>ba_source := ExpirationDerived, ba_expiration := Some 7\<rparr>)]\<rparr>"

definition retype_patch :: product_patch where
  "retype_patch = \<lparr>pp_name = None, pp_set_category = False, pp_category = None, pp_item_type = Some NonPerishable,
     pp_min_stock = None, pp_set_days = False, pp_days = None, pp_set_icon = False, pp_icon = None\<rparr>"

lemma fresh_stock_inv: "stock_inv fresh_db"
  by (simp add: stock_inv_def rows_ok_def batch_ok_def log_ok_def container_ok_def tbl_has_def
      ledger_total_def stock_total_def fresh_db_def demo_defs)

lemma fresh_follows: "dates_follow fresh_db"
  by (simp add: dates_follow_def follows_rules_def rule_date_def product_rules_def resolve_def
      item_type_fallback_days_def date_for_def day_of_def fresh_db_def demo_defs)

lemma fresh_update: "\<exists>r s'. update_product 2 5 (retype_patch\<lparr>pp_set_days := True, pp_days := Some 9\<rparr>) fresh_db = Inr (r, s')"
  by (simp add: update_product_def recompute_derived_expiry_def apply_derived_expiry_def
      load_derived_batches_def tx_iff require_category_def retype_patch_def touches_expiry_rules_def)
    (simp add: fresh_db_def demo_defs tbl_select_def redate_batch_iff bind_tx_iff ret_tx_iff
      columns_ok_def patched_def coalesce_to_def item_type_fallback_days_def int4_def)

theorem update_product_correct_witness:
  "\<exists>r s'. update_product 2 5 (retype_patch\<lparr>pp_set_days := True, pp_days := Some 9\<rparr>) fresh_db = Inr (r, s')
     \<and> dates_follow s' \<and> pr_days (fst r) = Some 9 \<and> stock_inv s'"
proof -
  obtain r s' where run: "update_product 2 5 (retype_patch\<lparr>pp_set_days := True, pp_days := Some 9\<rparr>) fresh_db = Inr (r, s')"
    using fresh_update by blast
  have "touches_expiry_rules (retype_patch\<lparr>pp_set_days := True, pp_days := Some 9\<rparr>)"
    by (simp add: touches_expiry_rules_def)
  with update_product_correct [OF fresh_stock_inv run] fresh_follows
  have "dates_follow s' \<and> pr_days (fst r) = Some 9 \<and> stock_inv s'" by (auto simp: patched_def)
  with run show ?thesis by blast
qed

text \<open>
  An edit of the item type alone skips the recomputation: from a state in which every derived date
  follows the rules it commits to one in which a derived date does not. Here milk becomes
  non-perishable and its batch keeps the date of seven days.
\<close>

theorem item_type_edit_leaves_stale_dates:
  "\<exists>r s'. dates_follow fresh_db \<and> in_tx (update_product 2 5 retype_patch) fresh_db = (Inr r, s')
     \<and> \<not> dates_follow s'"
proof -
  have "\<exists>r s'. update_product 2 5 retype_patch fresh_db = Inr (r, s') \<and> \<not> dates_follow s'"
    by (simp add: update_product_def tx_iff retype_patch_def touches_expiry_rules_def)
      (simp add: fresh_db_def demo_defs columns_ok_def patched_def coalesce_to_def item_type_fallback_days_def
        int4_def dates_follow_def follows_rules_def rule_date_def product_rules_def resolve_def date_for_def)
  then show ?thesis using fresh_follows by (auto simp: in_tx_def)
qed

text \<open>
  A split of a batch keeps the date of the jars on both halves, but gives the half that moves a
  creation time of its own: five days later, the recomputation that any rule change triggers leaves the
  half that stayed at day 7 and moves the other to day 12.
\<close>

theorem split_half_forgets_age:
  "\<exists>v s1 n s2. dates_follow fresh_db
     \<and> in_tx (split_batch 2 20 demo_split None) (fresh_db\<lparr>db_now := 5 * ns_per_day\<rparr>) = (Inr v, s1)
     \<and> in_tx (recompute_derived_expiry 2 5) s1 = (Inr n, s2)
     \<and> map_option ba_expiration (map_of (batches s1) (bv_id v)) = Some (Some 7)
     \<and> map_option ba_expiration (map_of (batches s2) 20) = Some (Some 7)
     \<and> map_option ba_expiration (map_of (batches s2) (bv_id v)) = Some (Some 12)"
proof -
  let ?s = "fresh_db\<lparr>db_now := 5 * ns_per_day\<rparr>"
  let ?old = "demo_batch\<lparr>ba_source := ExpirationDerived, ba_expiration := Some 7, ba_quantity := 2\<rparr>"
  let ?new = "\<lparr>ba_product = 5, ba_location = 11, ba_quantity = 1, ba_expiration = Some 7,
     ba_source = ExpirationDerived, ba_created = 5 * ns_per_day, ba_container = None\<rparr>"
  have "\<exists>s1. split_batch 2 20 demo_split None ?s
      = Inr (\<lparr>bv_id = 100, bv_row = ?new, bv_label = None, bv_type = None\<rparr>, s1)
      \<and> batches s1 = [(20, ?old), (100, ?new)] \<and> products s1 = [(5, demo_product)]"
    by (simp add: split_batch_def Let_def demo_split_def valid_container_disposition_def tx_iff fresh_db_def demo_defs
        find_batch_def in_storage_def tree_row_def split_source_container_def int4_def user_exists_def
        tbl_has_def map_of_tbl_ins join_container_def)
      (simp add: tbl_ins_def tbl_upd_def tbl_map_def)
  then obtain s1 v where split: "split_batch 2 20 demo_split None ?s = Inr (v, s1)" and v: "bv_id v = 100"
    and b: "batches s1 = [(20, ?old), (100, ?new)]" and p: "products s1 = [(5, demo_product)]" by fastforce
  let ?s2 = "s1\<lparr>batches := [(20, ?old), (100, ?new\<lparr>ba_expiration := Some 12\<rparr>)]\<rparr>"
  have "recompute_derived_expiry 2 5 s1 = Inr (2, ?s2)"
    by (simp add: recompute_derived_expiry_def apply_derived_expiry_def load_derived_batches_def tx_iff b p
        demo_product_def tbl_select_def demo_batch_def redate_batch_iff bind_tx_iff ret_tx_iff)
      (simp add: tbl_map_def product_rules_def resolve_def item_type_fallback_days_def date_for_def day_of_def ns_per_day_def)
  with split v b fresh_follows show ?thesis by (auto simp: demo_batch_def)
qed

section \<open>Deleting\<close>

lemma delete_product_row_iff [tx_iff]:
  "delete_product_row i s = Inr r \<longleftrightarrow> r = ((), s\<lparr>products := tbl_del (\<lambda>k _. k = i) (products s),
     batches := tbl_del (\<lambda>_ b. ba_product b = i) (batches s),
     logs := tbl_map (\<lambda>_ l. map_option ba_product (Option.bind (lg_batch l) (map_of (batches s))) = Some i)
       (\<lambda>l. l\<lparr>lg_batch := None\<rparr>) (tbl_del (\<lambda>_ l. lg_product l = i) (logs s)),
     product_barcodes := tbl_del (\<lambda>_ b. bc_product b = i) (product_barcodes s),
     shopping_items := tbl_map (\<lambda>_ x. si_matched x = Some i) (\<lambda>x. x\<lparr>si_matched := None\<rparr>) (shopping_items s)\<rparr>)"
  by (simp only: delete_product_row_def mod_tx_iff)

text \<open>Deleting a product erases its share of ledger and shelf and no other product's.\<close>

lemma delete_row_effect:
  assumes ok: "rows_ok s" and run: "delete_product_row i s = Inr (u, s')"
  shows "rows_ok s'"
    and "stock_total p s' = (if p = i then 0 else stock_total p s)"
    and "ledger_total p s' = (if p = i then 0 else ledger_total p s)"
proof -
  let ?null = "\<lambda>_ l. map_option ba_product (Option.bind (lg_batch l) (map_of (batches s))) = Some i"
  have prod: "products s' = tbl_del (\<lambda>k _. k = i) (products s)"
    and bat: "batches s' = tbl_del (\<lambda>_ b. ba_product b = i) (batches s)"
    and log: "logs s' = tbl_map ?null (\<lambda>l. l\<lparr>lg_batch := None\<rparr>) (tbl_del (\<lambda>_ l. lg_product l = i) (logs s))"
    and same: "locations s' = locations s" "containers s' = containers s"
    using run by (simp_all add: delete_product_row_iff)
  have d: "distinct (keys (products s))" "distinct (keys (batches s))" using ok by (simp_all add: rows_ok_def)
  have p: "map_of (products s') k = (if k = i then None else map_of (products s) k)" for k
    using map_of_tbl_del [OF d(1)] by (simp add: prod split: option.split)
  have b_ok: "batch_ok s' b" if "(k, b) \<in> set (batches s')" for k b
  proof -
    have "batch_ok s b" "ba_product b \<noteq> i" using that ok by (auto simp: bat set_tbl_del rows_ok_def)
    then show ?thesis by (auto simp: batch_ok_def container_ok_def p same)
  qed
  have l_ok: "log_ok s' l" if l: "(k, l) \<in> set (logs s')" for k l
  proof -
    from l obtain l0 where l0: "(k, l0) \<in> set (logs s)" "lg_product l0 \<noteq> i"
      "l = (if ?null k l0 then l0\<lparr>lg_batch := None\<rparr> else l0)" by (auto simp: log set_tbl_map set_tbl_del)
    have "log_ok s l0" using ok l0(1) by (auto simp: rows_ok_def)
    then show ?thesis using l0(2,3)
      by (cases "lg_batch l0") (auto simp: log_ok_def tbl_has_def p bat map_of_tbl_del [OF d(2)] split: option.split)
  qed
  have keys: "distinct (keys (products s'))" "distinct (keys (batches s'))" "distinct (keys (logs s'))"
    using ok by (simp_all add: prod bat log distinct_keys_tbl_del rows_ok_def)
  from b_ok l_ok keys ok show "rows_ok s'" by (auto simp: rows_ok_def same)
  show "stock_total p s' = (if p = i then 0 else stock_total p s)"
    by (auto simp: stock_total_def bat set_tbl_del intro: tbl_sum_zero tbl_sum_del_zero)
  have "ledger_total p s' = tbl_sum (\<lambda>_ l. if lg_product l = p then lg_change l else 0)
      (tbl_del (\<lambda>_ l. lg_product l = i) (logs s))"
    by (simp add: ledger_total_def log tbl_sum_map_cong)
  then show "ledger_total p s' = (if p = i then 0 else ledger_total p s)"
    by (auto simp: ledger_total_def set_tbl_del intro: tbl_sum_zero tbl_sum_del_zero)
qed

lemma delete_product_steps:
  assumes "delete_product storage i s = Inr (url, s')"
  obtains p s1 s2 where "map_of (products s) i = Some p" "pr_storage p = storage"
    "delete_product_row i s = Inr ((), s1)" "record_tombstones storage TombstoneProduct [i] s1 = Inr ((), s2)"
    "orphaned_image (pr_image p) s2 = Inr (url, s')" "s' = s2"
  using assms unfolding delete_product_def
  by (auto simp: seq_tx_iff bind_tx_iff require_product_iff row_tx_iff orphaned_image_iff)

lemma tombstone_rows: "record_tombstones storage kind [e] s = Inr ((), s') \<Longrightarrow>
  batches s' = batches s \<and> logs s' = logs s \<and> products s' = products s \<and> locations s' = locations s
  \<and> containers s' = containers s \<and> categories s' = categories s \<and> catalog s' = catalog s
  \<and> product_barcodes s' = product_barcodes s \<and> shopping_items s' = shopping_items s \<and> db_now s' = db_now s"
  by (auto simp: record_tombstone_iff)

lemma delete_product_stock:
  assumes inv: "stock_inv s" and run: "delete_product storage i s = Inr (url, s')"
  shows "stock_inv s'"
proof -
  obtain s1 where del: "delete_product_row i s = Inr ((), s1)"
    and ts: "record_tombstones storage TombstoneProduct [i] s1 = Inr ((), s')"
    by (rule delete_product_steps [OF run]) simp
  note e = delete_row_effect [OF stock_inv_rows [OF inv] del]
  have "gap s1 p = 0" for p using inv by (simp add: gap_def e stock_inv_def)
  moreover have "shifts (\<lambda>_. 0) s1 s'" by (rule shifts_other [OF e(1)]) (use tombstone_rows [OF ts] in simp_all)
  ultimately show ?thesis by (simp add: stock_inv_gap shifts_def)
qed

interpretation delete_product_op: stock_operation "\<lambda>(storage, i). delete_product storage i"
  by unfold_locales (auto intro: delete_product_stock)

text \<open>
  Deleting a product removes its row, its batches, its ledger and its barcodes and clears the
  shopping lines matched to it, leaves one tombstone, touches no other product, batch or total, and
  keeps every date that followed the rules. The returned file is the product's picture exactly when
  it had one that no remaining product of any storage uses.
\<close>

theorem delete_product_correct:
  assumes inv: "stock_inv s" and run: "delete_product storage i s = Inr (url, s')"
  shows "(\<exists>p. map_of (products s) i = Some p \<and> pr_storage p = storage
        \<and> url = (case pr_image p of None \<Rightarrow> [] | Some u \<Rightarrow> if \<exists>j q. map_of (products s) j = Some q \<and> j \<noteq> i
            \<and> pr_image q = Some u then [] else u))
    \<and> (\<forall>j. map_of (products s') j = (if j = i then None else map_of (products s) j))
    \<and> (\<forall>k. map_of (batches s') k = Option.bind (map_of (batches s) k) (\<lambda>b. if ba_product b = i then None else Some b))
    \<and> (\<forall>j. stock_total j s' = (if j = i then 0 else stock_total j s))
    \<and> stock_inv s' \<and> i \<notin> lg_product ` snd ` set (logs s')
    \<and> i \<notin> bc_product ` snd ` set (product_barcodes s') \<and> Some i \<notin> si_matched ` snd ` set (shopping_items s')
    \<and> (\<exists>k. last (tombstones s') = (k, \<lparr>ts_storage = storage, ts_kind = TombstoneProduct, ts_entity = i, ts_deleted = db_now s\<rparr>))
    \<and> (dates_follow s \<longrightarrow> dates_follow s')"
proof -
  obtain p s1 where p: "map_of (products s) i = Some p" "pr_storage p = storage"
    and del: "delete_product_row i s = Inr ((), s1)"
    and ts: "record_tombstones storage TombstoneProduct [i] s1 = Inr ((), s')"
    and url: "orphaned_image (pr_image p) s' = Inr (url, s')" by (rule delete_product_steps [OF run]) simp
  have ok: "rows_ok s" using inv by (rule stock_inv_rows)
  then have d: "distinct (keys (products s))" "distinct (keys (batches s))" by (simp_all add: rows_ok_def)
  note t = tombstone_rows [OF ts]
  have prod: "map_of (products s') j = (if j = i then None else map_of (products s) j)" for j
    using t del map_of_tbl_del [OF d(1)] by (simp add: delete_product_row_iff split: option.split)
  have mem: "(j, q) \<in> set (products s') \<longleftrightarrow> map_of (products s) j = Some q \<and> j \<noteq> i" for j q
    using t del in_table_map_of [OF d(1)] by (auto simp: delete_product_row_iff set_tbl_del)
  have bat: "map_of (batches s') k = Option.bind (map_of (batches s) k) (\<lambda>b. if ba_product b = i then None else Some b)" for k
    using t del map_of_tbl_del [OF d(2)] by (simp add: delete_product_row_iff split: option.split)
  have img: "url = (case pr_image p of None \<Rightarrow> [] | Some u \<Rightarrow> if \<exists>j q. map_of (products s) j = Some q \<and> j \<noteq> i
            \<and> pr_image q = Some u then [] else u)"
  proof -
    have "(\<exists>(_, q) \<in> set (products s'). pr_image q = Some u) \<longleftrightarrow> (\<exists>j q. (j, q) \<in> set (products s') \<and> pr_image q = Some u)" for u
      by auto
    with url show ?thesis by (auto simp: orphaned_image_iff mem split: option.splits)
  qed
  have total: "stock_total j s' = (if j = i then 0 else stock_total j s)" for j
    using delete_row_effect(2) [OF ok del] t by (simp add: stock_total_def)
  have gone: "i \<notin> lg_product ` snd ` set (logs s')" "i \<notin> bc_product ` snd ` set (product_barcodes s')"
    using t del by (auto simp: delete_product_row_iff set_tbl_map set_tbl_del split: if_splits)
  have "shopping_items s' = tbl_map (\<lambda>_ x. si_matched x = Some i) (\<lambda>x. x\<lparr>si_matched := None\<rparr>) (shopping_items s)"
    using t del by (simp add: delete_product_row_iff)
  then have unmatched: "Some i \<notin> si_matched ` snd ` set (shopping_items s')"
    by (simp only:, intro tbl_map_off [where owner = si_matched]) simp
  have tomb: "\<exists>k. last (tombstones s') = (k, \<lparr>ts_storage = storage, ts_kind = TombstoneProduct, ts_entity = i, ts_deleted = db_now s\<rparr>)"
    using ts del by (auto simp: record_tombstone_iff delete_product_row_iff tbl_ins_def)
  have follow: "dates_follow s'" if df: "dates_follow s"
    unfolding dates_follow_def
  proof (clarify)
    fix k b assume b: "(k, b) \<in> set (batches s')"
    then have b0: "(k, b) \<in> set (batches s)" "ba_product b \<noteq> i"
      using t del by (auto simp: delete_product_row_iff set_tbl_del)
    have "follows_rules s' b = follows_rules s b"
      by (rule follows_rules_cong) (use t del prod b0 in \<open>simp_all add: delete_product_row_iff\<close>)
    with df b0 show "follows_rules s' b" by (auto simp: dates_follow_def)
  qed
  have "stock_inv s'" using delete_product_op.commit_keeps [of s "(storage, i)"] inv run by simp
  with p img prod bat total gone unmatched tomb follow show ?thesis by auto
qed

section \<open>Merging\<close>

lemma lock_product_iff [tx_iff]:
  "lock_product storage i s = Inr r \<longleftrightarrow>
     (\<exists>p. map_of (products s) i = Some p \<and> pr_storage p = storage) \<and> r = ((), s)"
  by (auto simp: lock_product_def tx_iff)

lemma repoint_barcodes_iff:
  "repoint_barcodes storage survivor source s = Inr r \<longleftrightarrow> r = ((), s\<lparr>product_barcodes :=
     tbl_map (\<lambda>k b. fst k = storage \<and> bc_product b = source) (\<lambda>b. b\<lparr>bc_product := survivor\<rparr>)
       (tbl_del (\<lambda>k b. fst k = storage \<and> bc_product b = source
         \<and> (\<exists>(k', b') \<in> set (product_barcodes s). fst k' = storage \<and> bc_product b' = survivor \<and> snd k' = snd k))
         (product_barcodes s))\<rparr>)"
  by (simp add: repoint_barcodes_def seq_tx_iff mod_tx_iff)

lemma repoint_batches_iff:
  "repoint_batches survivor source s = Inr r \<longleftrightarrow>
     r = (length (tbl_select (\<lambda>_ b. ba_product b = source) (batches s)), s\<lparr>batches :=
       tbl_map (\<lambda>_ b. ba_product b = source) (\<lambda>b. b\<lparr>ba_product := survivor\<rparr>) (batches s)\<rparr>)"
  by (auto simp: repoint_batches_def bind_tx_iff seq_tx_iff get_tx_iff mod_tx_iff ret_tx_iff)

lemma repoint_history_iff:
  "repoint_history survivor source s = Inr r \<longleftrightarrow> r = ((), s\<lparr>
     logs := tbl_map (\<lambda>_ l. lg_product l = source) (\<lambda>l. l\<lparr>lg_product := survivor\<rparr>) (logs s),
     shopping_items := tbl_map (\<lambda>_ x. si_matched x = Some source) (\<lambda>x. x\<lparr>si_matched := Some survivor\<rparr>)
       (shopping_items s)\<rparr>)"
  by (auto simp: repoint_history_def seq_tx_iff mod_tx_iff)

text \<open>History and stock that change hands inside one storage.\<close>

lemma repoint_effect:
  assumes ok: "rows_ok s" and ne: "source \<noteq> survivor"
    and p: "map_of (products s) survivor = Some p" "map_of (products s) source = Some q" "pr_storage q = pr_storage p"
    and b: "batches s' = tbl_map (\<lambda>_ b. ba_product b = source) (\<lambda>b. b\<lparr>ba_product := survivor\<rparr>) (batches s)"
    and l: "logs s' = tbl_map (\<lambda>_ l. lg_product l = source) (\<lambda>l. l\<lparr>lg_product := survivor\<rparr>) (logs s)"
    and same: "products s' = products s" "locations s' = locations s" "containers s' = containers s"
  shows "rows_ok s'"
    and "stock_total k s' = (if k = source then 0
           else stock_total k s + (if k = survivor then stock_total source s else 0))"
    and "ledger_total k s' = (if k = source then 0
           else ledger_total k s + (if k = survivor then ledger_total source s else 0))"
proof -
  have b_ok: "batch_ok s' r" if r: "(k, r) \<in> set (batches s')" for k r
  proof -
    from r obtain r0 where r0: "(k, r0) \<in> set (batches s)"
      "r = (if ba_product r0 = source then r0\<lparr>ba_product := survivor\<rparr> else r0)" by (auto simp: b set_tbl_map)
    have "batch_ok s r0" using ok r0(1) by (auto simp: rows_ok_def)
    then show ?thesis using r0(2) p by (auto simp: batch_ok_def container_ok_def same)
  qed
  have l_ok: "log_ok s' r" if r: "(k, r) \<in> set (logs s')" for k r
  proof -
    from r obtain r0 where r0: "(k, r0) \<in> set (logs s)"
      "r = (if lg_product r0 = source then r0\<lparr>lg_product := survivor\<rparr> else r0)" by (auto simp: l set_tbl_map)
    have "log_ok s r0" using ok r0(1) by (auto simp: rows_ok_def)
    then show ?thesis using r0(2) p by (auto simp: log_ok_def same b tbl_has_def map_of_tbl_map)
  qed
  from b_ok l_ok ok show "rows_ok s'" by (auto simp: rows_ok_def same b l)
  show "stock_total k s' = (if k = source then 0
           else stock_total k s + (if k = survivor then stock_total source s else 0))"
    unfolding stock_total_def b by (rule tbl_sum_repoint [OF ne]) simp
  show "ledger_total k s' = (if k = source then 0
           else ledger_total k s + (if k = survivor then ledger_total source s else 0))"
    unfolding ledger_total_def l by (rule tbl_sum_repoint [OF ne]) simp
qed

text \<open>Codes of the source after the re-point, all of them the survivor's.\<close>

definition repointed_barcodes ::
    "uuid \<Rightarrow> uuid \<Rightarrow> uuid \<Rightarrow> ((uuid \<times> string) \<times> product_barcode) list \<Rightarrow> ((uuid \<times> string) \<times> product_barcode) list" where
  "repointed_barcodes storage survivor source t =
     tbl_map (\<lambda>k b. fst k = storage \<and> bc_product b = source) (\<lambda>b. b\<lparr>bc_product := survivor\<rparr>)
       (tbl_del (\<lambda>k b. fst k = storage \<and> bc_product b = source
         \<and> (\<exists>(k', b') \<in> set t. fst k' = storage \<and> bc_product b' = survivor \<and> snd k' = snd k)) t)"

lemma repoint_all_iff:
  "repoint_all storage survivor source s = Inr r \<longleftrightarrow>
     r = (length (tbl_select (\<lambda>_ b. ba_product b = source) (batches s)), s\<lparr>
       product_barcodes := repointed_barcodes storage survivor source (product_barcodes s),
       batches := tbl_map (\<lambda>_ b. ba_product b = source) (\<lambda>b. b\<lparr>ba_product := survivor\<rparr>) (batches s),
       logs := tbl_map (\<lambda>_ l. lg_product l = source) (\<lambda>l. l\<lparr>lg_product := survivor\<rparr>) (logs s),
       shopping_items := tbl_map (\<lambda>_ x. si_matched x = Some source) (\<lambda>x. x\<lparr>si_matched := Some survivor\<rparr>)
         (shopping_items s)\<rparr>)"
  by (simp add: repoint_all_def seq_tx_iff bind_tx_iff repoint_barcodes_iff repoint_batches_iff
      repoint_history_iff ret_tx_iff repointed_barcodes_def)

lemma merge_steps:
  assumes "merge_products storage survivor source s = Inr (r, s')"
  obtains p q moved s0 s1 s2 s3 s4 s5 where "survivor \<noteq> source"
    "map_of (products s) survivor = Some p" "pr_storage p = storage"
    "map_of (products s) source = Some q" "pr_storage q = storage"
    "load_derived_batches source s = Inr (moved, s0)"
    "repoint_all storage survivor source s0 = Inr (mr_moved r, s1)"
    "apply_derived_expiry moved (resolve (product_rules storage p s1)) s1 = Inr (mr_recomputed r, s2)"
    "delete_product_row source s2 = Inr ((), s3)"
    "record_tombstones storage TombstoneProduct [source] s3 = Inr ((), s4)"
    "orphaned_image (pr_image q) s4 = Inr (mr_orphan r, s5)"
    "update_product_row survivor id s5 = Inr ((), s')"
    "map_of (products s') survivor = Some (mr_survivor r)"
proof -
  have both: "(\<exists>p. map_of (products s) (min survivor source) = Some p \<and> pr_storage p = storage)
      \<and> (\<exists>p. map_of (products s) (max survivor source) = Some p \<and> pr_storage p = storage) \<longleftrightarrow>
      (\<exists>p. map_of (products s) survivor = Some p \<and> pr_storage p = storage)
      \<and> (\<exists>p. map_of (products s) source = Some p \<and> pr_storage p = storage)"
    by (auto simp: min_def max_def)
  obtain img moved s0 s1 pr s2 s3 s4 s5 where *: "survivor \<noteq> source"
    "\<exists>p. map_of (products s) (min survivor source) = Some p \<and> pr_storage p = storage"
    "\<exists>p. map_of (products s) (max survivor source) = Some p \<and> pr_storage p = storage"
    "map_option pr_image (map_of (products s) source) = Some img"
    "load_derived_batches source s = Inr (moved, s0)"
    "repoint_all storage survivor source s0 = Inr (mr_moved r, s1)"
    "map_of (products s1) survivor = Some pr"
    "apply_derived_expiry moved (resolve (product_rules storage pr s1)) s1 = Inr (mr_recomputed r, s2)"
    "delete_product_row source s2 = Inr ((), s3)"
    "record_tombstones storage TombstoneProduct [source] s3 = Inr ((), s4)"
    "orphaned_image img s4 = Inr (mr_orphan r, s5)"
    "update_product_row survivor id s5 = Inr ((), s')"
    "map_of (products s') survivor = Some (mr_survivor r)"
    using assms unfolding merge_products_def
    by (simp only: bind_tx_iff seq_tx_iff ret_tx_iff fail_tx_iff row_tx_iff lock_product_iff expiry_rules_iff
        split: if_split_asm) (clarify; simp)
  then obtain p q where "map_of (products s) survivor = Some p" "pr_storage p = storage"
    "map_of (products s) source = Some q" "pr_storage q = storage" using both by blast
  moreover have "s0 = s" using *(5) by (simp add: load_derived_batches_def get_tx_iff)
  then have "products s1 = products s" using *(6) by (simp add: repoint_all_iff)
  ultimately show ?thesis using * by (intro that [of p q moved s0 s1 s2 s3 s4 s5]) simp_all
qed

definition merged_batch :: "uuid \<Rightarrow> uuid \<Rightarrow> resolution \<Rightarrow> batch \<Rightarrow> batch" where
  "merged_batch survivor source res b =
     (if ba_product b \<noteq> source then b
      else if ba_source b = ExpirationDerived
      then b\<lparr>ba_product := survivor, ba_expiration := date_for (ba_created b) res\<rparr>
      else b\<lparr>ba_product := survivor\<rparr>)"

lemma merged_batch_product [simp]:
  "ba_product (merged_batch survivor source res b) = (if ba_product b = source then survivor else ba_product b)"
  by (simp add: merged_batch_def)

text \<open>Re-pointing and redating together, row by row.\<close>

lemma redate_repointed:
  assumes d: "distinct (keys t)"
  shows "redate (derived_of source t) res (tbl_map (\<lambda>_ b. ba_product b = source) (\<lambda>b. b\<lparr>ba_product := survivor\<rparr>) t)
    = map (\<lambda>(k, b). (k, merged_batch survivor source res b)) t"
proof -
  have "k \<in> derived_of source t \<longleftrightarrow> ba_product b = source \<and> ba_source b = ExpirationDerived" if "(k, b) \<in> set t" for k b
    using derived_of_map_of [OF d] in_table_map_of [OF d] that by blast
  then show ?thesis by (auto simp: redate_def tbl_map_def merged_batch_def)
qed

text \<open>Deleting a product nothing refers to but its barcodes.\<close>

lemma delete_row_bare:
  assumes b: "\<And>k b. (k, b) \<in> set (batches s) \<Longrightarrow> ba_product b \<noteq> i"
    and l: "\<And>k l. (k, l) \<in> set (logs s) \<Longrightarrow> lg_product l \<noteq> i"
    and x: "\<And>k x. (k, x) \<in> set (shopping_items s) \<Longrightarrow> si_matched x \<noteq> Some i"
  shows "delete_product_row i s = Inr ((), s\<lparr>products := tbl_del (\<lambda>k _. k = i) (products s),
    product_barcodes := tbl_del (\<lambda>_ b. bc_product b = i) (product_barcodes s)\<rparr>)"
proof -
  have "map_option ba_product (Option.bind (lg_batch l) (map_of (batches s))) \<noteq> Some i" for l
  proof
    assume "map_option ba_product (Option.bind (lg_batch l) (map_of (batches s))) = Some i"
    then obtain k b where "map_of (batches s) k = Some b" "ba_product b = i" by (auto simp: bind_eq_Some_conv)
    with b [of k b] show False by (auto dest: map_of_SomeD)
  qed
  then have "tbl_map (\<lambda>_ l. map_option ba_product (Option.bind (lg_batch l) (map_of (batches s))) = Some i)
      (\<lambda>l. l\<lparr>lg_batch := None\<rparr>) t = t" for t :: "log_row table" by (intro tbl_map_none)
  moreover have "tbl_del (\<lambda>_ b. ba_product b = i) (batches s) = batches s" by (rule tbl_del_none) (rule b)
  moreover have "tbl_del (\<lambda>_ l. lg_product l = i) (logs s) = logs s" by (rule tbl_del_none) (rule l)
  moreover have "tbl_map (\<lambda>_ x. si_matched x = Some i) (\<lambda>x. x\<lparr>si_matched := None\<rparr>) (shopping_items s) = shopping_items s"
    by (rule tbl_map_none) (rule x)
  ultimately show ?thesis by (simp add: delete_product_row_def mod_tx_def)
qed

lemma apply_moved_effect:
  assumes d: "distinct (keys (batches s))" and m: "load_derived_batches source s = Inr (moved, s)"
    and s1: "batches s1 = tbl_map (\<lambda>_ b. ba_product b = source) (\<lambda>b. b\<lparr>ba_product := survivor\<rparr>) (batches s)"
    and run: "apply_derived_expiry moved res s1 = Inr (n, s2)"
  shows "s2 = s1\<lparr>batches := map (\<lambda>(k, b). (k, merged_batch survivor source res b)) (batches s)\<rparr>
    \<and> n = card (derived_of source (batches s))"
proof -
  note l = load_derived_effect [OF d m]
  have own: "own_times moved (batches s1)" using l(3) by (fastforce simp: own_times_def s1 set_tbl_map)
  note e = apply_fold_effect [OF run [unfolded apply_derived_expiry_def] own]
  have one: "length (tbl_select (\<lambda>i b. i = fst x \<and> ba_source b = ExpirationDerived) (batches s1)) = 1"
    if x: "x \<in> set moved" for x
  proof -
    have "(fst x, snd x) \<in> set moved" using x by simp
    from l(5) [OF this] obtain b where "map_of (batches s) (fst x) = Some b" "ba_source b = ExpirationDerived" by blast
    moreover have "distinct (keys (batches s1))" using d by (simp add: s1)
    ultimately show ?thesis
      using select_key_length [of "batches s1" "fst x" "if ba_product b = source then b\<lparr>ba_product := survivor\<rparr> else b"
        "\<lambda>b. ba_source b = ExpirationDerived"] by (simp add: s1 map_of_tbl_map)
  qed
  then have "map (\<lambda>d. length (tbl_select (\<lambda>i b. i = fst d \<and> ba_source b = ExpirationDerived) (batches s1))) moved
      = map (\<lambda>_. 1) moved" by (intro map_cong) simp_all
  then have "n = card (derived_of source (batches s))" using e l(4) by (simp add: sum_list_replicate map_replicate_const)
  with e l(2) redate_repointed [OF d] show ?thesis by (simp add: s1)
qed

lemma merge_effect:
  assumes ok: "rows_ok s" and run: "merge_products storage survivor source s = Inr (r, s')"
  obtains p q where "survivor \<noteq> source"
    "map_of (products s) survivor = Some p" "pr_storage p = storage"
    "map_of (products s) source = Some q" "pr_storage q = storage"
    "mr_survivor r = p\<lparr>pr_updated := db_now s\<rparr>"
    "products s' = tbl_upd survivor (\<lambda>p. p\<lparr>pr_updated := db_now s\<rparr>) (tbl_del (\<lambda>k _. k = source) (products s))"
    "batches s' = map (\<lambda>(k, b). (k, merged_batch survivor source (resolve (product_rules storage p s)) b)) (batches s)"
    "logs s' = tbl_map (\<lambda>_ l. lg_product l = source) (\<lambda>l. l\<lparr>lg_product := survivor\<rparr>) (logs s)"
    "product_barcodes s' = tbl_del (\<lambda>_ b. bc_product b = source) (repointed_barcodes storage survivor source (product_barcodes s))"
    "shopping_items s' = tbl_map (\<lambda>_ x. si_matched x = Some source) (\<lambda>x. x\<lparr>si_matched := Some survivor\<rparr>) (shopping_items s)"
    "categories s' = categories s" "catalog s' = catalog s"
    "mr_moved r = length (tbl_select (\<lambda>_ b. ba_product b = source) (batches s))"
    "mr_recomputed r = card (derived_of source (batches s))"
    "rows_ok s'"
    "\<And>k. stock_total k s' = (if k = source then 0 else stock_total k s + (if k = survivor then stock_total source s else 0))"
    "\<And>k. ledger_total k s' = (if k = source then 0 else ledger_total k s + (if k = survivor then ledger_total source s else 0))"
proof -
  obtain p q moved s0 s1 s2 s3 s4 s5 where *: "survivor \<noteq> source"
    "map_of (products s) survivor = Some p" "pr_storage p = storage"
    "map_of (products s) source = Some q" "pr_storage q = storage"
    and m: "load_derived_batches source s = Inr (moved, s0)"
    and rep: "repoint_all storage survivor source s0 = Inr (mr_moved r, s1)"
    and app: "apply_derived_expiry moved (resolve (product_rules storage p s1)) s1 = Inr (mr_recomputed r, s2)"
    and del: "delete_product_row source s2 = Inr ((), s3)"
    and ts: "record_tombstones storage TombstoneProduct [source] s3 = Inr ((), s4)"
    and img: "orphaned_image (pr_image q) s4 = Inr (mr_orphan r, s5)"
    and upd: "update_product_row survivor id s5 = Inr ((), s')"
    and sv: "map_of (products s') survivor = Some (mr_survivor r)" by (rule merge_steps [OF run])
  have d: "distinct (keys (batches s))" "distinct (keys (products s))" using ok by (simp_all add: rows_ok_def)
  have s0: "s0 = s" by (rule load_derived_effect(1) [OF d(1) m])
  let ?b1 = "tbl_map (\<lambda>_ b. ba_product b = source) (\<lambda>b. b\<lparr>ba_product := survivor\<rparr>) (batches s)"
  let ?l1 = "tbl_map (\<lambda>_ l. lg_product l = source) (\<lambda>l. l\<lparr>lg_product := survivor\<rparr>) (logs s)"
  have s1: "batches s1 = ?b1" "logs s1 = ?l1" "products s1 = products s" "locations s1 = locations s"
    "containers s1 = containers s" "categories s1 = categories s" "catalog s1 = catalog s" "db_now s1 = db_now s"
    "product_barcodes s1 = repointed_barcodes storage survivor source (product_barcodes s)"
    "shopping_items s1 = tbl_map (\<lambda>_ x. si_matched x = Some source) (\<lambda>x. x\<lparr>si_matched := Some survivor\<rparr>) (shopping_items s)"
    using rep by (simp_all add: repoint_all_iff s0)
  have mv: "mr_moved r = length (tbl_select (\<lambda>_ b. ba_product b = source) (batches s))"
    using rep by (simp add: repoint_all_iff s0)
  let ?res = "resolve (product_rules storage p s)"
  have "product_rules storage p s1 = product_rules storage p s" by (rule product_rules_cong) (simp_all add: s1)
  with app have app': "apply_derived_expiry moved ?res s1 = Inr (mr_recomputed r, s2)" by simp
  from m have m': "load_derived_batches source s = Inr (moved, s)" by (simp add: s0)
  note a = apply_moved_effect [OF d(1) m' s1(1) app']
  let ?b2 = "map (\<lambda>(k, b). (k, merged_batch survivor source ?res b)) (batches s)"
  have b2: "batches s2 = ?b2" using a by simp
  have b2r: "batches s2 = redate (derived_of source (batches s)) ?res ?b1"
    using b2 redate_repointed [OF d(1)] by simp
  have s2: "s2 = s1\<lparr>batches := ?b2\<rparr>" using a by simp
  have storages: "pr_storage q = pr_storage p" using * by simp
  note re = repoint_effect [OF ok not_sym [OF *(1)] *(2,4) storages s1(1-5)]
  have "s2 = s1\<lparr>batches := tbl_map (\<lambda>i b. i \<in> derived_of source (batches s) \<and> ba_source b = ExpirationDerived)
     (\<lambda>b. b\<lparr>ba_expiration := date_for (ba_created b) ?res\<rparr>) (batches s1)\<rparr>"
    using s2 b2 b2r by (simp add: redate_def s1)
  from shifts_map_batches [OF re(1) this] have sh2: "shifts (\<lambda>_. 0) s1 s2" by simp
  have no_b: "ba_product b \<noteq> source" if "(k, b) \<in> set (batches s2)" for k b
    using that *(1) by (auto simp: b2 split: if_splits)
  have s3: "s3 = s2\<lparr>products := tbl_del (\<lambda>k _. k = source) (products s),
    product_barcodes := tbl_del (\<lambda>_ b. bc_product b = source) (repointed_barcodes storage survivor source (product_barcodes s))\<rparr>"
  proof -
    have "logs s2 = logs s1" "shopping_items s2 = shopping_items s1" by (simp_all add: s2)
    moreover have "source \<notin> lg_product ` snd ` set (logs s1)"
      unfolding s1 by (rule tbl_map_off [where owner = lg_product]) (use *(1) in simp)
    moreover have "Some source \<notin> si_matched ` snd ` set (shopping_items s1)"
      unfolding s1 by (rule tbl_map_off [where owner = si_matched]) (use *(1) in simp)
    ultimately have "(k, l) \<in> set (logs s2) \<Longrightarrow> lg_product l \<noteq> source"
      "(k, x) \<in> set (shopping_items s2) \<Longrightarrow> si_matched x \<noteq> Some source" for k l x by force+
    then show ?thesis using delete_row_bare [of s2 source] no_b del by (simp add: s2 s1)
  qed
  note e3 = delete_row_effect [OF shifts_rows [OF sh2] del]
  have t4: "batches s4 = batches s3" "logs s4 = logs s3" "products s4 = products s3" "locations s4 = locations s3"
    "containers s4 = containers s3" "categories s4 = categories s3" "catalog s4 = catalog s3"
    "product_barcodes s4 = product_barcodes s3" "shopping_items s4 = shopping_items s3" "db_now s4 = db_now s3"
    using tombstone_rows [OF ts] by simp_all
  have s5: "s5 = s4" using img by (simp add: orphaned_image_iff)
  have sh4: "shifts (\<lambda>_. 0) s3 s4" by (rule shifts_other [OF e3(1)]) (simp_all add: t4)
  have sh5: "shifts (\<lambda>_. 0) s4 s'" by (rule shifts_update_product [OF shifts_rows [OF sh4] upd [unfolded s5]]) simp
  have s': "products s' = tbl_upd survivor (\<lambda>p. p\<lparr>pr_updated := db_now s\<rparr>) (tbl_del (\<lambda>k _. k = source) (products s))"
    "batches s' = ?b2" "logs s' = ?l1" "product_barcodes s' = product_barcodes s3" "shopping_items s' = shopping_items s3"
    "categories s' = categories s" "catalog s' = catalog s"
    using upd s5 t4 s3 s2 s1 by (simp_all add: update_product_row_iff)
  have st: "stock_total k s' = stock_total k s1" for k
  proof -
    have "stock_total k s' = stock_total k s3" by (simp add: stock_total_def s' s3 s2)
    also have "\<dots> = stock_total k s2" by (simp add: stock_total_def s3)
    also have "\<dots> = stock_total k s1"
      unfolding stock_total_def b2r s1 redate_def by (rule tbl_sum_map_cong) simp
    finally show ?thesis .
  qed
  have lt: "ledger_total k s' = ledger_total k s1" for k by (simp add: ledger_total_def s' s1)
  have survivor_row: "mr_survivor r = p\<lparr>pr_updated := db_now s\<rparr>"
    using sv s'(1) *(1,2) map_of_tbl_del [OF d(2)] by simp
  show ?thesis
    by (rule that [OF * survivor_row s'(1,2,3) _ _ s'(6,7) mv])
      (use a s' s3 s2 s1 shifts_rows [OF sh5] in \<open>simp_all add: st lt re\<close>)
qed

lemma map_of_map_snd: "map_of (map (\<lambda>(k, r). (k, f r)) t) k = map_option f (map_of t k)"
  by (induction t) auto

lemma merge_stock:
  assumes inv: "stock_inv s" and run: "merge_products storage survivor source s = Inr (r, s')"
  shows "stock_inv s'"
  by (rule merge_effect [OF stock_inv_rows [OF inv] run]) (use inv in \<open>simp add: stock_inv_def\<close>)

interpretation merge: stock_operation "\<lambda>(storage, survivor, source). merge_products storage survivor source"
  by unfold_locales (auto intro: merge_stock)


section \<open>Demonstrations\<close>

lemma demo_delete: "\<exists>url s'. delete_product 2 5 demo_db = Inr (url, s')"
  by (simp add: delete_product_def tx_iff record_tombstone_iff) (simp add: demo_defs tbl_has_def)

theorem delete_product_correct_witness:
  "\<exists>url s'. delete_product 2 5 demo_db = Inr (url, s') \<and> stock_inv s' \<and> map_of (batches s') 20 = None"
proof -
  obtain url s' where run: "delete_product 2 5 demo_db = Inr (url, s')" using demo_delete by blast
  have "map_of (batches demo_db) 20 = Some demo_batch" by (simp add: demo_db_def empty_db_def)
  with delete_product_correct [OF demo_stock_inv run] have "stock_inv s' \<and> map_of (batches s') 20 = None"
    by (auto simp: demo_batch_def)
  with run show ?thesis by blast
qed

text \<open>A second product of the storage, with two derived units of its own, never expiring by its rule.\<close>

definition merge_db :: db where
  "merge_db = demo_db\<lparr>products := [(5, demo_product), (6, demo_product\<lparr>pr_item_type := NonPerishable\<rparr>)],
     batches := [(20, demo_batch), (21, demo_batch\<lparr>ba_product := 6, ba_quantity := 2, ba_source := ExpirationDerived,
       ba_expiration := None, ba_container := None\<rparr>)],
     logs := logs demo_db @ [(8, \<lparr>lg_product = 6, lg_batch = Some 21, lg_change = 2, lg_reason = ReasonPurchase,
       lg_by = None, lg_at = 0\<rparr>)]\<rparr>"

lemma merge_stock_inv: "stock_inv merge_db"
  by (simp add: stock_inv_def rows_ok_def batch_ok_def log_ok_def container_ok_def tbl_has_def
      ledger_total_def stock_total_def merge_db_def demo_defs)

lemma merge_runs: "\<exists>r s'. merge_products 2 5 6 merge_db = Inr (r, s')"
  by (simp add: merge_products_def apply_derived_expiry_def load_derived_batches_def tx_iff repoint_all_iff
      record_tombstone_iff)
    (simp add: merge_db_def demo_defs tbl_select_def redate_batch_iff bind_tx_iff ret_tx_iff tbl_del_def tbl_has_def)


section \<open>Searching\<close>

definition plain_pattern :: "string \<Rightarrow> bool" where
  "plain_pattern q \<longleftrightarrow> CHR 0x25 \<notin> set q \<and> CHR 0x5F \<notin> set q \<and> CHR 0x5C \<notin> set q"

lemma like_any: "like [CHR 0x25] s"
  by (induction s) simp_all

lemma like_plain: "plain_pattern q \<Longrightarrow> like (q @ [CHR 0x25]) s \<longleftrightarrow> (\<exists>v. s = q @ v)"
proof (induction q arbitrary: s)
  case Nil
  then show ?case by (simp add: like_any)
next
  case (Cons c q)
  then have "plain_pattern q" "c \<noteq> CHR 0x25" "c \<noteq> CHR 0x5F" "c \<noteq> CHR 0x5C" by (auto simp: plain_pattern_def)
  with Cons.IH show ?case by (cases s) auto
qed

lemma like_inside: "plain_pattern q \<Longrightarrow> like (CHR 0x25 # q @ [CHR 0x25]) s \<longleftrightarrow> (\<exists>u v. s = u @ q @ v)"
proof (induction s)
  case Nil
  then show ?case using like_plain [of q "[]"] by auto
next
  case (Cons c s)
  have "(\<exists>u v. c # s = u @ q @ v) \<longleftrightarrow> (\<exists>v. c # s = q @ v) \<or> (\<exists>u v. s = u @ q @ v)"
    by (metis append_Cons append_Nil neq_Nil_conv list.inject)
  with Cons like_plain [OF Cons.prems, of "c # s"] show ?case by simp
qed

lemma name_matches_plain:
  assumes "plain_pattern (map low q)" and "low (CHR 0x25) = CHR 0x25"
  shows "name_matches low q name \<longleftrightarrow> (\<exists>u v. map low name = u @ map low q @ v)"
proof (cases "q = []")
  case True
  then have "map low name = map low name @ map low q @ []" by simp
  with True show ?thesis unfolding name_matches_def by blast
next
  case False
  with assms show ?thesis by (simp add: name_matches_def like_inside)
qed

text \<open>
  A search lists exactly the products of the storage whose name contains the query up to case, as long
  as the query holds no pattern character; each row carries the live stock.
\<close>

lemma search_products_plain:
  assumes "plain_pattern (map low q)" and "low (CHR 0x25) = CHR 0x25"
  shows "set (search_products coll low storage q s) = summary_of s `
    {(i, p) \<in> set (products s). pr_storage p = storage \<and> (\<exists>u v. map low (pr_name p) = u @ map low q @ v)}"
  by (auto simp: search_products_def tbl_select_def name_matches_plain [OF assms])

end
