(* ===== verification/Locations.thy ===== *)
theory Locations
  imports Progress "HOL-Library.Product_Lexorder"
begin

text \<open>
  \<open>internal/store/locations.go\<close>: the location tree of a storage. The advisory tree lock makes
  structural writes of one storage serial, so each operation is one transaction on one state.
  Deleting a location cascades in the database without a bound, while the code's own walk over the
  subtree stops after 64 levels; the last section shows what follows from the difference.
\<close>

type_synonym location_row = "uuid \<times> location"

record new_location =
  nl_parent :: "uuid option"
  nl_name :: string
  nl_description :: "string option"

definition load_location :: "uuid \<Rightarrow> uuid \<Rightarrow> location_row dbtx" where
  "load_location storage i = row_tx ErrNotFound (\<lambda>s. case map_of (locations s) i of
      None \<Rightarrow> None | Some l \<Rightarrow> if lo_storage l = storage then Some (i, l) else None)"

definition insert_location :: "uuid \<Rightarrow> uuid \<Rightarrow> new_location \<Rightarrow> location_row dbtx" where
  "insert_location storage i inp =
     seq_tx (resolve_parent TreeLocations storage None (nl_parent inp))
       (bind_tx (get_tx db_now) (\<lambda>now.
         let row = \<lparr>lo_storage = storage, lo_parent = nl_parent inp, lo_name = nl_name inp,
           lo_description = nl_description inp, lo_created = now, lo_updated = now, lo_audited = None\<rparr> in
         seq_tx (check_tx (\<lambda>s. \<not> tbl_has i (locations s) \<and> tbl_has storage (storage_rows s)) ErrInternal)
        (seq_tx (mod_tx (\<lambda>s. s\<lparr>locations := tbl_ins i row (locations s)\<rparr>))
          (ret_tx (i, row)))))"

definition create_location :: "uuid \<Rightarrow> new_location \<Rightarrow> location_row dbtx" where
  "create_location storage inp = bind_tx new_id (\<lambda>i. insert_location storage i inp)"

definition create_location_as_user :: "uuid \<Rightarrow> new_location \<Rightarrow> uuid \<Rightarrow> location_row dbtx" where
  "create_location_as_user storage inp user =
     bind_tx new_id (\<lambda>i. bind_tx (insert_location storage i inp) (\<lambda>loc.
       seq_tx (record_contribution storage user LocationMapped (Some (fst loc)) None) (ret_tx loc)))"

definition move_location :: "uuid \<Rightarrow> uuid \<Rightarrow> uuid option \<Rightarrow> unit dbtx" where
  "move_location storage i parent =
     seq_tx (require_same_storage TreeLocations storage i)
    (seq_tx (resolve_parent TreeLocations storage (Some i) parent)
       (mod_tx (set_location_parent i parent)))"

record location_patch =
  lp_name :: "string option"
  lp_description :: "string option"
  lp_set_description :: bool
  lp_parent :: "uuid option"
  lp_set_parent :: bool

definition update_location :: "uuid \<Rightarrow> uuid \<Rightarrow> location_patch \<Rightarrow> location_row dbtx" where
  "update_location storage i patch =
     seq_tx (require_same_storage TreeLocations storage i)
    (seq_tx (when_tx (lp_set_parent patch) (resolve_parent TreeLocations storage (Some i) (lp_parent patch)))
    (bind_tx (get_tx db_now) (\<lambda>now.
     seq_tx (mod_tx (\<lambda>s. s\<lparr>locations := tbl_upd i (\<lambda>l. l\<lparr>
         lo_name := (case lp_name patch of None \<Rightarrow> lo_name l | Some n \<Rightarrow> n),
         lo_description := (if lp_set_description patch then lp_description patch else lo_description l),
         lo_parent := (if lp_set_parent patch then lp_parent patch else lo_parent l),
         lo_updated := now\<rparr>) (locations s)\<rparr>))
       (load_location storage i))))"

definition rename_location :: "uuid \<Rightarrow> uuid \<Rightarrow> string \<Rightarrow> string option \<Rightarrow> unit dbtx" where
  "rename_location storage i name description =
     bind_tx (get_tx db_now) (\<lambda>now.
     seq_tx (check_tx (in_storage TreeLocations storage i) ErrNotFound)
       (mod_tx (\<lambda>s. s\<lparr>locations := tbl_upd i
          (\<lambda>l. l\<lparr>lo_name := name, lo_description := description, lo_updated := now\<rparr>) (locations s)\<rparr>)))"

definition location_children :: "db \<Rightarrow> uuid \<Rightarrow> uuid list" where
  "location_children s i = map fst (filter (\<lambda>(_, l). lo_parent l = Some i) (locations s))"

definition location_subtree :: "uuid \<Rightarrow> db \<Rightarrow> uuid list" where
  "location_subtree i s =
     (if tbl_has i (locations s) then descend (location_children s) max_tree_depth [i] else [])"

text \<open>
  DELETE FROM locations: the row and, by ON DELETE CASCADE, everything below it; a batch at any of
  them is a RESTRICT violation, a job hint at one of them becomes NULL. The fuel exceeds both the
  bound of the code's walk and the number of rows, so no level is cut off.
\<close>

definition cascade_ids :: "uuid \<Rightarrow> db \<Rightarrow> uuid list" where
  "cascade_ids i s = descend (location_children s) (max_tree_depth + length (locations s)) [i]"

definition delete_location_row :: "uuid \<Rightarrow> unit dbtx" where
  "delete_location_row i =
     bind_tx (get_tx (cascade_ids i)) (\<lambda>gone.
       seq_tx (check_tx (\<lambda>s. \<forall>(_, b) \<in> set (batches s). ba_location b \<notin> set gone) ErrInternal)
         (mod_tx (\<lambda>s. s\<lparr>locations := tbl_del (\<lambda>k _. k \<in> set gone) (locations s),
            jobs := tbl_map (\<lambda>_ j. \<exists>h \<in> set gone. jb_hint j = Some h) (\<lambda>j. j\<lparr>jb_hint := None\<rparr>) (jobs s)\<rparr>)))"

definition delete_location :: "uuid \<Rightarrow> uuid \<Rightarrow> unit dbtx" where
  "delete_location storage i =
     seq_tx (require_same_storage TreeLocations storage i)
    (bind_tx (get_tx (location_subtree i)) (\<lambda>subtree.
     bind_tx (get_tx (\<lambda>s. count_rows (\<lambda>_ b. ba_location b \<in> set subtree) (batches s))) (\<lambda>held.
     seq_tx (guard_tx (\<not> held > 0) ErrConflict)
    (seq_tx (delete_location_row i)
       (record_tombstones storage TombstoneLocation subtree)))))"

text \<open>\<open>LocationTree\<close>: ordered by creation, then id.\<close>

definition location_tree :: "uuid \<Rightarrow> db \<Rightarrow> location_row list" where
  "location_tree storage s = sort_key (\<lambda>(i, l). (lo_created l, i))
     (tbl_select (\<lambda>_ l. lo_storage l = storage) (locations s))"

section \<open>Tombstones\<close>

lemma record_tombstones_effect:
  "record_tombstones storage kind es s = Inr (a, s') \<Longrightarrow>
   map (ts_entity \<circ> snd) (tombstones s') = map (ts_entity \<circ> snd) (tombstones s) @ es
   \<and> locations s' = locations s \<and> batches s' = batches s \<and> products s' = products s
   \<and> logs s' = logs s \<and> containers s' = containers s \<and> categories s' = categories s
   \<and> jobs s' = jobs s \<and> gam s' = gam s \<and> catalog s' = catalog s"
  unfolding record_tombstones_def
proof (induction es arbitrary: s)
  case Nil
  then show ?case by (simp add: tx_iff)
next
  case (Cons e es)
  from Cons.prems obtain i "is" where
    "iter_tx (\<lambda>e. bind_tx new_id (\<lambda>i. bind_tx (get_tx db_now) (\<lambda>now.
       seq_tx (check_tx (\<lambda>s. \<not> tbl_has i (tombstones s) \<and> tbl_has storage (storage_rows s)) ErrInternal)
         (mod_tx (\<lambda>s. s\<lparr>tombstones := tbl_ins i \<lparr>ts_storage = storage, ts_kind = kind,
            ts_entity = e, ts_deleted = now\<rparr> (tombstones s)\<rparr>))))) es
      (s\<lparr>idgen := is, tombstones := tbl_ins i \<lparr>ts_storage = storage, ts_kind = kind,
            ts_entity = e, ts_deleted = db_now s\<rparr> (tombstones s)\<rparr>) = Inr (a, s')"
    by (auto simp: tx_iff)
  from Cons.IH [OF this] show ?case by (simp add: tbl_ins_def)
qed

text \<open>With enough fresh identifiers the tombstones are written.\<close>

lemma record_tombstones_succeeds:
  assumes "tbl_has storage (storage_rows s)" and "length es \<le> length (idgen s)" and "distinct (idgen s)"
    and "set (idgen s) \<inter> set (keys (tombstones s)) = {}"
  shows "\<exists>s'. record_tombstones storage kind es s = Inr ((), s')"
  using assms unfolding record_tombstones_def
proof (induction es arbitrary: s)
  case Nil
  then show ?case by (simp add: ret_tx_def)
next
  case (Cons e es)
  obtain i "is" where i: "idgen s = i # is" using Cons.prems(2) by (cases "idgen s") auto
  let ?s1 = "s\<lparr>idgen := is, tombstones := tbl_ins i \<lparr>ts_storage = storage, ts_kind = kind,
            ts_entity = e, ts_deleted = db_now s\<rparr> (tombstones s)\<rparr>"
  have "\<not> tbl_has i (tombstones s)" using Cons.prems(4) i by (auto simp: tbl_has_keys)
  moreover have "\<exists>s'. iter_tx (\<lambda>e. bind_tx new_id (\<lambda>i. bind_tx (get_tx db_now) (\<lambda>now.
       seq_tx (check_tx (\<lambda>s. \<not> tbl_has i (tombstones s) \<and> tbl_has storage (storage_rows s)) ErrInternal)
         (mod_tx (\<lambda>s. s\<lparr>tombstones := tbl_ins i \<lparr>ts_storage = storage, ts_kind = kind,
            ts_entity = e, ts_deleted = now\<rparr> (tombstones s)\<rparr>))))) es ?s1 = Inr ((), s')"
    using Cons.prems i by (intro Cons.IH) auto
  ultimately show ?case using Cons.prems(1) i by (auto simp: tx_iff)
qed

section \<open>The shape of a deletion\<close>

lemma descend_prefix: "set (descend ch n lv) \<subseteq> set (descend ch (n + k) lv)"
  by (metis descend_has_level descend_level subsetI trans_less_add1)

text \<open>When the subtree has at most 64 levels, the cascade removes exactly what the code collected.\<close>

lemma cascade_eq_subtree:
  assumes "level_at (location_children s) max_tree_depth [i] = []" and "tbl_has i (locations s)"
  shows "cascade_ids i s = location_subtree i s"
  using descend_stable [OF assms(1)] assms(2) by (simp add: cascade_ids_def location_subtree_def)

lemma subtree_closed:
  assumes "level_at (location_children s) max_tree_depth [i] = []"
    and "tbl_has i (locations s)" and "(k, l) \<in> set (locations s)" and "lo_parent l = Some p"
    and "p \<in> set (location_subtree i s)"
  shows "k \<in> set (location_subtree i s)"
proof -
  obtain d where d: "d < max_tree_depth" "p \<in> set (level_at (location_children s) d [i])"
    using assms(2,5) descend_has_level by (fastforce simp: location_subtree_def)
  have "k \<in> set (location_children s p)"
    using assms(3,4) by (force simp: location_children_def)
  with d(2) have k: "k \<in> set (level_at (location_children s) (Suc d) [i])"
    by (rule level_at_child)
  have "Suc d \<noteq> max_tree_depth" using k assms(1) by (metis empty_iff empty_set)
  with d(1) have "Suc d < max_tree_depth" by simp
  from descend_level [OF k this] assms(2) show ?thesis by (simp add: location_subtree_def)
qed

lemma ancestors_step:
  "ancestors f max_tree_depth i = (case f i of None \<Rightarrow> []
     | Some (_, p) \<Rightarrow> i # (case p of None \<Rightarrow> [] | Some q \<Rightarrow> ancestors f 63 q))"
  using ancestors.simps(2) [of f 63 i] by (simp add: max_tree_depth_def del: ancestors.simps)

lemma root_in_subtree: "tbl_has i (locations s) \<Longrightarrow> i \<in> set (location_subtree i s)"
  using descend_level [of i "location_children s" 0 "[i]" max_tree_depth]
  by (simp add: location_subtree_def max_tree_depth_def)

lemma in_storage_has: "in_storage TreeLocations storage i s \<Longrightarrow> tbl_has i (locations s)"
  by (auto simp: in_storage_def tree_row_def tbl_has_def)

lemma count_rows_zero: "\<not> count_rows P t > 0 \<longleftrightarrow> (\<forall>(k, r) \<in> set t. \<not> P k r)"
  by (auto simp: count_rows_def tbl_select_def filter_empty_conv)

section \<open>Chains\<close>

text \<open>A storage whose locations form one chain of \<open>n\<close> nodes, each below the one before it.\<close>

definition chain_node :: "nat \<Rightarrow> location" where
  "chain_node k = \<lparr>lo_storage = 1, lo_parent = (if k = 0 then None else Some (k - 1)),
     lo_name = ''node'', lo_description = None, lo_created = int k, lo_updated = 0, lo_audited = None\<rparr>"

definition chain_db :: "nat \<Rightarrow> db" where
  "chain_db n = empty_db\<lparr>storage_rows := [(1, some_storage)], idgen := [100..<200],
     locations := map (\<lambda>k. (k, chain_node k)) [0..<n]\<rparr>"

lemma map_of_chain: "map_of (locations (chain_db n)) k = (if k < n then Some (chain_node k) else None)"
  by (simp add: chain_db_def map_of_map_restrict restrict_map_def)

lemma chain_row:
  "tree_row TreeLocations (chain_db n) k =
     (if k < n then Some (1, if k = 0 then None else Some (k - 1)) else None)"
  by (simp add: tree_row_def map_of_chain chain_node_def)

lemma chain_ancestors:
  "k < n \<Longrightarrow> ancestors (tree_row TreeLocations (chain_db n)) m k = rev [Suc k - m..<Suc k]"
proof (induction m arbitrary: k)
  case 0
  then show ?case by simp
next
  case (Suc m)
  have "[Suc k - Suc m..<Suc k] = [k - m..<k] @ [k]" by simp
  with Suc show ?case by (cases k) (auto simp: chain_row)
qed

lemma chain_tree_ok: "tree_ok (tree_row TreeLocations (chain_db n))"
proof -
  have "(up_rel (tree_row TreeLocations (chain_db n)))\<inverse> \<subseteq> less_than"
    by (auto simp: up_rel_def chain_row split: if_splits)
  then have "acyclic ((up_rel (tree_row TreeLocations (chain_db n)))\<inverse>)"
    using wf_subset [OF wf_less_than] wf_acyclic by blast
  then show ?thesis
    by (auto simp: tree_ok_def acyclic_converse chain_row split: if_splits)
qed

lemma chain_children: "location_children (chain_db n) k = (if Suc k < n then [Suc k] else [])"
proof -
  have "filter (\<lambda>j. lo_parent (chain_node j) = Some k) [0..<n] = (if Suc k < n then [Suc k] else [])"
    by (induction n) (auto simp: chain_node_def split: if_splits)
  moreover have "location_children (chain_db n) k
      = map fst (map (\<lambda>j. (j, chain_node j)) (filter (\<lambda>j. lo_parent (chain_node j) = Some k) [0..<n]))"
    by (simp add: location_children_def chain_db_def filter_map o_def)
  ultimately show ?thesis by (simp add: o_def)
qed

lemma descend_Nil [simp]: "descend ch m [] = []"
  by (induction m) auto

lemma chain_descend: "k < n \<Longrightarrow> descend (location_children (chain_db n)) m [k] = [k..<min (k + m) n]"
proof (induction m arbitrary: k)
  case 0
  then show ?case by simp
next
  case (Suc m)
  show ?case
  proof (cases "Suc k < n")
    case True
    with Suc.IH [OF True] Suc.prems show ?thesis
      by (simp add: chain_children upt_conv_Cons del: upt_Suc)
  next
    case False
    with Suc.prems show ?thesis by (simp add: chain_children upt_conv_Cons del: upt_Suc)
  qed
qed

section \<open>Properties\<close>

text \<open>
  Moving a location keeps the tree a tree: if the move is accepted and the new parent is at
  most 64 levels deep, no ring appears, the node hangs below the requested parent of the same
  storage, and nothing but that node's parent and timestamp changes.
\<close>

theorem move_location_keeps_tree:
  assumes "tree_ok (tree_row TreeLocations s)"
    and "in_tx (move_location storage i parent) s = (Inr (), s')"
    and "\<And>p. parent = Some p \<Longrightarrow> length (ancestors (tree_row TreeLocations s) 65 p) \<le> 64"
  shows "tree_ok (tree_row TreeLocations s')
       \<and> tree_row TreeLocations s' i = Some (storage, parent)
       \<and> (\<forall>p. parent = Some p \<longrightarrow> in_storage TreeLocations storage p s')
       \<and> (\<forall>j. j \<noteq> i \<longrightarrow> map_of (locations s') j = map_of (locations s) j)
       \<and> s' = s\<lparr>locations := locations s'\<rparr>"
proof -
  have "move_location storage i parent s = Inr ((), s')"
    using assms(2) by (auto elim: in_tx_cases)
  then have i: "in_storage TreeLocations storage i s"
    and p: "\<And>p. parent = Some p \<Longrightarrow> in_storage TreeLocations storage p s \<and> i \<noteq> p
        \<and> i \<notin> set (ancestors (tree_row TreeLocations s) max_tree_depth p)"
    and s': "s' = set_location_parent i parent s"
    by (auto simp: move_location_def tx_iff)
  obtain p0 where row: "tree_row TreeLocations s i = Some (storage, p0)"
    using i by (auto simp: in_storage_def)
  have "tree_ok (tree_row TreeLocations s')"
    unfolding s'
  proof (rule loc_tree.reparent_ok [OF assms(1) row])
    fix q assume q: "parent = Some q"
    show "(\<exists>r. tree_row TreeLocations s q = Some (storage, r)) \<and> q \<noteq> i
        \<and> i \<notin> set (ancestors (tree_row TreeLocations s) max_tree_depth q) \<and> loc_tree.shallow s q"
      using p [OF q] assms(3) [OF q]
      by (auto simp: in_storage_def loc_tree.shallow_def max_tree_depth_def)
  qed
  moreover have "tree_row TreeLocations s' i = Some (storage, parent)"
    by (simp add: s' loc_tree.row_set_parent row)
  moreover have "in_storage TreeLocations storage q s'" if "parent = Some q" for q
    using p [OF that] by (simp add: s' in_storage_def loc_tree.row_set_parent)
  moreover have "map_of (locations s') j = map_of (locations s) j" if "j \<noteq> i" for j
    using that by (simp add: s' set_location_parent_def)
  moreover have "s' = s\<lparr>locations := locations s'\<rparr>"
    by (simp add: s' set_location_parent_def)
  ultimately show ?thesis by blast
qed

theorem move_location_keeps_tree_witness:
  "\<exists>s'. in_tx (move_location 1 2 (Some 0)) (chain_db 3) = (Inr (), s') \<and> tree_ok (tree_row TreeLocations s')"
proof -
  have "move_location 1 2 (Some 0) (chain_db 3) = Inr ((), set_location_parent 2 (Some 0) (chain_db 3))"
    by (simp add: move_location_def tx_iff in_storage_def chain_row chain_ancestors max_tree_depth_def)
  then have run: "in_tx (move_location 1 2 (Some 0)) (chain_db 3)
      = (Inr (), set_location_parent 2 (Some 0) (chain_db 3))" by simp
  have "length (ancestors (tree_row TreeLocations (chain_db 3)) 65 p) \<le> 64" if "Some 0 = Some p" for p
    using that by (simp add: chain_ancestors)
  with run move_location_keeps_tree [OF chain_tree_ok run] show ?thesis by blast
qed

text \<open>
  The bound of the cycle check can be walked past: in a chain of 66 locations the root may be
  moved below the last node, and the result is a ring.
\<close>

theorem deep_move_closes_ring:
  "tree_ok (tree_row TreeLocations (chain_db 66))
   \<and> fst (in_tx (move_location 1 0 (Some 65)) (chain_db 66)) = Inr ()
   \<and> \<not> tree_ok (tree_row TreeLocations (snd (in_tx (move_location 1 0 (Some 65)) (chain_db 66))))"
proof -
  let ?f = "tree_row TreeLocations (chain_db 66)"
  have "0 \<notin> set (ancestors ?f max_tree_depth 65)"
    by (simp add: chain_ancestors max_tree_depth_def)
  then have run: "move_location 1 0 (Some 65) (chain_db 66)
      = Inr ((), set_location_parent 0 (Some 65) (chain_db 66))"
    by (simp add: move_location_def tx_iff in_storage_def chain_row)
  have "0 \<in> set (ancestors ?f 66 65)" by (simp add: chain_ancestors)
  then have "(65, 0) \<in> (up_rel ?f)\<^sup>*" by (rule ancestors_sound)
  then have "\<not> tree_ok (tree_row TreeLocations (set_location_parent 0 (Some 65) (chain_db 66)))"
    by (intro loc_tree.reparent_ring [of _ 0 1 None]) (auto simp: chain_row)
  with run chain_tree_ok show ?thesis by (simp add: in_tx_def)
qed



text \<open>
  Deeper than that the bookkeeping falls short: deleting the root of a chain of 66 locations
  removes all 66 rows and writes 64 tombstones, so two deletions are never reported to a client.
\<close>

theorem deep_delete_loses_tombstones:
  "\<exists>s'. in_tx (delete_location 1 0) (chain_db 66) = (Inr (), s')
     \<and> locations s' = [] \<and> length (tombstones s') = 64"
proof -
  let ?s = "chain_db 66"
  have has: "tbl_has 0 (locations ?s)" by (simp add: tbl_has_def map_of_chain)
  have sub: "location_subtree 0 ?s = [0..<64]"
    using has by (simp add: location_subtree_def max_tree_depth_def chain_descend)
  have len: "length (locations ?s) = 66" by (simp add: chain_db_def)
  have casc: "cascade_ids 0 ?s = [0..<66]"
    by (simp add: cascade_ids_def max_tree_depth_def len chain_descend)
  let ?s1 = "?s\<lparr>locations := tbl_del (\<lambda>k _. k \<in> set [0..<66]) (locations ?s), jobs := []\<rparr>"
  have empty: "locations ?s1 = []" by (auto simp: tbl_del_def chain_db_def filter_empty_conv)
  have "\<exists>s'. record_tombstones 1 TombstoneLocation [0..<64] ?s1 = Inr ((), s')"
    by (rule record_tombstones_succeeds) (simp_all add: chain_db_def empty_db_def tbl_has_def)
  then obtain s' where ts: "record_tombstones 1 TombstoneLocation [0..<64] ?s1 = Inr ((), s')" ..
  have jobs: "jobs ?s = []" "batches ?s = []" "tombstones ?s = []"
    by (simp_all add: chain_db_def empty_db_def)
  have "delete_location 1 0 ?s = Inr ((), s')"
    using ts jobs
    by (simp add: delete_location_def delete_location_row_def tx_defs require_same_storage_def
        in_storage_def chain_row sub casc count_rows_def tbl_select_def tbl_map_def)
  moreover have "locations s' = []" and "map (ts_entity \<circ> snd) (tombstones s') = [0..<64]"
    using record_tombstones_effect [OF ts] empty jobs by simp_all
  then have "length (tombstones s') = 64" by (metis length_map length_upt minus_nat.diff_0)
  ultimately show ?thesis using \<open>locations s' = []\<close> by (simp add: in_tx_def)
qed

text \<open>
  The tree listing is in order of creation, which is not parents first: after an older
  location has been moved below a newer one, the child is listed before its parent.
\<close>

theorem location_tree_child_first:
  "\<exists>s'. in_tx (move_location 1 0 (Some 2)) ((chain_db 3)\<lparr>locations := [(0, chain_node 0), (2, (chain_node 2)\<lparr>lo_parent := None\<rparr>)]\<rparr>)
        = (Inr (), s')
     \<and> map (\<lambda>(i, l). (i, lo_parent l)) (location_tree 1 s') = [(0, Some 2), (2, None)]"
  by (simp add: in_tx_def move_location_def tx_defs require_same_storage_def resolve_parent_def
      would_cycle_def in_storage_def tree_row_def chain_node_def ancestors_step
      set_location_parent_def location_tree_def tbl_select_def tbl_upd_def tbl_map_def)

end
