(* ===== verification/Text.thy ===== *)
theory Text
  imports Main
begin

text \<open>
  The string functions the code takes from Go's library, over the white space of ASCII, and
  \<open>internal/matching/parse.go\<close>: the normal form of a product name, the split of a shopping-list line
  into a name and a quantity, and the lines of a pasted list. Case folding is a parameter.
\<close>

section \<open>Strings\<close>

text \<open>\<open>strings.Split\<close> at one character and \<open>strings.TrimSpace\<close>.\<close>

fun split_at_char :: "char \<Rightarrow> string \<Rightarrow> string list" where
  "split_at_char d [] = [[]]"
| "split_at_char d (c # cs) = (if c = d then [] # split_at_char d cs
     else (case split_at_char d cs of [] \<Rightarrow> [[c]] | w # ws \<Rightarrow> (c # w) # ws))"

definition white_space :: "char \<Rightarrow> bool" where
  "white_space c \<longleftrightarrow> c \<in> {CHR 0x09, CHR 0x0A, CHR 0x0B, CHR 0x0C, CHR 0x0D, CHR 0x20}"

definition trim_space :: "string \<Rightarrow> string" where
  "trim_space s = rev (dropWhile white_space (rev (dropWhile white_space s)))"

text \<open>\<open>strings.Fields\<close>: the maximal runs without white space.\<close>

function fields :: "string \<Rightarrow> string list" where
  "fields s = (case dropWhile white_space s of
      [] \<Rightarrow> []
    | c # cs \<Rightarrow> takeWhile (\<lambda>c. \<not> white_space c) (c # cs) # fields (dropWhile (\<lambda>c. \<not> white_space c) cs))"
  by pat_completeness auto

termination
proof (relation "measure length")
  fix s c cs
  assume a: "dropWhile white_space s = c # cs"
  have "length (dropWhile (\<lambda>c. \<not> white_space c) cs) \<le> length cs" by (rule length_dropWhile_le)
  also have "\<dots> < length (dropWhile white_space s)" by (simp add: a)
  also have "\<dots> \<le> length s" by (rule length_dropWhile_le)
  finally show "(dropWhile (\<lambda>c. \<not> white_space c) cs, s) \<in> measure length" by simp
qed simp

declare fields.simps [simp del]

fun join_words :: "string list \<Rightarrow> string" where
  "join_words [] = []"
| "join_words [w] = w"
| "join_words (w # ws) = w @ '' '' @ join_words ws"

lemma split_plain: "d \<notin> set w \<Longrightarrow> split_at_char d w = [w]"
  by (induction w) auto

lemma split_sep: "d \<notin> set w \<Longrightarrow> split_at_char d (w @ d # rest) = w # split_at_char d rest"
  by (induction w) auto

lemma trim_after_space: "trim_space ('' '' @ n) = trim_space n"
  by (simp add: trim_space_def white_space_def)

lemma dropWhile_snoc: "P x \<Longrightarrow> dropWhile P (xs @ [x]) = (if dropWhile P xs = [] then [] else dropWhile P xs @ [x])"
  by (induction xs) auto

lemma trim_before_space: "trim_space (n @ '' '') = trim_space n"
proof (cases "dropWhile white_space n = []")
  case True
  then show ?thesis by (simp add: trim_space_def dropWhile_snoc white_space_def del: dropWhile_eq_Nil_conv)
next
  case False
  then show ?thesis by (simp add: trim_space_def dropWhile_snoc white_space_def del: dropWhile_eq_Nil_conv)
qed

text \<open>Trimmed text begins and ends with a character that is not white space, and trimming again does nothing.\<close>

lemma trim_space_hd: "trim_space s = c # cs \<Longrightarrow> \<not> white_space c"
proof
  assume t: "trim_space s = c # cs" and w: "white_space c"
  let ?d = "dropWhile white_space s"
  have "rev (c # cs) = dropWhile white_space (rev ?d)" using t by (simp add: trim_space_def flip: rev_swap)
  then obtain ys where "rev ?d = ys @ rev (c # cs)" using takeWhile_dropWhile_id by metis
  then have "?d = (c # cs) @ rev ys" by (metis rev_append rev_rev_ident)
  then have "hd ?d = c" "?d \<noteq> []" by simp_all
  with hd_dropWhile [of white_space s] w show False by simp
qed

lemma trim_space_rev: "trim_space s = rev (c # cs) \<Longrightarrow> \<not> white_space c"
proof -
  assume "trim_space s = rev (c # cs)"
  from arg_cong [OF this, of rev] have "dropWhile white_space (rev (dropWhile white_space s)) = c # cs"
    unfolding trim_space_def rev_rev_ident .
  then show ?thesis by (metis hd_dropWhile list.distinct(1) list.sel(1))
qed

lemma trim_trim [simp]: "trim_space (trim_space s) = trim_space s"
proof -
  have 1: "dropWhile white_space (trim_space s) = trim_space s"
    using trim_space_hd [of s] by (cases "trim_space s") auto
  have "dropWhile white_space (rev (trim_space s)) = rev (trim_space s)"
    using trim_space_rev [of s] by (cases "rev (trim_space s)") (auto simp: rev_swap)
  then show ?thesis by (simp add: trim_space_def [of "trim_space s"] 1)
qed

lemma trim_space_Nil: "trim_space s = [] \<longleftrightarrow> (\<forall>c \<in> set s. white_space c)"
proof -
  have "trim_space s = [] \<longleftrightarrow> (\<forall>c \<in> set (dropWhile white_space s). white_space c)" by (simp add: trim_space_def)
  also have "\<dots> \<longleftrightarrow> dropWhile white_space s = []"
    by (metis dropWhile_eq_Nil_conv hd_dropWhile hd_in_set empty_iff list.set(1))
  finally show ?thesis by simp
qed

lemma trim_space_empty [simp]: "trim_space [] = []"
  by (simp add: trim_space_def)

lemma trim_id:
  assumes "s \<noteq> [] \<Longrightarrow> \<not> white_space (hd s) \<and> \<not> white_space (last s)"
  shows "trim_space s = s"
proof (cases s)
  case (Cons c cs)
  have "dropWhile white_space s = s" using assms Cons by simp
  moreover have "\<not> white_space (last s)" using assms Cons by blast
  then have "\<not> white_space (hd (rev s))" by (simp only: hd_rev) simp
  then have "dropWhile white_space (rev s) = rev s" by (cases "rev s") simp_all
  ultimately show ?thesis by (simp add: trim_space_def)
qed simp

section \<open>Numbers and dates\<close>

fun nat_text :: "nat \<Rightarrow> string" where
  "nat_text n = (if n < 10 then [char_of (48 + n)] else nat_text (n div 10) @ [char_of (48 + n mod 10)])"

declare nat_text.simps [simp del]

definition int_text :: "int \<Rightarrow> string" where
  "int_text n = (if n < 0 then CHR ''-'' # nat_text (nat (- n)) else nat_text (nat n))"

text \<open>Year, month and day of a day number counted from 1970-01-01, by eras of 400 years that begin in March.\<close>

definition civil_of_days :: "int \<Rightarrow> int \<times> int \<times> int" where
  "civil_of_days d =
     (let z = d + 719468; era = z div 146097; doe = z mod 146097;
          yoe = (doe - doe div 1460 + doe div 36524 - doe div 146096) div 365;
          doy = doe - (365 * yoe + yoe div 4 - yoe div 100);
          mp = (5 * doy + 2) div 153;
          m = (if mp < 10 then mp + 3 else mp - 9);
          y = yoe + era * 400
      in (if m \<le> 2 then y + 1 else y, m, doy - (153 * mp + 2) div 5 + 1))"

definition padded :: "nat \<Rightarrow> int \<Rightarrow> string" where
  "padded w n = (let t = int_text n in replicate (w - length t) (CHR ''0'') @ t)"

text \<open>\<open>Format(time.DateOnly)\<close>.\<close>

definition date_text :: "int \<Rightarrow> string" where
  "date_text d = (case civil_of_days d of (y, m, day) \<Rightarrow> padded 4 y @ ''-'' @ padded 2 m @ ''-'' @ padded 2 day)"

lemma date_text_examples:
  "date_text 0 = ''1970-01-01''" "date_text 20000 = ''2024-10-04''" "date_text 19782 = ''2024-02-29''" "date_text 20453 = ''2025-12-31''"
  by code_simp+

section \<open>Normal form of a name\<close>

definition normalize_query :: "(char \<Rightarrow> char) \<Rightarrow> string \<Rightarrow> string" where
  "normalize_query low s = join_words (fields (map low (trim_space s)))"

definition word :: "string \<Rightarrow> bool" where
  "word w \<longleftrightarrow> w \<noteq> [] \<and> (\<forall>c \<in> set w. \<not> white_space c)"

lemma fields_words: "w \<in> set (fields s) \<Longrightarrow> word w"
proof (induction s rule: fields.induct)
  case (1 s)
  show ?case
  proof (cases "dropWhile white_space s")
    case Nil
    with 1 show ?thesis by (simp add: fields.simps [of s])
  next
    case (Cons c cs)
    then have c: "\<not> white_space c" by (metis hd_dropWhile list.distinct(1) list.sel(1))
    from 1(2) Cons consider "w = takeWhile (\<lambda>c. \<not> white_space c) (c # cs)"
      | "w \<in> set (fields (dropWhile (\<lambda>c. \<not> white_space c) cs))" by (auto simp: fields.simps [of s])
    then show ?thesis
    proof cases
      case 1
      with c show ?thesis by (auto simp: word_def dest: set_takeWhileD)
    qed (rule "1.IH" [OF Cons])
  qed
qed

lemma fields_word_space: "word w \<Longrightarrow> fields (w @ '' '' @ s) = w # fields s"
proof -
  assume w: "word w"
  then obtain c cs where c: "w = c # cs" by (cases w) (auto simp: word_def)
  have d: "dropWhile (\<lambda>c. \<not> white_space c) (cs @ CHR '' '' # s) = CHR '' '' # s"
    "takeWhile (\<lambda>c. \<not> white_space c) (cs @ CHR '' '' # s) = cs"
    using w c by (simp_all add: word_def dropWhile_append takeWhile_append) (auto simp: white_space_def)
  have f: "fields (CHR '' '' # s) = fields s" by (simp add: fields.simps [of s] fields.simps [of "CHR '' '' # s"] white_space_def)
  show ?thesis using w c d f by (simp add: fields.simps [of "c # cs @ CHR '' '' # s"] word_def)
qed

lemma fields_word: "word w \<Longrightarrow> fields w = [w]"
proof -
  assume w: "word w"
  then obtain c cs where c: "w = c # cs" by (cases w) (auto simp: word_def)
  have "dropWhile (\<lambda>c. \<not> white_space c) cs = []" "takeWhile (\<lambda>c. \<not> white_space c) cs = cs"
    using w c by (auto simp: word_def)
  then show ?thesis using w c by (simp add: fields.simps [of "c # cs"] fields.simps [of "[]"] word_def del: dropWhile_eq_Nil_conv)
qed

lemma fields_join: "(\<And>w. w \<in> set ws \<Longrightarrow> word w) \<Longrightarrow> fields (join_words ws) = ws"
proof (induction ws rule: join_words.induct)
  case 1
  then show ?case by (simp add: fields.simps)
next
  case (3 w v ws)
  then show ?case using fields_word_space [of w "join_words (v # ws)"] by simp
qed (simp add: fields_word)

lemma fields_Nil: "fields [] = []"
  by (simp add: fields.simps)

lemma fields_empty: "fields s = [] \<longleftrightarrow> (\<forall>c \<in> set s. white_space c)"
  by (subst fields.simps) (auto split: list.split simp flip: dropWhile_eq_Nil_conv)

lemma fields_chars: "w \<in> set (fields s) \<Longrightarrow> c \<in> set w \<Longrightarrow> c \<in> set s"
proof (induction s rule: fields.induct)
  case (1 s)
  show ?case
  proof (cases "dropWhile white_space s")
    case Nil
    with 1 show ?thesis by (simp add: fields.simps [of s])
  next
    case (Cons d cs)
    then have sub: "set (d # cs) \<subseteq> set s" using set_dropWhileD by (metis subsetI)
    from 1(2) Cons consider "w = takeWhile (\<lambda>c. \<not> white_space c) (d # cs)"
      | "w \<in> set (fields (dropWhile (\<lambda>c. \<not> white_space c) cs))" by (auto simp: fields.simps [of s])
    then show ?thesis
    proof cases
      case 1
      with \<open>c \<in> set w\<close> sub show ?thesis using set_takeWhileD by fastforce
    next
      case 2
      from "1.IH" [OF Cons 2 \<open>c \<in> set w\<close>] sub show ?thesis using set_dropWhileD by fastforce
    qed
  qed
qed

lemma join_words_chars: "c \<in> set (join_words ws) \<Longrightarrow> c = CHR '' '' \<or> (\<exists>w \<in> set ws. c \<in> set w)"
  by (induction ws rule: join_words.induct) auto

lemma trim_join:
  assumes "\<And>w. w \<in> set ws \<Longrightarrow> word w"
  shows "trim_space (join_words ws) = join_words ws"
proof (rule trim_id)
  have "join_words ws \<noteq> [] \<longrightarrow> \<not> white_space (hd (join_words ws)) \<and> \<not> white_space (last (join_words ws))
      \<and> (ws \<noteq> [] \<longrightarrow> join_words ws \<noteq> [])"
    using assms
  proof (induction ws rule: join_words.induct)
    case (2 w)
    then show ?case by (simp add: word_def)
  next
    case (3 w v ws)
    from 3(2) [of w] have w: "w \<noteq> []" "\<not> white_space (hd w)" by (simp_all add: word_def)
    have ne: "join_words (v # ws) \<noteq> []" using 3(2) [of v] by (cases ws) (simp_all add: word_def)
    have "join_words (w # v # ws) = w @ '' '' @ join_words (v # ws)" by simp
    with w ne 3 show ?case by (simp del: join_words.simps)
  qed simp
  then show "join_words ws \<noteq> [] \<Longrightarrow> \<not> white_space (hd (join_words ws)) \<and> \<not> white_space (last (join_words ws))"
    by blast
qed

text \<open>
  The normal form is normal: normalizing again changes nothing, the words of the result are those
  of the input after folding, and it is empty exactly when the text is blank. The folding is one the
  code relies on: idempotent, and never turning white space into something else or back.
\<close>

theorem normalize_query_normal:
  assumes idem: "\<And>c. low (low c) = low c" and ws: "\<And>c. white_space c \<Longrightarrow> low c = c"
    and unws: "\<And>c. white_space (low c) \<Longrightarrow> white_space c"
  shows "normalize_query low (normalize_query low s) = normalize_query low s
    \<and> fields (normalize_query low s) = fields (map low (trim_space s))
    \<and> (normalize_query low s = [] \<longleftrightarrow> (\<forall>c \<in> set s. white_space c))"
proof -
  let ?u = "map low (trim_space s)"
  let ?n = "join_words (fields ?u)"
  have same: "white_space (low c) = white_space c" for c
  proof
    assume "white_space c"
    with ws [OF this] show "white_space (low c)" by simp
  qed (rule unws)
  have words: "word w" if "w \<in> set (fields ?u)" for w using that by (rule fields_words)
  have f: "fields ?n = fields ?u" by (rule fields_join) (rule words)
  have "low c = c" if "c \<in> set ?n" for c
    using join_words_chars [OF that] fields_chars [of _ ?u] ws idem by (fastforce simp: white_space_def)
  then have "map low ?n = ?n" by (simp add: map_idI)
  with f trim_join [OF words] have "normalize_query low ?n = ?n" by (simp add: normalize_query_def)
  moreover have "?n = [] \<longleftrightarrow> (\<forall>c \<in> set s. white_space c)"
  proof -
    have "?n = [] \<longleftrightarrow> fields ?u = []"
    proof
      assume "?n = []"
      with f show "fields ?u = []" by (simp add: fields_Nil)
    qed simp
    also have "\<dots> \<longleftrightarrow> (\<forall>c \<in> set ?u. white_space c)" by (rule fields_empty)
    also have "\<dots> \<longleftrightarrow> (\<forall>c \<in> set (trim_space s). white_space c)" by (simp add: same)
    also have "\<dots> \<longleftrightarrow> trim_space (trim_space s) = []" by (simp only: trim_space_Nil)
    finally show ?thesis by (simp add: trim_space_Nil)
  qed
  ultimately show ?thesis using f by (simp add: normalize_query_def)
qed

theorem normalize_query_normal_witness:
  "normalize_query id (normalize_query id ''  two  eggs '') = ''two eggs''"
proof -
  have "normalize_query id ''  two  eggs '' = ''two eggs''"
    by (simp add: normalize_query_def trim_space_def white_space_def fields.simps)
  with normalize_query_normal [of id "''  two  eggs ''"] show ?thesis by simp
qed

section \<open>A line of a shopping list\<close>

text \<open>
  The multiplier pattern, as the list of the ways a matcher that prefers the first alternative, long
  runs and a short text can consume the line, in its order of preference. \<open>\s\<close> has no vertical tab.
\<close>

definition re_space :: "char \<Rightarrow> bool" where
  "re_space c \<longleftrightarrow> c \<in> {CHR 0x09, CHR 0x0A, CHR 0x0C, CHR 0x0D, CHR 0x20}"

definition digit :: "char \<Rightarrow> bool" where
  "digit c \<longleftrightarrow> c \<in> set ''0123456789''"

definition re_digits :: "string \<Rightarrow> (string \<times> string) list" where
  "re_digits s = map (\<lambda>k. (take k s, drop k s)) (rev [1..<Suc (min 6 (length (takeWhile digit s)))])"

definition re_spaces :: "nat \<Rightarrow> string \<Rightarrow> string list" where
  "re_spaces least s = map (\<lambda>k. drop k s) (rev [least..<Suc (length (takeWhile re_space s))])"

definition re_one :: "char list \<Rightarrow> string \<Rightarrow> string list" where
  "re_one cs s = (case s of [] \<Rightarrow> [] | c # r \<Rightarrow> if c \<in> set cs then [r] else [])"

definition re_leading :: "string \<Rightarrow> (string \<times> string) list" where
  "re_leading s = [(d, s4). (d, s1) \<leftarrow> re_digits s, s2 \<leftarrow> re_spaces 0 s1, s3 \<leftarrow> re_one ''xX*'' s2 @ [s2],
     s4 \<leftarrow> re_spaces 1 s3] @ [([], s)]"

definition re_text :: "string \<Rightarrow> (string \<times> string) list" where
  "re_text s = map (\<lambda>k. (take k s, drop k s)) [0..<Suc (length (takeWhile (\<lambda>c. c \<noteq> CHR 0x0A) s))]"

definition re_trailing :: "string \<Rightarrow> (string \<times> string \<times> string) list" where
  "re_trailing s =
     [(d, [], s4). s1 \<leftarrow> re_spaces 1 s, s2 \<leftarrow> re_one ''xX*'' s1, s3 \<leftarrow> re_spaces 0 s2, (d, s4) \<leftarrow> re_digits s3]
   @ [([], d, s4). s1 \<leftarrow> re_spaces 1 s, (d, s2) \<leftarrow> re_digits s1, s3 \<leftarrow> re_spaces 0 s2, s4 \<leftarrow> re_one ''xX'' s3]
   @ [([], [], s)]"

definition quantity_matches :: "string \<Rightarrow> (string \<times> string \<times> string \<times> string) list" where
  "quantity_matches s = [(a, t, b, c). (a, s1) \<leftarrow> re_leading s, (t, s2) \<leftarrow> re_text s1,
     (b, c, s3) \<leftarrow> re_trailing s2, s3 = []]"

definition decimal_value :: "string \<Rightarrow> nat" where
  "decimal_value = foldl (\<lambda>n c. 10 * n + (of_char c - 48)) 0"

definition max_parsed_quantity :: nat where "max_parsed_quantity = 999"

definition parse_line :: "string \<Rightarrow> string \<times> nat" where
  "parse_line raw =
     (let trimmed = trim_space raw in
      if trimmed = [] then ([], 1)
      else (case quantity_matches trimmed of
          [] \<Rightarrow> (trimmed, 1)
        | (a, t, b, c) # _ \<Rightarrow>
            let text = trim_space t;
              quantity = (case filter (\<lambda>n. \<not> n < 1) (map decimal_value (filter (\<lambda>d. d \<noteq> []) [a, b, c])) of
                  [] \<Rightarrow> 1 | n # _ \<Rightarrow> min n max_parsed_quantity)
            in if text = [] then (trimmed, quantity) else (text, quantity)))"

fun drop_cr :: "string \<Rightarrow> string" where
  "drop_cr (c # d # cs) = (if c = CHR 0x0D \<and> d = CHR 0x0A then d # drop_cr cs else c # drop_cr (d # cs))"
| "drop_cr cs = cs"

definition split_lines :: "string \<Rightarrow> string list" where
  "split_lines raw = filter (\<lambda>l. l \<noteq> []) (map trim_space (split_at_char (CHR 0x0A) (drop_cr raw)))"

text \<open>
  A line gives a quantity between 1 and 999 and a trimmed text, and the text is empty only for a
  blank line.
\<close>

theorem parse_line_bounds:
  "1 \<le> snd (parse_line raw) \<and> snd (parse_line raw) \<le> 999
   \<and> trim_space (fst (parse_line raw)) = fst (parse_line raw)
   \<and> (fst (parse_line raw) = [] \<longleftrightarrow> list_all white_space raw)"
proof -
  have q: "1 \<le> (case filter (\<lambda>n. \<not> n < 1) ns of [] \<Rightarrow> 1 | n # _ \<Rightarrow> min n max_parsed_quantity)
     \<and> (case filter (\<lambda>n. \<not> n < 1) ns of [] \<Rightarrow> 1 | n # _ \<Rightarrow> min n max_parsed_quantity) \<le> 999" for ns :: "nat list"
  proof (cases "filter (\<lambda>n. \<not> n < 1) ns")
    case (Cons n ms)
    then have "\<not> n < 1" by (metis filter_eq_ConsD)
    with Cons show ?thesis by (simp add: max_parsed_quantity_def)
  qed simp
  show ?thesis
    using q trim_space_Nil [of raw] unfolding parse_line_def Let_def
    by (auto split: list.splits prod.splits simp: list_all_iff simp del: filter.simps)
qed

end
