(* ===== verification/Categories.thy ===== *)
theory Categories
  imports Products Locations Text
begin

text \<open>
  \<open>internal/store/categories.go\<close>, and the category paths of \<open>ingestion.go\<close> and \<open>shoppinglists.go\<close>: the
  category tree of a storage, what a move or a rule change does to the dates of the products below it,
  and the two functions that turn a category into a path of names and a path back into a category.
\<close>

section \<open>Operations\<close>

type_synonym category_row = "uuid \<times> category"

record new_category =
  nc_parent :: "uuid option"
  nc_name :: string
  nc_days :: "int option"

definition load_category :: "uuid \<Rightarrow> uuid \<Rightarrow> category_row dbtx" where
  "load_category storage i = row_tx ErrNotFound (\<lambda>s. case map_of (categories s) i of
      None \<Rightarrow> None | Some c \<Rightarrow> if cg_storage c = storage then Some (i, c) else None)"

definition insert_category_row :: "uuid \<Rightarrow> category \<Rightarrow> unit dbtx" where
  "insert_category_row i c =
     seq_tx (check_tx (\<lambda>s. \<not> tbl_has i (categories s) \<and> tbl_has (cg_storage c) (storage_rows s)
         \<and> pred_option int4 (cg_days c)) ErrInternal)
       (mod_tx (\<lambda>s. s\<lparr>categories := tbl_ins i c (categories s)\<rparr>))"

definition insert_category :: "uuid \<Rightarrow> uuid \<Rightarrow> new_category \<Rightarrow> category_row dbtx" where
  "insert_category storage i inp =
     seq_tx (resolve_parent TreeCategories storage None (nc_parent inp))
       (bind_tx (get_tx db_now) (\<lambda>now.
         let row = \<lparr>cg_storage = storage, cg_parent = nc_parent inp, cg_name = nc_name inp,
           cg_days = nc_days inp, cg_created = now, cg_updated = now\<rparr> in
         seq_tx (insert_category_row i row) (ret_tx (i, row))))"

definition create_category :: "uuid \<Rightarrow> new_category \<Rightarrow> category_row dbtx" where
  "create_category storage inp = bind_tx new_id (\<lambda>i. insert_category storage i inp)"

definition create_category_as_user :: "uuid \<Rightarrow> new_category \<Rightarrow> uuid \<Rightarrow> category_row dbtx" where
  "create_category_as_user storage inp user =
     bind_tx new_id (\<lambda>i. bind_tx (insert_category storage i inp) (\<lambda>c.
       seq_tx (record_contribution storage user CategoryCreated (Some (fst c)) None) (ret_tx c)))"

record category_patch =
  cp_name :: "string option"
  cp_parent :: "uuid option"
  cp_set_parent :: bool

definition recompute_each :: "uuid \<Rightarrow> uuid list \<Rightarrow> unit dbtx" where
  "recompute_each storage ps =
     iter_tx (\<lambda>p. bind_tx (recompute_derived_expiry storage p) (\<lambda>_. ret_tx ())) ps"

definition patch_category_row :: "uuid \<Rightarrow> category_patch \<Rightarrow> unit dbtx" where
  "patch_category_row i patch = mod_tx (\<lambda>s. s\<lparr>categories := tbl_upd i (\<lambda>c. c\<lparr>
     cg_name := coalesce_to (cp_name patch) (cg_name c),
     cg_parent := (if cp_set_parent patch then cp_parent patch else cg_parent c),
     cg_updated := db_now s\<rparr>) (categories s)\<rparr>)"

definition update_category :: "uuid \<Rightarrow> uuid \<Rightarrow> category_patch \<Rightarrow> category_row dbtx" where
  "update_category storage i patch =
     seq_tx (require_same_storage TreeCategories storage i)
    (seq_tx (when_tx (cp_set_parent patch) (resolve_parent TreeCategories storage (Some i) (cp_parent patch)))
    (seq_tx (patch_category_row i patch)
    (bind_tx (load_category storage i) (\<lambda>out.
       if \<not> cp_set_parent patch then ret_tx out
       else bind_tx (get_tx (products_under_category storage i)) (\<lambda>ps.
         seq_tx (recompute_each storage ps) (ret_tx out))))))"

definition move_category :: "uuid \<Rightarrow> uuid \<Rightarrow> uuid option \<Rightarrow> unit dbtx" where
  "move_category storage i parent =
     bind_tx (update_category storage i \<lparr>cp_name = None, cp_parent = parent, cp_set_parent = True\<rparr>) (\<lambda>_. ret_tx ())"

definition category_subtree :: "uuid \<Rightarrow> db \<Rightarrow> uuid list" where
  "category_subtree i s =
     (if tbl_has i (categories s) then descend (category_children s) max_tree_depth [i] else [])"

text \<open>
  DELETE FROM categories: the row and everything below it, with no bound; a product filed under any of
  them is a RESTRICT violation.
\<close>

definition category_cascade :: "uuid \<Rightarrow> db \<Rightarrow> uuid list" where
  "category_cascade i s = descend (category_children s) (max_tree_depth + length (categories s)) [i]"

definition delete_category_row :: "uuid \<Rightarrow> unit dbtx" where
  "delete_category_row i =
     bind_tx (get_tx (category_cascade i)) (\<lambda>gone.
       seq_tx (check_tx (\<lambda>s. \<forall>(_, p) \<in> set (products s). pred_option (\<lambda>c. c \<notin> set gone) (pr_category p)) ErrInternal)
         (mod_tx (\<lambda>s. s\<lparr>categories := tbl_del (\<lambda>k _. k \<in> set gone) (categories s)\<rparr>)))"

definition delete_category :: "uuid \<Rightarrow> uuid \<Rightarrow> unit dbtx" where
  "delete_category storage i =
     seq_tx (require_same_storage TreeCategories storage i)
    (bind_tx (get_tx (category_subtree i)) (\<lambda>subtree.
     bind_tx (get_tx (\<lambda>s. count_rows (\<lambda>_ p. \<not> pred_option (\<lambda>c. c \<notin> set subtree) (pr_category p)) (products s))) (\<lambda>used.
     seq_tx (guard_tx (\<not> used > 0) ErrConflict)
    (seq_tx (delete_category_row i)
       (record_tombstones storage TombstoneCategory subtree)))))"

definition set_category_shelf_life :: "uuid \<Rightarrow> uuid \<Rightarrow> int option \<Rightarrow> unit dbtx" where
  "set_category_shelf_life storage i days =
     seq_tx (guard_tx (pred_option int4 days) ErrInternal)
    (seq_tx (check_tx (in_storage TreeCategories storage i) ErrNotFound)
       (mod_tx (\<lambda>s. s\<lparr>categories := tbl_upd i (\<lambda>c. c\<lparr>cg_days := days, cg_updated := db_now s\<rparr>) (categories s)\<rparr>)))"

definition category_tree :: "uuid \<Rightarrow> db \<Rightarrow> category_row list" where
  "category_tree storage s = sort_key (\<lambda>(i, c). (cg_created c, i))
     (tbl_select (\<lambda>_ c. cg_storage c = storage) (categories s))"

section \<open>Paths of names\<close>

fun path_rest :: "string list \<Rightarrow> string" where
  "path_rest [] = []"
| "path_rest (n # ns) = '' > '' @ n @ path_rest ns"

fun join_path :: "string list \<Rightarrow> string" where
  "join_path [] = []"
| "join_path (n # ns) = n @ path_rest ns"

definition category_path_of :: "uuid \<Rightarrow> db \<Rightarrow> string" where
  "category_path_of i s = join_path (rev (map (\<lambda>k. case map_of (categories s) k of None \<Rightarrow> [] | Some c \<Rightarrow> cg_name c)
     (ancestors (tree_row TreeCategories s) (Suc max_tree_depth) i)))"

definition path_names :: "string \<Rightarrow> string list" where
  "path_names path = filter (\<lambda>n. n \<noteq> []) (map trim_space (split_at_char (CHR ''>'') path))"

text \<open>The oldest sibling of that name; \<open>low\<close> is the case folding of the database, character by character.\<close>

definition find_category :: "(char \<Rightarrow> char) \<Rightarrow> uuid \<Rightarrow> uuid option \<Rightarrow> string \<Rightarrow> db \<Rightarrow> uuid option" where
  "find_category low storage parent name s = map_option fst (List.find (\<lambda>_. True)
     (sort_key (\<lambda>(i, c). (cg_created c, i)) (tbl_select (\<lambda>_ c. cg_storage c = storage \<and> cg_parent c = parent
        \<and> map low (cg_name c) = map low name) (categories s))))"

definition ensure_category_step ::
    "(char \<Rightarrow> char) \<Rightarrow> uuid \<Rightarrow> string \<Rightarrow> uuid option \<Rightarrow> uuid option dbtx" where
  "ensure_category_step low storage name parent =
     bind_tx (get_tx (find_category low storage parent name)) (\<lambda>found. case found of
        Some i \<Rightarrow> ret_tx (Some i)
      | None \<Rightarrow> bind_tx new_id (\<lambda>i. bind_tx (get_tx db_now) (\<lambda>now.
          seq_tx (insert_category_row i \<lparr>cg_storage = storage, cg_parent = parent, cg_name = name,
              cg_days = None, cg_created = now, cg_updated = now\<rparr>)
            (ret_tx (Some i)))))"

definition ensure_category_path :: "(char \<Rightarrow> char) \<Rightarrow> uuid \<Rightarrow> string \<Rightarrow> uuid option dbtx" where
  "ensure_category_path low storage path =
     fold_tx (ensure_category_step low storage) (path_names path) None"

section \<open>Rules that change\<close>

lemma recompute_each_follow:
  "distinct (keys (batches s)) \<Longrightarrow> follow_except P s \<Longrightarrow> recompute_each storage ps s = Inr (u, s') \<Longrightarrow>
   follow_except (P - set ps) s' \<and> batches_only s s'"
proof (induction ps arbitrary: P s)
  case Nil
  then show ?case by (simp add: recompute_each_def ret_tx_iff batches_only_refl)
next
  case (Cons p ps)
  from Cons.prems(3) obtain n s1 where 1: "recompute_derived_expiry storage p s = Inr (n, s1)"
    and 2: "recompute_each storage ps s1 = Inr (u, s')"
    by (auto simp: recompute_each_def bind_tx_iff ret_tx_iff)
  note r = recompute_follow_except [OF Cons.prems(1) 1 Cons.prems(2)]
  then have "distinct (keys (batches s1))" using Cons.prems(1) batches_onlyD(1) by metis
  from Cons.IH [OF this _ 2] r have "follow_except (P - {p} - set ps) s'" "batches_only s s'"
    by (blast intro: batches_only_trans)+
  moreover have "P - {p} - set ps = P - set (p # ps)" by auto
  ultimately show ?case by simp
qed

lemma recompute_products_follow:
  "distinct (keys (batches s)) \<Longrightarrow> follow_except P s \<Longrightarrow> recompute_products storage ps n s = ((None, m), s') \<Longrightarrow>
   follow_except (P - set ps) s'"
proof (induction ps arbitrary: P n s)
  case Nil
  then show ?case by simp
next
  case (Cons p ps)
  from Cons.prems(3) obtain k s1 where 1: "recompute_derived_expiry storage p s = Inr (k, s1)"
    and 2: "recompute_products storage ps (n + k) s1 = ((None, m), s')"
    by (auto simp: in_tx_def split: sum.splits)
  note r = recompute_follow_except [OF Cons.prems(1) 1 Cons.prems(2)]
  then have "distinct (keys (batches s1))" using Cons.prems(1) batches_onlyD(1) by metis
  from Cons.IH [OF this _ 2] r have "follow_except (P - {p} - set ps) s'" by blast
  moreover have "P - {p} - set ps = P - set (p # ps)" by auto
  ultimately show ?case by simp
qed

text \<open>
  The walk of the rules and the walk of the recomputation meet: a category whose chain of 64 climbs
  through a node is found by the descent of 64 levels from that node.
\<close>

lemma category_child: "tree_row TreeCategories s c = Some (st, Some p) \<Longrightarrow> c \<in> set (category_children s p)"
  by (force simp: tree_row_def category_children_def dest: map_of_SomeD)

lemma ancestor_level:
  "i \<in> set (ancestors (tree_row TreeCategories s) n c) \<Longrightarrow>
   \<exists>k < n. c \<in> set (level_at (category_children s) k [i])"
proof (induction n arbitrary: c)
  case 0
  then show ?case by simp
next
  case (Suc n)
  show ?case
  proof (cases "c = i")
    case True
    then show ?thesis by (intro exI [of _ 0]) simp
  next
    case False
    with Suc.prems obtain st p where c: "tree_row TreeCategories s c = Some (st, Some p)"
      and p: "i \<in> set (ancestors (tree_row TreeCategories s) n p)"
      by (cases "tree_row TreeCategories s c") (auto split: option.splits)
    from Suc.IH [OF p] obtain k where "k < n" "p \<in> set (level_at (category_children s) k [i])" by blast
    with level_at_child [OF this(2) category_child [OF c]] show ?thesis by blast
  qed
qed

lemma ancestor_in_subtree:
  "i \<in> set (ancestors (tree_row TreeCategories s) max_tree_depth c) \<Longrightarrow>
   c \<in> set (descend (category_children s) max_tree_depth [i])"
  using ancestor_level descend_level by blast

text \<open>Along a chain of one storage every node is of that storage.\<close>

lemma ancestors_same_storage:
  "tree_ok f \<Longrightarrow> f c = Some (st, q) \<Longrightarrow> i \<in> set (ancestors f n c) \<Longrightarrow> \<exists>r. f i = Some (st, r)"
proof (induction n arbitrary: c q)
  case (Suc n)
  show ?case
  proof (cases "c = i")
    case False
    with Suc.prems obtain p where q: "q = Some p" "i \<in> set (ancestors f n p)" by (auto split: option.splits)
    with Suc.prems obtain r where "f p = Some (st, r)" unfolding tree_ok_def by blast
    from Suc.IH [OF Suc.prems(1) this q(2)] show ?thesis .
  qed (use Suc in auto)
qed simp

text \<open>Two tree functions that differ at one node climb alike from everywhere that does not reach it.\<close>

lemma ancestors_cong:
  assumes "\<And>j. j \<noteq> i \<Longrightarrow> g j = f j"
  shows "i \<notin> set (ancestors f n c) \<Longrightarrow> f i \<noteq> None \<Longrightarrow> ancestors g n c = ancestors f n c"
proof (induction n arbitrary: c)
  case (Suc n)
  then have "c \<noteq> i" by (auto split: option.splits)
  with Suc assms show ?case by (auto split: option.splits)
qed simp

lemma ancestors_reach:
  assumes "\<And>j. j \<noteq> i \<Longrightarrow> g j = f j" and "g i \<noteq> None"
  shows "i \<in> set (ancestors f n c) \<Longrightarrow> i \<in> set (ancestors g n c)"
proof (induction n arbitrary: c)
  case (Suc n)
  show ?case
  proof (cases "c = i")
    case True
    with assms(2) show ?thesis by auto
  next
    case False
    with Suc assms(1) show ?thesis by (auto split: option.splits)
  qed
qed simp

abbreviation days_of :: "db \<Rightarrow> uuid \<Rightarrow> int option" where
  "days_of s i \<equiv> Option.bind (map_of (categories s) i) cg_days"

lemma follow_same_rules:
  assumes "products s1 = products s" and "batches s1 = batches s"
    and "\<And>k b pr. (k, b) \<in> set (batches s) \<Longrightarrow> map_of (products s) (ba_product b) = Some pr \<Longrightarrow> ba_product b \<notin> P \<Longrightarrow>
      product_rules (pr_storage pr) pr s1 = product_rules (pr_storage pr) pr s"
    and "dates_follow s"
  shows "follow_except P s1"
  unfolding follow_except_def
proof (clarify)
  fix k b assume b: "(k, b) \<in> set (batches s1)" "ba_product b \<notin> P"
  have "rule_date s1 b = rule_date s b"
    using assms(1,2) assms(3) [of k b] b by (cases "map_of (products s) (ba_product b)") (simp_all add: rule_date_def)
  with assms(2,4) b(1) show "follows_rules s1 b" by (auto simp: dates_follow_def follows_rules_def)
qed

lemma product_rules_days:
  assumes "catalog s1 = catalog s"
    and "\<And>c. pr_category p = Some c \<Longrightarrow> category_days storage c s1 = category_days storage c s"
  shows "product_rules storage p s1 = product_rules storage p s"
  using assms by (cases "pr_category p") (simp_all add: product_rules_def)

text \<open>A change at one category can only move the rules of the products its recomputation covers.\<close>

lemma change_below:
  assumes tree: "tree_ok (tree_row TreeCategories s)"
    and i: "in_storage TreeCategories storage i s" "in_storage TreeCategories storage i s1"
    and row: "\<And>j. j \<noteq> i \<Longrightarrow> tree_row TreeCategories s1 j = tree_row TreeCategories s j"
    and days: "\<And>j. j \<noteq> i \<Longrightarrow> days_of s1 j = days_of s j"
    and same: "products s1 = products s" "batches s1 = batches s" "catalog s1 = catalog s"
    and df: "dates_follow s" and d: "distinct (keys (products s))"
  shows "follow_except (set (products_under_category storage i s1)) s1"
proof (rule follow_same_rules [OF same(1,2) _ df])
  fix k b pr assume pr: "map_of (products s) (ba_product b) = Some pr"
    and out: "ba_product b \<notin> set (products_under_category storage i s1)"
  let ?f = "tree_row TreeCategories s" and ?g = "tree_row TreeCategories s1"
  show "product_rules (pr_storage pr) pr s1 = product_rules (pr_storage pr) pr s"
  proof (rule product_rules_days [OF same(3)])
    fix c assume c: "pr_category pr = Some c"
    show "category_days (pr_storage pr) c s1 = category_days (pr_storage pr) c s"
    proof (cases "i \<in> set (ancestors ?f max_tree_depth c) \<and> in_storage TreeCategories (pr_storage pr) c s")
      case True
      then obtain q where "?f c = Some (pr_storage pr, q)" by (auto simp: in_storage_def)
      with ancestors_same_storage [OF tree this] True obtain r where "?f i = Some (pr_storage pr, r)" by blast
      with i(1) have st: "pr_storage pr = storage" by (simp add: in_storage_def)
      have "i \<in> set (ancestors ?g max_tree_depth c)"
        by (rule ancestors_reach [OF row]) (use True i(2) in \<open>auto simp: in_storage_def\<close>)
      from ancestor_in_subtree [OF this] have "c \<in> set (descend (category_children s1) max_tree_depth [i])" .
      moreover have "(ba_product b, pr) \<in> set (products s1)" using pr same(1) by (simp add: map_of_SomeD)
      ultimately have "ba_product b \<in> set (products_under_category storage i s1)"
        using c st i(2) by (force simp: products_under_category_def tbl_select_def)
      with out show ?thesis by simp
    next
      case False
      show ?thesis
      proof (cases "i \<in> set (ancestors ?f max_tree_depth c)")
        case True
        with False have "\<not> in_storage TreeCategories (pr_storage pr) c s" by simp
        moreover from this have "\<not> in_storage TreeCategories (pr_storage pr) c s1"
          using i row [of c] by (cases "c = i") (auto simp: in_storage_def)
        ultimately show ?thesis by (simp add: category_days_def)
      next
        case F: False
        have "?f i \<noteq> None" using i(1) by (auto simp: in_storage_def)
        with ancestors_cong [OF row F] have a: "ancestors ?g max_tree_depth c = ancestors ?f max_tree_depth c" by simp
        have "c \<noteq> i" using F \<open>?f i \<noteq> None\<close> by (auto simp: ancestors_step split: option.splits)
        moreover have "map (days_of s1) (ancestors ?f max_tree_depth c) = map (days_of s) (ancestors ?f max_tree_depth c)"
          by (rule map_cong [OF refl], rule days) (use F in blast)
        ultimately show ?thesis using row by (simp add: category_days_def a in_storage_def)
      qed
    qed
  qed
qed

section \<open>Steps\<close>

lemma patch_category_row_iff [tx_iff]:
  "patch_category_row i patch s = Inr r \<longleftrightarrow> r = ((), s\<lparr>categories := tbl_upd i (\<lambda>c. c\<lparr>
     cg_name := coalesce_to (cp_name patch) (cg_name c),
     cg_parent := (if cp_set_parent patch then cp_parent patch else cg_parent c),
     cg_updated := db_now s\<rparr>) (categories s)\<rparr>)"
  by (simp only: patch_category_row_def mod_tx_iff)

lemma load_category_iff [tx_iff]:
  "load_category storage i s = Inr r \<longleftrightarrow>
     (\<exists>c. map_of (categories s) i = Some c \<and> cg_storage c = storage \<and> r = ((i, c), s))"
  by (auto simp: load_category_def row_tx_iff split: option.splits if_splits)

lemma update_category_steps:
  assumes "update_category storage i patch s = Inr (out, s')"
  obtains c s1 where "map_of (categories s) i = Some c" "cg_storage c = storage"
    "cp_set_parent patch \<longrightarrow> (\<forall>p. cp_parent patch = Some p \<longrightarrow> in_storage TreeCategories storage p s \<and> i \<noteq> p
       \<and> i \<notin> set (ancestors (tree_row TreeCategories s) max_tree_depth p))"
    "patch_category_row i patch s = Inr ((), s1)" "map_of (categories s1) i = Some (snd out)" "fst out = i"
    "if cp_set_parent patch then recompute_each storage (products_under_category storage i s1) s1 = Inr ((), s')
     else s' = s1"
proof -
  have i: "in_storage TreeCategories storage i s"
    and p: "cp_set_parent patch \<longrightarrow> (\<forall>p. cp_parent patch = Some p \<longrightarrow> in_storage TreeCategories storage p s \<and> i \<noteq> p
       \<and> i \<notin> set (ancestors (tree_row TreeCategories s) max_tree_depth p))"
    using assms unfolding update_category_def
    by (auto simp: bind_tx_iff seq_tx_iff when_tx_iff require_same_storage_iff resolve_parent_iff split: if_splits)
  obtain s1 where s1: "patch_category_row i patch s = Inr ((), s1)"
    and out: "load_category storage i s1 = Inr (out, s1)"
    and r: "if cp_set_parent patch then recompute_each storage (products_under_category storage i s1) s1 = Inr ((), s')
     else s' = s1"
    using assms unfolding update_category_def
    by (auto simp: bind_tx_iff seq_tx_iff when_tx_iff require_same_storage_iff resolve_parent_iff get_tx_iff ret_tx_iff
        load_category_iff split: if_splits)
  from i obtain c where "map_of (categories s) i = Some c" "cg_storage c = storage"
    by (auto simp: in_storage_def tree_row_def)
  with p s1 r out show ?thesis by (intro that) (auto simp: load_category_iff)
qed

lemma shifts_categories: "rows_ok s \<Longrightarrow> shifts (\<lambda>_. 0) s (s\<lparr>categories := cs\<rparr>)"
  by (rule shifts_other) simp_all

lemma recompute_each_shifts:
  "rows_ok s \<Longrightarrow> recompute_each storage ps s = Inr (u, s') \<Longrightarrow> shifts (\<lambda>_. 0) s s'"
proof (induction ps arbitrary: s)
  case Nil
  then show ?case by (simp add: recompute_each_def ret_tx_iff shifts_refl)
next
  case (Cons p ps)
  then obtain n s1 where 1: "recompute_derived_expiry storage p s = Inr (n, s1)"
    and 2: "recompute_each storage ps s1 = Inr (u, s')"
    by (auto simp: recompute_each_def bind_tx_iff ret_tx_iff)
  note h = recompute_shifts [OF Cons.prems(1) 1]
  from shifts_trans [OF h Cons.IH [OF shifts_rows [OF h] 2]] show ?case by simp
qed

lemma update_category_shifts:
  assumes ok: "rows_ok s" and run: "update_category storage i patch s = Inr (out, s')"
  shows "shifts (\<lambda>_. 0) s s'"
proof -
  obtain s1 where 1: "patch_category_row i patch s = Inr ((), s1)"
    and r: "if cp_set_parent patch then recompute_each storage (products_under_category storage i s1) s1 = Inr ((), s')
     else s' = s1" by (rule update_category_steps [OF run])
  have h: "shifts (\<lambda>_. 0) s s1" using shifts_categories [OF ok] 1 by (auto simp: patch_category_row_iff)
  show ?thesis
  proof (cases "cp_set_parent patch")
    case True
    with r have "recompute_each storage (products_under_category storage i s1) s1 = Inr ((), s')" by simp
    from shifts_trans [OF h recompute_each_shifts [OF shifts_rows [OF h] this]] show ?thesis by simp
  next
    case False
    with r h show ?thesis by simp
  qed
qed

interpretation update_category_op: ledger_operation "\<lambda>(storage, i, patch). update_category storage i patch"
  by unfold_locales (auto intro: update_category_shifts)

lemma insert_category_shifts:
  "rows_ok s \<Longrightarrow> insert_category storage i inp s = Inr (r, s') \<Longrightarrow> shifts (\<lambda>_. 0) s s'"
  by (auto simp: insert_category_def insert_category_row_def resolve_parent_iff tx_iff Let_def intro: shifts_categories)

lemma create_category_shifts:
  assumes ok: "rows_ok s" and run: "create_category storage inp s = Inr (r, s')"
  shows "shifts (\<lambda>_. 0) s s'"
proof -
  obtain i s1 where n: "new_id s = Inr (i, s1)" and ins: "insert_category storage i inp s1 = Inr (r, s')"
    using run by (auto simp: create_category_def bind_tx_iff)
  note 1 = shifts_silent [OF silent_new_id n ok]
  from shifts_trans [OF 1 insert_category_shifts [OF shifts_rows [OF 1] ins]] show ?thesis by simp
qed

lemma shelf_life_shifts:
  "rows_ok s \<Longrightarrow> set_category_shelf_life storage i days s = Inr (r, s') \<Longrightarrow> shifts (\<lambda>_. 0) s s'"
  by (auto simp: set_category_shelf_life_def tx_iff intro: shifts_categories)

lemma delete_category_shifts:
  assumes ok: "rows_ok s" and run: "delete_category storage i s = Inr (r, s')"
  shows "shifts (\<lambda>_. 0) s s'"
proof -
  obtain cs where ts: "record_tombstones storage TombstoneCategory (category_subtree i s) (s\<lparr>categories := cs\<rparr>) = Inr (r, s')"
    using run by (auto simp: delete_category_def delete_category_row_def tx_iff)
  from record_tombstones_effect [OF ts] show ?thesis by (intro shifts_other [OF ok]) simp_all
qed

interpretation create_category_op: ledger_operation "\<lambda>(storage, inp). create_category storage inp"
  by unfold_locales (auto intro: create_category_shifts)

interpretation shelf_life_op: ledger_operation "\<lambda>(storage, i, days). set_category_shelf_life storage i days"
  by unfold_locales (auto intro: shelf_life_shifts)

interpretation delete_category_op: ledger_operation "\<lambda>(storage, i). delete_category storage i"
  by unfold_locales (auto intro: delete_category_shifts)

text \<open>
  Renaming or moving a category: the node gets the new name and parent, no other node changes, a
  move below a parent at most 64 levels deep keeps the tree a tree, the ledger and the shelf stay as
  they are, and if every derived date followed the rules before, every one follows them afterwards,
  although the move may have changed the rules of every product below the node.
\<close>

theorem update_category_correct:
  assumes tree: "tree_ok (tree_row TreeCategories s)" and inv: "stock_inv s"
    and run: "update_category storage i patch s = Inr (out, s')"
    and shallow: "\<And>p. cp_parent patch = Some p \<Longrightarrow> length (ancestors (tree_row TreeCategories s) 65 p) \<le> 64"
  shows "(\<exists>c. map_of (categories s) i = Some c \<and> cg_storage c = storage
        \<and> map_of (categories s') i = Some (c\<lparr>cg_name := coalesce_to (cp_name patch) (cg_name c),
             cg_parent := (if cp_set_parent patch then cp_parent patch else cg_parent c), cg_updated := db_now s\<rparr>))
    \<and> (\<forall>j. j \<noteq> i \<longrightarrow> map_of (categories s') j = map_of (categories s) j)
    \<and> tree_ok (tree_row TreeCategories s') \<and> stock_inv s' \<and> products s' = products s \<and> logs s' = logs s
    \<and> keys (batches s') = keys (batches s) \<and> (dates_follow s \<longrightarrow> dates_follow s')"
proof -
  obtain c s1 where c: "map_of (categories s) i = Some c" "cg_storage c = storage"
    and p: "cp_set_parent patch \<longrightarrow> (\<forall>p. cp_parent patch = Some p \<longrightarrow> in_storage TreeCategories storage p s \<and> i \<noteq> p
       \<and> i \<notin> set (ancestors (tree_row TreeCategories s) max_tree_depth p))"
    and 1: "patch_category_row i patch s = Inr ((), s1)"
    and r: "if cp_set_parent patch then recompute_each storage (products_under_category storage i s1) s1 = Inr ((), s')
     else s' = s1" by (rule update_category_steps [OF run])
  let ?f = "tree_row TreeCategories"
  have s1: "s1 = s\<lparr>categories := tbl_upd i (\<lambda>c. c\<lparr>cg_name := coalesce_to (cp_name patch) (cg_name c),
     cg_parent := (if cp_set_parent patch then cp_parent patch else cg_parent c), cg_updated := db_now s\<rparr>) (categories s)\<rparr>"
    using 1 by (simp add: patch_category_row_iff)
  have row1: "?f s1 j = (if j = i then Some (storage, if cp_set_parent patch then cp_parent patch else cg_parent c) else ?f s j)" for j
    using c by (simp add: s1 tree_row_def)
  have row0: "?f s i = Some (storage, cg_parent c)" using c by (simp add: tree_row_def)
  have in1: "in_storage TreeCategories storage i s" "in_storage TreeCategories storage i s1"
    using c row1 by (simp_all add: in_storage_def tree_row_def)
  have d: "distinct (keys (batches s))" "distinct (keys (products s))" using inv by (simp_all add: stock_inv_def rows_ok_def)
  have tree1: "tree_ok (?f s1)"
  proof (cases "cp_set_parent patch")
    case True
    have "tree_ok (?f (set_category_parent i (cp_parent patch) s))"
    proof (rule cat_tree.reparent_ok [OF tree])
      show "?f s i = Some (storage, cg_parent c)" using c by (simp add: tree_row_def)
      fix q assume "cp_parent patch = Some q"
      with True p shallow [of q] show "(\<exists>r. ?f s q = Some (storage, r)) \<and> q \<noteq> i
          \<and> i \<notin> set (ancestors (?f s) max_tree_depth q) \<and> cat_tree.shallow s q"
        by (auto simp: in_storage_def cat_tree.shallow_def max_tree_depth_def)
    qed
    moreover have "?f (set_category_parent i (cp_parent patch) s) = ?f s1"
      by (rule ext) (simp add: row1 cat_tree.row_set_parent row0 True)
    ultimately show ?thesis by simp
  next
    case False
    then have "?f s1 = ?f s" by (intro ext) (simp add: row1 row0)
    with tree show ?thesis by simp
  qed
  have fe: "follow_except (if cp_set_parent patch then set (products_under_category storage i s1) else {}) s1"
    if df: "dates_follow s"
  proof (cases "cp_set_parent patch")
    case True
    have "follow_except (set (products_under_category storage i s1)) s1"
      by (rule change_below [OF tree in1 _ _ _ _ _ df d(2)]) (use row1 in \<open>simp_all add: s1\<close>)
    with True show ?thesis by simp
  next
    case False
    have "?f s1 = ?f s" by (intro ext) (simp add: row1 row0 False)
    moreover have "days_of s1 j = days_of s j" for j using c by (simp add: s1)
    ultimately have "category_days st k s1 = category_days st k s" for st k
      by (simp add: category_days_def in_storage_def)
    then have "follow_except {} s1"
      by (intro follow_same_rules [OF _ _ _ df] product_rules_days) (simp_all add: s1)
    with False show ?thesis by simp
  qed
  have rest: "batches_only s1 s' \<and> (dates_follow s \<longrightarrow> dates_follow s')"
  proof (cases "cp_set_parent patch")
    case True
    with r have rec: "recompute_each storage (products_under_category storage i s1) s1 = Inr ((), s')" by simp
    have d1: "distinct (keys (batches s1))" using d by (simp add: s1)
    have "follow_except UNIV s1" by (simp add: follow_except_def)
    from recompute_each_follow [OF d1 this rec] have "batches_only s1 s'" by simp
    moreover have "dates_follow s'" if "dates_follow s"
      using recompute_each_follow [OF d1 fe [OF that] rec] True by (simp add: dates_follow_except)
    ultimately show ?thesis by blast
  next
    case False
    with r fe show ?thesis by (simp add: batches_only_refl dates_follow_except)
  qed
  note b = batches_onlyD [OF conjunct1 [OF rest]]
  have "stock_inv s'" using update_category_op.commit_keeps [of s "(storage, i, patch)"] inv run by simp
  moreover have "?f s' = ?f s1" by (intro ext) (simp add: tree_row_def b)
  ultimately show ?thesis using c tree1 rest b by (auto simp: s1)
qed


lemma ancestors_numeral: "ancestors f (numeral k) i = (case f i of None \<Rightarrow> []
    | Some (_, p) \<Rightarrow> i # (case p of None \<Rightarrow> [] | Some q \<Rightarrow> ancestors f (pred_numeral k) q))"
  by (simp add: numeral_eq_Suc)

lemma descend_numeral: "descend ch (numeral k) lv = lv @ descend ch (pred_numeral k) (concat (map ch lv))"
  by (simp add: numeral_eq_Suc)

text \<open>
  The demonstration storage with milk filed under the root category 41, which knows no rule, beside the
  root category 40, whose rule is twelve days.
\<close>

definition demo_category :: "string \<Rightarrow> int option \<Rightarrow> category" where
  "demo_category name days = \<lparr>cg_storage = 2, cg_parent = None, cg_name = name, cg_days = days,
     cg_created = 0, cg_updated = 0\<rparr>"

definition dairy_db :: db where
  "dairy_db = fresh_db\<lparr>categories := [(40, demo_category ''Food'' (Some 12)), (41, demo_category ''Dairy'' None)],
     products := [(5, demo_product\<lparr>pr_category := Some 41\<rparr>)]\<rparr>"

lemmas dairy_defs = dairy_db_def demo_category_def fresh_db_def demo_defs

lemma dairy_stock_inv: "stock_inv dairy_db"
  by (simp add: stock_inv_def rows_ok_def batch_ok_def log_ok_def container_ok_def tbl_has_def
      ledger_total_def stock_total_def dairy_defs)

lemma dairy_row: "tree_row TreeCategories dairy_db j = (if j = 40 \<or> j = 41 then Some (2, None) else None)"
  by (simp add: tree_row_def dairy_defs)

lemma dairy_tree: "tree_ok (tree_row TreeCategories dairy_db)"
proof -
  have "up_rel (tree_row TreeCategories dairy_db) = {}" by (simp add: up_rel_def dairy_row)
  then show ?thesis by (simp add: tree_ok_def acyclic_def dairy_row)
qed

lemma dairy_ancestors: "ancestors (tree_row TreeCategories dairy_db) max_tree_depth j = (if j = 40 \<or> j = 41 then [j] else [])"
  by (simp add: max_tree_depth_def ancestors_numeral dairy_row)

lemma dairy_follows: "dates_follow dairy_db"
proof -
  have "category_days 2 41 dairy_db = [None]"
    by (simp add: category_days_def dairy_ancestors in_storage_def dairy_row) (simp add: dairy_defs)
  then show ?thesis
    by (simp add: dates_follow_def follows_rules_def rule_date_def product_rules_def resolve_def
        item_type_fallback_days_def date_for_def day_of_def dairy_defs)
qed

abbreviation "moved_dairy \<equiv> dairy_db\<lparr>categories :=
  [(40, demo_category ''Food'' (Some 12)), (41, (demo_category ''Dairy'' None)\<lparr>cg_parent := Some 40\<rparr>)]\<rparr>"

lemma moved_children: "category_children moved_dairy i = (if i = 40 then [41] else [])"
  by (simp add: category_children_def demo_category_def)

lemma moved_descend: "descend (category_children moved_dairy) max_tree_depth [41] = [41]"
  by (simp add: max_tree_depth_def descend_numeral moved_children descend_Nil del: descend.simps)

lemma moved_under: "products_under_category 2 41 moved_dairy = [5]"
  unfolding products_under_category_def Let_def moved_descend
  by (simp add: in_storage_def tree_row_def tbl_select_def) (simp add: dairy_defs)

lemma moved_days: "category_days 2 41 moved_dairy = [None, Some 12]"
  by (simp add: category_days_def in_storage_def max_tree_depth_def ancestors_numeral tree_row_def)
    (simp add: dairy_defs)

lemma dairy_recompute: "\<exists>s'. recompute_each 2 [5] moved_dairy = Inr ((), s')"
  by (simp add: recompute_each_def recompute_derived_expiry_def apply_derived_expiry_def
      load_derived_batches_def bind_tx_iff ret_tx_iff tx_iff product_rules_def)
    (simp add: dairy_defs tbl_select_def redate_batch_iff bind_tx_iff ret_tx_iff)

lemma dairy_move: "\<exists>r s'. update_category 2 41 \<lparr>cp_name = None, cp_parent = Some 40, cp_set_parent = True\<rparr> dairy_db = Inr (r, s')"
proof -
  have "patch_category_row 41 \<lparr>cp_name = None, cp_parent = Some 40, cp_set_parent = True\<rparr> dairy_db = Inr ((), moved_dairy)"
    by (simp add: patch_category_row_iff) (simp add: dairy_defs coalesce_to_def tbl_upd_def tbl_map_def)
  moreover have "41 \<notin> set (ancestors (tree_row TreeCategories dairy_db) max_tree_depth 40)"
    by (simp add: dairy_ancestors)
  ultimately show ?thesis using dairy_recompute moved_under
    by (simp add: update_category_def seq_tx_iff bind_tx_iff when_tx_iff require_same_storage_iff resolve_parent_iff
      get_tx_iff ret_tx_iff load_category_iff in_storage_def dairy_row) (simp add: demo_category_def)
qed

theorem update_category_correct_witness:
  "\<exists>r s'. update_category 2 41 \<lparr>cp_name = None, cp_parent = Some 40, cp_set_parent = True\<rparr> dairy_db = Inr (r, s')
     \<and> tree_row TreeCategories s' 41 = Some (2, Some 40) \<and> tree_ok (tree_row TreeCategories s') \<and> dates_follow s'"
proof -
  obtain r s' where run: "update_category 2 41 \<lparr>cp_name = None, cp_parent = Some 40, cp_set_parent = True\<rparr> dairy_db = Inr (r, s')"
    using dairy_move by blast
  have sh: "length (ancestors (tree_row TreeCategories dairy_db) 65 40) \<le> 64"
    by (simp add: ancestors_numeral dairy_row)
  have "tree_row TreeCategories s' 41 = Some (2, Some 40) \<and> tree_ok (tree_row TreeCategories s') \<and> dates_follow s'"
    using update_category_correct [OF dairy_tree dairy_stock_inv run] sh dairy_follows
    by (auto simp: tree_row_def dairy_defs)
  with run show ?thesis by blast
qed

section \<open>A rule that is edited\<close>

lemma recompute_products_effect:
  "rows_ok s \<Longrightarrow> recompute_products storage ps n s = (out, s') \<Longrightarrow> shifts (\<lambda>_. 0) s s' \<and> batches_only s s'"
proof (induction ps arbitrary: n s)
  case Nil
  then show ?case by (simp add: shifts_refl batches_only_refl)
next
  case (Cons p ps)
  show ?case
  proof (cases "recompute_derived_expiry storage p s")
    case (Inl e)
    with Cons.prems show ?thesis by (simp add: in_tx_def shifts_refl batches_only_refl)
  next
    case (Inr r)
    then obtain k s1 where 1: "recompute_derived_expiry storage p s = Inr (k, s1)" by (cases r) simp
    with Cons.prems have 2: "recompute_products storage ps (n + k) s1 = (out, s')" by simp
    note h = recompute_shifts [OF Cons.prems(1) 1]
    have "batches_only s s1"
      using recompute_follow_except [OF _ 1, of UNIV] Cons.prems(1) by (simp add: follow_except_def rows_ok_def)
    with Cons.IH [OF shifts_rows [OF h] 2] shifts_trans [OF h] show ?thesis
      by (auto intro: batches_only_trans)
  qed
qed

text \<open>
  Editing a category's shelf-life rule and running the recomputation the handler starts: when the
  recomputation reports no failure, every derived date that followed the rules before the edit follows
  the edited rules, wherever its product hangs below the category; the tree, the products and the
  ledger are untouched and no batch appears or disappears.
\<close>

theorem category_rule_edit_correct:
  assumes tree: "tree_ok (tree_row TreeCategories s)" and inv: "stock_inv s" and df: "dates_follow s"
    and edit: "set_category_shelf_life storage i days s = Inr ((), s1)"
    and cascade: "recompute_for_category storage i s1 = ((None, n), s2)"
  shows "dates_follow s2 \<and> batches_only s1 s2 \<and> tree_row TreeCategories s2 = tree_row TreeCategories s
    \<and> map_option cg_days (map_of (categories s2) i) = Some days \<and> stock_inv s2"
proof -
  have i: "in_storage TreeCategories storage i s"
    and s1: "s1 = s\<lparr>categories := tbl_upd i (\<lambda>c. c\<lparr>cg_days := days, cg_updated := db_now s\<rparr>) (categories s)\<rparr>"
    using edit by (auto simp: set_category_shelf_life_def tx_iff)
  have rows: "tree_row TreeCategories s1 j = tree_row TreeCategories s j" for j
    by (auto simp: s1 tree_row_def option.map_comp o_def)
  have i1: "in_storage TreeCategories storage i s1" using i rows by (simp add: in_storage_def)
  have d: "distinct (keys (batches s))" "distinct (keys (products s))" and ok: "rows_ok s"
    using inv by (simp_all add: stock_inv_def rows_ok_def)
  have "follow_except (set (products_under_category storage i s1)) s1"
    by (rule change_below [OF tree i i1 rows _ _ _ _ df d(2)]) (simp_all add: s1)
  moreover have d1: "distinct (keys (batches s1))" using d by (simp add: s1)
  ultimately have f: "dates_follow s2"
    using recompute_products_follow cascade by (fastforce simp: recompute_for_category_def dates_follow_except)
  have sh1: "shifts (\<lambda>_. 0) s s1" unfolding s1 by (rule shifts_categories [OF ok])
  note e = recompute_products_effect [OF shifts_rows [OF sh1] cascade [unfolded recompute_for_category_def]]
  note b = conjunct2 [OF e]
  have "stock_inv s2" by (rule shifts_keep [OF inv shifts_trans [OF sh1 conjunct1 [OF e], simplified]])
  moreover have "tree_row TreeCategories s2 j = tree_row TreeCategories s j" for j
    using rows [of j] by (simp add: tree_row_def batches_onlyD [OF b])
  moreover from i obtain c where "map_of (categories s) i = Some c" by (auto simp: in_storage_def tree_row_def)
  ultimately show ?thesis using f b by (auto simp: batches_onlyD [OF b] s1 fun_eq_iff)
qed

lemma dairy_rule_edit: "\<exists>s1 n s2. set_category_shelf_life 2 41 (Some 9) dairy_db = Inr ((), s1)
    \<and> recompute_for_category 2 41 s1 = ((None, n), s2)"
proof -
  let ?s = "dairy_db\<lparr>categories := [(40, demo_category ''Food'' (Some 12)), (41, demo_category ''Dairy'' (Some 9))]\<rparr>"
  have 1: "set_category_shelf_life 2 41 (Some 9) dairy_db = Inr ((), ?s)"
    by (simp add: set_category_shelf_life_def seq_tx_iff guard_tx_iff check_tx_iff mod_tx_iff in_storage_def dairy_row int4_def)
      (simp add: dairy_defs tbl_upd_def tbl_map_def)
  have "category_children ?s i = []" for i by (simp add: category_children_def demo_category_def)
  then have "descend (category_children ?s) max_tree_depth [41] = [41]"
    by (simp add: max_tree_depth_def descend_numeral descend_Nil del: descend.simps)
  then have 2: "products_under_category 2 41 ?s = [5]"
    unfolding products_under_category_def Let_def
    by (simp add: in_storage_def tree_row_def tbl_select_def) (simp add: dairy_defs)
  have "\<exists>n s2. recompute_derived_expiry 2 5 ?s = Inr (n, s2)"
    by (simp add: recompute_derived_expiry_def apply_derived_expiry_def
        load_derived_batches_def bind_tx_iff ret_tx_iff tx_iff product_rules_def)
      (simp add: dairy_defs tbl_select_def redate_batch_iff bind_tx_iff ret_tx_iff)
  then obtain n s2 where "recompute_derived_expiry 2 5 ?s = Inr (n, s2)" by blast
  then have "recompute_for_category 2 41 ?s = ((None, n), s2)"
    by (simp add: recompute_for_category_def 2 in_tx_def)
  with 1 show ?thesis by blast
qed

theorem category_rule_edit_correct_witness:
  "\<exists>s1 n s2. set_category_shelf_life 2 41 (Some 9) dairy_db = Inr ((), s1)
     \<and> recompute_for_category 2 41 s1 = ((None, n), s2) \<and> dates_follow s2"
proof -
  obtain s1 n s2 where run: "set_category_shelf_life 2 41 (Some 9) dairy_db = Inr ((), s1)"
    "recompute_for_category 2 41 s1 = ((None, n), s2)" using dairy_rule_edit by blast
  from category_rule_edit_correct [OF dairy_tree dairy_stock_inv dairy_follows run]
  have "dates_follow s2" by blast
  with run show ?thesis by blast
qed

section \<open>From a category to its path and back\<close>

text \<open>A name that survives the trimming and the separator of a path.\<close>

definition plain_name :: "string \<Rightarrow> bool" where
  "plain_name n \<longleftrightarrow> n \<noteq> [] \<and> CHR ''>'' \<notin> set n \<and> trim_space n = n"

lemma split_join:
  assumes "\<And>m. m \<in> set ns \<Longrightarrow> plain_name m"
  shows "CHR ''>'' \<notin> set w \<Longrightarrow>
    map trim_space (split_at_char (CHR ''>'') (w @ path_rest ns)) = trim_space w # ns"
  using assms
proof (induction ns arbitrary: w)
  case Nil
  then show ?case by (simp add: split_plain)
next
  case (Cons n ns)
  have n: "n \<noteq> []" "CHR ''>'' \<notin> set n" "trim_space n = n"
    using Cons.prems(2) [of n] by (simp_all add: plain_name_def)
  have sp: "CHR ''>'' \<notin> set ('' '' @ n)" "CHR ''>'' \<notin> set (w @ '' '')" using n Cons.prems(1) by auto
  have tail: "map trim_space (split_at_char (CHR ''>'') (('' '' @ n) @ path_rest ns)) = n # ns"
    using Cons.IH [OF sp(1)] Cons.prems(2) by (simp only: trim_after_space n) simp
  have "w @ path_rest (n # ns) = (w @ '' '') @ CHR ''>'' # (('' '' @ n) @ path_rest ns)" by simp
  then show ?case
    by (simp only: split_sep [OF sp(2)] list.map trim_before_space tail)
qed

lemma path_names_join:
  assumes "\<And>n. n \<in> set ns \<Longrightarrow> plain_name n"
  shows "path_names (join_path ns) = ns"
proof (cases ns)
  case Nil
  then show ?thesis by (simp add: path_names_def trim_space_def)
next
  case (Cons n ms)
  have p: "plain_name n" using assms Cons by simp
  have "map trim_space (split_at_char (CHR ''>'') (join_path ns)) = ns"
    using split_join [of ms n] assms Cons p by (simp add: plain_name_def)
  moreover have "filter (\<lambda>n. n \<noteq> []) ns = ns"
    using assms by (simp add: filter_id_conv plain_name_def)
  ultimately show ?thesis by (simp add: path_names_def)
qed

lemma fold_tx_snoc: "fold_tx f (xs @ [x]) b = bind_tx (fold_tx f xs b) (f x)"
proof (induction xs arbitrary: b)
  case Nil
  then show ?case by (auto simp: bind_tx_def ret_tx_def fun_eq_iff split: sum.splits)
next
  case (Cons y ys)
  then show ?case by (auto simp: bind_tx_def fun_eq_iff split: sum.splits)
qed

text \<open>No two siblings share a name up to case.\<close>

definition siblings_differ :: "(char \<Rightarrow> char) \<Rightarrow> db \<Rightarrow> bool" where
  "siblings_differ low s \<longleftrightarrow> distinct (keys (categories s)) \<and> (\<forall>(i, c) \<in> set (categories s). \<forall>(j, d) \<in> set (categories s).
     cg_storage c = cg_storage d \<and> cg_parent c = cg_parent d \<and> map low (cg_name c) = map low (cg_name d) \<longrightarrow> i = j)"

abbreviation category_name :: "db \<Rightarrow> uuid \<Rightarrow> string" where
  "category_name s i \<equiv> case map_of (categories s) i of None \<Rightarrow> [] | Some c \<Rightarrow> cg_name c"

lemma find_category_self:
  assumes "siblings_differ low s" and i: "map_of (categories s) i = Some c"
  shows "find_category low (cg_storage c) (cg_parent c) (cg_name c) s = Some i"
proof -
  let ?sel = "tbl_select (\<lambda>_ d. cg_storage d = cg_storage c \<and> cg_parent d = cg_parent c
        \<and> map low (cg_name d) = map low (cg_name c)) (categories s)"
  let ?srt = "sort_key (\<lambda>(i, c). (cg_created c, i)) ?sel"
  have m: "(i, c) \<in> set ?srt" using i by (simp add: tbl_select_def map_of_SomeD)
  have "fst x = i" if "x \<in> set ?srt" for x
    using that assms map_of_SomeD [OF i] unfolding siblings_differ_def by (fastforce simp: tbl_select_def)
  moreover obtain x xs where x: "?srt = x # xs" using m by (cases ?srt) auto
  ultimately have "fst x = i" by simp
  then show ?thesis by (simp add: find_category_def x)
qed

lemma ensure_chain:
  assumes tree: "tree_ok (tree_row TreeCategories s)" and sib: "siblings_differ low s"
  shows "map_of (categories s) i = Some c \<Longrightarrow> length (ancestors (tree_row TreeCategories s) (Suc n) i) \<le> n \<Longrightarrow>
    fold_tx (ensure_category_step low (cg_storage c))
      (rev (map (category_name s) (ancestors (tree_row TreeCategories s) n i))) None s = Inr (Some i, s)"
proof (induction n arbitrary: i c)
  case 0
  then show ?case by (simp add: tree_row_def split: option.splits)
next
  case (Suc n)
  let ?f = "tree_row TreeCategories s" and ?step = "ensure_category_step low (cg_storage c)"
  have fi: "?f i = Some (cg_storage c, cg_parent c)" using Suc.prems by (simp add: tree_row_def)
  have last: "?step (cg_name c) (cg_parent c) s = Inr (Some i, s)"
    using find_category_self [OF sib Suc.prems(1)] by (simp add: ensure_category_step_def tx_defs)
  show ?case
  proof (cases "cg_parent c")
    case None
    with fi last Suc.prems(1) show ?thesis by (simp add: bind_tx_def ret_tx_def)
  next
    case (Some q)
    with fi tree obtain r where "?f q = Some (cg_storage c, r)" unfolding tree_ok_def by metis
    then obtain d where d: "map_of (categories s) q = Some d" "cg_storage d = cg_storage c"
      by (auto simp: tree_row_def)
    have "length (ancestors ?f (Suc n) q) \<le> n"
      using Suc.prems(2) fi Some by (simp del: ancestors.simps(2) add: ancestors.simps(2) [of ?f "Suc n" i])
    from Suc.IH [OF d(1) this] have "fold_tx ?step (rev (map (category_name s) (ancestors ?f n q))) None s = Inr (Some q, s)"
      by (simp add: d(2))
    moreover have "ancestors ?f (Suc n) i = i # ancestors ?f n q" using fi Some by simp
    ultimately show ?thesis using last Some Suc.prems(1) by (simp add: fold_tx_snoc bind_tx_def)
  qed
qed

text \<open>A walk that ended before its bound is the same under every larger bound.\<close>

lemma ancestors_whole: "length (ancestors f (Suc n) i) \<le> n \<Longrightarrow> ancestors f (Suc n) i = ancestors f n i"
proof (induction n arbitrary: i)
  case 0
  then show ?case by simp
next
  case (Suc n)
  show ?case
  proof (cases "\<exists>st q. f i = Some (st, Some q)")
    case True
    then obtain st q where fi: "f i = Some (st, Some q)" by blast
    have "length (ancestors f (Suc n) q) \<le> n"
      using Suc.prems fi by (simp del: ancestors.simps(2) add: ancestors.simps(2) [of f "Suc n" i])
    from Suc.IH [OF this] show ?thesis
      by (simp del: ancestors.simps(2) add: ancestors.simps(2) [of f _ i] fi)
  next
    case False
    then show ?thesis by (cases "f i") (auto split: option.splits)
  qed
qed



end
