(* ===== verification/Catalog.thy ===== *)
theory Catalog
  imports Categories
begin

text \<open>
  \<open>internal/store/catalog.go\<close>: the anonymous catalogue all storages share. Its rows are insert-only, the
  first description of a name stands; a variant points at its base and never at another variant; an
  administrator may delete an entry or correct its shelf life. Case folding and collation are parameters.
\<close>

section \<open>Operations\<close>

type_synonym catalog_row = "uuid \<times> catalog_entry"

record new_catalog_product =
  nk_display :: string
  nk_path :: "string option"
  nk_item_type :: "item_type option"
  nk_image :: "string option"
  nk_icon :: "string option"
  nk_days :: "int option"
  nk_shown :: "uuid option"

definition catalog_by_name :: "string \<Rightarrow> db \<Rightarrow> catalog_row option" where
  "catalog_by_name n s = List.find (\<lambda>(_, e). ct_normalized e = n) (catalog s)"

definition resolve_variant_base :: "uuid option \<Rightarrow> db \<Rightarrow> uuid option" where
  "resolve_variant_base shown s = (case shown of
      None \<Rightarrow> None
    | Some i \<Rightarrow> (case map_of (catalog s) i of
          None \<Rightarrow> None
        | Some e \<Rightarrow> (case ct_base e of Some b \<Rightarrow> Some b | None \<Rightarrow> Some i)))"

text \<open>INSERT ... ON CONFLICT (normalized_name) DO NOTHING.\<close>

definition insert_catalog_row :: "uuid \<Rightarrow> catalog_entry \<Rightarrow> unit dbtx" where
  "insert_catalog_row i e =
     seq_tx (guard_tx (pred_option int4 (ct_days e) \<and> item_type_fallback_days (ct_item_type e) \<noteq> None) ErrInternal)
    (bind_tx (get_tx (catalog_by_name (ct_normalized e))) (\<lambda>taken.
       if taken \<noteq> None then ret_tx ()
       else seq_tx (check_tx (\<lambda>s. \<not> tbl_has i (catalog s) \<and> pred_option (\<lambda>b. tbl_has b (catalog s)) (ct_base e)) ErrInternal)
         (mod_tx (\<lambda>s. s\<lparr>catalog := tbl_ins i e (catalog s)\<rparr>))))"

definition insert_catalog_product :: "(char \<Rightarrow> char) \<Rightarrow> new_catalog_product \<Rightarrow> catalog_row dbtx" where
  "insert_catalog_product low inp =
     (let normalized = normalize_query low (nk_display inp) in
      seq_tx (guard_tx (normalized \<noteq> []) ErrValidation)
     (bind_tx new_id (\<lambda>i.
      bind_tx (get_tx (resolve_variant_base (nk_shown inp))) (\<lambda>base.
      bind_tx (get_tx db_now) (\<lambda>now.
      seq_tx (insert_catalog_row i \<lparr>ct_normalized = normalized, ct_display = nk_display inp, ct_base = base,
          ct_category_path = nk_path inp,
          ct_item_type = (case nk_item_type inp of None \<Rightarrow> LongShelfLife | Some t \<Rightarrow> t),
          ct_image = nk_image inp, ct_icon = nk_icon inp, ct_days = nk_days inp, ct_created = now\<rparr>)
        (row_tx ErrNotFound (catalog_by_name normalized)))))))"

definition catalog_variants :: "(string \<Rightarrow> 'c :: linorder) \<Rightarrow> uuid \<Rightarrow> int \<Rightarrow> db \<Rightarrow> string list" where
  "catalog_variants coll i limit s = (case map_of (catalog s) i of
      None \<Rightarrow> []
    | Some e \<Rightarrow>
        let base = (case ct_base e of None \<Rightarrow> i | Some b \<Rightarrow> b) in
        take (nat (if limit \<le> 0 then 5 else limit)) (sort_key coll (map (\<lambda>(_, c). ct_display c)
          (tbl_select (\<lambda>k c. k \<noteq> i \<and> (ct_base c = Some base \<or> k = base)) (catalog s)))))"

definition max_catalog_search_results :: nat where "max_catalog_search_results = 50"

definition search_catalog ::
    "(string \<Rightarrow> 'c :: linorder) \<Rightarrow> (char \<Rightarrow> char) \<Rightarrow> string \<Rightarrow> db \<Rightarrow> catalog_row list" where
  "search_catalog coll low q s = take max_catalog_search_results
     (sort_key (\<lambda>(_, e). coll (ct_display e)) (tbl_select (\<lambda>_ e. name_matches low q (ct_display e)) (catalog s)))"

definition find_catalog_product :: "(char \<Rightarrow> char) \<Rightarrow> string \<Rightarrow> catalog_row dbtx" where
  "find_catalog_product low name = row_tx ErrNotFound (catalog_by_name (normalize_query low name))"

text \<open>
  DELETE FROM catalog_products: variants and products of the entry lose their reference, its barcode
  hints go with it.
\<close>

definition delete_catalog_row :: "uuid \<Rightarrow> unit dbtx" where
  "delete_catalog_row i = mod_tx (\<lambda>s. s\<lparr>
     catalog := tbl_map (\<lambda>_ e. ct_base e = Some i) (\<lambda>e. e\<lparr>ct_base := None\<rparr>) (tbl_del (\<lambda>k _. k = i) (catalog s)),
     products := tbl_map (\<lambda>_ p. pr_catalog p = Some i) (\<lambda>p. p\<lparr>pr_catalog := None\<rparr>) (products s),
     catalog_barcodes := filter (\<lambda>(_, b). cb_catalog b \<noteq> i) (catalog_barcodes s)\<rparr>)"

definition delete_catalog_product :: "uuid option \<Rightarrow> uuid \<Rightarrow> unit dbtx" where
  "delete_catalog_product actor i =
     bind_tx (row_tx ErrNotFound (\<lambda>s. map_of (catalog s) i)) (\<lambda>e.
     seq_tx (delete_catalog_row i)
       (write_admin_audit actor ActionCatalogEntryDeleted (Some (TargetId i))
         (no_details\<lparr>ad_display := ct_display e\<rparr>)))"

section \<open>The shape of the catalogue\<close>

text \<open>
  One row per id and per normalized name, no blank name, and variants one level deep: the base of a
  row exists and has no base of its own.
\<close>

definition catalog_ok :: "db \<Rightarrow> bool" where
  "catalog_ok s \<longleftrightarrow> distinct (keys (catalog s)) \<and> distinct (map (ct_normalized \<circ> snd) (catalog s))
     \<and> (\<forall>(i, e) \<in> set (catalog s). ct_normalized e \<noteq> []
          \<and> pred_option (\<lambda>b. \<exists>r. map_of (catalog s) b = Some r \<and> ct_base r = None) (ct_base e))"

lemma catalog_ok_cong: "catalog s' = catalog s \<Longrightarrow> catalog_ok s' = catalog_ok s"
  by (simp only: catalog_ok_def)

lemma catalog_by_name_None: "catalog_by_name n s = None \<longleftrightarrow> n \<notin> set (map (ct_normalized \<circ> snd) (catalog s))"
  by (force simp: catalog_by_name_def find_None_iff)

lemma catalog_by_name_Some: "catalog_by_name n s = Some r \<Longrightarrow> r \<in> set (catalog s) \<and> ct_normalized (snd r) = n"
  unfolding catalog_by_name_def by (induction "catalog s") (auto simp: find_Some_iff in_set_conv_nth)

lemma find_snoc: "List.find P xs = None \<Longrightarrow> P x \<Longrightarrow> List.find P (xs @ [x]) = Some x"
  by (induction xs) (auto split: if_splits)

lemma insert_catalog_steps:
  assumes "insert_catalog_product low inp s = Inr (r, s')"
  obtains (stands) i "is" where "idgen s = i # is" "catalog_by_name (normalize_query low (nk_display inp)) s = Some r"
      "s' = s\<lparr>idgen := is\<rparr>"
  | (first) i "is" e where "idgen s = i # is" "catalog_by_name (normalize_query low (nk_display inp)) s = None"
      "normalize_query low (nk_display inp) \<noteq> []" "\<not> tbl_has i (catalog s)"
      "e = \<lparr>ct_normalized = normalize_query low (nk_display inp), ct_display = nk_display inp,
          ct_base = resolve_variant_base (nk_shown inp) (s\<lparr>idgen := is\<rparr>), ct_category_path = nk_path inp,
          ct_item_type = (case nk_item_type inp of None \<Rightarrow> LongShelfLife | Some t \<Rightarrow> t),
          ct_image = nk_image inp, ct_icon = nk_icon inp, ct_days = nk_days inp, ct_created = db_now s\<rparr>"
      "r = (i, e)" "s' = s\<lparr>idgen := is, catalog := tbl_ins i e (catalog s)\<rparr>"
proof -
  let ?n = "normalize_query low (nk_display inp)"
  have name: "catalog_by_name n (s\<lparr>idgen := is\<rparr>) = catalog_by_name n s" for n "is" by (simp add: catalog_by_name_def)
  obtain i "is" e where i: "idgen s = i # is" "?n \<noteq> []"
    and e: "e = \<lparr>ct_normalized = ?n, ct_display = nk_display inp,
          ct_base = resolve_variant_base (nk_shown inp) (s\<lparr>idgen := is\<rparr>), ct_category_path = nk_path inp,
          ct_item_type = (case nk_item_type inp of None \<Rightarrow> LongShelfLife | Some t \<Rightarrow> t),
          ct_image = nk_image inp, ct_icon = nk_icon inp, ct_days = nk_days inp, ct_created = db_now s\<rparr>"
    and ins: "\<exists>u s1. insert_catalog_row i e (s\<lparr>idgen := is\<rparr>) = Inr (u, s1) \<and> catalog_by_name ?n s1 = Some r \<and> s' = s1"
    using assms unfolding insert_catalog_product_def Let_def
    by (auto simp: seq_tx_iff bind_tx_iff guard_tx_iff new_id_iff get_tx_iff row_tx_iff)
  show ?thesis
  proof (cases "catalog_by_name ?n s")
    case (Some q)
    with ins name e have "r = q" "s' = s\<lparr>idgen := is\<rparr>"
      by (auto simp: insert_catalog_row_def seq_tx_iff bind_tx_iff guard_tx_iff get_tx_iff ret_tx_iff)
    with stands i(1) Some show ?thesis by blast
  next
    case None
    with ins name e have s': "\<not> tbl_has i (catalog s)" "s' = s\<lparr>idgen := is, catalog := tbl_ins i e (catalog s)\<rparr>"
      and r: "catalog_by_name ?n s' = Some r"
      by (auto simp: insert_catalog_row_def seq_tx_iff bind_tx_iff guard_tx_iff get_tx_iff check_tx_iff mod_tx_iff)
    have "catalog_by_name ?n s' = Some (i, e)"
      using None unfolding catalog_by_name_def s'(2) by (simp add: tbl_ins_def find_snoc e)
    with r first [OF i(1) None i(2) s'(1) e _ s'(2)] show ?thesis by simp
  qed
qed

lemma catalog_okD:
  assumes "catalog_ok s" and "map_of (catalog s) i = Some e" and "ct_base e = Some b"
  obtains r where "map_of (catalog s) b = Some r" "ct_base r = None"
proof -
  have "pred_option (\<lambda>b. \<exists>r. map_of (catalog s) b = Some r \<and> ct_base r = None) (ct_base e)"
    using assms(1) map_of_SomeD [OF assms(2)] by (auto simp: catalog_ok_def)
  with assms(3) that show thesis by auto
qed

text \<open>
  Describing a product to the catalogue: the answer is the row that holds the normalized name, the one
  written first when there is one; no existing row changes, at most one row is added, and the catalogue
  keeps its shape: one row per name and variants one level deep, whatever row the caller was shown.
\<close>

theorem insert_catalog_product_correct:
  assumes ok: "catalog_ok s" and run: "insert_catalog_product low inp s = Inr (r, s')"
  shows "ct_normalized (snd r) = normalize_query low (nk_display inp)
    \<and> map_of (catalog s') (fst r) = Some (snd r)
    \<and> (\<forall>j. tbl_has j (catalog s) \<longrightarrow> map_of (catalog s') j = map_of (catalog s) j)
    \<and> (case catalog_by_name (normalize_query low (nk_display inp)) s of
         Some old \<Rightarrow> r = old \<and> catalog s' = catalog s
       | None \<Rightarrow> catalog s' = catalog s @ [r] \<and> ct_display (snd r) = nk_display inp)
    \<and> catalog_ok s' \<and> core (s'\<lparr>catalog := []\<rparr>) = core (s\<lparr>catalog := []\<rparr>)"
proof (rule insert_catalog_steps [OF run])
  fix i "is"
  assume a: "idgen s = i # is" "catalog_by_name (normalize_query low (nk_display inp)) s = Some r" "s' = s\<lparr>idgen := is\<rparr>"
  note n = catalog_by_name_Some [OF a(2)]
  have "distinct (map fst (catalog s))" using ok by (simp add: catalog_ok_def)
  then have "map_of (catalog s) (fst r) = Some (snd r)" using n by (intro map_of_is_SomeI) simp_all
  with n have "map_of (catalog s) (fst r) = Some (snd r)"
    "ct_normalized (snd r) = normalize_query low (nk_display inp)" by simp_all
  moreover have "catalog_ok s'" using ok catalog_ok_cong [of s' s] a(3) by simp
  ultimately show ?thesis using a by (simp add: core_def)
next
  fix i "is" e
  assume a: "catalog_by_name (normalize_query low (nk_display inp)) s = None" "normalize_query low (nk_display inp) \<noteq> []"
    "\<not> tbl_has i (catalog s)" "r = (i, e)" "s' = s\<lparr>idgen := is, catalog := tbl_ins i e (catalog s)\<rparr>"
    and e: "e = \<lparr>ct_normalized = normalize_query low (nk_display inp), ct_display = nk_display inp,
          ct_base = resolve_variant_base (nk_shown inp) (s\<lparr>idgen := is\<rparr>), ct_category_path = nk_path inp,
          ct_item_type = (case nk_item_type inp of None \<Rightarrow> LongShelfLife | Some t \<Rightarrow> t),
          ct_image = nk_image inp, ct_icon = nk_icon inp, ct_days = nk_days inp, ct_created = db_now s\<rparr>"
  have old: "map_of (catalog s') j = (if j = i then Some e else map_of (catalog s) j)" for j
    using a(3,5) by (simp add: map_of_tbl_ins tbl_has_keys)
  have ne: "j \<noteq> i" if "map_of (catalog s) j = Some x" for j x using that a(3) by (auto simp: tbl_has_def)
  have base: "\<exists>q. map_of (catalog s) b = Some q \<and> ct_base q = None" if "ct_base e = Some b" for b
  proof -
    from that obtain k x where k: "map_of (catalog s) k = Some x" "b = (case ct_base x of Some b \<Rightarrow> b | None \<Rightarrow> k)"
      by (auto simp: e resolve_variant_base_def split: option.splits)
    show ?thesis
    proof (cases "ct_base x")
      case (Some c)
      with k catalog_okD [OF ok k(1) Some] show ?thesis by auto
    qed (use k in auto)
  qed
  have rows: "catalog s' = catalog s @ [(i, e)]" using a(5) by (simp add: tbl_ins_def)
  have "pred_option (\<lambda>b. \<exists>q. map_of (catalog s') b = Some q \<and> ct_base q = None) (ct_base x)" if x: "(j, x) \<in> set (catalog s')" for j x
  proof (cases "ct_base x")
    case (Some b)
    have "\<exists>q. map_of (catalog s) b = Some q \<and> ct_base q = None"
    proof (cases "(j, x) = (i, e)")
      case False
      with x rows ok have "map_of (catalog s) j = Some x" by (auto simp: catalog_ok_def)
      with catalog_okD [OF ok this Some] show ?thesis by blast
    qed (use base Some in simp)
    with old ne Some show ?thesis by fastforce
  qed simp
  moreover have "ct_normalized x \<noteq> []" if x: "(j, x) \<in> set (catalog s')" for j x
    using x rows ok a(2) e by (auto simp: catalog_ok_def)
  moreover have "distinct (keys (catalog s'))" "distinct (map (ct_normalized \<circ> snd) (catalog s'))"
    using ok a(1,3) e by (simp_all add: rows catalog_ok_def tbl_has_keys catalog_by_name_None)
  ultimately have "catalog_ok s'" unfolding catalog_ok_def by blast
  then show ?thesis using a old e by (auto simp: tbl_ins_def tbl_has_def core_def)
qed

text \<open>A catalogue entry for cherry tomatoes offered next to tomatoes.\<close>

definition shop_catalog :: db where
  "shop_catalog = empty_db\<lparr>idgen := [60], catalog := [(50, \<lparr>ct_normalized = ''tomato'', ct_display = ''Tomato'', ct_base = None,
     ct_category_path = None, ct_item_type = Perishable, ct_image = None, ct_icon = None, ct_days = Some 6, ct_created = 0\<rparr>)]\<rparr>"

definition cherry :: new_catalog_product where
  "cherry = \<lparr>nk_display = ''cherry  tomato'', nk_path = None, nk_item_type = Some Perishable, nk_image = None,
     nk_icon = None, nk_days = None, nk_shown = Some 50\<rparr>"

lemma cherry_name: "normalize_query id ''cherry  tomato'' = ''cherry tomato''"
  by (simp add: normalize_query_def trim_space_def white_space_def fields.simps)

theorem insert_catalog_product_correct_witness:
  "\<exists>r s'. insert_catalog_product id cherry shop_catalog = Inr (r, s') \<and> ct_normalized (snd r) = ''cherry tomato''
     \<and> map_of (catalog s') 50 = map_of (catalog shop_catalog) 50 \<and> catalog_ok s'"
proof -
  have ok: "catalog_ok shop_catalog" by (simp add: catalog_ok_def shop_catalog_def)
  have "\<exists>r s'. insert_catalog_product id cherry shop_catalog = Inr (r, s')"
    by (simp add: insert_catalog_product_def insert_catalog_row_def cherry_def cherry_name Let_def tx_defs new_id_def
        shop_catalog_def empty_db_def catalog_by_name_def resolve_variant_base_def tbl_has_def tbl_ins_def
        item_type_fallback_days_def)
  then obtain r s' where run: "insert_catalog_product id cherry shop_catalog = Inr (r, s')" by blast
  have "tbl_has 50 (catalog shop_catalog)" by (simp add: shop_catalog_def tbl_has_def)
  with insert_catalog_product_correct [OF ok run]
  have "ct_normalized (snd r) = ''cherry tomato'' \<and> map_of (catalog s') 50 = map_of (catalog shop_catalog) 50 \<and> catalog_ok s'"
    by (simp add: cherry_def cherry_name)
  with run show ?thesis by blast
qed

section \<open>Corrections and moderation\<close>

lemma fold_follow_follow:
  "distinct (keys (batches s)) \<Longrightarrow> follow_except P s \<Longrightarrow> fold_tx follow ps acc s = Inr (n, s') \<Longrightarrow>
   follow_except (P - snd ` set ps) s' \<and> batches_only s s'"
proof (induction ps arbitrary: P acc s)
  case Nil
  then show ?case by (simp add: ret_tx_iff batches_only_refl)
next
  case (Cons p ps)
  from Cons.prems(3) obtain k s1 where 1: "recompute_derived_expiry (fst p) (snd p) s = Inr (k, s1)"
    and 2: "fold_tx follow ps (acc + k) s1 = Inr (n, s')"
    by (auto simp: bind_tx_iff ret_tx_iff)
  note r = recompute_follow_except [OF Cons.prems(1) 1 Cons.prems(2)]
  then have "distinct (keys (batches s1))" using Cons.prems(1) batches_onlyD(1) by metis
  from Cons.IH [OF this _ 2] r have "follow_except (P - {snd p} - snd ` set ps) s'" "batches_only s s'"
    by (blast intro: batches_only_trans)+
  moreover have "P - {snd p} - snd ` set ps = P - snd ` set (p # ps)" by auto
  ultimately show ?case by simp
qed

text \<open>The products the correction visits are all whose rules it can change.\<close>

lemma correction_reach:
  assumes df: "dates_follow s"
  shows "follow_except (snd ` set (catalog_followers c (with_days c days s))) (with_days c days s)"
  unfolding follow_except_def
proof (clarify)
  let ?s = "with_days c days s"
  fix k b assume b: "(k, b) \<in> set (batches ?s)" and out: "ba_product b \<notin> snd ` set (catalog_followers c ?s)"
  have "rule_date ?s b = rule_date s b"
  proof (cases "map_of (products s) (ba_product b)")
    case None
    then show ?thesis by (simp add: rule_date_def with_days_def)
  next
    case (Some p)
    have "tree_row TreeCategories ?s = tree_row TreeCategories s" by (intro ext) (simp add: tree_row_def with_days_def)
    then have cat: "category_days st j ?s = category_days st j s" for st j
      by (simp add: category_days_def in_storage_def) (simp add: with_days_def)
    have entries: "k \<noteq> c \<Longrightarrow> map_of (catalog ?s) k = map_of (catalog s) k" for k by (simp add: with_days_def)
    have "\<not> (pr_catalog p = Some c \<and> pr_days p = None)"
    proof
      assume "pr_catalog p = Some c \<and> pr_days p = None"
      with map_of_SomeD [OF Some] have "(pr_storage p, ba_product b) \<in> set (catalog_followers c ?s)"
        by (force simp: catalog_followers_def tbl_select_def with_days_def)
      with out show False by force
    qed
    then have "resolve (product_rules (pr_storage p) p ?s) = resolve (product_rules (pr_storage p) p s)"
      using entries by (cases "pr_days p"; cases "pr_catalog p") (auto simp: resolve_def product_rules_def cat cong: option.case_cong)
    with Some show ?thesis by (simp add: rule_date_def with_days_def)
  qed
  with df b show "follows_rules ?s b" by (auto simp: dates_follow_def follows_rules_def with_days_def)
qed

text \<open>
  An administrator's correction of a catalogue shelf life: the entry gets the new rule, every derived
  date of every storage that followed the rules follows them afterwards, no other table than the
  batches, the catalogue and the trail changes, and the trail has exactly one new row, which names the
  entry, the new value and the number of batches reached.
\<close>

theorem catalog_correction_correct:
  assumes inv: "stock_inv s" and df: "dates_follow s" and run: "correct_catalog_shelf_life actor c days s = Inr (n, s')"
  shows "dates_follow s' \<and> stock_inv s' \<and> map_option ct_days (map_of (catalog s') c) = Some days
    \<and> products s' = products s \<and> logs s' = logs s \<and> keys (batches s') = keys (batches s)
    \<and> (\<exists>i. audits s' = audits s @ [(i, \<lparr>au_actor = actor, au_action = ActionCatalogEntryUpdated, au_target = Some (TargetId c),
         au_details = no_details\<lparr>ad_days := days, ad_recomputed := Some (int n)\<rparr>, au_at = db_now s\<rparr>)])"
proof -
  obtain s2 l "is" where c: "tbl_has c (catalog s)"
    and 2: "fold_tx follow (catalog_followers c (with_days c days s)) 0 (with_days c days s) = Inr (n, s2)"
    and s': "s' = s2\<lparr>idgen := is, audits := tbl_ins l \<lparr>au_actor = actor, au_action = ActionCatalogEntryUpdated,
       au_target = Some (TargetId c), au_details = no_details\<lparr>ad_days := days, ad_recomputed := Some (int n)\<rparr>,
       au_at = db_now s2\<rparr> (audits s2)\<rparr>"
    by (rule correct_catalog_steps [OF run])
  have ok: "rows_ok s" using inv by (simp add: stock_inv_def)
  have sh1: "shifts (\<lambda>_. 0) s (with_days c days s)" by (rule shifts_other [OF ok]) (simp_all add: with_days_def)
  have "distinct (keys (batches (with_days c days s)))" using ok by (simp add: rows_ok_def with_days_def)
  from fold_follow_follow [OF this correction_reach [OF df] 2]
  have f: "follow_except {} s2" and b: "batches_only (with_days c days s) s2" by simp_all
  have step: "shifts (\<lambda>_. 0) t t'" if "rows_ok t" "follow p acc t = Inr (m, t')" for p acc t m t'
    using that by (auto simp: bind_tx_iff ret_tx_iff intro: recompute_shifts)
  have sh2: "shifts (\<lambda>_. 0) (with_days c days s) s2"
    by (rule shifts_fold [OF step shifts_rows [OF sh1] 2])
  have sh3: "shifts (\<lambda>_. 0) s2 s'" by (rule shifts_other [OF shifts_rows [OF sh2]]) (simp_all add: s')
  have "stock_inv s'" using shifts_keep [OF shifts_keep [OF shifts_keep [OF inv sh1] sh2] sh3] .
  moreover have "follows_rules s' bb = follows_rules s2 bb" for bb by (rule follows_rules_cong) (simp_all add: s')
  then have "dates_follow s'" using f by (auto simp: dates_follow_def follow_except_def s')
  ultimately show ?thesis using c batches_onlyD [OF b]
    by (auto simp: s' with_days_def tbl_has_def tbl_ins_def)
qed

text \<open>The demonstration storage with milk described by the catalogue entry 50, twelve days, and dated by it.\<close>

definition milk_entry :: catalog_entry where
  "milk_entry = \<lparr>ct_normalized = ''milk'', ct_display = ''Milk'', ct_base = None, ct_category_path = None,
     ct_item_type = Perishable, ct_image = None, ct_icon = None, ct_days = Some 12, ct_created = 0\<rparr>"

definition milk_db :: db where
  "milk_db = demo_db\<lparr>batches := [(20, demo_batch\<lparr>ba_source := ExpirationDerived, ba_expiration := Some 12\<rparr>)],
     products := [(5, demo_product\<lparr>pr_catalog := Some 50\<rparr>)], catalog := [(50, milk_entry)]\<rparr>"

lemmas milk_defs = milk_db_def milk_entry_def demo_defs

lemma milk_stock_inv: "stock_inv milk_db"
  by (simp add: stock_inv_def rows_ok_def batch_ok_def log_ok_def container_ok_def tbl_has_def
      ledger_total_def stock_total_def milk_defs)

lemma milk_follows: "dates_follow milk_db"
  by (simp add: dates_follow_def follows_rules_def rule_date_def product_rules_def resolve_def date_for_def
      day_of_def milk_defs)

lemma milk_correction: "\<exists>n s'. correct_catalog_shelf_life None 50 (Some 3) milk_db = Inr (n, s')"
  by (simp add: correct_catalog_shelf_life_def set_catalog_shelf_life_def write_admin_audit_def tx_iff int4_def
      recompute_derived_expiry_def apply_derived_expiry_def load_derived_batches_def catalog_followers_def tbl_select_def)
    (simp add: milk_defs tbl_has_def tx_iff redate_batch_iff user_exists_def tbl_select_def)

theorem catalog_correction_correct_witness:
  "\<exists>n s'. correct_catalog_shelf_life None 50 (Some 3) milk_db = Inr (n, s') \<and> dates_follow s' \<and> length (audits s') = 1"
proof -
  obtain n s' where run: "correct_catalog_shelf_life None 50 (Some 3) milk_db = Inr (n, s')" using milk_correction by blast
  have "audits milk_db = []" by (simp add: milk_defs)
  with catalog_correction_correct [OF milk_stock_inv milk_follows run] have "dates_follow s' \<and> length (audits s') = 1" by auto
  with run show ?thesis by blast
qed

text \<open>
  Deleting a catalogue entry takes its rule away from the products that used it and recomputes
  nothing: from a state in which every derived date follows the rules the moderation commits to one in
  which a derived date of a household does not.
\<close>

theorem catalog_delete_leaves_stale_dates:
  "\<exists>s'. dates_follow milk_db \<and> in_tx (delete_catalog_product None 50) milk_db = (Inr (), s')
     \<and> audits milk_db = [] \<and> length (audits s') = 1 \<and> \<not> dates_follow s'"
proof -
  have "\<exists>s'. delete_catalog_product None 50 milk_db = Inr ((), s') \<and> length (audits s') = 1 \<and> \<not> dates_follow s'"
    by (simp add: delete_catalog_product_def delete_catalog_row_def write_admin_audit_def tx_iff)
      (simp add: milk_defs tbl_has_def user_exists_def tbl_map_def tbl_del_def tbl_ins_def dates_follow_def follows_rules_def
        rule_date_def product_rules_def resolve_def item_type_fallback_days_def date_for_def day_of_def)
  moreover have "audits milk_db = []" by (simp add: milk_defs)
  ultimately show ?thesis using milk_follows by (auto simp: in_tx_def)
qed

section \<open>The ledger and the shape of the catalogue\<close>

lemma insert_catalog_shifts:
  assumes ok: "rows_ok s" and run: "insert_catalog_product low inp s = Inr (r, s')"
  shows "shifts (\<lambda>_. 0) s s'"
  by (rule insert_catalog_steps [OF run]; intro shifts_other [OF ok]) simp_all

lemma delete_catalog_shifts:
  assumes ok: "rows_ok s" and run: "delete_catalog_product actor i s = Inr (r, s')"
  shows "shifts (\<lambda>_. 0) s s'"
proof -
  let ?ps = "tbl_map (\<lambda>_ p. pr_catalog p = Some i) (\<lambda>p. p\<lparr>pr_catalog := None\<rparr>) (products s)"
  obtain s1 where s1: "s1 = s\<lparr>products := ?ps\<rparr>" by blast
  have "\<exists>p'. map_of ?ps k = Some p' \<and> pr_storage p' = pr_storage p" if "map_of (products s) k = Some p" for k p
    using that by (simp add: map_of_tbl_map)
  then have "shifts (\<lambda>_. 0) s s1"
    by (intro shifts_products [OF ok s1]) (use ok in \<open>simp add: rows_ok_def\<close>)
  moreover have "shifts (\<lambda>_. 0) s1 s'"
    by (rule shifts_other [OF shifts_rows [OF calculation]])
      (use run in \<open>auto simp: s1 delete_catalog_product_def delete_catalog_row_def write_admin_audit_def tx_iff\<close>)
  ultimately show ?thesis using shifts_trans by fastforce
qed

interpretation catalog_insert: ledger_operation "\<lambda>(low, inp). insert_catalog_product low inp"
  by unfold_locales (auto intro: insert_catalog_shifts)

interpretation catalog_delete: ledger_operation "\<lambda>(actor, i). delete_catalog_product actor i"
  by unfold_locales (auto intro: delete_catalog_shifts)

end
