(* ===== verification/Jobs.thy ===== *)
theory Jobs
  imports Locations
begin

text \<open>
  \<open>internal/store/jobs.go\<close>: the life of an asynchronous photo job. A job is pending while some
  process holds its lease, done or failed when the process reports, consumed when a reviewer
  confirms it. Finishing, requeuing and consuming are guarded on the status they leave; the sweep
  of orphans may only take a pending job whose lease is another's and over. The last part is the
  state machine of all operations, by any number of processes in any order.
\<close>

section \<open>Operations\<close>

definition interrupted_job_error :: string where
  "interrupted_job_error = ''Processing was interrupted by a server restart. Upload the photo again.''"

definition job_status_valid :: "string \<Rightarrow> bool" where
  "job_status_valid s \<longleftrightarrow> s \<in> {''pending'', ''done'', ''failed'', ''consumed''}"

text \<open>\<open>JobLease.claim\<close>: the owner and expiry columns a lease writes.\<close>

definition lease_claim :: "job_lease \<Rightarrow> instant \<Rightarrow> uuid option \<times> instant option" where
  "lease_claim l now = (le_owner l, map_option (\<lambda>_. now + le_ttl l) (le_owner l))"

record new_job =
  nj_storage :: uuid
  nj_kind :: job_kind
  nj_created_by :: "uuid option"
  nj_image :: "string option"
  nj_hint :: "uuid option"
  nj_lease :: job_lease

definition create_job :: "new_job \<Rightarrow> (uuid \<times> job) dbtx" where
  "create_job inp =
     bind_tx new_id (\<lambda>i.
     seq_tx (case nj_hint inp of None \<Rightarrow> ret_tx ()
             | Some l \<Rightarrow> require_same_storage TreeLocations (nj_storage inp) l)
    (bind_tx (get_tx db_now) (\<lambda>now.
     let row = \<lparr>jb_storage = nj_storage inp, jb_kind = nj_kind inp, jb_status = JobPending,
       jb_payload = None, jb_error = None, jb_created_by = nj_created_by inp, jb_image = nj_image inp,
       jb_hint = nj_hint inp, jb_created = now, jb_updated = now,
       jb_owner = fst (lease_claim (nj_lease inp) now), jb_expires = snd (lease_claim (nj_lease inp) now)\<rparr> in
     seq_tx (check_tx (\<lambda>s. \<not> tbl_has i (jobs s)) ErrInternal)
    (seq_tx (check_tx (\<lambda>s. tbl_has (nj_storage inp) (storage_rows s) \<and> user_exists (nj_created_by inp) s) ErrNotFound)
    (seq_tx (mod_tx (\<lambda>s. s\<lparr>jobs := tbl_ins i row (jobs s)\<rparr>))
      (ret_tx (i, row)))))))"

definition expired_job_images :: "instant \<Rightarrow> nat \<Rightarrow> (uuid \<times> string) list dbtx" where
  "expired_job_images cutoff limit = get_tx (\<lambda>s.
     map (\<lambda>(i, j). (i, the (jb_image j))) (take limit (sort_key (\<lambda>(i, j). jb_updated j)
       (tbl_select (\<lambda>_ j. jb_status j = JobConsumed \<and> jb_image j \<noteq> None \<and> jb_updated j < cutoff) (jobs s)))))"

definition clear_job_image :: "uuid \<Rightarrow> unit dbtx" where
  "clear_job_image i = mod_tx (\<lambda>s. s\<lparr>jobs := tbl_upd i (\<lambda>j. j\<lparr>jb_image := None\<rparr>) (jobs s)\<rparr>)"

definition finish_job :: "uuid \<Rightarrow> job_status \<Rightarrow> proposal_row list option \<Rightarrow> string option \<Rightarrow> unit dbtx" where
  "finish_job i status payload message =
     bind_tx (get_tx db_now) (\<lambda>now.
     seq_tx (check_tx (\<lambda>s. map_option jb_status (map_of (jobs s) i) = Some JobPending) ErrNotFound)
       (mod_tx (\<lambda>s. s\<lparr>jobs := tbl_upd i (\<lambda>j. j\<lparr>jb_status := status, jb_payload := payload,
          jb_error := message, jb_updated := now, jb_owner := None, jb_expires := None\<rparr>) (jobs s)\<rparr>)))"

definition complete_job :: "uuid \<Rightarrow> proposal_row list option \<Rightarrow> unit dbtx" where
  "complete_job i payload = finish_job i JobDone payload None"

definition fail_job :: "uuid \<Rightarrow> string \<Rightarrow> unit dbtx" where
  "fail_job i message = finish_job i JobFailed None (Some message)"

definition orphaned :: "uuid \<Rightarrow> instant \<Rightarrow> job \<Rightarrow> bool" where
  "orphaned owner now j \<longleftrightarrow> jb_status j = JobPending \<and> jb_owner j \<noteq> Some owner
     \<and> (case jb_expires j of None \<Rightarrow> True | Some t \<Rightarrow> t < now)"

definition fail_orphaned_jobs :: "uuid \<Rightarrow> nat dbtx" where
  "fail_orphaned_jobs owner =
     bind_tx (get_tx db_now) (\<lambda>now.
     bind_tx (get_tx (\<lambda>s. length (tbl_select (\<lambda>_. orphaned owner now) (jobs s)))) (\<lambda>n.
     seq_tx (mod_tx (\<lambda>s. s\<lparr>jobs := tbl_map (\<lambda>_. orphaned owner now)
         (\<lambda>j. j\<lparr>jb_status := JobFailed, jb_error := Some interrupted_job_error, jb_updated := now,
            jb_owner := None, jb_expires := None\<rparr>) (jobs s)\<rparr>))
       (ret_tx n)))"

definition held_by :: "uuid \<Rightarrow> job \<Rightarrow> bool" where
  "held_by owner j \<longleftrightarrow> jb_status j = JobPending \<and> jb_owner j = Some owner"

definition renew_job_leases :: "job_lease \<Rightarrow> nat dbtx" where
  "renew_job_leases lease = (case le_owner lease of
      None \<Rightarrow> fail_tx ErrValidation
    | Some owner \<Rightarrow>
        bind_tx (get_tx db_now) (\<lambda>now.
        bind_tx (get_tx (\<lambda>s. length (tbl_select (\<lambda>_. held_by owner) (jobs s)))) (\<lambda>n.
        seq_tx (mod_tx (\<lambda>s. s\<lparr>jobs := tbl_map (\<lambda>_. held_by owner)
            (\<lambda>j. j\<lparr>jb_expires := snd (lease_claim lease now)\<rparr>) (jobs s)\<rparr>))
          (ret_tx n))))"

definition release_job_leases :: "uuid \<Rightarrow> nat dbtx" where
  "release_job_leases owner =
     bind_tx (get_tx (\<lambda>s. length (tbl_select (\<lambda>_. held_by owner) (jobs s)))) (\<lambda>n.
     seq_tx (mod_tx (\<lambda>s. s\<lparr>jobs := tbl_map (\<lambda>_. held_by owner)
         (\<lambda>j. j\<lparr>jb_owner := None, jb_expires := None\<rparr>) (jobs s)\<rparr>))
       (ret_tx n))"

definition find_job :: "uuid \<Rightarrow> uuid \<Rightarrow> db \<Rightarrow> job option" where
  "find_job storage i s = (case map_of (jobs s) i of
      None \<Rightarrow> None | Some j \<Rightarrow> if jb_storage j = storage then Some j else None)"

definition job_in_storage :: "uuid \<Rightarrow> uuid \<Rightarrow> (uuid \<times> job) dbtx" where
  "job_in_storage storage i = row_tx ErrNotFound (\<lambda>s. map_option (\<lambda>j. (i, j)) (find_job storage i s))"

definition list_jobs :: "uuid \<Rightarrow> job_status list \<Rightarrow> uuid option \<Rightarrow> nat \<Rightarrow> (uuid \<times> job) list dbtx" where
  "list_jobs storage statuses after limit =
     (if statuses = [] then fail_tx ErrValidation
      else get_tx (\<lambda>s. take limit (sort_key (\<lambda>(i, j). - int i)
        (tbl_select (\<lambda>i j. jb_storage j = storage \<and> jb_status j \<in> set statuses
           \<and> (case after of None \<Rightarrow> True | Some a \<Rightarrow> i < a)) (jobs s)))))"

definition delete_job :: "uuid \<Rightarrow> uuid \<Rightarrow> string option dbtx" where
  "delete_job storage i =
     bind_tx (row_tx ErrNotFound (find_job storage i)) (\<lambda>j.
     seq_tx (mod_tx (\<lambda>s. s\<lparr>jobs := tbl_del (\<lambda>k _. k = i) (jobs s)\<rparr>))
       (ret_tx (jb_image j)))"

definition discardable :: "uuid \<Rightarrow> instant \<Rightarrow> job \<Rightarrow> bool" where
  "discardable storage up_to j \<longleftrightarrow> jb_storage j = storage
     \<and> (jb_status j = JobPending \<or> jb_status j = JobDone \<or> jb_status j = JobFailed) \<and> jb_created j \<le> up_to"

definition discard_jobs :: "uuid \<Rightarrow> instant \<Rightarrow> (uuid \<times> string option) list dbtx" where
  "discard_jobs storage up_to =
     bind_tx (get_tx (\<lambda>s. map (\<lambda>(i, j). (i, jb_image j))
         (tbl_select (\<lambda>_. discardable storage up_to) (jobs s)))) (\<lambda>out.
     seq_tx (mod_tx (\<lambda>s. s\<lparr>jobs := tbl_del (\<lambda>_. discardable storage up_to) (jobs s)\<rparr>))
       (ret_tx out))"

definition requeue_job :: "uuid \<Rightarrow> uuid \<Rightarrow> job_lease \<Rightarrow> unit dbtx" where
  "requeue_job storage i lease =
     bind_tx (row_tx ErrNotFound (find_job storage i)) (\<lambda>j.
     bind_tx (get_tx db_now) (\<lambda>now.
     seq_tx (guard_tx (\<not> (jb_status j \<noteq> JobDone \<and> jb_status j \<noteq> JobFailed)) ErrConflict)
    (seq_tx (guard_tx (jb_image j \<noteq> None) ErrConflict)
      (mod_tx (\<lambda>s. s\<lparr>jobs := tbl_upd i (\<lambda>j. j\<lparr>jb_status := JobPending, jb_payload := None,
         jb_error := None, jb_updated := now, jb_owner := fst (lease_claim lease now),
         jb_expires := snd (lease_claim lease now)\<rparr>) (jobs s)\<rparr>)))))"

definition consume_job :: "uuid \<Rightarrow> uuid \<Rightarrow> unit dbtx" where
  "consume_job storage i =
     bind_tx (row_tx ErrNotFound (find_job storage i)) (\<lambda>j.
     bind_tx (get_tx db_now) (\<lambda>now.
     seq_tx (guard_tx (jb_status j = JobDone) ErrConflict)
       (mod_tx (\<lambda>s. s\<lparr>jobs := tbl_upd i (\<lambda>j. j\<lparr>jb_status := JobConsumed, jb_updated := now\<rparr>) (jobs s)\<rparr>))))"

section \<open>Inversion\<close>

lemma find_job_Some:
  "find_job storage i s = Some j \<longleftrightarrow> map_of (jobs s) i = Some j \<and> jb_storage j = storage"
  by (auto simp: find_job_def split: option.splits if_splits)

lemma finish_job_iff [tx_iff]:
  "finish_job i st p m s = Inr r \<longleftrightarrow> map_option jb_status (map_of (jobs s) i) = Some JobPending
     \<and> r = ((), s\<lparr>jobs := tbl_upd i (\<lambda>j. j\<lparr>jb_status := st, jb_payload := p, jb_error := m,
          jb_updated := db_now s, jb_owner := None, jb_expires := None\<rparr>) (jobs s)\<rparr>)"
  by (auto simp: finish_job_def tx_iff)

lemma consume_job_iff [tx_iff]:
  "consume_job storage i s = Inr r \<longleftrightarrow> (\<exists>j. find_job storage i s = Some j \<and> jb_status j = JobDone
     \<and> r = ((), s\<lparr>jobs := tbl_upd i (\<lambda>j. j\<lparr>jb_status := JobConsumed, jb_updated := db_now s\<rparr>) (jobs s)\<rparr>))"
  by (auto simp: consume_job_def tx_iff)

section \<open>The state machine\<close>

datatype job_op =
    CreateOp new_job | CompleteOp uuid "proposal_row list option" | FailOp uuid string | OrphansOp uuid
  | RenewOp job_lease | ReleaseOp uuid | ClearImageOp uuid | DeleteOp uuid uuid
  | DiscardOp uuid instant | RequeueOp uuid uuid job_lease | ConsumeOp uuid uuid
  | DeleteLocationOp uuid uuid

definition void :: "'a dbtx \<Rightarrow> unit dbtx" where
  "void m = bind_tx m (\<lambda>_. ret_tx ())"

definition run_job_op :: "job_op \<Rightarrow> unit dbtx" where
  "run_job_op op = (case op of
      CreateOp nj \<Rightarrow> void (create_job nj)
    | CompleteOp i p \<Rightarrow> complete_job i p
    | FailOp i m \<Rightarrow> fail_job i m
    | OrphansOp owner \<Rightarrow> void (fail_orphaned_jobs owner)
    | RenewOp l \<Rightarrow> void (renew_job_leases l)
    | ReleaseOp owner \<Rightarrow> void (release_job_leases owner)
    | ClearImageOp i \<Rightarrow> clear_job_image i
    | DeleteOp st i \<Rightarrow> void (delete_job st i)
    | DiscardOp st t \<Rightarrow> void (discard_jobs st t)
    | RequeueOp st i l \<Rightarrow> requeue_job st i l
    | ConsumeOp st i \<Rightarrow> consume_job st i
    | DeleteLocationOp st i \<Rightarrow> delete_location st i)"

text \<open>One transaction of any process, or anything that leaves the job table alone.\<close>

inductive job_step :: "db \<Rightarrow> db \<Rightarrow> bool" where
  op: "job_step s (snd (in_tx (run_job_op op) s))"
| elsewhere: "jobs s' = jobs s \<Longrightarrow> job_step s s'"

inductive_cases job_stepE: "job_step s s'"

inductive job_reachable :: "db \<Rightarrow> bool" where
  initial: "jobs s = [] \<Longrightarrow> job_reachable s"
| later: "job_reachable s \<Longrightarrow> job_step s s' \<Longrightarrow> job_reachable s'"

fun job_next :: "job_status \<Rightarrow> job_status \<Rightarrow> bool" where
  "job_next JobPending t \<longleftrightarrow> t \<noteq> JobConsumed"
| "job_next JobDone t \<longleftrightarrow> t \<noteq> JobFailed"
| "job_next JobFailed t \<longleftrightarrow> t = JobFailed \<or> t = JobPending"
| "job_next JobConsumed t \<longleftrightarrow> t = JobConsumed"

fun_cases job_next_ConsumedE: "job_next JobConsumed t"

text \<open>What the columns of a job say about one another.\<close>

definition job_ok :: "job \<Rightarrow> bool" where
  "job_ok j \<longleftrightarrow> (jb_status j = JobPending \<longrightarrow> jb_payload j = None \<and> jb_error j = None)
     \<and> (jb_status j = JobFailed \<longleftrightarrow> jb_error j \<noteq> None)
     \<and> (jb_status j = JobFailed \<longrightarrow> jb_payload j = None)
     \<and> (jb_status j \<noteq> JobPending \<longrightarrow> jb_owner j = None)
     \<and> (jb_owner j = None \<longleftrightarrow> jb_expires j = None)"

definition jobs_ok :: "db \<Rightarrow> bool" where
  "jobs_ok s \<longleftrightarrow> distinct (keys (jobs s)) \<and> (\<forall>i j. map_of (jobs s) i = Some j \<longrightarrow> job_ok j)"

definition may_remove :: "job_op \<Rightarrow> uuid \<Rightarrow> job \<Rightarrow> bool" where
  "may_remove op i j \<longleftrightarrow> op = DeleteOp (jb_storage j) i
     \<or> (\<exists>t. op = DiscardOp (jb_storage j) t \<and> jb_status j \<noteq> JobConsumed \<and> jb_created j \<le> t)"

definition job_change :: "job_op \<Rightarrow> uuid \<Rightarrow> job option \<Rightarrow> job option \<Rightarrow> bool" where
  "job_change op i old new = (case (old, new) of
      (None, None) \<Rightarrow> True
    | (None, Some j) \<Rightarrow> jb_status j = JobPending \<and> job_ok j
    | (Some j, None) \<Rightarrow> may_remove op i j
    | (Some j, Some j') \<Rightarrow> job_next (jb_status j) (jb_status j') \<and> (job_ok j \<longrightarrow> job_ok j')
        \<and> jb_storage j' = jb_storage j \<and> jb_kind j' = jb_kind j \<and> jb_created j' = jb_created j
        \<and> (jb_status j = JobConsumed \<longrightarrow> jb_payload j' = jb_payload j))"

lemma job_next_refl [simp]: "job_next t t"
  by (cases t) simp_all

lemma job_change_refl [simp]: "job_change op i x x"
  by (cases x) (simp_all add: job_change_def may_remove_def job_ok_def)

lemma void_iff [tx_iff]: "void m s = Inr r \<longleftrightarrow> (\<exists>a. m s = Inr (a, snd r))"
  by (cases r) (auto simp: void_def tx_iff)

lemma job_change_map:
  assumes "\<And>j. P j \<Longrightarrow> job_change op i (Some j) (Some (f j))"
  shows "job_change op i (map_of t i) (map_of (tbl_map (\<lambda>_. P) f t) i)"
  using assms by (cases "map_of t i") (auto simp: map_of_tbl_map)

lemma job_change_upd:
  assumes "\<And>j. map_of t k = Some j \<Longrightarrow> job_change op k (Some j) (Some (f j))"
  shows "job_change op i (map_of t i) (map_of (tbl_upd k f t) i)"
  using assms by (cases "map_of t k") auto

lemma job_change_del:
  assumes "distinct (keys t)" and "\<And>j. map_of t i = Some j \<Longrightarrow> P i j \<Longrightarrow> may_remove op i j"
  shows "job_change op i (map_of t i) (map_of (tbl_del P t) i)"
  using assms(2) by (cases "map_of t i") (auto simp: map_of_tbl_del [OF assms(1)] job_change_def job_ok_def)

lemmas job_shapes = job_change_def job_ok_def held_by_def orphaned_def lease_claim_def

lemma job_op_effect:
  assumes d: "distinct (keys (jobs s))" and run: "run_job_op op s = Inr ((), s')"
  shows "distinct (keys (jobs s')) \<and> job_change op i (map_of (jobs s) i) (map_of (jobs s') i)"
proof (cases op)
  case (CreateOp nj)
  with run obtain k row where new: "\<not> tbl_has k (jobs s)" "jobs s' = tbl_ins k row (jobs s)"
    and row: "jb_status row = JobPending" "job_ok row"
    by (auto simp: run_job_op_def create_job_def tx_iff Let_def job_ok_def lease_claim_def split: option.splits)
  then have "k \<notin> set (keys (jobs s))" by (simp add: tbl_has_keys)
  then have "map_of (jobs s') i = (if i = k then Some row else map_of (jobs s) i)"
    using new by (simp add: map_of_tbl_ins)
  moreover have "map_of (jobs s) k = None" using new(1) by (simp add: tbl_has_def)
  moreover have "job_change op k None (Some row)" using row by (simp add: job_change_def)
  ultimately show ?thesis using d new by (simp add: tbl_has_keys)
next
  case (DeleteOp st k)
  with run obtain j where "map_of (jobs s) k = Some j" "jb_storage j = st"
    "jobs s' = tbl_del (\<lambda>k' _. k' = k) (jobs s)"
    by (auto simp: run_job_op_def delete_job_def tx_iff find_job_Some)
  with d DeleteOp show ?thesis
    by (auto simp: distinct_keys_tbl_del may_remove_def intro!: job_change_del)
next
  case (DiscardOp st t)
  with run have "jobs s' = tbl_del (\<lambda>_. discardable st t) (jobs s)"
    by (auto simp: run_job_op_def discard_jobs_def tx_iff)
  with d DiscardOp show ?thesis
    by (auto simp: distinct_keys_tbl_del may_remove_def discardable_def intro!: job_change_del)
next
  case (DeleteLocationOp st l)
  with run obtain P where "jobs s' = tbl_map (\<lambda>_. P) (\<lambda>j. j\<lparr>jb_hint := None\<rparr>) (jobs s)"
    by (auto simp: run_job_op_def delete_location_def delete_location_row_def tx_iff
        dest!: record_tombstones_effect)
  moreover have "job_change op i (map_of t i) (map_of (tbl_map (\<lambda>_. P) (\<lambda>j. j\<lparr>jb_hint := None\<rparr>) t) i)"
    for P and t :: "job table"
    by (rule job_change_map) (simp add: job_change_def job_ok_def)
  ultimately show ?thesis using d by simp
next
  case (CompleteOp k p)
  with run have k: "map_option jb_status (map_of (jobs s) k) = Some JobPending" and
    js: "jobs s' = tbl_upd k (\<lambda>j. j\<lparr>jb_status := JobDone, jb_payload := p, jb_error := None,
          jb_updated := db_now s, jb_owner := None, jb_expires := None\<rparr>) (jobs s)"
    by (auto simp: run_job_op_def complete_job_def tx_iff)
  show ?thesis unfolding js
    by (intro conjI job_change_upd) (use d k in \<open>auto simp: job_change_def job_ok_def\<close>)
next
  case (FailOp k m)
  with run have k: "map_option jb_status (map_of (jobs s) k) = Some JobPending" and
    js: "jobs s' = tbl_upd k (\<lambda>j. j\<lparr>jb_status := JobFailed, jb_payload := None, jb_error := Some m,
          jb_updated := db_now s, jb_owner := None, jb_expires := None\<rparr>) (jobs s)"
    by (auto simp: run_job_op_def fail_job_def tx_iff)
  show ?thesis unfolding js
    by (intro conjI job_change_upd) (use d k in \<open>auto simp: job_change_def job_ok_def\<close>)
next
  case (OrphansOp owner)
  with run have js: "jobs s' = tbl_map (\<lambda>_. orphaned owner (db_now s)) (\<lambda>j. j\<lparr>jb_status := JobFailed,
      jb_error := Some interrupted_job_error, jb_updated := db_now s, jb_owner := None, jb_expires := None\<rparr>)
      (jobs s)"
    by (auto simp: run_job_op_def fail_orphaned_jobs_def tx_iff)
  show ?thesis unfolding js
    by (intro conjI job_change_map) (use d in \<open>auto simp: job_shapes\<close>)
next
  case (RenewOp l)
  with run obtain owner e where js: "jobs s' = tbl_map (\<lambda>_. held_by owner)
      (\<lambda>j. j\<lparr>jb_expires := Some e\<rparr>) (jobs s)"
    by (auto simp: run_job_op_def renew_job_leases_def tx_iff lease_claim_def split: option.splits)
  show ?thesis unfolding js
    by (intro conjI job_change_map) (use d in \<open>auto simp: job_shapes\<close>)
next
  case (ReleaseOp owner)
  with run have js: "jobs s' = tbl_map (\<lambda>_. held_by owner)
      (\<lambda>j. j\<lparr>jb_owner := None, jb_expires := None\<rparr>) (jobs s)"
    by (auto simp: run_job_op_def release_job_leases_def tx_iff)
  show ?thesis unfolding js
    by (intro conjI job_change_map) (use d in \<open>auto simp: job_shapes\<close>)
next
  case (ClearImageOp k)
  with run have js: "jobs s' = tbl_upd k (\<lambda>j. j\<lparr>jb_image := None\<rparr>) (jobs s)"
    by (simp add: run_job_op_def clear_job_image_def tx_iff)
  show ?thesis unfolding js
    by (intro conjI job_change_upd) (use d in \<open>auto simp: job_change_def job_ok_def\<close>)
next
  case (RequeueOp st k l)
  with run obtain j where k: "map_of (jobs s) k = Some j" "jb_status j = JobDone \<or> jb_status j = JobFailed" and
    js: "jobs s' = tbl_upd k (\<lambda>j. j\<lparr>jb_status := JobPending, jb_payload := None, jb_error := None,
         jb_updated := db_now s, jb_owner := fst (lease_claim l (db_now s)),
         jb_expires := snd (lease_claim l (db_now s))\<rparr>) (jobs s)"
    by (auto simp: run_job_op_def requeue_job_def tx_iff find_job_Some)
  show ?thesis unfolding js
    by (intro conjI job_change_upd) (use d k in \<open>auto simp: job_change_def job_ok_def lease_claim_def\<close>)
next
  case (ConsumeOp st k)
  with run obtain j where k: "map_of (jobs s) k = Some j" "jb_status j = JobDone" and
    js: "jobs s' = tbl_upd k (\<lambda>j. j\<lparr>jb_status := JobConsumed, jb_updated := db_now s\<rparr>) (jobs s)"
    by (auto simp: run_job_op_def tx_iff find_job_Some)
  show ?thesis unfolding js
    by (intro conjI job_change_upd) (use d k in \<open>auto simp: job_change_def job_ok_def\<close>)
qed

lemma jobs_ok_step:
  assumes "jobs_ok s" and "job_step s s'"
  shows "jobs_ok s'"
  using assms(2)
proof (rule job_stepE)
  fix op assume s': "s' = snd (in_tx (run_job_op op) s)"
  show "jobs_ok s'"
  proof (cases "run_job_op op s")
    case (Inl e)
    with s' assms(1) show ?thesis by (simp add: in_tx_def)
  next
    case (Inr r)
    then have run: "run_job_op op s = Inr ((), s')" using s' by (cases r) (simp add: in_tx_def)
    have d: "distinct (keys (jobs s))" using assms(1) by (simp add: jobs_ok_def)
    note eff = job_op_effect [OF d run]
    have old: "job_ok j" if "map_of (jobs s) i = Some j" for i j
      using assms(1) that by (auto simp: jobs_ok_def)
    have "job_ok j" if "map_of (jobs s') i = Some j" for i j
      using conjunct2 [OF eff [of i]] that old [of i]
      by (cases "map_of (jobs s) i") (simp_all add: job_change_def)
    with eff show ?thesis by (simp add: jobs_ok_def)
  qed
next
  assume "jobs s' = jobs s"
  with assms(1) show "jobs_ok s'" by (simp add: jobs_ok_def)
qed

lemma job_reachable_ok: "job_reachable s \<Longrightarrow> jobs_ok s"
proof (induction rule: job_reachable.induct)
  case (initial s)
  then show ?case by (simp add: jobs_ok_def)
next
  case (later s s')
  then show ?case using jobs_ok_step by blast
qed

section \<open>Properties\<close>


definition demo_job :: job where
  "demo_job = \<lparr>jb_storage = 2, jb_kind = JobConsumptionPhoto, jb_status = JobPending, jb_payload = None,
     jb_error = None, jb_created_by = None, jb_image = Some ''photo.jpg'', jb_hint = None, jb_created = 5,
     jb_updated = 5, jb_owner = Some 77, jb_expires = Some 65\<rparr>"

definition demo_request :: new_job where
  "demo_request = \<lparr>nj_storage = 2, nj_kind = JobConsumptionPhoto, nj_created_by = None,
     nj_image = Some ''photo.jpg'', nj_hint = None, nj_lease = \<lparr>le_owner = Some 77, le_ttl = 60\<rparr>\<rparr>"

definition job_db :: db where
  "job_db = empty_db\<lparr>idgen := [40, 41], storage_rows := [(2, some_storage)], db_now := 5\<rparr>"

lemma job_db_created:
  "in_tx (run_job_op (CreateOp demo_request)) job_db
     = (Inr (), job_db\<lparr>idgen := [41], jobs := [(40, demo_job)]\<rparr>)"
  by (simp add: in_tx_def run_job_op_def void_def create_job_def tx_defs new_id_def Let_def job_db_def
      demo_request_def demo_job_def lease_claim_def tbl_has_def tbl_ins_def user_exists_def empty_db_def)

lemma job_db_reachable: "job_reachable (job_db\<lparr>idgen := [41], jobs := [(40, demo_job)]\<rparr>)"
proof (rule job_reachable.later)
  show "job_reachable job_db" by (rule job_reachable.initial) (simp add: job_db_def empty_db_def)
  show "job_step job_db (job_db\<lparr>idgen := [41], jobs := [(40, demo_job)]\<rparr>)"
    using job_step.op [of job_db "CreateOp demo_request"] by (simp add: job_db_created)
qed


text \<open>
  The sweep of orphans fails exactly the pending jobs that are not the caller's own and whose
  lease is absent or over, reports their number, and leaves every other job as it was: a process
  that restarts never fails a job another process still renews.
\<close>

theorem orphan_sweep_spares_live_leases:
  "\<exists>s'. fail_orphaned_jobs owner s = Inr (length (filter (\<lambda>(_, j). orphaned owner (db_now s) j) (jobs s)), s')
     \<and> (\<forall>i. map_of (jobs s') i = (case map_of (jobs s) i of
            None \<Rightarrow> None
          | Some j \<Rightarrow> Some (if jb_status j = JobPending \<and> jb_owner j \<noteq> Some owner
                \<and> (jb_expires j = None \<or> the (jb_expires j) < db_now s)
              then j\<lparr>jb_status := JobFailed, jb_error := Some interrupted_job_error, jb_updated := db_now s,
                 jb_owner := None, jb_expires := None\<rparr> else j)))
     \<and> s' = s\<lparr>jobs := jobs s'\<rparr>"
proof -
  have "map_option (\<lambda>j. if orphaned owner (db_now s) j
          then j\<lparr>jb_status := JobFailed, jb_error := Some interrupted_job_error, jb_updated := db_now s,
                 jb_owner := None, jb_expires := None\<rparr> else j) x
      = (case x of None \<Rightarrow> None
          | Some j \<Rightarrow> Some (if jb_status j = JobPending \<and> jb_owner j \<noteq> Some owner
                \<and> (jb_expires j = None \<or> the (jb_expires j) < db_now s)
              then j\<lparr>jb_status := JobFailed, jb_error := Some interrupted_job_error, jb_updated := db_now s,
                 jb_owner := None, jb_expires := None\<rparr> else j))" for x
    by (cases x) (auto simp: orphaned_def split: option.splits)
  then show ?thesis
    by (simp add: fail_orphaned_jobs_def tx_iff map_of_tbl_map tbl_select_def)
qed

text \<open>
  A proposal is consumed once: after a confirm has consumed a job, every further attempt to
  consume, requeue, complete or fail it is refused and changes nothing, while its lease is gone.
\<close>

theorem consumed_once:
  assumes "consume_job storage i s = Inr ((), s')"
  shows "in_tx (consume_job storage i) s' = (Inl ErrConflict, s')
    \<and> in_tx (requeue_job storage i lease) s' = (Inl ErrConflict, s')
    \<and> in_tx (complete_job i payload) s' = (Inl ErrNotFound, s')
    \<and> in_tx (fail_job i message) s' = (Inl ErrNotFound, s')"
proof -
  obtain j where j: "map_of (jobs s') i = Some j" "jb_status j = JobConsumed" "jb_storage j = storage"
    using assms by (auto simp: tx_iff find_job_Some)
  then have "find_job storage i s' = Some j" by (simp add: find_job_Some)
  with j show ?thesis
    by (simp add: in_tx_def consume_job_def requeue_job_def complete_job_def fail_job_def finish_job_def tx_defs)
qed

theorem consumed_once_witness:
  "in_tx (consume_job 2 40) (job_db\<lparr>jobs := [(40, demo_job\<lparr>jb_status := JobConsumed\<rparr>)]\<rparr>)
     = (Inl ErrConflict, job_db\<lparr>jobs := [(40, demo_job\<lparr>jb_status := JobConsumed\<rparr>)]\<rparr>)"
proof -
  have "consume_job 2 40 (job_db\<lparr>jobs := [(40, demo_job\<lparr>jb_status := JobDone\<rparr>)]\<rparr>)
      = Inr ((), job_db\<lparr>jobs := [(40, demo_job\<lparr>jb_status := JobConsumed\<rparr>)]\<rparr>)"
    by (simp add: tx_iff find_job_Some job_db_def demo_job_def empty_db_def tbl_upd_def tbl_map_def)
  then show ?thesis using consumed_once by blast
qed

end
