(* ===== verification/Consumption.thy ===== *)
theory Consumption
  imports BatchTheorems Jobs
begin

text \<open>
  \<open>internal/store/consumption.go\<close> and the exact-set check of \<open>ingestion.go\<close> it shares with the
  other confirms: a reviewed proposal takes units off batches, and the job is consumed in the same
  transaction, so a proposal is applied at most once.
\<close>

section \<open>Exactly the issued ids\<close>

text \<open>
  \<open>matchRowIDs\<close> and \<open>matchBatchIDs\<close> run the same loop: every id is one of the issued ones and is
  new, and in the end as many were seen as were issued.
\<close>

fun seen_ids :: "'i list \<Rightarrow> 'i list \<Rightarrow> 'i list \<Rightarrow> 'i list option" where
  "seen_ids issued seen [] = Some seen"
| "seen_ids issued seen (i # is) =
     (if i \<notin> set issued then None else if i \<in> set seen then None
      else seen_ids issued (i # seen) is)"

definition exact_ids :: "'i list \<Rightarrow> 'i list \<Rightarrow> bool" where
  "exact_ids issued is = (case seen_ids (remdups issued) [] is of
      None \<Rightarrow> False | Some seen \<Rightarrow> length seen = length (remdups issued))"

definition match_row_ids :: "proposal_row list option \<Rightarrow> string list \<Rightarrow> unit dbtx" where
  "match_row_ids payload is = (case payload of
      None \<Rightarrow> fail_tx ErrInternal
    | Some rows \<Rightarrow> guard_tx (exact_ids (map pw_row rows) is) ErrValidation)"

lemma seen_ids_Some:
  "seen_ids issued seen is = Some r \<longleftrightarrow>
     set is \<subseteq> set issued \<and> distinct is \<and> set is \<inter> set seen = {} \<and> r = rev is @ seen"
  by (induction "is" arbitrary: seen) auto

lemma exact_ids_iff: "exact_ids issued is \<longleftrightarrow> distinct is \<and> set is = set issued"
proof -
  have "exact_ids issued is \<longleftrightarrow> set is \<subseteq> set issued \<and> distinct is \<and> length is = length (remdups issued)"
    by (auto simp: exact_ids_def seen_ids_Some split: option.split)
      (metis set_remdups seen_ids_Some inf_bot_right empty_set option.distinct(1))+
  also have "\<dots> \<longleftrightarrow> distinct is \<and> set is = set issued"
    by (metis List.finite_set card_subset_eq distinct_card length_remdups_card_conv subset_refl)
  finally show ?thesis .
qed

section \<open>Confirming\<close>

record consume_decision =
  cd_row :: string
  cd_accept :: bool
  cd_product :: "uuid option"
  cd_decrements :: "(uuid \<times> int) list"

definition consume_decrement ::
    "uuid \<Rightarrow> uuid option \<Rightarrow> uuid \<Rightarrow> uuid \<times> int \<Rightarrow> uuid list \<Rightarrow> uuid list dbtx" where
  "consume_decrement storage user product dec acc =
     bind_tx (adjust_batch storage (fst dec) (- snd dec) ReasonConsumption user) (\<lambda>p.
     seq_tx (guard_tx (p = product) ErrValidation)
       (ret_tx (acc @ [fst dec])))"

definition consume_row ::
    "uuid \<Rightarrow> uuid option \<Rightarrow> consume_decision \<Rightarrow> uuid list \<Rightarrow> uuid list dbtx" where
  "consume_row storage user d acc =
     (if \<not> cd_accept d then ret_tx acc
      else case cd_product d of
        None \<Rightarrow> fail_tx ErrValidation
      | Some p \<Rightarrow>
          seq_tx (require_product_in_storage storage p)
         (seq_tx (guard_tx (cd_decrements d \<noteq> []) ErrValidation)
           (fold_tx (consume_decrement storage user p) (cd_decrements d) acc)))"

definition confirm_consumption ::
    "uuid \<Rightarrow> uuid \<Rightarrow> uuid option \<Rightarrow> consume_decision list \<Rightarrow> uuid list dbtx" where
  "confirm_consumption storage job user ds =
     bind_tx (row_tx ErrNotFound (find_job storage job)) (\<lambda>j.
     seq_tx (guard_tx (jb_status j = JobDone) ErrConflict)
    (seq_tx (match_row_ids (jb_payload j) (map cd_row ds))
    (bind_tx (fold_tx (consume_row storage user) ds []) (\<lambda>out.
     seq_tx (consume_job storage job)
       (ret_tx out)))))"

section \<open>The ledger\<close>

lemma consume_decrement_iff:
  "consume_decrement storage user p dec acc s = Inr (out, s') \<longleftrightarrow>
     adjust_batch storage (fst dec) (- snd dec) ReasonConsumption user s = Inr (p, s') \<and> out = acc @ [fst dec]"
  by (auto simp: consume_decrement_def bind_tx_iff seq_tx_iff guard_tx_iff ret_tx_iff)

lemma consume_decrement_shifts:
  "rows_ok s \<Longrightarrow> consume_decrement storage user p dec acc s = Inr (out, s') \<Longrightarrow> shifts (\<lambda>_. 0) s s'"
  by (auto simp: consume_decrement_iff dest: adjust_shifts)

lemma consume_row_shifts:
  "rows_ok s \<Longrightarrow> consume_row storage user d acc s = Inr (out, s') \<Longrightarrow> shifts (\<lambda>_. 0) s s'"
  by (auto simp: consume_row_def seq_tx_iff guard_tx_iff ret_tx_iff fail_tx_iff require_product_iff
      split: if_splits option.splits intro: shifts_refl shifts_fold [OF consume_decrement_shifts])

lemma shifts_jobs: "rows_ok s \<Longrightarrow> shifts (\<lambda>_. 0) s (s\<lparr>jobs := js\<rparr>)"
  by (rule shifts_other) simp_all

lemma confirm_consumption_shifts:
  assumes ok: "rows_ok s" and run: "confirm_consumption storage job user ds s = Inr (out, s')"
  shows "shifts (\<lambda>_. 0) s s'"
proof -
  obtain s1 where 1: "fold_tx (consume_row storage user) ds [] s = Inr (out, s1)"
    and 2: "consume_job storage job s1 = Inr ((), s')"
    using run by (auto simp: confirm_consumption_def match_row_ids_def bind_tx_iff seq_tx_iff guard_tx_iff
        ret_tx_iff row_tx_iff fail_tx_iff split: option.splits)
  note a = shifts_fold [OF consume_row_shifts ok 1]
  have "shifts (\<lambda>_. 0) s1 s'" using 2 shifts_jobs [OF shifts_rows [OF a]] by (auto simp: consume_job_iff)
  from shifts_trans [OF a this] show ?thesis by simp
qed

interpretation consume: ledger_operation
  "\<lambda>(storage, job, user, ds). confirm_consumption storage job user ds"
  by unfold_locales (auto intro: confirm_consumption_shifts)

text \<open>What the accepted rows take off a product.\<close>

definition consumed_of :: "uuid \<Rightarrow> consume_decision list \<Rightarrow> int" where
  "consumed_of p ds = sum_list (map (\<lambda>d. if cd_accept d \<and> cd_product d = Some p
     then sum_list (map snd (cd_decrements d)) else 0) ds)"

lemma adjust_ledger:
  assumes "adjust_batch storage i delta reason user s = Inr (p, s')"
  shows "ledger_total q s' = ledger_total q s + at_product p delta q \<and> jobs s' = jobs s"
proof -
  obtain b l where "p = ba_product b" "adjusted i delta reason user b l s s'"
    by (rule adjust_effect [OF assms])
  then show ?thesis
    by (auto simp: adjusted_def Let_def ledger_total_def tbl_sum_map_cong at_product_def)
qed

lemma decrements_ledger:
  assumes "fold_tx (consume_decrement storage user p) ds acc s = Inr (out, s')"
  shows "ledger_total q s' = ledger_total q s - at_product p (sum_list (map snd ds)) q
    \<and> jobs s' = jobs s \<and> out = acc @ map fst ds"
  using assms
proof (induction ds arbitrary: acc s)
  case Nil
  then show ?case by (simp add: ret_tx_iff at_product_def)
next
  case (Cons d ds)
  then obtain s1 where 1: "adjust_batch storage (fst d) (- snd d) ReasonConsumption user s = Inr (p, s1)"
    and 2: "fold_tx (consume_decrement storage user p) ds (acc @ [fst d]) s1 = Inr (out, s')"
    by (auto simp: bind_tx_iff consume_decrement_iff)
  from adjust_ledger [OF 1, of q] Cons.IH [OF 2] show ?case by (simp add: at_product_def)
qed

lemma rows_ledger:
  assumes "fold_tx (consume_row storage user) ds acc s = Inr (out, s')"
  shows "ledger_total q s' = ledger_total q s - consumed_of q ds \<and> jobs s' = jobs s
    \<and> out = acc @ concat (map (\<lambda>d. if cd_accept d then map fst (cd_decrements d) else []) ds)"
  using assms
proof (induction ds arbitrary: acc s)
  case Nil
  then show ?case by (simp add: ret_tx_iff consumed_of_def)
next
  case (Cons d ds)
  then obtain acc1 s1 where 1: "consume_row storage user d acc s = Inr (acc1, s1)"
    and 2: "fold_tx (consume_row storage user) ds acc1 s1 = Inr (out, s')"
    by (auto simp: bind_tx_iff)
  have "ledger_total q s1 = ledger_total q s - consumed_of q [d] \<and> jobs s1 = jobs s
    \<and> acc1 = acc @ (if cd_accept d then map fst (cd_decrements d) else [])"
  proof (cases "cd_accept d")
    case False
    with 1 show ?thesis by (simp add: consume_row_def ret_tx_iff consumed_of_def)
  next
    case True
    with 1 obtain p where p: "cd_product d = Some p"
      and f: "fold_tx (consume_decrement storage user p) (cd_decrements d) acc s = Inr (acc1, s1)"
      by (auto simp: consume_row_def seq_tx_iff guard_tx_iff fail_tx_iff require_product_iff split: option.splits)
    from decrements_ledger [OF f, of q] True p show ?thesis
      by (simp add: consumed_of_def at_product_def)
  qed
  with Cons.IH [OF 2] show ?case by (simp add: consumed_of_def)
qed

lemma confirm_consumption_totals:
  assumes inv: "stock_inv s" and run: "confirm_consumption storage job user ds s = Inr (out, s')"
  shows "stock_inv s'" "ledger_total p s' = ledger_total p s - consumed_of p ds"
    "stock_total p s' = stock_total p s - consumed_of p ds"
proof -
  obtain s1 where 1: "fold_tx (consume_row storage user) ds [] s = Inr (out, s1)" and 2: "consume_job storage job s1 = Inr ((), s')"
    using run by (auto simp: confirm_consumption_def match_row_ids_def bind_tx_iff seq_tx_iff guard_tx_iff
        ret_tx_iff row_tx_iff fail_tx_iff split: option.splits)
  show inv': "stock_inv s'" using consume.commit_keeps [of s "(storage, job, user, ds)"] inv run by simp
  show led: "ledger_total p s' = ledger_total p s - consumed_of p ds"
    using rows_ledger [OF 1, of p] 2 by (auto simp: consume_job_iff ledger_total_def)
  show "stock_total p s' = stock_total p s - consumed_of p ds"
    using led inv inv' by (simp add: stock_inv_def)
qed

section \<open>Properties\<close>

text \<open>
  C27. A confirmed consumption: the job was done and of the storage, the decisions name exactly the
  rows of its proposal, the ledger of every product falls by exactly what its accepted rows
  decrement, the batches touched are reported in order, the ledger still equals the shelf, and the
  job is consumed, so confirming it again is a conflict that changes nothing.
\<close>

theorem confirm_consumption_correct:
  assumes inv: "stock_inv s" and run: "confirm_consumption storage job user ds s = Inr (out, s')"
  shows "(\<exists>j rows. find_job storage job s = Some j \<and> jb_status j = JobDone \<and> jb_payload j = Some rows
        \<and> distinct (map cd_row ds) \<and> set (map cd_row ds) = pw_row ` set rows)
    \<and> stock_inv s'
    \<and> (\<forall>p. ledger_total p s' = ledger_total p s - consumed_of p ds
         \<and> stock_total p s' = stock_total p s - consumed_of p ds)
    \<and> out = concat (map (\<lambda>d. if cd_accept d then map fst (cd_decrements d) else []) ds)
    \<and> map_option jb_status (find_job storage job s') = Some JobConsumed
    \<and> in_tx (confirm_consumption storage job user' ds') s' = (Inl ErrConflict, s')"
proof -
  obtain j rows s1 where j: "find_job storage job s = Some j" "jb_status j = JobDone" "jb_payload j = Some rows"
    and m: "exact_ids (map pw_row rows) (map cd_row ds)"
    and 1: "fold_tx (consume_row storage user) ds [] s = Inr (out, s1)"
    and 2: "consume_job storage job s1 = Inr ((), s')"
    using run by (auto simp: confirm_consumption_def match_row_ids_def bind_tx_iff seq_tx_iff guard_tx_iff
        ret_tx_iff row_tx_iff fail_tx_iff split: option.splits)
  note tot = confirm_consumption_totals [OF inv run]
  have out: "out = concat (map (\<lambda>d. if cd_accept d then map fst (cd_decrements d) else []) ds)"
    using rows_ledger [OF 1] by simp
  obtain j' where j': "find_job storage job s' = Some j'" "jb_status j' = JobConsumed"
    using 2 by (auto simp: consume_job_iff find_job_Some)
  then have "in_tx (confirm_consumption storage job user' ds') s' = (Inl ErrConflict, s')"
    by (simp add: in_tx_def confirm_consumption_def tx_defs)
  with j m tot out j' show ?thesis by (simp add: exact_ids_iff)
qed

definition consume_db :: db where
  "consume_db = demo_db\<lparr>jobs := [(40, demo_job\<lparr>jb_status := JobDone, jb_payload := Some [\<lparr>pw_row = ''a'', pw_exact = None\<rparr>, \<lparr>pw_row = ''b'', pw_exact = Some 5\<rparr>]\<rparr>)]\<rparr>"

definition demo_decisions :: "consume_decision list" where
  "demo_decisions = [\<lparr>cd_row = ''b'', cd_accept = True, cd_product = Some 5, cd_decrements = [(20, 2)]\<rparr>,
     \<lparr>cd_row = ''a'', cd_accept = False, cd_product = None, cd_decrements = []\<rparr>]"

lemma consume_db_inv: "stock_inv consume_db"
  using shifts_keep [OF demo_stock_inv shifts_jobs] stock_inv_rows [OF demo_stock_inv]
  by (simp add: consume_db_def)

lemma consume_db_runs: "\<exists>s'. confirm_consumption 2 40 None demo_decisions consume_db = Inr ([20], s')"
  by (simp add: confirm_consumption_def demo_decisions_def consume_row_def consume_decrement_def
      adjust_batch_def match_row_ids_def exact_ids_def tx_iff find_job_Some find_batch_Some consume_db_def
      demo_job_def demo_defs Let_def bump_for_ledger_reason_def int4_def user_exists_def tbl_has_def)

theorem confirm_consumption_correct_witness:
  "\<exists>s'. confirm_consumption 2 40 None demo_decisions consume_db = Inr ([20], s')
     \<and> stock_total 5 s' = 1 \<and> in_tx (confirm_consumption 2 40 None []) s' = (Inl ErrConflict, s')"
proof -
  obtain s' where run: "confirm_consumption 2 40 None demo_decisions consume_db = Inr ([20], s')"
    using consume_db_runs by blast
  note t = confirm_consumption_correct [OF consume_db_inv run]
  have "stock_total 5 s' = stock_total 5 consume_db - consumed_of 5 demo_decisions" using t by blast
  moreover have "stock_total 5 consume_db = 3" by (simp add: stock_total_def consume_db_def demo_defs)
  moreover have "consumed_of 5 demo_decisions = 2" by (simp add: consumed_of_def demo_decisions_def)
  ultimately have "stock_total 5 s' = 1" by simp
  moreover have "in_tx (confirm_consumption 2 40 None []) s' = (Inl ErrConflict, s')" using t by blast
  ultimately show ?thesis using run by blast
qed

end
