(* ===== verification/Barcodes.thy ===== *)
theory Barcodes
  imports Catalog Consumption
begin

text \<open>
  \<open>internal/store/barcodes.go\<close>: what a scanned code means in one storage, the anonymous hint behind it,
  the stock a scan may move once a person confirms it, and the offer to scan that is explained once.
  A code is its bytes; the hints live in \<open>catalog_barcodes\<close>, the storage's own codes in
  \<open>product_barcodes\<close>, the offer in the two columns of \<open>users\<close> of the account.
\<close>

section \<open>Codes and associations\<close>

definition max_barcode_length :: nat where "max_barcode_length = 64"

definition barcode_char :: "char \<Rightarrow> bool" where
  "barcode_char c \<longleftrightarrow> (let n = (of_char c :: nat) in
     48 \<le> n \<and> n \<le> 57 \<or> 65 \<le> n \<and> n \<le> 90 \<or> 97 \<le> n \<and> n \<le> 122 \<or> c \<in> set ''._/-'')"

definition valid_barcode :: "string \<Rightarrow> bool" where
  "valid_barcode code \<longleftrightarrow> code \<noteq> [] \<and> \<not> length code > max_barcode_length \<and> list_all barcode_char code"

definition validate_barcode :: "string \<Rightarrow> unit dbtx" where
  "validate_barcode code = guard_tx (valid_barcode code) ErrValidation"

text \<open>INSERT INTO product_barcodes: the key is the storage and the code, taken is a given error.\<close>

definition insert_product_barcode :: "err \<Rightarrow> uuid \<Rightarrow> string \<Rightarrow> uuid \<Rightarrow> product_barcode dbtx" where
  "insert_product_barcode e storage code product =
     seq_tx (check_tx (\<lambda>s. \<not> tbl_has (storage, code) (product_barcodes s)) e)
    (seq_tx (check_tx (\<lambda>s. tbl_has storage (storage_rows s) \<and> tbl_has product (products s)) ErrInternal)
    (bind_tx (get_tx db_now) (\<lambda>now.
       let row = \<lparr>bc_product = product, bc_created = now\<rparr> in
       seq_tx (mod_tx (\<lambda>s. s\<lparr>product_barcodes := tbl_ins (storage, code) row (product_barcodes s)\<rparr>))
         (ret_tx row))))"

definition insert_catalog_barcode :: "uuid \<Rightarrow> uuid \<Rightarrow> string \<Rightarrow> unit dbtx" where
  "insert_catalog_barcode storage product code =
     bind_tx (row_tx ErrNotFound (\<lambda>s. case map_of (products s) product of
         None \<Rightarrow> None | Some p \<Rightarrow> if pr_storage p = storage then Some (pr_catalog p) else None)) (\<lambda>cat.
       case cat of
         None \<Rightarrow> ret_tx ()
       | Some c \<Rightarrow>
           bind_tx (get_tx (\<lambda>s. tbl_has code (catalog_barcodes s))) (\<lambda>taken.
             if taken then ret_tx ()
             else seq_tx (check_tx (\<lambda>s. tbl_has c (catalog s)) ErrInternal)
               (mod_tx (\<lambda>s. s\<lparr>catalog_barcodes :=
                  tbl_ins code \<lparr>cb_catalog = c, cb_scans = 0, cb_created = db_now s\<rparr> (catalog_barcodes s)\<rparr>))))"

definition associate_barcode :: "uuid \<Rightarrow> uuid \<Rightarrow> string \<Rightarrow> product_barcode dbtx" where
  "associate_barcode storage product code =
     seq_tx (validate_barcode code)
    (seq_tx (require_product_in_storage storage product)
    (bind_tx (insert_product_barcode ErrConflict storage code product) (\<lambda>row.
     seq_tx (insert_catalog_barcode storage product code)
       (ret_tx row))))"

definition delete_product_barcode :: "uuid \<Rightarrow> uuid \<Rightarrow> string \<Rightarrow> unit dbtx" where
  "delete_product_barcode storage product code =
     seq_tx (require_product_in_storage storage product)
    (seq_tx (check_tx (\<lambda>s. map_option bc_product (map_of (product_barcodes s) (storage, code)) = Some product) ErrNotFound)
       (mod_tx (\<lambda>s. s\<lparr>product_barcodes :=
          tbl_del (\<lambda>k r. k = (storage, code) \<and> bc_product r = product) (product_barcodes s)\<rparr>)))"

text \<open>The codes of a product, oldest first; ties by code under the collation.\<close>

definition list_product_barcodes ::
    "(string \<Rightarrow> 'c :: linorder) \<Rightarrow> uuid \<Rightarrow> uuid \<Rightarrow> ((uuid \<times> string) \<times> product_barcode) list dbtx" where
  "list_product_barcodes coll storage product =
     seq_tx (require_product_in_storage storage product)
       (get_tx (\<lambda>s. sort_key (\<lambda>((_, code), r). (bc_created r, coll code))
          (tbl_select (\<lambda>(st, _) r. st = storage \<and> bc_product r = product) (product_barcodes s))))"

section \<open>Lookup\<close>

definition barcode_product :: "uuid \<Rightarrow> string \<Rightarrow> db \<Rightarrow> (uuid \<times> product) option" where
  "barcode_product storage code s = (case map_of (product_barcodes s) (storage, code) of
      None \<Rightarrow> None
    | Some r \<Rightarrow> (case map_of (products s) (bc_product r) of
          None \<Rightarrow> None
        | Some p \<Rightarrow> if pr_storage p = storage then Some (bc_product r, p) else None))"

definition barcode_hint :: "string \<Rightarrow> db \<Rightarrow> catalog_row option" where
  "barcode_hint code s = (case map_of (catalog_barcodes s) code of
      None \<Rightarrow> None
    | Some b \<Rightarrow> map_option (Pair (cb_catalog b)) (map_of (catalog s) (cb_catalog b)))"

datatype barcode_lookup = LocalProduct "uuid \<times> product" int | CatalogHint catalog_row

definition lookup_barcode :: "uuid \<Rightarrow> string \<Rightarrow> barcode_lookup dbtx" where
  "lookup_barcode storage code =
     seq_tx (guard_tx (valid_barcode code) ErrNotFound)
    (bind_tx (get_tx (barcode_product storage code)) (\<lambda>local. case local of
        Some p \<Rightarrow> bind_tx (get_tx (current_stock storage (fst p))) (\<lambda>stock. ret_tx (LocalProduct p stock))
      | None \<Rightarrow> bind_tx (row_tx ErrNotFound (barcode_hint code)) (\<lambda>c. ret_tx (CatalogHint c))))"

definition max_hot_barcodes :: nat where "max_hot_barcodes = 500"

record hot_barcode =
  hb_code :: string
  hb_display :: string
  hb_path :: "string option"
  hb_item_type :: item_type
  hb_image :: "string option"
  hb_icon :: "string option"
  hb_days :: "int option"

definition hot_barcodes :: "db \<Rightarrow> hot_barcode list" where
  "hot_barcodes s = take max_hot_barcodes (List.map_filter (\<lambda>(code, b). map_option (\<lambda>c.
       \<lparr>hb_code = code, hb_display = ct_display c, hb_path = ct_category_path c, hb_item_type = ct_item_type c,
         hb_image = ct_image c, hb_icon = ct_icon c, hb_days = ct_days c\<rparr>) (map_of (catalog s) (cb_catalog b)))
     (sort_key (\<lambda>(_, b). (- cb_scans b, cb_catalog b)) (catalog_barcodes s)))"

definition increment_barcode_scan_count :: "string \<Rightarrow> unit dbtx" where
  "increment_barcode_scan_count code =
     mod_tx (\<lambda>s. s\<lparr>catalog_barcodes := tbl_upd code (\<lambda>b. b\<lparr>cb_scans := cb_scans b + 1\<rparr>) (catalog_barcodes s)\<rparr>)"

definition delete_catalog_barcode :: "uuid option \<Rightarrow> string \<Rightarrow> unit dbtx" where
  "delete_catalog_barcode actor code =
     bind_tx (row_tx ErrNotFound (barcode_hint code)) (\<lambda>c.
     seq_tx (mod_tx (\<lambda>s. s\<lparr>catalog_barcodes := tbl_del (\<lambda>k _. k = code) (catalog_barcodes s)\<rparr>))
       (write_admin_audit actor ActionCatalogBarcodeDeleted (Some (TargetText code))
         (no_details\<lparr>ad_display := ct_display (snd c)\<rparr>)))"

section \<open>The offer\<close>

record barcode_offer =
  bo_enabled :: bool
  bo_first :: bool

definition barcode_prompt_state :: "uuid \<Rightarrow> barcode_offer dbtx" where
  "barcode_prompt_state user =
     bind_tx (row_tx ErrNotFound (\<lambda>s. map_of (accounts s) user)) (\<lambda>q.
       ret_tx \<lparr>bo_enabled = bq_enabled q, bo_first = (bq_seen q = None)\<rparr>)"

definition set_barcode_prompt_enabled :: "uuid \<Rightarrow> bool \<Rightarrow> barcode_offer dbtx" where
  "set_barcode_prompt_enabled user enabled =
     bind_tx (row_tx ErrNotFound (\<lambda>s. map_of (accounts s) user)) (\<lambda>q.
     seq_tx (mod_tx (\<lambda>s. s\<lparr>accounts := tbl_upd user (\<lambda>q. q\<lparr>bq_enabled := enabled\<rparr>) (accounts s)\<rparr>))
       (ret_tx \<lparr>bo_enabled = enabled, bo_first = (bq_seen q = None)\<rparr>))"

definition mark_barcode_prompt_shown :: "uuid \<Rightarrow> barcode_offer dbtx" where
  "mark_barcode_prompt_shown user =
     bind_tx (row_tx ErrNotFound (\<lambda>s. map_of (accounts s) user)) (\<lambda>q.
       let marked = (bq_enabled q \<and> bq_seen q = None) in
       seq_tx (when_tx marked (mod_tx (\<lambda>s. s\<lparr>accounts := tbl_upd user (\<lambda>q. q\<lparr>bq_seen := Some (db_now s)\<rparr>) (accounts s)\<rparr>)))
         (ret_tx \<lparr>bo_enabled = bq_enabled q, bo_first = marked\<rparr>))"

section \<open>Scan and log\<close>

datatype barcode_log_direction = BarcodeLogIn | BarcodeLogOut | BarcodeLogOther string

record barcode_log_input =
  bl_direction :: barcode_log_direction
  bl_quantity :: int
  bl_location :: "uuid option"
  bl_expiration :: "date option"
  bl_edited :: bool
  bl_decrements :: "(uuid \<times> int) list"

record barcode_log_result =
  br_product :: uuid
  br_created :: "uuid option"
  br_touched :: "uuid list"
  br_stock :: int

fun allocate :: "(uuid \<times> int) list \<Rightarrow> int \<Rightarrow> (uuid \<times> int) list \<times> int" where
  "allocate [] remaining = ([], remaining)"
| "allocate ((i, available) # rows) remaining =
     (if remaining \<le> 0 then ([], remaining)
      else let amount = (if available > remaining then remaining else available) in
        if amount > 0 then (let (out, r) = allocate rows (remaining - amount) in ((i, amount) # out, r))
        else allocate rows remaining)"

definition stock_rows :: "uuid \<Rightarrow> uuid \<Rightarrow> db \<Rightarrow> (uuid \<times> int) list" where
  "stock_rows storage product s = map (\<lambda>(i, b). (i, ba_quantity b)) (sort_key batch_order
     (tbl_select (\<lambda>_ b. ba_product b = product
        \<and> map_option pr_storage (map_of (products s) product) = Some storage) (batches s)))"

definition default_decrements :: "uuid \<Rightarrow> uuid \<Rightarrow> int \<Rightarrow> (uuid \<times> int) list dbtx" where
  "default_decrements storage product quantity =
     bind_tx (get_tx (stock_rows storage product)) (\<lambda>rows.
       let (out, remaining) = allocate rows quantity in
       seq_tx (guard_tx (\<not> remaining > 0) ErrValidation) (ret_tx out))"

definition log_in :: "uuid \<Rightarrow> uuid \<Rightarrow> uuid option \<Rightarrow> barcode_log_input \<Rightarrow> (uuid option \<times> uuid list) dbtx" where
  "log_in storage product user inp = (case bl_location inp of
      None \<Rightarrow> fail_tx ErrValidation
    | Some l \<Rightarrow> bind_tx (create_batch storage \<lparr>nb_product = product, nb_location = l, nb_quantity = bl_quantity inp,
          nb_expiration = bl_expiration inp,
          nb_source = Some (if bl_edited inp then ExpirationUser else ExpirationDerived),
          nb_reason = Some ReasonPurchase, nb_created_by = user, nb_label = None, nb_type = None\<rparr>)
        (\<lambda>v. ret_tx (Some (bv_id v), [])))"

definition log_out :: "uuid \<Rightarrow> uuid \<Rightarrow> uuid option \<Rightarrow> barcode_log_input \<Rightarrow> (uuid option \<times> uuid list) dbtx" where
  "log_out storage product user inp =
     bind_tx (if bl_decrements inp = [] then default_decrements storage product (bl_quantity inp)
              else ret_tx (bl_decrements inp)) (\<lambda>ds.
     seq_tx (guard_tx (list_all (\<lambda>d. \<not> snd d < 1) ds) ErrValidation)
    (seq_tx (guard_tx (sum_list (map snd ds) = bl_quantity inp) ErrValidation)
    (bind_tx (fold_tx (consume_decrement storage user product) ds []) (\<lambda>touched. ret_tx (None, touched)))))"

definition log_barcode :: "uuid \<Rightarrow> string \<Rightarrow> uuid option \<Rightarrow> barcode_log_input \<Rightarrow> barcode_log_result dbtx" where
  "log_barcode storage code user inp =
     seq_tx (guard_tx (\<not> bl_quantity inp < 1) ErrValidation)
    (seq_tx (guard_tx (valid_barcode code) ErrNotFound)
    (bind_tx (row_tx ErrNotFound (barcode_product storage code)) (\<lambda>p.
     bind_tx (case bl_direction inp of
         BarcodeLogIn \<Rightarrow> log_in storage (fst p) user inp
       | BarcodeLogOut \<Rightarrow> log_out storage (fst p) user inp
       | BarcodeLogOther _ \<Rightarrow> fail_tx ErrValidation) (\<lambda>out.
     bind_tx (get_tx (current_stock storage (fst p))) (\<lambda>stock.
       ret_tx \<lparr>br_product = fst p, br_created = fst out, br_touched = snd out, br_stock = stock\<rparr>)))))"

section \<open>A product from a hint\<close>

definition hint_product :: "catalog_row \<Rightarrow> uuid option \<Rightarrow> new_product" where
  "hint_product c category = \<lparr>np_name = ct_display (snd c), np_category = category, np_catalog = Some (fst c),
     np_item_type = Some (ct_item_type (snd c)), np_days = ct_days (snd c), np_min_stock = 0, np_image = None,
     np_icon = ct_icon (snd c)\<rparr>"

definition create_product_from_barcode_hint ::
    "(char \<Rightarrow> char) \<Rightarrow> uuid \<Rightarrow> string \<Rightarrow> (uuid \<times> product) dbtx" where
  "create_product_from_barcode_hint low storage code =
     seq_tx (guard_tx (valid_barcode code) ErrNotFound)
    (seq_tx (check_tx (\<lambda>s. \<not> tbl_has (storage, code) (product_barcodes s)) ErrConflict)
    (bind_tx (row_tx ErrNotFound (barcode_hint code)) (\<lambda>c.
     bind_tx (case ct_category_path (snd c) of
         None \<Rightarrow> ret_tx None
       | Some path \<Rightarrow> if path = [] then ret_tx None else ensure_category_path low storage path) (\<lambda>category.
     bind_tx (create_product storage (hint_product c category)) (\<lambda>p.
     bind_tx (insert_product_barcode ErrInternal storage code (fst p)) (\<lambda>_.
       ret_tx p))))))"

section \<open>Nearest expiry first\<close>

text \<open>
  The allocation takes whole rows from the front of the list, part of at most one, and stops; it reports
  what it could not take.
\<close>

definition positive_rows :: "(uuid \<times> int) list \<Rightarrow> (uuid \<times> int) list" where
  "positive_rows rows = filter (\<lambda>r. 0 < snd r) rows"

lemma allocate_sum: "allocate rows q = (out, r) \<Longrightarrow> sum_list (map snd out) + r = q"
  by (induction rows q arbitrary: out r rule: allocate.induct) (fastforce simp: Let_def split: if_splits prod.splits)+

lemma allocate_front:
  "allocate rows q = (out, r) \<Longrightarrow> 0 \<le> q \<Longrightarrow>
     0 \<le> r \<and> (\<exists>us vs. positive_rows rows = us @ vs \<and>
       (out = us \<and> (r = 0 \<or> vs = []) \<or> (\<exists>i a n ws. vs = (i, a) # ws \<and> 0 < n \<and> n < a \<and> out = us @ [(i, n)] \<and> r = 0)))"
proof (induction rows q arbitrary: out r rule: allocate.induct)
  case (1 q)
  then show ?case by (simp add: positive_rows_def)
next
  case (2 i a rows q)
  show ?case
  proof (cases "q \<le> 0")
    case True
    with 2 show ?thesis by (auto intro: exI [of _ "[]"])
  next
    case False
    consider (skip) "a \<le> 0" | (whole) "0 < a" "a \<le> q" | (part) "q < a" by linarith
    then show ?thesis
    proof cases
      case skip
      with False 2 show ?thesis by (simp add: positive_rows_def)
    next
      case whole
      with False 2(3) obtain o1 where o1: "allocate rows (q - a) = (o1, r)" "out = (i, a) # o1"
        by (auto simp: Let_def split: prod.splits)
      have "0 \<le> r \<and> (\<exists>us vs. positive_rows rows = us @ vs \<and>
       (o1 = us \<and> (r = 0 \<or> vs = []) \<or> (\<exists>i a n ws. vs = (i, a) # ws \<and> 0 < n \<and> n < a \<and> o1 = us @ [(i, n)] \<and> r = 0)))"
        using whole False o1(1) by (intro "2.IH"(1)) auto
      then obtain us vs where h: "0 \<le> r" "positive_rows rows = us @ vs"
        "o1 = us \<and> (r = 0 \<or> vs = []) \<or> (\<exists>i a n ws. vs = (i, a) # ws \<and> 0 < n \<and> n < a \<and> o1 = us @ [(i, n)] \<and> r = 0)"
        by blast
      have "positive_rows ((i, a) # rows) = ((i, a) # us) @ vs" using whole h by (simp add: positive_rows_def)
      with h o1(2) show ?thesis by (intro conjI exI [of _ "(i, a) # us"] exI [of _ vs]) auto
    next
      case part
      then have "allocate rows 0 = (out', r') \<longleftrightarrow> out' = [] \<and> r' = 0" for out' r'
        by (cases rows) auto
      with part False 2(3) have out: "out = [(i, q)]" "r = 0" by (auto simp: Let_def split: prod.splits)
      have "positive_rows ((i, a) # rows) = [] @ (i, a) # positive_rows rows" using part False by (simp add: positive_rows_def)
      moreover have "0 < q \<and> q < a \<and> out = [] @ [(i, q)] \<and> r = 0" using part False out by simp
      ultimately show ?thesis using out(2) by blast
    qed
  qed
qed

lemma sum_positive: "(\<And>x. x \<in> set rows \<Longrightarrow> 0 \<le> snd x) \<Longrightarrow> sum_list (map snd (positive_rows rows)) = sum_list (map snd rows)"
  by (induction rows) (fastforce simp: positive_rows_def)+

lemma sum_list_sort_key: "sum_list (map f (sort_key k xs)) = sum_list (map (f :: _ \<Rightarrow> int) xs)"
proof -
  have "mset (map f (sort_key k xs)) = mset (map f xs)" by simp
  then show ?thesis by (metis sum_mset_sum_list)
qed

lemma stock_rows_sum: "sum_list (map snd (stock_rows storage p s)) = current_stock storage p s"
proof -
  have "sum_list (map snd (stock_rows storage p s)) = sum_list (map (\<lambda>(i, b). ba_quantity b) (tbl_select (\<lambda>_ b. ba_product b = p
        \<and> map_option pr_storage (map_of (products s) p) = Some storage) (batches s)))"
    by (simp add: stock_rows_def sum_list_sort_key o_def case_prod_unfold)
  also have "\<dots> = current_stock storage p s"
  proof -
    have "sum_list (map (\<lambda>(i, b). ba_quantity b) (filter (\<lambda>(_, b). ba_product b = p
        \<and> map_option pr_storage (map_of (products s) p) = Some storage) bs))
      = sum_list (map (\<lambda>(_, b). if ba_product b = p
        \<and> map_option pr_storage (map_of (products s) (ba_product b)) = Some storage then ba_quantity b else 0) bs)" for bs
      by (induction bs) (auto split: if_splits)
    then show ?thesis unfolding current_stock_def tbl_select_def tbl_sum_def .
  qed
  finally show ?thesis .
qed

text \<open>
  The default allocation of a scan that uses something up: with stock that is not negative and a
  positive quantity it succeeds exactly when the product has that much, changes nothing by itself, and
  names the batches nearest to expiry: whole batches from the front of that order and part of at most
  the next one, which together make the quantity.
\<close>

theorem default_decrements_nearest_first:
  assumes q: "0 < q" and nonneg: "\<And>k b. (k, b) \<in> set (batches s) \<Longrightarrow> 0 \<le> ba_quantity b"
  shows "case default_decrements storage p q s of
      Inl e \<Rightarrow> e = ErrValidation \<and> current_stock storage p s < q
    | Inr (ds, s') \<Rightarrow> q \<le> current_stock storage p s \<and> s' = s \<and> sum_list (map snd ds) = q
        \<and> (\<exists>us vs. positive_rows (stock_rows storage p s) = us @ vs \<and>
             (ds = us \<or> (\<exists>i a n ws. vs = (i, a) # ws \<and> 0 < n \<and> n < a \<and> ds = us @ [(i, n)])))"
proof -
  let ?rows = "stock_rows storage p s"
  obtain out r where a: "allocate ?rows q = (out, r)" by fastforce
  have pos: "sum_list (map snd (positive_rows ?rows)) = current_stock storage p s"
    using nonneg by (subst sum_positive) (auto simp: stock_rows_sum, auto simp: stock_rows_def tbl_select_def)
  have nn: "0 \<le> sum_list (map snd (positive_rows xs))" for xs :: "(uuid \<times> int) list"
    by (induction xs) (auto simp: positive_rows_def)
  from allocate_front [OF a] q obtain us vs where f: "0 \<le> r" "positive_rows ?rows = us @ vs"
    "out = us \<and> (r = 0 \<or> vs = []) \<or> (\<exists>i a n ws. vs = (i, a) # ws \<and> 0 < n \<and> n < a \<and> out = us @ [(i, n)] \<and> r = 0)"
    by auto
  note s = allocate_sum [OF a]
  have split: "current_stock storage p s = sum_list (map snd us) + sum_list (map snd vs)"
    using f(2) pos by simp
  have run: "default_decrements storage p q s = (if r > 0 then Inl ErrValidation else Inr (out, s))"
    by (simp add: default_decrements_def tx_defs a)
  show ?thesis
  proof (cases "r > 0")
    case True
    with f have "out = us" "vs = []" by auto
    with run True s split show ?thesis by simp
  next
    case False
    then have r: "r = 0" using f(1) by simp
    have "\<forall>x \<in> set (positive_rows ?rows). 0 < snd x" by (simp add: positive_rows_def)
    then have ap: "\<forall>x \<in> set vs. 0 < snd x" unfolding f(2) by simp
    then have vs: "positive_rows vs = vs" by (simp add: positive_rows_def filter_id_conv)
    have "q \<le> current_stock storage p s"
    proof (cases "out = us")
      case True
      with s r split nn [of vs] vs show ?thesis by simp
    next
      case no: False
      with f obtain i a n ws where w: "vs = (i, a) # ws" "n < a" "out = us @ [(i, n)]" by auto
      have "positive_rows ws = ws" using ap w(1) by (simp add: positive_rows_def filter_id_conv)
      with s r split w nn [of ws] show ?thesis by simp
    qed
    moreover have "\<exists>us vs. positive_rows ?rows = us @ vs \<and>
        (out = us \<or> (\<exists>i a n ws. vs = (i, a) # ws \<and> 0 < n \<and> n < a \<and> out = us @ [(i, n)]))"
      using f(2,3) by blast
    ultimately show ?thesis using run r s by simp
  qed
qed

text \<open>Two batches of milk, the younger of which expires first; three of the four units are asked for.\<close>

definition two_batches :: db where
  "two_batches = demo_db\<lparr>batches := [(20, demo_batch), (21, demo_batch\<lparr>ba_quantity := 1, ba_expiration := Some 9\<rparr>)]\<rparr>"

theorem default_decrements_nearest_first_witness:
  "default_decrements 2 5 3 two_batches = Inr ([(21, 1), (20, 2)], two_batches)"
proof -
  have rows: "stock_rows 2 5 two_batches = [(21, 1), (20, 3)]"
    by (simp add: stock_rows_def two_batches_def demo_defs tbl_select_def batch_order_def insort_key.simps less_eq_prod_def less_prod_def)
  have "0 \<le> ba_quantity b" if "(k, b) \<in> set (batches two_batches)" for k b
    using that by (auto simp: two_batches_def demo_defs)
  with default_decrements_nearest_first [of 3 two_batches 2 5]
  have "case default_decrements 2 5 3 two_batches of Inl e \<Rightarrow> current_stock 2 5 two_batches < 3 | Inr (ds, s') \<Rightarrow> s' = two_batches"
    by (auto split: sum.splits)
  moreover have "default_decrements 2 5 3 two_batches = Inr ([(21, 1), (20, 2)], two_batches)"
    by (simp add: default_decrements_def tx_defs rows)
  ultimately show ?thesis by simp
qed

section \<open>A confirmed scan\<close>

lemma create_ledger:
  assumes "create_batch storage inp s = Inr (v, s')"
  shows "ledger_total x s' = ledger_total x s + at_product (nb_product inp) (nb_quantity inp) x
    \<and> products s' = products s"
proof -
  obtain i reason e s1 s2 s3 s4 s5 where i: "new_id s = Inr (i, s1)"
    and ins: "insert_batch i (new_row inp e (db_now s)) s1 = Inr ((), s2)"
    and lab: "case nb_label inp of None \<Rightarrow> s3 = s2 | Some l \<Rightarrow> upsert_batch_container_label storage i l s2 = Inr ((), s3)"
    and ty: "case nb_type inp of None \<Rightarrow> s4 = s3 | Some ty \<Rightarrow> set_batch_container_type storage i (Some ty) s3 = Inr ((), s4)"
    and w: "write_log (nb_product inp) (Some i) (nb_quantity inp) reason (nb_created_by inp) s4 = Inr ((), s5)"
    and bump: "bump_for_ledger_reason storage (nb_created_by inp) reason i s5 = Inr ((), s')"
    by (rule create_steps [OF assms])
  have s2: "logs s2 = logs s" "products s2 = products s" using ins i by (auto simp: insert_batch_iff new_id_iff)
  have "container_frame s2 s4"
    using lab ty container_frame_trans by (auto split: option.splits dest: frame_upsert frame_set_type)
  then have "logs s4 = logs s" "products s4 = products s" using s2 by (simp_all add: container_frame_def)
  then show ?thesis using w core_eqD [OF silentD [OF silent_bump_ledger bump]]
    by (auto simp: write_log_iff ledger_total_def at_product_def)
qed

lemma decrements_products: "fold_tx (consume_decrement storage user p) ds acc s = Inr (out, s') \<Longrightarrow> products s' = products s"
proof (induction ds arbitrary: acc s)
  case (Cons d ds)
  then obtain s1 where 1: "adjust_batch storage (fst d) (- snd d) ReasonConsumption user s = Inr (p, s1)"
    and 2: "fold_tx (consume_decrement storage user p) ds (acc @ [fst d]) s1 = Inr (out, s')"
    by (auto simp: bind_tx_iff consume_decrement_iff)
  have "products s1 = products s" by (rule adjust_effect [OF 1]) (simp add: adjusted_def Let_def)
  with Cons.IH [OF 2] show ?case by simp
qed (simp add: ret_tx_iff)

lemma default_decrements_iff:
  "default_decrements storage p q s = Inr (ds, s') \<Longrightarrow> s' = s"
  by (auto simp: default_decrements_def tx_iff split: prod.splits)

lemma log_steps:
  assumes "log_barcode storage code user inp s = Inr (r, s')"
  obtains (arrive) p l v where "barcode_product storage code s = Some p" "bl_direction inp = BarcodeLogIn"
      "bl_location inp = Some l" "create_batch storage \<lparr>nb_product = fst p, nb_location = l, nb_quantity = bl_quantity inp,
          nb_expiration = bl_expiration inp,
          nb_source = Some (if bl_edited inp then ExpirationUser else ExpirationDerived),
          nb_reason = Some ReasonPurchase, nb_created_by = user, nb_label = None, nb_type = None\<rparr> s = Inr (v, s')"
      "r = \<lparr>br_product = fst p, br_created = Some (bv_id v), br_touched = [], br_stock = current_stock storage (fst p) s'\<rparr>"
  | (leave) p ds out where "barcode_product storage code s = Some p" "bl_direction inp = BarcodeLogOut"
      "if bl_decrements inp = [] then default_decrements storage (fst p) (bl_quantity inp) s = Inr (ds, s) else ds = bl_decrements inp"
      "sum_list (map snd ds) = bl_quantity inp" "\<forall>d \<in> set ds. 1 \<le> snd d"
      "fold_tx (consume_decrement storage user (fst p)) ds [] s = Inr (out, s')"
      "r = \<lparr>br_product = fst p, br_created = None, br_touched = out, br_stock = current_stock storage (fst p) s'\<rparr>"
proof -
  obtain p out where p: "barcode_product storage code s = Some p"
    and m: "(case bl_direction inp of BarcodeLogIn \<Rightarrow> log_in storage (fst p) user inp
       | BarcodeLogOut \<Rightarrow> log_out storage (fst p) user inp | BarcodeLogOther _ \<Rightarrow> fail_tx ErrValidation) s = Inr (out, s')"
    and r: "r = \<lparr>br_product = fst p, br_created = fst out, br_touched = snd out, br_stock = current_stock storage (fst p) s'\<rparr>"
    using assms by (auto simp: log_barcode_def seq_tx_iff guard_tx_iff bind_tx_iff row_tx_iff get_tx_iff ret_tx_iff)
  show ?thesis
  proof (cases "bl_direction inp")
    case BarcodeLogIn
    with m arrive [OF p BarcodeLogIn] r show ?thesis
      by (auto simp: log_in_def bind_tx_iff ret_tx_iff fail_tx_iff split: option.splits)
  next
    case BarcodeLogOut
    with m obtain ds s1 touched where ds: "(if bl_decrements inp = [] then default_decrements storage (fst p) (bl_quantity inp)
              else ret_tx (bl_decrements inp)) s = Inr (ds, s1)"
      and g: "list_all (\<lambda>d. \<not> snd d < 1) ds" "sum_list (map snd ds) = bl_quantity inp"
      and f: "fold_tx (consume_decrement storage user (fst p)) ds [] s1 = Inr (touched, s')" and o: "out = (None, touched)"
      by (auto simp: log_out_def bind_tx_iff seq_tx_iff guard_tx_iff ret_tx_iff)
    have "s1 = s" using ds default_decrements_iff by (auto simp: ret_tx_iff split: if_splits)
    with leave [OF p BarcodeLogOut _ g(2)] ds g(1) f o r show ?thesis
      by (auto simp: ret_tx_iff list_all_iff not_less split: if_splits)
  next
    case (BarcodeLogOther d)
    with m show ?thesis by (simp add: fail_tx_iff)
  qed
qed

lemma log_barcode_shifts:
  assumes ok: "rows_ok s" and run: "log_barcode storage code user inp s = Inr (r, s')"
  shows "shifts (\<lambda>_. 0) s s'"
  by (rule log_steps [OF run]) (auto intro: create_shifts [OF ok] shifts_fold [OF consume_decrement_shifts ok])

interpretation scan_log: ledger_operation "\<lambda>(storage, code, user, inp). log_barcode storage code user inp"
  by unfold_locales (auto intro: log_barcode_shifts)

lemma current_stock_total:
  "map_option pr_storage (map_of (products s) p) = Some storage \<Longrightarrow> current_stock storage p s = stock_total p s"
  unfolding current_stock_def stock_total_def tbl_sum_def
  by (rule arg_cong [of _ _ sum_list], rule map_cong) auto

text \<open>
  A confirmed scan: the code names a product of this storage, whose ledger and shelf both move by
  exactly the confirmed quantity, up or down, while those of every other product stay; the ledger still
  equals the shelf, and the stock in the answer is the stock after the write.
\<close>

theorem log_barcode_correct:
  assumes inv: "stock_inv s" and run: "log_barcode storage code user inp s = Inr (r, s')"
  shows "\<exists>p. barcode_product storage code s = Some (br_product r, p) \<and> stock_inv s'
    \<and> (\<forall>x. stock_total x s' = stock_total x s + (if x = br_product r
         then (if bl_direction inp = BarcodeLogIn then bl_quantity inp else - bl_quantity inp) else 0)
        \<and> ledger_total x s' = stock_total x s')
    \<and> br_stock r = stock_total (br_product r) s'
    \<and> (br_created r = None \<longleftrightarrow> bl_direction inp = BarcodeLogOut)"
proof -
  have inv': "stock_inv s'" using scan_log.commit_keeps [of s "(storage, code, user, inp)"] inv run by simp
  have eq: "stock_total x t = ledger_total x t" if "stock_inv t" for x t using that by (simp add: stock_inv_def)
  have own: "map_option pr_storage (map_of (products s) (fst p)) = Some storage" if "barcode_product storage code s = Some p" for p
    using that by (auto simp: barcode_product_def split: option.splits if_splits)
  show ?thesis
  proof (rule log_steps [OF run])
    fix p l v
    assume a: "barcode_product storage code s = Some p" "bl_direction inp = BarcodeLogIn"
      and c: "create_batch storage \<lparr>nb_product = fst p, nb_location = l, nb_quantity = bl_quantity inp,
          nb_expiration = bl_expiration inp,
          nb_source = Some (if bl_edited inp then ExpirationUser else ExpirationDerived),
          nb_reason = Some ReasonPurchase, nb_created_by = user, nb_label = None, nb_type = None\<rparr> s = Inr (v, s')"
      and r: "r = \<lparr>br_product = fst p, br_created = Some (bv_id v), br_touched = [], br_stock = current_stock storage (fst p) s'\<rparr>"
    have e: "ledger_total x s' = ledger_total x s + at_product (fst p) (bl_quantity inp) x" "products s' = products s" for x
      using create_ledger [OF c] by simp_all
    have "current_stock storage (fst p) s' = stock_total (fst p) s'"
      by (rule current_stock_total) (use own [OF a(1)] e(2) in simp)
    with a r e(1) eq [OF inv] eq [OF inv'] inv' show ?thesis by (cases p) (auto simp: at_product_def)
  next
    fix p ds out
    assume a: "barcode_product storage code s = Some p" "bl_direction inp = BarcodeLogOut"
      and q: "sum_list (map snd ds) = bl_quantity inp"
      and f: "fold_tx (consume_decrement storage user (fst p)) ds [] s = Inr (out, s')"
      and r: "r = \<lparr>br_product = fst p, br_created = None, br_touched = out, br_stock = current_stock storage (fst p) s'\<rparr>"
    have e: "ledger_total x s' = ledger_total x s - at_product (fst p) (bl_quantity inp) x" for x
      using decrements_ledger [OF f] q by simp
    have "current_stock storage (fst p) s' = stock_total (fst p) s'"
      by (rule current_stock_total) (use own [OF a(1)] decrements_products [OF f] in simp)
    with a r e eq [OF inv] eq [OF inv'] inv' show ?thesis by (cases p) (auto simp: at_product_def)
  qed
qed

definition scan_db :: db where
  "scan_db = demo_db\<lparr>product_barcodes := [((2, ''4006''), \<lparr>bc_product = 5, bc_created = 0\<rparr>)]\<rparr>"

definition use_two :: barcode_log_input where
  "use_two = \<lparr>bl_direction = BarcodeLogOut, bl_quantity = 2, bl_location = None, bl_expiration = None, bl_edited = False,
     bl_decrements = []\<rparr>"

lemma scan_db_inv: "stock_inv scan_db"
  using shifts_keep [OF demo_stock_inv shifts_other [OF stock_inv_rows [OF demo_stock_inv]]] by (simp add: scan_db_def)

lemma scan_runs: "\<exists>r s'. log_barcode 2 ''4006'' None use_two scan_db = Inr (r, s')"
proof -
  have rows: "stock_rows 2 5 scan_db = [(20, 3)]"
    by (simp add: stock_rows_def scan_db_def demo_defs tbl_select_def)
  have "default_decrements 2 5 2 scan_db = Inr ([(20, 2)], scan_db)" by (simp add: default_decrements_def tx_defs rows)
  moreover have "barcode_product 2 ''4006'' scan_db = Some (5, demo_product)"
    by (simp add: barcode_product_def scan_db_def demo_defs)
  moreover have "valid_barcode ''4006''" by (simp add: valid_barcode_def max_barcode_length_def barcode_char_def)
  moreover have "\<exists>s'. fold_tx (consume_decrement 2 None 5) [(20, 2)] [] scan_db = Inr ([20], s')"
    by (simp add: consume_decrement_def adjust_batch_def tx_iff find_batch_Some Let_def bump_for_ledger_reason_def
        scan_db_def demo_defs int4_def user_exists_def tbl_has_def)
  ultimately show ?thesis
    by (auto simp: log_barcode_def log_out_def use_two_def tx_defs split: sum.splits)
qed

theorem log_barcode_correct_witness:
  "\<exists>r s'. log_barcode 2 ''4006'' None use_two scan_db = Inr (r, s') \<and> br_stock r = 1 \<and> stock_inv s'"
proof -
  obtain r s' where run: "log_barcode 2 ''4006'' None use_two scan_db = Inr (r, s')" using scan_runs by blast
  from log_barcode_correct [OF scan_db_inv run] obtain p where t: "barcode_product 2 ''4006'' scan_db = Some (br_product r, p)"
    "stock_inv s'" "br_stock r = stock_total (br_product r) s'"
    "stock_total (br_product r) s' = stock_total (br_product r) scan_db - 2" by (auto simp: use_two_def)
  have "br_product r = 5" using t(1) by (simp add: barcode_product_def scan_db_def demo_defs)
  moreover have "stock_total 5 scan_db = 3" by (simp add: stock_total_def scan_db_def demo_defs)
  ultimately show ?thesis using run t by auto
qed

section \<open>Associations and hints\<close>

lemma insert_product_barcode_iff:
  "insert_product_barcode e storage code product s = Inr r \<longleftrightarrow>
     \<not> tbl_has (storage, code) (product_barcodes s) \<and> tbl_has storage (storage_rows s) \<and> tbl_has product (products s)
     \<and> r = (\<lparr>bc_product = product, bc_created = db_now s\<rparr>, s\<lparr>product_barcodes :=
         tbl_ins (storage, code) \<lparr>bc_product = product, bc_created = db_now s\<rparr> (product_barcodes s)\<rparr>)"
  by (auto simp: insert_product_barcode_def seq_tx_iff check_tx_iff bind_tx_iff get_tx_iff mod_tx_iff ret_tx_iff Let_def)

lemma insert_catalog_barcode_iff:
  "insert_catalog_barcode storage product code s = Inr r \<longleftrightarrow>
     (\<exists>p. map_of (products s) product = Some p \<and> pr_storage p = storage \<and>
       (case pr_catalog p of None \<Rightarrow> r = ((), s)
        | Some c \<Rightarrow> if tbl_has code (catalog_barcodes s) then r = ((), s)
            else tbl_has c (catalog s) \<and> r = ((), s\<lparr>catalog_barcodes :=
               tbl_ins code \<lparr>cb_catalog = c, cb_scans = 0, cb_created = db_now s\<rparr> (catalog_barcodes s)\<rparr>)))"
  by (cases "map_of (products s) product")
    (auto simp: insert_catalog_barcode_def seq_tx_iff check_tx_iff bind_tx_iff get_tx_iff mod_tx_iff ret_tx_iff row_tx_iff
      split: option.splits if_split_asm)

lemma associate_steps:
  assumes "associate_barcode storage product code s = Inr (row, s')"
  obtains s1 p where "valid_barcode code" "map_of (products s) product = Some p" "pr_storage p = storage"
    "\<not> tbl_has (storage, code) (product_barcodes s)" "row = \<lparr>bc_product = product, bc_created = db_now s\<rparr>"
    "s1 = s\<lparr>product_barcodes := tbl_ins (storage, code) row (product_barcodes s)\<rparr>"
    "s' = (case pr_catalog p of None \<Rightarrow> s1 | Some c \<Rightarrow> if tbl_has code (catalog_barcodes s) then s1
       else s1\<lparr>catalog_barcodes := tbl_ins code \<lparr>cb_catalog = c, cb_scans = 0, cb_created = db_now s\<rparr> (catalog_barcodes s)\<rparr>)"
proof -
  let ?row = "\<lparr>bc_product = product, bc_created = db_now s\<rparr>"
  let ?s1 = "s\<lparr>product_barcodes := tbl_ins (storage, code) ?row (product_barcodes s)\<rparr>"
  have "valid_barcode code" "\<not> tbl_has (storage, code) (product_barcodes s)" "row = ?row"
    and cat: "insert_catalog_barcode storage product code ?s1 = Inr ((), s')"
    using assms by (auto simp: associate_barcode_def validate_barcode_def require_product_iff insert_product_barcode_iff
        seq_tx_iff guard_tx_iff bind_tx_iff ret_tx_iff)
  moreover from cat [unfolded insert_catalog_barcode_iff] obtain p
    where p: "map_of (products ?s1) product = Some p" "pr_storage p = storage"
    and c: "case pr_catalog p of None \<Rightarrow> ((), s') = ((), ?s1)
        | Some c \<Rightarrow> if tbl_has code (catalog_barcodes ?s1) then ((), s') = ((), ?s1)
            else tbl_has c (catalog ?s1) \<and> ((), s') = ((), ?s1\<lparr>catalog_barcodes :=
               tbl_ins code \<lparr>cb_catalog = c, cb_scans = 0, cb_created = db_now ?s1\<rparr> (catalog_barcodes ?s1)\<rparr>)"
    by (elim exE conjE) (rule that)
  from c have "s' = (case pr_catalog p of None \<Rightarrow> ?s1 | Some c \<Rightarrow> if tbl_has code (catalog_barcodes s) then ?s1
       else ?s1\<lparr>catalog_barcodes := tbl_ins code \<lparr>cb_catalog = c, cb_scans = 0, cb_created = db_now s\<rparr> (catalog_barcodes s)\<rparr>)"
    by (simp split: option.splits if_split_asm)
  ultimately show thesis using that [of p ?s1] p by simp
qed

text \<open>
  C35. Attaching a code: afterwards the code names that product in this storage; what every other code, and
  this code in every other storage, names is untouched; a hint that existed keeps the entry it was
  first given; and attaching a code the storage already uses is a conflict that changes nothing.
\<close>

theorem associate_barcode_correct:
  assumes run: "associate_barcode storage product code s = Inr (row, s')"
  shows "(\<exists>p. barcode_product storage code s' = Some (product, p))
    \<and> (\<forall>st c. (st, c) \<noteq> (storage, code) \<longrightarrow> barcode_product st c s' = barcode_product st c s)
    \<and> (\<forall>c. tbl_has c (catalog_barcodes s) \<longrightarrow> barcode_hint c s' = barcode_hint c s)
    \<and> (\<forall>other. map_option pr_storage (map_of (products s) other) = Some storage \<longrightarrow>
         in_tx (associate_barcode storage other code) s' = (Inl ErrConflict, s'))
    \<and> products s' = products s \<and> batches s' = batches s \<and> logs s' = logs s \<and> catalog s' = catalog s"
proof (rule associate_steps [OF run])
  fix s1 p
  assume v: "valid_barcode code" and p: "map_of (products s) product = Some p" "pr_storage p = storage"
    and free: "\<not> tbl_has (storage, code) (product_barcodes s)" and row: "row = \<lparr>bc_product = product, bc_created = db_now s\<rparr>"
    and s1: "s1 = s\<lparr>product_barcodes := tbl_ins (storage, code) row (product_barcodes s)\<rparr>"
    and s': "s' = (case pr_catalog p of None \<Rightarrow> s1 | Some c \<Rightarrow> if tbl_has code (catalog_barcodes s) then s1
       else s1\<lparr>catalog_barcodes := tbl_ins code \<lparr>cb_catalog = c, cb_scans = 0, cb_created = db_now s\<rparr> (catalog_barcodes s)\<rparr>)"
  have same: "products s' = products s" "batches s' = batches s" "logs s' = logs s" "catalog s' = catalog s"
    "map_of (product_barcodes s') = (map_of (product_barcodes s))((storage, code) \<mapsto> row)"
    using free by (auto simp: s' s1 map_of_insert_fresh split: option.split)
  have hint: "map_of (catalog_barcodes s') c = map_of (catalog_barcodes s) c" if "tbl_has c (catalog_barcodes s)" for c
    using that by (auto simp: s' s1 map_of_tbl_ins tbl_has_keys split: option.split)
  have "in_tx (associate_barcode storage other code) s' = (Inl ErrConflict, s')"
    if "map_option pr_storage (map_of (products s) other) = Some storage" for other
  proof -
    have "tbl_has (storage, code) (product_barcodes s')" by (simp add: tbl_has_def same)
    then show ?thesis using v that
      by (simp add: associate_barcode_def validate_barcode_def require_product_in_storage_def insert_product_barcode_def
          tx_defs in_tx_def same)
  qed
  moreover have "barcode_product st c s' = barcode_product st c s" if "(st, c) \<noteq> (storage, code)" for st c
  proof -
    have "map_of (product_barcodes s') (st, c) = map_of (product_barcodes s) (st, c)" using that by (auto simp: same(5))
    then show ?thesis by (simp add: barcode_product_def same(1) cong: option.case_cong)
  qed
  moreover have "barcode_hint c s' = barcode_hint c s" if "tbl_has c (catalog_barcodes s)" for c
    using hint [OF that] by (simp add: barcode_hint_def same cong: option.case_cong)
  moreover have "barcode_product storage code s' = Some (product, p)"
    using p by (simp add: barcode_product_def same row)
  ultimately show ?thesis using same(1-4) by blast
qed

definition tag_db :: db where
  "tag_db = milk_db\<lparr>products := [(5, demo_product\<lparr>pr_catalog := Some 50\<rparr>), (6, demo_product)]\<rparr>"

theorem associate_barcode_correct_witness:
  "\<exists>row s'. associate_barcode 2 5 ''4006'' tag_db = Inr (row, s') \<and> (\<exists>p. barcode_product 2 ''4006'' s' = Some (5, p))
     \<and> in_tx (associate_barcode 2 6 ''4006'') s' = (Inl ErrConflict, s')"
proof -
  have "\<exists>row s'. associate_barcode 2 5 ''4006'' tag_db = Inr (row, s')"
    by (simp add: associate_barcode_def validate_barcode_def require_product_iff insert_product_barcode_iff
        insert_catalog_barcode_iff seq_tx_iff guard_tx_iff bind_tx_iff ret_tx_iff valid_barcode_def max_barcode_length_def
        barcode_char_def)
      (simp add: tag_db_def milk_defs tbl_has_def)
  then obtain row s' where run: "associate_barcode 2 5 ''4006'' tag_db = Inr (row, s')" by blast
  have "map_option pr_storage (map_of (products tag_db) 6) = Some 2"
    by (simp add: tag_db_def demo_product_def)
  with associate_barcode_correct [OF run, THEN conjunct2, THEN conjunct2, THEN conjunct2, THEN conjunct1]
  have "in_tx (associate_barcode 2 6 ''4006'') s' = (Inl ErrConflict, s')" by blast
  with run associate_barcode_correct [OF run, THEN conjunct1] show ?thesis by blast
qed

text \<open>
  A product created from a scanned hint copies the hint's shelf life into its own override, so the
  correction of the catalogue entry that follows never reaches it: the correction reports no batch and
  the product keeps the old rule.
\<close>

theorem hint_product_misses_corrections:
  "\<exists>p s1 s2. in_tx (create_product_from_barcode_hint id 2 ''4006'')
         (milk_db\<lparr>catalog_barcodes := [(''4006'', \<lparr>cb_catalog = 50, cb_scans = 0, cb_created = 0\<rparr>)], products := [], batches := [],
            logs := []\<rparr>) = (Inr p, s1)
     \<and> pr_catalog (snd p) = Some 50 \<and> in_tx (correct_catalog_shelf_life None 50 (Some 3)) s1 = (Inr 0, s2)
     \<and> re_days (resolve (product_rules 2 (snd p) s2)) = Some 12"
  by (simp add: create_product_from_barcode_hint_def barcode_hint_def hint_product_def create_product_def require_category_def
      insert_product_def insert_product_barcode_def tx_defs new_id_def valid_barcode_def max_barcode_length_def barcode_char_def
      milk_defs tbl_has_def Let_def in_tx_def product_row_ok_def columns_ok_def product_of_def item_type_fallback_days_def
      int4_def correct_catalog_shelf_life_def set_catalog_shelf_life_def catalog_followers_def tbl_select_def tbl_ins_def
      write_admin_audit_def user_exists_def product_rules_def resolve_def)

lemma ensure_step_shifts:
  assumes ok: "rows_ok s" and run: "ensure_category_step low storage name parent s = Inr (r, s')"
  shows "shifts (\<lambda>_. 0) s s'"
  using run by (cases "find_category low storage parent name s")
    (auto simp: ensure_category_step_def insert_category_row_def bind_tx_iff seq_tx_iff get_tx_iff ret_tx_iff new_id_iff
      check_tx_iff mod_tx_iff intro: shifts_refl [OF ok] shifts_other [OF ok])

lemma ensure_path_shifts:
  "rows_ok s \<Longrightarrow> ensure_category_path low storage path s = Inr (r, s') \<Longrightarrow> shifts (\<lambda>_. 0) s s'"
  unfolding ensure_category_path_def by (rule shifts_fold [OF ensure_step_shifts])

lemma hint_product_shifts:
  assumes ok: "rows_ok s" and run: "create_product_from_barcode_hint low storage code s = Inr (p, s')"
  shows "shifts (\<lambda>_. 0) s s'"
proof -
  obtain c category s1 s2 row where 1: "(case ct_category_path (snd c) of None \<Rightarrow> ret_tx None
       | Some path \<Rightarrow> if path = [] then ret_tx None else ensure_category_path low storage path) s = Inr (category, s1)"
    and 2: "create_product storage (hint_product c category) s1 = Inr (p, s2)"
    and 3: "insert_product_barcode ErrInternal storage code (fst p) s2 = Inr (row, s')"
    using run by (auto simp: create_product_from_barcode_hint_def seq_tx_iff bind_tx_iff guard_tx_iff check_tx_iff
        row_tx_iff ret_tx_iff)
  have sh1: "shifts (\<lambda>_. 0) s s1"
    using 1 by (auto simp: ret_tx_iff intro: shifts_refl [OF ok] ensure_path_shifts [OF ok] split: option.splits if_split_asm)
  note sh2 = create_product_shifts [OF shifts_rows [OF sh1] 2]
  have "shifts (\<lambda>_. 0) s2 s'"
    by (rule shifts_other [OF shifts_rows [OF sh2]]) (use 3 in \<open>auto simp: insert_product_barcode_iff\<close>)
  from shifts_trans [OF shifts_trans [OF sh1 sh2] this] show ?thesis by simp
qed

interpretation barcode_association: ledger_operation "\<lambda>(storage, product, code). associate_barcode storage product code"
proof
  fix s r row s'
  assume "rows_ok s" "(\<lambda>(storage, product, code). associate_barcode storage product code) r s = Inr (row, s')"
  then show "shifts (\<lambda>_. 0) s s'"
    by (cases r) (auto elim!: associate_steps intro!: shifts_other split: option.splits)
qed

interpretation barcode_hint_op: ledger_operation "\<lambda>(low, storage, code). create_product_from_barcode_hint low storage code"
  by unfold_locales (auto intro: hint_product_shifts)

section \<open>The offer is explained once\<close>

datatype prompt_call = ReadPrompt | SetPrompt bool | MarkPrompt

definition prompt_call :: "uuid \<Rightarrow> prompt_call \<Rightarrow> barcode_offer dbtx" where
  "prompt_call user c = (case c of
      ReadPrompt \<Rightarrow> barcode_prompt_state user
    | SetPrompt b \<Rightarrow> set_barcode_prompt_enabled user b
    | MarkPrompt \<Rightarrow> mark_barcode_prompt_shown user)"

fun prompt_trace :: "(uuid \<times> prompt_call) list \<Rightarrow> db \<Rightarrow> (uuid \<times> prompt_call \<times> (err + barcode_offer)) list" where
  "prompt_trace [] s = []"
| "prompt_trace ((u, c) # cs) s = (let (r, s') = in_tx (prompt_call u c) s in (u, c, r) # prompt_trace cs s')"

definition explains :: "uuid \<Rightarrow> (uuid \<times> prompt_call \<times> (err + barcode_offer)) \<Rightarrow> bool" where
  "explains user e = (case e of (u, c, Inr off) \<Rightarrow> u = user \<and> c = MarkPrompt \<and> bo_enabled off \<and> bo_first off | _ \<Rightarrow> False)"

definition prompt_seen :: "uuid \<Rightarrow> db \<Rightarrow> bool" where
  "prompt_seen user s \<longleftrightarrow> (\<exists>q. map_of (accounts s) user = Some q \<and> bq_seen q \<noteq> None)"

lemma prompt_step:
  "in_tx (prompt_call u c) s = (r, s') \<Longrightarrow>
     (prompt_seen user s \<longrightarrow> prompt_seen user s' \<and> \<not> explains user (u, c, r))
   \<and> (explains user (u, c, r) \<longrightarrow> prompt_seen user s')"
  by (cases c; cases "map_of (accounts s) u")
    (auto simp: prompt_call_def barcode_prompt_state_def set_barcode_prompt_enabled_def mark_barcode_prompt_shown_def
      in_tx_def tx_defs explains_def prompt_seen_def Let_def split: if_splits)

lemma seen_explains_nothing: "prompt_seen user s \<Longrightarrow> filter (explains user) (prompt_trace cs s) = []"
proof (induction cs arbitrary: s)
  case (Cons uc cs)
  obtain u c r s' where uc: "uc = (u, c)" and st: "in_tx (prompt_call u c) s = (r, s')" by (cases uc) fastforce
  from prompt_step [OF st, of user] Cons show ?case by (simp add: uc st)
qed simp

text \<open>
  In any sequence of reads, switches and showings of the offer, by any users in any order, the
  explanatory first-time text is shown to a user at most once, however often the offer is turned off
  and on again.
\<close>

theorem offer_explained_once:
  "length (filter (explains user) (prompt_trace cs s)) \<le> 1"
proof (induction cs arbitrary: s)
  case (Cons uc cs)
  obtain u c r s' where uc: "uc = (u, c)" and st: "in_tx (prompt_call u c) s = (r, s')" by (cases uc) fastforce
  show ?case
  proof (cases "explains user (u, c, r)")
    case True
    with prompt_step [OF st, of user] have "prompt_seen user s'" by blast
    with seen_explains_nothing [of user s' cs] True show ?thesis by (simp add: uc st)
  next
    case False
    with Cons.IH [of s'] show ?thesis by (simp add: uc st)
  qed
qed simp

end
