(* ===== verification/Frames.thy ===== *)
theory Frames
  imports Catalog
begin

text \<open>
  What operations leave alone: a frame is a part of the state that depends on the core only, and a
  computation is quiet for it when no run moves it. A view that does not show products, the catalogue and the two
  trees is the same after a product, a category path, a catalogue entry or a location is created; one
  that shows no batches, containers and ledger rows either is the same after a batch is created. The
  locales prove it once, and their interpretations give it for the stock, the shopping lists and the
  jobs.
\<close>

locale frame =
  fixes view :: "db \<Rightarrow> 'v"
  assumes view_core: "core s = core s' \<Longrightarrow> view s = view s'"
begin

definition quiet :: "'a dbtx \<Rightarrow> bool" where
  "quiet m \<longleftrightarrow> (\<forall>c. keeps (\<lambda>s. view s = c) m)"

lemma quietD: "quiet m \<Longrightarrow> m s = Inr (a, s') \<Longrightarrow> view s' = view s"
  unfolding quiet_def by (blast dest: keepsD)

lemma quietI: "(\<And>s a s'. m s = Inr (a, s') \<Longrightarrow> view s' = view s) \<Longrightarrow> quiet m"
  unfolding quiet_def by (intro allI keepsI) simp

lemma quiet_silent: "silent m \<Longrightarrow> quiet m"
  by (rule quietI) (metis silentD view_core)

lemma quiet_bind: "quiet m \<Longrightarrow> (\<And>a. quiet (f a)) \<Longrightarrow> quiet (bind_tx m f)"
  by (simp add: quiet_def keeps_bind)

lemma quiet_seq: "quiet m \<Longrightarrow> quiet k \<Longrightarrow> quiet (seq_tx m k)"
  by (simp add: quiet_def keeps_seq)

lemma quiet_when: "quiet m \<Longrightarrow> quiet (when_tx b m)"
  by (simp add: quiet_def keeps_when)

lemma quiet_fold: "(\<And>x b. quiet (f x b)) \<Longrightarrow> quiet (fold_tx f xs b)"
  by (simp add: quiet_def keeps_fold)

lemma quiet_iter: "(\<And>x. quiet (f x)) \<Longrightarrow> quiet (iter_tx f xs)"
  by (simp add: quiet_def keeps_iter)

lemma quiet_if: "quiet m \<Longrightarrow> quiet k \<Longrightarrow> quiet (if b then m else k)"
  by simp

lemma quiet_option: "quiet m \<Longrightarrow> (\<And>a. quiet (f a)) \<Longrightarrow> quiet (case x of None \<Rightarrow> m | Some a \<Rightarrow> f a)"
  by (cases x) auto

lemma quiet_prod: "(\<And>a b. quiet (f a b)) \<Longrightarrow> quiet (case p of (a, b) \<Rightarrow> f a b)"
  by (cases p) auto

lemma quiet_mod: "(\<And>s. view (f s) = view s) \<Longrightarrow> quiet (mod_tx f)"
  by (rule quietI) (auto simp: mod_tx_iff)

lemmas quiet_reads = quiet_silent [OF silent_get] quiet_silent [OF silent_ret] quiet_silent [OF silent_fail]
  quiet_silent [OF silent_check] quiet_silent [OF silent_guard] quiet_silent [OF silent_row]

lemmas quiet_intros = quiet_bind quiet_seq quiet_when quiet_fold quiet_iter quiet_if quiet_option quiet_prod
  quiet_mod quiet_reads quiet_silent [OF silent_new_id]

end

locale master_view = frame view for view :: "db \<Rightarrow> 'v" +
  assumes view_idgen: "view (s\<lparr>idgen := a\<rparr>) = view s"
    and view_locations: "view (s\<lparr>locations := b\<rparr>) = view s"
    and view_categories: "view (s\<lparr>categories := c\<rparr>) = view s"
    and view_catalog: "view (s\<lparr>catalog := d\<rparr>) = view s"
    and view_products: "view (s\<lparr>products := e\<rparr>) = view s"
begin

lemmas view_simps = view_idgen view_locations view_categories view_catalog view_products

lemma quiet_create_product: "quiet (create_product storage inp)"
  by (rule quietI) (auto simp: create_product_def insert_product_def require_category_iff tx_iff view_simps)

lemma quiet_ensure_step: "quiet (ensure_category_step low storage name parent)"
  by (rule quietI) (auto simp: ensure_category_step_def insert_category_row_def tx_iff view_simps split: option.splits)

lemma quiet_ensure_path: "quiet (ensure_category_path low storage path)"
  unfolding ensure_category_path_def by (intro quiet_fold quiet_ensure_step)

lemma quiet_insert_catalog: "quiet (insert_catalog_product low inp)"
proof (rule quietI)
  fix s r s' assume "insert_catalog_product low inp s = Inr (r, s')"
  then show "view s' = view s" by (rule insert_catalog_steps) (simp_all add: view_simps)
qed

lemma quiet_insert_location: "quiet (insert_location storage i inp)"
  by (rule quietI) (auto simp: insert_location_def resolve_parent_iff tx_iff Let_def view_simps)

end

locale side_view = master_view view for view :: "db \<Rightarrow> 'v" +
  assumes view_batches: "view (s\<lparr>batches := f\<rparr>) = view s"
    and view_logs: "view (s\<lparr>logs := g\<rparr>) = view s"
    and view_containers: "view (s\<lparr>containers := h\<rparr>) = view s"
begin

lemmas all_view_simps = view_simps view_batches view_logs view_containers

lemma quiet_create_batch: "quiet (create_batch storage inp)"
proof (rule quietI)
  fix s v s' assume run: "create_batch storage inp s = Inr (v, s')"
  obtain i reason e s1 s2 s3 s4 s5 where i: "new_id s = Inr (i, s1)"
    and ins: "insert_batch i (new_row inp e (db_now s)) s1 = Inr ((), s2)"
    and lab: "case nb_label inp of None \<Rightarrow> s3 = s2 | Some l \<Rightarrow> upsert_batch_container_label storage i l s2 = Inr ((), s3)"
    and ty: "case nb_type inp of None \<Rightarrow> s4 = s3 | Some ty \<Rightarrow> set_batch_container_type storage i (Some ty) s3 = Inr ((), s4)"
    and w: "write_log (nb_product inp) (Some i) (nb_quantity inp) reason (nb_created_by inp) s4 = Inr ((), s5)"
    and bump: "bump_for_ledger_reason storage (nb_created_by inp) reason i s5 = Inr ((), s')"
    by (rule create_steps [OF run])
  have "view s2 = view s" using i ins by (auto simp: new_id_iff insert_batch_iff all_view_simps)
  moreover have "view s3 = view s2"
    using lab by (auto simp: upsert_batch_container_label_def rename_container_def insert_container_def tx_iff all_view_simps
        split: option.splits)
  moreover have "view s4 = view s3"
    using ty by (auto simp: set_batch_container_type_def rename_container_def tx_iff all_view_simps split: option.splits)
  moreover have "view s5 = view s4" using w by (auto simp: write_log_iff all_view_simps)
  moreover have "view s' = view s5" using quietD [OF quiet_silent [OF silent_bump_ledger] bump] .
  ultimately show "view s' = view s" by simp
qed

end

definition stock_view :: "db \<Rightarrow> batch table \<times> log_row table \<times> container table" where
  "stock_view s = (batches s, logs s, containers s)"

interpretation stock_rows: master_view stock_view
proof
  fix s s' :: db assume "core s = core s'"
  then have "stock_view (core s) = stock_view (core s')" by simp
  then show "stock_view s = stock_view s'" by (simp add: stock_view_def)
qed (simp_all add: stock_view_def)

definition shopping_view :: "db \<Rightarrow> shopping_list table \<times> shopping_item table" where
  "shopping_view s = (shopping_lists s, shopping_items s)"

interpretation lines: side_view shopping_view
proof
  fix s s' :: db assume "core s = core s'"
  then have "shopping_view (core s) = shopping_view (core s')" by simp
  then show "shopping_view s = shopping_view s'" by (simp add: shopping_view_def)
qed (simp_all add: shopping_view_def)

interpretation job_rows: side_view jobs
proof
  fix s s' :: db assume "core s = core s'"
  then have "jobs (core s) = jobs (core s')" by simp
  then show "jobs s = jobs s'" by simp
qed simp_all

end
