(* ===== verification/ShoppingLists.thy ===== *)
theory ShoppingLists
  imports Barcodes Frames
begin

text \<open>
  \<open>internal/store/shoppinglists.go\<close>: lists of lines a person submitted, what matching made of each line,
  and the one step that turns a line into inventory. Two case foldings are parameters: the one of the
  database, for category names, and the one of the process, for catalogue names.
\<close>

section \<open>Lists and lines\<close>

record new_shopping_item =
  ni_text :: string
  ni_status :: item_status
  ni_matched :: "uuid option"

definition require_matched :: "uuid \<Rightarrow> uuid option \<Rightarrow> unit dbtx" where
  "require_matched storage p = (case p of None \<Rightarrow> ret_tx () | Some i \<Rightarrow> require_product_in_storage storage i)"

definition insert_item_row :: "uuid \<Rightarrow> shopping_item \<Rightarrow> unit dbtx" where
  "insert_item_row i r =
     seq_tx (check_tx (\<lambda>s. \<not> tbl_has i (shopping_items s) \<and> tbl_has (si_list r) (shopping_lists s)
         \<and> pred_option (\<lambda>p. tbl_has p (products s)) (si_matched r)) ErrInternal)
       (mod_tx (\<lambda>s. s\<lparr>shopping_items := tbl_ins i r (shopping_items s)\<rparr>))"

definition insert_item ::
    "uuid \<Rightarrow> uuid \<Rightarrow> new_shopping_item \<Rightarrow> (uuid \<times> shopping_item) list \<Rightarrow> (uuid \<times> shopping_item) list dbtx" where
  "insert_item storage l inp acc =
     seq_tx (require_matched storage (ni_matched inp))
    (bind_tx new_id (\<lambda>i.
     bind_tx (get_tx db_now) (\<lambda>now.
       let row = \<lparr>si_list = l, si_text = ni_text inp, si_status = ni_status inp, si_matched = ni_matched inp,
         si_quantity = None, si_created = now\<rparr> in
       seq_tx (insert_item_row i row) (ret_tx (acc @ [(i, row)])))))"

definition insert_shopping_list ::
    "uuid \<Rightarrow> uuid \<Rightarrow> list_source \<Rightarrow> uuid option \<Rightarrow> new_shopping_item list \<Rightarrow>
     ((uuid \<times> shopping_list) \<times> (uuid \<times> shopping_item) list) dbtx" where
  "insert_shopping_list l storage source user items =
     bind_tx (get_tx db_now) (\<lambda>now.
       let row = \<lparr>sl_storage = storage, sl_source = source, sl_by = user, sl_created = now\<rparr> in
       seq_tx (check_tx (\<lambda>s. \<not> tbl_has l (shopping_lists s) \<and> tbl_has storage (storage_rows s) \<and> user_exists user s) ErrInternal)
      (seq_tx (mod_tx (\<lambda>s. s\<lparr>shopping_lists := tbl_ins l row (shopping_lists s)\<rparr>))
      (bind_tx (fold_tx (insert_item storage l) items []) (\<lambda>created.
         ret_tx ((l, row), created)))))"

definition create_shopping_list ::
    "uuid \<Rightarrow> list_source \<Rightarrow> uuid option \<Rightarrow> new_shopping_item list \<Rightarrow>
     ((uuid \<times> shopping_list) \<times> (uuid \<times> shopping_item) list) dbtx" where
  "create_shopping_list storage source user items =
     seq_tx (guard_tx (items \<noteq> []) ErrValidation)
       (bind_tx new_id (\<lambda>l. insert_shopping_list l storage source user items))"

definition create_shopping_list_from_job ::
    "uuid \<Rightarrow> uuid \<Rightarrow> uuid option \<Rightarrow> new_shopping_item list \<Rightarrow>
     (((uuid \<times> shopping_list) \<times> (uuid \<times> shopping_item) list) \<times> string option) dbtx" where
  "create_shopping_list_from_job storage i user items =
     seq_tx (guard_tx (items \<noteq> []) ErrValidation)
    (bind_tx new_id (\<lambda>l.
     bind_tx (row_tx ErrNotFound (find_job storage i)) (\<lambda>j.
     seq_tx (guard_tx (jb_status j = JobDone) ErrNotFound)
    (bind_tx (insert_shopping_list l storage SourcePhoto user items) (\<lambda>out.
     seq_tx (mod_tx (\<lambda>s. s\<lparr>jobs := tbl_del (\<lambda>k _. k = i) (jobs s)\<rparr>))
       (ret_tx (out, jb_image j)))))))"

definition shopping_list_with_items ::
    "uuid \<Rightarrow> uuid \<Rightarrow> ((uuid \<times> shopping_list) \<times> (uuid \<times> shopping_item) list) dbtx" where
  "shopping_list_with_items storage l =
     bind_tx (row_tx ErrNotFound (\<lambda>s. case map_of (shopping_lists s) l of
         None \<Rightarrow> None | Some r \<Rightarrow> if sl_storage r = storage then Some (l, r) else None)) (\<lambda>row.
     bind_tx (get_tx (\<lambda>s. sort_key (\<lambda>(i, r). (si_created r, i))
         (tbl_select (\<lambda>_ r. si_list r = l) (shopping_items s)))) (\<lambda>items.
       ret_tx (row, items)))"

text \<open>A line is of a storage when its list is.\<close>

definition find_item :: "uuid \<Rightarrow> uuid \<Rightarrow> db \<Rightarrow> shopping_item option" where
  "find_item storage i s = (case map_of (shopping_items s) i of
      None \<Rightarrow> None
    | Some r \<Rightarrow> if map_option sl_storage (map_of (shopping_lists s) (si_list r)) = Some storage then Some r else None)"

definition shopping_item_by_id :: "uuid \<Rightarrow> uuid \<Rightarrow> (uuid \<times> shopping_item) dbtx" where
  "shopping_item_by_id storage i = row_tx ErrNotFound (\<lambda>s. map_option (Pair i) (find_item storage i s))"

definition update_item :: "uuid \<Rightarrow> (shopping_item \<Rightarrow> shopping_item) \<Rightarrow> (uuid \<times> shopping_item) dbtx" where
  "update_item i f =
     seq_tx (mod_tx (\<lambda>s. s\<lparr>shopping_items := tbl_upd i f (shopping_items s)\<rparr>))
       (row_tx ErrNotFound (\<lambda>s. map_option (Pair i) (map_of (shopping_items s) i)))"

definition rematch_shopping_list_item ::
    "uuid \<Rightarrow> uuid \<Rightarrow> string \<Rightarrow> item_status \<Rightarrow> uuid option \<Rightarrow> (uuid \<times> shopping_item) dbtx" where
  "rematch_shopping_list_item storage i raw status matched =
     bind_tx (row_tx ErrNotFound (find_item storage i)) (\<lambda>r.
     seq_tx (guard_tx (\<not> si_status r = ItemResolved) ErrConflict)
    (seq_tx (require_matched storage matched)
       (update_item i (\<lambda>r. r\<lparr>si_text := raw, si_status := status, si_matched := matched\<rparr>))))"

section \<open>Resolving a line\<close>

record resolved_product =
  rp_name :: string
  rp_item_type :: "item_type option"
  rp_min_stock :: int
  rp_category :: "uuid option"
  rp_path :: "string option"
  rp_days :: "int option"
  rp_icon :: "string option"
  rp_image :: "string option"
  rp_accepted :: "uuid option"
  rp_catalog :: "new_catalog_product option"

record resolve_line =
  rl_product :: "uuid option"
  rl_new :: "resolved_product option"
  rl_quantity :: int
  rl_location :: "uuid option"

record resolve_result =
  rr_item :: "uuid \<times> shopping_item"
  rr_created :: bool
  rr_batch :: "uuid option"

definition valid_new_product :: "resolved_product \<Rightarrow> bool" where
  "valid_new_product p \<longleftrightarrow> \<not> trim_space (rp_name p) = []
     \<and> \<not> (rp_category p \<noteq> None \<and> rp_path p \<noteq> None)
     \<and> \<not> ((rp_accepted p = None) = (rp_catalog p = None))
     \<and> \<not> rp_min_stock p < 0"

definition valid_line :: "resolve_line \<Rightarrow> bool" where
  "valid_line l \<longleftrightarrow> \<not> (rl_product l \<noteq> None \<and> rl_new l \<noteq> None)
     \<and> \<not> rl_quantity l < 0
     \<and> \<not> (rl_quantity l > 0 \<and> rl_product l = None \<and> rl_new l = None)
     \<and> \<not> (rl_quantity l > 0 \<and> rl_location l = None)
     \<and> pred_option valid_new_product (rl_new l)"

text \<open>
  The catalogue side: link the accepted row, or describe the product with the path of its category when
  the caller gave none. A dereference of an absent field, which \<open>validate\<close> excludes, is \<open>ErrInternal\<close>.
\<close>

definition describe_product :: "(char \<Rightarrow> char) \<Rightarrow> uuid option \<Rightarrow> resolved_product \<Rightarrow> uuid dbtx" where
  "describe_product fold_case category inp = (case rp_accepted inp of
      Some c \<Rightarrow> seq_tx (check_tx (\<lambda>s. tbl_has c (catalog s)) ErrNotFound) (ret_tx c)
    | None \<Rightarrow> (case rp_catalog inp of
          None \<Rightarrow> fail_tx ErrInternal
        | Some entry \<Rightarrow>
            bind_tx (get_tx (\<lambda>s. case category of
                None \<Rightarrow> entry
              | Some k \<Rightarrow> if nk_path entry = None then entry\<lparr>nk_path := Some (category_path_of k s)\<rparr> else entry)) (\<lambda>entry.
            bind_tx (insert_catalog_product fold_case entry) (\<lambda>row. ret_tx (fst row)))))"

definition create_resolved_product ::
    "(char \<Rightarrow> char) \<Rightarrow> (char \<Rightarrow> char) \<Rightarrow> uuid \<Rightarrow> resolved_product \<Rightarrow> uuid dbtx" where
  "create_resolved_product low fold_case storage inp =
     bind_tx (case rp_path inp of
         None \<Rightarrow> ret_tx (rp_category inp) | Some path \<Rightarrow> ensure_category_path low storage path) (\<lambda>category.
     bind_tx (describe_product fold_case category inp) (\<lambda>c.
     bind_tx (create_product storage \<lparr>np_name = trim_space (rp_name inp), np_category = category, np_catalog = Some c,
         np_item_type = rp_item_type inp, np_days = rp_days inp, np_min_stock = rp_min_stock inp,
         np_image = rp_image inp, np_icon = rp_icon inp\<rparr>) (\<lambda>p. ret_tx (fst p))))"

definition resolve_product ::
    "(char \<Rightarrow> char) \<Rightarrow> (char \<Rightarrow> char) \<Rightarrow> uuid \<Rightarrow> resolve_line \<Rightarrow> (uuid option \<times> bool) dbtx" where
  "resolve_product low fold_case storage inp = (case rl_product inp of
      Some p \<Rightarrow> seq_tx (require_product_in_storage storage p) (ret_tx (Some p, False))
    | None \<Rightarrow> (case rl_new inp of
          Some n \<Rightarrow> bind_tx (create_resolved_product low fold_case storage n) (\<lambda>p. ret_tx (Some p, True))
        | None \<Rightarrow> ret_tx (None, False)))"

definition resolve_stock :: "uuid \<Rightarrow> uuid option \<Rightarrow> resolve_line \<Rightarrow> uuid option \<Rightarrow> uuid option dbtx" where
  "resolve_stock storage user inp product =
     (if rl_quantity inp > 0 then (case (product, rl_location inp) of
          (Some p, Some l) \<Rightarrow> bind_tx (create_batch storage \<lparr>nb_product = p, nb_location = l, nb_quantity = rl_quantity inp,
              nb_expiration = None, nb_source = None, nb_reason = Some ReasonPurchase, nb_created_by = user,
              nb_label = None, nb_type = None\<rparr>) (\<lambda>v. ret_tx (Some (bv_id v)))
        | _ \<Rightarrow> fail_tx ErrInternal)
      else ret_tx None)"

definition resolve_shopping_list_item ::
    "(char \<Rightarrow> char) \<Rightarrow> (char \<Rightarrow> char) \<Rightarrow> uuid \<Rightarrow> uuid \<Rightarrow> resolve_line \<Rightarrow> uuid option \<Rightarrow> resolve_result dbtx" where
  "resolve_shopping_list_item low fold_case storage i inp user =
     seq_tx (guard_tx (valid_line inp) ErrValidation)
    (bind_tx (row_tx ErrNotFound (find_item storage i)) (\<lambda>r.
     seq_tx (guard_tx (\<not> si_status r = ItemResolved) ErrConflict)
    (bind_tx (resolve_product low fold_case storage inp) (\<lambda>(product, created).
     bind_tx (resolve_stock storage user inp product) (\<lambda>batch.
     seq_tx (guard_tx (int4 (rl_quantity inp)) ErrInternal)
    (bind_tx (update_item i (\<lambda>r. r\<lparr>si_status := ItemResolved, si_matched := product,
        si_quantity := Some (rl_quantity inp)\<rparr>)) (\<lambda>item.
     seq_tx (case user of
         Some u \<Rightarrow> when_tx (si_status r = ItemAmbiguous)
           (record_contribution storage u AmbiguityResolved (Some (case product of Some p \<Rightarrow> p | None \<Rightarrow> i)) None)
       | None \<Rightarrow> ret_tx ())
       (ret_tx \<lparr>rr_item = item, rr_created = created, rr_batch = batch\<rparr>))))))))"

section \<open>What a resolution does\<close>

lemma update_item_iff:
  "update_item i f s = Inr r \<longleftrightarrow> (\<exists>x. map_of (shopping_items s) i = Some x
     \<and> r = ((i, f x), s\<lparr>shopping_items := tbl_upd i f (shopping_items s)\<rparr>))"
  by (auto simp: update_item_def seq_tx_iff mod_tx_iff row_tx_iff)

context master_view
begin

lemma quiet_describe: "quiet (describe_product fold_case category inp)"
  by (cases "rp_accepted inp"; cases "rp_catalog inp")
    (auto simp: describe_product_def intro!: quiet_bind quiet_seq quiet_insert_catalog quiet_reads)

lemma quiet_resolved: "quiet (create_resolved_product low fold_case storage inp)"
  by (cases "rp_path inp")
    (auto simp: create_resolved_product_def intro!: quiet_bind quiet_ensure_path quiet_describe quiet_create_product quiet_reads)

lemma quiet_resolve_product: "quiet (resolve_product low fold_case storage inp)"
  by (cases "rl_product inp"; cases "rl_new inp")
    (auto simp: resolve_product_def require_product_in_storage_def intro!: quiet_bind quiet_seq quiet_resolved quiet_reads)

end

context side_view
begin

lemma quiet_resolve_stock: "quiet (resolve_stock storage user inp product)"
  by (cases product; cases "rl_location inp")
    (auto simp: resolve_stock_def intro!: quiet_bind quiet_create_batch quiet_reads)

end

lemma resolve_steps:
  assumes "resolve_shopping_list_item low fold_case storage i inp user s = Inr (r, s')"
  obtains it product created batch s1 s2 s3 where "valid_line inp" "find_item storage i s = Some it"
    "si_status it \<noteq> ItemResolved" "resolve_product low fold_case storage inp s = Inr ((product, created), s1)"
    "resolve_stock storage user inp product s1 = Inr (batch, s2)"
    "s3 = s2\<lparr>shopping_items := tbl_upd i (\<lambda>r. r\<lparr>si_status := ItemResolved, si_matched := product,
        si_quantity := Some (rl_quantity inp)\<rparr>) (shopping_items s2)\<rparr>"
    "core s' = core s3" "rr_batch r = batch" "rr_created r = created"
proof -
  obtain it product created batch s1 s2 item s3 where a: "valid_line inp" "find_item storage i s = Some it"
    "si_status it \<noteq> ItemResolved" "resolve_product low fold_case storage inp s = Inr ((product, created), s1)"
    "resolve_stock storage user inp product s1 = Inr (batch, s2)"
    and u: "update_item i (\<lambda>r. r\<lparr>si_status := ItemResolved, si_matched := product,
        si_quantity := Some (rl_quantity inp)\<rparr>) s2 = Inr (item, s3)"
    and c: "(case user of Some u \<Rightarrow> when_tx (si_status it = ItemAmbiguous)
           (record_contribution storage u AmbiguityResolved (Some (case product of Some p \<Rightarrow> p | None \<Rightarrow> i)) None)
       | None \<Rightarrow> ret_tx ()) s3 = Inr ((), s')"
    and r: "r = \<lparr>rr_item = item, rr_created = created, rr_batch = batch\<rparr>"
    using assms unfolding resolve_shopping_list_item_def
    by (auto simp: seq_tx_iff bind_tx_iff guard_tx_iff row_tx_iff ret_tx_iff)
  have "silent (case user of Some u \<Rightarrow> when_tx (si_status it = ItemAmbiguous)
           (record_contribution storage u AmbiguityResolved (Some (case product of Some p \<Rightarrow> p | None \<Rightarrow> i)) None)
       | None \<Rightarrow> ret_tx ())" by (intro silent_intros)
  from silentD [OF this c] have "core s' = core s3" .
  with a u r show thesis by (intro that) (auto simp: update_item_iff)
qed

lemma describe_shifts:
  assumes ok: "rows_ok s" and run: "describe_product fold_case category inp s = Inr (c, s')"
  shows "shifts (\<lambda>_. 0) s s'"
  using run by (auto simp: describe_product_def seq_tx_iff bind_tx_iff check_tx_iff ret_tx_iff get_tx_iff fail_tx_iff
      intro: shifts_refl [OF ok] insert_catalog_shifts [OF ok] split: option.splits)

lemma resolved_shifts:
  assumes ok: "rows_ok s" and run: "create_resolved_product low fold_case storage inp s = Inr (p, s')"
  shows "shifts (\<lambda>_. 0) s s'"
proof -
  obtain category s1 c s2 q where 1: "(case rp_path inp of None \<Rightarrow> ret_tx (rp_category inp)
       | Some path \<Rightarrow> ensure_category_path low storage path) s = Inr (category, s1)"
    and 2: "describe_product fold_case category inp s1 = Inr (c, s2)"
    and 3: "create_product storage \<lparr>np_name = trim_space (rp_name inp), np_category = category, np_catalog = Some c,
         np_item_type = rp_item_type inp, np_days = rp_days inp, np_min_stock = rp_min_stock inp,
         np_image = rp_image inp, np_icon = rp_icon inp\<rparr> s2 = Inr (q, s')"
    using run by (auto simp: create_resolved_product_def bind_tx_iff ret_tx_iff)
  have sh1: "shifts (\<lambda>_. 0) s s1"
    using 1 by (auto simp: ret_tx_iff intro: shifts_refl [OF ok] ensure_path_shifts [OF ok] split: option.splits)
  note sh2 = describe_shifts [OF shifts_rows [OF sh1] 2]
  from shifts_trans [OF shifts_trans [OF sh1 sh2] create_product_shifts [OF shifts_rows [OF sh2] 3]] show ?thesis by simp
qed

lemma resolve_product_shifts:
  assumes ok: "rows_ok s" and run: "resolve_product low fold_case storage inp s = Inr (p, s')"
  shows "shifts (\<lambda>_. 0) s s'"
  using run by (auto simp: resolve_product_def seq_tx_iff bind_tx_iff ret_tx_iff require_product_iff
      intro: shifts_refl [OF ok] resolved_shifts [OF ok] split: option.splits)

lemma resolve_stock_shifts:
  assumes ok: "rows_ok s" and run: "resolve_stock storage user inp p s = Inr (b, s')"
  shows "shifts (\<lambda>_. 0) s s'"
  using run by (auto simp: resolve_stock_def bind_tx_iff ret_tx_iff fail_tx_iff
      intro: shifts_refl [OF ok] create_shifts [OF ok] split: option.splits if_split_asm)

lemma resolve_shifts:
  assumes ok: "rows_ok s" and run: "resolve_shopping_list_item low fold_case storage i inp user s = Inr (r, s')"
  shows "shifts (\<lambda>_. 0) s s'"
proof (rule resolve_steps [OF run])
  fix it product created batch s1 s2 s3
  assume 1: "resolve_product low fold_case storage inp s = Inr ((product, created), s1)"
    and 2: "resolve_stock storage user inp product s1 = Inr (batch, s2)"
    and 3: "s3 = s2\<lparr>shopping_items := tbl_upd i (\<lambda>r. r\<lparr>si_status := ItemResolved, si_matched := product,
        si_quantity := Some (rl_quantity inp)\<rparr>) (shopping_items s2)\<rparr>" and 4: "core s' = core s3"
  note sh1 = resolve_product_shifts [OF ok 1]
  note sh2 = resolve_stock_shifts [OF shifts_rows [OF sh1] 2]
  have sh3: "shifts (\<lambda>_. 0) s2 s3" by (rule shifts_other [OF shifts_rows [OF sh2]]) (simp_all add: 3)
  have "shifts (\<lambda>_. 0) s3 s'" by (rule shifts_other [OF shifts_rows [OF sh3]]) (use core_eqD [OF 4] in simp_all)
  from shifts_trans [OF shifts_trans [OF shifts_trans [OF sh1 sh2] sh3] this] show ?thesis by simp
qed

interpretation resolve_op: ledger_operation
  "\<lambda>(low, fold_case, storage, i, inp, user). resolve_shopping_list_item low fold_case storage i inp user"
  by unfold_locales (auto intro: resolve_shifts)

lemma resolve_stock_ledger:
  assumes "resolve_stock storage user inp product s = Inr (b, s')" and "0 \<le> rl_quantity inp"
  shows "ledger_total q s' = ledger_total q s + (if product = Some q then rl_quantity inp else 0)
    \<and> (b = None \<longleftrightarrow> rl_quantity inp = 0)"
proof (cases "rl_quantity inp > 0")
  case True
  with assms(1) obtain p l v where "product = Some p"
    and c: "create_batch storage \<lparr>nb_product = p, nb_location = l, nb_quantity = rl_quantity inp,
              nb_expiration = None, nb_source = None, nb_reason = Some ReasonPurchase, nb_created_by = user,
              nb_label = None, nb_type = None\<rparr> s = Inr (v, s')" "b = Some (bv_id v)"
    by (auto simp: resolve_stock_def bind_tx_iff ret_tx_iff fail_tx_iff split: option.splits)
  with create_ledger [OF c(1), of q] True show ?thesis by (simp add: at_product_def)
next
  case False
  with assms show ?thesis by (simp add: resolve_stock_def ret_tx_iff)
qed

text \<open>
  C34. Resolving a line: that line alone is marked resolved, with the product and the quantity that were
  confirmed; the ledger and the shelf of that product rise by the quantity, every other product's stay,
  and a dismissal moves nothing; the line can then be neither resolved nor matched again, so a second
  submit doubles nothing.
\<close>

theorem resolve_shopping_list_item_correct:
  assumes inv: "stock_inv s"
    and run: "resolve_shopping_list_item low fold_case storage i inp user s = Inr (r, s')"
  shows "\<exists>product. (rl_product inp \<noteq> None \<longrightarrow> product = rl_product inp)
    \<and> (rl_product inp = None \<and> rl_new inp = None \<longrightarrow> product = None)
    \<and> shopping_lists s' = shopping_lists s
    \<and> shopping_items s' = tbl_upd i (\<lambda>r. r\<lparr>si_status := ItemResolved, si_matched := product,
        si_quantity := Some (rl_quantity inp)\<rparr>) (shopping_items s)
    \<and> stock_inv s' \<and> (\<forall>q. ledger_total q s' = stock_total q s'
        \<and> stock_total q s' = stock_total q s + (if product = Some q then rl_quantity inp else 0))
    \<and> (rr_batch r = None \<longleftrightarrow> rl_quantity inp = 0)
    \<and> (valid_line again \<longrightarrow>
         in_tx (resolve_shopping_list_item low fold_case storage i again user') s' = (Inl ErrConflict, s'))
    \<and> in_tx (rematch_shopping_list_item storage i raw status matched) s' = (Inl ErrConflict, s')"
proof (rule resolve_steps [OF run])
  fix it product created batch s1 s2 s3
  assume v: "valid_line inp" and it: "find_item storage i s = Some it"
    and 1: "resolve_product low fold_case storage inp s = Inr ((product, created), s1)"
    and 2: "resolve_stock storage user inp product s1 = Inr (batch, s2)"
    and 3: "s3 = s2\<lparr>shopping_items := tbl_upd i (\<lambda>r. r\<lparr>si_status := ItemResolved, si_matched := product,
        si_quantity := Some (rl_quantity inp)\<rparr>) (shopping_items s2)\<rparr>" and 4: "core s' = core s3" and r: "rr_batch r = batch"
  have inv': "stock_inv s'"
    using resolve_op.commit_keeps [of s "(low, fold_case, storage, i, inp, user)"] inv run by simp
  have q: "0 \<le> rl_quantity inp" using v by (simp add: valid_line_def)
  have "shopping_view s2 = shopping_view s"
    using lines.quietD [OF lines.quiet_resolve_product 1] lines.quietD [OF lines.quiet_resolve_stock 2] by simp
  then have view: "shopping_lists s' = shopping_lists s" "shopping_items s' = tbl_upd i (\<lambda>r. r\<lparr>si_status := ItemResolved,
      si_matched := product, si_quantity := Some (rl_quantity inp)\<rparr>) (shopping_items s)"
    using core_eqD [OF 4] 3 by (simp_all add: shopping_view_def)
  have "logs s1 = logs s" using stock_rows.quietD [OF stock_rows.quiet_resolve_product 1] by (simp add: stock_view_def)
  then have led: "ledger_total x s' = ledger_total x s + (if product = Some x then rl_quantity inp else 0)" for x
    using resolve_stock_ledger [OF 2 q, of x] core_eqD [OF 4] 3 by (simp add: ledger_total_def)
  obtain it' where it': "find_item storage i s' = Some it'" "si_status it' = ItemResolved"
    using it view by (auto simp: find_item_def split: option.splits if_splits)
  have "rl_product inp \<noteq> None \<longrightarrow> product = rl_product inp" "rl_product inp = None \<and> rl_new inp = None \<longrightarrow> product = None"
    using 1 by (auto simp: resolve_product_def seq_tx_iff ret_tx_iff split: option.splits)
  moreover have "valid_line again \<longrightarrow>
      in_tx (resolve_shopping_list_item low fold_case storage i again user') s' = (Inl ErrConflict, s')"
    using it' by (simp add: in_tx_def resolve_shopping_list_item_def tx_defs)
  moreover have "in_tx (rematch_shopping_list_item storage i raw status matched) s' = (Inl ErrConflict, s')"
    using it' by (simp add: in_tx_def rematch_shopping_list_item_def tx_defs)
  moreover have "rr_batch r = None \<longleftrightarrow> rl_quantity inp = 0" using resolve_stock_ledger [OF 2 q] r by blast
  moreover have "ledger_total q s' = stock_total q s'
      \<and> stock_total q s' = stock_total q s + (if product = Some q then rl_quantity inp else 0)" for q
    using led [of q] inv inv' by (simp add: stock_inv_def)
  ultimately show ?thesis using view inv' by (intro exI [of _ product]) blast
qed

text \<open>The demonstration storage with one line that asks for milk.\<close>

definition line_db :: db where
  "line_db = demo_db\<lparr>shopping_lists := [(70, \<lparr>sl_storage = 2, sl_source = SourceText, sl_by = None, sl_created = 0\<rparr>)],
     shopping_items := [(71, \<lparr>si_list = 70, si_text = ''milk'', si_status = ItemExactMatch, si_matched = Some 5,
       si_quantity = None, si_created = 0\<rparr>)]\<rparr>"

definition buy_four :: resolve_line where
  "buy_four = \<lparr>rl_product = Some 5, rl_new = None, rl_quantity = 4, rl_location = Some 11\<rparr>"

lemma line_db_inv: "stock_inv line_db"
  using shifts_keep [OF demo_stock_inv shifts_other [OF stock_inv_rows [OF demo_stock_inv]]] by (simp add: line_db_def)

lemma line_runs: "\<exists>r s'. resolve_shopping_list_item id id 2 71 buy_four None line_db = Inr (r, s')"
  by (simp add: resolve_shopping_list_item_def buy_four_def valid_line_def find_item_def resolve_product_def resolve_stock_def
      create_batch_def resolved_expiration_def expiry_rules_for_def update_item_iff Let_def tx_iff line_db_def
      demo_defs in_storage_def tree_row_def int4_def user_exists_def tbl_has_def map_of_tbl_ins
      bump_for_ledger_reason_def require_product_iff)

theorem resolve_shopping_list_item_correct_witness:
  "\<exists>r s'. resolve_shopping_list_item id id 2 71 buy_four None line_db = Inr (r, s') \<and> stock_total 5 s' = 7
     \<and> in_tx (resolve_shopping_list_item id id 2 71 buy_four None) s' = (Inl ErrConflict, s')"
proof -
  obtain r s' where run: "resolve_shopping_list_item id id 2 71 buy_four None line_db = Inr (r, s')" using line_runs by blast
  have "valid_line buy_four" by (simp add: valid_line_def buy_four_def)
  with resolve_shopping_list_item_correct [OF line_db_inv run, of buy_four None "[]" ItemNew None]
  have "in_tx (resolve_shopping_list_item id id 2 71 buy_four None) s' = (Inl ErrConflict, s')
    \<and> stock_total 5 s' = stock_total 5 line_db + 4" by (auto simp: buy_four_def)
  moreover have "stock_total 5 line_db = 3" by (simp add: stock_total_def line_db_def demo_defs)
  ultimately show ?thesis using run by auto
qed

section \<open>Creating lists\<close>

text \<open>The lines of a new list are written in the order submitted, and nothing else is written.\<close>

definition stock_tables :: "db \<Rightarrow> batch table \<times> log_row table \<times> product table \<times> location table \<times> container table \<times> job table" where
  "stock_tables s = (batches s, logs s, products s, locations s, containers s, jobs s)"

lemma insert_items:
  "fold_tx (insert_item storage l) items acc s = Inr (out, s') \<Longrightarrow>
     stock_tables s' = stock_tables s \<and> map (si_text \<circ> snd) out = map (si_text \<circ> snd) acc @ map ni_text items"
proof (induction items arbitrary: acc s)
  case Nil
  then show ?case by (simp add: ret_tx_iff)
next
  case (Cons it items)
  then obtain acc1 s1 where 1: "insert_item storage l it acc s = Inr (acc1, s1)"
    and 2: "fold_tx (insert_item storage l) items acc1 s1 = Inr (out, s')" by (auto simp: bind_tx_iff)
  have "stock_tables s1 = stock_tables s \<and> map (si_text \<circ> snd) acc1 = map (si_text \<circ> snd) acc @ [ni_text it]"
    using 1 by (auto simp: insert_item_def insert_item_row_def require_matched_def require_product_iff seq_tx_iff bind_tx_iff
        new_id_iff get_tx_iff check_tx_iff mod_tx_iff ret_tx_iff Let_def stock_tables_def split: option.splits)
  with Cons.IH [OF 2] show ?case by (simp add: o_def)
qed

lemma insert_list_frame:
  "insert_shopping_list l storage source user items s = Inr (out, s') \<Longrightarrow>
     stock_tables s' = stock_tables s \<and> map (si_text \<circ> snd) (snd out) = map ni_text items"
  by (auto simp: insert_shopping_list_def seq_tx_iff bind_tx_iff get_tx_iff check_tx_iff mod_tx_iff ret_tx_iff Let_def
      stock_tables_def dest!: insert_items)

lemma create_list_shifts:
  assumes ok: "rows_ok s" and run: "create_shopping_list storage source user items s = Inr (out, s')"
  shows "shifts (\<lambda>_. 0) s s'"
  using run by (intro shifts_other [OF ok])
    (auto simp: create_shopping_list_def seq_tx_iff guard_tx_iff bind_tx_iff new_id_iff stock_tables_def dest!: insert_list_frame)

lemma list_from_job_shifts:
  assumes ok: "rows_ok s" and run: "create_shopping_list_from_job storage i user items s = Inr (out, s')"
  shows "shifts (\<lambda>_. 0) s s'"
  using run by (intro shifts_other [OF ok])
    (auto simp: create_shopping_list_from_job_def seq_tx_iff guard_tx_iff bind_tx_iff row_tx_iff new_id_iff mod_tx_iff
      ret_tx_iff stock_tables_def dest!: insert_list_frame)

interpretation list_op: ledger_operation "\<lambda>(storage, source, user, items). create_shopping_list storage source user items"
  by unfold_locales (auto intro: create_list_shifts)

interpretation list_from_job_op: ledger_operation "\<lambda>(storage, i, user, items). create_shopping_list_from_job storage i user items"
  by unfold_locales (auto intro: list_from_job_shifts)

text \<open>A photo job becomes a list at most once: the job is gone with the commit.\<close>

lemma list_from_job_once:
  assumes d: "distinct (keys (jobs s))" and run: "create_shopping_list_from_job storage i user items s = Inr (out, s')"
    and again: "items' \<noteq> []" "idgen s' \<noteq> []"
  shows "find_job storage i s' = None
    \<and> in_tx (create_shopping_list_from_job storage i user' items') s' = (Inl ErrNotFound, s')"
proof -
  obtain l s1 s2 where "new_id s = Inr (l, s1)" and 2: "insert_shopping_list l storage SourcePhoto user items s1 = Inr (fst out, s2)"
    and s': "s' = s2\<lparr>jobs := tbl_del (\<lambda>k _. k = i) (jobs s2)\<rparr>"
    using run by (auto simp: create_shopping_list_from_job_def seq_tx_iff guard_tx_iff bind_tx_iff row_tx_iff mod_tx_iff ret_tx_iff)
  then have "jobs s2 = jobs s" using insert_list_frame [OF 2] by (auto simp: new_id_iff stock_tables_def)
  then have gone: "find_job storage i s' = None"
    using d by (simp add: find_job_def s' map_of_tbl_del split: option.split)
  obtain j "is" where "idgen s' = j # is" using again by (cases "idgen s'") auto
  with gone again show ?thesis
    by (simp add: in_tx_def create_shopping_list_from_job_def tx_defs new_id_def find_job_def)
qed

end
