(* ===== verification/Ingestion.thy ===== *)
theory Ingestion
  imports ShoppingLists
begin

text \<open>
  \<open>internal/store/ingestion.go\<close>: a reviewed shelf photo becomes stock. Every accepted row names a product
  or describes a new one, a shelf or a path of new shelves, and becomes one batch; the job is consumed
  in the same transaction, so a proposal is applied at most once. Case foldings are parameters: of the
  database for shelf names, of the process for product names.
\<close>

section \<open>Decisions\<close>

record new_ingest_product =
  ip_name :: string
  ip_category :: "uuid option"
  ip_item_type :: "item_type option"
  ip_image :: "string option"

record new_ingest_location =
  il_parent :: "uuid option"
  il_names :: "string list"

record ingest_decision =
  id_row :: string
  id_accept :: bool
  id_product :: "uuid option"
  id_new :: "new_ingest_product option"
  id_quantity :: int
  id_location :: "uuid option"
  id_new_location :: "new_ingest_location option"
  id_edited :: bool
  id_expiration :: "date option"
  id_label :: "string option"
  id_type :: "string option"

record ingest_result =
  ir_batches :: "uuid list"
  ir_products :: "uuid list"
  ir_locations :: nat

text \<open>The map of the sure proposals; a row id that occurs twice keeps the later one.\<close>

definition proposed_exact_matches :: "proposal_row list \<Rightarrow> (string \<times> uuid) list" where
  "proposed_exact_matches rows = rev (List.map_filter (\<lambda>r. map_option (Pair (pw_row r)) (pw_exact r)) rows)"

section \<open>Products and shelves\<close>

definition category_path_for :: "uuid \<Rightarrow> uuid option \<Rightarrow> string option dbtx" where
  "category_path_for storage category = (case category of
      None \<Rightarrow> ret_tx None
    | Some c \<Rightarrow> seq_tx (require_same_storage TreeCategories storage c)
        (bind_tx (get_tx (category_path_of c)) (\<lambda>path. ret_tx (Some path))))"

definition resolve_ingest_product ::
    "(char \<Rightarrow> char) \<Rightarrow> uuid \<Rightarrow> ingest_decision \<Rightarrow> (string \<times> uuid) list \<Rightarrow> (uuid \<times> bool \<times> (string \<times> uuid) list) dbtx" where
  "resolve_ingest_product fold_case storage d created = (case id_product d of
      Some p \<Rightarrow> seq_tx (require_product_in_storage storage p) (ret_tx (p, False, created))
    | None \<Rightarrow> (case id_new d of
          None \<Rightarrow> fail_tx ErrValidation
        | Some n \<Rightarrow>
            let key = normalize_query fold_case (ip_name n) in
            (case map_of created key of
               Some p \<Rightarrow> ret_tx (p, False, created)
             | None \<Rightarrow>
                 bind_tx (category_path_for storage (ip_category n)) (\<lambda>path.
                 bind_tx (insert_catalog_product fold_case \<lparr>nk_display = ip_name n, nk_path = path,
                     nk_item_type = ip_item_type n, nk_image = None, nk_icon = None, nk_days = None, nk_shown = None\<rparr>) (\<lambda>c.
                 bind_tx (create_product storage \<lparr>np_name = ip_name n, np_category = ip_category n, np_catalog = Some (fst c),
                     np_item_type = ip_item_type n, np_days = None, np_min_stock = 0, np_image = ip_image n,
                     np_icon = None\<rparr>) (\<lambda>p.
                   ret_tx (fst p, True, (key, fst p) # created)))))))"

definition find_location :: "(char \<Rightarrow> char) \<Rightarrow> uuid \<Rightarrow> uuid option \<Rightarrow> string \<Rightarrow> db \<Rightarrow> uuid option" where
  "find_location low storage parent name s = map_option fst (List.find (\<lambda>_. True)
     (sort_key (\<lambda>(i, l). (lo_created l, i)) (tbl_select (\<lambda>_ l. lo_storage l = storage \<and> lo_parent l = parent
        \<and> map low (lo_name l) = map low name) (locations s))))"

definition ensure_location_step ::
    "(char \<Rightarrow> char) \<Rightarrow> uuid \<Rightarrow> string \<Rightarrow> uuid option \<times> nat \<Rightarrow> (uuid option \<times> nat) dbtx" where
  "ensure_location_step low storage raw acc =
     (let name = trim_space raw in
      seq_tx (guard_tx (name \<noteq> []) ErrValidation)
     (bind_tx (get_tx (find_location low storage (fst acc) name)) (\<lambda>found. case found of
          Some i \<Rightarrow> ret_tx (Some i, snd acc)
        | None \<Rightarrow> bind_tx new_id (\<lambda>i.
            bind_tx (insert_location storage i \<lparr>nl_parent = fst acc, nl_name = name, nl_description = None\<rparr>) (\<lambda>loc.
              ret_tx (Some (fst loc), Suc (snd acc)))))))"

definition ensure_location_path :: "(char \<Rightarrow> char) \<Rightarrow> uuid \<Rightarrow> new_ingest_location \<Rightarrow> (uuid option \<times> nat) dbtx" where
  "ensure_location_path low storage inp =
     seq_tx (guard_tx (il_names inp \<noteq> []) ErrValidation)
    (seq_tx (case il_parent inp of None \<Rightarrow> ret_tx () | Some p \<Rightarrow> require_same_storage TreeLocations storage p)
       (fold_tx (ensure_location_step low storage) (il_names inp) (il_parent inp, 0)))"

section \<open>The confirm\<close>

record ingest_state =
  is_result :: ingest_result
  is_created :: "(string \<times> uuid) list"

definition ingest_location ::
    "(char \<Rightarrow> char) \<Rightarrow> uuid \<Rightarrow> ingest_decision \<Rightarrow> (uuid option \<times> nat) dbtx" where
  "ingest_location low storage d = (case id_new_location d of
      None \<Rightarrow> ret_tx (id_location d, 0)
    | Some l \<Rightarrow> ensure_location_path low storage l)"

definition ingest_batch :: "uuid \<Rightarrow> uuid option \<Rightarrow> ingest_decision \<Rightarrow> uuid \<Rightarrow> uuid \<Rightarrow> new_batch" where
  "ingest_batch storage user d product l = \<lparr>nb_product = product, nb_location = l, nb_quantity = id_quantity d,
     nb_expiration = id_expiration d, nb_source = Some (if id_edited d then ExpirationUser else ExpirationDerived),
     nb_reason = Some ReasonVisionIngestion, nb_created_by = user, nb_label = id_label d, nb_type = id_type d\<rparr>"

text \<open>The correction of a sure proposal, which earns more than accepting it.\<close>

definition ingest_correction ::
    "uuid \<Rightarrow> uuid option \<Rightarrow> (string \<times> uuid) list \<Rightarrow> ingest_decision \<Rightarrow> uuid \<Rightarrow> unit dbtx" where
  "ingest_correction storage user proposed d product = (case user of
      None \<Rightarrow> ret_tx ()
    | Some u \<Rightarrow> (case map_of proposed (id_row d) of
          None \<Rightarrow> ret_tx ()
        | Some p \<Rightarrow> when_tx (p \<noteq> product) (record_contribution storage u AICorrection (Some product) None)))"

definition ingest_row ::
    "(char \<Rightarrow> char) \<Rightarrow> (char \<Rightarrow> char) \<Rightarrow> uuid \<Rightarrow> uuid option \<Rightarrow> (string \<times> uuid) list \<Rightarrow> ingest_decision \<Rightarrow>
     ingest_state \<Rightarrow> ingest_state dbtx" where
  "ingest_row low fold_case storage user proposed d acc =
     (if \<not> id_accept d then ret_tx acc
      else bind_tx (resolve_ingest_product fold_case storage d (is_created acc)) (\<lambda>(product, new, created).
           seq_tx (ingest_correction storage user proposed d product)
          (bind_tx (ingest_location low storage d) (\<lambda>(location, n).
           case location of
             None \<Rightarrow> fail_tx ErrValidation
           | Some l \<Rightarrow>
               bind_tx (create_batch storage (ingest_batch storage user d product l)) (\<lambda>v.
                 ret_tx \<lparr>is_result = \<lparr>ir_batches = ir_batches (is_result acc) @ [bv_id v],
                     ir_products = ir_products (is_result acc) @ (if new then [product] else []),
                     ir_locations = ir_locations (is_result acc) + n\<rparr>, is_created = created\<rparr>)))))"

text \<open>The first shelf photo that became stock unlocks an achievement of the reviewer.\<close>

definition first_shelf_unlock :: "uuid \<Rightarrow> uuid option \<Rightarrow> job_kind \<Rightarrow> uuid list \<Rightarrow> unit dbtx" where
  "first_shelf_unlock storage user kind filed = (case user of
      None \<Rightarrow> ret_tx ()
    | Some u \<Rightarrow> when_tx (kind = JobShelfIngestion \<and> filed \<noteq> []) (unlock_achievement storage u (Inl FirstShelf)))"

definition confirm_ingestion ::
    "(char \<Rightarrow> char) \<Rightarrow> (char \<Rightarrow> char) \<Rightarrow> uuid \<Rightarrow> uuid \<Rightarrow> uuid option \<Rightarrow> ingest_decision list \<Rightarrow> ingest_result dbtx" where
  "confirm_ingestion low fold_case storage job user ds =
     bind_tx (row_tx ErrNotFound (find_job storage job)) (\<lambda>j.
     seq_tx (guard_tx (jb_status j = JobDone) ErrConflict)
    (seq_tx (match_row_ids (jb_payload j) (map id_row ds))
    (bind_tx (row_tx ErrInternal (\<lambda>_. map_option proposed_exact_matches (jb_payload j))) (\<lambda>proposed.
     bind_tx (fold_tx (ingest_row low fold_case storage user proposed) ds
         \<lparr>is_result = \<lparr>ir_batches = [], ir_products = [], ir_locations = 0\<rparr>, is_created = []\<rparr>) (\<lambda>out.
     seq_tx (first_shelf_unlock storage user (jb_kind j) (ir_batches (is_result out)))
    (seq_tx (consume_job storage job)
       (ret_tx (is_result out))))))))"

section \<open>Row by row\<close>

lemma first_shelf_silent: "silent (first_shelf_unlock storage user kind filed)"
  unfolding first_shelf_unlock_def by (intro silent_intros)

lemma correction_silent: "silent (ingest_correction storage user proposed d product)"
  unfolding ingest_correction_def by (intro silent_intros)

context master_view
begin

lemma quiet_resolve_ingest: "quiet (resolve_ingest_product fold_case storage d created)"
  unfolding resolve_ingest_product_def category_path_for_def require_product_in_storage_def require_same_storage_def Let_def
  by (auto intro!: quiet_bind quiet_seq quiet_insert_catalog quiet_create_product quiet_reads split: option.split)

lemma quiet_location_step: "quiet (ensure_location_step low storage raw acc)"
  unfolding ensure_location_step_def Let_def
  by (auto intro!: quiet_bind quiet_seq quiet_insert_location quiet_reads quiet_silent [OF silent_new_id] split: option.split)

lemma quiet_ingest_location: "quiet (ingest_location low storage d)"
  unfolding ingest_location_def ensure_location_path_def require_same_storage_def
  by (auto intro!: quiet_seq quiet_fold quiet_location_step quiet_reads split: option.split)

end

lemma location_step_shifts:
  assumes ok: "rows_ok s" and run: "ensure_location_step low storage raw acc s = Inr (r, s')"
  shows "shifts (\<lambda>_. 0) s s' \<and> products s' = products s"
proof (cases "find_location low storage (fst acc) (trim_space raw) s")
  case (Some i)
  with run show ?thesis
    by (auto simp: ensure_location_step_def Let_def seq_tx_iff guard_tx_iff bind_tx_iff get_tx_iff ret_tx_iff shifts_refl [OF ok])
next
  case None
  with run obtain i "is" row where new: "\<not> tbl_has i (locations s)"
    and s': "s' = s\<lparr>idgen := is, locations := tbl_ins i row (locations s)\<rparr>"
    by (auto simp: ensure_location_step_def insert_location_def resolve_parent_iff Let_def seq_tx_iff guard_tx_iff bind_tx_iff
        get_tx_iff ret_tx_iff new_id_iff check_tx_iff mod_tx_iff)
  have 1: "shifts (\<lambda>_. 0) s (s\<lparr>idgen := is\<rparr>)" by (rule shifts_other [OF ok]) simp_all
  have "shifts (\<lambda>_. 0) (s\<lparr>idgen := is\<rparr>) s'"
  proof (rule shifts_locations [OF shifts_rows [OF 1]])
    show "s' = s\<lparr>idgen := is\<rparr>\<lparr>locations := tbl_ins i row (locations s)\<rparr>" using s' by simp
    show "distinct (keys (tbl_ins i row (locations s)))" using ok new by (simp add: rows_ok_def tbl_has_keys)
    show "\<exists>l'. map_of (tbl_ins i row (locations s)) k = Some l' \<and> lo_storage l' = lo_storage l"
      if "map_of (locations (s\<lparr>idgen := is\<rparr>)) k = Some l" for k l
      using that new by (auto simp: map_of_insert_fresh tbl_has_def)
  qed
  from shifts_trans [OF 1 this] s' show ?thesis by simp
qed

lemma location_path_shifts:
  "rows_ok s \<Longrightarrow> fold_tx (ensure_location_step low storage) names acc s = Inr (r, s') \<Longrightarrow>
   shifts (\<lambda>_. 0) s s' \<and> products s' = products s"
proof (induction names arbitrary: acc s)
  case Nil
  then show ?case by (simp add: ret_tx_iff shifts_refl)
next
  case (Cons n names)
  then obtain a1 s1 where 1: "ensure_location_step low storage n acc s = Inr (a1, s1)"
    and 2: "fold_tx (ensure_location_step low storage) names a1 s1 = Inr (r, s')" by (auto simp: bind_tx_iff)
  note e = location_step_shifts [OF Cons.prems(1) 1]
  from Cons.IH [OF shifts_rows [OF conjunct1 [OF e]] 2] shifts_trans [OF conjunct1 [OF e]] e show ?case by fastforce
qed

lemma ingest_location_shifts:
  "rows_ok s \<Longrightarrow> ingest_location low storage d s = Inr (r, s') \<Longrightarrow> shifts (\<lambda>_. 0) s s' \<and> products s' = products s"
  by (auto simp: ingest_location_def ensure_location_path_def require_same_storage_iff ret_tx_iff seq_tx_iff guard_tx_iff
      shifts_refl split: option.splits dest: location_path_shifts)

text \<open>What is resolved: the named product, the one this confirm created for that name, or a fresh one.\<close>

lemma resolve_ingest_effect:
  assumes ok: "rows_ok s" and run: "resolve_ingest_product fold_case storage d created s = Inr ((p, new, created'), s')"
  shows "shifts (\<lambda>_. 0) s s' \<and> logs s' = logs s
    \<and> (\<forall>q. tbl_has q (products s) \<longrightarrow> tbl_has q (products s'))
    \<and> (case id_product d of
         Some i \<Rightarrow> p = i \<and> \<not> new \<and> created' = created
       | None \<Rightarrow> \<exists>n. id_new d = Some n \<and> (let key = normalize_query fold_case (ip_name n) in
           (case map_of created key of
              Some i \<Rightarrow> p = i \<and> \<not> new \<and> created' = created
            | None \<Rightarrow> \<not> tbl_has p (products s) \<and> new \<and> created' = (key, p) # created)))"
proof (cases "id_product d")
  case (Some i)
  with run show ?thesis
    by (auto simp: resolve_ingest_product_def seq_tx_iff ret_tx_iff require_product_iff shifts_refl [OF ok])
next
  case none: None
  with run obtain n where n: "id_new d = Some n"
    by (cases "id_new d") (auto simp: resolve_ingest_product_def fail_tx_iff)
  let ?key = "normalize_query fold_case (ip_name n)"
  show ?thesis
  proof (cases "map_of created ?key")
    case (Some i)
    with run none n show ?thesis by (simp add: resolve_ingest_product_def ret_tx_iff shifts_refl [OF ok])
  next
    case None
    with run none n obtain path c s1 q where path: "category_path_for storage (ip_category n) s = Inr (path, s)"
      and 1: "insert_catalog_product fold_case \<lparr>nk_display = ip_name n, nk_path = path, nk_item_type = ip_item_type n,
          nk_image = None, nk_icon = None, nk_days = None, nk_shown = None\<rparr> s = Inr (c, s1)"
      and 2: "create_product storage \<lparr>np_name = ip_name n, np_category = ip_category n, np_catalog = Some (fst c),
          np_item_type = ip_item_type n, np_days = None, np_min_stock = 0, np_image = ip_image n, np_icon = None\<rparr> s1
          = Inr (q, s')"
      and p: "p = fst q" "new" "created' = (?key, p) # created"
      by (auto simp: resolve_ingest_product_def category_path_for_def Let_def bind_tx_iff seq_tx_iff ret_tx_iff get_tx_iff
          require_same_storage_iff split: option.splits)
    note sh1 = insert_catalog_shifts [OF ok 1]
    have ps: "products s1 = products s" using 1 by (rule insert_catalog_steps) simp_all
    have "\<not> tbl_has p (products s1)"
      using 2 p(1) by (auto simp: create_product_def insert_product_def require_category_iff tx_iff)
    moreover have grow: "tbl_has x (products s1) \<Longrightarrow> tbl_has x (products s')" for x
      using 2 by (auto simp: create_product_def insert_product_def require_category_iff tx_iff tbl_has_keys)
    moreover have "logs s' = logs s"
      using stock_rows.quietD [OF stock_rows.quiet_resolve_ingest run] by (simp add: stock_view_def)
    moreover have "shifts (\<lambda>_. 0) s s'"
      using shifts_trans [OF sh1 create_product_shifts [OF shifts_rows [OF sh1] 2]] by simp
    ultimately show ?thesis using none n None p ps by (simp add: Let_def)
  qed
qed

lemma ingest_row_effect:
  assumes ok: "rows_ok s" and run: "ingest_row low fold_case storage user proposed d acc s = Inr (acc', s')"
    and accept: "id_accept d"
  obtains p new s1 v where "resolve_ingest_product fold_case storage d (is_created acc) s = Inr ((p, new, is_created acc'), s1)"
    "shifts (\<lambda>_. 0) s s'" "products s' = products s1" "jobs s' = jobs s"
    "\<forall>q. ledger_total q s' = ledger_total q s + at_product p (id_quantity d) q"
    "ir_batches (is_result acc') = ir_batches (is_result acc) @ [v]"
    "ir_products (is_result acc') = ir_products (is_result acc) @ (if new then [p] else [])"
proof -
  obtain p new created s1 s2 loc n s3 l v where 1: "resolve_ingest_product fold_case storage d (is_created acc) s = Inr ((p, new, created), s1)"
    and 2: "ingest_correction storage user proposed d p s1 = Inr ((), s2)"
    and 3: "ingest_location low storage d s2 = Inr ((loc, n), s3)"
    and 4: "create_batch storage (ingest_batch storage user d p l) s3 = Inr (v, s')"
    and acc': "acc' = \<lparr>is_result = \<lparr>ir_batches = ir_batches (is_result acc) @ [bv_id v],
                     ir_products = ir_products (is_result acc) @ (if new then [p] else []),
                     ir_locations = ir_locations (is_result acc) + n\<rparr>, is_created = created\<rparr>"
    using run accept by (auto simp: ingest_row_def bind_tx_iff seq_tx_iff fail_tx_iff ret_tx_iff split: option.splits)
  note e1 = resolve_ingest_effect [OF ok 1]
  note sh1 = conjunct1 [OF e1]
  note c2 = silentD [OF correction_silent 2]
  note sh2 = shifts_silent [OF correction_silent 2 shifts_rows [OF sh1]]
  note e3 = ingest_location_shifts [OF shifts_rows [OF sh2] 3]
  note sh4 = create_shifts [OF shifts_rows [OF conjunct1 [OF e3]] 4]
  have sh: "shifts (\<lambda>_. 0) s s'"
    using shifts_trans [OF shifts_trans [OF shifts_trans [OF sh1 sh2] conjunct1 [OF e3]] sh4] by simp
  have "jobs s' = jobs s"
    using job_rows.quietD [OF job_rows.quiet_resolve_ingest 1] core_eqD [OF c2]
      job_rows.quietD [OF job_rows.quiet_ingest_location 3] job_rows.quietD [OF job_rows.quiet_create_batch 4] by simp
  moreover have "logs s3 = logs s"
    using stock_rows.quietD [OF stock_rows.quiet_resolve_ingest 1] core_eqD [OF c2]
      stock_rows.quietD [OF stock_rows.quiet_ingest_location 3] by (simp add: stock_view_def)
  then have "\<forall>q. ledger_total q s' = ledger_total q s + at_product p (id_quantity d) q"
    using create_ledger [OF 4] by (simp add: ledger_total_def ingest_batch_def)
  moreover have "products s' = products s1"
    using create_ledger [OF 4] e3 core_eqD [OF c2] by simp
  ultimately show thesis using 1 sh acc' by (intro that) simp_all
qed

text \<open>The name under which an accepted row asks for a product that is not there yet.\<close>

definition new_key :: "(char \<Rightarrow> char) \<Rightarrow> ingest_decision \<Rightarrow> string option" where
  "new_key fold_case d = (if id_accept d \<and> id_product d = None
     then map_option (\<lambda>n. normalize_query fold_case (ip_name n)) (id_new d) else None)"

definition ingested_of :: "uuid \<Rightarrow> ingest_decision list \<Rightarrow> int" where
  "ingested_of q ds = sum_list (map (\<lambda>d. if id_accept d \<and> id_product d = Some q then id_quantity d else 0) ds)"

lemma ingest_rows:
  assumes "fold_tx (ingest_row low fold_case storage user proposed) ds acc s = Inr (out, s')" and "rows_ok s"
    and "\<And>q. tbl_has q (products s0) \<Longrightarrow> tbl_has q (products s)"
    and "\<And>k p. (k, p) \<in> set (is_created acc) \<Longrightarrow> \<not> tbl_has p (products s0)"
    and "distinct (map fst (is_created acc))" and "length (ir_products (is_result acc)) = length (is_created acc)"
  shows "shifts (\<lambda>_. 0) s s' \<and> jobs s' = jobs s
    \<and> (\<forall>q. tbl_has q (products s0) \<longrightarrow> ledger_total q s' = ledger_total q s + ingested_of q ds)
    \<and> length (ir_batches (is_result out)) = length (ir_batches (is_result acc)) + length (filter id_accept ds)
    \<and> distinct (map fst (is_created out)) \<and> length (ir_products (is_result out)) = length (is_created out)
    \<and> set (map fst (is_created out)) = set (map fst (is_created acc)) \<union> set (List.map_filter (new_key fold_case) ds)"
  using assms
proof (induction ds arbitrary: acc s)
  case Nil
  then show ?case by (simp add: ret_tx_iff shifts_refl ingested_of_def map_filter_simps)
next
  case (Cons d ds)
  then obtain acc1 s1 where 1: "ingest_row low fold_case storage user proposed d acc s = Inr (acc1, s1)"
    and 2: "fold_tx (ingest_row low fold_case storage user proposed) ds acc1 s1 = Inr (out, s')" by (auto simp: bind_tx_iff)
  show ?case
  proof (cases "id_accept d")
    case False
    with 1 have "acc1 = acc" "s1 = s" by (simp_all add: ingest_row_def ret_tx_iff)
    with Cons.IH [OF 2] Cons.prems False show ?thesis by (simp add: ingested_of_def new_key_def map_filter_simps)
  next
    case True
    obtain p new sx v where r: "resolve_ingest_product fold_case storage d (is_created acc) s = Inr ((p, new, is_created acc1), sx)"
      and e: "shifts (\<lambda>_. 0) s s1" "products s1 = products sx" "jobs s1 = jobs s"
        "ir_batches (is_result acc1) = ir_batches (is_result acc) @ [v]"
        "ir_products (is_result acc1) = ir_products (is_result acc) @ (if new then [p] else [])"
      and led: "\<forall>q. ledger_total q s1 = ledger_total q s + at_product p (id_quantity d) q"
      by (rule ingest_row_effect [OF Cons.prems(2) 1 True])
    note g = resolve_ingest_effect [OF Cons.prems(2) r]
    have cr: "(id_product d = Some p \<and> \<not> new \<and> is_created acc1 = is_created acc \<and> new_key fold_case d = None)
      \<or> (\<exists>key. id_product d = None \<and> new_key fold_case d = Some key \<and> (key, p) \<in> set (is_created acc) \<and> \<not> new
            \<and> is_created acc1 = is_created acc)
      \<or> (\<exists>key. id_product d = None \<and> new_key fold_case d = Some key \<and> key \<notin> set (map fst (is_created acc)) \<and> new
            \<and> \<not> tbl_has p (products s) \<and> is_created acc1 = (key, p) # is_created acc)"
    proof (cases "id_product d")
      case (Some i)
      with g show ?thesis by (simp add: new_key_def)
    next
      case None
      with g obtain n where n: "id_new d = Some n" by auto
      show ?thesis
      proof (cases "map_of (is_created acc) (normalize_query fold_case (ip_name n))")
        case (Some i)
        with g n None True map_of_SomeD [OF Some] show ?thesis by (simp add: new_key_def)
      next
        case fresh: None
        then have "normalize_query fold_case (ip_name n) \<notin> set (map fst (is_created acc))" by (simp add: map_of_eq_None_iff)
        with g n None True fresh show ?thesis by (simp add: new_key_def)
      qed
    qed
    have a: "tbl_has q (products s0) \<Longrightarrow> tbl_has q (products s1)" for q using g e(2) Cons.prems(3) by auto
    have b: "\<not> tbl_has x (products s0)" if "(k, x) \<in> set (is_created acc1)" for k x
      using cr that Cons.prems(3,4) by fastforce
    have c: "distinct (map fst (is_created acc1))" "length (ir_products (is_result acc1)) = length (is_created acc1)"
      using cr Cons.prems(5,6) e(5) by auto
    from Cons.IH [OF 2 shifts_rows [OF e(1)] a b c]
    have ih: "shifts (\<lambda>_. 0) s1 s'" "jobs s' = jobs s1"
      "\<And>q. tbl_has q (products s0) \<Longrightarrow> ledger_total q s' = ledger_total q s1 + ingested_of q ds"
      "length (ir_batches (is_result out)) = length (ir_batches (is_result acc1)) + length (filter id_accept ds)"
      "distinct (map fst (is_created out))" "length (ir_products (is_result out)) = length (is_created out)"
      "set (map fst (is_created out)) = set (map fst (is_created acc1)) \<union> set (List.map_filter (new_key fold_case) ds)"
      by simp_all
    have own: "ledger_total q s' = ledger_total q s + ingested_of q (d # ds)" if q: "tbl_has q (products s0)" for q
    proof -
      have "at_product p (id_quantity d) q = (if id_product d = Some q then id_quantity d else 0)"
        using cr q Cons.prems(3,4) by (auto simp: at_product_def)
      with ih(3) [OF q] led True show ?thesis by (simp add: ingested_of_def)
    qed
    have names: "set (map fst (is_created out)) = set (map fst (is_created acc)) \<union> set (List.map_filter (new_key fold_case) (d # ds))"
      unfolding ih(7) using cr by (elim disjE exE conjE) (force simp: map_filter_simps)+
    from shifts_trans [OF e(1) ih(1)] own names ih e True show ?thesis by simp
  qed
qed

abbreviation ingest_start :: ingest_state where
  "ingest_start \<equiv> \<lparr>is_result = \<lparr>ir_batches = [], ir_products = [], ir_locations = 0\<rparr>, is_created = []\<rparr>"

lemma confirm_steps:
  assumes "confirm_ingestion low fold_case storage job user ds s = Inr (out, s')"
  obtains j rows st s1 s2 where "find_job storage job s = Some j" "jb_status j = JobDone" "jb_payload j = Some rows"
    "exact_ids (map pw_row rows) (map id_row ds)"
    "fold_tx (ingest_row low fold_case storage user (proposed_exact_matches rows)) ds ingest_start s = Inr (st, s1)"
    "first_shelf_unlock storage user (jb_kind j) (ir_batches (is_result st)) s1 = Inr ((), s2)"
    "consume_job storage job s2 = Inr ((), s')" "out = is_result st"
  using assms by (auto simp: confirm_ingestion_def match_row_ids_def bind_tx_iff seq_tx_iff guard_tx_iff ret_tx_iff row_tx_iff
        fail_tx_iff split: option.splits)

lemma confirm_shifts:
  assumes ok: "rows_ok s" and run: "confirm_ingestion low fold_case storage job user ds s = Inr (out, s')"
  shows "shifts (\<lambda>_. 0) s s'"
proof -
  obtain j rows st s1 s2 where "find_job storage job s = Some j"
    and 1: "fold_tx (ingest_row low fold_case storage user (proposed_exact_matches rows)) ds ingest_start s = Inr (st, s1)"
    and 2: "first_shelf_unlock storage user (jb_kind j) (ir_batches (is_result st)) s1 = Inr ((), s2)"
    and 3: "consume_job storage job s2 = Inr ((), s')"
    using confirm_steps [OF run] by metis
  from ingest_rows [OF 1 ok, of s] have sh1: "shifts (\<lambda>_. 0) s s1" by simp
  note sh2 = shifts_silent [OF first_shelf_silent 2 shifts_rows [OF sh1]]
  have "shifts (\<lambda>_. 0) s2 s'" using 3 shifts_jobs [OF shifts_rows [OF sh2]] by (auto simp: consume_job_iff)
  from shifts_trans [OF sh1 shifts_trans [OF sh2 this]] show ?thesis by simp
qed

interpretation ingest_op: ledger_operation
  "\<lambda>(low, fold_case, storage, job, user, ds). confirm_ingestion low fold_case storage job user ds"
  by unfold_locales (auto intro: confirm_shifts)


text \<open>A reviewed photo: two rows describe the same new product, one files a known one, one is rejected.\<close>

definition ingest_db :: db where
  "ingest_db = demo_db\<lparr>jobs := [(40, demo_job\<lparr>jb_status := JobDone,
     jb_payload := Some (map (\<lambda>c. \<lparr>pw_row = [c], pw_exact = None\<rparr>) ''abcd'')\<rparr>)],
     idgen := [100, 101, 102, 103, 104, 105, 106, 107]\<rparr>"

definition demo_ingest :: ingest_decision where
  "demo_ingest = \<lparr>id_row = ''a'', id_accept = True, id_product = Some 5, id_new = None, id_quantity = 4,
     id_location = Some 11, id_new_location = None, id_edited = False, id_expiration = None, id_label = None, id_type = None\<rparr>"

definition demo_beans :: "string \<Rightarrow> ingest_decision" where
  "demo_beans row = demo_ingest\<lparr>id_row := row, id_product := None, id_quantity := 1,
     id_new := Some \<lparr>ip_name = ''Beans'', ip_category = None, ip_item_type = None, ip_image = None\<rparr>\<rparr>"

definition demo_ingest_rows :: "ingest_decision list" where
  "demo_ingest_rows = [demo_ingest, demo_beans ''b'', demo_beans ''c'', demo_ingest\<lparr>id_row := ''d'', id_accept := False\<rparr>]"

lemma ingest_db_inv: "stock_inv ingest_db"
  by (simp add: stock_inv_def rows_ok_def batch_ok_def log_ok_def container_ok_def tbl_has_def
      ledger_total_def stock_total_def ingest_db_def demo_defs)

lemma ingest_db_commits: "\<not> isl (confirm_ingestion id id 2 40 None demo_ingest_rows ingest_db)"
  by code_simp

lemma ingest_db_runs: "\<exists>out s'. confirm_ingestion id id 2 40 None demo_ingest_rows ingest_db = Inr (out, s')"
  using ingest_db_commits by (cases "confirm_ingestion id id 2 40 None demo_ingest_rows ingest_db") auto


end
