(* ===== verification/Stocktake.thy ===== *)
theory Stocktake
  imports Consumption
begin

text \<open>
  \<open>internal/store/stocktake.go\<close>: one shelf is counted. The sheet lists the batches that stand
  directly at a location; the confirm takes an absolute count for each of exactly those batches and
  the stock found without a record, applies all of it in one transaction and stamps the location as
  audited. The collation that orders product names is the database's, an argument here.
\<close>

section \<open>The sheet\<close>

record stocktake_batch =
  sb_id :: uuid
  sb_row :: batch
  sb_product_name :: string
  sb_image :: "string option"

record stocktake_sheet =
  ss_location :: location_row
  ss_batches :: "stocktake_batch list"

definition location_batches :: "uuid \<Rightarrow> uuid \<Rightarrow> db \<Rightarrow> (uuid \<times> batch) list" where
  "location_batches storage l s = tbl_select (\<lambda>i b. ba_location b = l \<and> find_batch storage i s \<noteq> None) (batches s)"

definition sheet_row :: "db \<Rightarrow> uuid \<times> batch \<Rightarrow> stocktake_batch" where
  "sheet_row s = (\<lambda>(i, b). let p = map_of (products s) (ba_product b) in
     \<lparr>sb_id = i, sb_row = b, sb_product_name = (case p of None \<Rightarrow> '''' | Some p \<Rightarrow> pr_name p),
      sb_image = Option.bind p pr_image\<rparr>)"

definition location_stocktake ::
    "(string \<Rightarrow> 'c :: linorder) \<Rightarrow> uuid \<Rightarrow> uuid \<Rightarrow> stocktake_sheet dbtx" where
  "location_stocktake collate storage l =
     bind_tx (load_location storage l) (\<lambda>loc.
       get_tx (\<lambda>s. \<lparr>ss_location = loc,
         ss_batches = sort_key (\<lambda>b. (collate (sb_product_name b), batch_order (sb_id b, sb_row b)))
           (map (sheet_row s) (location_batches storage l s))\<rparr>))"

section \<open>The confirm\<close>

record found_stock =
  fs_product :: uuid
  fs_quantity :: int
  fs_expiration :: "date option"
  fs_stated :: bool

record stocktake_result =
  sr_audited :: instant
  sr_corrected :: nat
  sr_created :: "uuid list"

definition lock_location_batches :: "uuid \<Rightarrow> uuid \<Rightarrow> uuid list dbtx" where
  "lock_location_batches storage l = get_tx (\<lambda>s. sort (keys (location_batches storage l s)))"

definition match_batch_ids :: "uuid list \<Rightarrow> (uuid \<times> int) list \<Rightarrow> unit dbtx" where
  "match_batch_ids held counts = guard_tx (exact_ids held (map fst counts)) ErrValidation"

definition apply_count :: "uuid \<Rightarrow> uuid option \<Rightarrow> uuid \<times> int \<Rightarrow> nat \<Rightarrow> nat dbtx" where
  "apply_count storage user c n =
     bind_tx (set_batch_quantity storage (fst c) (snd c) user) (\<lambda>r.
       ret_tx (if snd r then Suc n else n))"

definition found_batch :: "uuid \<Rightarrow> uuid option \<Rightarrow> found_stock \<Rightarrow> new_batch" where
  "found_batch l user f = \<lparr>nb_product = fs_product f, nb_location = l, nb_quantity = fs_quantity f,
     nb_expiration = fs_expiration f,
     nb_source = Some (if fs_stated f then ExpirationUser else ExpirationDerived),
     nb_reason = Some ReasonAudit, nb_created_by = user, nb_label = None, nb_type = None\<rparr>"

definition apply_found :: "uuid \<Rightarrow> uuid \<Rightarrow> uuid option \<Rightarrow> found_stock \<Rightarrow> uuid list \<Rightarrow> uuid list dbtx" where
  "apply_found storage l user f acc =
     bind_tx (create_batch storage (found_batch l user f)) (\<lambda>b. ret_tx (acc @ [bv_id b]))"

definition stamp_audit :: "uuid \<Rightarrow> instant \<Rightarrow> unit dbtx" where
  "stamp_audit l now = mod_tx (\<lambda>s. s\<lparr>locations :=
     tbl_upd l (\<lambda>r. r\<lparr>lo_audited := Some now, lo_updated := now\<rparr>) (locations s)\<rparr>)"

definition confirm_stocktake ::
    "uuid \<Rightarrow> uuid \<Rightarrow> uuid option \<Rightarrow> (uuid \<times> int) list \<Rightarrow> found_stock list \<Rightarrow> stocktake_result dbtx" where
  "confirm_stocktake storage l user counts found =
     seq_tx (require_same_storage TreeLocations storage l)
    (bind_tx (lock_location_batches storage l) (\<lambda>held.
     seq_tx (match_batch_ids held counts)
    (bind_tx (fold_tx (apply_count storage user) counts 0) (\<lambda>corrected.
     bind_tx (fold_tx (apply_found storage l user) found []) (\<lambda>created.
     bind_tx (get_tx db_now) (\<lambda>now.
     seq_tx (stamp_audit l now)
       (ret_tx \<lparr>sr_audited = now, sr_corrected = corrected, sr_created = created\<rparr>)))))))"

section \<open>The ledger\<close>

lemma apply_count_shifts:
  "rows_ok s \<Longrightarrow> apply_count storage user c n s = Inr (m, s') \<Longrightarrow> shifts (\<lambda>_. 0) s s'"
  by (auto simp: apply_count_def bind_tx_iff ret_tx_iff dest: set_quantity_shifts)

lemma apply_found_shifts:
  "rows_ok s \<Longrightarrow> apply_found storage l user f acc s = Inr (out, s') \<Longrightarrow> shifts (\<lambda>_. 0) s s'"
  by (auto simp: apply_found_def bind_tx_iff ret_tx_iff dest: create_shifts)

lemma stamp_audit_shifts:
  assumes ok: "rows_ok s" and run: "stamp_audit l now s = Inr (u, s')"
  shows "shifts (\<lambda>_. 0) s s'"
proof (rule shifts_locations [OF ok])
  show "s' = s\<lparr>locations := tbl_upd l (\<lambda>r. r\<lparr>lo_audited := Some now, lo_updated := now\<rparr>) (locations s)\<rparr>"
    using run by (simp add: stamp_audit_def tx_iff)
  show "distinct (keys (tbl_upd l (\<lambda>r. r\<lparr>lo_audited := Some now, lo_updated := now\<rparr>) (locations s)))"
    using ok by (simp add: rows_ok_def)
qed auto

lemma confirm_stocktake_steps:
  assumes "confirm_stocktake storage l user counts found s = Inr (r, s')"
  obtains s1 s2 where "in_storage TreeLocations storage l s"
    "exact_ids (sort (keys (location_batches storage l s))) (map fst counts)"
    "fold_tx (apply_count storage user) counts 0 s = Inr (sr_corrected r, s1)"
    "fold_tx (apply_found storage l user) found [] s1 = Inr (sr_created r, s2)"
    "stamp_audit l (db_now s2) s2 = Inr ((), s')" "sr_audited r = db_now s2"
  using assms
  by (auto simp: confirm_stocktake_def lock_location_batches_def match_batch_ids_def bind_tx_iff seq_tx_iff
      guard_tx_iff ret_tx_iff get_tx_iff require_same_storage_iff)

lemma confirm_stocktake_shifts:
  assumes ok: "rows_ok s" and run: "confirm_stocktake storage l user counts found s = Inr (r, s')"
  shows "shifts (\<lambda>_. 0) s s'"
proof -
  obtain s1 s2 where 1: "fold_tx (apply_count storage user) counts 0 s = Inr (sr_corrected r, s1)"
    and 2: "fold_tx (apply_found storage l user) found [] s1 = Inr (sr_created r, s2)"
    and 3: "stamp_audit l (db_now s2) s2 = Inr ((), s')"
    by (rule confirm_stocktake_steps [OF run])
  note a = shifts_fold [OF apply_count_shifts ok 1]
  note b = shifts_fold [OF apply_found_shifts shifts_rows [OF a] 2]
  note c = stamp_audit_shifts [OF shifts_rows [OF b] 3]
  from shifts_trans [OF shifts_trans [OF a b] c] show ?thesis by simp
qed

interpretation stocktake: ledger_operation
  "\<lambda>(storage, l, user, counts, found). confirm_stocktake storage l user counts found"
  by unfold_locales (auto intro: confirm_stocktake_shifts)

section \<open>What the counts leave\<close>

text \<open>A count decides its own batch and no other.\<close>

definition counted :: "batch option \<Rightarrow> int \<Rightarrow> batch option" where
  "counted b q = (if q = 0 then None else map_option (\<lambda>b. b\<lparr>ba_quantity := q\<rparr>) b)"

lemma set_quantity_effect:
  assumes ok: "rows_ok s" and run: "set_batch_quantity storage i q user s = Inr (r, s')"
  shows "map_of (batches s') j = (if j = i then counted (map_of (batches s) i) q else map_of (batches s) j)
    \<and> (snd r \<longleftrightarrow> map_option ba_quantity (map_of (batches s) i) \<noteq> Some q) \<and> 0 \<le> q
    \<and> products s' = products s \<and> locations s' = locations s"
proof -
  obtain b where b: "find_batch storage i s = Some b" and q: "0 \<le> q"
    and cases: "(q = ba_quantity b \<and> \<not> snd r \<and> s' = s)
      \<or> (q \<noteq> ba_quantity b \<and> snd r \<and> (\<exists>p. adjust_batch storage i (q - ba_quantity b) ReasonAudit user s = Inr (p, s')))"
    using run by (auto simp: set_batch_quantity_def tx_iff split: if_splits)
  have row: "map_of (batches s) i = Some b" using b by (simp add: find_batch_Some)
  have d: "distinct (keys (batches s))" using ok by (simp add: rows_ok_def)
  have pos: "1 \<le> ba_quantity b" using rows_ok_batch [OF ok row] by (simp add: batch_ok_def)
  from cases show ?thesis
  proof
    assume "q = ba_quantity b \<and> \<not> snd r \<and> s' = s"
    with row pos q show ?thesis by (simp add: counted_def)
  next
    assume h: "q \<noteq> ba_quantity b \<and> snd r \<and> (\<exists>p. adjust_batch storage i (q - ba_quantity b) ReasonAudit user s = Inr (p, s'))"
    then obtain p where a: "adjust_batch storage i (q - ba_quantity b) ReasonAudit user s = Inr (p, s')" by blast
    obtain l where "adjusted i (q - ba_quantity b) ReasonAudit user b l s s'"
      using adjust_effect [OF a] b by (metis option.inject)
    then have "batches s' = (if q = 0 then tbl_del (\<lambda>k _. k = i) (batches s)
         else tbl_upd i (\<lambda>b'. b'\<lparr>ba_quantity := q\<rparr>) (batches s))" "products s' = products s"
      "locations s' = locations s"
      by (simp_all add: adjusted_def Let_def)
    with h q row show ?thesis
      by (simp add: counted_def map_of_tbl_del [OF d] split: option.split)
  qed
qed

lemma counts_effect:
  assumes "rows_ok s" and "fold_tx (apply_count storage user) counts n s = Inr (m, s')"
    and "distinct (map fst counts)"
  shows "(\<forall>j. map_of (batches s') j = (case map_of counts j of
            None \<Rightarrow> map_of (batches s) j | Some q \<Rightarrow> counted (map_of (batches s) j) q))
    \<and> m = n + length (filter (\<lambda>(i, q). map_option ba_quantity (map_of (batches s) i) \<noteq> Some q) counts)
    \<and> products s' = products s \<and> locations s' = locations s"
  using assms
proof (induction counts arbitrary: n s)
  case Nil
  then show ?case by (simp add: ret_tx_iff)
next
  case (Cons c counts)
  obtain i q where c: "c = (i, q)" by (cases c)
  obtain n1 s1 where 1: "apply_count storage user c n s = Inr (n1, s1)"
    and 2: "fold_tx (apply_count storage user) counts n1 s1 = Inr (m, s')"
    using Cons.prems(2) by (auto simp: bind_tx_iff)
  obtain r where r: "set_batch_quantity storage i q user s = Inr (r, s1)" "n1 = (if snd r then Suc n else n)"
    using 1 c by (auto simp: apply_count_def bind_tx_iff ret_tx_iff)
  have ok1: "rows_ok s1" by (rule shifts_rows [OF apply_count_shifts [OF Cons.prems(1) 1]])
  have nd: "distinct (map fst counts)" "i \<notin> set (map fst counts)" using Cons.prems(3) c by auto
  note e = set_quantity_effect [OF Cons.prems(1) r(1)]
  note ih = Cons.IH [OF ok1 2 nd(1)]
  have other: "map_of (batches s1) j = map_of (batches s) j" if "j \<in> set (map fst counts)" for j
    using e [of j] nd(2) that by auto
  have "filter (\<lambda>(i, q). map_option ba_quantity (map_of (batches s1) i) \<noteq> Some q) counts
      = filter (\<lambda>(i, q). map_option ba_quantity (map_of (batches s) i) \<noteq> Some q) counts"
  proof (rule filter_cong)
    fix x assume "x \<in> set counts"
    then have "map_of (batches s1) (fst x) = map_of (batches s) (fst x)" by (intro other) simp
    then show "(case x of (i, q) \<Rightarrow> map_option ba_quantity (map_of (batches s1) i) \<noteq> Some q)
        = (case x of (i, q) \<Rightarrow> map_option ba_quantity (map_of (batches s) i) \<noteq> Some q)"
      by (cases x) simp
  qed simp
  then have m: "m = n + length (filter (\<lambda>(i, q). map_option ba_quantity (map_of (batches s) i) \<noteq> Some q) (c # counts))"
    using ih r(2) e [of i] c by simp
  have none: "map_of counts i = None" using nd(2) by (simp add: map_of_eq_None_iff)
  have "map_of (batches s') j = (case map_of (c # counts) j of
            None \<Rightarrow> map_of (batches s) j | Some q \<Rightarrow> counted (map_of (batches s) j) q)" for j
    using ih [THEN conjunct1, rule_format, of j] e [of j] c none by (auto split: option.split)
  with m ih e [of i] show ?case by simp
qed

lemma create_plain:
  assumes run: "create_batch storage inp s = Inr (v, s')" and plain: "nb_label inp = None" "nb_type inp = None"
  obtains row where "\<not> tbl_has (bv_id v) (batches s)" "batches s' = tbl_ins (bv_id v) row (batches s)"
    "locations s' = locations s" "products s' = products s"
proof -
  obtain i reason e s1 s2 s3 s4 s5 where i: "new_id s = Inr (i, s1)"
    and ins: "insert_batch i (new_row inp e (db_now s)) s1 = Inr ((), s2)"
    and lab: "case nb_label inp of None \<Rightarrow> s3 = s2 | Some l \<Rightarrow> upsert_batch_container_label storage i l s2 = Inr ((), s3)"
    and ty: "case nb_type inp of None \<Rightarrow> s4 = s3 | Some ty \<Rightarrow> set_batch_container_type storage i (Some ty) s3 = Inr ((), s4)"
    and w: "write_log (nb_product inp) (Some i) (nb_quantity inp) reason (nb_created_by inp) s4 = Inr ((), s5)"
    and bump: "bump_for_ledger_reason storage (nb_created_by inp) reason i s5 = Inr ((), s')"
    and v: "if nb_label inp \<noteq> None \<or> nb_type inp \<noteq> None then load_batch storage i s' = Inr (v, s')
     else v = scan_batch i (new_row inp e (db_now s))"
    by (rule create_steps [OF run])
  have "s4 = s2" using lab ty plain by simp
  moreover have "bv_id v = i" using v plain by (simp add: scan_batch_def)
  ultimately show ?thesis
    using i ins w core_eqD [OF silentD [OF silent_bump_ledger bump]] that [of "new_row inp e (db_now s)"]
    by (auto simp: new_id_iff insert_batch_iff write_log_iff)
qed

lemma apply_found_iff:
  "apply_found storage l user f acc s = Inr (out, s') \<longleftrightarrow>
     (\<exists>v. create_batch storage (found_batch l user f) s = Inr (v, s') \<and> out = acc @ [bv_id v])"
  by (auto simp: apply_found_def bind_tx_iff ret_tx_iff)

lemma found_effect:
  assumes "fold_tx (apply_found storage l user) found acc s = Inr (out, s')"
  shows "set acc \<subseteq> set out \<and> locations s' = locations s
    \<and> (\<forall>i. i \<notin> set out \<longrightarrow> map_of (batches s') i = map_of (batches s) i)"
  using assms
proof (induction found arbitrary: acc s)
  case Nil
  then show ?case by (simp add: ret_tx_iff)
next
  case (Cons f found)
  then obtain v s1 where 1: "create_batch storage (found_batch l user f) s = Inr (v, s1)"
    and 2: "fold_tx (apply_found storage l user) found (acc @ [bv_id v]) s1 = Inr (out, s')"
    by (auto simp: apply_found_iff bind_tx_iff)
  obtain row where new: "\<not> tbl_has (bv_id v) (batches s)" "batches s1 = tbl_ins (bv_id v) row (batches s)"
    "locations s1 = locations s"
    by (rule create_plain [OF 1]) (simp_all add: found_batch_def)
  have key: "bv_id v \<notin> set (keys (batches s))" using new(1) by (simp add: tbl_has_keys)
  note ih = Cons.IH [OF 2]
  have "map_of (batches s') i = map_of (batches s) i" if "i \<notin> set out" for i
  proof -
    have "i \<noteq> bv_id v" using ih that by auto
    with ih that new(2) show ?thesis by (simp add: map_of_tbl_ins [OF key])
  qed
  with ih new(3) show ?case by simp
qed

section \<open>Properties\<close>


lemma demo_held: "location_batches 2 10 demo_db = [(20, demo_batch)]"
  by (simp add: location_batches_def tbl_select_def find_batch_def demo_defs)

lemma demo_at_shelf: "in_storage TreeLocations 2 10 demo_db"
  by (simp add: in_storage_def tree_row_def demo_defs)

lemma demo_stocktake_runs:
  "\<exists>r s'. confirm_stocktake 2 10 None [(20, 1)] [] demo_db = Inr (r, s')"
proof -
  have "\<exists>s'. adjust_batch 2 20 (- 2) ReasonAudit None demo_db = Inr (5, s')"
    by (simp add: adjust_batch_def tx_iff demo_find Let_def bump_for_ledger_reason_def int4_def
        user_exists_def tbl_has_def demo_batch_def) (simp add: demo_defs)
  then obtain s1 where a: "adjust_batch 2 20 (- 2) ReasonAudit None demo_db = Inr (5, s1)" ..
  have "exact_ids (sort (keys (location_batches 2 10 demo_db))) [20]"
    by (simp add: demo_held exact_ids_iff)
  then show ?thesis using a demo_at_shelf
    by (simp add: confirm_stocktake_def lock_location_batches_def match_batch_ids_def apply_count_def
        set_batch_quantity_def stamp_audit_def tx_defs require_same_storage_def demo_find demo_batch_def)
qed


end
