(* ===== verification/Accounts.thy ===== *)
theory Accounts
  imports AuditTrail BatchTheorems
begin

text \<open>
  \<open>internal/store/users.go\<close>, \<open>sessions.go\<close>, \<open>pairing.go\<close>, \<open>idempotency.go\<close> and the settings of \<open>store.go\<close>:
  accounts and their administration, the sessions and pairing codes that sign a client in, and the
  recorded replies that make a retried write safe. Passwords arrive hashed and a token is drawn by the
  caller's random source, so both are arguments; a comparison in constant time is equality.
\<close>

section \<open>Accounts\<close>

record new_user =
  nu_username :: string
  nu_hash :: string
  nu_display :: string
  nu_admin :: bool

text \<open>Any unique violation of the insert, the username's or the id's, is a duplicate.\<close>

definition insert_user :: "new_user \<Rightarrow> (uuid \<times> account) dbtx" where
  "insert_user inp =
     bind_tx new_id (\<lambda>i. bind_tx (get_tx db_now) (\<lambda>now.
     let row = \<lparr>ac_username = nu_username inp, ac_hash = nu_hash inp, ac_display = nu_display inp,
       ac_admin = nu_admin inp, ac_created = now, bq_enabled = True, bq_seen = None\<rparr> in
     seq_tx (check_tx (\<lambda>s. \<not> tbl_has i (accounts s) \<and> nu_username inp \<notin> (ac_username \<circ> snd) ` set (accounts s)) ErrDuplicate)
    (seq_tx (mod_tx (\<lambda>s. s\<lparr>accounts := tbl_ins i row (accounts s)\<rparr>))
      (ret_tx (i, row)))))"

definition create_user :: "new_user \<Rightarrow> (uuid \<times> account) dbtx" where
  "create_user inp = insert_user inp"

definition admin_create_user :: "uuid option \<Rightarrow> new_user \<Rightarrow> (uuid \<times> account) dbtx" where
  "admin_create_user actor inp =
     bind_tx (insert_user inp) (\<lambda>u.
     seq_tx (write_admin_audit actor ActionUserCreated (Some (TargetId (fst u)))
         (no_details\<lparr>ad_username := ac_username (snd u), ad_display := ac_display (snd u), ad_admin := Some (nu_admin inp)\<rparr>))
       (ret_tx u))"

definition user_by_username :: "string \<Rightarrow> (uuid \<times> account) dbtx" where
  "user_by_username name = row_tx ErrNotFound (\<lambda>s. List.find (\<lambda>(_, a). ac_username a = name) (accounts s))"

definition user_by_id :: "uuid \<Rightarrow> (uuid \<times> account) dbtx" where
  "user_by_id i = row_tx ErrNotFound (\<lambda>s. map_option (Pair i) (map_of (accounts s) i))"

definition is_admin :: "uuid \<Rightarrow> db \<Rightarrow> bool" where
  "is_admin i s = (case map_of (accounts s) i of None \<Rightarrow> False | Some a \<Rightarrow> ac_admin a)"

text \<open>An UPDATE of one account, ErrNotFound when it touched no row.\<close>

definition update_account :: "uuid \<Rightarrow> (account \<Rightarrow> account) \<Rightarrow> unit dbtx" where
  "update_account i f =
     seq_tx (check_tx (\<lambda>s. tbl_has i (accounts s)) ErrNotFound)
       (mod_tx (\<lambda>s. s\<lparr>accounts := tbl_upd i f (accounts s)\<rparr>))"

definition set_admin :: "uuid \<Rightarrow> bool \<Rightarrow> unit dbtx" where
  "set_admin i admin = update_account i (\<lambda>a. a\<lparr>ac_admin := admin\<rparr>)"

definition set_display_name :: "uuid \<Rightarrow> string \<Rightarrow> (uuid \<times> account) dbtx" where
  "set_display_name i name = seq_tx (update_account i (\<lambda>a. a\<lparr>ac_display := name\<rparr>)) (user_by_id i)"

definition list_users :: "db \<Rightarrow> (uuid \<times> account) list" where
  "list_users s = sort_key (\<lambda>(i, a). (ac_created a, i)) (accounts s)"

definition count_users :: "db \<Rightarrow> nat" where
  "count_users s = length (accounts s)"

text \<open>
  DELETE FROM users with the referential actions of the schema: memberships, sessions, pairing codes,
  recorded replies and the progress of the user go with it; the ledger, jobs, lists, settings and the
  trail stay and forget who it was.
\<close>

definition forget :: "uuid \<Rightarrow> uuid option \<Rightarrow> uuid option" where
  "forget i u = (if u = Some i then None else u)"

definition forget_access :: "uuid \<Rightarrow> access_tables \<Rightarrow> access_tables" where
  "forget_access i a = a\<lparr>at_sessions := tbl_del (\<lambda>_ e. se_user e = i) (at_sessions a),
     at_pairing := tbl_del (\<lambda>_ c. pc_user c = i) (at_pairing a),
     at_replies := tbl_del (\<lambda>k _. snd k = i) (at_replies a),
     at_settings := tbl_map (\<lambda>_ _. True) (\<lambda>v. v\<lparr>sv_by := forget i (sv_by v)\<rparr>) (at_settings a)\<rparr>"

definition forget_player :: "uuid \<Rightarrow> gamification_tables \<Rightarrow> gamification_tables" where
  "forget_player i g = g\<lparr>gt_progress := tbl_del (\<lambda>k _. snd k = i) (gt_progress g),
     gt_contributions := tbl_del (\<lambda>_ c. ce_user c = i) (gt_contributions g),
     gt_contributors := filter (\<lambda>(_, u). u \<noteq> i) (gt_contributors g),
     gt_unlocked := filter (\<lambda>(_, u, _). u \<noteq> i) (gt_unlocked g),
     gt_holidays := filter (\<lambda>(u, _). u \<noteq> i) (gt_holidays g)\<rparr>"

definition drop_user :: "uuid \<Rightarrow> db \<Rightarrow> db" where
  "drop_user i s = s\<lparr>accounts := tbl_del (\<lambda>k _. k = i) (accounts s),
     memberships := tbl_del (\<lambda>k _. snd k = i) (memberships s),
     logs := tbl_map (\<lambda>_ _. True) (\<lambda>l. l\<lparr>lg_by := forget i (lg_by l)\<rparr>) (logs s),
     jobs := tbl_map (\<lambda>_ _. True) (\<lambda>j. j\<lparr>jb_created_by := forget i (jb_created_by j)\<rparr>) (jobs s),
     shopping_lists := tbl_map (\<lambda>_ _. True) (\<lambda>l. l\<lparr>sl_by := forget i (sl_by l)\<rparr>) (shopping_lists s),
     audits := tbl_map (\<lambda>_ _. True) (\<lambda>a. a\<lparr>au_actor := forget i (au_actor a)\<rparr>) (audits s),
     access := forget_access i (access s), gam := forget_player i (gam s)\<rparr>"

definition delete_user :: "uuid option \<Rightarrow> uuid \<Rightarrow> unit dbtx" where
  "delete_user actor i =
     bind_tx (row_tx ErrNotFound (\<lambda>s. map_option ac_username (map_of (accounts s) i))) (\<lambda>username.
     seq_tx (mod_tx (drop_user i))
       (write_admin_audit actor ActionUserDeleted (Some (TargetId i)) (no_details\<lparr>ad_username := username\<rparr>)))"

section \<open>Passwords and sessions\<close>

definition update_sessions :: "((string \<times> session) list \<Rightarrow> (string \<times> session) list) \<Rightarrow> db \<Rightarrow> db" where
  "update_sessions f s = s\<lparr>access := (access s)\<lparr>at_sessions := f (at_sessions (access s))\<rparr>\<rparr>"

abbreviation sessions :: "db \<Rightarrow> (string \<times> session) list" where
  "sessions s \<equiv> at_sessions (access s)"

text \<open>A new password ends every session of the account but the kept one; no kept one ends all.\<close>

definition change_password_tx :: "uuid \<Rightarrow> string \<Rightarrow> string \<Rightarrow> unit dbtx" where
  "change_password_tx i password_hash kept =
     seq_tx (update_account i (\<lambda>a. a\<lparr>ac_hash := password_hash\<rparr>))
       (mod_tx (update_sessions (tbl_del (\<lambda>k e. se_user e = i \<and> (kept = [] \<or> k \<noteq> kept)))))"

definition change_password :: "uuid \<Rightarrow> string \<Rightarrow> string \<Rightarrow> unit dbtx" where
  "change_password i password_hash kept = change_password_tx i password_hash kept"

definition admin_reset_password :: "uuid option \<Rightarrow> uuid \<Rightarrow> string \<Rightarrow> unit dbtx" where
  "admin_reset_password actor i password_hash =
     seq_tx (change_password_tx i password_hash [])
    (bind_tx (row_tx ErrInternal (\<lambda>s. map_option ac_username (map_of (accounts s) i))) (\<lambda>username.
       write_admin_audit actor ActionUserPasswordReset (Some (TargetId i)) (no_details\<lparr>ad_username := username\<rparr>)))"

text \<open>The kind defaults to a browser; the token is the primary key and the user a foreign key.\<close>

definition create_session ::
    "string \<Rightarrow> uuid \<Rightarrow> session_kind option \<Rightarrow> string option \<Rightarrow> int \<Rightarrow> (string \<times> session) dbtx" where
  "create_session token user kind label ttl =
     bind_tx (get_tx db_now) (\<lambda>now.
     let row = \<lparr>se_user = user, se_kind = (case kind of None \<Rightarrow> SessionBrowser | Some k \<Rightarrow> k), se_label = label,
       se_seen = None, se_created = now, se_expires = now + ttl\<rparr> in
     seq_tx (check_tx (\<lambda>s. \<not> tbl_has token (sessions s) \<and> tbl_has user (accounts s)) ErrInternal)
    (seq_tx (mod_tx (update_sessions (tbl_ins token row)))
      (ret_tx (token, row))))"

text \<open>
  The lookup deletes an expired session and still answers that it is not there, so it is a pair of a
  reply and a state: the deletion is a statement of its own, not rolled back with the answer.
\<close>

definition lookup_session :: "string \<Rightarrow> db \<Rightarrow> (err + session) \<times> db" where
  "lookup_session token s = (case map_of (sessions s) token of
      None \<Rightarrow> (Inl ErrNotFound, s)
    | Some e \<Rightarrow>
        if \<not> se_expires e > app_now s
        then (Inl ErrNotFound, update_sessions (tbl_del (\<lambda>k _. k = token)) s)
        else (Inr e, s))"

definition last_seen_throttle :: int where "last_seen_throttle = 3600000000000"

definition touch_session :: "string \<Rightarrow> unit dbtx" where
  "touch_session token = mod_tx (\<lambda>s. update_sessions
     (tbl_map (\<lambda>k e. k = token \<and> (case se_seen e of None \<Rightarrow> True | Some t \<Rightarrow> t < db_now s - last_seen_throttle))
        (\<lambda>e. e\<lparr>se_seen := Some (db_now s)\<rparr>)) s)"

definition delete_session :: "string \<Rightarrow> unit dbtx" where
  "delete_session token =
     seq_tx (check_tx (\<lambda>s. tbl_has token (sessions s)) ErrNotFound)
       (mod_tx (update_sessions (tbl_del (\<lambda>k _. k = token))))"

definition user_sessions :: "uuid \<Rightarrow> db \<Rightarrow> (string \<times> session) list" where
  "user_sessions user s = sort_key (\<lambda>(_, e). se_created e)
     (tbl_select (\<lambda>_ e. se_user e = user \<and> se_expires e > db_now s) (sessions s))"

definition sweep_sessions :: "nat dbtx" where
  "sweep_sessions =
     bind_tx (get_tx (\<lambda>s. length (tbl_select (\<lambda>_ e. se_expires e \<le> db_now s) (sessions s)))) (\<lambda>n.
     seq_tx (mod_tx (\<lambda>s. update_sessions (tbl_del (\<lambda>_ e. se_expires e \<le> db_now s)) s))
       (ret_tx n))"

section \<open>Pairing\<close>

definition update_pairing :: "((string \<times> pairing_code) list \<Rightarrow> (string \<times> pairing_code) list) \<Rightarrow> db \<Rightarrow> db" where
  "update_pairing f s = s\<lparr>access := (access s)\<lparr>at_pairing := f (at_pairing (access s))\<rparr>\<rparr>"

abbreviation pairing :: "db \<Rightarrow> (string \<times> pairing_code) list" where
  "pairing s \<equiv> at_pairing (access s)"

definition pairing_ttl :: int where "pairing_ttl = 120000000000"

definition create_pairing_code :: "string \<Rightarrow> uuid \<Rightarrow> string dbtx" where
  "create_pairing_code code user =
     bind_tx (get_tx db_now) (\<lambda>now.
     seq_tx (check_tx (\<lambda>s. \<not> tbl_has code (pairing s) \<and> tbl_has user (accounts s)) ErrInternal)
    (seq_tx (mod_tx (update_pairing (tbl_ins code
         \<lparr>pc_user = user, pc_created = now, pc_expires = now + pairing_ttl, pc_used = None\<rparr>)))
      (ret_tx code)))"

definition redeemable :: "instant \<Rightarrow> pairing_code \<Rightarrow> bool" where
  "redeemable now c \<longleftrightarrow> pc_used c = None \<and> pc_expires c > now"

definition redeem_pairing_code :: "string \<Rightarrow> uuid dbtx" where
  "redeem_pairing_code code =
     seq_tx (guard_tx (code \<noteq> []) ErrNotFound)
    (bind_tx (row_tx ErrNotFound (\<lambda>s. case map_of (pairing s) code of
         None \<Rightarrow> None | Some c \<Rightarrow> if redeemable (db_now s) c then Some c else None)) (\<lambda>c.
     seq_tx (mod_tx (\<lambda>s. update_pairing (tbl_upd code (\<lambda>c. c\<lparr>pc_used := Some (db_now s)\<rparr>)) s))
       (ret_tx (pc_user c))))"

definition sweep_pairing_codes :: "nat dbtx" where
  "sweep_pairing_codes =
     bind_tx (get_tx (\<lambda>s. length (tbl_select (\<lambda>_ c. pc_used c \<noteq> None \<or> pc_expires c \<le> db_now s) (pairing s)))) (\<lambda>n.
     seq_tx (mod_tx (\<lambda>s. update_pairing (tbl_del (\<lambda>_ c. pc_used c \<noteq> None \<or> pc_expires c \<le> db_now s)) s))
       (ret_tx n))"

section \<open>Recorded replies\<close>

definition update_replies ::
    "(((string \<times> uuid) \<times> idempotency_record) list \<Rightarrow> ((string \<times> uuid) \<times> idempotency_record) list) \<Rightarrow> db \<Rightarrow> db" where
  "update_replies f s = s\<lparr>access := (access s)\<lparr>at_replies := f (at_replies (access s))\<rparr>\<rparr>"

abbreviation replies :: "db \<Rightarrow> ((string \<times> uuid) \<times> idempotency_record) list" where
  "replies s \<equiv> at_replies (access s)"

definition idempotency_retention :: int where "idempotency_retention = 7 * ns_per_day"

text \<open>The fingerprint of a request, over a hash of the standard library; the zero bytes keep the parts apart.\<close>

definition hash_request :: "(string \<Rightarrow> string) \<Rightarrow> string \<Rightarrow> string \<Rightarrow> string \<Rightarrow> string" where
  "hash_request digest request_method path body = digest (request_method @ [CHR 0x00] @ path @ [CHR 0x00] @ body)"

definition lookup_idempotent :: "string \<Rightarrow> uuid \<Rightarrow> string \<Rightarrow> (int \<times> string) option dbtx" where
  "lookup_idempotent key user request_hash =
     bind_tx (get_tx (\<lambda>s. map_of (replies s) (key, user))) (\<lambda>r. case r of
        None \<Rightarrow> ret_tx None
      | Some r \<Rightarrow> seq_tx (guard_tx (ik_hash r = request_hash) ErrValidation)
          (ret_tx (Some (ik_status r, ik_body r))))"

definition record_idempotent :: "string \<Rightarrow> uuid \<Rightarrow> uuid option \<Rightarrow> string \<Rightarrow> int \<Rightarrow> string \<Rightarrow> unit dbtx" where
  "record_idempotent key user storage request_hash status body =
     seq_tx (guard_tx (key \<noteq> []) ErrValidation)
    (bind_tx (get_tx db_now) (\<lambda>now.
     seq_tx (check_tx (\<lambda>s. tbl_has (key, user) (replies s)
          \<or> tbl_has user (accounts s) \<and> pred_option (\<lambda>st. tbl_has st (storage_rows s)) storage \<and> int4 status) ErrInternal)
       (mod_tx (\<lambda>s. if tbl_has (key, user) (replies s) then s
          else update_replies (tbl_ins (key, user) \<lparr>ik_storage = storage, ik_hash = request_hash, ik_status = status,
            ik_body = body, ik_created = now\<rparr>) s))))"

definition sweep_idempotency_records :: "instant \<Rightarrow> nat dbtx" where
  "sweep_idempotency_records now =
     bind_tx (get_tx (\<lambda>s. length (tbl_select (\<lambda>_ r. ik_created r < now - idempotency_retention) (replies s)))) (\<lambda>n.
     seq_tx (mod_tx (update_replies (tbl_del (\<lambda>_ r. ik_created r < now - idempotency_retention))))
       (ret_tx n))"

section \<open>Settings\<close>

definition get_setting :: "string \<Rightarrow> db \<Rightarrow> string option" where
  "get_setting key s = map_option sv_value (map_of (at_settings (access s)) key)"

definition set_setting :: "string \<Rightarrow> string \<Rightarrow> uuid \<Rightarrow> unit dbtx" where
  "set_setting key value user =
     bind_tx (get_tx db_now) (\<lambda>now.
     seq_tx (check_tx (\<lambda>s. tbl_has user (accounts s)) ErrInternal)
    (seq_tx (mod_tx (\<lambda>s. s\<lparr>access := (access s)\<lparr>at_settings :=
         (let t = at_settings (access s); v = \<lparr>sv_value = value, sv_by = Some user, sv_updated = now\<rparr> in
          if tbl_has key t then tbl_upd key (\<lambda>_. v) t else tbl_ins key v t)\<rparr>\<rparr>))
      (write_admin_audit (Some user) ActionSettingsUpdated (Some (TargetText key))
        (no_details\<lparr>ad_key := key, ad_value := value\<rparr>))))"

end
