(* ===== verification/Access.thy ===== *)
theory Access
  imports Accounts
begin

text \<open>
  What the sign-in promises over whole histories: sequences of session, pairing and recorded-reply calls by
  any clients in any order, with the clocks moving between them.
\<close>

section \<open>Histories\<close>

datatype access_op =
    NewSession string uuid "session_kind option" "string option" int | Lookup string | Touch string
  | EndSession string | SweepSessions | NewPassword uuid string string
  | ResetPassword "uuid option" uuid string | RemoveUser "uuid option" uuid
  | NewCode string uuid | Redeem string | SweepCodes
  | RecordReply string uuid "uuid option" string int string | SweepReplies instant
  | Clock instant instant

datatype access_reply = Done | SignedIn session | Paired uuid

definition reply_with :: "('a \<Rightarrow> access_reply) \<Rightarrow> 'a dbtx \<Rightarrow> db \<Rightarrow> (err + access_reply) \<times> db" where
  "reply_with f m s = (case in_tx m s of (r, s') \<Rightarrow> (map_sum id f r, s'))"

definition answer :: "access_op \<Rightarrow> db \<Rightarrow> (err + access_reply) \<times> db" where
  "answer op s = (case op of
      NewSession t u k l ttl \<Rightarrow> reply_with (\<lambda>_. Done) (create_session t u k l ttl) s
    | Lookup t \<Rightarrow> (case lookup_session t s of (r, s') \<Rightarrow> (map_sum id SignedIn r, s'))
    | Touch t \<Rightarrow> reply_with (\<lambda>_. Done) (touch_session t) s
    | EndSession t \<Rightarrow> reply_with (\<lambda>_. Done) (delete_session t) s
    | SweepSessions \<Rightarrow> reply_with (\<lambda>_. Done) sweep_sessions s
    | NewPassword i h kept \<Rightarrow> reply_with (\<lambda>_. Done) (change_password i h kept) s
    | ResetPassword a i h \<Rightarrow> reply_with (\<lambda>_. Done) (admin_reset_password a i h) s
    | RemoveUser a i \<Rightarrow> reply_with (\<lambda>_. Done) (delete_user a i) s
    | NewCode c u \<Rightarrow> reply_with (\<lambda>_. Done) (create_pairing_code c u) s
    | Redeem c \<Rightarrow> reply_with Paired (redeem_pairing_code c) s
    | SweepCodes \<Rightarrow> reply_with (\<lambda>_. Done) sweep_pairing_codes s
    | RecordReply k u st h status body \<Rightarrow> reply_with (\<lambda>_. Done) (record_idempotent k u st h status body) s
    | SweepReplies now \<Rightarrow> reply_with (\<lambda>_. Done) (sweep_idempotency_records now) s
    | Clock t u \<Rightarrow> (Inr Done, s\<lparr>db_now := t, app_now := u\<rparr>))"

fun history :: "access_op list \<Rightarrow> db \<Rightarrow> (access_op \<times> (err + access_reply)) list" where
  "history [] s = []"
| "history (op # ops) s = (case answer op s of (r, s') \<Rightarrow> (op, r) # history ops s')"

lemma history_Cons [simp]:
  "history (op # ops) s = (op, fst (answer op s)) # history ops (snd (answer op s))"
  by (simp split: prod.split)

declare history.simps(2) [simp del]

definition after :: "access_op list \<Rightarrow> db \<Rightarrow> db" where
  "after ops s = fold (\<lambda>op s. snd (answer op s)) ops s"

lemma after_simps [simp]: "after [] s = s" "after (op # ops) s = after ops (snd (answer op s))"
  by (simp_all add: after_def)

text \<open>Frames of the three tables.\<close>

lemma access_updates [simp]:
  "sessions (update_sessions f s) = f (sessions s)" "pairing (update_sessions f s) = pairing s"
  "replies (update_sessions f s) = replies s" "accounts (update_sessions f s) = accounts s"
  "sessions (update_pairing g s) = sessions s" "pairing (update_pairing g s) = g (pairing s)"
  "replies (update_pairing g s) = replies s" "accounts (update_pairing g s) = accounts s"
  "sessions (update_replies h s) = sessions s" "pairing (update_replies h s) = pairing s"
  "replies (update_replies h s) = h (replies s)" "accounts (update_replies h s) = accounts s"
  by (simp_all add: update_sessions_def update_pairing_def update_replies_def)

lemma forget_access_simps [simp]:
  "at_sessions (forget_access i a) = tbl_del (\<lambda>_ e. se_user e = i) (at_sessions a)"
  "at_pairing (forget_access i a) = tbl_del (\<lambda>_ c. pc_user c = i) (at_pairing a)"
  "at_replies (forget_access i a) = tbl_del (\<lambda>k _. snd k = i) (at_replies a)"
  by (simp_all add: forget_access_def)

lemma write_audit_iff [tx_iff]:
  "write_admin_audit actor action target details s = Inr r \<longleftrightarrow>
     (\<exists>i is. idgen s = i # is \<and> \<not> tbl_has i (audits s) \<and> user_exists actor s
       \<and> r = ((), s\<lparr>idgen := is, audits := tbl_ins i \<lparr>au_actor = actor, au_action = action,
           au_target = (if target = Some (TargetText []) then None else target),
           au_details = details, au_at = db_now s\<rparr> (audits s)\<rparr>))"
  by (auto simp: write_admin_audit_def tx_iff user_exists_def)

lemma reply_cases:
  assumes "reply_with f m s = (r, s')"
  obtains (refused) e where "m s = Inl e" "r = Inl e" "s' = s"
    | (ok) a where "m s = Inr (a, s')" "r = Inr (f a)"
  using assms by (auto simp: reply_with_def in_tx_def split: sum.splits)

section \<open>Sessions\<close>

text \<open>The steps that end a session, judged on the state they meet.\<close>

definition ends :: "string \<Rightarrow> access_op \<Rightarrow> db \<Rightarrow> bool" where
  "ends t op s = (case map_of (sessions s) t of None \<Rightarrow> False | Some e \<Rightarrow> (case op of
      Lookup t' \<Rightarrow> t' = t \<and> se_expires e \<le> app_now s
    | EndSession t' \<Rightarrow> t' = t
    | SweepSessions \<Rightarrow> se_expires e \<le> db_now s
    | NewPassword i h kept \<Rightarrow> se_user e = i \<and> (kept = [] \<or> t \<noteq> kept) \<and> \<not> isl (fst (answer op s))
    | ResetPassword a i h \<Rightarrow> se_user e = i \<and> \<not> isl (fst (answer op s))
    | RemoveUser a i \<Rightarrow> se_user e = i \<and> \<not> isl (fst (answer op s))
    | _ \<Rightarrow> False))"

fun ended :: "string \<Rightarrow> access_op list \<Rightarrow> db \<Rightarrow> bool" where
  "ended t [] s = False"
| "ended t (op # ops) s = (ends t op s \<or> ended t ops (snd (answer op s)))"

definition same_session :: "session \<Rightarrow> session \<Rightarrow> bool" where
  "same_session e e' \<longleftrightarrow> se_user e' = se_user e \<and> se_kind e' = se_kind e \<and> se_label e' = se_label e
     \<and> se_created e' = se_created e \<and> se_expires e' = se_expires e"

fun creates :: "string \<Rightarrow> access_op \<Rightarrow> bool" where
  "creates t (NewSession t' _ _ _ _) = (t' = t)"
| "creates t _ = False"

text \<open>One step: the table stays a table, an ended session is out, any other stays but for its last use.\<close>

lemma sessions_reply:
  "snd (reply_with f m s) = (case m s of Inl e \<Rightarrow> s | Inr (a, s') \<Rightarrow> s')"
  "isl (fst (reply_with f m s)) = isl (m s)"
  by (auto simp: reply_with_def in_tx_def split: sum.splits)

lemma change_password_iff:
  "change_password_tx i h kept s = Inr r \<longleftrightarrow> tbl_has i (accounts s)
     \<and> r = ((), update_sessions (tbl_del (\<lambda>k e. se_user e = i \<and> (kept = [] \<or> k \<noteq> kept)))
          (s\<lparr>accounts := tbl_upd i (\<lambda>a. a\<lparr>ac_hash := h\<rparr>) (accounts s)\<rparr>))"
  by (auto simp: change_password_tx_def update_account_def tx_iff)

lemma reset_password_iff:
  "admin_reset_password actor i h s = Inr r \<Longrightarrow> \<exists>s1. change_password_tx i h [] s = Inr ((), s1) \<and> sessions (snd r) = sessions s1
     \<and> pairing (snd r) = pairing s1 \<and> replies (snd r) = replies s1"
  by (auto simp: admin_reset_password_def tx_iff)

lemma delete_user_iff:
  "delete_user actor i s = Inr r \<longleftrightarrow> (\<exists>a j is. map_of (accounts s) i = Some a \<and> idgen s = j # is
     \<and> \<not> tbl_has j (audits s) \<and> user_exists actor (drop_user i s)
     \<and> r = ((), (drop_user i s)\<lparr>idgen := is, audits := tbl_ins j \<lparr>au_actor = actor, au_action = ActionUserDeleted,
           au_target = Some (TargetId i), au_details = no_details\<lparr>ad_username := ac_username a\<rparr>, au_at = db_now s\<rparr>
         (audits (drop_user i s))\<rparr>))"
  by (auto simp: delete_user_def tx_iff drop_user_def)

lemma drop_user_access [simp]:
  "sessions (drop_user i s) = tbl_del (\<lambda>_ e. se_user e = i) (sessions s)"
  "pairing (drop_user i s) = tbl_del (\<lambda>_ c. pc_user c = i) (pairing s)"
  "replies (drop_user i s) = tbl_del (\<lambda>k _. snd k = i) (replies s)"
  by (simp_all add: drop_user_def)

text \<open>The session table after each step.\<close>

lemma reply_frame:
  "(\<And>a s'. m s = Inr (a, s') \<Longrightarrow> g s' = x) \<Longrightarrow> g (snd (reply_with f m s)) = (if isl (m s) then g s else x)"
  by (cases "m s") (auto simp: reply_with_def in_tx_def)

lemma reply_total:
  assumes "m s = Inr (a, s')"
  shows "snd (reply_with f m s) = s'"
  using assms by (simp add: reply_with_def)

definition new_session :: "uuid \<Rightarrow> session_kind option \<Rightarrow> string option \<Rightarrow> int \<Rightarrow> db \<Rightarrow> session" where
  "new_session u k l ttl s = \<lparr>se_user = u, se_kind = (case k of None \<Rightarrow> SessionBrowser | Some k \<Rightarrow> k),
     se_label = l, se_seen = None, se_created = db_now s, se_expires = db_now s + ttl\<rparr>"

lemma create_session_iff:
  "create_session t u k l ttl s = Inr r \<longleftrightarrow> \<not> tbl_has t (sessions s) \<and> tbl_has u (accounts s)
     \<and> r = ((t, new_session u k l ttl s), update_sessions (tbl_ins t (new_session u k l ttl s)) s)"
  by (auto simp: create_session_def Let_def tx_iff new_session_def)

lemma sessions_changed:
  "sessions (snd (answer (NewSession t u k l ttl) s)) = (if tbl_has t (sessions s) \<or> \<not> tbl_has u (accounts s) then sessions s
     else tbl_ins t (new_session u k l ttl s) (sessions s))"
  "sessions (snd (answer (Lookup t) s)) = (case map_of (sessions s) t of None \<Rightarrow> sessions s
     | Some e \<Rightarrow> if se_expires e \<le> app_now s then tbl_del (\<lambda>k _. k = t) (sessions s) else sessions s)"
  "sessions (snd (answer (Touch t) s)) = tbl_map
     (\<lambda>k e. k = t \<and> (case se_seen e of None \<Rightarrow> True | Some u \<Rightarrow> u < db_now s - last_seen_throttle))
        (\<lambda>e. e\<lparr>se_seen := Some (db_now s)\<rparr>) (sessions s)"
  "sessions (snd (answer (EndSession t) s)) = tbl_del (\<lambda>k _. k = t) (sessions s)"
  "sessions (snd (answer SweepSessions s)) = tbl_del (\<lambda>_ e. se_expires e \<le> db_now s) (sessions s)"
  "sessions (snd (answer (NewPassword i h kept) s)) = (if isl (change_password i h kept s) then sessions s
     else tbl_del (\<lambda>k e. se_user e = i \<and> (kept = [] \<or> k \<noteq> kept)) (sessions s))"
  "sessions (snd (answer (ResetPassword a i h) s)) = (if isl (admin_reset_password a i h s) then sessions s
     else tbl_del (\<lambda>k e. se_user e = i) (sessions s))"
  "sessions (snd (answer (RemoveUser a i) s)) = (if isl (delete_user a i s) then sessions s
     else tbl_del (\<lambda>k e. se_user e = i) (sessions s))"
  subgoal by (simp add: answer_def reply_with_def in_tx_def create_session_def tx_defs Let_def new_session_def)
  subgoal by (simp add: answer_def lookup_session_def split: option.split)
  subgoal by (subst answer_def) (simp add: reply_total [OF iffD2 [OF mod_tx_iff]] touch_session_def)
  subgoal by (simp add: answer_def reply_with_def in_tx_def delete_session_def tx_defs tbl_del_key_absent tbl_has_keys)
  subgoal by (subst answer_def) (simp add: reply_with_def in_tx_def sweep_sessions_def tx_defs)
  subgoal unfolding answer_def access_op.case by (rule reply_frame, auto simp: change_password_def change_password_iff)
  subgoal unfolding answer_def access_op.case by (rule reply_frame, auto simp: change_password_iff dest!: reset_password_iff)
  subgoal unfolding answer_def access_op.case by (rule reply_frame, auto simp: delete_user_iff)
  done

lemma sessions_kept:
  "sessions (snd (answer (NewCode c u) s)) = sessions s"
  "sessions (snd (answer (Redeem c) s)) = sessions s"
  "sessions (snd (answer SweepCodes s)) = sessions s"
  "sessions (snd (answer (RecordReply key u st h status body) s)) = sessions s"
  "sessions (snd (answer (SweepReplies now) s)) = sessions s"
  "sessions (snd (answer (Clock x y) s)) = sessions s"
  by (auto simp: answer_def reply_with_def in_tx_def create_pairing_code_def redeem_pairing_code_def sweep_pairing_codes_def
      record_idempotent_def sweep_idempotency_records_def tx_iff split: sum.splits if_splits)

lemma map_of_tbl_map_session [simp]:
  "map_of (tbl_map P f t) k = map_option (\<lambda>r. if P k r then f r else r) (map_of t k)"
  by (rule map_of_tbl_map)

lemma commits: "\<not> isl (fst (answer (NewPassword i h kept) s)) \<longleftrightarrow> \<not> isl (change_password i h kept s)"
  "\<not> isl (fst (answer (ResetPassword a i h) s)) \<longleftrightarrow> \<not> isl (admin_reset_password a i h s)"
  "\<not> isl (fst (answer (RemoveUser a i) s)) \<longleftrightarrow> \<not> isl (delete_user a i s)"
  by (auto simp: answer_def reply_with_def in_tx_def split: sum.splits)

lemma sessions_distinct: "distinct (keys (sessions s)) \<Longrightarrow> distinct (keys (sessions (snd (answer op s))))"
  by (cases op) (simp_all add: sessions_changed sessions_kept distinct_keys_tbl_del tbl_has_keys split: option.split)

lemma session_absent:
  assumes d: "distinct (keys (sessions s))" and no: "map_of (sessions s) t = None" "\<not> creates t op"
  shows "map_of (sessions (snd (answer op s))) t = None"
  using no by (cases op) (simp_all add: sessions_changed sessions_kept map_of_tbl_del [OF d] map_of_insert_fresh tbl_has_def
      split: option.split)

lemma session_step:
  assumes d: "distinct (keys (sessions s))" and e: "map_of (sessions s) t = Some e"
  shows "if ends t op s then map_of (sessions (snd (answer op s))) t = None
       else \<exists>e'. map_of (sessions (snd (answer op s))) t = Some e' \<and> same_session e e'"
  using e by (cases op) (auto simp: sessions_changed sessions_kept map_of_tbl_del [OF d] map_of_insert_fresh tbl_has_def
      ends_def commits same_session_def split: option.split)

text \<open>The lookup after a history.\<close>

lemma absent_after:
  "distinct (keys (sessions s)) \<Longrightarrow> map_of (sessions s) t = None \<Longrightarrow> \<forall>op \<in> set ops. \<not> creates t op \<Longrightarrow>
   map_of (sessions (after ops s)) t = None"
  by (induction ops arbitrary: s) (auto simp: sessions_distinct session_absent)

lemma session_after:
  assumes "distinct (keys (sessions s))" and "map_of (sessions s) t = Some e" and "\<forall>op \<in> set ops. \<not> creates t op"
  shows "if ended t ops s then map_of (sessions (after ops s)) t = None
       else \<exists>e'. map_of (sessions (after ops s)) t = Some e' \<and> same_session e e'"
  using assms
proof (induction ops arbitrary: s e)
  case (Cons op ops)
  note step = session_step [OF Cons.prems(1,2), of op]
  note d = sessions_distinct [OF Cons.prems(1), of op]
  show ?case
  proof (cases "ends t op s")
    case True
    with step absent_after [OF d] Cons.prems(3) show ?thesis by simp
  next
    case False
    with step obtain e1 where e1: "map_of (sessions (snd (answer op s))) t = Some e1" "same_session e e1" by auto
    from Cons.IH [OF d e1(1)] Cons.prems(3) False e1(2) show ?thesis by (auto simp: same_session_def)
  qed
qed (simp add: same_session_def)

text \<open>
  C36. A session token opens exactly the session it was issued for, and exactly until it ends: after any
  history of sign-ins, lookups, sweeps, password changes, resets and account removals by anyone, a lookup of
  the token answers with that session if and only if no step of the history ended it and it has not expired
  by the clock of the process; a token that is refused once stays refused.
\<close>

theorem session_accepted_until_ended:
  assumes "distinct (keys (sessions s))" and "map_of (sessions s) t = Some e" and "list_all (Not \<circ> creates t) ops"
  shows "(case fst (lookup_session t (after ops s)) of
       Inl x \<Rightarrow> x = ErrNotFound \<and> (ended t ops s \<or> se_expires e \<le> app_now (after ops s))
     | Inr e' \<Rightarrow> same_session e e' \<and> \<not> ended t ops s \<and> app_now (after ops s) < se_expires e)"
  using session_after [OF assms(1,2), of ops] assms(3)
  by (auto simp: lookup_session_def same_session_def list_all_iff split: if_splits)

section \<open>Pairing codes\<close>

definition issue :: "uuid \<Rightarrow> db \<Rightarrow> pairing_code" where
  "issue u s = \<lparr>pc_user = u, pc_created = db_now s, pc_expires = db_now s + pairing_ttl, pc_used = None\<rparr>"

lemma pairing_changed:
  "pairing (snd (answer (NewCode c u) s)) = (if tbl_has c (pairing s) \<or> \<not> tbl_has u (accounts s) then pairing s
     else tbl_ins c (issue u s) (pairing s))"
  "pairing (snd (answer (Redeem c) s)) = (if isl (redeem_pairing_code c s) then pairing s
     else tbl_upd c (\<lambda>c. c\<lparr>pc_used := Some (db_now s)\<rparr>) (pairing s))"
  "pairing (snd (answer SweepCodes s)) = tbl_del (\<lambda>_ c. pc_used c \<noteq> None \<or> pc_expires c \<le> db_now s) (pairing s)"
  "pairing (snd (answer (RemoveUser a i) s)) = (if isl (delete_user a i s) then pairing s
     else tbl_del (\<lambda>_ c. pc_user c = i) (pairing s))"
  subgoal by (simp add: answer_def reply_with_def in_tx_def create_pairing_code_def tx_defs Let_def issue_def)
  subgoal unfolding answer_def access_op.case by (rule reply_frame, auto simp: redeem_pairing_code_def tx_iff)
  subgoal by (simp add: answer_def reply_with_def in_tx_def sweep_pairing_codes_def tx_defs)
  subgoal unfolding answer_def access_op.case by (rule reply_frame, auto simp: delete_user_iff)
  done

lemma pairing_kept:
  "pairing (snd (answer (NewSession t u k l ttl) s)) = pairing s"
  "pairing (snd (answer (Lookup t) s)) = pairing s"
  "pairing (snd (answer (Touch t) s)) = pairing s"
  "pairing (snd (answer (EndSession t) s)) = pairing s"
  "pairing (snd (answer SweepSessions s)) = pairing s"
  "pairing (snd (answer (NewPassword i h kept) s)) = pairing s"
  "pairing (snd (answer (ResetPassword a i h) s)) = pairing s"
  "pairing (snd (answer (RecordReply key u st h status body) s)) = pairing s"
  "pairing (snd (answer (SweepReplies now) s)) = pairing s"
  "pairing (snd (answer (Clock x y) s)) = pairing s"
  by (auto simp: answer_def reply_with_def in_tx_def create_session_iff lookup_session_def touch_session_def
      delete_session_def sweep_sessions_def change_password_def change_password_iff
      record_idempotent_def sweep_idempotency_records_def tx_iff dest!: reset_password_iff
      split: sum.splits option.splits if_splits)

text \<open>A code that is still to be redeemed, its successful redemptions and the times it was issued.\<close>

definition open_code :: "string \<Rightarrow> db \<Rightarrow> bool" where
  "open_code code s = (case map_of (pairing s) code of None \<Rightarrow> False | Some c \<Rightarrow> pc_used c = None)"

definition redeems :: "string \<Rightarrow> access_op \<times> (err + access_reply) \<Rightarrow> bool" where
  "redeems code = (\<lambda>(op, r). op = Redeem code \<and> \<not> isl r)"

definition issues :: "string \<Rightarrow> access_op \<times> (err + access_reply) \<Rightarrow> bool" where
  "issues code = (\<lambda>(op, r). (case op of NewCode c _ \<Rightarrow> c = code | _ \<Rightarrow> False) \<and> \<not> isl r)"

definition occurs :: "('a \<Rightarrow> bool) \<Rightarrow> 'a list \<Rightarrow> nat" where
  "occurs P xs = length (filter P xs)"

lemma new_code_reply: "isl (fst (answer (NewCode c u) s)) \<longleftrightarrow> tbl_has c (pairing s) \<or> \<not> tbl_has u (accounts s)"
  by (simp add: answer_def reply_with_def in_tx_def create_pairing_code_def tx_defs Let_def)

lemma new_code_done: "fst (answer (NewCode c u) s) = Inr Done \<longleftrightarrow> \<not> tbl_has c (pairing s) \<and> tbl_has u (accounts s)"
  by (simp add: answer_def reply_with_def in_tx_def create_pairing_code_def tx_defs Let_def)

lemma redeem_iff:
  "redeem_pairing_code code s = Inr r \<longleftrightarrow> code \<noteq> [] \<and> (\<exists>c. map_of (pairing s) code = Some c \<and> redeemable (db_now s) c
     \<and> r = (pc_user c, update_pairing (tbl_upd code (\<lambda>c. c\<lparr>pc_used := Some (db_now s)\<rparr>)) s))"
  by (auto simp: redeem_pairing_code_def tx_iff split: option.splits if_splits)

lemma redeem_reply:
  "fst (answer (Redeem code) s) = Inr x \<longleftrightarrow> code \<noteq> [] \<and> (\<exists>c. map_of (pairing s) code = Some c
     \<and> redeemable (db_now s) c \<and> x = Paired (pc_user c))"
  by (cases "map_of (pairing s) code")
    (auto simp: answer_def reply_with_def in_tx_def redeem_pairing_code_def tx_defs)

lemma pairing_distinct: "distinct (keys (pairing s)) \<Longrightarrow> distinct (keys (pairing (snd (answer op s))))"
  by (cases op) (simp_all add: pairing_changed pairing_kept distinct_keys_tbl_del tbl_has_keys)

lemma redeem_refused: "isl (redeem_pairing_code code s) = isl (fst (answer (Redeem code) s))"
  by (simp add: answer_def reply_with_def in_tx_def split: sum.splits prod.splits)

lemma redeem_fails: "isl (fst (answer (Redeem code) s)) \<longleftrightarrow> code = []
    \<or> (case map_of (pairing s) code of None \<Rightarrow> True | Some c \<Rightarrow> \<not> redeemable (db_now s) c)"
  by (cases "map_of (pairing s) code") (auto simp: answer_def reply_with_def in_tx_def redeem_pairing_code_def tx_defs)

lemma code_step:
  assumes d: "distinct (keys (pairing s))"
  shows "of_bool (redeems code (op, fst (answer op s))) + of_bool (open_code code (snd (answer op s)))
       \<le> of_bool (issues code (op, fst (answer op s))) + (of_bool (open_code code s) :: nat)"
  by (cases op) (auto simp: pairing_changed pairing_kept redeems_def issues_def open_code_def new_code_reply redeem_refused
      redeem_fails map_of_tbl_del [OF d] map_of_insert_fresh tbl_has_def issue_def redeemable_def split: option.splits if_splits)

lemma owner_step:
  assumes d: "distinct (keys (pairing s))" and c: "map_of (pairing (snd (answer op s))) code = Some c'"
  shows "(\<exists>c. map_of (pairing s) code = Some c \<and> pc_user c' = pc_user c)
       \<or> op = NewCode code (pc_user c') \<and> fst (answer op s) = Inr Done"
  using c by (cases op) (auto simp: pairing_changed pairing_kept map_of_tbl_del [OF d] map_of_insert_fresh tbl_has_def issue_def
      new_code_done split: option.splits if_splits)

lemma redemptions_bounded:
  "distinct (keys (pairing s)) \<Longrightarrow>
   occurs (redeems code) (history ops s) \<le> occurs (issues code) (history ops s) + of_bool (open_code code s)"
proof (induction ops arbitrary: s)
  case (Cons op ops)
  from Cons.IH [OF pairing_distinct [OF Cons.prems], of op] code_step [OF Cons.prems, of code op]
  show ?case by (auto simp: occurs_def)
qed (simp add: occurs_def)

lemma redemptions_owned:
  assumes "distinct (keys (pairing s))" and "(Redeem code, Inr (Paired u)) \<in> set (history ops s)"
  shows "(NewCode code u, Inr Done) \<in> set (history ops s) \<or> (\<exists>c. map_of (pairing s) code = Some c \<and> pc_user c = u)"
  using assms
proof (induction ops arbitrary: s)
  case (Cons op ops)
  show ?case
  proof (cases "(Redeem code, Inr (Paired u)) = (op, fst (answer op s))")
    case True
    then have "fst (answer (Redeem code) s) = Inr (Paired u)" by simp
    then show ?thesis by (auto simp: redeem_reply)
  next
    case False
    with Cons.prems(2) have "(Redeem code, Inr (Paired u)) \<in> set (history ops (snd (answer op s)))" by auto
    from Cons.IH [OF pairing_distinct [OF Cons.prems(1)] this] owner_step [OF Cons.prems(1), of op code]
    show ?thesis by auto
  qed
qed simp

text \<open>
  A pairing code signs in at most once for each time it was issued, whatever else happens in between
  and however many clients race for it, and only ever as the account it was issued to.
\<close>

theorem pairing_code_redeemed_once:
  assumes "distinct (keys (pairing s))" and "map_of (pairing s) code = None"
  shows "occurs (redeems code) (history ops s) \<le> occurs (issues code) (history ops s)
    \<and> ((Redeem code, Inr (Paired u)) \<in> set (history ops s) \<longrightarrow> (NewCode code u, Inr Done) \<in> set (history ops s))"
  using redemptions_bounded [OF assms(1), of code ops] redemptions_owned [OF assms(1), of code u ops] assms(2)
  by (simp add: open_code_def)

section \<open>Recorded replies\<close>

text \<open>The steps that take a recorded reply away: the removal of its user, and a sweep past its retention.\<close>

definition drops_reply :: "uuid \<Rightarrow> instant \<Rightarrow> access_op \<Rightarrow> bool" where
  "drops_reply user recorded op = (case op of
      RemoveUser _ i \<Rightarrow> i = user
    | SweepReplies now \<Rightarrow> recorded + idempotency_retention < now
    | _ \<Rightarrow> False)"

lemma replies_changed:
  "replies (snd (answer (RecordReply key u st h status body) s)) = (if isl (record_idempotent key u st h status body s)
       \<or> tbl_has (key, u) (replies s) then replies s
     else tbl_ins (key, u) \<lparr>ik_storage = st, ik_hash = h, ik_status = status, ik_body = body, ik_created = db_now s\<rparr> (replies s))"
  "replies (snd (answer (SweepReplies now) s)) = tbl_del (\<lambda>_ r. ik_created r < now - idempotency_retention) (replies s)"
  "replies (snd (answer (RemoveUser a i) s)) = (if isl (delete_user a i s) then replies s
     else tbl_del (\<lambda>k _. snd k = i) (replies s))"
  subgoal unfolding answer_def access_op.case by (subst reply_frame, auto simp: record_idempotent_def tx_iff)
  subgoal by (simp add: answer_def reply_with_def in_tx_def sweep_idempotency_records_def tx_defs)
  subgoal unfolding answer_def access_op.case by (rule reply_frame, auto simp: delete_user_iff)
  done

lemma replies_kept:
  "replies (snd (answer (NewSession t u k l ttl) s)) = replies s"
  "replies (snd (answer (Lookup t) s)) = replies s"
  "replies (snd (answer (Touch t) s)) = replies s"
  "replies (snd (answer (EndSession t) s)) = replies s"
  "replies (snd (answer SweepSessions s)) = replies s"
  "replies (snd (answer (NewPassword i h kept) s)) = replies s"
  "replies (snd (answer (ResetPassword a i h) s)) = replies s"
  "replies (snd (answer (NewCode c u) s)) = replies s"
  "replies (snd (answer (Redeem c) s)) = replies s"
  "replies (snd (answer SweepCodes s)) = replies s"
  "replies (snd (answer (Clock x y) s)) = replies s"
  by (auto simp: answer_def reply_with_def in_tx_def create_session_iff lookup_session_def touch_session_def
      delete_session_def sweep_sessions_def change_password_def change_password_iff create_pairing_code_def redeem_iff
      sweep_pairing_codes_def tx_iff dest!: reset_password_iff split: sum.splits option.splits if_splits)

lemma replies_distinct: "distinct (keys (replies s)) \<Longrightarrow> distinct (keys (replies (snd (answer op s))))"
  by (cases op) (simp_all add: replies_changed replies_kept distinct_keys_tbl_del tbl_has_keys)

lemma reply_step:
  assumes "distinct (keys (replies s))" and "map_of (replies s) (key, user) = Some r"
    and "\<not> drops_reply user (ik_created r) op"
  shows "map_of (replies (snd (answer op s))) (key, user) = Some r"
  using assms(2,3) by (cases op) (auto simp: replies_changed replies_kept drops_reply_def map_of_tbl_del [OF assms(1)]
      map_of_insert_fresh tbl_has_def)

lemma reply_after:
  "distinct (keys (replies s)) \<Longrightarrow> map_of (replies s) (key, user) = Some r \<Longrightarrow>
   list_all (Not \<circ> drops_reply user (ik_created r)) ops \<Longrightarrow> map_of (replies (after ops s)) (key, user) = Some r"
proof (induction ops arbitrary: s)
  case (Cons op ops)
  from Cons.IH [OF replies_distinct [OF Cons.prems(1)] reply_step [OF Cons.prems(1,2)]] Cons.prems(3)
  show ?case by simp
qed simp

text \<open>
  A recorded reply is replayed: once the first attempt of a request has recorded its reply under a key,
  every later attempt by the same account gets exactly that reply, whatever is recorded, swept or changed in
  between within the retention and while the account exists; the key with another request is refused.
\<close>

theorem recorded_reply_replayed:
  assumes "distinct (keys (replies s))" and "map_of (replies s) (key, user) = None"
    and "record_idempotent key user storage h status body s = Inr ((), s')"
    and "list_all (Not \<circ> drops_reply user (db_now s)) ops"
  shows "fst (in_tx (lookup_idempotent key user h') (after ops s')) =
    (if h' = h then Inr (Some (status, body)) else Inl ErrValidation)"
proof -
  let ?r = "\<lparr>ik_storage = storage, ik_hash = h, ik_status = status, ik_body = body, ik_created = db_now s\<rparr>"
  have new: "replies s' = tbl_ins (key, user) ?r (replies s)"
    using assms(2,3) by (auto simp: record_idempotent_def tx_iff tbl_has_def)
  have "map_of (replies s') (key, user) = Some ?r" "distinct (keys (replies s'))"
    using assms(1,2) by (simp_all add: new map_of_insert_fresh tbl_has_def map_of_None_keys)
  then have "map_of (replies (after ops s')) (key, user) = Some ?r" using assms(4) by (intro reply_after) simp_all
  then show ?thesis by (simp add: lookup_idempotent_def in_tx_def tx_defs)
qed

text \<open>The fingerprint tells requests apart as far as the hash does: the parts are separated by a byte none of them has.\<close>

lemma hash_request_parts:
  assumes "inj digest" and "CHR 0x00 \<notin> set (m1 @ m2 @ p1 @ p2)" and "hash_request digest m1 p1 b1 = hash_request digest m2 p2 b2"
  shows "m1 = m2 \<and> p1 = p2 \<and> b1 = b2"
proof -
  have split: "x @ CHR 0x00 # y = x' @ CHR 0x00 # y' \<Longrightarrow> CHR 0x00 \<notin> set x \<Longrightarrow> CHR 0x00 \<notin> set x' \<Longrightarrow> x = x' \<and> y = y'"
    for x x' y y' :: string
    by (induction x arbitrary: x') (case_tac x'; auto)+
  from assms have "m1 @ CHR 0x00 # (p1 @ CHR 0x00 # b1) = m2 @ CHR 0x00 # (p2 @ CHR 0x00 # b2)"
    by (simp add: hash_request_def inj_eq)
  from split [OF this] assms(2) have "m1 = m2" and rest: "p1 @ CHR 0x00 # b1 = p2 @ CHR 0x00 # b2" by auto
  from split [OF rest] assms(2) \<open>m1 = m2\<close> show ?thesis by auto
qed

section \<open>Removing an account\<close>

text \<open>Every place of the schema that can name an account.\<close>

definition names_user :: "uuid \<Rightarrow> db \<Rightarrow> bool" where
  "names_user i s \<longleftrightarrow> tbl_has i (accounts s) \<or> i \<in> (snd \<circ> fst) ` set (memberships s)
     \<or> Some i \<in> (lg_by \<circ> snd) ` set (logs s) \<or> Some i \<in> (jb_created_by \<circ> snd) ` set (jobs s)
     \<or> Some i \<in> (sl_by \<circ> snd) ` set (shopping_lists s) \<or> Some i \<in> (au_actor \<circ> snd) ` set (audits s)
     \<or> i \<in> (se_user \<circ> snd) ` set (sessions s) \<or> i \<in> (pc_user \<circ> snd) ` set (pairing s)
     \<or> i \<in> (snd \<circ> fst) ` set (replies s) \<or> Some i \<in> (sv_by \<circ> snd) ` set (at_settings (access s))
     \<or> i \<in> (snd \<circ> fst) ` set (gt_progress (gam s)) \<or> i \<in> (ce_user \<circ> snd) ` set (gt_contributions (gam s))
     \<or> i \<in> snd ` set (gt_contributors (gam s)) \<or> i \<in> (fst \<circ> snd) ` set (gt_unlocked (gam s))
     \<or> i \<in> fst ` set (gt_holidays (gam s))"

lemma forgets: "forget i u \<noteq> Some i"
  by (simp add: forget_def)

lemma dropped_user_unnamed: "\<not> names_user i (drop_user i s)"
  unfolding names_user_def de_Morgan_disj
  by (intro conjI) (auto simp: drop_user_def forget_player_def forget_access_def tbl_has_keys tbl_del_def tbl_map_def
      forgets forgets [symmetric])

lemma drop_user_shifts:
  assumes ok: "rows_ok s"
  shows "shifts (\<lambda>_. 0) s (drop_user i s)"
proof -
  let ?f = "\<lambda>l. l\<lparr>lg_by := forget i (lg_by l)\<rparr>"
  let ?s1 = "s\<lparr>logs := tbl_map (\<lambda>_ _. True) ?f (logs s)\<rparr>"
  have l: "log_ok ?s1 l" if "(k, l) \<in> set (logs ?s1)" for k l
    using that ok by (auto simp: set_tbl_map rows_ok_def log_ok_def)
  have b: "batch_ok ?s1 b = batch_ok s b" for b by (rule batch_ok_frame) simp_all
  have "rows_ok ?s1" using ok l b by (auto simp: rows_ok_def)
  moreover have "ledger_total p ?s1 = ledger_total p s" for p
    unfolding ledger_total_def by (simp add: tbl_sum_map_cong)
  ultimately have 1: "shifts (\<lambda>_. 0) s ?s1" by (simp add: shifts_def gap_def stock_total_def)
  have "shifts (\<lambda>_. 0) ?s1 (drop_user i s)"
    by (rule shifts_other [OF shifts_rows [OF 1]]) (simp_all add: drop_user_def)
  from shifts_trans [OF 1 this] show ?thesis by simp
qed

lemma delete_user_shifts:
  assumes ok: "rows_ok s" and run: "delete_user actor i s = Inr (u, s')"
  shows "shifts (\<lambda>_. 0) s s'"
proof -
  note 1 = drop_user_shifts [OF ok, of i]
  have "shifts (\<lambda>_. 0) (drop_user i s) s'"
    using run by (intro shifts_other [OF shifts_rows [OF 1]]) (auto simp: delete_user_iff)
  from shifts_trans [OF 1 this] show ?thesis by simp
qed

interpretation delete_user_op: ledger_operation "\<lambda>(actor, i). delete_user actor i"
  by unfold_locales (auto intro: delete_user_shifts)

text \<open>
  Removing an account: it is named nowhere afterwards and no session, pairing code or recorded reply of
  it is left, yet the stock and every ledger row are the same but for the name; the removal is in the trail,
  and an administrator cannot remove the own account, because the trail could not name who did it.
\<close>

theorem delete_user_correct:
  assumes inv: "stock_inv s" and run: "delete_user actor i s = Inr (u, s')"
  shows "stock_inv s' \<and> batches s' = batches s
    \<and> map (\<lambda>(k, l). (k, l\<lparr>lg_by := None\<rparr>)) (logs s') = map (\<lambda>(k, l). (k, l\<lparr>lg_by := None\<rparr>)) (logs s)
    \<and> \<not> names_user i s' \<and> actor \<noteq> Some i
    \<and> length (audits s') = Suc (length (audits s))
    \<and> (au_actor (snd (last (audits s'))), au_action (snd (last (audits s'))), au_target (snd (last (audits s'))))
        = (actor, ActionUserDeleted, Some (TargetId i))"
proof -
  have inv': "stock_inv s'" using delete_user_op.commit_keeps [of s "(actor, i)"] inv run by simp
  obtain a j "is" where a: "map_of (accounts s) i = Some a" and ac: "user_exists actor (drop_user i s)"
    and s': "s' = (drop_user i s)\<lparr>idgen := is, audits := tbl_ins j \<lparr>au_actor = actor, au_action = ActionUserDeleted,
           au_target = Some (TargetId i), au_details = no_details\<lparr>ad_username := ac_username a\<rparr>, au_at = db_now s\<rparr>
         (audits (drop_user i s))\<rparr>"
    using run by (auto simp: delete_user_iff)
  have self: "actor \<noteq> Some i" using ac by (auto simp: user_exists_def drop_user_def tbl_has_keys tbl_del_def)
  have "\<not> names_user i s'" using dropped_user_unnamed [of i s] self by (auto simp: names_user_def s')
  moreover have "map (\<lambda>(k, l). (k, l\<lparr>lg_by := None\<rparr>)) (logs s') = map (\<lambda>(k, l). (k, l\<lparr>lg_by := None\<rparr>)) (logs s)"
    by (simp add: s' drop_user_def tbl_map_def case_prod_beta)
  ultimately show ?thesis using inv' self
    by (simp add: s' drop_user_def tbl_ins_def tbl_map_def)
qed

section \<open>Examples\<close>

text \<open>Two accounts, one signed in; the second administers.\<close>

definition access_db :: db where
  "access_db = demo_db\<lparr>accounts := [(7, some_account), (8, some_account\<lparr>ac_username := ''bob'', ac_admin := True\<rparr>)],
     db_now := 10, app_now := 10, access := (access demo_db)\<lparr>at_sessions := [(''t'', new_session 7 None None 100 demo_db)]\<rparr>,
     logs := [(9, \<lparr>lg_product = 5, lg_batch = Some 20, lg_change = 3, lg_reason = ReasonPurchase, lg_by = Some 7, lg_at = 0\<rparr>)]\<rparr>"

definition sign_in_day :: "access_op list" where
  "sign_in_day = [Lookup ''t'', NewSession ''u'' 8 None None 50, Clock 20 20, Touch ''t'', SweepSessions]"

lemma access_db_tables:
  "distinct (keys (sessions access_db))" "distinct (keys (pairing access_db))" "distinct (keys (replies access_db))"
  "map_of (sessions access_db) ''t'' = Some (new_session 7 None None 100 demo_db)"
  "map_of (pairing access_db) ''c'' = None" "map_of (replies access_db) (''k'', 7) = None"
  by (simp_all add: access_db_def demo_defs)

theorem session_accepted_until_ended_witness:
  "\<not> isl (fst (lookup_session ''t'' (after sign_in_day access_db)))
   \<and> fst (lookup_session ''t'' (after (sign_in_day @ [NewPassword 7 ''hash2'' ''u'']) access_db)) = Inl ErrNotFound"
proof
  have "list_all (Not \<circ> creates ''t'') sign_in_day" "list_all (Not \<circ> creates ''t'') (sign_in_day @ [NewPassword 7 ''hash2'' ''u''])"
    by (simp_all add: sign_in_day_def)
  note t = session_accepted_until_ended [OF access_db_tables(1,4) this(1)]
    session_accepted_until_ended [OF access_db_tables(1,4) this(2)]
  have e: "\<not> ended ''t'' sign_in_day access_db" "ended ''t'' (sign_in_day @ [NewPassword 7 ''hash2'' ''u'']) access_db"
    and x: "app_now (after sign_in_day access_db) < 100"
    by code_simp+
  have y: "se_expires (new_session 7 None None 100 demo_db) = 100" by (simp add: new_session_def demo_defs)
  show "\<not> isl (fst (lookup_session ''t'' (after sign_in_day access_db)))"
    using t(1) e(1) x y by (auto split: sum.splits)
  show "fst (lookup_session ''t'' (after (sign_in_day @ [NewPassword 7 ''hash2'' ''u'']) access_db)) = Inl ErrNotFound"
    using t(2) e(2) by (auto split: sum.splits)
qed

definition pairing_race :: "access_op list" where
  "pairing_race = [NewCode ''c'' 7, Redeem ''c'', Redeem ''c'', Redeem ''c'']"

theorem pairing_code_redeemed_once_witness:
  "occurs (redeems ''c'') (history pairing_race access_db) = 1"
proof -
  have "occurs (redeems ''c'') (history pairing_race access_db) \<le> occurs (issues ''c'') (history pairing_race access_db)"
    using pairing_code_redeemed_once [OF access_db_tables(2,5)] by blast
  moreover have "occurs (issues ''c'') (history pairing_race access_db) = 1"
    "(Redeem ''c'', Inr (Paired 7)) \<in> set (history pairing_race access_db)" by code_simp+
  moreover from this(2) have "occurs (redeems ''c'') (history pairing_race access_db) \<noteq> 0"
    by (force simp: occurs_def redeems_def filter_empty_conv)
  ultimately show ?thesis by simp
qed

definition first_reply :: db where
  "first_reply = (case record_idempotent ''k'' 7 None ''h'' 201 ''{}'' access_db of Inr (_, s) \<Rightarrow> s | Inl _ \<Rightarrow> access_db)"

definition reply_week :: "access_op list" where
  "reply_week = [RecordReply ''k'' 7 None ''h'' 500 ''again'', RecordReply ''k'' 8 None ''x'' 200 ''other'', SweepReplies 604800000000000]"

theorem recorded_reply_replayed_witness:
  "fst (in_tx (lookup_idempotent ''k'' 7 ''h'') (after reply_week first_reply)) = Inr (Some (201, ''{}''))"
proof -
  have run: "record_idempotent ''k'' 7 None ''h'' 201 ''{}'' access_db = Inr ((), first_reply)"
    by (simp add: first_reply_def record_idempotent_def tx_defs access_db_def demo_defs tbl_has_def int4_def)
  have "list_all (Not \<circ> drops_reply 7 (db_now access_db)) reply_week"
    by (simp add: reply_week_def drops_reply_def access_db_def idempotency_retention_def ns_per_day_def)
  from recorded_reply_replayed [OF access_db_tables(3,6) run this, of "''h''"] show ?thesis by simp
qed

lemma access_db_inv: "stock_inv access_db"
  by (simp add: stock_inv_def rows_ok_def batch_ok_def log_ok_def container_ok_def tbl_has_def
      ledger_total_def stock_total_def access_db_def demo_defs)

theorem delete_user_correct_witness:
  "\<exists>s'. delete_user (Some 8) 7 access_db = Inr ((), s') \<and> sessions s' = [] \<and> stock_total 5 s' = 3"
proof -
  have "\<not> isl (delete_user (Some 8) 7 access_db)" by code_simp
  then obtain s' where run: "delete_user (Some 8) 7 access_db = Inr ((), s')"
    by (cases "delete_user (Some 8) 7 access_db") auto
  note t = delete_user_correct [OF access_db_inv run]
  have "sessions s' = []" using run by (auto simp: delete_user_iff access_db_def new_session_def tbl_del_def)
  moreover have "stock_total 5 s' = 3" using t by (simp add: stock_total_def access_db_def demo_defs)
  ultimately show ?thesis using run by blast
qed

end
