(* ===== verification/Storages.thy ===== *)
theory Storages
  imports Accounts Categories
begin

text \<open>
  \<open>internal/store/storages.go\<close>: a storage is created with its starter categories, deleted with everything
  scoped to it, and shared by memberships. Whether PostgreSQL checks the RESTRICT references of the
  schema before the cascades of the same DELETE have removed the referring rows is a parameter.
\<close>

section \<open>Creating\<close>

type_synonym storage_view = "uuid \<times> storage_row"

text \<open>Name, name of the parent (empty for a root) and days, parents first.\<close>

definition starter_categories :: "(string \<times> string \<times> int option) list" where
  "starter_categories =
     [(''Food'', '''', Some 365), (''Dairy'', ''Food'', Some 10), (''Produce'', ''Food'', Some 7),
      (''Meat'', ''Food'', Some 4), (''Canned'', ''Food'', Some 730), (''Household'', '''', None),
      (''Collectibles'', '''', None)]"

definition seed_category ::
    "uuid \<Rightarrow> string \<times> string \<times> int option \<Rightarrow> (string \<times> uuid) list \<Rightarrow> (string \<times> uuid) list dbtx" where
  "seed_category storage c ids = (case c of (name, parent, days) \<Rightarrow>
     bind_tx new_id (\<lambda>i.
     bind_tx (if parent = [] then ret_tx None
              else row_tx ErrInternal (\<lambda>_. map_option Some (map_of ids parent))) (\<lambda>p.
     bind_tx (get_tx db_now) (\<lambda>now.
     seq_tx (insert_category_row i \<lparr>cg_storage = storage, cg_parent = p, cg_name = name, cg_days = days,
         cg_created = now, cg_updated = now\<rparr>)
       (ret_tx ((name, i) # ids))))))"

definition seed_starter_categories :: "uuid \<Rightarrow> unit dbtx" where
  "seed_starter_categories storage =
     bind_tx (fold_tx (seed_category storage) starter_categories []) (\<lambda>_. ret_tx ())"

definition create_storage :: "uuid option \<Rightarrow> string \<Rightarrow> storage_view dbtx" where
  "create_storage actor name =
     bind_tx new_id (\<lambda>i. bind_tx (get_tx db_now) (\<lambda>now.
     let row = \<lparr>sr_name = name, sr_created = now\<rparr> in
     seq_tx (check_tx (\<lambda>s. \<not> tbl_has i (storage_rows s)) ErrInternal)
    (seq_tx (mod_tx (\<lambda>s. s\<lparr>storage_rows := tbl_ins i row (storage_rows s)\<rparr>))
    (seq_tx (seed_starter_categories i)
    (seq_tx (write_admin_audit actor ActionStorageCreated (Some (TargetId i)) (no_details\<lparr>ad_storage_name := name\<rparr>))
      (ret_tx (i, row)))))))"

section \<open>Deleting\<close>

text \<open>
  The referential actions of every table that names a storage, a product, a location, a container, a
  batch, a list or a quest. Locations and categories hang below rows of their own storage only, so
  their own cascades add nothing.
\<close>

definition gone :: "('r \<Rightarrow> uuid) \<Rightarrow> uuid \<Rightarrow> 'r table \<Rightarrow> uuid list" where
  "gone owner storage t = keys (tbl_select (\<lambda>_ r. owner r = storage) t)"

definition clear_ref :: "uuid list \<Rightarrow> uuid option \<Rightarrow> uuid option" where
  "clear_ref ids r = (case r of None \<Rightarrow> None | Some i \<Rightarrow> if i \<in> set ids then None else Some i)"

definition drop_storage_play :: "uuid \<Rightarrow> gamification_tables \<Rightarrow> gamification_tables" where
  "drop_storage_play storage g = g\<lparr>gt_progress := tbl_del (\<lambda>k _. fst k = storage) (gt_progress g),
     gt_contributions := tbl_del (\<lambda>_ c. ce_storage c = storage) (gt_contributions g),
     gt_quests := tbl_del (\<lambda>_ q. qu_storage q = storage) (gt_quests g),
     gt_contributors := filter (\<lambda>(q, _). q \<notin> set (gone qu_storage storage (gt_quests g))) (gt_contributors g),
     gt_unlocked := filter (\<lambda>(st, _). st \<noteq> storage) (gt_unlocked g)\<rparr>"

definition drop_storage :: "uuid \<Rightarrow> db \<Rightarrow> db" where
  "drop_storage storage s =
     (let ps = gone pr_storage storage (products s);
          bs = keys (tbl_select (\<lambda>_ b. ba_product b \<in> set ps) (batches s));
          cs = gone cn_storage storage (containers s);
          ls = gone lo_storage storage (locations s);
          lists = gone sl_storage storage (shopping_lists s) in
      s\<lparr>storage_rows := tbl_del (\<lambda>k _. k = storage) (storage_rows s),
        memberships := tbl_del (\<lambda>k _. fst k = storage) (memberships s),
        locations := tbl_del (\<lambda>_ l. lo_storage l = storage) (locations s),
        categories := tbl_del (\<lambda>_ c. cg_storage c = storage) (categories s),
        products := tbl_del (\<lambda>_ p. pr_storage p = storage) (products s),
        batches := tbl_map (\<lambda>_ _. True) (\<lambda>b. b\<lparr>ba_container := clear_ref cs (ba_container b)\<rparr>)
          (tbl_del (\<lambda>_ b. ba_product b \<in> set ps) (batches s)),
        logs := tbl_map (\<lambda>_ _. True) (\<lambda>l. l\<lparr>lg_batch := clear_ref bs (lg_batch l)\<rparr>)
          (tbl_del (\<lambda>_ l. lg_product l \<in> set ps) (logs s)),
        containers := tbl_del (\<lambda>_ n. cn_storage n = storage) (containers s),
        tombstones := tbl_del (\<lambda>_ t. ts_storage t = storage) (tombstones s),
        jobs := tbl_map (\<lambda>_ _. True) (\<lambda>j. j\<lparr>jb_hint := clear_ref ls (jb_hint j)\<rparr>)
          (tbl_del (\<lambda>_ j. jb_storage j = storage) (jobs s)),
        product_barcodes := tbl_del (\<lambda>k b. fst k = storage \<or> bc_product b \<in> set ps) (product_barcodes s),
        shopping_lists := tbl_del (\<lambda>_ l. sl_storage l = storage) (shopping_lists s),
        shopping_items := tbl_map (\<lambda>_ _. True) (\<lambda>i. i\<lparr>si_matched := clear_ref ps (si_matched i)\<rparr>)
          (tbl_del (\<lambda>_ i. si_list i \<in> set lists) (shopping_items s)),
        notices := tbl_del (\<lambda>k _. k = storage) (notices s),
        access := (access s)\<lparr>at_replies := tbl_del (\<lambda>_ r. ik_storage r = Some storage) (at_replies (access s))\<rparr>,
        gam := drop_storage_play storage (gam s)\<rparr>)"

text \<open>What the RESTRICT references see: stock on a shelf of the storage, a product filed under a category of it.\<close>

definition restricted :: "uuid \<Rightarrow> db \<Rightarrow> bool" where
  "restricted storage s \<longleftrightarrow>
     (\<exists>(_, b) \<in> set (batches s). ba_location b \<in> set (gone lo_storage storage (locations s)))
   \<or> (\<exists>(_, p) \<in> set (products s). \<exists>c \<in> set (gone cg_storage storage (categories s)). pr_category p = Some c)"

definition delete_storage :: "bool \<Rightarrow> uuid option \<Rightarrow> uuid \<Rightarrow> unit dbtx" where
  "delete_storage restrict_first actor storage =
     bind_tx (row_tx ErrNotFound (\<lambda>s. map_option sr_name (map_of (storage_rows s) storage))) (\<lambda>name.
     seq_tx (check_tx (\<lambda>s. \<not> (restrict_first \<and> restricted storage s)) ErrInternal)
    (seq_tx (mod_tx (drop_storage storage))
       (write_admin_audit actor ActionStorageDeleted (Some (TargetId storage)) (no_details\<lparr>ad_storage_name := name\<rparr>))))"

section \<open>Members\<close>

definition is_storage_member :: "uuid \<Rightarrow> uuid \<Rightarrow> db \<Rightarrow> bool" where
  "is_storage_member storage user s \<longleftrightarrow> tbl_has (storage, user) (memberships s)"

definition membership_names :: "uuid \<Rightarrow> uuid \<Rightarrow> (string \<times> string) dbtx" where
  "membership_names storage user =
     bind_tx (row_tx ErrNotFound (\<lambda>s. map_option sr_name (map_of (storage_rows s) storage))) (\<lambda>name.
     bind_tx (row_tx ErrNotFound (\<lambda>s. map_option ac_username (map_of (accounts s) user))) (\<lambda>username.
       ret_tx (name, username)))"

definition member_details :: "uuid \<Rightarrow> uuid \<Rightarrow> string \<times> string \<Rightarrow> audit_details" where
  "member_details storage user names = no_details\<lparr>ad_storage := Some storage, ad_storage_name := fst names,
     ad_user := Some user, ad_username := snd names\<rparr>"

definition add_member :: "uuid option \<Rightarrow> uuid \<Rightarrow> uuid \<Rightarrow> unit dbtx" where
  "add_member actor storage user =
     bind_tx (membership_names storage user) (\<lambda>names.
     seq_tx (mod_tx (\<lambda>s. if tbl_has (storage, user) (memberships s) then s
         else s\<lparr>memberships := tbl_ins (storage, user) \<lparr>mb_added = db_now s, mb_start = ''dashboard''\<rparr> (memberships s)\<rparr>))
       (write_admin_audit actor ActionStorageMemberAdded (Some (TargetId storage)) (member_details storage user names)))"

definition remove_member :: "uuid option \<Rightarrow> uuid \<Rightarrow> uuid \<Rightarrow> unit dbtx" where
  "remove_member actor storage user =
     bind_tx (membership_names storage user) (\<lambda>names.
     seq_tx (check_tx (\<lambda>s. tbl_has (storage, user) (memberships s)) ErrNotFound)
    (seq_tx (mod_tx (\<lambda>s. s\<lparr>memberships := tbl_del (\<lambda>k _. k = (storage, user)) (memberships s)\<rparr>))
       (write_admin_audit actor ActionStorageMemberRemoved (Some (TargetId storage)) (member_details storage user names))))"

text \<open>\<open>Member\<close>: the joined account and the time it was added.\<close>

definition list_members :: "uuid \<Rightarrow> db \<Rightarrow> (uuid \<times> account \<times> instant) list" where
  "list_members storage s = sort_key (\<lambda>(u, _, added). (added, u)) (List.map_filter (\<lambda>((st, u), m).
     if st = storage then map_option (\<lambda>a. (u, a, mb_added m)) (map_of (accounts s) u) else None) (memberships s))"

definition member_storages :: "uuid \<Rightarrow> db \<Rightarrow> (storage_view \<times> membership) list" where
  "member_storages user s = sort_key (\<lambda>((i, r), _). (sr_created r, i)) (List.map_filter (\<lambda>((st, u), m).
     if u = user then map_option (\<lambda>r. ((st, r), m)) (map_of (storage_rows s) st) else None) (memberships s))"

definition storages_for_user :: "uuid \<Rightarrow> db \<Rightarrow> storage_view list" where
  "storages_for_user user s = map fst (member_storages user s)"

definition list_storages :: "db \<Rightarrow> storage_view list" where
  "list_storages s = sort_key (\<lambda>(i, r). (sr_created r, i)) (storage_rows s)"

record storage_membership =
  sm_id :: uuid
  sm_name :: string
  sm_start :: string

definition storage_memberships_for_user :: "uuid \<Rightarrow> db \<Rightarrow> storage_membership list" where
  "storage_memberships_for_user user s =
     map (\<lambda>((i, r), m). \<lparr>sm_id = i, sm_name = sr_name r, sm_start = mb_start m\<rparr>) (member_storages user s)"

text \<open>The pages the CHECK of the column admits.\<close>

definition start_pages :: "string list" where
  "start_pages = [''dashboard'', ''inventory'', ''products'', ''locations'', ''shopping_list'', ''ingest'', ''inbox'']"

definition set_start_page :: "uuid \<Rightarrow> uuid \<Rightarrow> string \<Rightarrow> unit dbtx" where
  "set_start_page storage user page =
     seq_tx (check_tx (\<lambda>s. tbl_has (storage, user) (memberships s) \<longrightarrow> page \<in> set start_pages) ErrInternal)
    (seq_tx (check_tx (\<lambda>s. tbl_has (storage, user) (memberships s)) ErrNotFound)
       (mod_tx (\<lambda>s. s\<lparr>memberships := tbl_upd (storage, user) (\<lambda>m. m\<lparr>mb_start := page\<rparr>) (memberships s)\<rparr>)))"

end
