(* ===== verification/Balance.thy ===== *)
theory Balance
  imports Ingestion Stocktake Access Storages
begin

text \<open>
  Every write of the store keeps the ledger equal to the shelf. Writes that touch none of the five tables
  of the stock invariant are found by the shape of their code; the structural writes of the two trees and
  the deletion of a storage are proved here; the rest rests on the interpretations of the components.
\<close>

section \<open>Writes beside the stock\<close>

definition stock_part :: "db \<Rightarrow> batch table \<times> log_row table \<times> product table \<times> location table \<times> container table" where
  "stock_part s = (batches s, logs s, products s, locations s, containers s)"

interpretation stock_frame: frame stock_part
proof
  fix s s' :: db assume "core s = core s'"
  then have "stock_part (core s) = stock_part (core s')" by simp
  then show "stock_part s = stock_part s'" by (simp add: stock_part_def)
qed

abbreviation aside :: "'a dbtx \<Rightarrow> bool" where
  "aside \<equiv> stock_frame.quiet"

named_theorems aside_intros

lemmas aside_shapes [aside_intros] = stock_frame.quiet_intros

lemmas aside_silent = stock_frame.quiet_silent

section \<open>Balanced computations\<close>

definition balanced :: "'a dbtx \<Rightarrow> bool" where
  "balanced m \<longleftrightarrow> (\<forall>s a s'. rows_ok s \<longrightarrow> m s = Inr (a, s') \<longrightarrow> shifts (\<lambda>_. 0) s s')"

lemma balancedI: "(\<And>s a s'. rows_ok s \<Longrightarrow> m s = Inr (a, s') \<Longrightarrow> shifts (\<lambda>_. 0) s s') \<Longrightarrow> balanced m"
  by (simp add: balanced_def)

lemma balancedD: "balanced m \<Longrightarrow> rows_ok s \<Longrightarrow> m s = Inr (a, s') \<Longrightarrow> shifts (\<lambda>_. 0) s s'"
  by (simp add: balanced_def)

lemma balanced_aside: "aside m \<Longrightarrow> balanced m"
  by (rule balancedI, rule shifts_other) (auto dest: stock_frame.quietD simp: stock_part_def)

lemma balanced_bind: "balanced m \<Longrightarrow> (\<And>a. balanced (f a)) \<Longrightarrow> balanced (bind_tx m f)"
proof (rule balancedI)
  fix s a s' assume m: "balanced m" and f: "\<And>a. balanced (f a)" and ok: "rows_ok s" and "bind_tx m f s = Inr (a, s')"
  then obtain x s1 where 1: "m s = Inr (x, s1)" and 2: "f x s1 = Inr (a, s')" by (auto simp: bind_tx_iff)
  note sh = balancedD [OF m ok 1]
  from shifts_trans [OF sh balancedD [OF f shifts_rows [OF sh] 2]] show "shifts (\<lambda>_. 0) s s'" by simp
qed

lemma balanced_seq: "balanced m \<Longrightarrow> balanced k \<Longrightarrow> balanced (seq_tx m k)"
  by (simp add: seq_tx_def balanced_bind)

lemma balanced_keeps: "balanced m \<Longrightarrow> keeps stock_inv m"
  by (rule keepsI) (blast intro: shifts_keep balancedD stock_inv_rows)

section \<open>Accounts, sessions, jobs, lists and the rest\<close>

lemma aside_audit [aside_intros]: "aside (write_admin_audit actor action target details)"
  unfolding write_admin_audit_def by (intro aside_intros) (simp add: stock_part_def)

lemma aside_tombstones [aside_intros]: "aside (record_tombstones storage kind es)"
  unfolding record_tombstones_def by (intro aside_intros) (simp add: stock_part_def)

lemma aside_insert_user [aside_intros]: "aside (insert_user inp)"
  and aside_update_account [aside_intros]: "aside (update_account i f)"
  unfolding insert_user_def update_account_def Let_def by (intro aside_intros; simp add: stock_part_def)+

lemma aside_accounts [aside_intros]:
  "aside (create_user inp)" "aside (admin_create_user actor inp)" "aside (set_admin i b)" "aside (user_by_id i)"
  "aside (set_display_name i n)" "aside (change_password i h kept)" "aside (admin_reset_password actor i h)"
  unfolding create_user_def admin_create_user_def set_admin_def user_by_id_def set_display_name_def change_password_def
    change_password_tx_def admin_reset_password_def
  by (intro aside_intros; simp add: stock_part_def update_sessions_def)+

lemma aside_access [aside_intros]:
  "aside (create_session token user kind label ttl)" "aside (touch_session token)" "aside (delete_session token)"
  "aside sweep_sessions" "aside (create_pairing_code code user)" "aside (redeem_pairing_code code)"
  "aside sweep_pairing_codes" "aside (record_idempotent key user storage hash status body)"
  "aside (lookup_idempotent key user hash)" "aside (sweep_idempotency_records now)" "aside (set_setting k v user)"
  unfolding create_session_def touch_session_def delete_session_def sweep_sessions_def create_pairing_code_def
    redeem_pairing_code_def sweep_pairing_codes_def record_idempotent_def lookup_idempotent_def
    sweep_idempotency_records_def set_setting_def Let_def
  by (intro aside_intros; simp add: stock_part_def update_sessions_def update_pairing_def update_replies_def)+

lemma aside_jobs [aside_intros]:
  "aside (create_job nj)" "aside (clear_job_image i)" "aside (finish_job i status p m)" "aside (fail_orphaned_jobs owner)"
  "aside (renew_job_leases l)" "aside (release_job_leases owner)" "aside (delete_job st i)" "aside (discard_jobs st t)"
  "aside (requeue_job st i l)" "aside (consume_job st i)"
  unfolding create_job_def clear_job_image_def finish_job_def fail_orphaned_jobs_def renew_job_leases_def
    release_job_leases_def delete_job_def discard_jobs_def requeue_job_def consume_job_def require_same_storage_def Let_def
  by (intro aside_intros; simp add: stock_part_def)+

lemma aside_job_ends [aside_intros]: "aside (complete_job i p)" "aside (fail_job i m)"
  unfolding complete_job_def fail_job_def by (intro aside_intros)+

lemma aside_barcodes [aside_intros]:
  "aside (delete_product_barcode storage product code)" "aside (increment_barcode_scan_count code)"
  "aside (delete_catalog_barcode actor code)" "aside (barcode_prompt_state user)"
  "aside (set_barcode_prompt_enabled user enabled)" "aside (mark_barcode_prompt_shown user)"
  unfolding delete_product_barcode_def increment_barcode_scan_count_def delete_catalog_barcode_def
    barcode_prompt_state_def set_barcode_prompt_enabled_def mark_barcode_prompt_shown_def require_product_in_storage_def Let_def
  by (intro aside_intros; simp add: stock_part_def)+

lemma aside_rematch [aside_intros]: "aside (rematch_shopping_list_item storage i raw status matched)"
  unfolding rematch_shopping_list_item_def update_item_def require_matched_def require_product_in_storage_def
  by (intro aside_intros; simp add: stock_part_def)+

lemma aside_category_row [aside_intros]: "aside (insert_category_row i c)"
  unfolding insert_category_row_def by (intro aside_intros; simp add: stock_part_def)

lemma aside_storages [aside_intros]:
  "aside (create_storage actor name)" "aside (add_member actor storage user)"
  "aside (remove_member actor storage user)" "aside (set_start_page storage user page)"
  unfolding create_storage_def seed_starter_categories_def seed_category_def add_member_def remove_member_def
    membership_names_def set_start_page_def Let_def
  by (intro aside_intros; simp add: stock_part_def)+


section \<open>The trees\<close>

lemma balanced_location_update:
  assumes f: "\<And>l. lo_storage (f s l) = lo_storage l" and ok: "rows_ok s"
  shows "shifts (\<lambda>_. 0) s (s\<lparr>locations := tbl_upd i (f s) (locations s)\<rparr>)"
  by (rule shifts_locations [OF ok refl]) (use ok in \<open>auto simp: rows_ok_def f\<close>)

lemma balanced_insert_location: "balanced (insert_location storage i inp)"
proof (rule balancedI)
  fix s r s' assume ok: "rows_ok s" and run: "insert_location storage i inp s = Inr (r, s')"
  obtain row where s': "s' = s\<lparr>locations := tbl_ins i row (locations s)\<rparr>" and new: "\<not> tbl_has i (locations s)"
    using run by (auto simp: insert_location_def resolve_parent_iff tx_iff Let_def)
  have "map_of (locations s) j = Some l \<Longrightarrow> map_of (tbl_ins i row (locations s)) j = Some l" for j l
    using new by (auto simp: map_of_insert_fresh tbl_has_def)
  then show "shifts (\<lambda>_. 0) s s'"
    by (intro shifts_locations [OF ok s']) (use ok distinct_keys_ins [OF _ new] in \<open>auto simp: rows_ok_def\<close>)
qed

lemma balanced_create_location: "balanced (create_location storage inp)"
  unfolding create_location_def
  by (intro balanced_bind balanced_insert_location balanced_aside aside_intros)

lemma balanced_create_location_as_user: "balanced (create_location_as_user storage inp user)"
  unfolding create_location_as_user_def
  by (intro balanced_bind balanced_seq balanced_insert_location)
    (intro balanced_aside aside_intros aside_silent silent_record_contribution)+

lemma balanced_move_location: "balanced (move_location storage i parent)"
  by (rule balancedI) (auto simp: move_location_def tx_iff set_location_parent_def intro: balanced_location_update)

lemma balanced_update_location: "balanced (update_location storage i patch)"
proof (rule balancedI)
  fix s r s' assume ok: "rows_ok s" and run: "update_location storage i patch s = Inr (r, s')"
  obtain f where "s' = s\<lparr>locations := tbl_upd i f (locations s)\<rparr>" and "\<And>l. lo_storage (f l) = lo_storage l"
  proof -
    let ?f = "\<lambda>l. l\<lparr>lo_name := (case lp_name patch of None \<Rightarrow> lo_name l | Some n \<Rightarrow> n),
         lo_description := (if lp_set_description patch then lp_description patch else lo_description l),
         lo_parent := (if lp_set_parent patch then lp_parent patch else lo_parent l), lo_updated := db_now s\<rparr>"
    have "s' = s\<lparr>locations := tbl_upd i ?f (locations s)\<rparr>"
      using run by (auto simp: update_location_def load_location_def tx_iff split: option.splits if_splits)
    then show thesis by (rule that) simp
  qed
  then show "shifts (\<lambda>_. 0) s s'" using balanced_location_update [of "\<lambda>_. f", OF _ ok] by simp
qed

lemma balanced_rename_location: "balanced (rename_location storage i name description)"
proof (rule balancedI)
  fix s r s' assume ok: "rows_ok s" and run: "rename_location storage i name description s = Inr (r, s')"
  have "s' = s\<lparr>locations := tbl_upd i (\<lambda>l. l\<lparr>lo_name := name, lo_description := description, lo_updated := db_now s\<rparr>) (locations s)\<rparr>"
    using run by (auto simp: rename_location_def tx_iff)
  then show "shifts (\<lambda>_. 0) s s'"
    using balanced_location_update [of "\<lambda>s l. l\<lparr>lo_name := name, lo_description := description, lo_updated := db_now s\<rparr>", OF _ ok] by simp
qed

text \<open>A location goes only when no batch is on it, so the stock of the others has not moved.\<close>

lemma balanced_delete_location_row: "balanced (delete_location_row i)"
proof (rule balancedI)
  fix s r s' assume ok: "rows_ok s" and run: "delete_location_row i s = Inr (r, s')"
  obtain gone where free: "\<forall>(_, b) \<in> set (batches s). ba_location b \<notin> set gone"
    and same: "batches s' = batches s" "logs s' = logs s" "products s' = products s" "containers s' = containers s"
    and locs: "locations s' = tbl_del (\<lambda>k _. k \<in> set gone) (locations s)"
    using run by (auto simp: delete_location_row_def tx_iff)
  have d: "distinct (keys (locations s))" using ok by (simp add: rows_ok_def)
  have "batch_ok s' b" if b: "(k, b) \<in> set (batches s)" for k b
  proof -
    have "batch_ok s b" "ba_location b \<notin> set gone" using ok free b by (auto simp: rows_ok_def)
    then show ?thesis by (auto simp: batch_ok_def container_ok_def same locs map_of_tbl_del [OF d] split: option.splits)
  qed
  moreover have "log_ok s' l = log_ok s l" for l by (rule log_ok_frame) (simp_all add: same)
  ultimately have "rows_ok s'"
    using ok d by (auto simp: rows_ok_def same locs distinct_keys_tbl_del)
  then show "shifts (\<lambda>_. 0) s s'" by (simp add: shifts_def gap_def ledger_total_def stock_total_def same)
qed

lemma balanced_delete_location: "balanced (delete_location storage i)"
  unfolding delete_location_def require_same_storage_def
  by (intro balanced_bind balanced_seq balanced_delete_location_row) (intro balanced_aside aside_intros)+

lemma balanced_insert_category: "balanced (insert_category storage i inp)"
  by (rule balancedI) (rule insert_category_shifts)

lemma balanced_create_category_as_user: "balanced (create_category_as_user storage inp user)"
  unfolding create_category_as_user_def
  by (intro balanced_bind [OF _ balanced_bind [OF balanced_insert_category]] balanced_aside aside_intros
      aside_silent [OF silent_record_contribution])

lemma balanced_move_category: "balanced (move_category storage i parent)"
  unfolding move_category_def
  by (rule balanced_bind [OF balancedI [OF update_category_shifts] balanced_aside]) (auto intro: aside_intros)

lemma balanced_correct_catalog: "balanced (correct_catalog_shelf_life actor c days)"
proof -
  have step: "balanced (bind_tx (recompute_derived_expiry st p) (\<lambda>n. ret_tx (acc + n)))" for st p acc
    by (intro balanced_bind balancedI [OF recompute_shifts] balanced_aside aside_intros)
  have "balanced (fold_tx (\<lambda>p acc. bind_tx (recompute_derived_expiry (fst p) (snd p)) (\<lambda>n. ret_tx (acc + n))) ps n)" for ps n
    by (rule balancedI, rule shifts_fold [OF balancedD [OF step]])
  then show ?thesis
    unfolding correct_catalog_shelf_life_def set_catalog_shelf_life_def
    by (intro balanced_seq [OF balanced_aside] balanced_bind [OF balanced_aside] balanced_bind [of "fold_tx _ _ _"]
        balanced_aside [of "seq_tx (write_admin_audit _ _ _ _) _"] aside_intros) (simp_all add: stock_part_def)
qed

section \<open>Everything else\<close>

context ledger_operation
begin

lemma is_balanced: "balanced (run r)"
  by (rule balancedI) (rule balanced)

end

lemmas balanced_operations =
  adjust.is_balanced [of "(storage, i, delta, reason, user)" for storage i delta reason user, simplified]
  create.is_balanced [of "(storage, inp)" for storage inp, simplified]
  split_op.is_balanced [of "(storage, i, inp, user)" for storage i inp user, simplified]
  patch.is_balanced [of "(storage, i, p, user)" for storage i p user, simplified]
  destroy.is_balanced [of "(storage, c)" for storage c, simplified]
  scan_log.is_balanced [of "(storage, code, user, inp)" for storage code user inp, simplified]
  barcode_association.is_balanced [of "(storage, product, code)" for storage product code, simplified]
  barcode_hint_op.is_balanced [of "(low, storage, code)" for low storage code, simplified]
  catalog_insert.is_balanced [of "(low, inp)" for low inp, simplified]
  catalog_delete.is_balanced [of "(actor, i)" for actor i, simplified]
  update_category_op.is_balanced [of "(storage, i, p)" for storage i p, simplified]
  create_category_op.is_balanced [of "(storage, inp)" for storage inp, simplified]
  shelf_life_op.is_balanced [of "(storage, i, days)" for storage i days, simplified]
  delete_category_op.is_balanced [of "(storage, i)" for storage i, simplified]
  consume.is_balanced [of "(storage, job, user, ds)" for storage job user ds, simplified]
  ingest_op.is_balanced [of "(low, fold_case, storage, job, user, ds)" for low fold_case storage job user ds, simplified]
  create_product_op.is_balanced [of "(storage, inp)" for storage inp, simplified]
  categorize.is_balanced [of "(storage, i, c)" for storage i c, simplified]
  categorize_user.is_balanced [of "(storage, i, c, user)" for storage i c user, simplified]
  picture.is_balanced [of "(storage, i, picture, icon, user)" for storage i picture icon user, simplified]
  update_product_op.is_balanced [of "(storage, i, p)" for storage i p, simplified]
  resolve_op.is_balanced [of "(low, fold_case, storage, i, inp, user)" for low fold_case storage i inp user, simplified]
  list_op.is_balanced [of "(storage, source, user, items)" for storage source user items, simplified]
  list_from_job_op.is_balanced [of "(storage, i, user, items)" for storage i user items, simplified]
  stocktake.is_balanced [of "(storage, l, user, counts, found)" for storage l user counts found, simplified]
  reset.is_balanced [of "(storage, i)" for storage i, simplified]
  set_date.is_balanced [of "(storage, i, d, user)" for storage i d user, simplified]
  recompute.is_balanced [of "(storage, p)" for storage p, simplified]
  delete_user_op.is_balanced [of "(actor, i)" for actor i, simplified]

text \<open>The contract in the form of \<open>keeps\<close>, for the operations a request can end in.\<close>

named_theorems stock_intros

lemmas balanced_stock [stock_intros] = balanced_operations [THEN balanced_keeps]
  balanced_create_location_as_user [THEN balanced_keeps] balanced_create_location [THEN balanced_keeps]
  balanced_move_location [THEN balanced_keeps] balanced_update_location [THEN balanced_keeps]
  balanced_rename_location [THEN balanced_keeps] balanced_delete_location [THEN balanced_keeps]
  balanced_create_category_as_user [THEN balanced_keeps] balanced_move_category [THEN balanced_keeps]
  balanced_correct_catalog [THEN balanced_keeps]

lemma aside_keeps: "aside m \<Longrightarrow> keeps stock_inv m"
  by (rule balanced_keeps [OF balanced_aside])

lemmas aside_stock [stock_intros] = stock_frame.quiet_reads [THEN aside_keeps] aside_accounts [THEN aside_keeps]
  aside_access [THEN aside_keeps] aside_jobs [THEN aside_keeps] aside_job_ends [THEN aside_keeps]
  aside_barcodes [THEN aside_keeps] aside_rematch [THEN aside_keeps] aside_storages [THEN aside_keeps]

lemma delete_product_stock_kept [stock_intros]: "keeps stock_inv (delete_product storage i)"
  and merge_stock_kept [stock_intros]: "keeps stock_inv (merge_products storage survivor source)"
  using delete_product_op.keeps_stock [of "(storage, i)"] merge.keeps_stock [of "(storage, survivor, source)"]
  by simp_all

section \<open>The deletion of a storage\<close>

lemma gone_iff: "distinct (keys t) \<Longrightarrow> i \<in> set (gone f st t) \<longleftrightarrow> (\<exists>r. map_of t i = Some r \<and> f r = st)"
  by (force simp: gone_def tbl_select_def dest: map_of_SomeD)

abbreviation storage_products :: "uuid \<Rightarrow> db \<Rightarrow> uuid set" where
  "storage_products st s \<equiv> set (gone pr_storage st (products s))"

abbreviation storage_batches :: "uuid \<Rightarrow> db \<Rightarrow> uuid list" where
  "storage_batches st s \<equiv> keys (tbl_select (\<lambda>_ b. ba_product b \<in> storage_products st s) (batches s))"

lemma drop_storage_tables:
  "products (drop_storage st s) = tbl_del (\<lambda>_ p. pr_storage p = st) (products s)"
  "locations (drop_storage st s) = tbl_del (\<lambda>_ l. lo_storage l = st) (locations s)"
  "containers (drop_storage st s) = tbl_del (\<lambda>_ n. cn_storage n = st) (containers s)"
  "batches (drop_storage st s) = tbl_map (\<lambda>_ _. True)
     (\<lambda>b. b\<lparr>ba_container := clear_ref (gone cn_storage st (containers s)) (ba_container b)\<rparr>)
     (tbl_del (\<lambda>_ b. ba_product b \<in> storage_products st s) (batches s))"
  "logs (drop_storage st s) = tbl_map (\<lambda>_ _. True) (\<lambda>l. l\<lparr>lg_batch := clear_ref (storage_batches st s) (lg_batch l)\<rparr>)
     (tbl_del (\<lambda>_ l. lg_product l \<in> storage_products st s) (logs s))"
  by (simp_all add: drop_storage_def Let_def)

lemma drop_storage_batch:
  assumes ok: "rows_ok s" and b: "batch_ok s b" and st: "ba_product b \<notin> storage_products st s"
  shows "batch_ok (drop_storage st s) (b\<lparr>ba_container := clear_ref (gone cn_storage st (containers s)) (ba_container b)\<rparr>)"
proof -
  have d: "distinct (keys (products s))" "distinct (keys (locations s))" "distinct (keys (containers s))"
    using ok by (simp_all add: rows_ok_def)
  show ?thesis
    using b st
    by (auto simp: batch_ok_def container_ok_def drop_storage_tables clear_ref_def gone_iff [OF d(1)] gone_iff [OF d(3)]
        map_of_tbl_del [OF d(1)] map_of_tbl_del [OF d(2)] map_of_tbl_del [OF d(3)] split: option.splits)
qed

lemma drop_storage_log:
  assumes ok: "rows_ok s" and l: "log_ok s l" and st: "lg_product l \<notin> storage_products st s"
  shows "log_ok (drop_storage st s) (l\<lparr>lg_batch := clear_ref (storage_batches st s) (lg_batch l)\<rparr>)"
proof -
  have d: "distinct (keys (products s))" using ok by (simp add: rows_ok_def)
  have "tbl_has (lg_product l) (products (drop_storage st s))"
    using l st by (auto simp: log_ok_def drop_storage_tables tbl_has_def gone_iff [OF d] map_of_tbl_del [OF d] split: option.splits)
  moreover have "tbl_has b (batches (drop_storage st s))" if "tbl_has b (batches s)" "b \<notin> set (storage_batches st s)" for b
    using that by (simp add: drop_storage_tables tbl_has_keys tbl_select_def tbl_del_def del: ex_simps) force
  ultimately show ?thesis using l by (auto simp: log_ok_def clear_ref_def split: option.splits)
qed

lemma drop_storage_totals:
  "ledger_total p (drop_storage st s) = (if p \<in> storage_products st s then 0 else ledger_total p s)"
  "stock_total p (drop_storage st s) = (if p \<in> storage_products st s then 0 else stock_total p s)"
proof -
  have off: "tbl_sum (\<lambda>_ r. if f r = p then g r else 0) (tbl_map (\<lambda>_ _. True) h (tbl_del (\<lambda>_ r. f r \<in> P) t))
      = (if p \<in> P then 0 else tbl_sum (\<lambda>_ r. if f r = p then g r else 0) t)"
    if "\<And>r. f (h r) = f r \<and> g (h r) = g r" for f :: "'r \<Rightarrow> uuid" and g h P and t :: "'r table"
  proof -
    have "tbl_sum (\<lambda>_ r. if f r = p then g r else 0) (tbl_map (\<lambda>_ _. True) h (tbl_del (\<lambda>_ r. f r \<in> P) t))
        = tbl_sum (\<lambda>_ r. if f r = p then g r else 0) (tbl_del (\<lambda>_ r. f r \<in> P) t)"
      by (rule tbl_sum_map_cong) (simp add: that)
    also have "\<dots> = (if p \<in> P then 0 else tbl_sum (\<lambda>_ r. if f r = p then g r else 0) t)"
      by (auto simp: set_tbl_del intro!: tbl_sum_zero tbl_sum_del_zero)
    finally show ?thesis .
  qed
  show "ledger_total p (drop_storage st s) = (if p \<in> storage_products st s then 0 else ledger_total p s)"
    unfolding ledger_total_def drop_storage_tables by (rule off) simp
  show "stock_total p (drop_storage st s) = (if p \<in> storage_products st s then 0 else stock_total p s)"
    unfolding stock_total_def drop_storage_tables by (rule off) simp
qed

lemma drop_storage_stock:
  assumes inv: "stock_inv s"
  shows "stock_inv (drop_storage st s)"
proof -
  let ?s = "drop_storage st s"
  have ok: "rows_ok s" by (rule stock_inv_rows [OF inv])
  have b: "\<forall>(i, b) \<in> set (batches ?s). batch_ok ?s b"
    using ok by (auto simp: drop_storage_tables(4) set_tbl_map set_tbl_del rows_ok_def intro!: drop_storage_batch [OF ok])
  have l: "\<forall>(i, l) \<in> set (logs ?s). log_ok ?s l"
    using ok by (auto simp: drop_storage_tables(5) set_tbl_map set_tbl_del rows_ok_def intro!: drop_storage_log [OF ok])
  have "rows_ok ?s"
    unfolding rows_ok_def using ok b l by (simp add: drop_storage_tables distinct_keys_tbl_del rows_ok_def)
  then show ?thesis using inv by (simp add: stock_inv_def drop_storage_totals)
qed

lemma delete_storage_iff:
  "delete_storage first actor st s = Inr r \<longleftrightarrow> (\<exists>w i is. map_of (storage_rows s) st = Some w \<and> \<not> (first \<and> restricted st s)
     \<and> idgen s = i # is \<and> \<not> tbl_has i (audits s) \<and> user_exists actor s
     \<and> r = ((), (drop_storage st s)\<lparr>idgen := is, audits := tbl_ins i \<lparr>au_actor = actor, au_action = ActionStorageDeleted,
        au_target = Some (TargetId st), au_details = no_details\<lparr>ad_storage_name := sr_name w\<rparr>, au_at = db_now s\<rparr> (audits s)\<rparr>))"
  by (auto simp: delete_storage_def tx_iff drop_storage_def Let_def user_exists_def)

lemma delete_storage_stock [stock_intros]: "keeps stock_inv (delete_storage first actor st)"
proof (rule keepsI)
  fix s r s' assume inv: "stock_inv s" and run: "delete_storage first actor st s = Inr (r, s')"
  have "stock_inv (drop_storage st s)" by (rule drop_storage_stock [OF inv])
  moreover have "core s' = core ((drop_storage st s)\<lparr>audits := audits s'\<rparr>)"
    using run by (auto simp: delete_storage_iff core_def)
  ultimately show "stock_inv s'"
    using shifts_keep [OF _ shifts_other [OF stock_inv_rows]] run by (auto simp: delete_storage_iff)
qed

interpretation delete_storage_op: stock_operation "\<lambda>(first, actor, st). delete_storage first actor st"
  by unfold_locales (auto dest: keepsD [OF delete_storage_stock])

text \<open>Every place of the schema that can name a storage.\<close>

definition names_storage :: "uuid \<Rightarrow> db \<Rightarrow> bool" where
  "names_storage st s \<longleftrightarrow> tbl_has st (storage_rows s) \<or> st \<in> (fst \<circ> fst) ` set (memberships s)
     \<or> st \<in> (lo_storage \<circ> snd) ` set (locations s) \<or> st \<in> (cg_storage \<circ> snd) ` set (categories s)
     \<or> st \<in> (pr_storage \<circ> snd) ` set (products s) \<or> st \<in> (cn_storage \<circ> snd) ` set (containers s)
     \<or> st \<in> (ts_storage \<circ> snd) ` set (tombstones s) \<or> st \<in> (jb_storage \<circ> snd) ` set (jobs s)
     \<or> st \<in> (fst \<circ> fst) ` set (product_barcodes s) \<or> st \<in> (sl_storage \<circ> snd) ` set (shopping_lists s)
     \<or> Some st \<in> (ik_storage \<circ> snd) ` set (replies s) \<or> st \<in> fst ` set (notices s)
     \<or> st \<in> (fst \<circ> fst) ` set (gt_progress (gam s)) \<or> st \<in> (ce_storage \<circ> snd) ` set (gt_contributions (gam s))
     \<or> st \<in> (qu_storage \<circ> snd) ` set (gt_quests (gam s)) \<or> st \<in> fst ` set (gt_unlocked (gam s))"

lemma owner_map_del: "x \<notin> (f \<circ> snd) ` set (tbl_map (\<lambda>_ _. True) h (tbl_del (\<lambda>_ r. f r = x) t))"
  if "\<And>r. f (h r) = f r" for f :: "'r \<Rightarrow> 'x" and t :: "('k \<times> 'r) list"
  using that by (auto simp: tbl_map_def tbl_del_def)

lemma dropped_storage_unnamed: "\<not> names_storage st (drop_storage st s)"
proof -
  have jobs: "st \<notin> (jb_storage \<circ> snd) ` set (jobs (drop_storage st s))"
  proof -
    have "jobs (drop_storage st s) = tbl_map (\<lambda>_ _. True) (\<lambda>j. j\<lparr>jb_hint := clear_ref (gone lo_storage st (locations s)) (jb_hint j)\<rparr>)
        (tbl_del (\<lambda>_ j. jb_storage j = st) (jobs s))" by (simp add: drop_storage_def Let_def)
    then show ?thesis by (simp only:) (rule owner_map_del, simp)
  qed
  show ?thesis
    unfolding names_storage_def de_Morgan_disj
    by (intro conjI jobs) (auto simp: drop_storage_def Let_def drop_storage_play_def tbl_has_keys tbl_del_def)
qed

text \<open>Another storage's batches and totals survive the drop as they were.\<close>

lemma drop_storage_others:
  assumes ok: "rows_ok s" and p: "map_of (products s) i = Some p" "pr_storage p \<noteq> st"
  shows "map_of (products (drop_storage st s)) i = Some p"
    and "stock_total i (drop_storage st s) = stock_total i s"
    and "map_of (batches s) j = Some b \<Longrightarrow> ba_product b = i \<Longrightarrow> map_of (batches (drop_storage st s)) j = Some b"
proof -
  have d: "distinct (keys (products s))" "distinct (keys (batches s))" "distinct (keys (containers s))"
    using ok by (simp_all add: rows_ok_def)
  have off: "i \<notin> storage_products st s" using p by (simp add: gone_iff [OF d(1)])
  show "map_of (products (drop_storage st s)) i = Some p"
    using p by (simp add: drop_storage_tables map_of_tbl_del [OF d(1)])
  show "stock_total i (drop_storage st s) = stock_total i s" using off by (simp add: drop_storage_totals)
  assume b: "map_of (batches s) j = Some b" "ba_product b = i"
  have "batch_ok s b" by (rule rows_ok_batch [OF ok b(1)])
  then have "clear_ref (gone cn_storage st (containers s)) (ba_container b) = ba_container b"
    using p b by (auto simp: batch_ok_def container_ok_def clear_ref_def gone_iff [OF d(3)] split: option.splits)
  then show "map_of (batches (drop_storage st s)) j = Some b"
    using b off by (simp add: drop_storage_tables map_of_tbl_map map_of_tbl_del [OF d(2)])
qed



end
