(* ===== verification/Trail.thy ===== *)
theory Trail
  imports Balance
begin

text \<open>
  The contract of an administrative write: when it commits, the trail has exactly one entry more, at its
  end, with the acting user, the action and its target, and no earlier entry has changed; when it rolls
  back there is none. The eleven writes of \<open>AdminAction\<close> interpret the contract.
\<close>

section \<open>The contract\<close>

text \<open>What the trail says of the past; only the name of an actor can be forgotten, with its account.\<close>

definition trail :: "db \<Rightarrow> (uuid \<times> admin_action \<times> audit_target option \<times> audit_details \<times> instant) list" where
  "trail s = map (\<lambda>(i, r). (i, au_action r, au_target r, au_details r, au_at r)) (audits s)"

definition last_actor :: "db \<Rightarrow> uuid option" where
  "last_actor s = au_actor (snd (last (audits s)))"

definition appends :: "uuid option \<Rightarrow> admin_action \<Rightarrow> db \<Rightarrow> db \<Rightarrow> bool" where
  "appends actor action s s' \<longleftrightarrow> audits s' \<noteq> [] \<and> last_actor s' = actor
     \<and> butlast (trail s') = trail s \<and> fst (snd (last (trail s'))) = action
     \<and> snd (snd (snd (snd (last (trail s'))))) = db_now s"

locale audited_operation =
  fixes run :: "'r \<Rightarrow> 'a dbtx"
    and actor_of :: "'r \<Rightarrow> uuid option"
    and action :: admin_action
  assumes recorded: "run r s = Inr (a, s') \<Longrightarrow> appends (actor_of r) action s s'"
begin

lemma committed_once: "in_tx (run r) s = (Inr a, s') \<Longrightarrow> length (trail s') = Suc (length (trail s))"
proof -
  assume "in_tx (run r) s = (Inr a, s')"
  then have "appends (actor_of r) action s s'" by (auto elim: in_tx_cases intro: recorded)
  then have "butlast (trail s') = trail s" "trail s' \<noteq> []" by (auto simp: appends_def trail_def)
  then show ?thesis by (metis append_butlast_last_id length_append_singleton)
qed

lemma committed_or_silent:
  "(case in_tx (run r) s of (Inl _, s') \<Rightarrow> s' = s | (Inr _, s') \<Rightarrow> appends (actor_of r) action s s')"
  by (auto simp: in_tx_def recorded split: sum.splits)

end

section \<open>The writes\<close>

definition trail_view :: "db \<Rightarrow> (uuid \<times> admin_action \<times> audit_target option \<times> audit_details \<times> instant) list \<times> instant" where
  "trail_view s = (trail s, db_now s)"

interpretation trail_frame: frame trail_view
proof
  fix s s' :: db assume "core s = core s'"
  then have "trail_view (core s) = trail_view (core s')" by simp
  then show "trail_view s = trail_view s'" by (simp add: trail_view_def trail_def)
qed

definition appending :: "uuid option \<Rightarrow> admin_action \<Rightarrow> 'a dbtx \<Rightarrow> bool" where
  "appending actor action m \<longleftrightarrow>
     (\<forall>s0 s a s'. trail_view s = trail_view s0 \<longrightarrow> m s = Inr (a, s') \<longrightarrow> appends actor action s0 s')"

named_theorems appending_intros

lemma appending_write [appending_intros]: "appending actor action (write_admin_audit actor action target details)"
  by (auto simp: appending_def write_audit_iff appends_def last_actor_def trail_def tbl_ins_def trail_view_def)

lemma appending_after [appending_intros]: "trail_frame.quiet m \<Longrightarrow> (\<And>a. appending u c (f a)) \<Longrightarrow> appending u c (bind_tx m f)"
  unfolding appending_def bind_tx_iff by (metis trail_frame.quietD)

lemma appending_next [appending_intros]: "trail_frame.quiet m \<Longrightarrow> appending u c k \<Longrightarrow> appending u c (seq_tx m k)"
  by (simp add: seq_tx_def appending_after)

lemma appending_return [appending_intros]: "appending u c m \<Longrightarrow> appending u c (seq_tx m (ret_tx x))"
  unfolding appending_def seq_tx_iff ret_tx_iff by auto

lemma appendingD: "appending u c m \<Longrightarrow> m s = Inr (a, s') \<Longrightarrow> appends u c s s'"
  by (auto simp: appending_def)

lemma trail_update [simp]:
  "trail_view (s\<lparr>accounts := a\<rparr>) = trail_view s" "trail_view (s\<lparr>access := b\<rparr>) = trail_view s"
  "trail_view (s\<lparr>storage_rows := c\<rparr>) = trail_view s" "trail_view (s\<lparr>memberships := d\<rparr>) = trail_view s"
  "trail_view (s\<lparr>categories := e\<rparr>) = trail_view s" "trail_view (s\<lparr>catalog := f\<rparr>) = trail_view s"
  "trail_view (s\<lparr>catalog_barcodes := g\<rparr>) = trail_view s" "trail_view (drop_user i s) = trail_view s"
  "trail_view (drop_storage st s) = trail_view s" "trail_view (update_sessions h s) = trail_view s"
  "trail_view (s\<lparr>batches := k\<rparr>) = trail_view s" "trail_view (s\<lparr>products := l\<rparr>) = trail_view s"
  by (simp_all add: trail_view_def trail_def drop_user_def drop_storage_def Let_def tbl_map_def case_prod_unfold
      update_sessions_def comp_def)

text \<open>What comes before the entry.\<close>

lemma quiet_insert_user: "trail_frame.quiet (insert_user inp)"
  and quiet_update_account: "trail_frame.quiet (update_account i f)"
  unfolding insert_user_def update_account_def Let_def by (intro trail_frame.quiet_intros; simp)+

lemma quiet_change_password: "trail_frame.quiet (change_password_tx i h kept)"
  unfolding change_password_tx_def by (intro trail_frame.quiet_intros quiet_update_account) simp

lemma quiet_seed: "trail_frame.quiet (seed_starter_categories st)"
  unfolding seed_starter_categories_def seed_category_def insert_category_row_def
  by (intro trail_frame.quiet_intros) simp

lemma quiet_recompute: "trail_frame.quiet (recompute_derived_expiry st p)"
  unfolding recompute_derived_expiry_def apply_derived_expiry_def redate_batch_def expiry_rules_for_def load_derived_batches_def
  by (intro trail_frame.quiet_intros) simp

lemma appending_admin:
  "appending actor ActionUserCreated (admin_create_user actor inp)"
  "appending actor ActionUserDeleted (delete_user actor i)"
  "appending actor ActionUserPasswordReset (admin_reset_password actor i h)"
  "appending actor ActionStorageCreated (create_storage actor name)"
  "appending actor ActionStorageDeleted (delete_storage first actor st)"
  "appending actor ActionStorageMemberAdded (add_member actor st user)"
  "appending actor ActionStorageMemberRemoved (remove_member actor st user)"
  "appending (Some who) ActionSettingsUpdated (set_setting key v who)"
  "appending actor ActionCatalogEntryDeleted (delete_catalog_product actor c)"
  "appending actor ActionCatalogBarcodeDeleted (delete_catalog_barcode actor code)"
  unfolding admin_create_user_def delete_user_def admin_reset_password_def create_storage_def delete_storage_def
    add_member_def remove_member_def set_setting_def
    delete_catalog_product_def delete_catalog_row_def delete_catalog_barcode_def membership_names_def Let_def
  by (intro appending_intros trail_frame.quiet_intros quiet_insert_user quiet_change_password quiet_seed; simp)+

lemma appending_correction: "appending actor ActionCatalogEntryUpdated (correct_catalog_shelf_life actor c days)"
proof -
  have pre: "trail_frame.quiet (set_catalog_shelf_life c days)"
    unfolding set_catalog_shelf_life_def by (intro trail_frame.quiet_intros) simp
  have each: "trail_frame.quiet (fold_tx (\<lambda>p acc. bind_tx (recompute_derived_expiry (fst p) (snd p)) (\<lambda>n. ret_tx (acc + n))) ps n)" for ps n
    by (intro trail_frame.quiet_intros quiet_recompute)
  show ?thesis
    unfolding correct_catalog_shelf_life_def
    by (rule appending_next [OF pre], rule appending_after, rule trail_frame.quiet_intros,
        rule appending_after [OF each], rule appending_return [OF appending_write])
qed

section \<open>The contract holds\<close>

interpretation user_created: audited_operation "\<lambda>(actor, inp). admin_create_user actor inp" fst ActionUserCreated
  by unfold_locales (auto intro: appendingD [OF appending_admin(1)])

interpretation user_deleted: audited_operation "\<lambda>(actor, i). delete_user actor i" fst ActionUserDeleted
  by unfold_locales (auto intro: appendingD [OF appending_admin(2)])

interpretation password_reset: audited_operation "\<lambda>(actor, i, h). admin_reset_password actor i h" fst ActionUserPasswordReset
  by unfold_locales (auto intro: appendingD [OF appending_admin(3)])

interpretation storage_created: audited_operation "\<lambda>(actor, name). create_storage actor name" fst ActionStorageCreated
  by unfold_locales (auto intro: appendingD [OF appending_admin(4)])

interpretation storage_deleted: audited_operation "\<lambda>(actor, restrict_first, st). delete_storage restrict_first actor st" fst ActionStorageDeleted
  by unfold_locales (auto intro: appendingD [OF appending_admin(5)])

interpretation member_added: audited_operation "\<lambda>(actor, st, user). add_member actor st user" fst ActionStorageMemberAdded
  by unfold_locales (auto intro: appendingD [OF appending_admin(6)])

interpretation member_removed: audited_operation "\<lambda>(actor, st, user). remove_member actor st user" fst ActionStorageMemberRemoved
  by unfold_locales (auto intro: appendingD [OF appending_admin(7)])

interpretation settings_updated: audited_operation "\<lambda>(actor, key, v). set_setting key v actor" "\<lambda>r. Some (fst r)" ActionSettingsUpdated
  by unfold_locales (auto intro: appendingD [OF appending_admin(8)])

interpretation entry_deleted: audited_operation "\<lambda>(actor, c). delete_catalog_product actor c" fst ActionCatalogEntryDeleted
  by unfold_locales (auto intro: appendingD [OF appending_admin(9)])

interpretation barcode_deleted: audited_operation "\<lambda>(actor, code). delete_catalog_barcode actor code" fst ActionCatalogBarcodeDeleted
  by unfold_locales (auto intro: appendingD [OF appending_admin(10)])

interpretation entry_updated: audited_operation "\<lambda>(actor, c, days). correct_catalog_shelf_life actor c days" fst ActionCatalogEntryUpdated
  by unfold_locales (auto intro: appendingD [OF appending_correction])

text \<open>The administrative writes of the store, as one type of request.\<close>

datatype admin_write =
    CreateUser new_user | DeleteUser uuid | ResetPassword uuid string | CreateStorage string | DeleteStorage uuid
  | AddMember uuid uuid | RemoveMember uuid uuid | SaveSetting string string
  | CorrectEntry uuid "int option" | DeleteEntry uuid | DeleteBarcode string

definition run_admin_write :: "bool \<Rightarrow> uuid \<Rightarrow> admin_write \<Rightarrow> unit dbtx" where
  "run_admin_write restrict_first who w = (case w of
      CreateUser inp \<Rightarrow> void (admin_create_user (Some who) inp)
    | DeleteUser i \<Rightarrow> delete_user (Some who) i
    | ResetPassword i h \<Rightarrow> admin_reset_password (Some who) i h
    | CreateStorage name \<Rightarrow> void (create_storage (Some who) name)
    | DeleteStorage st \<Rightarrow> delete_storage restrict_first (Some who) st
    | AddMember st user \<Rightarrow> add_member (Some who) st user
    | RemoveMember st user \<Rightarrow> remove_member (Some who) st user
    | SaveSetting k v \<Rightarrow> set_setting k v who
    | CorrectEntry c days \<Rightarrow> void (correct_catalog_shelf_life (Some who) c days)
    | DeleteEntry c \<Rightarrow> delete_catalog_product (Some who) c
    | DeleteBarcode code \<Rightarrow> delete_catalog_barcode (Some who) code)"

fun action_of :: "admin_write \<Rightarrow> admin_action" where
  "action_of (CreateUser _) = ActionUserCreated"
| "action_of (DeleteUser _) = ActionUserDeleted"
| "action_of (ResetPassword _ _) = ActionUserPasswordReset"
| "action_of (CreateStorage _) = ActionStorageCreated"
| "action_of (DeleteStorage _) = ActionStorageDeleted"
| "action_of (AddMember _ _) = ActionStorageMemberAdded"
| "action_of (RemoveMember _ _) = ActionStorageMemberRemoved"
| "action_of (SaveSetting _ _) = ActionSettingsUpdated"
| "action_of (CorrectEntry _ _) = ActionCatalogEntryUpdated"
| "action_of (DeleteEntry _) = ActionCatalogEntryDeleted"
| "action_of (DeleteBarcode _) = ActionCatalogBarcodeDeleted"

lemmas recorded_entries =
  user_created.recorded [where r = "(Some who, inp)" for who inp, simplified]
  user_deleted.recorded [where r = "(Some who, i)" for who i, simplified]
  password_reset.recorded [where r = "(Some who, i, h)" for who i h, simplified]
  storage_created.recorded [where r = "(Some who, name)" for who name, simplified]
  storage_deleted.recorded [where r = "(Some who, restrict_first, st)" for who restrict_first st, simplified]
  member_added.recorded [where r = "(Some who, st, user)" for who st user, simplified]
  member_removed.recorded [where r = "(Some who, st, user)" for who st user, simplified]
  settings_updated.recorded [where r = "(who, k, v)" for who k v, simplified]
  entry_updated.recorded [where r = "(Some who, c, days)" for who c days, simplified]
  entry_deleted.recorded [where r = "(Some who, c)" for who c, simplified]
  barcode_deleted.recorded [where r = "(Some who, code)" for who code, simplified]

lemma admin_write_recorded: "run_admin_write restrict_first who w s = Inr (a, s') \<Longrightarrow> appends (Some who) (action_of w) s s'"
  by (cases w) (auto simp: run_admin_write_def void_iff dest: recorded_entries)

text \<open>
  C25. Every administrative write either rolls back and changes nothing, or it commits together with exactly
  one new entry at the end of the trail, naming the administrator, the action and the time, with every
  earlier entry as it was.
\<close>

theorem administrative_write_recorded:
  "case in_tx (run_admin_write restrict_first who w) s of
     (Inl _, s') \<Rightarrow> s' = s
   | (Inr _, s') \<Rightarrow> audits s' \<noteq> [] \<and> last_actor s' = Some who \<and> butlast (trail s') = trail s
       \<and> fst (snd (last (trail s'))) = action_of w \<and> snd (snd (snd (snd (last (trail s'))))) = db_now s"
  using admin_write_recorded by (auto simp: in_tx_def appends_def split: sum.splits)

end
