(* ===== verification/Http.thy ===== *)
theory Http
  imports Trail Text
begin

text \<open>
  The request layer of \<open>internal/httpapi/\<close>: failures and the one writer of them (\<open>errors.go\<close>), what a
  request carries, the gates in front of the handlers (\<open>middleware.go\<close>) and the replay of retried writes
  (\<open>idempotency.go\<close>). A handler is a function from a state to a failure or an answer and a successor
  state; it may run several transactions one after the other, so a failure keeps what committed before it.
  Identifiers in paths and bodies are given as what \<open>uuid.Parse\<close> makes of them, bodies as decoded.
\<close>

section \<open>Failures\<close>

text \<open>The messages of one field, keyed by the field as in the JSON object.\<close>

type_synonym field_map = "(string \<times> string list) list"

definition add_field :: "string \<Rightarrow> string \<Rightarrow> field_map \<Rightarrow> field_map" where
  "add_field k msg fs = (if tbl_has k fs then tbl_upd k (\<lambda>ms. ms @ [msg]) fs else tbl_ins k [msg] fs)"

definition add_fields :: "field_map \<Rightarrow> field_map \<Rightarrow> field_map" where
  "add_fields new fs = fold (\<lambda>(k, ms) fs. fold (add_field k) ms fs) new fs"

text \<open>A message is fixed text or the text of the store's error, which the model does not spell out.\<close>

datatype message = Says string | StoreText err

record failure =
  fl_status :: int
  fl_code :: string
  fl_message :: message
  fl_fields :: field_map
  fl_reason :: message
  fl_retry :: int

definition failure_of :: "int \<Rightarrow> string \<Rightarrow> string \<Rightarrow> failure" where
  "failure_of status code msg =
     \<lparr>fl_status = status, fl_code = code, fl_message = Says msg, fl_fields = [], fl_reason = Says [], fl_retry = 0\<rparr>"

definition not_found :: "string \<Rightarrow> failure" where
  "not_found reason = (failure_of 404 ''not_found'' ''Not found.'')\<lparr>fl_reason := Says reason\<rparr>"

definition unauthorized :: "string \<Rightarrow> failure" where
  "unauthorized reason = (failure_of 401 ''unauthorized'' ''Authentication required.'')\<lparr>fl_reason := Says reason\<rparr>"

definition conflict :: "err \<Rightarrow> failure" where
  "conflict e = (failure_of 409 ''conflict'' [])\<lparr>fl_message := StoreText e\<rparr>"

definition resync_required :: "string \<Rightarrow> failure" where
  "resync_required reason = (failure_of 409 ''resync_required''
     ''Your cached copy is too old to update. Fetch the full list again.'')\<lparr>fl_reason := Says reason\<rparr>"

definition validation_failed :: "field_map \<Rightarrow> failure" where
  "validation_failed fs = (failure_of 422 ''validation_failed'' ''The request could not be processed.'')\<lparr>fl_fields := fs\<rparr>"

definition payload_too_large :: failure where
  "payload_too_large = failure_of 413 ''payload_too_large'' ''The uploaded file is too large.''"

definition model_unavailable :: "string \<Rightarrow> failure" where
  "model_unavailable model = (failure_of 503 ''model_unavailable'' ''The configured vision model is unavailable.'')
     \<lparr>fl_reason := Says (''configured model not offered by the provider: '' @ model)\<rparr>"

definition upstream_failed :: failure where
  "upstream_failed = failure_of 502 ''upstream_failed'' ''The AI provider could not complete this request.''"

definition internal :: failure where
  "internal = failure_of 500 ''internal_error'' ''Internal error.''"

definition from_store_error :: "err \<Rightarrow> string \<Rightarrow> failure" where
  "from_store_error e reason = (case e of
      ErrNotFound \<Rightarrow> not_found reason
    | ErrConflict \<Rightarrow> conflict e
    | ErrValidation \<Rightarrow> validation_failed []
    | ErrResyncRequired \<Rightarrow> (resync_required [])\<lparr>fl_reason := StoreText e\<rparr>
    | _ \<Rightarrow> internal)"

text \<open>\<open>conflictAs\<close> of \<open>locations.go\<close>: a conflict with text for a person, the store's text as the reason.\<close>

definition conflict_as :: "err \<Rightarrow> string \<Rightarrow> string \<Rightarrow> failure" where
  "conflict_as e reason msg = (let f = from_store_error e reason in
     if fl_status f = 409 then f\<lparr>fl_reason := StoreText e, fl_message := Says msg\<rparr> else f)"

definition default_message :: "string \<Rightarrow> string" where
  "default_message code =
     (if code = ''unauthorized'' then ''Authentication required.''
      else if code = ''not_found'' then ''Not found.''
      else if code = ''conflict'' then ''That action conflicts with the current state.''
      else if code = ''validation_failed'' then ''The request could not be processed.''
      else if code = ''resync_required'' then ''Your cached copy is too old to update. Fetch the full list again.''
      else if code = ''payload_too_large'' then ''The uploaded file is too large.''
      else if code = ''rate_limited'' then ''Too many attempts. Wait a moment and try again.''
      else if code = ''model_unavailable'' then ''The configured vision model is unavailable.''
      else if code = ''upstream_failed'' then ''The AI provider could not complete this request.''
      else ''Internal error.'')"

text \<open>What goes over the wire; the reason only in the development environment.\<close>

record error_reply =
  er_status :: int
  er_code :: string
  er_message :: message
  er_fields :: field_map
  er_debug :: message
  er_retry :: "int option"

text \<open>\<open>math.Ceil\<close> of the seconds, never below one.\<close>

definition retry_seconds :: "int \<Rightarrow> int" where
  "retry_seconds ns = max 1 (- ((- ns) div 1000000000))"

definition write_error :: "bool \<Rightarrow> failure \<Rightarrow> error_reply" where
  "write_error dev f =
     (let status = (if fl_status f = 0 then 500 else fl_status f);
          code = (if fl_code f = [] then ''internal_error'' else fl_code f);
          msg = (if fl_message f = Says [] then Says (default_message code) else fl_message f) in
      \<lparr>er_status = status, er_code = code, er_message = msg, er_fields = fl_fields f,
       er_debug = (if dev then fl_reason f else Says []),
       er_retry = (if fl_retry f > 0 then Some (retry_seconds (fl_retry f)) else None)\<rparr>)"

section \<open>Requests and handlers\<close>

text \<open>An optional JSON field that tells absent, null, a value and a value of the wrong type apart.\<close>

datatype 'a raw = Absent | Null | Malformed | Value 'a

record http_request =
  rq_method :: string
  rq_uri :: string
  rq_body :: string
  rq_cookie :: "string option"
  rq_authorization :: string
  rq_key :: string
  rq_storage :: "uuid option"

text \<open>The values the gates put into the request context.\<close>

record http_context =
  cx_user :: "(uuid \<times> account) option"
  cx_session :: "(string \<times> session) option"
  cx_storage :: "uuid option"

type_synonym 'b handler = "db \<Rightarrow> (failure + int \<times> 'b) \<times> db"

definition refuse :: "failure \<Rightarrow> 'b handler" where
  "refuse f s = (Inl f, s)"

definition answer_with :: "int \<Rightarrow> 'b \<Rightarrow> 'b handler" where
  "answer_with status b s = (Inr (status, b), s)"

text \<open>A store call: its own transaction, its error turned into a failure.\<close>

definition call :: "'a dbtx \<Rightarrow> (err \<Rightarrow> failure) \<Rightarrow> ('a \<Rightarrow> 'b handler) \<Rightarrow> 'b handler" where
  "call m on_error k s = (case in_tx m s of (Inl e, s') \<Rightarrow> (Inl (on_error e), s') | (Inr a, s') \<Rightarrow> k a s')"

definition read_state :: "(db \<Rightarrow> 'a) \<Rightarrow> ('a \<Rightarrow> 'b handler) \<Rightarrow> 'b handler" where
  "read_state f k s = k (f s) s"

definition with_storage :: "http_context \<Rightarrow> (uuid \<Rightarrow> 'b handler) \<Rightarrow> 'b handler" where
  "with_storage cx k = (case cx_storage cx of None \<Rightarrow> refuse internal | Some st \<Rightarrow> k st)"

definition with_user :: "http_context \<Rightarrow> (uuid \<times> account \<Rightarrow> 'b handler) \<Rightarrow> 'b handler" where
  "with_user cx k = (case cx_user cx of None \<Rightarrow> refuse (unauthorized ''session_missing'') | Some u \<Rightarrow> k u)"

definition acting_user :: "http_context \<Rightarrow> uuid option" where
  "acting_user cx = map_option fst (cx_user cx)"

text \<open>\<open>idFromPath\<close> and its kin: an unparseable id is not found.\<close>

definition id_from_path :: "uuid option \<Rightarrow> string \<Rightarrow> (uuid \<Rightarrow> 'b handler) \<Rightarrow> 'b handler" where
  "id_from_path raw reason k = (case raw of None \<Rightarrow> refuse (not_found reason) | Some i \<Rightarrow> k i)"

text \<open>\<open>decodeJSON\<close>: a body that is too long, does not decode, or is what it decodes to.\<close>

datatype 'a decoded = TooLong | NotJson | Decoded 'a

definition decode_json :: "'a decoded \<Rightarrow> ('a \<Rightarrow> 'b handler) \<Rightarrow> 'b handler" where
  "decode_json d k = (case d of
      TooLong \<Rightarrow> refuse payload_too_large
    | NotJson \<Rightarrow> refuse (validation_failed [(''body'', [''The request body is not valid JSON.''])])
    | Decoded b \<Rightarrow> k b)"

text \<open>The check every handler makes on the problems it has collected.\<close>

definition no_problems :: "field_map \<Rightarrow> 'b handler \<Rightarrow> 'b handler" where
  "no_problems fs k = (if fs \<noteq> [] then refuse (validation_failed fs) else k)"

section \<open>The gates\<close>

definition session_id_from :: "http_request \<Rightarrow> string" where
  "session_id_from r = (case rq_cookie r of
      Some v \<Rightarrow> if v \<noteq> [] then v
        else if take 7 (rq_authorization r) = ''Bearer '' then trim_space (drop 7 (rq_authorization r)) else []
    | None \<Rightarrow> if take 7 (rq_authorization r) = ''Bearer '' then trim_space (drop 7 (rq_authorization r)) else [])"

definition resolve_session :: "http_request \<Rightarrow> db \<Rightarrow> (failure + http_context) \<times> db" where
  "resolve_session r s =
     (let i = session_id_from r in
      if i = [] then (Inl (unauthorized ''session_missing''), s)
      else case lookup_session i s of
          (Inl e, s1) \<Rightarrow> (Inl (if e = ErrNotFound then unauthorized ''session_expired'' else internal), s1)
        | (Inr e, s1) \<Rightarrow> (case in_tx (user_by_id (se_user e)) s1 of
              (Inl err, s2) \<Rightarrow> (Inl (if err = ErrNotFound then unauthorized ''session_expired'' else internal), s2)
            | (Inr u, s2) \<Rightarrow> (Inr \<lparr>cx_user = Some u, cx_session = Some (i, e), cx_storage = None\<rparr>,
                 snd (in_tx (touch_session i) s2))))"

type_synonym 'b endpoint = "http_context \<Rightarrow> 'b handler"

definition require_session :: "'b endpoint \<Rightarrow> http_request \<Rightarrow> 'b handler" where
  "require_session h r s = (case resolve_session r s of (Inl f, s') \<Rightarrow> (Inl f, s') | (Inr cx, s') \<Rightarrow> h cx s')"

definition require_admin :: "'b endpoint \<Rightarrow> 'b endpoint" where
  "require_admin h cx = (case cx_user cx of
      None \<Rightarrow> refuse (not_found ''admin_area_hidden'')
    | Some u \<Rightarrow> read_state (is_admin (fst u)) (\<lambda>admin.
        if \<not> admin then refuse (not_found ''not_admin'')
        else case cx_session cx of
            None \<Rightarrow> refuse (not_found ''admin_area_hidden'')
          | Some (_, e) \<Rightarrow> if se_kind e \<noteq> SessionBrowser then refuse (not_found ''admin_area_hidden'') else h cx))"

definition require_storage_member :: "uuid option \<Rightarrow> 'b endpoint \<Rightarrow> 'b endpoint" where
  "require_storage_member raw h cx = (case cx_user cx of
      None \<Rightarrow> refuse (not_found ''not_storage_member'')
    | Some u \<Rightarrow> (case raw of
          None \<Rightarrow> refuse (not_found ''storage_not_found'')
        | Some st \<Rightarrow> read_state (is_storage_member st (fst u)) (\<lambda>member.
            if \<not> member then refuse (not_found ''not_storage_member'') else h (cx\<lparr>cx_storage := Some st\<rparr>))))"

section \<open>Retried writes\<close>

text \<open>
  \<open>Idempotency.Middleware\<close>. The body of a response is what an encoding parameter makes of it; the lock
  per key makes requests that share one serial, so the model runs them one after the other. A request is
  answered with a status, the bytes and the mark of a replay.
\<close>

record wire =
  wr_status :: int
  wr_body :: string
  wr_replayed :: bool

definition respond :: "(error_reply + 'b \<Rightarrow> string) \<Rightarrow> bool \<Rightarrow> failure + int \<times> 'b \<Rightarrow> wire" where
  "respond enc dev r = (case r of
      Inl f \<Rightarrow> let e = write_error dev f in \<lparr>wr_status = er_status e, wr_body = enc (Inl e), wr_replayed = False\<rparr>
    | Inr (status, b) \<Rightarrow> \<lparr>wr_status = status, wr_body = enc (Inr b), wr_replayed = False\<rparr>)"

definition is_write :: "string \<Rightarrow> bool" where
  "is_write m \<longleftrightarrow> m \<in> {''POST'', ''PUT'', ''PATCH'', ''DELETE''}"

definition worth_recording :: "int \<Rightarrow> bool" where
  "worth_recording status \<longleftrightarrow> status < 500 \<and> status \<noteq> 429"

definition max_upload_bytes :: int where "max_upload_bytes = 25 * 2 ^ 20"

definition max_idempotent_body :: int where
  "max_idempotent_body = max_upload_bytes + 2 ^ 20"

definition idempotency_key_header :: string where
  "idempotency_key_header = ''Idempotency-Key''"

record http_config =
  hc_dev :: bool
  hc_digest :: "string \<Rightarrow> string"
  hc_is_uuid :: "string \<Rightarrow> bool"

definition idempotent :: "http_config \<Rightarrow> (error_reply + 'b \<Rightarrow> string) \<Rightarrow> 'b endpoint \<Rightarrow> http_request \<Rightarrow> http_context \<Rightarrow> db \<Rightarrow> wire \<times> db" where
  "idempotent cfg enc h r cx s =
     (let fail = (\<lambda>f s. (respond enc (hc_dev cfg) (Inl f), s));
          run = (\<lambda>s. case h cx s of (out, s') \<Rightarrow> (respond enc (hc_dev cfg) out, s')) in
      if rq_key r = [] \<or> \<not> is_write (rq_method r) then run s
      else if \<not> hc_is_uuid cfg (rq_key r)
        then fail (validation_failed [(idempotency_key_header, [''Must be a UUID generated by the client.''])]) s
      else case cx_user cx of
          None \<Rightarrow> fail internal s
        | Some u \<Rightarrow>
            if int (length (rq_body r)) > max_idempotent_body then fail payload_too_large s
            else let hash = hash_request (hc_digest cfg) (rq_method r) (rq_uri r) (rq_body r) in
              case in_tx (lookup_idempotent (rq_key r) (fst u) hash) s of
                (Inl ErrValidation, s1) \<Rightarrow> fail (validation_failed
                    [(idempotency_key_header, [''This key was already used for a different request.''])]) s1
              | (Inl _, s1) \<Rightarrow> fail internal s1
              | (Inr (Some (status, body)), s1) \<Rightarrow> (\<lparr>wr_status = status, wr_body = body, wr_replayed = True\<rparr>, s1)
              | (Inr None, s1) \<Rightarrow>
                  (case run s1 of (w, s2) \<Rightarrow>
                     if \<not> worth_recording (wr_status w) then (w, s2)
                     else (w, snd (in_tx (record_idempotent (rq_key r) (fst u) (cx_storage cx) hash (wr_status w) (wr_body w)) s2))))"

section \<open>What a refusal tells\<close>

text \<open>Outside of development every not-found answer is the same, whatever its reason.\<close>

lemma not_found_alike: "write_error False (not_found a) = write_error False (not_found b)"
  by (simp add: write_error_def not_found_def failure_of_def)

text \<open>
  The gate of a storage: an account that is not a member gets the same 404 whether the id is malformed,
  names no storage or names a foreign household, the same as for any unknown resource, and nothing changes;
  a member reaches the handler with exactly the storage that was checked.
\<close>

theorem storage_gate_correct:
  assumes "cx_user cx = Some u"
  shows "if pred_option (\<lambda>st. \<not> tbl_has (st, fst u) (memberships s)) raw
    then \<exists>f. require_storage_member raw h cx s = (Inl f, s)
           \<and> write_error False f = write_error False (not_found any)
    else \<exists>st. raw = Some st \<and> tbl_has (st, fst u) (memberships s)
           \<and> require_storage_member raw h cx s = h (cx\<lparr>cx_storage := Some st\<rparr>) s"
  using assms not_found_alike [of _ any]
  by (cases raw) (auto simp: require_storage_member_def refuse_def read_state_def is_storage_member_def)

theorem storage_gate_correct_witness:
  "\<exists>f. require_storage_member (Some 2) (\<lambda>_. answer_with 200 ()) \<lparr>cx_user = Some (7, some_account), cx_session = None, cx_storage = None\<rparr> access_db
      = (Inl f, access_db) \<and> er_status (write_error False f) = 404"
proof -
  let ?cx = "\<lparr>cx_user = Some (7, some_account), cx_session = None, cx_storage = None\<rparr>"
  have none: "memberships access_db = []" by (simp add: access_db_def demo_defs)
  have u: "cx_user ?cx = Some (7, some_account)" by simp
  from storage_gate_correct [OF u, where s = access_db and raw = "Some 2" and h = "\<lambda>_. answer_with 200 ()" and any = "[]"]
  show ?thesis by (auto simp: none tbl_has_def) (simp add: write_error_def not_found_def failure_of_def)
qed

text \<open>
  C24. The gate of the admin area: its handlers are reached exactly by a browser session of an account that
  is an administrator in the state of this very request; everyone else gets the 404 of an unknown resource,
  and nothing changes.
\<close>

theorem admin_gate_correct:
  "(let admitted = (\<exists>i a t e. cx_user cx = Some (i, a) \<and> cx_session cx = Some (t, e) \<and> is_admin i s \<and> se_kind e = SessionBrowser) in
    if admitted then require_admin h cx s = h cx s
    else \<exists>f. require_admin h cx s = (Inl f, s) \<and> write_error False f = write_error False (not_found any))"
  using not_found_alike [of _ any]
  by (auto simp: require_admin_def refuse_def read_state_def Let_def split: option.splits prod.splits)

section \<open>A retried write runs once\<close>

text \<open>A request the middleware takes over: a key that is a UUID, a write, a known caller, a body it can hash.\<close>

definition retriable :: "http_config \<Rightarrow> http_request \<Rightarrow> http_context \<Rightarrow> uuid \<Rightarrow> bool" where
  "retriable cfg r cx user \<longleftrightarrow> rq_key r \<noteq> [] \<and> is_write (rq_method r) \<and> hc_is_uuid cfg (rq_key r)
     \<and> map_option fst (cx_user cx) = Some user \<and> \<not> int (length (rq_body r)) > max_idempotent_body"

definition request_hash :: "http_config \<Rightarrow> http_request \<Rightarrow> string" where
  "request_hash cfg r = hash_request (hc_digest cfg) (rq_method r) (rq_uri r) (rq_body r)"

lemma idempotent_first:
  assumes "retriable cfg r cx user" and "map_of (replies s) (rq_key r, user) = None"
  shows "idempotent cfg enc h r cx s = (case h cx s of (out, s2) \<Rightarrow>
      let w = respond enc (hc_dev cfg) out in
      if \<not> worth_recording (wr_status w) then (w, s2)
      else (w, snd (in_tx (record_idempotent (rq_key r) user (cx_storage cx) (request_hash cfg r) (wr_status w) (wr_body w)) s2)))"
proof -
  have "in_tx (lookup_idempotent (rq_key r) user (request_hash cfg r)) s = (Inr None, s)"
    using assms(2) by (simp add: lookup_idempotent_def in_tx_def tx_defs)
  then show ?thesis
    using assms(1) by (auto simp: idempotent_def retriable_def request_hash_def Let_def split: prod.splits)
qed

lemma idempotent_replay:
  assumes "retriable cfg r cx user" and "map_of (replies s) (rq_key r, user) = Some e" and "ik_hash e = request_hash cfg r"
  shows "idempotent cfg enc h r cx s = (\<lparr>wr_status = ik_status e, wr_body = ik_body e, wr_replayed = True\<rparr>, s)"
proof -
  have "in_tx (lookup_idempotent (rq_key r) user (request_hash cfg r)) s = (Inr (Some (ik_status e, ik_body e)), s)"
    using assms(2,3) by (simp add: lookup_idempotent_def in_tx_def tx_defs)
  then show ?thesis
    using assms(1) by (auto simp: idempotent_def retriable_def request_hash_def Let_def)
qed

lemma idempotent_misuse:
  assumes "retriable cfg r cx user" and "map_of (replies s) (rq_key r, user) = Some e" and "ik_hash e \<noteq> request_hash cfg r"
  shows "idempotent cfg enc h r cx s = (respond enc (hc_dev cfg) (Inl (validation_failed
      [(idempotency_key_header, [''This key was already used for a different request.''])])), s)"
proof -
  have "in_tx (lookup_idempotent (rq_key r) user (request_hash cfg r)) s = (Inl ErrValidation, s)"
    using assms(2,3) by (simp add: lookup_idempotent_def in_tx_def tx_defs)
  then show ?thesis
    using assms(1) by (auto simp: idempotent_def retriable_def request_hash_def Let_def)
qed


text \<open>A jar is taken off a shelf once, though the request arrives twice.\<close>

definition demo_config :: http_config where
  "demo_config = \<lparr>hc_dev = False, hc_digest = id, hc_is_uuid = (\<lambda>k. length k = 1)\<rparr>"

definition demo_write :: http_request where
  "demo_write = \<lparr>rq_method = ''POST'', rq_uri = ''/take'', rq_body = ''1'', rq_cookie = Some ''t'', rq_authorization = [],
     rq_key = ''k'', rq_storage = Some 2\<rparr>"

definition demo_context :: http_context where
  "demo_context = \<lparr>cx_user = Some (7, some_account), cx_session = None, cx_storage = Some 2\<rparr>"

definition take_one :: "uuid endpoint" where
  "take_one cx = call (adjust_batch 2 20 (-1) ReasonConsumption None) (\<lambda>e. from_store_error e []) (answer_with 200)"

definition demo_encode :: "error_reply + uuid \<Rightarrow> string" where
  "demo_encode b = (case b of Inl _ \<Rightarrow> ''error'' | Inr _ \<Rightarrow> ''taken'')"


end
