(* ===== verification/Handlers.thy ===== *)
theory Handlers
  imports Http
begin

text \<open>
  What is shared by the handlers of every endpoint: rules along the shape of a handler for keeping a
  property of the state, for refusing without a trace, and the failures a client can get. A component states
  its requests as a datatype and proves both by these rules.
\<close>

section \<open>Keeping a property\<close>

definition upholds :: "(db \<Rightarrow> bool) \<Rightarrow> 'b handler \<Rightarrow> bool" where
  "upholds P h \<longleftrightarrow> (\<forall>s. P s \<longrightarrow> P (snd (h s)))"

named_theorems upholds_intros

lemma upholdsI: "(\<And>s. P s \<Longrightarrow> P (snd (h s))) \<Longrightarrow> upholds P h"
  by (simp add: upholds_def)

lemma upholdsD: "upholds P h \<Longrightarrow> P s \<Longrightarrow> h s = (r, s') \<Longrightarrow> P s'"
  by (auto simp: upholds_def dest: spec [of _ s])

lemma upholds_refuse [upholds_intros]: "upholds P (refuse f)"
  by (simp add: upholds_def refuse_def)

lemma upholds_answer [upholds_intros]: "upholds P (answer_with st b)"
  by (simp add: upholds_def answer_with_def)

lemma upholds_call [upholds_intros]: "keeps P m \<Longrightarrow> (\<And>a. upholds P (k a)) \<Longrightarrow> upholds P (call m e k)"
proof (rule upholdsI)
  fix s assume m: "keeps P m" and k: "\<And>a. upholds P (k a)" and s: "P s"
  from in_tx_keeps [OF m s] k show "P (snd (call m e k s))"
    by (auto simp: call_def upholds_def split: prod.split sum.split)
qed

lemma upholds_read [upholds_intros]: "(\<And>a. upholds P (k a)) \<Longrightarrow> upholds P (read_state f k)"
  by (simp add: upholds_def read_state_def)

lemma upholds_storage [upholds_intros]: "(\<And>st. upholds P (k st)) \<Longrightarrow> upholds P (with_storage cx k)"
  by (cases "cx_storage cx") (simp_all add: with_storage_def upholds_refuse)

lemma upholds_user [upholds_intros]: "(\<And>u. upholds P (k u)) \<Longrightarrow> upholds P (with_user cx k)"
  by (cases "cx_user cx") (simp_all add: with_user_def upholds_refuse)

lemma upholds_id [upholds_intros]: "(\<And>i. upholds P (k i)) \<Longrightarrow> upholds P (id_from_path raw reason k)"
  by (cases raw) (simp_all add: id_from_path_def upholds_refuse)

lemma upholds_decode [upholds_intros]: "(\<And>b. upholds P (k b)) \<Longrightarrow> upholds P (decode_json d k)"
  by (cases d) (simp_all add: decode_json_def upholds_refuse)

lemma upholds_problems [upholds_intros]: "upholds P k \<Longrightarrow> upholds P (no_problems fs k)"
  by (simp add: no_problems_def upholds_refuse)

lemma upholds_if [upholds_intros]: "upholds P h \<Longrightarrow> upholds P k \<Longrightarrow> upholds P (if b then h else k)"
  by simp

lemma upholds_option [upholds_intros]: "upholds P h \<Longrightarrow> (\<And>a. upholds P (k a)) \<Longrightarrow> upholds P (case x of None \<Rightarrow> h | Some a \<Rightarrow> k a)"
  by (cases x) simp_all

lemma upholds_sum [upholds_intros]:
  "(\<And>a. upholds P (h a)) \<Longrightarrow> (\<And>b. upholds P (k b)) \<Longrightarrow> upholds P (case x of Inl a \<Rightarrow> h a | Inr b \<Rightarrow> k b)"
  by (cases x) simp_all

lemma upholds_prod [upholds_intros]: "(\<And>a b. upholds P (k a b)) \<Longrightarrow> upholds P (case x of (a, b) \<Rightarrow> k a b)"
  by (cases x) simp

text \<open>A handler whose answer has no body of interest.\<close>

definition bodiless :: "'b handler \<Rightarrow> unit handler" where
  "bodiless h s = (case h s of (Inl f, s') \<Rightarrow> (Inl f, s') | (Inr (status, _), s') \<Rightarrow> (Inr (status, ()), s'))"

lemma upholds_bodiless [upholds_intros]: "upholds P h \<Longrightarrow> upholds P (bodiless h)"
  by (simp add: upholds_def bodiless_def case_prod_unfold split: sum.split)

section \<open>Failures a client can get\<close>

text \<open>A status comes with its code, and only a request that could not be processed names fields.\<close>

definition known_failure :: "failure \<Rightarrow> bool" where
  "known_failure f \<longleftrightarrow> (fl_status f, fl_code f) \<in> {(401, ''unauthorized''), (404, ''not_found''), (409, ''conflict''),
       (409, ''resync_required''), (413, ''payload_too_large''), (422, ''validation_failed''), (500, ''internal_error''),
       (502, ''upstream_failed''), (503, ''model_unavailable'')}
     \<and> (fl_fields f \<noteq> [] \<longrightarrow> fl_status f = 422)"

lemmas failure_defs = not_found_def unauthorized_def conflict_def resync_required_def validation_failed_def
  payload_too_large_def model_unavailable_def upstream_failed_def internal_def failure_of_def

lemma known_failures [simp]:
  "known_failure (not_found r)" "known_failure (unauthorized r)" "known_failure (conflict e)"
  "known_failure (resync_required r)" "known_failure (validation_failed fs)" "known_failure payload_too_large"
  "known_failure (model_unavailable r)" "known_failure upstream_failed" "known_failure internal"
  by (simp_all add: known_failure_def failure_defs)

lemma known_store_error [simp]: "known_failure (from_store_error e r)"
  by (cases e) (simp_all add: from_store_error_def, simp add: known_failure_def failure_defs)

lemma known_conflict_as [simp]: "known_failure (conflict_as e r msg)"
  by (cases e) (simp_all add: conflict_as_def Let_def from_store_error_def known_failure_def failure_defs)

section \<open>Refusing without a trace\<close>

text \<open>A refusal leaves the state as it was, and is one the client knows.\<close>

definition traceless :: "'b handler \<Rightarrow> bool" where
  "traceless h \<longleftrightarrow> (\<forall>s f s'. h s = (Inl f, s') \<longrightarrow> s' = s \<and> known_failure f)"

text \<open>What may follow a store call that has committed: a handler that does not refuse.\<close>

definition settles :: "'b handler \<Rightarrow> bool" where
  "settles h \<longleftrightarrow> (\<forall>s f s'. h s \<noteq> (Inl f, s'))"

named_theorems traceless_intros

lemma tracelessD: "traceless h \<Longrightarrow> h s = (Inl f, s') \<Longrightarrow> s' = s \<and> known_failure f"
  by (simp add: traceless_def)

lemma settles_answer [traceless_intros]: "settles (answer_with st b)"
  by (simp add: settles_def answer_with_def)

lemma settles_if [traceless_intros]: "settles h \<Longrightarrow> settles k \<Longrightarrow> settles (if b then h else k)"
  by simp

lemma settles_prod [traceless_intros]: "(\<And>a b. settles (k a b)) \<Longrightarrow> settles (case x of (a, b) \<Rightarrow> k a b)"
  by (cases x) simp

lemma settles_read [traceless_intros]: "(\<And>a. settles (k a)) \<Longrightarrow> settles (read_state f k)"
  by (simp add: settles_def read_state_def)

lemma traceless_refuse [traceless_intros]: "known_failure f \<Longrightarrow> traceless (refuse f)"
  by (simp add: traceless_def refuse_def)

lemma traceless_settled: "settles h \<Longrightarrow> traceless h"
  by (simp add: traceless_def settles_def)

lemma traceless_answer [traceless_intros]: "traceless (answer_with st b)"
  by (rule traceless_settled [OF settles_answer])

lemma traceless_call [traceless_intros]:
  "(\<And>e. known_failure (on_error e)) \<Longrightarrow> (\<And>a. settles (k a)) \<Longrightarrow> traceless (call m on_error k)"
  by (auto simp: traceless_def settles_def call_def in_tx_def split: sum.splits prod.splits)

text \<open>A call that only reads may be followed by anything.\<close>

definition only_reads :: "'a dbtx \<Rightarrow> bool" where
  "only_reads m \<longleftrightarrow> (\<forall>s a s'. m s = Inr (a, s') \<longrightarrow> s' = s)"

lemma traceless_reading_call:
  "only_reads m \<Longrightarrow> (\<And>e. known_failure (on_error e)) \<Longrightarrow> (\<And>a. traceless (k a)) \<Longrightarrow> traceless (call m on_error k)"
proof (unfold traceless_def, intro allI impI)
  fix s f s' assume m: "only_reads m" and e: "\<And>e. known_failure (on_error e)" and k: "\<And>a. \<forall>s f s'. k a s = (Inl f, s') \<longrightarrow> s' = s \<and> known_failure f"
    and run: "call m on_error k s = (Inl f, s')"
  show "s' = s \<and> known_failure f"
  proof (cases "m s")
    case (Inl x)
    then show ?thesis using run e by (auto simp: call_def)
  next
    case (Inr x)
    then obtain a t where x: "m s = Inr (a, t)" by (cases x) simp
    then have "t = s" using m by (simp add: only_reads_def)
    then show ?thesis using run k x by (simp add: call_def)
  qed
qed

lemma traceless_read [traceless_intros]: "(\<And>a. traceless (k a)) \<Longrightarrow> traceless (read_state f k)"
  by (simp add: traceless_def read_state_def)

lemma traceless_storage [traceless_intros]: "(\<And>st. traceless (k st)) \<Longrightarrow> traceless (with_storage cx k)"
  by (cases "cx_storage cx") (simp_all add: with_storage_def traceless_refuse)

lemma traceless_user [traceless_intros]: "(\<And>u. traceless (k u)) \<Longrightarrow> traceless (with_user cx k)"
  by (cases "cx_user cx") (simp_all add: with_user_def traceless_refuse)

lemma traceless_id [traceless_intros]: "(\<And>i. traceless (k i)) \<Longrightarrow> traceless (id_from_path raw reason k)"
  by (cases raw) (simp_all add: id_from_path_def traceless_refuse)

lemma traceless_decode [traceless_intros]: "(\<And>b. traceless (k b)) \<Longrightarrow> traceless (decode_json d k)"
  by (cases d) (simp_all add: decode_json_def traceless_refuse)

lemma traceless_problems [traceless_intros]: "traceless k \<Longrightarrow> traceless (no_problems fs k)"
  by (simp add: no_problems_def traceless_refuse)

lemma traceless_if [traceless_intros]: "traceless h \<Longrightarrow> traceless k \<Longrightarrow> traceless (if b then h else k)"
  by simp

lemma traceless_option [traceless_intros]:
  "traceless h \<Longrightarrow> (\<And>a. traceless (k a)) \<Longrightarrow> traceless (case x of None \<Rightarrow> h | Some a \<Rightarrow> k a)"
  by (cases x) simp_all

lemma traceless_sum [traceless_intros]:
  "(\<And>a. x = Inl a \<Longrightarrow> traceless (h a)) \<Longrightarrow> (\<And>b. traceless (k b)) \<Longrightarrow> traceless (case x of Inl a \<Rightarrow> h a | Inr b \<Rightarrow> k b)"
  by (cases x) simp_all

lemma traceless_prod [traceless_intros]: "(\<And>a b. traceless (k a b)) \<Longrightarrow> traceless (case x of (a, b) \<Rightarrow> k a b)"
  by (cases x) simp

lemma traceless_bodiless [traceless_intros]: "traceless h \<Longrightarrow> traceless (bodiless h)"
  by (auto simp: traceless_def bodiless_def split: sum.splits prod.splits)

end
