(* ===== verification/StockApi.thy ===== *)
theory StockApi
  imports Handlers
begin

text \<open>
  The handlers that change stock: \<open>internal/httpapi/batches.go\<close>, \<open>stocktake.go\<close>, \<open>consume.go\<close> and
  \<open>expiry.go\<close>. Each checks what the caller sent, calls the store and turns its error into a failure. A date
  in a body is what \<open>time.Parse\<close> makes of it, \<open>Malformed\<close> when it is no date or no string.
\<close>

section \<open>Shared checks\<close>

definition max_batch_quantity :: int where "max_batch_quantity = 100000"
definition max_container_label_length :: nat where "max_container_label_length = 255"

text \<open>\<open>utf8.RuneCountInString\<close> of valid UTF-8: the bytes that do not continue a rune.\<close>

definition rune_count :: "string \<Rightarrow> nat" where
  "rune_count t = length (filter (\<lambda>c. let n = (of_char c :: nat) in n < 128 \<or> 192 \<le> n) t)"

definition parse_creation_container_fields ::
    "string option \<Rightarrow> string option \<Rightarrow> field_map \<Rightarrow> string option \<times> string option \<times> field_map" where
  "parse_creation_container_fields label ty fs =
     (let (out_label, fs1) = (case label of
            None \<Rightarrow> (None, fs)
          | Some raw \<Rightarrow> let t = trim_space raw in
              if t = [] then (None, add_field ''container_label'' ''Must not be empty.'' fs)
              else if rune_count t > max_container_label_length
                then (None, add_field ''container_label'' ''Keep the container label under 255 characters.'' fs)
              else (Some t, fs));
          (out_type, fs2) = (case ty of
            None \<Rightarrow> (None, fs1)
          | Some raw \<Rightarrow> let t = trim_space raw in
              if t = [] then (None, add_field ''container_type'' ''Must not be empty.'' fs1) else (Some t, fs1))
      in (out_label, out_type, fs2))"

definition parse_stated_expiration :: "date raw \<Rightarrow> date option \<times> bool \<times> string list" where
  "parse_stated_expiration raw = (case raw of
      Absent \<Rightarrow> (None, False, [])
    | Malformed \<Rightarrow> (None, False, [''Must be a YYYY-MM-DD date or null.''])
    | Null \<Rightarrow> (None, True, [])
    | Value d \<Rightarrow> (Some d, True, []))"

section \<open>Batches\<close>

record split_request =
  sq_quantity :: int
  sq_target :: "uuid option"
  sq_disposition :: "disposition option"

definition batch_split :: "http_context \<Rightarrow> uuid option \<Rightarrow> split_request decoded \<Rightarrow> batch_view handler" where
  "batch_split cx raw body =
     with_storage cx (\<lambda>st. id_from_path raw ''malformed batch id'' (\<lambda>i. decode_json body (\<lambda>b.
       let fs = (if sq_quantity b < 1 then add_field ''quantity'' ''Must be at least 1.'' [] else []);
           fs = (if sq_target b = None then add_field ''target_location_id'' ''Must be a UUID.'' fs else fs);
           fs = (if pred_option valid_container_disposition (sq_disposition b) then fs
                 else add_field ''container_disposition''
                   ''Must be \"source\", \"target\", \"both\", \"neither\" or \"destroy\".'' fs) in
       no_problems fs
         (call (split_batch st i \<lparr>sp_quantity = sq_quantity b, sp_target = the (sq_target b), sp_disposition = sq_disposition b\<rparr>
             (acting_user cx))
           (\<lambda>e. from_store_error e ''batch or target location not in this storage or nonexistent'')
           (answer_with 201)))))"

record batch_update =
  bu_location :: "uuid option option"
  bu_quantity :: "int option"
  bu_label :: "string raw"
  bu_type :: "string raw"

definition update_label :: "string raw \<Rightarrow> field_map \<Rightarrow> bool \<times> string option \<times> field_map" where
  "update_label raw fs = (case raw of
      Absent \<Rightarrow> (False, None, fs)
    | Null \<Rightarrow> (True, None, fs)
    | Malformed \<Rightarrow> (True, None, add_field ''container_label'' ''Must be a string or null.'' fs)
    | Value v \<Rightarrow> let t = trim_space v in
        if t = [] then (True, None, add_field ''container_label'' ''Send null to take this batch out of its container.'' fs)
        else if rune_count t > max_container_label_length
          then (True, None, add_field ''container_label'' ''Keep the container label under 255 characters.'' fs)
        else (True, Some t, fs))"

definition update_type :: "string raw \<Rightarrow> field_map \<Rightarrow> bool \<times> string option \<times> field_map" where
  "update_type raw fs = (case raw of
      Absent \<Rightarrow> (False, None, fs)
    | Null \<Rightarrow> (True, None, fs)
    | Malformed \<Rightarrow> (True, None, add_field ''container_type'' ''Must be a string or null.'' fs)
    | Value v \<Rightarrow> let t = trim_space v in
        (True, Some t, if t = [] then add_field ''container_type'' ''Send null to clear the container type.'' fs else fs))"

text \<open>The fields a PATCH of a batch makes, with the problems found on the way.\<close>

definition parse_batch_update :: "batch_update \<Rightarrow> batch_patch \<times> field_map" where
  "parse_batch_update b =
     (let (q, fs) = (case bu_quantity b of
            None \<Rightarrow> (None, [])
          | Some n \<Rightarrow> if n < 0 \<or> n > max_batch_quantity
              then (None, add_field ''quantity'' ''Must be a whole number of zero or more.'' []) else (Some n, []));
          (l, fs) = (case bu_location b of
            None \<Rightarrow> (None, fs)
          | Some None \<Rightarrow> (None, add_field ''location_id'' ''Must be a UUID.'' fs)
          | Some (Some t) \<Rightarrow> (Some t, fs));
          (set_label, label, fs) = update_label (bu_label b) fs;
          (set_type, ty, fs) = update_type (bu_type b) fs
      in (\<lparr>bp_quantity = q, bp_location = l, bp_set_label = set_label, bp_label = label,
            bp_set_type = set_type, bp_type = ty\<rparr>, fs))"

definition batch_update_request :: "http_context \<Rightarrow> uuid option \<Rightarrow> batch_update decoded \<Rightarrow> batch_view option handler" where
  "batch_update_request cx raw body =
     with_storage cx (\<lambda>st. id_from_path raw ''malformed batch id'' (\<lambda>i. decode_json body (\<lambda>b.
       if bu_location b = None \<and> bu_quantity b = None \<and> bu_label b = Absent \<and> bu_type b = Absent
       then refuse (validation_failed [(''body'', [''Name at least one of location_id, quantity, container_label or container_type.''])])
       else let (patch, fs) = parse_batch_update b in
         no_problems fs
           (call (update_batch_request st i patch (acting_user cx))
             (\<lambda>e. from_store_error e ''batch or target location not in this storage or nonexistent'')
             (\<lambda>v. answer_with (if v = None then 204 else 200) v)))))"

definition container_destroy :: "http_context \<Rightarrow> uuid option \<Rightarrow> unit handler" where
  "container_destroy cx raw =
     with_storage cx (\<lambda>st. id_from_path raw ''malformed container id'' (\<lambda>i.
       call (destroy_container st i)
         (\<lambda>e. from_store_error e ''container not in this storage, nonexistent, or already destroyed'')
         (answer_with 204)))"

section \<open>Counting a shelf\<close>

record batch_creation =
  bn_product :: "uuid option"
  bn_location :: "uuid option"
  bn_quantity :: int
  bn_expiration :: "date raw"
  bn_label :: "string option"
  bn_type :: "string option"

definition parse_batch_creation :: "http_context \<Rightarrow> batch_creation \<Rightarrow> new_batch \<times> field_map" where
  "parse_batch_creation cx b =
     (let fs = (if bn_product b = None then add_field ''product_id'' ''Must be a UUID.'' [] else []);
          fs = (if bn_location b = None then add_field ''location_id'' ''Must be a UUID.'' fs else fs);
          fs = (if bn_quantity b < 1 \<or> bn_quantity b > max_batch_quantity
                then add_field ''quantity'' ''Must be a whole number of at least 1.'' fs else fs);
          (d, stated, problems) = parse_stated_expiration (bn_expiration b);
          fs = fold (add_field ''expiration_date'') problems fs;
          (label, ty, fs) = parse_creation_container_fields (bn_label b) (bn_type b) fs
      in (\<lparr>nb_product = the (bn_product b), nb_location = the (bn_location b), nb_quantity = bn_quantity b,
            nb_expiration = d, nb_source = Some (if stated then ExpirationUser else ExpirationDerived),
            nb_reason = Some ReasonAudit, nb_created_by = acting_user cx, nb_label = label, nb_type = ty\<rparr>, fs))"

definition stocktake_create_batch :: "http_context \<Rightarrow> batch_creation decoded \<Rightarrow> batch_view handler" where
  "stocktake_create_batch cx body =
     with_storage cx (\<lambda>st. decode_json body (\<lambda>b.
       let (inp, fs) = parse_batch_creation cx b in
       no_problems fs
         (call (create_batch st inp)
           (\<lambda>e. from_store_error e ''product or location not in this storage or nonexistent'')
           (answer_with 201))))"

definition stocktake_sheet_request ::
    "(string \<Rightarrow> 'c :: linorder) \<Rightarrow> http_context \<Rightarrow> uuid option \<Rightarrow> stocktake_sheet handler" where
  "stocktake_sheet_request collate cx raw =
     with_storage cx (\<lambda>st. id_from_path raw ''malformed location id'' (\<lambda>l.
       call (location_stocktake collate st l)
         (\<lambda>e. from_store_error e ''location not in this storage or nonexistent'') (answer_with 200)))"

record count_item =
  ci_batch :: "uuid option"
  ci_quantity :: int

record found_item =
  fi_product :: "uuid option"
  fi_quantity :: int
  fi_expiration :: "date raw"

record stocktake_confirm_body =
  sc_batches :: "count_item list option"
  sc_found :: "found_item list"

definition max_stocktake_counts :: nat where "max_stocktake_counts = 500"
definition max_stocktake_found :: nat where "max_stocktake_found = 500"

text \<open>\<open>group[i].field\<close>, over the decimal text of the index.\<close>

definition item_key :: "string \<Rightarrow> nat \<Rightarrow> string \<Rightarrow> string" where
  "item_key part i field = part @ ''['' @ nat_text i @ ''].'' @ field"

fun parse_counts :: "nat \<Rightarrow> count_item list \<Rightarrow> field_map \<Rightarrow> (uuid \<times> int) list \<times> field_map" where
  "parse_counts i [] fs = ([], fs)"
| "parse_counts i (c # cs) fs = (case ci_batch c of
      None \<Rightarrow> parse_counts (Suc i) cs (add_field (item_key ''batches'' i ''batch_id'') ''Must be a UUID.'' fs)
    | Some b \<Rightarrow>
        if ci_quantity c < 0 \<or> ci_quantity c > max_batch_quantity
        then parse_counts (Suc i) cs (add_field (item_key ''batches'' i ''quantity'') ''Must be a whole number of zero or more.'' fs)
        else (case parse_counts (Suc i) cs fs of (out, fs') \<Rightarrow> ((b, ci_quantity c) # out, fs')))"

fun parse_found :: "nat \<Rightarrow> found_item list \<Rightarrow> field_map \<Rightarrow> found_stock list \<times> field_map" where
  "parse_found i [] fs = ([], fs)"
| "parse_found i (c # cs) fs = (case fi_product c of
      None \<Rightarrow> parse_found (Suc i) cs (add_field (item_key ''found'' i ''product_id'') ''Must be a UUID.'' fs)
    | Some p \<Rightarrow>
        if fi_quantity c < 1 \<or> fi_quantity c > max_batch_quantity
        then parse_found (Suc i) cs (add_field (item_key ''found'' i ''quantity'') ''Must be a whole number of at least 1.'' fs)
        else (case parse_stated_expiration (fi_expiration c) of (d, stated, problems) \<Rightarrow>
          if problems \<noteq> []
          then parse_found (Suc i) cs (fold (add_field (item_key ''found'' i ''expiration_date'')) problems fs)
          else (case parse_found (Suc i) cs fs of (out, fs') \<Rightarrow>
            (\<lparr>fs_product = p, fs_quantity = fi_quantity c, fs_expiration = d, fs_stated = stated\<rparr> # out, fs'))))"

definition parse_stocktake_confirm :: "stocktake_confirm_body \<Rightarrow> failure + (uuid \<times> int) list \<times> found_stock list" where
  "parse_stocktake_confirm b = (case sc_batches b of
      None \<Rightarrow> Inl (validation_failed [(''batches'', [''A count for every batch at this location is required.''])])
    | Some cs \<Rightarrow>
        if length cs > max_stocktake_counts then Inl (validation_failed [(''batches'', [''Too many batches.''])])
        else if length (sc_found b) > max_stocktake_found then Inl (validation_failed [(''found'', [''Too many found items.''])])
        else (case parse_counts 0 cs [] of (counts, fs) \<Rightarrow>
              (case parse_found 0 (sc_found b) fs of (found, fs') \<Rightarrow>
                 if fs' \<noteq> [] then Inl (validation_failed fs') else Inr (counts, found))))"

definition stocktake_confirm :: "http_context \<Rightarrow> uuid option \<Rightarrow> stocktake_confirm_body decoded \<Rightarrow> stocktake_result handler" where
  "stocktake_confirm cx raw body =
     with_storage cx (\<lambda>st. id_from_path raw ''malformed location id'' (\<lambda>l. decode_json body (\<lambda>b.
       case parse_stocktake_confirm b of
         Inl f \<Rightarrow> refuse f
       | Inr (counts, found) \<Rightarrow>
           call (confirm_stocktake st l (acting_user cx) counts found)
             (\<lambda>e. let f = from_store_error e ''location not in this storage or nonexistent'' in
                if fl_status f = 422
                then validation_failed [(''batches'', [''This shelf changed since the sheet was fetched. Reload it and count again.''])]
                else f)
             (answer_with 200))))"

section \<open>Confirming consumption\<close>

record consume_item =
  cs_row :: string
  cs_decision :: string
  cs_product :: "uuid option"
  cs_decrements :: "(uuid \<times> int) list"

definition max_consume_rows :: nat where "max_consume_rows = 500"
definition max_consume_decrements_per_row :: nat where "max_consume_decrements_per_row = 50"
definition max_consume_quantity :: int where "max_consume_quantity = 100000"

definition decrement_ok :: "uuid \<times> int \<Rightarrow> bool" where
  "decrement_ok d \<longleftrightarrow> \<not> (snd d < 1 \<or> snd d > max_consume_quantity)"

definition parse_decrements :: "string \<Rightarrow> (uuid \<times> int) list \<Rightarrow> field_map \<Rightarrow> field_map" where
  "parse_decrements k ds fs =
     fold (\<lambda>d fs. if decrement_ok d then fs else add_field k ''Each quantity must be a whole number of at least 1.'' fs) ds
       (if ds = [] then add_field k ''At least one batch decrement is required.'' fs
        else if length ds > max_consume_decrements_per_row then add_field k ''Too many batches.'' fs
        else fs)"

fun parse_consume_items :: "nat \<Rightarrow> consume_item list \<Rightarrow> field_map \<Rightarrow> consume_decision list \<times> field_map" where
  "parse_consume_items i [] fs = ([], fs)"
| "parse_consume_items i (c # cs) fs =
     (let fs = (if cs_row c = [] then add_field (item_key ''items'' i ''row_id'') ''Required.'' fs else fs) in
      if cs_decision c = ''reject'' then
        (case parse_consume_items (Suc i) cs fs of (out, fs') \<Rightarrow>
           (\<lparr>cd_row = cs_row c, cd_accept = False, cd_product = None, cd_decrements = []\<rparr> # out, fs'))
      else if cs_decision c = ''accept'' then
        (let fs = (if cs_product c = None then add_field (item_key ''items'' i ''product_id'') ''Required.'' fs else fs);
             fs = parse_decrements (item_key ''items'' i ''decrements'') (cs_decrements c) fs in
         case parse_consume_items (Suc i) cs fs of (out, fs') \<Rightarrow>
           (\<lparr>cd_row = cs_row c, cd_accept = True, cd_product = cs_product c,
              cd_decrements = filter decrement_ok (cs_decrements c)\<rparr> # out, fs'))
      else parse_consume_items (Suc i) cs (add_field (item_key ''items'' i ''decision'') ''Must be accept or reject.'' fs))"

definition parse_consume_decisions :: "consume_item list option \<Rightarrow> failure + consume_decision list" where
  "parse_consume_decisions items = (case items of
      None \<Rightarrow> Inl (validation_failed [(''items'', [''A decision for every proposed row is required.''])])
    | Some cs \<Rightarrow>
        if length cs > max_consume_rows then Inl (validation_failed [(''items'', [''Too many rows.''])])
        else (case parse_consume_items 0 cs [] of (out, fs) \<Rightarrow>
          if fs \<noteq> [] then Inl (validation_failed fs) else Inr out))"

definition consume_confirm :: "http_context \<Rightarrow> uuid option \<Rightarrow> consume_item list option decoded \<Rightarrow> uuid list handler" where
  "consume_confirm cx raw body =
     with_storage cx (\<lambda>st. with_user cx (\<lambda>u. id_from_path raw ''malformed job id'' (\<lambda>j. decode_json body (\<lambda>b.
       case parse_consume_decisions b of
         Inl f \<Rightarrow> refuse f
       | Inr ds \<Rightarrow>
           call (confirm_consumption st j (Some (fst u)) ds)
             (\<lambda>e. if e = ErrValidation then validation_failed [(''items'',
                    [''Every proposed row needs exactly one decision; an accepted row needs a product and at least one valid batch decrement.''])]
                  else if e = ErrConflict then conflict_as e [] ''This proposal has already been confirmed, or is not ready for review.''
                  else from_store_error e ''job or referenced id not found in storage'')
             (answer_with 200)))))"

section \<open>Dates and shelf lives\<close>

text \<open>The source is the text sent, of which only the derived one can be asked for.\<close>

record expiry_patch =
  xp_date :: "date raw"
  xp_source :: "string option"

definition parse_expiration_date :: "date raw \<Rightarrow> failure + date option" where
  "parse_expiration_date raw = (case raw of
      Value d \<Rightarrow> Inr (Some d)
    | Null \<Rightarrow> Inr None
    | _ \<Rightarrow> Inl (validation_failed [(''expiration_date'', [''Must be a YYYY-MM-DD date or null.''])]))"

definition patch_batch_expiry :: "http_context \<Rightarrow> uuid option \<Rightarrow> expiry_patch decoded \<Rightarrow> batch_view handler" where
  "patch_batch_expiry cx raw body =
     with_storage cx (\<lambda>st. with_user cx (\<lambda>u. id_from_path raw ''malformed batch id'' (\<lambda>i. decode_json body (\<lambda>b.
       case xp_source b of
         Some source \<Rightarrow>
           if source \<noteq> ''derived''
           then refuse (validation_failed [(''expiration_source'',
             [''Only \"derived\" can be requested; a date you set is recorded as \"user\" automatically.''])])
           else call (reset_batch_expiration st i) (\<lambda>e. from_store_error e ''batch not in this storage or nonexistent'') (answer_with 200)
       | None \<Rightarrow>
           if xp_date b = Absent
           then refuse (validation_failed [(''expiration_date'',
             [''Provide a date, null to record \"no expiry\", or {\"expiration_source\":\"derived\"} to use the automatic date again.''])])
           else (case parse_expiration_date (xp_date b) of
               Inl f \<Rightarrow> refuse f
             | Inr d \<Rightarrow> call (set_batch_expiration st i d (Some (fst u)))
                 (\<lambda>e. from_store_error e ''batch not in this storage or nonexistent'') (answer_with 200))))))"

definition max_shelf_life_days :: int where "max_shelf_life_days = 36500"

definition parse_shelf_life_days :: "int raw \<Rightarrow> failure + int option" where
  "parse_shelf_life_days raw = (case raw of
      Null \<Rightarrow> Inr None
    | Value n \<Rightarrow>
        if n < 0 then Inl (validation_failed [(''default_shelf_life_days'', [''Cannot be negative.''])])
        else if n > max_shelf_life_days
          then Inl (validation_failed [(''default_shelf_life_days'', [''That is longer than any shelf life; check the number.''])])
        else Inr (Some n)
    | _ \<Rightarrow> Inl (validation_failed [(''default_shelf_life_days'', [''Must be a whole number of days, or null.''])]))"

text \<open>The edit and the cascade are two store calls: an error of the second keeps the edit.\<close>

definition patch_category_shelf_life :: "http_context \<Rightarrow> uuid option \<Rightarrow> int raw decoded \<Rightarrow> (int option \<times> nat) handler" where
  "patch_category_shelf_life cx raw body =
     with_storage cx (\<lambda>st. id_from_path raw ''malformed category id'' (\<lambda>c. decode_json body (\<lambda>b.
       if b = Absent
       then refuse (validation_failed [(''default_shelf_life_days'',
         [''Provide a number of days, or null to inherit from the parent category.''])])
       else (case parse_shelf_life_days b of
           Inl f \<Rightarrow> refuse f
         | Inr days \<Rightarrow>
             call (set_category_shelf_life st c days)
               (\<lambda>e. from_store_error e ''category not in this storage or nonexistent'')
               (\<lambda>_ s. case recompute_for_category st c s of
                  ((Some _, _), s') \<Rightarrow> refuse internal s'
                | ((None, n), s') \<Rightarrow> answer_with 200 (days, n) s')))))"

section \<open>The requests\<close>

text \<open>The writing routes of a storage that reach stock, with their decoded bodies.\<close>

datatype stock_request =
    SplitBatch "uuid option" "split_request decoded"
  | PatchBatch "uuid option" "batch_update decoded"
  | DestroyContainer "uuid option"
  | CreateBatch "batch_creation decoded"
  | ConfirmStocktake "uuid option" "stocktake_confirm_body decoded"
  | ConfirmConsume "uuid option" "consume_item list option decoded"
  | PatchExpiry "uuid option" "expiry_patch decoded"
  | PatchShelfLife "uuid option" "int raw decoded"

fun serve_stock :: "stock_request \<Rightarrow> unit endpoint" where
  "serve_stock (SplitBatch raw body) cx = bodiless (batch_split cx raw body)"
| "serve_stock (PatchBatch raw body) cx = bodiless (batch_update_request cx raw body)"
| "serve_stock (DestroyContainer raw) cx = bodiless (container_destroy cx raw)"
| "serve_stock (CreateBatch body) cx = bodiless (stocktake_create_batch cx body)"
| "serve_stock (ConfirmStocktake raw body) cx = bodiless (stocktake_confirm cx raw body)"
| "serve_stock (ConfirmConsume raw body) cx = bodiless (consume_confirm cx raw body)"
| "serve_stock (PatchExpiry raw body) cx = bodiless (patch_batch_expiry cx raw body)"
| "serve_stock (PatchShelfLife raw body) cx = bodiless (patch_category_shelf_life cx raw body)"

lemma known_parse [simp]:
  "parse_stocktake_confirm b = Inl f \<Longrightarrow> known_failure f" "parse_consume_decisions items = Inl f \<Longrightarrow> known_failure f"
  "parse_expiration_date d = Inl f \<Longrightarrow> known_failure f" "parse_shelf_life_days n = Inl f \<Longrightarrow> known_failure f"
  by (auto simp: parse_stocktake_confirm_def parse_consume_decisions_def parse_expiration_date_def parse_shelf_life_days_def
      split: option.splits raw.splits if_splits prod.splits)

lemma traceless_stock:
  "traceless (batch_split cx raw b1)" "traceless (batch_update_request cx raw b2)" "traceless (container_destroy cx raw)"
  "traceless (stocktake_create_batch cx b3)" "traceless (stocktake_sheet_request collate cx raw)"
  "traceless (stocktake_confirm cx raw b4)" "traceless (consume_confirm cx raw b5)" "traceless (patch_batch_expiry cx raw b6)"
  unfolding batch_split_def batch_update_request_def container_destroy_def stocktake_create_batch_def
    stocktake_sheet_request_def stocktake_confirm_def consume_confirm_def patch_batch_expiry_def Let_def
  by (intro traceless_intros | simp)+

section \<open>Stock survives every request\<close>

lemma recompute_products_stock: "stock_inv s \<Longrightarrow> recompute_products storage ps n s = (out, s') \<Longrightarrow> stock_inv s'"
  using recompute_products_effect shifts_keep stock_inv_rows by blast

lemma upholds_cascade [upholds_intros]:
  "upholds stock_inv (\<lambda>s. case recompute_for_category st c s of
      ((Some e, n), s') \<Rightarrow> refuse internal s' | ((None, n), s') \<Rightarrow> answer_with 200 (days, n) s')"
proof (rule upholdsI)
  fix s assume s: "stock_inv s"
  obtain e n s' where r: "recompute_for_category st c s = ((e, n), s')" by (metis surj_pair)
  with s have "stock_inv s'" by (auto simp: recompute_for_category_def intro: recompute_products_stock)
  with r show "stock_inv (snd (case recompute_for_category st c s of
      ((Some e, n), s') \<Rightarrow> refuse internal s' | ((None, n), s') \<Rightarrow> answer_with 200 (days, n) s'))"
    by (cases e) (simp_all add: refuse_def answer_with_def)
qed

lemma stock_requests_uphold: "upholds stock_inv (serve_stock r cx)"
  by (cases r)
    (simp only: serve_stock.simps, unfold batch_split_def batch_update_request_def container_destroy_def
      stocktake_create_batch_def stocktake_confirm_def consume_confirm_def patch_batch_expiry_def patch_category_shelf_life_def Let_def,
     (intro upholds_intros stock_intros)+)+

section \<open>Refusals\<close>

text \<open>
  C21. A refused request of these routes has changed nothing, and the failure is one of the known ones, with its
  code and without fields unless the request itself was at fault. The one exception is the shelf life of a
  category, whose edit and cascade are two store calls: when the cascade breaks down the answer is an internal
  error and the edit stays, with ledger and shelf still balanced.
\<close>

theorem refused_stock_request:
  assumes "serve_stock r cx s = (Inl f, s')"
  shows "known_failure f \<and> (case r of PatchShelfLife raw body \<Rightarrow> if f = internal then stock_inv s \<longrightarrow> stock_inv s' else s' = s
    | _ \<Rightarrow> s' = s)"
proof (cases r)
  case (PatchShelfLife raw body)
  have "stock_inv s \<longrightarrow> stock_inv s'" using upholdsD [OF stock_requests_uphold _ assms] by simp
  moreover have "known_failure f \<and> (f \<noteq> internal \<longrightarrow> s' = s)"
    using assms
    by (auto simp: PatchShelfLife bodiless_def patch_category_shelf_life_def with_storage_def id_from_path_def decode_json_def
        refuse_def call_def answer_with_def in_tx_def
        split: option.splits decoded.splits if_splits sum.splits prod.splits)
  ultimately show ?thesis by (simp add: PatchShelfLife)
qed (use assms traceless_stock [THEN traceless_bodiless, THEN tracelessD] in \<open>auto\<close>)

theorem refused_stock_request_witness:
  "(let cx = \<lparr>cx_user = Some (7, some_account), cx_session = None, cx_storage = Some 2\<rparr>;
        r = SplitBatch (Some 20) (Decoded \<lparr>sq_quantity = 0, sq_target = Some 11, sq_disposition = None\<rparr>) in
    \<exists>f. serve_stock r cx demo_db = (Inl f, demo_db) \<and> known_failure f \<and> fl_fields f = [(''quantity'', [''Must be at least 1.''])])"
proof -
  let ?cx = "\<lparr>cx_user = Some (7, some_account), cx_session = None, cx_storage = Some 2\<rparr>"
  let ?r = "SplitBatch (Some 20) (Decoded \<lparr>sq_quantity = 0, sq_target = Some 11, sq_disposition = None\<rparr>)"
  let ?f = "validation_failed [(''quantity'', [''Must be at least 1.''])]"
  have "serve_stock ?r ?cx demo_db = (Inl ?f, demo_db)"
    by (simp add: bodiless_def batch_split_def with_storage_def id_from_path_def decode_json_def no_problems_def refuse_def
        add_field_def tbl_has_def tbl_ins_def Let_def)
  from this refused_stock_request [OF this] show ?thesis
    by (auto simp: Let_def validation_failed_def failure_of_def)
qed

section \<open>What a count may say\<close>

definition count_item_ok :: "count_item \<Rightarrow> bool" where
  "count_item_ok c \<longleftrightarrow> ci_batch c \<noteq> None \<and> 0 \<le> ci_quantity c \<and> ci_quantity c \<le> max_batch_quantity"

definition found_item_ok :: "found_item \<Rightarrow> bool" where
  "found_item_ok c \<longleftrightarrow> fi_product c \<noteq> None \<and> 1 \<le> fi_quantity c \<and> fi_quantity c \<le> max_batch_quantity
     \<and> fi_expiration c \<noteq> Malformed"

definition count_of :: "count_item \<Rightarrow> uuid \<times> int" where
  "count_of c = (the (ci_batch c), ci_quantity c)"

text \<open>A date that is left out is derived later; null states that there is none.\<close>

definition found_of :: "found_item \<Rightarrow> found_stock" where
  "found_of c = \<lparr>fs_product = the (fi_product c), fs_quantity = fi_quantity c,
     fs_expiration = (case fi_expiration c of Value d \<Rightarrow> Some d | _ \<Rightarrow> None), fs_stated = (fi_expiration c \<noteq> Absent)\<rparr>"

lemma add_field_nonempty [simp]: "add_field k m fs \<noteq> []"
  by (auto simp: add_field_def tbl_has_def tbl_ins_def tbl_upd_def tbl_map_def)

lemma fold_add_field_Nil [simp]: "fold (add_field k) ms fs = [] \<longleftrightarrow> ms = [] \<and> fs = []"
  by (induction ms arbitrary: fs) simp_all

lemma parse_counts_problems: "snd (parse_counts i cs fs) = [] \<longleftrightarrow> list_all count_item_ok cs \<and> fs = []"
  by (induction cs arbitrary: i fs) (auto simp: count_item_ok_def case_prod_unfold split: option.splits)

lemma parse_counts_values: "list_all count_item_ok cs \<Longrightarrow> parse_counts i cs fs = (map count_of cs, fs)"
  by (induction cs arbitrary: i) (auto simp: count_item_ok_def count_of_def split: option.splits)

lemma parse_found_problems: "snd (parse_found i cs fs) = [] \<longleftrightarrow> list_all found_item_ok cs \<and> fs = []"
  by (induction cs arbitrary: i fs)
    (auto simp: found_item_ok_def parse_stated_expiration_def case_prod_unfold split: option.splits raw.splits)

lemma parse_found_values: "list_all found_item_ok cs \<Longrightarrow> parse_found i cs fs = (map found_of cs, fs)"
  by (induction cs arbitrary: i)
    (auto simp: found_item_ok_def found_of_def parse_stated_expiration_def split: option.splits raw.splits)

text \<open>
  A count is accepted exactly when the batches are named, no list is longer than the limit and every line is
  in order on its own: ids that are UUIDs, a count from zero and a find from one up to the limit, a date that is a
  date, null or absent. What reaches the store is then every line, in order and unchanged.
\<close>

theorem stocktake_body_accepted_iff:
  "parse_stocktake_confirm b = Inr (counts, found) \<longleftrightarrow>
     (\<exists>cs. sc_batches b = Some cs \<and> length cs \<le> max_stocktake_counts \<and> length (sc_found b) \<le> max_stocktake_found
        \<and> list_all count_item_ok cs \<and> list_all found_item_ok (sc_found b)
        \<and> counts = map count_of cs \<and> found = map found_of (sc_found b))"
proof (cases "sc_batches b")
  case None
  then show ?thesis by (simp add: parse_stocktake_confirm_def)
next
  case (Some cs)
  show ?thesis
  proof (cases "list_all count_item_ok cs \<and> list_all found_item_ok (sc_found b)")
    case True
    then show ?thesis by (auto simp: parse_stocktake_confirm_def Some parse_counts_values parse_found_values)
  next
    case False
    have "snd (parse_found 0 (sc_found b) (snd (parse_counts 0 cs []))) \<noteq> []"
      using False by (auto simp: parse_found_problems parse_counts_problems)
    then show ?thesis using False by (simp add: parse_stocktake_confirm_def Some case_prod_unfold) blast
  qed
qed

section \<open>Consumption only takes away\<close>

definition consume_item_ok :: "consume_item \<Rightarrow> bool" where
  "consume_item_ok c \<longleftrightarrow> cs_row c \<noteq> [] \<and> (cs_decision c = ''reject'' \<or> cs_decision c = ''accept'' \<and> cs_product c \<noteq> None
     \<and> cs_decrements c \<noteq> [] \<and> length (cs_decrements c) \<le> max_consume_decrements_per_row
     \<and> list_all decrement_ok (cs_decrements c))"

lemma fold_decrements_Nil:
  "fold (\<lambda>d fs. if decrement_ok d then fs else add_field k m fs) ds fs = [] \<longleftrightarrow> list_all decrement_ok ds \<and> fs = []"
  by (induction ds arbitrary: fs) simp_all

lemma parse_decrements_problems:
  "parse_decrements k ds fs = [] \<longleftrightarrow> list_all decrement_ok ds \<and> ds \<noteq> [] \<and> length ds \<le> max_consume_decrements_per_row \<and> fs = []"
  by (auto simp: parse_decrements_def fold_decrements_Nil)

lemma parse_items_problems: "snd (parse_consume_items i cs fs) = [] \<longleftrightarrow> list_all consume_item_ok cs \<and> fs = []"
  by (induction cs arbitrary: i fs)
    (auto simp: consume_item_ok_def Let_def parse_decrements_problems case_prod_unfold)

lemma parse_items_decrements:
  "parse_consume_items i cs fs = (ds, fs') \<Longrightarrow> list_all (\<lambda>d. list_all decrement_ok (cd_decrements d)) ds"
  by (induction cs arbitrary: i fs ds fs') (auto simp: Let_def list_all_iff split: if_splits prod.splits)

lemma decrements_positive: "list_all decrement_ok ds \<Longrightarrow> 0 \<le> sum_list (map snd ds)"
  by (induction ds) (auto simp: decrement_ok_def)

lemma consumed_nonneg: "list_all (\<lambda>d. list_all decrement_ok (cd_decrements d)) ds \<Longrightarrow> 0 \<le> consumed_of p ds"
  by (induction ds) (auto simp: consumed_of_def decrements_positive)

text \<open>
  C22. Whatever a client sends to the confirm of a consumption, no stock appears: the store itself takes a
  negative decrement, but the handler lets none through, so the shelf and the ledger of every product are at
  most what they were, on an answer and on a refusal.
\<close>

theorem consume_request_only_takes:
  assumes inv: "stock_inv s" and run: "consume_confirm cx raw body s = (out, s')"
  shows "stock_inv s' \<and> stock_total p s' \<le> stock_total p s \<and> ledger_total p s' \<le> ledger_total p s"
proof (cases out)
  case (Inl f)
  then have "s' = s" using tracelessD [OF traceless_stock(7)] run by blast
  with inv show ?thesis by simp
next
  case (Inr x)
  obtain st j u ds out1 where ds: "list_all (\<lambda>d. list_all decrement_ok (cd_decrements d)) ds"
    and c: "confirm_consumption st j u ds s = Inr (out1, s')"
    using run unfolding Inr
    by (auto simp: consume_confirm_def with_storage_def with_user_def id_from_path_def decode_json_def refuse_def call_def
        answer_with_def in_tx_def parse_consume_decisions_def dest: parse_items_decrements
        split: option.splits decoded.splits sum.splits prod.splits if_splits)
  from confirm_consumption_totals [OF inv c] consumed_nonneg [OF ds, of p] show ?thesis by simp
qed

definition evening_db :: db where
  "evening_db = consume_db\<lparr>accounts := [(7, some_account)]\<rparr>"

definition evening_items :: "consume_item list" where
  "evening_items = [\<lparr>cs_row = ''b'', cs_decision = ''accept'', cs_product = Some 5, cs_decrements = [(20, 2)]\<rparr>,
     \<lparr>cs_row = ''a'', cs_decision = ''reject'', cs_product = None, cs_decrements = []\<rparr>]"

theorem consume_request_only_takes_witness:
  "(let out = consume_confirm \<lparr>cx_user = Some (7, some_account), cx_session = None, cx_storage = Some 2\<rparr> (Some 40)
        (Decoded (Some evening_items)) evening_db in
    fst out = Inr (200, [20]) \<and> stock_inv (snd out) \<and> stock_total 5 (snd out) \<le> stock_total 5 evening_db)"
proof -
  let ?out = "consume_confirm \<lparr>cx_user = Some (7, some_account), cx_session = None, cx_storage = Some 2\<rparr> (Some 40)
        (Decoded (Some evening_items)) evening_db"
  have ok: "fst ?out = Inr (200, [20])" by code_simp
  have inv: "stock_inv evening_db"
    unfolding evening_db_def
    by (rule shifts_keep [OF consume_db_inv shifts_other [OF stock_inv_rows [OF consume_db_inv]]]) simp_all
  from ok consume_request_only_takes [OF inv prod.collapse [symmetric]] show ?thesis by (simp add: Let_def)
qed

end
