(* ===== verification/Delta.thy ===== *)
theory Delta
  imports Balance
begin

text \<open>
  Delta sync (\<open>internal/store/delta.go\<close>): what changed and what went away since a client's cursor, and the
  cursor for next time. A row carries the start of the transaction that wrote it, which may be long before its
  commit; the cursor handed out is therefore the start of the oldest transaction in flight. The world of a
  client is the committed state, the clock of the database and the starts of the open transactions.
\<close>

section \<open>The code\<close>

record 'r delta =
  dl_changed :: "(uuid \<times> 'r) list"
  dl_deleted :: "uuid list"
  dl_synced :: instant

definition delta_is_resumable :: "instant \<Rightarrow> instant \<Rightarrow> bool" where
  "delta_is_resumable since now \<longleftrightarrow> \<not> since < now - tombstone_retention"

text \<open>\<open>deltaWatermark\<close>: the clock, or the start of the oldest transaction in flight.\<close>

definition delta_watermark :: "instant \<Rightarrow> instant list \<Rightarrow> instant" where
  "delta_watermark now in_flight = fold min in_flight now"

definition deleted_since :: "uuid \<Rightarrow> entity_type \<Rightarrow> instant \<Rightarrow> db \<Rightarrow> uuid list" where
  "deleted_since st kind since s = map (ts_entity \<circ> snd) (sort_key (\<lambda>(i, t). (ts_deleted t, i))
     (tbl_select (\<lambda>_ t. ts_storage t = st \<and> ts_kind t = kind \<and> ts_deleted t \<ge> since) (tombstones s)))"

text \<open>
  \<open>loadDelta\<close> asks three times, and other transactions may commit in between: the watermark, then the
  changed rows from one state, then the deletions from another.
\<close>

definition load_delta ::
    "entity_type \<Rightarrow> (uuid \<Rightarrow> instant \<Rightarrow> db \<Rightarrow> (uuid \<times> 'r) list) \<Rightarrow> uuid \<Rightarrow> instant \<Rightarrow> instant \<Rightarrow> db \<Rightarrow> db \<Rightarrow> err + 'r delta" where
  "load_delta kind changed st since synced s2 s3 =
     (if \<not> delta_is_resumable since synced then Inl ErrResyncRequired
      else Inr \<lparr>dl_changed = changed st since s2, dl_deleted = deleted_since st kind since s3, dl_synced = synced\<rparr>)"

definition locations_changed_since :: "uuid \<Rightarrow> instant \<Rightarrow> db \<Rightarrow> (uuid \<times> location) list" where
  "locations_changed_since st since s = sort_key (\<lambda>(i, l). (lo_created l, i))
     (tbl_select (\<lambda>_ l. lo_storage l = st \<and> lo_updated l \<ge> since) (locations s))"

definition categories_changed_since :: "uuid \<Rightarrow> instant \<Rightarrow> db \<Rightarrow> (uuid \<times> category) list" where
  "categories_changed_since st since s = sort_key (\<lambda>(i, c). (cg_created c, i))
     (tbl_select (\<lambda>_ c. cg_storage c = st \<and> cg_updated c \<ge> since) (categories s))"

definition products_changed_since :: "(string \<Rightarrow> 'c :: linorder) \<Rightarrow> uuid \<Rightarrow> instant \<Rightarrow> db \<Rightarrow> (uuid \<times> product) list" where
  "products_changed_since collate st since s = sort_key (\<lambda>(_, p). collate (pr_name p))
     (tbl_select (\<lambda>_ p. pr_storage p = st \<and> pr_updated p \<ge> since) (products s))"

text \<open>The items the list handlers make of the rows.\<close>

record location_item =
  li_name :: string
  li_parent :: "uuid option"
  li_description :: "string option"

definition location_item_of :: "location \<Rightarrow> location_item" where
  "location_item_of l = \<lparr>li_name = lo_name l, li_parent = lo_parent l, li_description = lo_description l\<rparr>"

record category_item =
  gi_name :: string
  gi_parent :: "uuid option"
  gi_days :: "int option"

definition category_item_of :: "category \<Rightarrow> category_item" where
  "category_item_of c = \<lparr>gi_name = cg_name c, gi_parent = cg_parent c, gi_days = cg_days c\<rparr>"

section \<open>A client\<close>

text \<open>What a client holds, and what it makes of a delta: deletions dropped, then changes taken.\<close>

type_synonym 'i cache = "uuid \<rightharpoonup> 'i"

definition apply_delta :: "('r \<Rightarrow> 'i) \<Rightarrow> 'r delta \<Rightarrow> 'i cache \<Rightarrow> 'i cache" where
  "apply_delta item d cache i = (case map_of (dl_changed d) i of
      Some r \<Rightarrow> Some (item r)
    | None \<Rightarrow> if i \<in> set (dl_deleted d) then None else cache i)"

text \<open>A collection a client can hold: its rows by id with the stamp of their last change.\<close>

record ('r, 'i) collection =
  co_kind :: entity_type
  co_row :: "uuid \<Rightarrow> db \<Rightarrow> uuid \<rightharpoonup> 'r"
  co_stamp :: "'r \<Rightarrow> instant"
  co_item :: "'r \<Rightarrow> 'i"
  co_changed :: "uuid \<Rightarrow> instant \<Rightarrow> db \<Rightarrow> (uuid \<times> 'r) list"
  co_keyed :: "db \<Rightarrow> bool"

definition visible :: "('r, 'i) collection \<Rightarrow> uuid \<Rightarrow> db \<Rightarrow> 'i cache" where
  "visible C st s i = map_option (co_item C) (co_row C st s i)"

definition buried :: "('r, 'i) collection \<Rightarrow> uuid \<Rightarrow> db \<Rightarrow> uuid \<Rightarrow> instant \<Rightarrow> bool" where
  "buried C st s i d \<longleftrightarrow> (\<exists>(_, t) \<in> set (tombstones s). ts_storage t = st \<and> ts_kind t = co_kind C \<and> ts_entity t = i \<and> ts_deleted t = d)"

definition location_row_in :: "uuid \<Rightarrow> db \<Rightarrow> uuid \<rightharpoonup> location" where
  "location_row_in st s i = (case map_of (locations s) i of None \<Rightarrow> None | Some l \<Rightarrow> if lo_storage l = st then Some l else None)"

definition category_row_in :: "uuid \<Rightarrow> db \<Rightarrow> uuid \<rightharpoonup> category" where
  "category_row_in st s i = (case map_of (categories s) i of None \<Rightarrow> None | Some c \<Rightarrow> if cg_storage c = st then Some c else None)"

definition synced_locations :: "(location, location_item) collection" where
  "synced_locations = \<lparr>co_kind = TombstoneLocation, co_row = location_row_in, co_stamp = lo_updated, co_item = location_item_of,
     co_changed = locations_changed_since, co_keyed = (\<lambda>s. distinct (keys (locations s)))\<rparr>"

definition synced_categories :: "(category, category_item) collection" where
  "synced_categories = \<lparr>co_kind = TombstoneCategory, co_row = category_row_in, co_stamp = cg_updated, co_item = category_item_of,
     co_changed = categories_changed_since, co_keyed = (\<lambda>s. distinct (keys (categories s)))\<rparr>"

lemma synced_locations_simps [simp]:
  "co_kind synced_locations = TombstoneLocation" "co_row synced_locations = location_row_in"
  "co_stamp synced_locations = lo_updated" "co_item synced_locations = location_item_of"
  "co_changed synced_locations = locations_changed_since" "co_keyed synced_locations s = distinct (keys (locations s))"
  by (simp_all add: synced_locations_def)

lemma synced_categories_simps [simp]:
  "co_kind synced_categories = TombstoneCategory" "co_row synced_categories = category_row_in"
  "co_stamp synced_categories = cg_updated" "co_item synced_categories = category_item_of"
  "co_changed synced_categories = categories_changed_since" "co_keyed synced_categories s = distinct (keys (categories s))"
  by (simp_all add: synced_categories_def)

section \<open>The world of a client\<close>

record sync_world =
  sw_db :: db
  sw_clock :: instant
  sw_open :: "instant list"

text \<open>
  What a committed transaction may do to a collection: an item stays, or its row carries the start of the
  transaction, or it is gone and buried at that instant. No tombstone goes away, only what is gone
  gets one, and no buried id is used again.
\<close>

definition advances :: "('r, 'i) collection \<Rightarrow> uuid \<Rightarrow> db \<Rightarrow> db \<Rightarrow> bool" where
  "advances C st s s' \<longleftrightarrow> (co_keyed C s \<longrightarrow> co_keyed C s'
     \<and> (\<forall>i. visible C st s' i = visible C st s i \<and> map_option (co_stamp C) (co_row C st s' i) = map_option (co_stamp C) (co_row C st s i)
          \<or> (\<exists>r. co_row C st s' i = Some r \<and> co_stamp C r = db_now s)
          \<or> co_row C st s' i = None \<and> buried C st s' i (db_now s))
     \<and> (\<forall>i d. buried C st s i d \<longrightarrow> buried C st s' i d)
     \<and> (\<forall>i d. buried C st s' i d \<longrightarrow> buried C st s i d \<or> co_row C st s' i = None)
     \<and> (\<forall>i d. buried C st s i d \<longrightarrow> co_row C st s i = None \<longrightarrow> co_row C st s' i = None))"

text \<open>A world moves: time passes, a transaction opens, an open one commits or ends without a change, old tombstones are swept.\<close>

inductive sync_step :: "(db \<Rightarrow> db \<Rightarrow> bool) \<Rightarrow> sync_world \<Rightarrow> sync_world \<Rightarrow> bool" for commits where
  tick: "sw_clock w \<le> t \<Longrightarrow> sync_step commits w (w\<lparr>sw_clock := t\<rparr>)"
| opens: "sync_step commits w (w\<lparr>sw_open := sw_clock w # sw_open w\<rparr>)"
| commit: "t \<in> set (sw_open w) \<Longrightarrow> commits ((sw_db w)\<lparr>db_now := t\<rparr>) s' \<Longrightarrow>
    sync_step commits w (w\<lparr>sw_db := s', sw_open := remove1 t (sw_open w)\<rparr>)"
| rollback: "t \<in> set (sw_open w) \<Longrightarrow> sync_step commits w (w\<lparr>sw_open := remove1 t (sw_open w)\<rparr>)"
| sweep: "now \<le> sw_clock w \<Longrightarrow> sync_step commits w (w\<lparr>sw_db := snd (in_tx (sweep_tombstones now) (sw_db w))\<rparr>)"

inductive_cases sync_step_cases: "sync_step commits w w'"

abbreviation sync_steps :: "(db \<Rightarrow> db \<Rightarrow> bool) \<Rightarrow> sync_world \<Rightarrow> sync_world \<Rightarrow> bool" where
  "sync_steps commits \<equiv> (sync_step commits)\<^sup>*\<^sup>*"

text \<open>What a cursor still covers: everything in flight started at it or later.\<close>

definition covers :: "instant \<Rightarrow> sync_world \<Rightarrow> bool" where
  "covers c w \<longleftrightarrow> c \<le> sw_clock w \<and> list_all (\<lambda>t. c \<le> t) (sw_open w)"

text \<open>A copy with its cursor is sound when the next delta will report every difference.\<close>

definition sound_copy :: "('r, 'i) collection \<Rightarrow> uuid \<Rightarrow> instant \<Rightarrow> 'i cache \<Rightarrow> db \<Rightarrow> bool" where
  "sound_copy C st c cache s \<longleftrightarrow> co_keyed C s \<and> (\<forall>i d. buried C st s i d \<longrightarrow> co_row C st s i = None)
     \<and> (\<forall>i. case co_row C st s i of
          Some r \<Rightarrow> co_stamp C r < c \<longrightarrow> cache i = Some (co_item C r)
        | None \<Rightarrow> cache i = None \<or> (\<exists>d \<ge> c. buried C st s i d))"

lemma sound_keyed: "sound_copy C st c cache s \<Longrightarrow> co_keyed C s"
  by (simp add: sound_copy_def)

lemma sound_row: "sound_copy C st c cache s \<Longrightarrow> co_row C st s i = Some r \<Longrightarrow> co_stamp C r < c \<Longrightarrow> cache i = Some (co_item C r)"
  and sound_none: "sound_copy C st c cache s \<Longrightarrow> co_row C st s i = None \<Longrightarrow> cache i = None \<or> (\<exists>d \<ge> c. buried C st s i d)"
  and sound_gone: "sound_copy C st c cache s \<Longrightarrow> buried C st s i d \<Longrightarrow> co_row C st s i = None"
  unfolding sound_copy_def by (auto dest: spec [of _ i] split: option.splits)

lemma sound_copyI:
  assumes "co_keyed C s" and "\<And>i d. buried C st s i d \<Longrightarrow> co_row C st s i = None"
    and "\<And>i r. co_row C st s i = Some r \<Longrightarrow> co_stamp C r < c \<Longrightarrow> cache i = Some (co_item C r)"
    and "\<And>i. co_row C st s i = None \<Longrightarrow> cache i = None \<or> (\<exists>d \<ge> c. buried C st s i d)"
  shows "sound_copy C st c cache s"
  using assms by (auto simp: sound_copy_def split: option.split)

lemma fold_min_least: "fold min ts (b :: int) \<le> b \<and> list_all (\<lambda>t. fold min ts b \<le> t) ts"
proof (induction ts arbitrary: b)
  case (Cons a ts)
  have "fold min ts (min a b) \<le> min a b" using Cons by blast
  with Cons [of "min a b"] show ?case by auto
qed simp

lemma watermark_covers: "covers (delta_watermark (sw_clock w) (sw_open w)) w"
  using fold_min_least by (simp add: covers_def delta_watermark_def)

lemma clock_step: "sync_step commits w w' \<Longrightarrow> sw_clock w \<le> sw_clock w'"
  by (induction rule: sync_step.induct) simp_all

lemma covers_step: "sync_step commits w w' \<Longrightarrow> covers c w \<Longrightarrow> covers c w'"
  by (induction rule: sync_step.induct) (auto simp: covers_def list_all_iff dest: notin_set_remove1)

lemma clock_forward: "sync_steps commits w w' \<Longrightarrow> sw_clock w \<le> sw_clock w'"
  by (induction rule: rtranclp_induct) (auto dest: clock_step)

lemma covers_kept: "sync_steps commits w w' \<Longrightarrow> covers c w \<Longrightarrow> covers c w'"
  by (induction rule: rtranclp_induct) (auto dest: covers_step)

section \<open>A sound copy stays sound\<close>

lemma sweep_effect:
  "snd (in_tx (sweep_tombstones now) s) = s\<lparr>tombstones := tbl_del (\<lambda>_ t. ts_deleted t < now - tombstone_retention) (tombstones s)\<rparr>"
  by (simp add: sweep_tombstones_def in_tx_def tx_defs)

lemma sound_advance:
  assumes sound: "sound_copy C st c cache s" and adv: "advances C st s s'" and now: "c \<le> db_now s"
  shows "sound_copy C st c cache s'"
proof -
  have k: "co_keyed C s" by (rule sound_keyed [OF sound])
  with adv have keyed: "co_keyed C s'" by (simp add: advances_def)
  have kept: "buried C st s i d \<Longrightarrow> buried C st s' i d" for i d using adv k by (simp add: advances_def)
  have gone: "buried C st s' i d \<Longrightarrow> co_row C st s' i = None" for i d
    using adv k sound_gone [OF sound] unfolding advances_def by blast
  have cases: "visible C st s' i = visible C st s i
          \<and> map_option (co_stamp C) (co_row C st s' i) = map_option (co_stamp C) (co_row C st s i)
        \<or> (\<exists>r. co_row C st s' i = Some r \<and> co_stamp C r = db_now s)
        \<or> co_row C st s' i = None \<and> buried C st s' i (db_now s)" for i
    using adv k unfolding advances_def by blast
  show ?thesis
  proof (rule sound_copyI)
    fix i r assume r: "co_row C st s' i = Some r" "co_stamp C r < c"
    with cases [of i] now obtain r0 where "co_row C st s i = Some r0" "co_item C r0 = co_item C r" "co_stamp C r0 = co_stamp C r"
      by (cases "co_row C st s i") (auto simp: visible_def)
    with sound_row [OF sound this(1)] r show "cache i = Some (co_item C r)" by simp
  next
    fix i assume "co_row C st s' i = None"
    with cases [of i] have "co_row C st s i = None \<or> buried C st s' i (db_now s)" by (auto simp: visible_def)
    then show "cache i = None \<or> (\<exists>d \<ge> c. buried C st s' i d)"
      using sound_none [OF sound, of i] kept now by blast
  qed (use keyed gone in auto)
qed

lemma buried_timed [simp]: "buried C st (s\<lparr>db_now := t\<rparr>) i d = buried C st s i d"
  by (simp add: buried_def)

lemma full_copy_sound: "sound_copy C st c cache s \<Longrightarrow> sound_copy C st c' (visible C st s) s"
  by (simp add: sound_copy_def visible_def split: option.split)

lemma deleted_since_iff: "i \<in> set (deleted_since st (co_kind C) c s) \<longleftrightarrow> (\<exists>d \<ge> c. buried C st s i d)"
  by (force simp: deleted_since_def tbl_select_def buried_def)

section \<open>Collections\<close>

locale synced_collection =
  fixes C :: "('r, 'i) collection"
    and commits :: "db \<Rightarrow> db \<Rightarrow> bool"
  assumes rows_swept: "co_row C st (s\<lparr>tombstones := ts\<rparr>) = co_row C st s"
    and keyed_swept: "co_keyed C (s\<lparr>tombstones := ts\<rparr>) = co_keyed C s"
    and rows_timed: "co_row C st (s\<lparr>db_now := t\<rparr>) = co_row C st s"
    and keyed_timed: "co_keyed C (s\<lparr>db_now := t\<rparr>) = co_keyed C s"
    and changed_rows: "co_keyed C s \<Longrightarrow> map_of (co_changed C st c s) i =
      (case co_row C st s i of None \<Rightarrow> None | Some r \<Rightarrow> if co_stamp C r < c then None else Some r)"
    and commit_advances: "commits s s' \<Longrightarrow> advances C st s s'"
begin

lemma sound_timed: "sound_copy C st c cache (s\<lparr>db_now := t\<rparr>) = sound_copy C st c cache s"
  by (simp add: sound_copy_def rows_timed keyed_timed cong: option.case_cong)

lemma sound_swept:
  assumes "sound_copy C st c cache s" and "now - tombstone_retention \<le> c"
  shows "sound_copy C st c cache (snd (in_tx (sweep_tombstones now) s))"
proof -
  let ?s = "snd (in_tx (sweep_tombstones now) s)"
  have fewer: "buried C st ?s i d \<Longrightarrow> buried C st s i d" for i d
    by (auto simp: buried_def sweep_effect tbl_del_def)
  have kept: "buried C st s i d \<Longrightarrow> c \<le> d \<Longrightarrow> buried C st ?s i d" for i d
    using assms(2) by (force simp: buried_def sweep_effect tbl_del_def)
  have "co_row C st ?s = co_row C st s" "co_keyed C ?s = co_keyed C s" by (simp_all add: sweep_effect rows_swept keyed_swept)
  note same = this
  show ?thesis
  proof (rule sound_copyI)
    fix i assume "co_row C st ?s i = None"
    then show "cache i = None \<or> (\<exists>d \<ge> c. buried C st ?s i d)"
      using sound_none [OF assms(1), of i] kept by (auto simp: same)
  qed (use sound_keyed [OF assms(1)] sound_row [OF assms(1)] in \<open>auto simp: same dest!: fewer sound_gone [OF assms(1)]\<close>)
qed

lemma sound_step:
  "sync_step commits w w' \<Longrightarrow> sound_copy C st c cache (sw_db w) \<Longrightarrow> covers c w \<Longrightarrow>
   sw_clock w' - tombstone_retention \<le> c \<Longrightarrow> sound_copy C st c cache (sw_db w')"
proof (induction rule: sync_step.induct)
  case (commit t w s')
  then have "c \<le> t" by (simp add: covers_def list_all_iff)
  with commit show ?case
    using sound_advance [OF _ commit_advances [OF commit(2)], of st c cache] by (simp add: sound_timed)
qed (simp_all add: sound_swept)

lemma sound_steps:
  "sync_steps commits w w' \<Longrightarrow> sound_copy C st c cache (sw_db w) \<Longrightarrow> covers c w \<Longrightarrow>
   sw_clock w' - tombstone_retention \<le> c \<Longrightarrow> sound_copy C st c cache (sw_db w')"
proof (induction rule: rtranclp_induct)
  case (step w1 w2)
  then have "sw_clock w1 - tombstone_retention \<le> c" using clock_step by fastforce
  with step show ?case using sound_step covers_kept by blast
qed

text \<open>The three reads of a delta, with anything committing in between.\<close>

lemma sound_delta:
  assumes s2: "sound_copy C st c cache s2" and s3: "sound_copy C st c cache s3"
    and between: "sound_copy C st c' (visible C st s2) s3"
    and d: "d = \<lparr>dl_changed = co_changed C st c s2, dl_deleted = deleted_since st (co_kind C) c s3, dl_synced = c'\<rparr>"
  shows "sound_copy C st c' (apply_delta (co_item C) d cache) s3"
proof -
  have keyed: "co_keyed C s2" using s2 by (simp add: sound_copy_def)
  have changed: "map_of (dl_changed d) i = (case co_row C st s2 i of None \<Rightarrow> None | Some r \<Rightarrow> if co_stamp C r < c then None else Some r)" for i
    by (simp add: d changed_rows [OF keyed])
  have deleted: "i \<in> set (dl_deleted d) \<longleftrightarrow> (\<exists>x \<ge> c. buried C st s3 i x)" for i by (simp add: d deleted_since_iff)
  show ?thesis
  proof (rule sound_copyI)
    fix i assume none: "co_row C st s3 i = None"
    from sound_none [OF between none] sound_none [OF s3 none]
    show "apply_delta (co_item C) d cache i = None \<or> (\<exists>d \<ge> c'. buried C st s3 i d)"
      by (auto simp: apply_delta_def changed deleted visible_def)
  next
    fix i r assume r: "co_row C st s3 i = Some r" "co_stamp C r < c'"
    have alive: "i \<notin> set (dl_deleted d)" using sound_gone [OF s3] r by (auto simp: deleted)
    obtain r2 where r2: "co_row C st s2 i = Some r2" "co_item C r2 = co_item C r"
      using sound_row [OF between r] by (auto simp: visible_def)
    with sound_row [OF s2 r2(1)] alive show "apply_delta (co_item C) d cache i = Some (co_item C r)"
      by (simp add: apply_delta_def changed)
  qed (rule sound_keyed [OF s3], erule sound_gone [OF s3])
qed

lemma exact_delta:
  assumes s: "sound_copy C st c cache s"
    and d: "d = \<lparr>dl_changed = co_changed C st c s, dl_deleted = deleted_since st (co_kind C) c s, dl_synced = c'\<rparr>"
  shows "apply_delta (co_item C) d cache = visible C st s"
proof
  fix i
  have keyed: "co_keyed C s" using s by (simp add: sound_copy_def)
  show "apply_delta (co_item C) d cache i = visible C st s i"
  proof (cases "co_row C st s i")
    case None
    from sound_none [OF s None] None show ?thesis
      by (auto simp: d apply_delta_def changed_rows [OF keyed] deleted_since_iff visible_def)
  next
    case (Some r)
    with sound_row [OF s Some] sound_gone [OF s] show ?thesis
      by (auto simp: d apply_delta_def changed_rows [OF keyed] deleted_since_iff visible_def)
  qed
qed

text \<open>A round of delta sync.\<close>

lemma sync_round:
  assumes copy: "sound_copy C st c cache (sw_db w0)" "covers c w0"
    and path: "sync_steps commits w0 w1" "sync_steps commits w1 w2" "sync_steps commits w2 w3"
    and recent: "sw_clock w3 - tombstone_retention \<le> c"
    and read: "load_delta (co_kind C) (co_changed C) st c (delta_watermark (sw_clock w1) (sw_open w1)) (sw_db w2) (sw_db w3) = Inr d"
  shows "sound_copy C st (dl_synced d) (apply_delta (co_item C) d cache) (sw_db w3)" "covers (dl_synced d) w3"
    "sw_db w2 = sw_db w3 \<Longrightarrow> apply_delta (co_item C) d cache = visible C st (sw_db w3)"
proof -
  let ?c = "delta_watermark (sw_clock w1) (sw_open w1)"
  have d: "d = \<lparr>dl_changed = co_changed C st c (sw_db w2), dl_deleted = deleted_since st (co_kind C) c (sw_db w3), dl_synced = ?c\<rparr>"
    using read by (simp add: load_delta_def split: if_splits)
  have c1: "covers c w1" using covers_kept [OF path(1) copy(2)] .
  have le: "c \<le> ?c"
  proof -
    have "c \<le> fold min ts b" if "c \<le> b" "list_all (\<lambda>t. c \<le> t) ts" for ts b
      using that by (induction ts arbitrary: b) auto
    then show ?thesis using c1 by (simp add: covers_def delta_watermark_def)
  qed
  have p02: "sync_steps commits w0 w2" and p03: "sync_steps commits w0 w3" and p13: "sync_steps commits w1 w3" using path by auto
  have r2: "sw_clock w2 - tombstone_retention \<le> c" using recent clock_forward [OF path(3)] by simp
  note s2 = sound_steps [OF p02 copy r2] and s3 = sound_steps [OF p03 copy recent]
  have cov2: "covers ?c w2" by (rule covers_kept [OF path(2) watermark_covers])
  have r3: "sw_clock w3 - tombstone_retention \<le> ?c" using recent le by simp
  note between = sound_steps [OF path(3) full_copy_sound [OF s2] cov2 r3]
  show "sound_copy C st (dl_synced d) (apply_delta (co_item C) d cache) (sw_db w3)"
    using sound_delta [OF s2 s3 between d] by (simp add: d)
  show "covers (dl_synced d) w3" using covers_kept [OF p13 watermark_covers] by (simp add: d)
  show "apply_delta (co_item C) d cache = visible C st (sw_db w3)" if "sw_db w2 = sw_db w3"
    by (rule exact_delta [OF s3]) (simp add: d that)
qed

end

section \<open>Locations\<close>

datatype location_write =
    CreateLocation new_location
  | CreateLocationAs new_location uuid
  | MoveLocation uuid "uuid option"
  | UpdateLocation uuid location_patch
  | RenameLocation uuid string "string option"
  | DeleteLocation uuid

definition ignore :: "'a dbtx \<Rightarrow> unit dbtx" where
  "ignore m = bind_tx m (\<lambda>_. ret_tx ())"

fun run_location_write :: "uuid \<Rightarrow> location_write \<Rightarrow> unit dbtx" where
  "run_location_write st (CreateLocation inp) = ignore (create_location st inp)"
| "run_location_write st (CreateLocationAs inp user) = ignore (create_location_as_user st inp user)"
| "run_location_write st (MoveLocation i parent) = move_location st i parent"
| "run_location_write st (UpdateLocation i patch) = ignore (update_location st i patch)"
| "run_location_write st (RenameLocation i name description) = rename_location st i name description"
| "run_location_write st (DeleteLocation i) = delete_location st i"

text \<open>
  The two conditions the code relies on: a new id is not a buried one, and the subtree of a deletion
  lies in its storage and within the 64 levels its own query walks.
\<close>

definition unburied_ids :: "db \<Rightarrow> bool" where
  "unburied_ids s \<longleftrightarrow> list_all (\<lambda>(_, t). ts_entity t \<notin> set (idgen s)) (tombstones s)"

definition shallow_delete :: "uuid \<Rightarrow> uuid \<Rightarrow> db \<Rightarrow> bool" where
  "shallow_delete st i s \<longleftrightarrow> list_all (\<lambda>k. k \<in> set (location_subtree i s) \<and> in_storage TreeLocations st k s) (cascade_ids i s)"

text \<open>Any other transaction leaves the rows and their tombstones; a count may note when a shelf was checked.\<close>

definition unaudited :: "location table \<Rightarrow> location table" where
  "unaudited t = map (\<lambda>(i, l). (i, l\<lparr>lo_audited := None\<rparr>)) t"

definition location_commit :: "db \<Rightarrow> db \<Rightarrow> bool" where
  "location_commit s s' \<longleftrightarrow>
     (\<exists>st w. run_location_write st w s = Inr ((), s') \<and> unburied_ids s
        \<and> (case w of DeleteLocation i \<Rightarrow> shallow_delete st i s | _ \<Rightarrow> True))
     \<or> unaudited (locations s') = unaudited (locations s)
       \<and> tbl_select (\<lambda>_ t. ts_kind t = TombstoneLocation) (tombstones s') = tbl_select (\<lambda>_ t. ts_kind t = TombstoneLocation) (tombstones s)"

text \<open>A write to the rows only.\<close>

lemma advancesI:
  assumes "tombstones s' = tombstones s" and "co_keyed C s \<Longrightarrow> co_keyed C s'"
    and "\<And>i. visible C st s' i = visible C st s i \<and> map_option (co_stamp C) (co_row C st s' i) = map_option (co_stamp C) (co_row C st s i)
          \<or> (\<exists>r. co_row C st s' i = Some r \<and> co_stamp C r = db_now s)"
    and "\<And>i d. buried C st s i d \<Longrightarrow> co_row C st s i = None \<Longrightarrow> co_row C st s' i = None"
  shows "advances C st s s'"
proof -
  have "buried C st s' i d = buried C st s i d" for i d by (simp add: buried_def assms(1))
  with assms show ?thesis unfolding advances_def by auto
qed

lemma map_of_select:
  "distinct (keys t) \<Longrightarrow> map_of (tbl_select P t) k = (case map_of t k of None \<Rightarrow> None | Some r \<Rightarrow> if P k r then Some r else None)"
  using map_of_tbl_del [of t "\<lambda>k r. \<not> P k r" k] by (simp add: tbl_select_def tbl_del_def split: option.split)

lemma map_of_sorted:
  assumes "distinct (keys t)"
  shows "map_of (sort_key k t) = map_of t"
proof -
  have "mset (keys (sort_key k t)) = mset (keys t)" by (metis mset_map mset_sort)
  then have "distinct (keys (sort_key k t))" using assms mset_eq_imp_distinct_iff by blast
  then show ?thesis by (simp add: map_of_inject_set assms)
qed

lemma distinct_select: "distinct (keys t) \<Longrightarrow> distinct (keys (tbl_select P t))"
  by (simp add: tbl_select_def distinct_map_filter)

lemma record_tombstones_rows:
  "record_tombstones storage kind es s = Inr (a, s') \<Longrightarrow>
   snd ` set (tombstones s') = snd ` set (tombstones s)
     \<union> (\<lambda>e. \<lparr>ts_storage = storage, ts_kind = kind, ts_entity = e, ts_deleted = db_now s\<rparr>) ` set es"
  unfolding record_tombstones_def
proof (induction es arbitrary: s)
  case Nil
  then show ?case by (simp add: tx_iff)
next
  case (Cons e es)
  from Cons.prems obtain i "is" where
    "iter_tx (\<lambda>e. bind_tx new_id (\<lambda>i. bind_tx (get_tx db_now) (\<lambda>now.
       seq_tx (check_tx (\<lambda>s. \<not> tbl_has i (tombstones s) \<and> tbl_has storage (storage_rows s)) ErrInternal)
         (mod_tx (\<lambda>s. s\<lparr>tombstones := tbl_ins i \<lparr>ts_storage = storage, ts_kind = kind,
            ts_entity = e, ts_deleted = now\<rparr> (tombstones s)\<rparr>))))) es
      (s\<lparr>idgen := is, tombstones := tbl_ins i \<lparr>ts_storage = storage, ts_kind = kind,
            ts_entity = e, ts_deleted = db_now s\<rparr> (tombstones s)\<rparr>) = Inr (a, s')"
    by (auto simp: tx_iff)
  from Cons.IH [OF this] show ?case by auto
qed

lemma buried_rows: "buried C st s i d \<longleftrightarrow> \<lparr>ts_storage = st, ts_kind = co_kind C, ts_entity = i, ts_deleted = d\<rparr> \<in> snd ` set (tombstones s)"
  by (force simp: buried_def)

lemma buried_recorded:
  "record_tombstones storage (co_kind C) es s = Inr (a, s') \<Longrightarrow>
   buried C st s' i d \<longleftrightarrow> buried C st s i d \<or> st = storage \<and> i \<in> set es \<and> d = db_now s"
  unfolding buried_rows using record_tombstones_rows [of storage "co_kind C" es s a s'] by auto

lemma location_update_advances:
  assumes "\<And>l. lo_storage (f l) = lo_storage l" and "\<And>l. lo_updated (f l) = db_now s"
  shows "advances synced_locations st s (s\<lparr>locations := tbl_upd i f (locations s)\<rparr>)"
  by (rule advancesI) (auto simp: location_row_in_def visible_def assms split: option.splits if_splits)

lemma location_insert_advances:
  assumes "\<not> tbl_has i (locations s)" and "lo_updated l = db_now s" and free: "\<And>st d. \<not> buried synced_locations st s i d"
    and "locations s' = tbl_ins i l (locations s)" and "tombstones s' = tombstones s"
  shows "advances synced_locations st s s'"
proof -
  have m: "map_of (locations s') = (map_of (locations s))(i \<mapsto> l)" "map_of (locations s) i = None"
    using assms by (simp_all add: map_of_insert_fresh tbl_has_def)
  show ?thesis
  proof (rule advancesI)
    show "co_keyed synced_locations s \<Longrightarrow> co_keyed synced_locations s'"
      using assms(1) by (simp add: assms(4) tbl_has_keys)
    fix k d assume "buried synced_locations st s k d" "co_row synced_locations st s k = None"
    then show "co_row synced_locations st s' k = None" using free by (auto simp: location_row_in_def m)
  qed (use assms(2,5) in \<open>auto simp: location_row_in_def visible_def m split: option.splits if_splits\<close>)
qed

lemma insert_location_effect:
  assumes "insert_location st i inp s = Inr (r, s')"
  obtains l where "\<not> tbl_has i (locations s)" "lo_updated l = db_now s" "s' = s\<lparr>locations := tbl_ins i l (locations s)\<rparr>"
proof -
  let ?l = "\<lparr>lo_storage = st, lo_parent = nl_parent inp, lo_name = nl_name inp,
           lo_description = nl_description inp, lo_created = db_now s, lo_updated = db_now s, lo_audited = None\<rparr>"
  have "\<not> tbl_has i (locations s)" "s' = s\<lparr>locations := tbl_ins i ?l (locations s)\<rparr>"
    using assms by (auto simp: insert_location_def Let_def tx_iff)
  then show thesis by (intro that [of ?l]) simp_all
qed

lemma unburied_id: "unburied_ids s \<Longrightarrow> new_id s = Inr (i, s1) \<Longrightarrow> \<not> buried C st s i d"
  by (auto simp: unburied_ids_def buried_def new_id_iff list_all_iff)

lemma new_id_frame:
  "new_id s = Inr (i, s1) \<Longrightarrow> tombstones s1 = tombstones s \<and> locations s1 = locations s
     \<and> categories s1 = categories s \<and> db_now s1 = db_now s"
  by (auto simp: new_id_iff)

lemma bury_advances:
  assumes keyed: "co_keyed C s \<Longrightarrow> co_keyed C s'"
    and row: "\<And>k. co_keyed C s \<Longrightarrow> co_row C st s' k = (if k \<in> set lost then None else co_row C st s k)"
    and named: "\<And>k. k \<in> set lost \<Longrightarrow> k \<in> set es \<and> (co_row C st s k \<noteq> None \<longrightarrow> st = st')" and es: "set es \<subseteq> set lost"
    and bur: "\<And>k d. buried C st s' k d \<longleftrightarrow> buried C st s k d \<or> st = st' \<and> k \<in> set es \<and> d = db_now s"
  shows "advances C st s s'"
  unfolding advances_def
proof (intro impI conjI allI)
  assume k: "co_keyed C s"
  show "co_keyed C s'" by (rule keyed [OF k])
  fix i
  show "visible C st s' i = visible C st s i \<and> map_option (co_stamp C) (co_row C st s' i) = map_option (co_stamp C) (co_row C st s i)
      \<or> (\<exists>r. co_row C st s' i = Some r \<and> co_stamp C r = db_now s)
      \<or> co_row C st s' i = None \<and> buried C st s' i (db_now s)"
  proof (cases "i \<in> set lost \<and> co_row C st s i \<noteq> None")
    case True
    then have "i \<in> set es" and st: "st = st'" using named [of i] by blast+
    then have "buried C st s' i (db_now s)" using bur [of i "db_now s"] by blast
    moreover have "co_row C st s' i = None" using True row [OF k, of i] by simp
    ultimately show ?thesis by blast
  next
    case False
    then have "co_row C st s' i = co_row C st s i" by (auto simp: row [OF k])
    then show ?thesis by (simp add: visible_def)
  qed
  fix d
  show "buried C st s i d \<Longrightarrow> buried C st s' i d" by (simp add: bur)
  show "buried C st s' i d \<Longrightarrow> buried C st s i d \<or> co_row C st s' i = None"
    using es by (auto simp: bur row [OF k])
  show "co_row C st s i = None \<Longrightarrow> co_row C st s' i = None" by (simp add: row [OF k])
qed

lemma delete_advances:
  assumes del: "delete_location st' i s = Inr (r, s')" and shallow: "shallow_delete st' i s"
  shows "advances synced_locations st s s'"
proof -
  let ?gone = "cascade_ids i s"
  obtain js where tomb: "record_tombstones st' TombstoneLocation (location_subtree i s)
      (s\<lparr>locations := tbl_del (\<lambda>k _. k \<in> set ?gone) (locations s), jobs := js\<rparr>) = Inr (r, s')"
    using del by (auto simp: delete_location_def delete_location_row_def tx_iff)
  have locs: "locations s' = tbl_del (\<lambda>k _. k \<in> set ?gone) (locations s)"
    using record_tombstones_effect [OF tomb] by simp
  have gone: "set (location_subtree i s) \<subseteq> set ?gone"
    using descend_prefix [of "location_children s" max_tree_depth "[i]"] by (auto simp: location_subtree_def cascade_ids_def)
  have bur: "buried synced_locations st s' k d \<longleftrightarrow> buried synced_locations st s k d \<or> st = st' \<and> k \<in> set (location_subtree i s) \<and> d = db_now s" for k d
    using buried_recorded [of st' synced_locations _ _ r s' st k d] tomb by (simp add: buried_def)
  have row: "location_row_in st s' k = (if k \<in> set ?gone then None else location_row_in st s k)" if "distinct (keys (locations s))" for k
    using that by (simp add: location_row_in_def locs map_of_tbl_del split: option.split)
  have sh: "k \<in> set (location_subtree i s) \<and> in_storage TreeLocations st' k s" if "k \<in> set ?gone" for k
    using shallow that by (auto simp: shallow_delete_def list_all_iff)
  show ?thesis
  proof (rule bury_advances [of _ s s' st ?gone "location_subtree i s" st'])
    fix k assume k: "k \<in> set ?gone"
    show "k \<in> set (location_subtree i s) \<and> (co_row synced_locations st s k \<noteq> None \<longrightarrow> st = st')"
      using sh [OF k] by (auto simp: in_storage_def tree_row_def location_row_in_def split: option.splits if_splits)
  qed (use row bur gone in \<open>simp_all add: locs distinct_keys_tbl_del\<close>)
qed

lemma create_advances:
  assumes "unburied_ids s" and i: "new_id s = Inr (i, s1)" and ins: "insert_location st' i inp s1 = Inr (r, s2)"
    and rest: "locations s' = locations s2" "tombstones s' = tombstones s2"
  shows "advances synced_locations st s s'"
proof -
  note free = unburied_id [OF assms(1) i] and u = new_id_frame [OF i]
  obtain l where "\<not> tbl_has i (locations s1)" "lo_updated l = db_now s1" "s2 = s1\<lparr>locations := tbl_ins i l (locations s1)\<rparr>"
    by (rule insert_location_effect [OF ins])
  then show ?thesis by (intro location_insert_advances [of i s l]) (simp_all add: u free rest)
qed

lemma buried_selected:
  "buried C st s i d \<longleftrightarrow> (\<exists>(_, t) \<in> set (tbl_select (\<lambda>_ t. ts_kind t = co_kind C) (tombstones s)).
     ts_storage t = st \<and> ts_entity t = i \<and> ts_deleted t = d)"
  by (force simp: buried_def tbl_select_def)

lemma map_of_unaudited: "map_of (unaudited t) i = map_option (\<lambda>l. l\<lparr>lo_audited := None\<rparr>) (map_of t i)"
  by (induction t) (auto simp: unaudited_def)

lemma keys_unaudited: "keys (unaudited t) = keys t"
  by (simp add: unaudited_def comp_def case_prod_unfold)

lemma other_advances:
  assumes rows: "unaudited (locations s') = unaudited (locations s)"
    and tombs: "tbl_select (\<lambda>_ t. ts_kind t = TombstoneLocation) (tombstones s') = tbl_select (\<lambda>_ t. ts_kind t = TombstoneLocation) (tombstones s)"
  shows "advances synced_locations st s s'"
proof -
  have same: "map_option (\<lambda>l. l\<lparr>lo_audited := None\<rparr>) (map_of (locations s') i) = map_option (\<lambda>l. l\<lparr>lo_audited := None\<rparr>) (map_of (locations s) i)" for i
    by (simp only: map_of_unaudited [symmetric] rows)
  have row: "map_option (\<lambda>l. l\<lparr>lo_audited := None\<rparr>) (location_row_in st s' i) = map_option (\<lambda>l. l\<lparr>lo_audited := None\<rparr>) (location_row_in st s i)" for i
    using same [of i] by (cases "map_of (locations s') i"; cases "map_of (locations s) i") (auto simp: location_row_in_def dest: arg_cong [of _ _ lo_storage])
  have proj: "map_option f (location_row_in st s' i) = map_option f (location_row_in st s i)" if "\<And>l. f (l\<lparr>lo_audited := None\<rparr>) = f l" for i and f :: "location \<Rightarrow> 'x"
    using arg_cong [OF row [of i], of "map_option f"] by (simp add: option.map_comp comp_def that)
  have keyed: "keys (locations s') = keys (locations s)" using arg_cong [OF rows, of keys] by (simp add: keys_unaudited)
  have bur: "buried synced_locations st s' i d = buried synced_locations st s i d" for i d
    using buried_selected [of synced_locations st s' i d] buried_selected [of synced_locations st s i d] by (simp add: tombs)
  have "location_row_in st s' i = None \<longleftrightarrow> location_row_in st s i = None" for i
    using row [of i] by (metis map_option_is_None)
  moreover have "visible synced_locations st s' i = visible synced_locations st s i" for i
    by (simp add: visible_def proj location_item_of_def)
  ultimately show ?thesis unfolding advances_def by (auto simp: keyed bur proj)
qed

lemma location_commit_advances:
  assumes "location_commit s s'"
  shows "advances synced_locations st s s'"
proof (rule disjE [OF assms [unfolded location_commit_def]])
  assume "\<exists>st w. run_location_write st w s = Inr ((), s') \<and> unburied_ids s
        \<and> (case w of DeleteLocation i \<Rightarrow> shallow_delete st i s | _ \<Rightarrow> True)"
  then obtain st' w where run: "run_location_write st' w s = Inr ((), s')" and u: "unburied_ids s"
    and sh: "case w of DeleteLocation i \<Rightarrow> shallow_delete st' i s | _ \<Rightarrow> True" by blast
  show ?thesis
  proof (cases w)
    case (CreateLocation inp)
    with run show ?thesis by (auto simp: ignore_def create_location_def tx_iff intro: create_advances [OF u] simp flip: new_id_iff)
  next
    case (CreateLocationAs inp user)
    with run obtain i s1 r s2 x where 1: "new_id s = Inr (i, s1)" "insert_location st' i inp s1 = Inr (r, s2)"
      and c: "record_contribution st' user LocationMapped (Some (fst r)) None s2 = Inr (x, s')"
      by (auto simp: ignore_def create_location_as_user_def bind_tx_iff seq_tx_iff ret_tx_iff)
    have "core s' = core s2" by (rule silentD [OF silent_record_contribution c])
    then have "locations (core s') = locations (core s2)" "tombstones (core s') = tombstones (core s2)" by simp_all
    then show ?thesis by (intro create_advances [OF u 1]) simp_all
  next
    case (MoveLocation i parent)
    with run show ?thesis by (auto simp: move_location_def set_location_parent_def tx_iff intro: location_update_advances)
  next
    case (UpdateLocation i patch)
    with run obtain r where up: "update_location st' i patch s = Inr (r, s')" by (auto simp: ignore_def bind_tx_iff ret_tx_iff)
    let ?f = "\<lambda>l. l\<lparr>lo_name := (case lp_name patch of None \<Rightarrow> lo_name l | Some n \<Rightarrow> n),
         lo_description := (if lp_set_description patch then lp_description patch else lo_description l),
         lo_parent := (if lp_set_parent patch then lp_parent patch else lo_parent l), lo_updated := db_now s\<rparr>"
    have "s' = s\<lparr>locations := tbl_upd i ?f (locations s)\<rparr>"
      using up by (auto simp: update_location_def load_location_def tx_iff split: option.splits if_splits)
    then show ?thesis by (simp only:) (rule location_update_advances; simp)
  next
    case (RenameLocation i name description)
    with run show ?thesis by (auto simp: rename_location_def tx_iff intro: location_update_advances)
  next
    case (DeleteLocation i)
    with run sh show ?thesis by (auto intro: delete_advances)
  qed
next
  assume "unaudited (locations s') = unaudited (locations s)
       \<and> tbl_select (\<lambda>_ t. ts_kind t = TombstoneLocation) (tombstones s') = tbl_select (\<lambda>_ t. ts_kind t = TombstoneLocation) (tombstones s)"
  then show ?thesis by (intro other_advances) simp_all
qed

interpretation location_sync: synced_collection synced_locations location_commit
proof
  fix s s' st assume "location_commit s s'"
  then show "advances synced_locations st s s'" by (rule location_commit_advances)
next
  fix s :: db and st c i assume "co_keyed synced_locations s"
  then have d: "distinct (keys (locations s))" by simp
  show "map_of (co_changed synced_locations st c s) i =
      (case co_row synced_locations st s i of None \<Rightarrow> None | Some r \<Rightarrow> if co_stamp synced_locations r < c then None else Some r)"
    by (auto simp: locations_changed_since_def map_of_sorted distinct_select d map_of_select location_row_in_def split: option.split)
qed (simp_all add: location_row_in_def fun_eq_iff)

section \<open>Categories\<close>

text \<open>The same collection for categories: their item also carries the shelf life, which has an edit of its own.\<close>

datatype category_write =
    CreateCategory new_category
  | CreateCategoryAs new_category uuid
  | UpdateCategory uuid category_patch
  | SetCategoryShelfLife uuid "int option"
  | DeleteCategory uuid

fun run_category_write :: "uuid \<Rightarrow> category_write \<Rightarrow> unit dbtx" where
  "run_category_write st (CreateCategory inp) = ignore (create_category st inp)"
| "run_category_write st (CreateCategoryAs inp user) = ignore (create_category_as_user st inp user)"
| "run_category_write st (UpdateCategory i patch) = ignore (update_category st i patch)"
| "run_category_write st (SetCategoryShelfLife i days) = set_category_shelf_life st i days"
| "run_category_write st (DeleteCategory i) = delete_category st i"

definition shallow_category_delete :: "uuid \<Rightarrow> uuid \<Rightarrow> db \<Rightarrow> bool" where
  "shallow_category_delete st i s \<longleftrightarrow> list_all (\<lambda>k. k \<in> set (category_subtree i s) \<and> in_storage TreeCategories st k s) (category_cascade i s)"

definition category_commit :: "db \<Rightarrow> db \<Rightarrow> bool" where
  "category_commit s s' \<longleftrightarrow>
     (\<exists>st w. run_category_write st w s = Inr ((), s') \<and> unburied_ids s
        \<and> (case w of DeleteCategory i \<Rightarrow> shallow_category_delete st i s | _ \<Rightarrow> True))
     \<or> categories s' = categories s
       \<and> tbl_select (\<lambda>_ t. ts_kind t = TombstoneCategory) (tombstones s') = tbl_select (\<lambda>_ t. ts_kind t = TombstoneCategory) (tombstones s)"

lemma category_update_advances:
  assumes "categories s' = tbl_upd i f (categories s)" and "tombstones s' = tombstones s"
    and "\<And>c. cg_storage (f c) = cg_storage c" and "\<And>c. cg_updated (f c) = db_now s"
  shows "advances synced_categories st s s'"
  by (rule advancesI) (use assms in \<open>auto simp: category_row_in_def visible_def split: option.splits if_splits\<close>)

lemma category_insert_advances:
  assumes u: "unburied_ids s" and i: "new_id s = Inr (i, s1)" and ins: "insert_category st' i inp s1 = Inr (r, s2)"
    and rest: "categories s' = categories s2" "tombstones s' = tombstones s2"
  shows "advances synced_categories st s s'"
proof -
  note free = unburied_id [OF u i] and u = new_id_frame [OF i]
  let ?c = "\<lparr>cg_storage = st', cg_parent = nc_parent inp, cg_name = nc_name inp, cg_days = nc_days inp,
    cg_created = db_now s, cg_updated = db_now s\<rparr>"
  have fresh: "\<not> tbl_has i (categories s)" and s2: "s2 = s1\<lparr>categories := tbl_ins i ?c (categories s)\<rparr>"
    using ins u by (auto simp: insert_category_def insert_category_row_def Let_def tx_iff)
  have m: "map_of (categories s') = (map_of (categories s))(i \<mapsto> ?c)" "map_of (categories s) i = None"
    using fresh by (simp_all add: rest s2 map_of_insert_fresh tbl_has_def)
  show ?thesis
  proof (rule advancesI)
    show "tombstones s' = tombstones s" by (simp add: rest s2 u)
    show "co_keyed synced_categories s \<Longrightarrow> co_keyed synced_categories s'"
      using fresh by (simp add: rest s2 tbl_has_keys)
    fix k d assume "buried synced_categories st s k d" "co_row synced_categories st s k = None"
    then show "co_row synced_categories st s' k = None" using free by (auto simp: category_row_in_def m)
  qed (auto simp: category_row_in_def visible_def m split: option.splits if_splits)
qed

lemma category_delete_advances:
  assumes del: "delete_category st' i s = Inr (r, s')" and shallow: "shallow_category_delete st' i s"
  shows "advances synced_categories st s s'"
proof -
  let ?gone = "category_cascade i s"
  have tomb: "record_tombstones st' TombstoneCategory (category_subtree i s)
      (s\<lparr>categories := tbl_del (\<lambda>k _. k \<in> set ?gone) (categories s)\<rparr>) = Inr (r, s')"
    using del by (auto simp: delete_category_def delete_category_row_def tx_iff)
  have cats: "categories s' = tbl_del (\<lambda>k _. k \<in> set ?gone) (categories s)"
    using record_tombstones_effect [OF tomb] by simp
  have gone: "set (category_subtree i s) \<subseteq> set ?gone"
    using descend_prefix [of "category_children s" max_tree_depth "[i]"] by (auto simp: category_subtree_def category_cascade_def)
  have bur: "buried synced_categories st s' k d \<longleftrightarrow> buried synced_categories st s k d \<or> st = st' \<and> k \<in> set (category_subtree i s) \<and> d = db_now s" for k d
    using buried_recorded [of st' synced_categories _ _ r s' st k d] tomb by (simp add: buried_def)
  have row: "category_row_in st s' k = (if k \<in> set ?gone then None else category_row_in st s k)" if "distinct (keys (categories s))" for k
    using that by (simp add: category_row_in_def cats map_of_tbl_del split: option.split)
  show ?thesis
  proof (rule bury_advances [of _ s s' st ?gone "category_subtree i s" st'])
    fix k assume "k \<in> set ?gone"
    with shallow have "k \<in> set (category_subtree i s)" "in_storage TreeCategories st' k s"
      by (simp_all add: shallow_category_delete_def list_all_iff)
    then show "k \<in> set (category_subtree i s) \<and> (co_row synced_categories st s k \<noteq> None \<longrightarrow> st = st')"
      by (auto simp: in_storage_def tree_row_def category_row_in_def split: option.splits if_splits)
  qed (use row bur gone in \<open>simp_all add: cats distinct_keys_tbl_del\<close>)
qed

text \<open>The dates that follow a move are written beside the categories.\<close>

definition category_part :: "db \<Rightarrow> category table \<times> tombstone table" where
  "category_part s = (categories s, tombstones s)"

interpretation category_frame: frame category_part
proof
  fix s s' :: db assume "core s = core s'"
  then have "category_part (core s) = category_part (core s')" by simp
  then show "category_part s = category_part s'" by (simp add: category_part_def)
qed

lemma recompute_each_beside: "category_frame.quiet (recompute_each st ps)"
  unfolding recompute_each_def recompute_derived_expiry_def apply_derived_expiry_def redate_batch_def expiry_rules_for_def
    load_derived_batches_def
  by (intro category_frame.quiet_intros) (simp add: category_part_def)

lemma category_commit_advances:
  assumes "category_commit s s'"
  shows "advances synced_categories st s s'"
proof (rule disjE [OF assms [unfolded category_commit_def]])
  assume "\<exists>st w. run_category_write st w s = Inr ((), s') \<and> unburied_ids s
        \<and> (case w of DeleteCategory i \<Rightarrow> shallow_category_delete st i s | _ \<Rightarrow> True)"
  then obtain st' w where run: "run_category_write st' w s = Inr ((), s')" and u: "unburied_ids s"
    and sh: "case w of DeleteCategory i \<Rightarrow> shallow_category_delete st' i s | _ \<Rightarrow> True" by blast
  show ?thesis
  proof (cases w)
    case (CreateCategory inp)
    with run show ?thesis
      by (auto simp: ignore_def create_category_def bind_tx_iff ret_tx_iff intro: category_insert_advances [OF u])
  next
    case (CreateCategoryAs inp user)
    with run obtain i s1 r s2 x where 1: "new_id s = Inr (i, s1)" "insert_category st' i inp s1 = Inr (r, s2)"
      and c: "record_contribution st' user CategoryCreated (Some (fst r)) None s2 = Inr (x, s')"
      by (auto simp: ignore_def create_category_as_user_def bind_tx_iff seq_tx_iff ret_tx_iff)
    have "core s' = core s2" by (rule silentD [OF silent_record_contribution c])
    then have "categories (core s') = categories (core s2)" "tombstones (core s') = tombstones (core s2)" by simp_all
    then show ?thesis by (intro category_insert_advances [OF u 1]) simp_all
  next
    case (UpdateCategory i patch)
    then obtain r where up: "update_category st' i patch s = Inr (r, s')"
      using run by (auto simp: ignore_def bind_tx_iff ret_tx_iff)
    let ?f = "\<lambda>c. c\<lparr>cg_name := coalesce_to (cp_name patch) (cg_name c),
         cg_parent := (if cp_set_parent patch then cp_parent patch else cg_parent c), cg_updated := db_now s\<rparr>"
    obtain s1 where s1: "patch_category_row i patch s = Inr ((), s1)"
      and rest: "if cp_set_parent patch then recompute_each st' (products_under_category st' i s1) s1 = Inr ((), s') else s' = s1"
      by (rule update_category_steps [OF up])
    have "category_part s' = category_part s1"
      using rest category_frame.quietD [OF recompute_each_beside] by (auto split: if_splits)
    moreover have "category_part s1 = (tbl_upd i ?f (categories s), tombstones s)"
      using s1 by (auto simp: patch_category_row_def mod_tx_iff category_part_def)
    ultimately show ?thesis
      by (intro category_update_advances [where f = ?f]) (simp_all add: category_part_def)
  next
    case (SetCategoryShelfLife i days)
    with run show ?thesis
      by (intro category_update_advances [where f = "\<lambda>c. c\<lparr>cg_days := days, cg_updated := db_now s\<rparr>"])
        (auto simp: set_category_shelf_life_def tx_iff)
  next
    case (DeleteCategory i)
    with run sh show ?thesis by (auto intro: category_delete_advances)
  qed
next
  assume same: "categories s' = categories s
       \<and> tbl_select (\<lambda>_ t. ts_kind t = TombstoneCategory) (tombstones s') = tbl_select (\<lambda>_ t. ts_kind t = TombstoneCategory) (tombstones s)"
  have "buried synced_categories st s' i d = buried synced_categories st s i d" for i d
    using same buried_selected [of synced_categories st s' i d] buried_selected [of synced_categories st s i d] by simp
  then show ?thesis using same unfolding advances_def by (simp add: visible_def category_row_in_def)
qed

interpretation category_sync: synced_collection synced_categories category_commit
proof
  fix s s' st assume "category_commit s s'"
  then show "advances synced_categories st s s'" by (rule category_commit_advances)
next
  fix s :: db and st c i assume "co_keyed synced_categories s"
  then have d: "distinct (keys (categories s))" by simp
  show "map_of (co_changed synced_categories st c s) i =
      (case co_row synced_categories st s i of None \<Rightarrow> None | Some r \<Rightarrow> if co_stamp synced_categories r < c then None else Some r)"
    by (auto simp: categories_changed_since_def map_of_sorted distinct_select d map_of_select category_row_in_def split: option.split)
qed (simp_all add: category_row_in_def fun_eq_iff)

section \<open>Convergence\<close>


text \<open>A shelf is removed while the client is away; the delta tells it.\<close>

definition before_cleanup :: sync_world where
  "before_cleanup = \<lparr>sw_db = demo_db, sw_clock = 50, sw_open = []\<rparr>"

definition shelf_removed :: db where
  "shelf_removed = snd (in_tx (run_location_write 2 (DeleteLocation 11)) (demo_db\<lparr>db_now := 50\<rparr>))"

lemma shelf_removed_run: "run_location_write 2 (DeleteLocation 11) (demo_db\<lparr>db_now := 50\<rparr>) = Inr ((), shelf_removed)"
proof -
  have "fst (in_tx (run_location_write 2 (DeleteLocation 11)) (demo_db\<lparr>db_now := 50\<rparr>)) = Inr ()" by code_simp
  then show ?thesis by (auto simp: shelf_removed_def in_tx_def split: sum.splits prod.splits)
qed

lemma cleanup_steps: "sync_steps location_commit before_cleanup \<lparr>sw_db = shelf_removed, sw_clock = 50, sw_open = []\<rparr>"
proof -
  have "sync_step location_commit before_cleanup \<lparr>sw_db = demo_db, sw_clock = 50, sw_open = [50]\<rparr>"
    using sync_step.opens [of location_commit before_cleanup] by (simp add: before_cleanup_def)
  moreover have "location_commit (demo_db\<lparr>db_now := 50\<rparr>) shelf_removed"
  proof -
    have "unburied_ids (demo_db\<lparr>db_now := 50\<rparr>)" "shallow_delete 2 11 (demo_db\<lparr>db_now := 50\<rparr>)" by code_simp+
    then show ?thesis
      unfolding location_commit_def
      by (intro disjI1 exI [of _ 2] exI [of _ "DeleteLocation 11"]) (simp only: shelf_removed_run location_write.case simp_thms)
  qed
  then have "sync_step location_commit \<lparr>sw_db = demo_db, sw_clock = 50, sw_open = [50]\<rparr> \<lparr>sw_db = shelf_removed, sw_clock = 50, sw_open = []\<rparr>"
    using sync_step.commit [of 50 "\<lparr>sw_db = demo_db, sw_clock = 50, sw_open = [50]\<rparr>" location_commit shelf_removed] by simp
  ultimately show ?thesis by (meson converse_rtranclp_into_rtranclp r_into_rtranclp)
qed


section \<open>A gap\<close>

text \<open>
  C0. The check compares the cursor with the watermark, which a long transaction holds back, while the sweep goes by
  the clock. A cursor just older than the retention is then accepted although the tombstone it needs has
  been swept, and the client keeps a location that is gone.
\<close>

definition held_back :: sync_world where
  "held_back = \<lparr>sw_db = demo_db\<lparr>tombstones := [(60, \<lparr>ts_storage = 2, ts_kind = TombstoneLocation, ts_entity = 13, ts_deleted = 100\<rparr>)]\<rparr>,
     sw_clock = 101 + tombstone_retention, sw_open = [100 + tombstone_retention]\<rparr>"

definition ghost :: "location_item cache" where
  "ghost = (visible synced_locations 2 demo_db)(13 \<mapsto> \<lparr>li_name = ''Cellar'', li_parent = None, li_description = None\<rparr>)"

theorem held_back_watermark_loses_deletion:
  "(let w = held_back\<lparr>sw_db := snd (in_tx (sweep_tombstones (sw_clock held_back)) (sw_db held_back))\<rparr> in
    sound_copy synced_locations 2 100 ghost (sw_db held_back) \<and> sync_step location_commit held_back w
    \<and> (\<exists>d. load_delta TombstoneLocation locations_changed_since 2 100 (delta_watermark (sw_clock w) (sw_open w)) (sw_db w) (sw_db w) = Inr d
        \<and> visible synced_locations 2 (sw_db w) 13 = None \<and> apply_delta location_item_of d ghost 13 \<noteq> None))"
proof -
  let ?w = "held_back\<lparr>sw_db := snd (in_tx (sweep_tombstones (sw_clock held_back)) (sw_db held_back))\<rparr>"
  have "sound_copy synced_locations 2 100 ghost (sw_db held_back)"
    by (rule sound_copyI) (auto simp: held_back_def ghost_def demo_defs visible_def buried_def location_row_in_def)
  moreover have "sync_step location_commit held_back ?w" by (rule sync_step.sweep) simp
  moreover have "load_delta TombstoneLocation locations_changed_since 2 100 (delta_watermark (sw_clock ?w) (sw_open ?w)) (sw_db ?w) (sw_db ?w)
      = Inr \<lparr>dl_changed = [], dl_deleted = [], dl_synced = 100 + tombstone_retention\<rparr>" by code_simp
  ultimately show ?thesis
    by (simp add: Let_def apply_delta_def ghost_def) (simp add: visible_def location_row_in_def sweep_effect held_back_def demo_defs)
qed

end
