(* ===== verification/Notices.thy ===== *)
theory Notices
  imports Handlers
begin

text \<open>
  The daily digest of what expires: the settings of a storage and the claim of the due ones
  (\<open>store/notifications.go\<close>), the message (\<open>notify/digest.go\<close>), its delivery (\<open>notify/deliver.go\<close>), the run over
  the due storages (\<open>notify/service.go\<close>) and the handlers of the settings page (\<open>httpapi/notifications.go\<close>).
  The URL parser and the answer of the target are parameters; an encoded JSON body is the value it encodes.
\<close>

section \<open>Settings\<close>

record notice_input =
  ni_enabled :: bool
  ni_kind :: "notice_kind option"
  ni_url :: string
  ni_token :: "string option"
  ni_hour :: int
  ni_soon :: bool

definition notification_settings_for :: "uuid \<Rightarrow> notice dbtx" where
  "notification_settings_for st = row_tx ErrNotFound (\<lambda>s. map_of (notices s) st)"

definition nullif_empty :: "string option \<Rightarrow> string option" where
  "nullif_empty t = (if t = Some [] then None else t)"

definition save_notification_settings :: "uuid \<Rightarrow> notice_input \<Rightarrow> notice dbtx" where
  "save_notification_settings st inp =
     seq_tx (guard_tx (\<not> (ni_hour inp < 0 \<or> ni_hour inp > 23)) ErrValidation)
    (bind_tx (row_tx ErrValidation (\<lambda>_. ni_kind inp)) (\<lambda>kind.
     seq_tx (guard_tx (ni_url inp \<noteq> []) ErrValidation)
    (seq_tx (check_tx (\<lambda>s. tbl_has st (storage_rows s)) ErrInternal)
    (bind_tx (get_tx db_now) (\<lambda>now.
     seq_tx (mod_tx (\<lambda>s. if tbl_has st (notices s)
         then s\<lparr>notices := tbl_upd st (\<lambda>n. n\<lparr>nt_enabled := ni_enabled inp, nt_kind := kind, nt_url := ni_url inp,
             nt_token := (if ni_token inp = None then nt_token n else nullif_empty (ni_token inp)),
             nt_hour := ni_hour inp, nt_soon := ni_soon inp, nt_updated := now\<rparr>) (notices s)\<rparr>
         else s\<lparr>notices := tbl_ins st \<lparr>nt_enabled = ni_enabled inp, nt_kind = kind, nt_url = ni_url inp,
             nt_token = nullif_empty (ni_token inp), nt_hour = ni_hour inp, nt_soon = ni_soon inp,
             nt_last_run = None, nt_last_result = None, nt_updated = now\<rparr> (notices s)\<rparr>))
       (row_tx ErrNotFound (\<lambda>s. map_of (notices s) st)))))))"

text \<open>
  \<open>startOfDay\<close> and \<open>Hour\<close> in the zone of the instant; the claim marks the run in the statement that finds
  the due rows, so nothing that happens afterwards makes a storage due again.
\<close>

definition start_of_day :: "zoned \<Rightarrow> instant" where
  "start_of_day z = calendar_day z * ns_per_day - z_offset z"

definition hour_of :: "zoned \<Rightarrow> int" where
  "hour_of z = (z_instant z + z_offset z) mod ns_per_day div (ns_per_day div 24)"

definition notice_due :: "zoned \<Rightarrow> instant \<Rightarrow> notice \<Rightarrow> bool" where
  "notice_due now day_start n \<longleftrightarrow> nt_enabled n \<and> nt_hour n = hour_of now \<and> (nt_last_run n = None \<or> the (nt_last_run n) < day_start)"

definition claim_due_notifications :: "zoned \<Rightarrow> instant \<Rightarrow> (uuid \<times> notice) list dbtx" where
  "claim_due_notifications now day_start =
     bind_tx (get_tx (\<lambda>s. keys (tbl_select (\<lambda>_ n. notice_due now day_start n) (notices s)))) (\<lambda>due.
       seq_tx (mod_tx (\<lambda>s. s\<lparr>notices := tbl_map (\<lambda>_ n. notice_due now day_start n) (\<lambda>n. n\<lparr>nt_last_run := Some (z_instant now)\<rparr>) (notices s)\<rparr>))
         (get_tx (\<lambda>s. tbl_select (\<lambda>st _. st \<in> set due) (notices s))))"

definition record_notification_result :: "uuid \<Rightarrow> string \<Rightarrow> unit dbtx" where
  "record_notification_result st result =
     mod_tx (\<lambda>s. s\<lparr>notices := tbl_upd st (\<lambda>n. n\<lparr>nt_last_result := Some result\<rparr>) (notices s)\<rparr>)"

section \<open>What is expiring\<close>

record digest_item =
  di_name :: string
  di_quantity :: int
  di_path :: string
  di_date :: date

definition location_path_of :: "uuid \<Rightarrow> db \<Rightarrow> string" where
  "location_path_of l s = join_path (rev (map (\<lambda>k. case map_of (locations s) k of None \<Rightarrow> [] | Some r \<Rightarrow> lo_name r)
     (ancestors (tree_row TreeLocations s) (Suc max_tree_depth) l)))"

definition due_item :: "uuid \<Rightarrow> date \<Rightarrow> db \<Rightarrow> batch \<Rightarrow> digest_item option" where
  "due_item st until s b = (case (map_of (products s) (ba_product b), ba_expiration b) of
      (Some p, Some d) \<Rightarrow> if pr_storage p = st \<and> ba_quantity b > 0 \<and> d < until
        then Some \<lparr>di_name = pr_name p, di_quantity = ba_quantity b, di_path = location_path_of (ba_location b) s, di_date = d\<rparr>
        else None
    | _ \<Rightarrow> None)"

definition expiring_batches_before :: "(string \<Rightarrow> 'c :: linorder) \<Rightarrow> uuid \<Rightarrow> date \<Rightarrow> db \<Rightarrow> digest_item list" where
  "expiring_batches_before collate st until s =
     sort_key (\<lambda>i. (di_date i, collate (di_name i))) (List.map_filter (due_item st until s \<circ> snd) (batches s))"

section \<open>The message\<close>

record digest =
  dg_expired :: "digest_item list"
  dg_critical :: "digest_item list"
  dg_soon :: "digest_item list"

definition item_urgency :: "zoned \<Rightarrow> digest_item \<Rightarrow> urgency" where
  "item_urgency today i = classify (Some (utc_midnight (di_date i))) today"

fun build_digest :: "digest_item list \<Rightarrow> zoned \<Rightarrow> bool \<Rightarrow> digest \<Rightarrow> digest" where
  "build_digest [] today soon d = d"
| "build_digest (i # is) today soon d = build_digest is today soon (case item_urgency today i of
      UrgencyExpired \<Rightarrow> d\<lparr>dg_expired := dg_expired d @ [i]\<rparr>
    | UrgencyCritical \<Rightarrow> d\<lparr>dg_critical := dg_critical d @ [i]\<rparr>
    | UrgencySoon \<Rightarrow> if soon then d\<lparr>dg_soon := dg_soon d @ [i]\<rparr> else d
    | _ \<Rightarrow> d)"

definition empty_digest :: digest where
  "empty_digest = \<lparr>dg_expired = [], dg_critical = [], dg_soon = []\<rparr>"

definition digest_of :: "digest_item list \<Rightarrow> zoned \<Rightarrow> bool \<Rightarrow> digest" where
  "digest_of is today soon = build_digest is today soon empty_digest"

definition digest_empty :: "digest \<Rightarrow> bool" where
  "digest_empty d \<longleftrightarrow> dg_expired d = [] \<and> dg_critical d = [] \<and> dg_soon d = []"

fun join_with :: "string \<Rightarrow> string list \<Rightarrow> string" where
  "join_with sep [] = []"
| "join_with sep [p] = p"
| "join_with sep (p # q # ps) = p @ sep @ join_with sep (q # ps)"

definition count_text :: "digest_item list \<Rightarrow> string \<Rightarrow> string list" where
  "count_text is t = (if length is > 0 then [nat_text (length is) @ t] else [])"

definition digest_title :: "digest \<Rightarrow> string" where
  "digest_title d =
     (let parts = count_text (dg_expired d) '' expired''
          @ count_text (dg_critical d) ('' expiring within '' @ int_text critical_within_days @ '' days'')
          @ count_text (dg_soon d) ('' expiring within '' @ int_text soon_within_days @ '' days'')
      in if parts = [] then ''Inventory: nothing expiring'' else ''Inventory: '' @ join_with '', '' parts)"

text \<open>A dash between spaces, as UTF-8.\<close>

definition spaced_dash :: string where
  "spaced_dash = '' '' @ map char_of [0xE2 :: nat, 0x80, 0x94] @ '' ''"

definition digest_line :: "digest_item \<Rightarrow> string" where
  "digest_line i = join_with spaced_dash
     ([''- '' @ di_name i @ '' x'' @ int_text (di_quantity i)] @ (if di_path i \<noteq> [] then [di_path i] else []) @ [date_text (di_date i)])"

definition newline :: string where "newline = [CHR 0x0A]"

definition digest_section :: "string \<Rightarrow> digest_item list \<Rightarrow> string \<Rightarrow> string" where
  "digest_section heading is b = (if is = [] then b
     else b @ (if b \<noteq> [] then newline else []) @ heading @ newline @ concat (map (\<lambda>i. digest_line i @ newline) is))"

definition trim_right_newlines :: "string \<Rightarrow> string" where
  "trim_right_newlines t = rev (dropWhile (\<lambda>c. c = CHR 0x0A) (rev t))"

definition digest_message :: "digest \<Rightarrow> string" where
  "digest_message d = trim_right_newlines
     (digest_section (''Within '' @ int_text soon_within_days @ '' days:'') (dg_soon d)
       (digest_section (''Within '' @ int_text critical_within_days @ '' days:'') (dg_critical d)
         (digest_section ''Expired:'' (dg_expired d) [])))"

record payload_item =
  pi_name :: string
  pi_quantity :: int
  pi_location :: string
  pi_date :: string
  pi_urgency :: string

definition payload_of :: "string \<Rightarrow> digest_item \<Rightarrow> payload_item" where
  "payload_of u i = \<lparr>pi_name = di_name i, pi_quantity = di_quantity i, pi_location = di_path i,
     pi_date = date_text (di_date i), pi_urgency = u\<rparr>"

definition digest_items :: "digest \<Rightarrow> payload_item list" where
  "digest_items d = map (payload_of ''expired'') (dg_expired d) @ map (payload_of ''critical'') (dg_critical d)
     @ map (payload_of ''soon'') (dg_soon d)"

section \<open>Delivery\<close>

datatype target_problem = ErrUnsupportedScheme | ErrNoHost | ErrBadUrl

record target_url =
  tu_scheme :: string
  tu_host :: string
  tu_text :: string

text \<open>What the program knows of the outside: how a URL reads, and what a target does with a request.\<close>

datatype post_body = TextBody string | GotifyBody string string int | WebhookBody string string "payload_item list"

record post_request =
  po_target :: target_url
  po_join :: "string option"
  po_query_token :: "string option"
  po_title :: "string option"
  po_bearer :: "string option"
  po_body :: post_body

datatype post_outcome = Answered int | TimedOut | Unreachable

record outside =
  ou_parse :: "string \<Rightarrow> target_url option"
  ou_post :: "post_request \<Rightarrow> post_outcome"

definition parse_target :: "outside \<Rightarrow> string \<Rightarrow> target_problem + target_url" where
  "parse_target w raw = (let t = trim_space raw in
     if t = [] then Inl ErrNoHost
     else case ou_parse w t of
         None \<Rightarrow> Inl ErrBadUrl
       | Some u \<Rightarrow> if \<not> (tu_scheme u = ''http'' \<or> tu_scheme u = ''https'') then Inl ErrUnsupportedScheme
           else if tu_host u = [] then Inl ErrNoHost else Inr u)"

definition bearer :: "string option \<Rightarrow> string option" where
  "bearer t = map_option (\<lambda>t. ''Bearer '' @ t) t"

definition gotify_priority :: int where "gotify_priority = 4"

definition build_request :: "notice \<Rightarrow> target_url \<Rightarrow> string \<Rightarrow> string \<Rightarrow> payload_item list \<Rightarrow> post_request" where
  "build_request n u title msg is = (case nt_kind n of
      NotificationNtfy \<Rightarrow> \<lparr>po_target = u, po_join = None, po_query_token = None, po_title = Some title,
        po_bearer = bearer (nt_token n), po_body = TextBody msg\<rparr>
    | NotificationGotify \<Rightarrow> \<lparr>po_target = u, po_join = Some ''message'', po_query_token = nt_token n, po_title = None,
        po_bearer = None, po_body = GotifyBody title msg gotify_priority\<rparr>
    | NotificationWebhook \<Rightarrow> \<lparr>po_target = u, po_join = None, po_query_token = None, po_title = None,
        po_bearer = bearer (nt_token n), po_body = WebhookBody title msg is\<rparr>)"

text \<open>Nothing is a delivery; otherwise the summary of the failure.\<close>

definition deliver :: "outside \<Rightarrow> notice \<Rightarrow> string \<Rightarrow> string \<Rightarrow> payload_item list \<Rightarrow> string option" where
  "deliver w n title msg is = (case parse_target w (nt_url n) of
      Inl _ \<Rightarrow> Some ''the configured URL is not usable''
    | Inr u \<Rightarrow> (case ou_post w (build_request n u title msg is) of
          TimedOut \<Rightarrow> Some ''no answer within 10s''
        | Unreachable \<Rightarrow> Some ''the target could not be reached''
        | Answered code \<Rightarrow>
            if code \<ge> 200 \<and> code < 300 then None
            else if code \<ge> 300 \<and> code < 400
              then Some (''the target redirected (HTTP '' @ int_text code @ ''); redirects are not followed'')
            else Some (''the target answered HTTP '' @ int_text code)))"

section \<open>The daily run\<close>

definition notification_sent :: string where "notification_sent = ''sent''"
definition notification_empty :: string where "notification_empty = ''empty''"

definition digest_for :: "(string \<Rightarrow> 'c :: linorder) \<Rightarrow> uuid \<Rightarrow> bool \<Rightarrow> zoned \<Rightarrow> db \<Rightarrow> digest" where
  "digest_for collate st soon now s =
     digest_of (expiring_batches_before collate st (calendar_day now + soon_within_days) s) now soon"

definition run_one :: "(string \<Rightarrow> 'c :: linorder) \<Rightarrow> outside \<Rightarrow> zoned \<Rightarrow> uuid \<times> notice \<Rightarrow> db \<Rightarrow> bool \<times> db" where
  "run_one collate w now due s =
     (let st = fst due; n = snd due; d = digest_for collate st (nt_soon n) now s in
      if digest_empty d then (False, snd (in_tx (record_notification_result st notification_empty) s))
      else case deliver w n (digest_title d) (digest_message d) (digest_items d) of
          Some summary \<Rightarrow> (False, snd (in_tx (record_notification_result st summary) s))
        | None \<Rightarrow> (True, snd (in_tx (record_notification_result st notification_sent) s)))"

fun run_each :: "(string \<Rightarrow> 'c :: linorder) \<Rightarrow> outside \<Rightarrow> zoned \<Rightarrow> (uuid \<times> notice) list \<Rightarrow> nat \<Rightarrow> db \<Rightarrow> nat \<times> db" where
  "run_each collate w now [] sent s = (sent, s)"
| "run_each collate w now (due # dues) sent s = (case run_one collate w now due s of
      (delivered, s1) \<Rightarrow> run_each collate w now dues (if delivered then Suc sent else sent) s1)"

definition run_due :: "(string \<Rightarrow> 'c :: linorder) \<Rightarrow> outside \<Rightarrow> zoned \<Rightarrow> db \<Rightarrow> (err + nat) \<times> db" where
  "run_due collate w now s = (case in_tx (claim_due_notifications now (start_of_day now)) s of
      (Inl e, s1) \<Rightarrow> (Inl e, s1)
    | (Inr due, s1) \<Rightarrow> (case run_each collate w now due 0 s1 of (sent, s2) \<Rightarrow> (Inr sent, s2)))"

definition test_title :: string where "test_title = ''Inventory: test message''"
definition test_message :: string where
  "test_message = ''Notifications are set up correctly. This is a test'' @ spaced_dash @ ''your daily expiry digest will look like this.''"

definition send_test :: "outside \<Rightarrow> uuid \<Rightarrow> notice \<Rightarrow> db \<Rightarrow> string option \<times> db" where
  "send_test w st n s = (case deliver w n test_title test_message [] of
      Some summary \<Rightarrow> (Some summary, snd (in_tx (record_notification_result st summary) s))
    | None \<Rightarrow> (None, snd (in_tx (record_notification_result st notification_sent) s)))"

section \<open>The settings page\<close>

record notice_reply =
  nr_enabled :: bool
  nr_kind :: notice_kind
  nr_url :: string
  nr_has_token :: bool
  nr_hour :: int
  nr_soon :: bool
  nr_last_run :: "instant option"
  nr_last_result :: "string option"

definition default_send_hour :: int where "default_send_hour = 8"

definition notice_reply_of :: "notice \<Rightarrow> notice_reply" where
  "notice_reply_of n = \<lparr>nr_enabled = nt_enabled n, nr_kind = nt_kind n, nr_url = nt_url n, nr_has_token = (nt_token n \<noteq> None),
     nr_hour = nt_hour n, nr_soon = nt_soon n, nr_last_run = nt_last_run n, nr_last_result = nt_last_result n\<rparr>"

definition default_notice_reply :: notice_reply where
  "default_notice_reply = \<lparr>nr_enabled = False, nr_kind = NotificationNtfy, nr_url = [], nr_has_token = False,
     nr_hour = default_send_hour, nr_soon = False, nr_last_run = None, nr_last_result = None\<rparr>"

definition notification_get :: "http_context \<Rightarrow> notice_reply handler" where
  "notification_get cx = with_storage cx (\<lambda>st. read_state (\<lambda>s. map_of (notices s) st) (\<lambda>found. case found of
      None \<Rightarrow> answer_with 200 default_notice_reply
    | Some n \<Rightarrow> answer_with 200 (notice_reply_of n)))"

record notice_body =
  nb_enabled :: bool
  nb_kind :: "notice_kind option"
  nb_url :: string
  nb_token :: "string raw"
  nb_hour :: "int option"
  nb_soon :: bool

text \<open>Absent keeps the token, null clears it.\<close>

definition parse_notification_token :: "string raw \<Rightarrow> failure + string option" where
  "parse_notification_token raw = (case raw of
      Absent \<Rightarrow> Inr None
    | Malformed \<Rightarrow> Inl (validation_failed [(''token'', [''Must be a string, or null to remove the stored token.''])])
    | Null \<Rightarrow> Inr (Some [])
    | Value t \<Rightarrow> Inr (Some t))"

definition notification_problems :: "outside \<Rightarrow> notice_body \<Rightarrow> int \<Rightarrow> field_map" where
  "notification_problems w b hour =
     (if nb_kind b = None then [(''kind'', [''Must be \"ntfy\", \"gotify\" or \"webhook\".''])] else [])
     @ (case parse_target w (nb_url b) of
          Inl ErrUnsupportedScheme \<Rightarrow> [(''url'', [''Must start with http:// or https://.''])]
        | Inl _ \<Rightarrow> [(''url'', [''Must be a full URL including a host, e.g. https://ntfy.example/inventory.''])]
        | Inr _ \<Rightarrow> [])
     @ (if hour < 0 \<or> hour > 23 then [(''send_hour'', [''Must be an hour of the day, 0 to 23.''])] else [])"

definition notification_put :: "outside \<Rightarrow> http_context \<Rightarrow> notice_body decoded \<Rightarrow> notice_reply handler" where
  "notification_put w cx body =
     with_storage cx (\<lambda>st. decode_json body (\<lambda>b.
       let hour = (case nb_hour b of None \<Rightarrow> default_send_hour | Some h \<Rightarrow> h);
           fs = notification_problems w b hour in
       case parse_notification_token (nb_token b) of
         Inl f \<Rightarrow> refuse f
       | Inr token \<Rightarrow> no_problems fs
           (call (save_notification_settings st \<lparr>ni_enabled = nb_enabled b, ni_kind = nb_kind b, ni_url = nb_url b,
               ni_token = token, ni_hour = hour, ni_soon = nb_soon b\<rparr>)
             (\<lambda>e. from_store_error e ''storage not found'') (\<lambda>n. answer_with 200 (notice_reply_of n)))))"

text \<open>The message of the conflict is the handler's own.\<close>

definition conflict_saying :: "string \<Rightarrow> failure" where
  "conflict_saying msg = failure_of 409 ''conflict'' msg"

definition notification_test :: "outside \<Rightarrow> http_context \<Rightarrow> (bool \<times> string) handler" where
  "notification_test w cx =
     with_storage cx (\<lambda>st. call (notification_settings_for st)
       (\<lambda>e. from_store_error e ''no notification settings for this storage'') (\<lambda>n.
       if \<not> nt_enabled n then refuse (conflict_saying ''Turn notifications on and save before sending a test.'')
       else (\<lambda>s. case send_test w st n s of
           (Some summary, s') \<Rightarrow> answer_with 200 (False, summary) s'
         | (None, s') \<Rightarrow> answer_with 200 (True, notification_sent) s')))"

section \<open>The digest reports exactly what expires\<close>

text \<open>Everything of the storage that is in stock and dated, without a window.\<close>

definition dated_item :: "uuid \<Rightarrow> db \<Rightarrow> batch \<Rightarrow> digest_item option" where
  "dated_item st s b = (case (map_of (products s) (ba_product b), ba_expiration b) of
      (Some p, Some d) \<Rightarrow> if pr_storage p = st \<and> ba_quantity b > 0
        then Some \<lparr>di_name = pr_name p, di_quantity = ba_quantity b, di_path = location_path_of (ba_location b) s, di_date = d\<rparr>
        else None
    | _ \<Rightarrow> None)"

definition dated_stock :: "(string \<Rightarrow> 'c :: linorder) \<Rightarrow> uuid \<Rightarrow> db \<Rightarrow> digest_item list" where
  "dated_stock collate st s =
     sort_key (\<lambda>i. (di_date i, collate (di_name i))) (List.map_filter (dated_item st s \<circ> snd) (batches s))"

lemma due_items: "List.map_filter (due_item st until s \<circ> snd) bs = filter (\<lambda>i. di_date i < until) (List.map_filter (dated_item st s \<circ> snd) bs)"
  by (induction bs) (auto simp: List.map_filter_def due_item_def dated_item_def split: option.splits)

lemma expiring_window: "expiring_batches_before collate st until s = filter (\<lambda>i. di_date i < until) (dated_stock collate st s)"
  by (simp add: expiring_batches_before_def dated_stock_def due_items filter_sort)

lemma build_digest_filters:
  "build_digest is today soon d =
     \<lparr>dg_expired = dg_expired d @ filter (\<lambda>i. item_urgency today i = UrgencyExpired) is,
      dg_critical = dg_critical d @ filter (\<lambda>i. item_urgency today i = UrgencyCritical) is,
      dg_soon = dg_soon d @ filter (\<lambda>i. soon \<and> item_urgency today i = UrgencySoon) is\<rparr>"
  by (induction "is" arbitrary: d) (auto split: urgency.splits)

lemma urgent_within: "item_urgency today i \<in> {UrgencyExpired, UrgencyCritical, UrgencySoon} \<longleftrightarrow> di_date i < calendar_day today + soon_within_days"
  by (auto simp: item_urgency_def classify_def Let_def critical_within_days_def soon_within_days_def)

text \<open>
  The digest of a storage reports exactly its dated stock by urgency: the query looks two weeks ahead and the
  buckets are cut by the classification of the dashboard, and the two agree, so that no batch that is expired,
  critical or, when asked for, soon is lost to the window and nothing else is reported.
\<close>

theorem digest_reports_exactly:
  "digest_for collate st soon now s =
     \<lparr>dg_expired = filter (\<lambda>i. item_urgency now i = UrgencyExpired) (dated_stock collate st s),
      dg_critical = filter (\<lambda>i. item_urgency now i = UrgencyCritical) (dated_stock collate st s),
      dg_soon = filter (\<lambda>i. soon \<and> item_urgency now i = UrgencySoon) (dated_stock collate st s)\<rparr>"
proof -
  have within: "di_date i < calendar_day now + soon_within_days" if "item_urgency now i \<in> {UrgencyExpired, UrgencyCritical, UrgencySoon}" for i
    using that urgent_within [of now i] by blast
  show ?thesis
    unfolding digest_for_def digest_of_def empty_digest_def build_digest_filters expiring_window filter_filter digest.simps append_Nil
    by (intro arg_cong3 [of _ _ _ _ _ _ digest.make, unfolded digest.make_def] filter_cong conjI refl) (auto intro: within)
qed

section \<open>Once a day\<close>

datatype notice_op = ClaimDue zoned | SaveNotice uuid notice_input | NoteResult uuid string | DropStorage uuid

fun run_notice_op :: "notice_op \<Rightarrow> db \<Rightarrow> db" where
  "run_notice_op (ClaimDue now) s = snd (in_tx (claim_due_notifications now (start_of_day now)) s)"
| "run_notice_op (SaveNotice st inp) s = snd (in_tx (save_notification_settings st inp) s)"
| "run_notice_op (NoteResult st result) s = snd (in_tx (record_notification_result st result) s)"
| "run_notice_op (DropStorage st) s = drop_storage st s"

definition claimed :: "zoned \<Rightarrow> db \<Rightarrow> uuid list" where
  "claimed now s = (case fst (in_tx (claim_due_notifications now (start_of_day now)) s) of Inl _ \<Rightarrow> [] | Inr due \<Rightarrow> keys due)"

lemma claim_run:
  "in_tx (claim_due_notifications now ds) s =
     (Inr (tbl_select (\<lambda>st _. st \<in> set (keys (tbl_select (\<lambda>_ n. notice_due now ds n) (notices s))))
        (tbl_map (\<lambda>_ n. notice_due now ds n) (\<lambda>n. n\<lparr>nt_last_run := Some (z_instant now)\<rparr>) (notices s))),
      s\<lparr>notices := tbl_map (\<lambda>_ n. notice_due now ds n) (\<lambda>n. n\<lparr>nt_last_run := Some (z_instant now)\<rparr>) (notices s)\<rparr>)"
  by (simp add: claim_due_notifications_def in_tx_def tx_defs)

lemma claimed_keys: "set (claimed now s) = set (keys (tbl_select (\<lambda>_ n. notice_due now (start_of_day now) n) (notices s)))"
  by (force simp: claimed_def claim_run tbl_select_def tbl_map_def)

lemma claimed_iff:
  "distinct (keys (notices s)) \<Longrightarrow>
   st \<in> set (claimed now s) \<longleftrightarrow> (\<exists>n. map_of (notices s) st = Some n \<and> notice_due now (start_of_day now) n)"
  by (force simp: claimed_keys tbl_select_def)

text \<open>A storage that has run since \<open>d\<close>, or is gone.\<close>

definition ran_since :: "instant \<Rightarrow> uuid \<Rightarrow> db \<Rightarrow> bool" where
  "ran_since d st s \<longleftrightarrow> distinct (keys (notices s)) \<and> (case map_of (notices s) st of
      Some n \<Rightarrow> \<exists>t. nt_last_run n = Some t \<and> d \<le> t
    | None \<Rightarrow> \<not> tbl_has st (storage_rows s))"

definition on_clock :: "instant \<Rightarrow> notice_op \<Rightarrow> bool" where
  "on_clock d op \<longleftrightarrow> (case op of ClaimDue z \<Rightarrow> d \<le> z_instant z | _ \<Rightarrow> True)"

lemma day_started: "start_of_day z \<le> z_instant z"
proof -
  have "day_of (z_instant z + z_offset z) * ns_per_day \<le> z_instant z + z_offset z"
    by (simp add: day_of_def ns_per_day_def)
  then show ?thesis by (simp add: start_of_day_def calendar_day_def)
qed

lemma save_run:
  assumes "save_notification_settings st inp s = Inr (r, s')"
  shows "tbl_has st (storage_rows s) \<and> storage_rows s' = storage_rows s
    \<and> (\<exists>f x. notices s' = (if tbl_has st (notices s) then tbl_upd st f (notices s) else tbl_ins st x (notices s))
        \<and> (\<forall>n. nt_last_run (f n) = nt_last_run n) \<and> nt_last_run x = None)"
proof -
  obtain kind where has: "tbl_has st (storage_rows s)"
    and run: "s' = (if tbl_has st (notices s)
         then s\<lparr>notices := tbl_upd st (\<lambda>n. n\<lparr>nt_enabled := ni_enabled inp, nt_kind := kind, nt_url := ni_url inp,
             nt_token := (if ni_token inp = None then nt_token n else nullif_empty (ni_token inp)),
             nt_hour := ni_hour inp, nt_soon := ni_soon inp, nt_updated := db_now s\<rparr>) (notices s)\<rparr>
         else s\<lparr>notices := tbl_ins st \<lparr>nt_enabled = ni_enabled inp, nt_kind = kind, nt_url = ni_url inp,
             nt_token = nullif_empty (ni_token inp), nt_hour = ni_hour inp, nt_soon = ni_soon inp,
             nt_last_run = None, nt_last_result = None, nt_updated = db_now s\<rparr> (notices s)\<rparr>)"
    using assms by (auto simp: save_notification_settings_def tx_iff)
  let ?f = "\<lambda>n. n\<lparr>nt_enabled := ni_enabled inp, nt_kind := kind, nt_url := ni_url inp,
             nt_token := (if ni_token inp = None then nt_token n else nullif_empty (ni_token inp)),
             nt_hour := ni_hour inp, nt_soon := ni_soon inp, nt_updated := db_now s\<rparr>"
  let ?x = "\<lparr>nt_enabled = ni_enabled inp, nt_kind = kind, nt_url = ni_url inp,
             nt_token = nullif_empty (ni_token inp), nt_hour = ni_hour inp, nt_soon = ni_soon inp,
             nt_last_run = None, nt_last_result = None, nt_updated = db_now s\<rparr>"
  have "notices s' = (if tbl_has st (notices s) then tbl_upd st ?f (notices s) else tbl_ins st ?x (notices s))
      \<and> (\<forall>n. nt_last_run (?f n) = nt_last_run n) \<and> nt_last_run ?x = None" "storage_rows s' = storage_rows s"
    by (simp_all add: run)
  with has show ?thesis by blast
qed

lemma ran_since_saved:
  assumes r: "ran_since d st s" and run: "save_notification_settings st' inp s = Inr (x, s')"
  shows "ran_since d st s'"
proof -
  obtain f n where has: "tbl_has st' (storage_rows s)" and rows: "storage_rows s' = storage_rows s"
    and new: "notices s' = (if tbl_has st' (notices s) then tbl_upd st' f (notices s) else tbl_ins st' n (notices s))"
    and f: "\<And>n. nt_last_run (f n) = nt_last_run n"
    using save_run [OF run] by blast
  show ?thesis
  proof (cases "tbl_has st' (notices s)")
    case True
    with r show ?thesis
      by (auto simp: ran_since_def new rows f simp del: map_of_eq_Some_iff split: option.splits)
  next
    case False
    then have "distinct (keys (notices s'))" using r by (simp add: ran_since_def new tbl_has_keys)
    with False r has show ?thesis
      by (cases "st = st'") (auto simp: ran_since_def new rows map_of_insert_fresh tbl_has_def simp del: map_of_eq_Some_iff split: option.splits)
  qed
qed

lemma in_tbl_del: "(k, r) \<in> set (tbl_del P t) \<longleftrightarrow> (k, r) \<in> set t \<and> \<not> P k r"
  by (auto simp: tbl_del_def)

lemma ran_since_kept: "ran_since d st s \<Longrightarrow> on_clock d op \<Longrightarrow> ran_since d st (run_notice_op op s)"
proof (cases op)
  case (ClaimDue now)
  then show "ran_since d st s \<Longrightarrow> on_clock d op \<Longrightarrow> ?thesis"
    by (auto simp: claim_run ran_since_def on_clock_def map_of_tbl_map simp del: map_of_eq_Some_iff split: option.splits)
next
  case (SaveNotice st' inp)
  then show "ran_since d st s \<Longrightarrow> on_clock d op \<Longrightarrow> ?thesis"
    using ran_since_saved by (auto simp: in_tx_def split: sum.split)
next
  case (NoteResult st' result)
  then show "ran_since d st s \<Longrightarrow> on_clock d op \<Longrightarrow> ?thesis"
    by (auto simp: record_notification_result_def in_tx_def tx_defs ran_since_def simp del: map_of_eq_Some_iff split: option.splits)
next
  case (DropStorage st')
  then show "ran_since d st s \<Longrightarrow> on_clock d op \<Longrightarrow> ?thesis"
    by (auto simp: drop_storage_def Let_def ran_since_def map_of_tbl_del distinct_keys_tbl_del tbl_has_keys
        in_tbl_del simp del: map_of_eq_Some_iff split: option.splits)
qed

lemma ran_since_history: "ran_since d st s \<Longrightarrow> list_all (on_clock d) ops \<Longrightarrow> ran_since d st (fold run_notice_op ops s)"
  by (induction ops arbitrary: s) (simp_all add: ran_since_kept)

text \<open>
  C19. No storage gets two digests on one day: once a run has claimed a storage, no later run of the same day
  claims it again, in any process and after any history of runs, edits of its settings, turning it off and
  on, recorded results and deletions, as long as no clock is set back before the start of that day.
\<close>

theorem digest_once_a_day:
  assumes d: "distinct (keys (notices s))" and first: "st \<in> set (claimed now s)"
    and clock: "list_all (on_clock (start_of_day now)) ops" and day: "start_of_day later = start_of_day now"
  shows "st \<notin> set (claimed later (fold run_notice_op ops (run_notice_op (ClaimDue now) s)))"
proof -
  let ?s = "fold run_notice_op ops (run_notice_op (ClaimDue now) s)"
  have "ran_since (start_of_day now) st (run_notice_op (ClaimDue now) s)"
    using first d by (auto simp: claimed_iff [OF d] ran_since_def claim_run map_of_tbl_map day_started)
  then have r: "ran_since (start_of_day now) st ?s" by (rule ran_since_history [OF _ clock])
  then have "distinct (keys (notices ?s))" by (simp add: ran_since_def)
  with r show ?thesis by (auto simp: claimed_iff ran_since_def notice_due_def day)
qed

definition digest_day :: db where
  "digest_day = demo_db\<lparr>notices := [(2, \<lparr>nt_enabled = True, nt_kind = NotificationNtfy, nt_url = ''http://n'', nt_token = None,
     nt_hour = 8, nt_soon = False, nt_last_run = None, nt_last_result = None, nt_updated = 0\<rparr>)]\<rparr>"

definition at_hour :: "int \<Rightarrow> int \<Rightarrow> zoned" where
  "at_hour h minute = \<lparr>z_instant = 20000 * ns_per_day + (h * 60 + minute) * 60000000000, z_offset = 0\<rparr>"

theorem digest_once_a_day_witness:
  "claimed (at_hour 8 0) digest_day = [2]
   \<and> 2 \<notin> set (claimed (at_hour 8 30) (fold run_notice_op [NoteResult 2 ''sent'', ClaimDue (at_hour 8 10),
        SaveNotice 2 \<lparr>ni_enabled = True, ni_kind = Some NotificationWebhook, ni_url = ''http://m'', ni_token = None, ni_hour = 8, ni_soon = True\<rparr>]
        (run_notice_op (ClaimDue (at_hour 8 0)) digest_day)))"
proof -
  have first: "claimed (at_hour 8 0) digest_day = [2]" by code_simp
  have "distinct (keys (notices digest_day))" by (simp add: digest_day_def)
  moreover have "2 \<in> set (claimed (at_hour 8 0) digest_day)" by (simp add: first)
  moreover have "list_all (on_clock (start_of_day (at_hour 8 0))) [NoteResult 2 ''sent'', ClaimDue (at_hour 8 10),
        SaveNotice 2 \<lparr>ni_enabled = True, ni_kind = Some NotificationWebhook, ni_url = ''http://m'', ni_token = None, ni_hour = 8, ni_soon = True\<rparr>]"
    and "start_of_day (at_hour 8 30) = start_of_day (at_hour 8 0)" by code_simp+
  ultimately show ?thesis using first digest_once_a_day by blast
qed

end
