(* ===== verification/Paging.thy ===== *)
theory Paging
  imports Handlers
begin

text \<open>
  Lists that come in pages: the request for a page and its cursor (\<open>httpapi/pagination.go\<close>), the endpoints of
  the inbox (\<open>httpapi/jobs.go\<close>) and the pages of the admin trail (\<open>store/audit.go\<close>). A cursor is opaque text
  that names the last row of a page; the theory shows that it reads back and that following cursors reads
  every row exactly once.
\<close>

section \<open>Base64 without padding, URL alphabet\<close>

text \<open>Three bytes are four digits; one or two left-over bytes are two or three.\<close>

fun b64_digits :: "nat list \<Rightarrow> nat list" where
  "b64_digits [] = []"
| "b64_digits [a] = [a div 4, a mod 4 * 16]"
| "b64_digits [a, b] = [a div 4, a mod 4 * 16 + b div 16, b mod 16 * 4]"
| "b64_digits (a # b # c # bs) =
     a div 4 # (a mod 4 * 16 + b div 16) # (b mod 16 * 4 + c div 64) # (c mod 64) # b64_digits bs"

fun b64_bytes :: "nat list \<Rightarrow> nat list option" where
  "b64_bytes [] = Some []"
| "b64_bytes [w] = None"
| "b64_bytes [w, x] = Some [w * 4 + x div 16]"
| "b64_bytes [w, x, y] = Some [w * 4 + x div 16, x mod 16 * 16 + y div 4]"
| "b64_bytes (w # x # y # z # ds) = map_option
     (\<lambda>bs. (w * 4 + x div 16) # (x mod 16 * 16 + y div 4) # (y mod 4 * 64 + z) # bs) (b64_bytes ds)"

definition b64_char :: "nat \<Rightarrow> char" where
  "b64_char d = char_of (if d < 26 then 65 + d else if d < 52 then 71 + d else if d < 62 then d - 4 else if d = 62 then 45 else 95)"

definition b64_value :: "char \<Rightarrow> nat option" where
  "b64_value c = (let n = (of_char c :: nat) in
     if 65 \<le> n \<and> n \<le> 90 then Some (n - 65) else if 97 \<le> n \<and> n \<le> 122 then Some (n - 71)
     else if 48 \<le> n \<and> n \<le> 57 then Some (n + 4) else if n = 45 then Some 62 else if n = 95 then Some 63 else None)"

definition encode_raw_url :: "nat list \<Rightarrow> string" where
  "encode_raw_url bs = map b64_char (b64_digits bs)"

text \<open>The decoder skips line breaks.\<close>

definition decode_raw_url :: "string \<Rightarrow> nat list option" where
  "decode_raw_url t = (case those (map b64_value (filter (\<lambda>c. c \<noteq> CHR 0x0A \<and> c \<noteq> CHR 0x0D) t)) of
     None \<Rightarrow> None | Some ds \<Rightarrow> b64_bytes ds)"

lemma digit_bounds:
  fixes a b c :: nat
  shows "a < 256 \<Longrightarrow> a div 4 < 64" "b < 256 \<Longrightarrow> a mod 4 * 16 + b div 16 < 64" "c < 256 \<Longrightarrow> b mod 16 * 4 + c div 64 < 64"
    "a mod 4 * 16 < 64" "b mod 16 * 4 < 64" "c mod 64 < 64"
proof -
  have m: "a mod 4 < 4" "b mod 16 < 16" "c mod 64 < 64" by simp_all
  show "a < 256 \<Longrightarrow> a div 4 < 64" by (simp add: less_mult_imp_div_less)
  show "a mod 4 * 16 + b div 16 < 64" if "b < 256"
    using that m(1) less_mult_imp_div_less [of b 16 16] by linarith
  show "b mod 16 * 4 + c div 64 < 64" if "c < 256"
    using that m(2) less_mult_imp_div_less [of c 4 64] by linarith
  show "a mod 4 * 16 < 64" "b mod 16 * 4 < 64" "c mod 64 < 64" using m by linarith+
qed

lemma b64_digits_small: "list_all (\<lambda>b. b < 256) bs \<Longrightarrow> list_all (\<lambda>d. d < 64) (b64_digits bs)"
  by (induction bs rule: b64_digits.induct) (simp_all only: b64_digits.simps list.pred_inject digit_bounds simp_thms)

lemma digits_join:
  fixes x y :: nat
  assumes "y < k" "0 < k"
  shows "(x * k + y) div k = x" "(x * k + y) mod k = y"
  using assms by simp_all

lemma join_bytes:
  fixes a b c :: nat
  shows "b < 256 \<Longrightarrow> a div 4 * 4 + (a mod 4 * 16 + b div 16) div 16 = a"
    "b < 256 \<Longrightarrow> c < 256 \<Longrightarrow> (a mod 4 * 16 + b div 16) mod 16 * 16 + (b mod 16 * 4 + c div 64) div 4 = b"
    "c < 256 \<Longrightarrow> (b mod 16 * 4 + c div 64) mod 4 * 64 + c mod 64 = c"
    "a div 4 * 4 + a mod 4 * 16 div 16 = a"
    "b < 256 \<Longrightarrow> (a mod 4 * 16 + b div 16) mod 16 * 16 + b mod 16 * 4 div 4 = b"
proof -
  have b: "b div 16 < 16" if "b < 256" using that by (simp add: less_mult_imp_div_less)
  have c: "c div 64 < 4" if "c < 256" using that by (simp add: less_mult_imp_div_less)
  have four: "(0 :: nat) < 4" "(0 :: nat) < 16" by simp_all
  note jb = digits_join [OF b four(2)] and jc = digits_join [OF c four(1)]
  show "b < 256 \<Longrightarrow> a div 4 * 4 + (a mod 4 * 16 + b div 16) div 16 = a" by (simp only: jb div_mult_mod_eq)
  show "b < 256 \<Longrightarrow> c < 256 \<Longrightarrow> (a mod 4 * 16 + b div 16) mod 16 * 16 + (b mod 16 * 4 + c div 64) div 4 = b"
    by (simp only: jb jc div_mult_mod_eq)
  show "c < 256 \<Longrightarrow> (b mod 16 * 4 + c div 64) mod 4 * 64 + c mod 64 = c" by (simp only: jc div_mult_mod_eq)
  have "a mod 4 * 16 div 16 = a mod 4" "b mod 16 * 4 div 4 = b mod 16" by simp_all
  then show "a div 4 * 4 + a mod 4 * 16 div 16 = a"
    and "b < 256 \<Longrightarrow> (a mod 4 * 16 + b div 16) mod 16 * 16 + b mod 16 * 4 div 4 = b"
    by (simp_all only: jb div_mult_mod_eq)
qed

lemma b64_bytes_digits: "list_all (\<lambda>b. b < 256) bs \<Longrightarrow> b64_bytes (b64_digits bs) = Some bs"
proof (induction bs rule: b64_digits.induct)
  case (4 a b c bs)
  then have ih: "b64_bytes (b64_digits bs) = Some bs" and bc: "b < 256" "c < 256" by simp_all
  show ?case
    unfolding b64_digits.simps b64_bytes.simps ih option.map join_bytes(1) [OF bc(1)] join_bytes(2) [OF bc] join_bytes(3) [OF bc(2)]
    by (rule refl)
next
  case (3 a b)
  then have b: "b < 256" by simp
  show ?case unfolding b64_digits.simps b64_bytes.simps join_bytes(1) [OF b] join_bytes(5) [OF b] by (rule refl)
next
  case (2 a)
  show ?case unfolding b64_digits.simps b64_bytes.simps join_bytes(4) by (rule refl)
qed simp

lemma b64_value_char:
  assumes d: "d < 64"
  shows "b64_value (b64_char d) = Some d \<and> b64_char d \<noteq> CHR 0x0A \<and> b64_char d \<noteq> CHR 0x0D"
proof -
  let ?n = "if d < 26 then 65 + d else if d < 52 then 71 + d else if d < 62 then d - 4 else if d = 62 then 45 else 95"
  have n: "of_char (b64_char d) = ?n" using d by (simp add: b64_char_def)
  have v: "b64_value (b64_char d) = Some d" using d unfolding b64_value_def Let_def n by (simp split: if_split) linarith
  have "b64_value (CHR 0x0A) = None" "b64_value (CHR 0x0D) = None" by (simp_all add: b64_value_def Let_def)
  with v show ?thesis by (metis option.distinct(1))
qed

lemma decode_encode:
  assumes "list_all (\<lambda>b. b < 256) bs"
  shows "decode_raw_url (encode_raw_url bs) = Some bs"
proof -
  have small: "list_all (\<lambda>d. d < 64) (b64_digits bs)" using assms by (rule b64_digits_small)
  then have "filter (\<lambda>c. c \<noteq> CHR 0x0A \<and> c \<noteq> CHR 0x0D) (map b64_char (b64_digits bs)) = map b64_char (b64_digits bs)"
    by (auto simp: filter_id_conv list_all_iff b64_value_char)
  moreover have "those (map (b64_value \<circ> b64_char) ds) = Some ds" if "list_all (\<lambda>d. d < 64) ds" for ds
    using that by (induction ds) (simp_all add: b64_value_char)
  ultimately show ?thesis
    using small b64_bytes_digits [OF assms] by (simp add: decode_raw_url_def encode_raw_url_def)
qed

section \<open>Numbers\<close>

definition is_digit :: "char \<Rightarrow> bool" where
  "is_digit c \<longleftrightarrow> 48 \<le> (of_char c :: nat) \<and> (of_char c :: nat) \<le> 57"

definition digits_value :: "string \<Rightarrow> nat" where
  "digits_value t = foldl (\<lambda>n c. n * 10 + (of_char c - 48)) 0 t"

text \<open>\<open>strconv.ParseInt\<close> to base ten and 64 bits, which is also \<open>Atoi\<close> on the platforms the server runs on.\<close>

definition parse_int64 :: "string \<Rightarrow> int option" where
  "parse_int64 t =
     (let (neg, ds) = (case t of [] \<Rightarrow> (False, [])
          | c # cs \<Rightarrow> if c = CHR ''-'' then (True, cs) else if c = CHR ''+'' then (False, cs) else (False, t)) in
      if ds = [] \<or> \<not> list_all is_digit ds then None
      else let n = (if neg then - int (digits_value ds) else int (digits_value ds)) in
        if - (2 ^ 63) \<le> n \<and> n < 2 ^ 63 then Some n else None)"

lemma nat_text_digits: "list_all is_digit (nat_text n) \<and> nat_text n \<noteq> [] \<and> digits_value (nat_text n) = n"
proof (induction n rule: nat_text.induct)
  case (1 n)
  have digit: "is_digit (char_of (48 + k))" "of_char (char_of (48 + k) :: char) = 48 + k" if "k < 10" for k :: nat
    using that by (simp_all add: is_digit_def)
  show ?case
  proof (cases "n < 10")
    case True
    then show ?thesis by (subst (1 2 3) nat_text.simps) (simp add: digit digits_value_def)
  next
    case False
    with 1 have "list_all is_digit (nat_text (n div 10))" "digits_value (nat_text (n div 10)) = n div 10" by auto
    then show ?thesis using False by (subst (1 2 3) nat_text.simps) (simp add: digit digits_value_def)
  qed
qed

lemma nat_text_head: "nat_text n = c # cs \<Longrightarrow> c \<noteq> CHR ''-'' \<and> c \<noteq> CHR ''+''"
  using nat_text_digits [of n] by (auto simp: is_digit_def)

lemma parse_int_text: "- (2 ^ 63) \<le> n \<Longrightarrow> n < 2 ^ 63 \<Longrightarrow> parse_int64 (int_text n) = Some n"
proof (cases "n < 0")
  case True
  then show "- (2 ^ 63) \<le> n \<Longrightarrow> n < 2 ^ 63 \<Longrightarrow> ?thesis"
    using nat_text_digits [of "nat (- n)"] by (simp add: parse_int64_def int_text_def Let_def)
next
  case False
  obtain c cs where t: "nat_text (nat n) = c # cs" using nat_text_digits [of "nat n"] by (cases "nat_text (nat n)") auto
  with False show "- (2 ^ 63) \<le> n \<Longrightarrow> n < 2 ^ 63 \<Longrightarrow> ?thesis"
    using nat_text_digits [of "nat n"] nat_text_head [OF t] by (simp add: parse_int64_def int_text_def Let_def)
qed

section \<open>Cursors\<close>

text \<open>The sixteen bytes of a UUID, most significant first.\<close>

fun be_bytes :: "nat \<Rightarrow> nat \<Rightarrow> nat list" where
  "be_bytes 0 n = []"
| "be_bytes (Suc k) n = be_bytes k (n div 256) @ [n mod 256]"

definition from_be :: "nat list \<Rightarrow> nat" where
  "from_be bs = foldl (\<lambda>n b. n * 256 + b) 0 bs"

definition encode_cursor :: "uuid \<Rightarrow> string" where
  "encode_cursor i = encode_raw_url (be_bytes 16 i)"

definition decode_cursor :: "string \<Rightarrow> uuid option" where
  "decode_cursor raw = (case decode_raw_url raw of
      None \<Rightarrow> None | Some bs \<Rightarrow> if length bs \<noteq> 16 then None else Some (from_be bs))"

text \<open>What is a UUID, as a number.\<close>

definition uuid_range :: "uuid \<Rightarrow> bool" where
  "uuid_range i \<longleftrightarrow> i < 256 ^ 16"

lemma be_bytes_small: "list_all (\<lambda>b. b < 256) (be_bytes k n) \<and> length (be_bytes k n) = k"
  by (induction k arbitrary: n) auto

lemma from_be_bytes: "n < 256 ^ k \<Longrightarrow> from_be (be_bytes k n) = n"
proof (induction k arbitrary: n)
  case (Suc k)
  then have "n div 256 < 256 ^ k" by (simp add: less_mult_imp_div_less mult.commute)
  with Suc.IH show ?case by (simp add: from_be_def)
qed (simp add: from_be_def)

lemma cursor_roundtrip: "uuid_range i \<Longrightarrow> decode_cursor (encode_cursor i) = Some i"
  using be_bytes_small [of 16 i]
  by (simp add: encode_cursor_def decode_cursor_def decode_encode from_be_bytes uuid_range_def del: be_bytes.simps)

section \<open>A page\<close>

definition default_page_limit :: int where "default_page_limit = 50"
definition max_page_limit :: int where "max_page_limit = 200"

record page_request =
  pg_limit :: int
  pg_after :: "uuid option"

text \<open>The raw query parameters, empty when absent.\<close>

definition read_page :: "string \<Rightarrow> string \<Rightarrow> failure + page_request" where
  "read_page limit cursor =
     (let bad_limit = Inl (validation_failed [(''limit'', [''Must be a positive whole number.''])]) in
      case (if limit = [] then Inr default_page_limit
            else case parse_int64 limit of None \<Rightarrow> bad_limit
              | Some n \<Rightarrow> if n < 1 then bad_limit else Inr (min n max_page_limit)) of
        Inl f \<Rightarrow> Inl f
      | Inr n \<Rightarrow>
          if cursor = [] then Inr \<lparr>pg_limit = n, pg_after = None\<rparr>
          else case decode_cursor cursor of
              None \<Rightarrow> Inl (validation_failed [(''cursor'', [''Not a cursor from a previous page.''])])
            | Some i \<Rightarrow> Inr \<lparr>pg_limit = n, pg_after = Some i\<rparr>)"

definition page_of :: "('a \<Rightarrow> string) \<Rightarrow> nat \<Rightarrow> 'a list \<Rightarrow> 'a list \<times> string option" where
  "page_of cursor_of limit rows =
     (if length rows \<le> limit then (rows, None)
      else (take limit rows, Some (cursor_of (last (take limit rows)))))"

section \<open>The inbox\<close>

record job_summary =
  js_id :: uuid
  js_kind :: job_kind
  js_status :: job_status
  js_items :: "nat option"
  js_image :: bool
  js_error :: "string option"
  js_created :: instant
  js_updated :: instant

definition count_payload_rows :: "proposal_row list option \<Rightarrow> nat option" where
  "count_payload_rows p = map_option length p"

definition job_summary_of :: "uuid \<times> job \<Rightarrow> job_summary" where
  "job_summary_of x = (case x of (i, j) \<Rightarrow> \<lparr>js_id = i, js_kind = jb_kind j, js_status = jb_status j,
     js_items = count_payload_rows (jb_payload j), js_image = (jb_image j \<noteq> None), js_error = jb_error j,
     js_created = jb_created j, js_updated = jb_updated j\<rparr>)"

definition inbox_statuses :: "job_status list" where
  "inbox_statuses = [JobPending, JobDone, JobFailed]"

definition job_status_of :: "string \<Rightarrow> job_status option" where
  "job_status_of t = (if t = ''pending'' then Some JobPending else if t = ''done'' then Some JobDone
     else if t = ''failed'' then Some JobFailed else if t = ''consumed'' then Some JobConsumed else None)"

lemma job_status_of_valid: "job_status_valid t \<longleftrightarrow> job_status_of t \<noteq> None"
  by (simp add: job_status_valid_def job_status_of_def)

definition read_statuses :: "string \<Rightarrow> failure + job_status list" where
  "read_statuses raw = (if raw = [] then Inr inbox_statuses
     else case those (map (job_status_of \<circ> trim_space) (split_at_char (CHR '','') raw)) of
         None \<Rightarrow> Inl (validation_failed [(''status'', [''Must be pending, done, failed or consumed.''])])
       | Some sts \<Rightarrow> Inr sts)"

definition job_list :: "http_context \<Rightarrow> string \<Rightarrow> string \<Rightarrow> string \<Rightarrow> (job_summary list \<times> string option) handler" where
  "job_list cx limit cursor status =
     with_storage cx (\<lambda>st. case read_page limit cursor of
         Inl f \<Rightarrow> refuse f
       | Inr page \<Rightarrow> (case read_statuses status of
             Inl f \<Rightarrow> refuse f
           | Inr statuses \<Rightarrow>
               call (list_jobs st statuses (pg_after page) (nat (pg_limit page + 1)))
                 (\<lambda>e. from_store_error e ''list jobs'')
                 (\<lambda>js. answer_with 200 (page_of (encode_cursor \<circ> js_id) (nat (pg_limit page)) (map job_summary_of js)))))"

record job_view =
  jv_summary :: job_summary
  jv_payload :: "proposal_row list option"
  jv_background :: bool

text \<open>Whether the background of a photo can be removed is for the configured model to say.\<close>

definition offers_background_removal :: "bool \<Rightarrow> job \<Rightarrow> bool" where
  "offers_background_removal available j \<longleftrightarrow>
     (if jb_status j \<noteq> JobDone \<or> jb_image j = None then False
      else if jb_kind j \<noteq> JobShelfIngestion \<and> jb_kind j \<noteq> JobProductPhoto then False
      else available)"

definition job_get :: "bool \<Rightarrow> http_context \<Rightarrow> uuid option \<Rightarrow> job_view handler" where
  "job_get available cx raw =
     with_storage cx (\<lambda>st. id_from_path raw ''malformed job id'' (\<lambda>i.
       call (job_in_storage st i) (\<lambda>e. from_store_error e ''job not found in storage'')
         (\<lambda>j. answer_with 200 \<lparr>jv_summary = job_summary_of j, jv_payload = jb_payload (snd j),
            jv_background = offers_background_removal available (snd j)\<rparr>)))"

text \<open>The photo and the cutouts of the job are removed from disk afterwards, which no answer depends on.\<close>

definition job_delete :: "http_context \<Rightarrow> uuid option \<Rightarrow> unit handler" where
  "job_delete cx raw =
     with_storage cx (\<lambda>st. id_from_path raw ''malformed job id'' (\<lambda>i.
       call (delete_job st i) (\<lambda>e. from_store_error e ''job not found in storage'') (\<lambda>_. answer_with 204 ())))"

definition job_discard_all :: "http_context \<Rightarrow> instant raw \<Rightarrow> nat handler" where
  "job_discard_all cx up_to =
     with_storage cx (\<lambda>st. case up_to of
         Value t \<Rightarrow> call (discard_jobs st t) (\<lambda>e. from_store_error e ''discard jobs'') (\<lambda>gone. answer_with 200 (length gone))
       | _ \<Rightarrow> refuse (validation_failed [(''up_to'', [''Required. Must be an RFC 3339 timestamp, e.g. 2026-09-21T14:30:00Z.''])]))"

section \<open>The admin trail\<close>

text \<open>How the UUID library writes and reads an id.\<close>

record uuid_codec =
  uc_text :: "uuid \<Rightarrow> string"
  uc_parse :: "string \<Rightarrow> uuid option"

definition string_bytes :: "string \<Rightarrow> nat list" where
  "string_bytes t = map of_char t"

definition bytes_string :: "nat list \<Rightarrow> string" where
  "bytes_string bs = map char_of bs"

definition encode_audit_cursor :: "uuid_codec \<Rightarrow> instant \<Rightarrow> uuid \<Rightarrow> string" where
  "encode_audit_cursor uc t i = encode_raw_url (string_bytes (int_text t @ CHR ''.'' # uc_text uc i))"

text \<open>\<open>strings.Cut\<close> at the first dot.\<close>

fun cut_dot :: "string \<Rightarrow> (string \<times> string) option" where
  "cut_dot [] = None"
| "cut_dot (c # cs) = (if c = CHR ''.'' then Some ([], cs) else map_option (\<lambda>(a, b). (c # a, b)) (cut_dot cs))"

text \<open>Nothing is a malformed cursor; an empty one is the first page.\<close>

definition decode_audit_cursor :: "uuid_codec \<Rightarrow> string \<Rightarrow> (instant \<times> uuid) option option" where
  "decode_audit_cursor uc raw =
     (if raw = [] then Some None
      else case decode_raw_url raw of None \<Rightarrow> None
        | Some bs \<Rightarrow> (case cut_dot (bytes_string bs) of None \<Rightarrow> None
            | Some (nanos, text) \<Rightarrow> (case parse_int64 nanos of None \<Rightarrow> None
                | Some t \<Rightarrow> (case uc_parse uc text of None \<Rightarrow> None | Some i \<Rightarrow> Some (Some (t, i))))))"

record audit_entry =
  ae_id :: uuid
  ae_actor :: string
  ae_action :: admin_action
  ae_target :: "audit_target option"
  ae_details :: audit_details
  ae_at :: instant

definition audit_entry_of :: "db \<Rightarrow> uuid \<times> audit_row \<Rightarrow> audit_entry" where
  "audit_entry_of s x = (case x of (i, a) \<Rightarrow> \<lparr>ae_id = i,
     ae_actor = (case au_actor a of None \<Rightarrow> [] | Some u \<Rightarrow> (case map_of (accounts s) u of None \<Rightarrow> [] | Some ac \<Rightarrow> ac_username ac)),
     ae_action = au_action a, ae_target = au_target a, ae_details = au_details a, ae_at = au_at a\<rparr>)"

definition audit_page_size :: nat where "audit_page_size = 50"

text \<open>Newest first: ascending in the negated pair of instant and id.\<close>

definition audit_key :: "uuid \<times> audit_row \<Rightarrow> int \<times> int" where
  "audit_key x = (- au_at (snd x), - int (fst x))"

definition list_admin_audit :: "uuid_codec \<Rightarrow> string \<Rightarrow> int \<Rightarrow> (audit_entry list \<times> string option) dbtx" where
  "list_admin_audit uc cursor limit =
     (let n = (if limit < 1 then audit_page_size else nat limit) in
      case decode_audit_cursor uc cursor of
        None \<Rightarrow> fail_tx ErrValidation
      | Some before \<Rightarrow> get_tx (\<lambda>s. page_of (\<lambda>e. encode_audit_cursor uc (ae_at e) (ae_id e)) n (map (audit_entry_of s)
          (take (n + 1) (sort_key audit_key (tbl_select (\<lambda>i a. case before of None \<Rightarrow> True
             | Some (t, k) \<Rightarrow> au_at a < t \<or> au_at a = t \<and> i < k) (audits s)))))))"

section \<open>Following the cursors\<close>

text \<open>What a client reads by asking for the first page and then for each next one.\<close>

fun read_pages :: "nat \<Rightarrow> (string \<Rightarrow> 'a list \<times> string option) \<Rightarrow> string \<Rightarrow> 'a list" where
  "read_pages 0 fetch c = []"
| "read_pages (Suc n) fetch c = (case fetch c of (items, next) \<Rightarrow>
     items @ (case next of None \<Rightarrow> [] | Some c' \<Rightarrow> read_pages n fetch c'))"

lemma pages_all:
  assumes step: "\<And>pre x suf. rows = pre @ x # suf \<Longrightarrow> fetch (cur (view x)) = page_of cur limit (map view (take (Suc limit) suf))"
    and limit: "1 \<le> limit"
  shows "rows = pre @ suf \<Longrightarrow> fetch c = page_of cur limit (map view (take (Suc limit) suf)) \<Longrightarrow> length suf < fuel \<Longrightarrow>
    read_pages fuel fetch c = map view suf"
proof (induction fuel arbitrary: pre suf c)
  case (Suc fuel)
  show ?case
  proof (cases "length suf \<le> limit")
    case True
    then show ?thesis by (simp add: Suc.prems(2) page_of_def)
  next
    case False
    then obtain ys x where yx: "take limit suf = ys @ [x]"
      using limit by (cases "take limit suf" rule: rev_cases) auto
    let ?rest = "drop limit suf"
    have suf: "suf = ys @ x # ?rest" using append_take_drop_id [of limit suf] unfolding yx by simp
    then have rows: "rows = (pre @ ys) @ x # ?rest" using Suc.prems(1) by simp
    have "length ?rest < fuel" using Suc.prems(3) False limit by simp
    then have rest: "read_pages fuel fetch (cur (view x)) = map view ?rest"
      using Suc.IH [of "pre @ ys @ [x]" ?rest] step [OF rows] rows by simp
    have "take limit (take (Suc limit) suf) = ys @ [x]" using yx by (simp add: min_def)
    then have "fetch c = (map view (ys @ [x]), Some (cur (view x)))"
      using False by (simp add: Suc.prems(2) page_of_def take_map)
    then have "read_pages (Suc fuel) fetch c = map view (ys @ [x]) @ map view ?rest" by (simp add: rest)
    also have "\<dots> = map view suf" using arg_cong [OF suf, of "map view"] by simp
    finally show ?thesis .
  qed
qed simp

text \<open>In a strictly sorted list, what is beyond an element is what follows it.\<close>

lemma filter_beyond:
  fixes key :: "'r \<Rightarrow> 'k :: linorder"
  assumes "sorted_wrt (<) (map key (pre @ x # suf))"
  shows "filter (\<lambda>y. key x < key y) (pre @ x # suf) = suf"
proof -
  have "\<forall>y \<in> set pre. key y < key x" "\<forall>y \<in> set suf. key x < key y" using assms by (auto simp: sorted_wrt_append)
  then show ?thesis by (auto simp: filter_empty_conv filter_id_conv dest: order.asym)
qed

lemma strictly_sorted_key:
  fixes key :: "'r \<Rightarrow> 'k :: linorder"
  assumes "distinct (map key xs)"
  shows "sorted_wrt (<) (map key (sort_key key xs))"
proof -
  have "mset (map key (sort_key key xs)) = mset (map key xs)" by (metis mset_map mset_sort)
  then have "distinct (map key (sort_key key xs))" using assms mset_eq_imp_distinct_iff by blast
  then show ?thesis by (simp add: strict_sorted_iff)
qed

section \<open>The inbox, page by page\<close>

definition inbox_page :: "http_context \<Rightarrow> string \<Rightarrow> string \<Rightarrow> db \<Rightarrow> string \<Rightarrow> job_summary list \<times> string option" where
  "inbox_page cx limit status s cursor = (case fst (job_list cx limit cursor status s) of Inr (_, page) \<Rightarrow> page | Inl _ \<Rightarrow> ([], None))"

definition inbox_rows :: "uuid \<Rightarrow> job_status list \<Rightarrow> db \<Rightarrow> (uuid \<times> job) list" where
  "inbox_rows st statuses s = sort_key (\<lambda>(i, j). - int i) (tbl_select (\<lambda>_ j. jb_storage j = st \<and> jb_status j \<in> set statuses) (jobs s))"

lemma read_statuses_some: "read_statuses raw = Inr sts \<Longrightarrow> sts \<noteq> []"
proof -
  have "split_at_char c t \<noteq> []" for c t by (induction t) (auto split: list.splits)
  then show "read_statuses raw = Inr sts \<Longrightarrow> sts \<noteq> []"
    by (cases "split_at_char (CHR '','') raw") (auto simp: read_statuses_def inbox_statuses_def split: if_splits option.splits)
qed

lemma read_page_cursor:
  assumes "read_page limit [] = Inr p" and "uuid_range i"
  shows "1 \<le> pg_limit p \<and> pg_after p = None \<and> read_page limit (encode_cursor i) = Inr (p\<lparr>pg_after := Some i\<rparr>)"
proof -
  have "encode_cursor i \<noteq> []" using cursor_roundtrip [OF assms(2)] by (auto simp: decode_cursor_def decode_raw_url_def)
  with assms cursor_roundtrip [OF assms(2)] show ?thesis
    by (auto simp: read_page_def Let_def default_page_limit_def max_page_limit_def split: if_splits option.splits)
qed

lemma inbox_after:
  "sort_key (\<lambda>(i, j). - int i) (tbl_select (\<lambda>i j. jb_storage j = st \<and> jb_status j \<in> set statuses
     \<and> (case bound of None \<Rightarrow> True | Some a \<Rightarrow> i < a)) (jobs s))
   = filter (\<lambda>(i, _). case bound of None \<Rightarrow> True | Some a \<Rightarrow> i < a) (inbox_rows st statuses s)"
proof -
  have "tbl_select (\<lambda>i j. jb_storage j = st \<and> jb_status j \<in> set statuses \<and> (case bound of None \<Rightarrow> True | Some a \<Rightarrow> i < a)) (jobs s)
    = filter (\<lambda>(i, _). case bound of None \<Rightarrow> True | Some a \<Rightarrow> i < a) (tbl_select (\<lambda>_ j. jb_storage j = st \<and> jb_status j \<in> set statuses) (jobs s))"
    by (simp add: tbl_select_def case_prod_unfold conj_ac)
  then show ?thesis by (simp add: inbox_rows_def filter_sort)
qed

text \<open>
  C18. Reading the inbox page by page, with any valid page size and status filter, and following every cursor to
  the end, yields each job of the storage with one of the statuses exactly once, newest id first; the
  cursor a page hands out is always accepted by the next request.
\<close>

theorem inbox_pages_read_all:
  assumes storage: "cx_storage cx = Some st" and d: "distinct (keys (jobs s))" and ids: "list_all uuid_range (keys (jobs s))"
    and limit: "read_page limit [] = Inr p" and statuses: "read_statuses status = Inr sts"
  shows "read_pages (Suc (length (jobs s))) (inbox_page cx limit status s) [] = map job_summary_of (inbox_rows st sts s)"
proof -
  let ?rows = "inbox_rows st sts s" and ?n = "nat (pg_limit p)"
  let ?key = "\<lambda>(i :: uuid, j :: job). - int i"
  have page: "inbox_page cx limit status s c = page_of (encode_cursor \<circ> js_id) ?n
      (map job_summary_of (take (Suc ?n) (filter (\<lambda>(i, _). case bound of None \<Rightarrow> True | Some a \<Rightarrow> i < a) ?rows)))"
    if "read_page limit c = Inr (p\<lparr>pg_after := bound\<rparr>)" and "1 \<le> pg_limit p" for c bound
  proof -
    have n: "nat (pg_limit p + 1) = Suc ?n" using that(2) by simp
    have "list_jobs st sts bound (Suc ?n) s = Inr (take (Suc ?n) (filter (\<lambda>(i, _). case bound of None \<Rightarrow> True | Some a \<Rightarrow> i < a) ?rows), s)"
      using read_statuses_some [OF statuses] by (simp add: list_jobs_def get_tx_def inbox_after)
    then show ?thesis
      by (simp add: inbox_page_def job_list_def with_storage_def storage that(1) statuses call_def n answer_with_def)
  qed
  have "read_page limit (encode_cursor 0) = Inr (p\<lparr>pg_after := Some 0\<rparr>)" and one: "1 \<le> pg_limit p" and none: "pg_after p = None"
    using read_page_cursor [OF limit, of 0] by (simp_all add: uuid_range_def)
  have "inj_on ?key (set (tbl_select (\<lambda>_ j. jb_storage j = st \<and> jb_status j \<in> set sts) (jobs s)))"
    using d by (auto simp: inj_on_def tbl_select_def) (metis map_of_is_SomeI option.inject)
  moreover have "distinct (tbl_select (\<lambda>_ j. jb_storage j = st \<and> jb_status j \<in> set sts) (jobs s))"
    using d by (simp add: tbl_select_def distinct_map)
  ultimately have sorted: "sorted_wrt (<) (map ?key ?rows)"
    unfolding inbox_rows_def by (intro strictly_sorted_key) (simp add: distinct_map)
  have step: "inbox_page cx limit status s ((encode_cursor \<circ> js_id) (job_summary_of x))
      = page_of (encode_cursor \<circ> js_id) ?n (map job_summary_of (take (Suc ?n) suf))" if rows: "?rows = pre @ x # suf" for pre x suf
  proof -
    obtain i j where x: "x = (i, j)" by (cases x)
    have "(i, j) \<in> set ?rows" using rows x by simp
    then have "(i, j) \<in> set (jobs s)" by (simp add: inbox_rows_def tbl_select_def)
    then have i: "uuid_range i" using ids by (force simp: list_all_iff)
    have "filter (\<lambda>(k, _). k < i) ?rows = filter (\<lambda>y. ?key x < ?key y) ?rows" by (rule filter_cong) (auto simp: x)
    also have "\<dots> = suf" using filter_beyond [of ?key pre x suf] sorted unfolding rows by simp
    finally have "filter (\<lambda>(k, _). k < i) ?rows = suf" .
    with page [of "encode_cursor i" "Some i"] read_page_cursor [OF limit i] show ?thesis by (simp add: x job_summary_of_def)
  qed
  have small: "length ?rows < Suc (length (jobs s))" by (simp add: inbox_rows_def tbl_select_def less_Suc_eq_le)
  have "p\<lparr>pg_after := None\<rparr> = p" using none by (cases p) simp
  then have start: "inbox_page cx limit status s [] = page_of (encode_cursor \<circ> js_id) ?n (map job_summary_of (take (Suc ?n) ?rows))"
    using page [of "[]" None] limit one by simp
  have lim: "1 \<le> ?n" using one by simp
  show ?thesis
    by (rule pages_all [where rows = ?rows and cur = "encode_cursor \<circ> js_id" and limit = ?n and pre = "[]"])
      (use step lim start small in simp_all)
qed

definition inbox_db :: db where
  "inbox_db = empty_db\<lparr>jobs := [(40, demo_job\<lparr>jb_status := JobDone\<rparr>), (41, demo_job\<lparr>jb_status := JobConsumed\<rparr>),
     (42, demo_job), (43, demo_job\<lparr>jb_status := JobFailed\<rparr>)]\<rparr>"

theorem inbox_pages_read_all_witness:
  "(let cx = \<lparr>cx_user = None, cx_session = None, cx_storage = Some (jb_storage demo_job)\<rparr> in
    map js_id (read_pages 5 (inbox_page cx ''2'' ''done, failed,pending'' inbox_db) []) = [43, 42, 40])"
proof -
  let ?cx = "\<lparr>cx_user = None, cx_session = None, cx_storage = Some (jb_storage demo_job)\<rparr>"
  have 1: "read_page ''2'' [] = Inr \<lparr>pg_limit = 2, pg_after = None\<rparr>" by code_simp
  have 2: "read_statuses ''done, failed,pending'' = Inr [JobDone, JobFailed, JobPending]" by code_simp
  have 3: "distinct (keys (jobs inbox_db))" "list_all uuid_range (keys (jobs inbox_db))" "length (jobs inbox_db) = 4"
    by (simp_all add: inbox_db_def uuid_range_def)
  have 4: "map js_id (map job_summary_of (inbox_rows (jb_storage demo_job) [JobDone, JobFailed, JobPending] inbox_db)) = [43, 42, 40]"
    by code_simp
  have "read_pages (Suc (length (jobs inbox_db))) (inbox_page ?cx ''2'' ''done, failed,pending'' inbox_db) []
      = map job_summary_of (inbox_rows (jb_storage demo_job) [JobDone, JobFailed, JobPending] inbox_db)"
    by (rule inbox_pages_read_all [OF _ 3(1,2) 1 2]) simp
  with 3(3) 4 show ?thesis by (simp add: Let_def eval_nat_numeral del: read_pages.simps)
qed

section \<open>The trail, page by page\<close>

lemma cut_dot_before: "list_all (\<lambda>c. c \<noteq> CHR ''.'') a \<Longrightarrow> cut_dot (a @ CHR ''.'' # b) = Some (a, b)"
  by (induction a) simp_all

lemma int_text_no_dot: "list_all (\<lambda>c. c \<noteq> CHR ''.'') (int_text n)"
proof -
  have "list_all (\<lambda>c. c \<noteq> CHR ''.'') (nat_text k)" for k
    using nat_text_digits [of k] by (auto simp: list_all_iff is_digit_def)
  then show ?thesis by (simp add: int_text_def)
qed

lemma string_bytes_inverse: "bytes_string (string_bytes t) = t" "list_all (\<lambda>b. b < 256) (string_bytes t)"
  by (induction t) (simp_all add: bytes_string_def string_bytes_def)

text \<open>
  The cursor of a page of the trail reads back as the pair it names, for every instant a 64-bit count of
  nanoseconds can hold and every id the UUID library can read back.
\<close>

lemma audit_cursor_roundtrip:
  assumes "uc_parse uc (uc_text uc i) = Some i" and "- (2 ^ 63) \<le> t" and "t < 2 ^ 63"
  shows "decode_audit_cursor uc (encode_audit_cursor uc t i) = Some (Some (t, i))"
proof -
  let ?text = "int_text t @ CHR ''.'' # uc_text uc i"
  have "decode_raw_url (encode_audit_cursor uc t i) = Some (string_bytes ?text)"
    unfolding encode_audit_cursor_def by (rule decode_encode [OF string_bytes_inverse(2)])
  moreover from this have "encode_audit_cursor uc t i \<noteq> []"
    by (auto simp: decode_raw_url_def string_bytes_def)
  ultimately show ?thesis
    using assms by (simp add: decode_audit_cursor_def string_bytes_inverse cut_dot_before int_text_no_dot parse_int_text)
qed

definition trail_page :: "uuid_codec \<Rightarrow> int \<Rightarrow> db \<Rightarrow> string \<Rightarrow> audit_entry list \<times> string option" where
  "trail_page uc limit s cursor = (case list_admin_audit uc cursor limit s of Inr (page, _) \<Rightarrow> page | Inl _ \<Rightarrow> ([], None))"

lemma audit_key_less: "audit_key x < audit_key y \<longleftrightarrow> au_at (snd y) < au_at (snd x) \<or> au_at (snd y) = au_at (snd x) \<and> fst y < fst x"
  by (auto simp: audit_key_def)

text \<open>
  Reading the trail page by page to its end yields every entry exactly once, newest first by the pair of
  instant and id, whatever the size of a page: entries of the same instant are told apart by their ids, and
  every cursor reads back.
\<close>

theorem trail_pages_read_all:
  assumes d: "distinct (keys (audits s))" and codec: "list_all (\<lambda>i. uc_parse uc (uc_text uc i) = Some i) (keys (audits s))"
    and times: "list_all (\<lambda>(_, a). - (2 ^ 63) \<le> au_at a \<and> au_at a < 2 ^ 63) (audits s)"
  shows "read_pages (Suc (length (audits s))) (trail_page uc limit s) [] = map (audit_entry_of s) (sort_key audit_key (audits s))"
proof -
  let ?rows = "sort_key audit_key (audits s)" and ?n = "if limit < 1 then audit_page_size else nat limit"
  let ?cur = "\<lambda>e. encode_audit_cursor uc (ae_at e) (ae_id e)"
  have page: "trail_page uc limit s c = page_of ?cur ?n (map (audit_entry_of s) (take (Suc ?n) (filter (\<lambda>(i, a). case bound of None \<Rightarrow> True
      | Some (t, k) \<Rightarrow> au_at a < t \<or> au_at a = t \<and> i < k) ?rows)))" if "decode_audit_cursor uc c = Some bound" for c bound
    using that by (simp add: trail_page_def list_admin_audit_def Let_def get_tx_def tbl_select_def filter_sort)
  have "inj_on audit_key (set (audits s))"
    using d by (auto simp: inj_on_def audit_key_def) (metis map_of_is_SomeI option.inject)
  moreover have "distinct (audits s)" using d by (simp add: distinct_map)
  ultimately have sorted: "sorted_wrt (<) (map audit_key ?rows)" by (intro strictly_sorted_key) (simp add: distinct_map)
  have step: "trail_page uc limit s (?cur (audit_entry_of s x)) = page_of ?cur ?n (map (audit_entry_of s) (take (Suc ?n) suf))"
    if rows: "?rows = pre @ x # suf" for pre x suf
  proof -
    obtain i a where x: "x = (i, a)" by (cases x)
    have "(i, a) \<in> set ?rows" using rows x by simp
    then have "(i, a) \<in> set (audits s)" by simp
    then have "decode_audit_cursor uc (encode_audit_cursor uc (au_at a) i) = Some (Some (au_at a, i))"
      using codec times by (intro audit_cursor_roundtrip) (force simp: list_all_iff)+
    moreover have "filter (\<lambda>(k, b). au_at b < au_at a \<or> au_at b = au_at a \<and> k < i) ?rows = suf"
    proof -
      have "filter (\<lambda>(k, b). au_at b < au_at a \<or> au_at b = au_at a \<and> k < i) ?rows = filter (\<lambda>y. audit_key x < audit_key y) ?rows"
        by (rule filter_cong) (auto simp: x audit_key_less)
      also have "\<dots> = suf" using filter_beyond [of audit_key pre x suf] sorted unfolding rows by simp
      finally show ?thesis .
    qed
    ultimately show ?thesis using page by (simp add: x audit_entry_of_def)
  qed
  have start: "trail_page uc limit s [] = page_of ?cur ?n (map (audit_entry_of s) (take (Suc ?n) ?rows))"
    using page [of "[]" None] by (simp add: decode_audit_cursor_def)
  have lim: "1 \<le> ?n" by (simp add: audit_page_size_def nat_le_eq_zle) linarith
  show ?thesis
    by (rule pages_all [where rows = ?rows and cur = ?cur and limit = ?n and pre = "[]"])
      (use step lim start in simp_all)
qed

definition demo_entry :: "instant \<Rightarrow> audit_row" where
  "demo_entry t = \<lparr>au_actor = None, au_action = ActionUserCreated, au_target = None, au_details = no_details, au_at = t\<rparr>"

definition trail_db :: db where
  "trail_db = empty_db\<lparr>audits := [(60, demo_entry 7), (61, demo_entry 5), (62, demo_entry 7)]\<rparr>"

theorem trail_pages_read_all_witness:
  "(let uc = \<lparr>uc_text = nat_text, uc_parse = (\<lambda>t. if list_all is_digit t then Some (digits_value t) else None)\<rparr> in
    map ae_id (read_pages 4 (trail_page uc 2 trail_db) []) = [62, 60, 61])"
proof -
  let ?uc = "\<lparr>uc_text = nat_text, uc_parse = (\<lambda>t. if list_all is_digit t then Some (digits_value t) else None)\<rparr>"
  have 1: "distinct (keys (audits trail_db))" "length (audits trail_db) = 3"
    "list_all (\<lambda>(_, a). - (2 ^ 63) \<le> au_at a \<and> au_at a < 2 ^ 63) (audits trail_db)"
    by (simp_all add: trail_db_def demo_entry_def)
  have 2: "list_all (\<lambda>i. uc_parse ?uc (uc_text ?uc i) = Some i) (keys (audits trail_db))"
    using nat_text_digits by (simp add: list_all_iff)
  have 3: "map ae_id (map (audit_entry_of trail_db) (sort_key audit_key (audits trail_db))) = [62, 60, 61]" by code_simp
  from trail_pages_read_all [OF 1(1) 2 1(3), of 2] 1(2) 3 show ?thesis
    by (simp add: Let_def eval_nat_numeral del: read_pages.simps)
qed

end
