(* ===== verification/TreeApi.thy ===== *)
theory TreeApi
  imports Delta Handlers StockApi
begin

text \<open>
  The endpoints of the two trees (\<open>httpapi/locations.go\<close>, \<open>categories.go\<close>), of the delta form of their lists
  (\<open>httpapi/delta.go\<close>) and of the caller's own membership (\<open>httpapi/membership.go\<close>). A tree is delivered whole,
  nested from the flat rows of the store; the last section shows that nesting loses no row.
\<close>

section \<open>Nesting\<close>

text \<open>A row is its id, its parent and what is shown of it; a row whose parent is not among the rows is a root.\<close>

type_synonym 'a tree_rows = "(uuid \<times> uuid option \<times> 'a) list"

datatype 'a tree_node = TreeNode (node_id: uuid) (node_item: 'a) (node_children: "'a tree_node list")

definition is_root :: "'a tree_rows \<Rightarrow> uuid option \<Rightarrow> bool" where
  "is_root rows p \<longleftrightarrow> pred_option (\<lambda>q. q \<notin> set (keys rows)) p"

text \<open>The nodes are linked by pointers in one pass; read from a root, a node holds its rows in their order.\<close>

fun nest_below :: "nat \<Rightarrow> 'a tree_rows \<Rightarrow> uuid \<times> uuid option \<times> 'a \<Rightarrow> 'a tree_node" where
  "nest_below 0 rows r = TreeNode (fst r) (snd (snd r)) []"
| "nest_below (Suc n) rows r = TreeNode (fst r) (snd (snd r))
     (map (nest_below n rows) (filter (\<lambda>(_, p, _). p = Some (fst r)) rows))"

definition nest :: "'a tree_rows \<Rightarrow> 'a tree_node list" where
  "nest rows = map (nest_below (length rows) rows) (filter (\<lambda>(_, p, _). is_root rows p) rows)"

record location_shown =
  lw_name :: string
  lw_description :: "string option"
  lw_audited :: "instant option"

definition location_shown_of :: "location \<Rightarrow> location_shown" where
  "location_shown_of l = \<lparr>lw_name = lo_name l, lw_description = lo_description l, lw_audited = lo_audited l\<rparr>"

definition new_location_node :: "location_row \<Rightarrow> location_shown tree_node" where
  "new_location_node r = TreeNode (fst r) (location_shown_of (snd r)) []"

definition nest_locations :: "location_row list \<Rightarrow> location_shown tree_node list" where
  "nest_locations rows = nest (map (\<lambda>(i, l). (i, lo_parent l, location_shown_of l)) rows)"

record category_shown =
  cw_name :: string
  cw_days :: "int option"

definition category_shown_of :: "category \<Rightarrow> category_shown" where
  "category_shown_of c = \<lparr>cw_name = cg_name c, cw_days = cg_days c\<rparr>"

definition new_category_node :: "category_row \<Rightarrow> category_shown tree_node" where
  "new_category_node r = TreeNode (fst r) (category_shown_of (snd r)) []"

definition nest_categories :: "category_row list \<Rightarrow> category_shown tree_node list" where
  "nest_categories rows = nest (map (\<lambda>(i, c). (i, cg_parent c, category_shown_of c)) rows)"

section \<open>Lists and deltas\<close>

datatype ('n, 'd) tree_reply = WholeTree "'n tree_node list" | TreeDelta "(uuid \<times> 'd) list" "uuid list" instant

text \<open>\<open>readDeltaSince\<close>: the parameter is absent, no RFC 3339 timestamp, or an instant.\<close>

definition read_delta_since :: "instant raw \<Rightarrow> failure + instant option" where
  "read_delta_since raw = (case raw of
      Value t \<Rightarrow> Inr (Some t)
    | Absent \<Rightarrow> Inr None
    | _ \<Rightarrow> Inl (validation_failed [(''updated_since'', [''Must be an RFC 3339 timestamp, e.g. 2026-09-21T14:30:00Z.''])]))"

text \<open>The delta of one collection, with the transactions in flight at its first read.\<close>

definition list_delta ::
    "entity_type \<Rightarrow> (uuid \<Rightarrow> instant \<Rightarrow> db \<Rightarrow> (uuid \<times> 'r) list) \<Rightarrow> ('r \<Rightarrow> 'd) \<Rightarrow> string \<Rightarrow> instant list \<Rightarrow> uuid \<Rightarrow> instant \<Rightarrow>
     ('n, 'd) tree_reply handler" where
  "list_delta kind changed item reason in_flight st since s =
     (case load_delta kind changed st since (delta_watermark (db_now s) in_flight) s s of
        Inl e \<Rightarrow> refuse (from_store_error e reason) s
      | Inr d \<Rightarrow> answer_with 200 (TreeDelta (map (\<lambda>(i, r). (i, item r)) (dl_changed d)) (dl_deleted d) (dl_synced d)) s)"

definition location_list :: "http_context \<Rightarrow> instant list \<Rightarrow> instant raw \<Rightarrow> (location_shown, location_item) tree_reply handler" where
  "location_list cx in_flight raw =
     with_storage cx (\<lambda>st. case read_delta_since raw of
         Inl f \<Rightarrow> refuse f
       | Inr (Some since) \<Rightarrow>
           list_delta TombstoneLocation locations_changed_since location_item_of ''list location delta'' in_flight st since
       | Inr None \<Rightarrow> read_state (location_tree st) (\<lambda>rows. answer_with 200 (WholeTree (nest_locations rows))))"

definition category_list :: "http_context \<Rightarrow> instant list \<Rightarrow> instant raw \<Rightarrow> (category_shown, category_item) tree_reply handler" where
  "category_list cx in_flight raw =
     with_storage cx (\<lambda>st. case read_delta_since raw of
         Inl f \<Rightarrow> refuse f
       | Inr (Some since) \<Rightarrow>
           list_delta TombstoneCategory categories_changed_since category_item_of ''list category delta'' in_flight st since
       | Inr None \<Rightarrow> read_state (category_tree st) (\<lambda>rows. answer_with 200 (WholeTree (nest_categories rows))))"

section \<open>Writing to a tree\<close>

definition max_location_name :: nat where "max_location_name = 255"

definition validate_tree_node_name :: "string \<Rightarrow> field_map \<Rightarrow> string \<times> field_map" where
  "validate_tree_node_name raw fs = (let name = trim_space raw in
     (name, if name = [] then add_field ''name'' ''A name is required.'' fs
        else if rune_count name > max_location_name then add_field ''name'' ''Must be at most 255 characters.'' fs else fs))"

text \<open>An optional parent in a new node: nothing for absent and null.\<close>

definition new_parent :: "uuid option option \<Rightarrow> field_map \<Rightarrow> uuid option \<times> field_map" where
  "new_parent raw fs = (case raw of
      None \<Rightarrow> (None, fs) | Some (Some p) \<Rightarrow> (Some p, fs) | Some None \<Rightarrow> (None, add_field ''parent_id'' ''Must be a UUID.'' fs))"

text \<open>The parent in an edit: absent leaves it, null makes the node a root.\<close>

definition patched_parent :: "uuid raw \<Rightarrow> field_map \<Rightarrow> bool \<times> uuid option \<times> field_map" where
  "patched_parent raw fs = (case raw of
      Absent \<Rightarrow> (False, None, fs) | Null \<Rightarrow> (True, None, fs) | Value p \<Rightarrow> (True, Some p, fs)
    | Malformed \<Rightarrow> (True, None, add_field ''parent_id'' ''Must be a UUID or null.'' fs))"

definition patched_name :: "string option \<Rightarrow> field_map \<Rightarrow> string option \<times> field_map" where
  "patched_name raw fs = (case raw of None \<Rightarrow> (None, fs)
     | Some n \<Rightarrow> (case validate_tree_node_name n fs of (name, fs') \<Rightarrow> (Some name, fs')))"

record location_body =
  lb_name :: string
  lb_description :: "string option"
  lb_parent :: "uuid option option"

definition location_create :: "http_context \<Rightarrow> location_body decoded \<Rightarrow> location_shown tree_node handler" where
  "location_create cx body =
     with_storage cx (\<lambda>st. with_user cx (\<lambda>u. decode_json body (\<lambda>b.
       let (name, fs) = validate_tree_node_name (lb_name b) [];
           (parent, fs) = new_parent (lb_parent b) fs in
       no_problems fs
         (call (create_location_as_user st \<lparr>nl_parent = parent, nl_name = name, nl_description = lb_description b\<rparr> (fst u))
           (\<lambda>e. from_store_error e ''location parent not in this storage or nonexistent'')
           (\<lambda>l. answer_with 201 (new_location_node l))))))"

record location_edit =
  ld_name :: "string option"
  ld_description :: "string raw"
  ld_parent :: "uuid raw"

definition patched_description :: "string raw \<Rightarrow> field_map \<Rightarrow> bool \<times> string option \<times> field_map" where
  "patched_description raw fs = (case raw of
      Absent \<Rightarrow> (False, None, fs) | Null \<Rightarrow> (True, None, fs) | Value d \<Rightarrow> (True, Some d, fs)
    | Malformed \<Rightarrow> (True, None, add_field ''description'' ''Must be a string or null.'' fs))"

definition location_update :: "http_context \<Rightarrow> uuid option \<Rightarrow> location_edit decoded \<Rightarrow> location_shown tree_node handler" where
  "location_update cx raw body =
     with_storage cx (\<lambda>st. id_from_path raw ''malformed location id'' (\<lambda>i. decode_json body (\<lambda>b.
       let (name, fs) = patched_name (ld_name b) [];
           (set_description, description, fs) = patched_description (ld_description b) fs;
           (set_parent, parent, fs) = patched_parent (ld_parent b) fs in
       no_problems fs
         (call (update_location st i \<lparr>lp_name = name, lp_description = description, lp_set_description = set_description,
             lp_parent = parent, lp_set_parent = set_parent\<rparr>)
           (\<lambda>e. conflict_as e ''location or parent not in this storage or nonexistent''
             ''A location cannot be moved inside itself or one of its own children.'')
           (\<lambda>l. answer_with 200 (new_location_node l))))))"

definition location_delete :: "http_context \<Rightarrow> uuid option \<Rightarrow> unit handler" where
  "location_delete cx raw =
     with_storage cx (\<lambda>st. id_from_path raw ''malformed location id'' (\<lambda>i.
       call (delete_location st i)
         (\<lambda>e. conflict_as e ''location not in this storage or nonexistent''
           ''This location still holds inventory. Move or clear it first.'')
         (answer_with 204)))"

record category_body =
  kb_name :: string
  kb_parent :: "uuid option option"
  kb_days :: "int raw"

definition category_create :: "http_context \<Rightarrow> category_body decoded \<Rightarrow> category_shown tree_node handler" where
  "category_create cx body =
     with_storage cx (\<lambda>st. with_user cx (\<lambda>u. decode_json body (\<lambda>b.
       let (name, fs) = validate_tree_node_name (kb_name b) [];
           (parent, fs) = new_parent (kb_parent b) fs;
           (days, fs) = (if kb_days b = Absent then (None, fs)
             else case parse_shelf_life_days (kb_days b) of
                 Inl f \<Rightarrow> (None, add_fields (fl_fields f) fs)
               | Inr d \<Rightarrow> (d, fs)) in
       no_problems fs
         (call (create_category_as_user st \<lparr>nc_parent = parent, nc_name = name, nc_days = days\<rparr> (fst u))
           (\<lambda>e. from_store_error e ''category parent not in this storage or nonexistent'')
           (\<lambda>c. answer_with 201 (new_category_node c))))))"

record category_edit =
  kd_name :: "string option"
  kd_parent :: "uuid raw"
  kd_days_present :: bool

definition category_update :: "http_context \<Rightarrow> uuid option \<Rightarrow> category_edit decoded \<Rightarrow> category_shown tree_node handler" where
  "category_update cx raw body =
     with_storage cx (\<lambda>st. id_from_path raw ''malformed category id'' (\<lambda>i. decode_json body (\<lambda>b.
       let (name, fs) = patched_name (kd_name b) [];
           (set_parent, parent, fs) = patched_parent (kd_parent b) fs;
           fs = (if kd_days_present b then add_field ''default_shelf_life_days''
             ''Change the shelf life through PATCH .../categories/{id}/shelf-life, which also updates existing dates.'' fs else fs) in
       no_problems fs
         (call (update_category st i \<lparr>cp_name = name, cp_parent = parent, cp_set_parent = set_parent\<rparr>)
           (\<lambda>e. conflict_as e ''category or parent not in this storage or nonexistent''
             ''A category cannot be moved inside itself or one of its own subcategories.'')
           (\<lambda>c. answer_with 200 (new_category_node c))))))"

definition category_delete :: "http_context \<Rightarrow> uuid option \<Rightarrow> unit handler" where
  "category_delete cx raw =
     with_storage cx (\<lambda>st. id_from_path raw ''malformed category id'' (\<lambda>i.
       call (delete_category st i)
         (\<lambda>e. conflict_as e ''category not in this storage or nonexistent''
           ''Products are still filed under this category or one beneath it. Move them to another category first.'')
         (answer_with 204)))"

section \<open>The start page\<close>

text \<open>\<open>StartPages\<close> sorts the closed list; the message names it.\<close>

definition start_page_list :: string where
  "start_page_list = ''dashboard, inbox, ingest, inventory, locations, products, shopping_list''"

definition membership_patch :: "http_context \<Rightarrow> string decoded \<Rightarrow> string handler" where
  "membership_patch cx body =
     with_storage cx (\<lambda>st. with_user cx (\<lambda>u. decode_json body (\<lambda>raw.
       let page = trim_space raw in
       if page \<notin> set start_pages
       then refuse (validation_failed [(''start_page'', [''Choose one of: '' @ start_page_list @ ''.''])])
       else call (set_start_page st (fst u) page)
         (\<lambda>e. if e = ErrNotFound then not_found ''membership removed between the gate and the write'' else internal)
         (\<lambda>_. answer_with 200 page))))"

section \<open>The requests\<close>

datatype tree_request =
    CreateLocationRequest "location_body decoded"
  | UpdateLocationRequest "uuid option" "location_edit decoded"
  | DeleteLocationRequest "uuid option"
  | CreateCategoryRequest "category_body decoded"
  | UpdateCategoryRequest "uuid option" "category_edit decoded"
  | DeleteCategoryRequest "uuid option"
  | PatchMembership "string decoded"

fun serve_tree :: "tree_request \<Rightarrow> unit endpoint" where
  "serve_tree (CreateLocationRequest body) cx = bodiless (location_create cx body)"
| "serve_tree (UpdateLocationRequest raw body) cx = bodiless (location_update cx raw body)"
| "serve_tree (DeleteLocationRequest raw) cx = bodiless (location_delete cx raw)"
| "serve_tree (CreateCategoryRequest body) cx = bodiless (category_create cx body)"
| "serve_tree (UpdateCategoryRequest raw body) cx = bodiless (category_update cx raw body)"
| "serve_tree (DeleteCategoryRequest raw) cx = bodiless (category_delete cx raw)"
| "serve_tree (PatchMembership body) cx = bodiless (membership_patch cx body)"

lemma traceless_tree: "traceless (serve_tree r cx)"
proof -
  have "traceless (location_create cx b1)" "traceless (location_delete cx raw)" for b1 raw
    unfolding location_create_def location_delete_def Let_def by (intro traceless_intros | simp)+
  moreover have "traceless (location_update cx raw b2)" for raw b2
    unfolding location_update_def Let_def by (intro traceless_intros) simp_all
  moreover have "traceless (category_create cx b3)" "traceless (category_delete cx raw)" for b3 raw
    unfolding category_create_def category_delete_def Let_def by (intro traceless_intros | simp)+
  moreover have "traceless (category_update cx raw b4)" for raw b4
    unfolding category_update_def Let_def by (intro traceless_intros) simp_all
  moreover have "traceless (membership_patch cx b5)" for b5
    unfolding membership_patch_def Let_def by (intro traceless_intros | simp)+
  ultimately show ?thesis by (cases r) (simp_all add: traceless_bodiless)
qed

lemma tree_requests_uphold: "upholds stock_inv (serve_tree r cx)"
  by (cases r)
    (simp only: serve_tree.simps, unfold location_create_def location_update_def location_delete_def category_create_def
      category_update_def category_delete_def membership_patch_def Let_def, (intro upholds_intros stock_intros)+)+

section \<open>Nesting loses no row\<close>

primrec tree_ids :: "'a tree_node \<Rightarrow> uuid list" where
  "tree_ids (TreeNode i x cs) = i # concat (map tree_ids cs)"

text \<open>From a row to its parent among the rows, and what hangs below a row.\<close>

definition above :: "'a tree_rows \<Rightarrow> (uuid \<times> uuid) set" where
  "above rows = {(c, p). p \<in> set (keys rows) \<and> (\<exists>x. (c, Some p, x) \<in> set rows)}"

definition under :: "'a tree_rows \<Rightarrow> uuid \<Rightarrow> uuid set" where
  "under rows i = {j. (j, i) \<in> (above rows)\<^sup>*}"

lemma above_keys: "(c, p) \<in> above rows \<Longrightarrow> c \<in> set (keys rows) \<and> p \<in> set (keys rows)"
  by (force simp: above_def)

lemma above_unique: "distinct (keys rows) \<Longrightarrow> (c, p) \<in> above rows \<Longrightarrow> (c, q) \<in> above rows \<Longrightarrow> p = q"
  unfolding above_def by (auto dest: eq_key_imp_eq_value)

lemma under_refl [simp]: "i \<in> under rows i"
  by (simp add: under_def)

lemma under_keys: "i \<in> set (keys rows) \<Longrightarrow> under rows i \<subseteq> set (keys rows)"
  unfolding under_def using above_keys converse_rtranclE by (metis (mono_tags, lifting) mem_Collect_eq subsetI)

lemma finite_under: "i \<in> set (keys rows) \<Longrightarrow> finite (under rows i)"
  using under_keys finite_subset by blast

lemma distinct_concat_map:
  "distinct xs \<Longrightarrow> (\<And>x. x \<in> set xs \<Longrightarrow> distinct (f x)) \<Longrightarrow>
   (\<And>x y. x \<in> set xs \<Longrightarrow> y \<in> set xs \<Longrightarrow> x \<noteq> y \<Longrightarrow> set (f x) \<inter> set (f y) = {}) \<Longrightarrow> distinct (concat (map f xs))"
  by (induction xs) (simp, fastforce)

text \<open>Going up from a row there is one way, so two nodes with a common descendant are one above the other.\<close>

lemma under_comparable:
  assumes d: "distinct (keys rows)"
  shows "j \<in> under rows a \<Longrightarrow> j \<in> under rows b \<Longrightarrow> a \<in> under rows b \<or> b \<in> under rows a"
proof -
  assume "j \<in> under rows a" "j \<in> under rows b"
  then have "(j, a) \<in> (above rows)\<^sup>*" "(j, b) \<in> (above rows)\<^sup>*" by (simp_all add: under_def)
  then have "(a, b) \<in> (above rows)\<^sup>* \<or> (b, a) \<in> (above rows)\<^sup>*"
    by (induction rule: converse_rtrancl_induct) (metis above_unique [OF d] converse_rtranclE rtrancl.rtrancl_refl converse_rtrancl_into_rtrancl)+
  then show ?thesis by (auto simp: under_def)
qed

lemma siblings_apart:
  assumes d: "distinct (keys rows)" and acyc: "acyclic (above rows)"
    and a: "\<forall>p. (a, p) \<in> above rows \<longleftrightarrow> q = Some p" and b: "\<forall>p. (b, p) \<in> above rows \<longleftrightarrow> q = Some p" and ne: "a \<noteq> b"
  shows "under rows a \<inter> under rows b = {}"
proof -
  have no: "x \<notin> under rows y" if "\<forall>p. (x, p) \<in> above rows \<longleftrightarrow> q = Some p" "\<forall>p. (y, p) \<in> above rows \<longleftrightarrow> q = Some p"
    and ne': "x \<noteq> y" for x y
  proof
    assume "x \<in> under rows y"
    then have "(x, y) \<in> (above rows)\<^sup>*" by (simp add: under_def)
    then obtain p where p: "(x, p) \<in> above rows" "(p, y) \<in> (above rows)\<^sup>*" using ne' by (meson converse_rtranclE)
    then have "(y, p) \<in> above rows" using that(1,2) by blast
    then have "(y, y) \<in> (above rows)\<^sup>+" using p(2) by (rule rtrancl_into_trancl2)
    with acyc show False by (simp add: acyclic_def)
  qed
  show ?thesis using under_comparable [OF d] no [OF a b ne] no [OF b a ne [symmetric]] by blast
qed

definition rows_below :: "uuid \<Rightarrow> 'a tree_rows \<Rightarrow> 'a tree_rows" where
  "rows_below i rows = filter (\<lambda>(_, p, _). p = Some i) rows"

lemma child_iff: "i \<in> set (keys rows) \<Longrightarrow> (c, i) \<in> above rows \<longleftrightarrow> c \<in> fst ` set (rows_below i rows)"
  by (force simp: above_def rows_below_def)

lemma under_children:
  assumes i: "i \<in> set (keys rows)"
  shows "under rows i = insert i (\<Union>x \<in> set (rows_below i rows). under rows (fst x))"
  proof (intro set_eqI iffI)
    fix j assume "j \<in> under rows i"
    then have "(j, i) \<in> (above rows)\<^sup>*" by (simp add: under_def)
    then consider "j = i" | c where "(j, c) \<in> (above rows)\<^sup>*" "(c, i) \<in> above rows" by (meson rtranclE)
    then show "j \<in> insert i (\<Union>x \<in> set (rows_below i rows). under rows (fst x))"
    proof cases
      case (2 c)
      then obtain x where "x \<in> set (rows_below i rows)" "fst x = c" using child_iff [OF i, of c] by blast
      with 2(1) have "j \<in> under rows (fst x)" by (simp add: under_def)
      with \<open>x \<in> set (rows_below i rows)\<close> show ?thesis by blast
    qed simp
  next
    fix j assume "j \<in> insert i (\<Union>x \<in> set (rows_below i rows). under rows (fst x))"
    then consider "j = i" | x where "x \<in> set (rows_below i rows)" "j \<in> under rows (fst x)" by blast
    then show "j \<in> under rows i"
    proof cases
      case (2 x)
      then have "(fst x, i) \<in> above rows" using child_iff [OF i, of "fst x"] by blast
      with 2(2) show ?thesis by (simp add: under_def)
    qed simp
  qed

lemma nest_below_under:
  assumes d: "distinct (keys rows)" and acyc: "acyclic (above rows)"
  shows "r \<in> set rows \<Longrightarrow> card (under rows (fst r)) \<le> Suc n \<Longrightarrow>
    distinct (tree_ids (nest_below n rows r)) \<and> set (tree_ids (nest_below n rows r)) = under rows (fst r)"
proof (induction n arbitrary: r)
  case 0
  then have "finite (under rows (fst r))" by (intro finite_under) simp
  then have "\<forall>a \<in> under rows (fst r). \<forall>b \<in> under rows (fst r). a = b" using 0 by (simp add: card_le_Suc0_iff_eq)
  then have "under rows (fst r) = {fst r}" using under_refl by blast
  then show ?case by simp
next
  case (Suc n)
  let ?i = "fst r"
  let ?cs = "rows_below ?i rows"
  have i: "?i \<in> set (keys rows)" using Suc.prems(1) by simp
  have only: "\<forall>p. (fst x, p) \<in> above rows \<longleftrightarrow> Some ?i = Some p" if "x \<in> set ?cs" for x
    using child_iff [OF i, of "fst x"] above_unique [OF d] that by blast
  have out: "?i \<notin> under rows (fst x)" if "x \<in> set ?cs" for x
  proof
    assume "?i \<in> under rows (fst x)"
    then have "(?i, ?i) \<in> (above rows)\<^sup>+" using child_iff [OF i, of "fst x"] that by (auto simp: under_def intro: rtrancl_into_trancl1)
    with acyc show False by (simp add: acyclic_def)
  qed
  have IH: "distinct (tree_ids (nest_below n rows x)) \<and> set (tree_ids (nest_below n rows x)) = under rows (fst x)"
    if "x \<in> set ?cs" for x
  proof (rule Suc.IH)
    show "x \<in> set rows" using that by (simp add: rows_below_def)
    have "under rows (fst x) \<subset> under rows ?i" using under_children [OF i] out [OF that] that by auto
    then have "card (under rows (fst x)) < card (under rows ?i)" using finite_under [OF i] by (rule psubset_card_mono [rotated])
    with Suc.prems(2) show "card (under rows (fst x)) \<le> Suc n" by simp
  qed
  have "inj_on fst (set rows)" and dr: "distinct rows" using d by (simp_all add: distinct_map)
  then have apart: "under rows (fst x) \<inter> under rows (fst y) = {}" if "x \<in> set ?cs" "y \<in> set ?cs" "x \<noteq> y" for x y
    using that by (intro siblings_apart [OF d acyc only only]) (auto simp: rows_below_def dest: inj_onD)
  have "distinct (concat (map (\<lambda>x. tree_ids (nest_below n rows x)) ?cs))"
    by (rule distinct_concat_map) (use dr IH apart in \<open>simp_all add: rows_below_def\<close>)
  moreover have "set (concat (map (\<lambda>x. tree_ids (nest_below n rows x)) ?cs)) = (\<Union>x \<in> set ?cs. under rows (fst x))"
    using IH by simp
  moreover have "tree_ids (nest_below (Suc n) rows r) = ?i # concat (map (\<lambda>x. tree_ids (nest_below n rows x)) ?cs)"
    by (simp add: rows_below_def o_def)
  ultimately show ?case using under_children [OF i] out by auto
qed

lemma root_above:
  assumes d: "distinct (keys rows)" and acyc: "acyclic (above rows)"
  shows "i \<in> set (keys rows) \<Longrightarrow> \<exists>x \<in> set rows. is_root rows (fst (snd x)) \<and> i \<in> under rows (fst x)"
proof -
  have "above rows \<subseteq> set (keys rows) \<times> set (keys rows)" using above_keys by fastforce
  then have "wf ((above rows)\<inverse>)" by (intro finite_acyclic_wf_converse acyc) (erule finite_subset, simp)
  then show "i \<in> set (keys rows) \<Longrightarrow> \<exists>x \<in> set rows. is_root rows (fst (snd x)) \<and> i \<in> under rows (fst x)"
  proof (induction i rule: wf_induct_rule)
    case (less i)
    then obtain p a where row: "(i, p, a) \<in> set rows" by auto
    show ?case
    proof (cases "is_root rows p")
      case True
      with row show ?thesis by force
    next
      case False
      then obtain q where q: "p = Some q" "q \<in> set (keys rows)" by (cases p) (auto simp: is_root_def)
      then have "(i, q) \<in> above rows" using row by (auto simp: above_def)
      moreover from this obtain x where "x \<in> set rows" "is_root rows (fst (snd x))" "q \<in> under rows (fst x)"
        using less.IH [of q] q(2) by auto
      ultimately show ?thesis unfolding under_def by (blast intro: converse_rtrancl_into_rtrancl)
    qed
  qed
qed

lemma nest_complete:
  assumes d: "distinct (keys rows)" and acyc: "acyclic (above rows)"
  shows "mset (concat (map tree_ids (nest rows))) = mset (keys rows)"
proof -
  let ?rs = "filter (\<lambda>(_, p, _). is_root rows p) rows"
  let ?f = "\<lambda>x. tree_ids (nest_below (length rows) rows x)"
  have below: "distinct (?f x) \<and> set (?f x) = under rows (fst x)" if "x \<in> set ?rs" for x
  proof (rule nest_below_under [OF d acyc])
    show "x \<in> set rows" using that by simp
    then have "card (under rows (fst x)) \<le> card (set (keys rows))" by (intro card_mono under_keys) simp_all
    also have "\<dots> \<le> length (keys rows)" by (rule card_length)
    finally show "card (under rows (fst x)) \<le> Suc (length rows)" by simp
  qed
  have top: "\<forall>p. (fst x, p) \<in> above rows \<longleftrightarrow> None = Some p" if "x \<in> set ?rs" for x
  proof -
    obtain i a b where x: "x = (i, a, b)" by (cases x)
    then have row: "(i, a, b) \<in> set rows" and root: "is_root rows a" using that by simp_all
    have False if up: "(i, p) \<in> above rows" for p
    proof -
      obtain v where "(i, Some p, v) \<in> set rows" and p: "p \<in> set (keys rows)" using up by (auto simp: above_def)
      then have "a = Some p" using eq_key_imp_eq_value [OF d row] by blast
      with p root show False by (simp add: is_root_def)
    qed
    then show ?thesis by (auto simp: x)
  qed
  have "distinct rows" and inj: "inj_on fst (set rows)" using d by (simp_all add: distinct_map)
  moreover have "under rows (fst x) \<inter> under rows (fst y) = {}" if "x \<in> set ?rs" "y \<in> set ?rs" "x \<noteq> y" for x y
    using that inj by (intro siblings_apart [OF d acyc top top]) (auto dest: inj_onD)
  ultimately have "distinct (concat (map ?f ?rs))"
    by (intro distinct_concat_map) (simp_all add: below)
  moreover have "set (concat (map ?f ?rs)) = set (keys rows)"
  proof -
    have ids: "set (concat (map ?f ?rs)) = (\<Union>x \<in> set ?rs. under rows (fst x))" using below by simp
    have down: "under rows (fst x) \<subseteq> set (keys rows)" if "x \<in> set ?rs" for x
      using that by (intro under_keys) auto
    have up: "i \<in> (\<Union>x \<in> set ?rs. under rows (fst x))" if ik: "i \<in> set (keys rows)" for i
    proof -
      obtain x where "x \<in> set rows" "is_root rows (fst (snd x))" "i \<in> under rows (fst x)" using root_above [OF d acyc ik] by blast
      then show ?thesis by (intro UN_I [of x]) (simp_all add: case_prod_unfold)
    qed
    have "(\<Union>x \<in> set ?rs. under rows (fst x)) \<subseteq> set (keys rows)" by (rule UN_least) (rule down)
    moreover have "set (keys rows) \<subseteq> (\<Union>x \<in> set ?rs. under rows (fst x))" by (rule subsetI) (rule up)
    ultimately show ?thesis by (simp only: ids subset_antisym)
  qed
  ultimately have "mset (concat (map ?f ?rs)) = mset (keys rows)" by (rule set_eq_iff_mset_eq_distinct [OF _ d, THEN iffD1])
  then show ?thesis by (simp add: nest_def o_def)
qed

lemma nest_shown:
  assumes tree: "tree_ok f" and f: "\<And>i x. (i, x) \<in> set t \<Longrightarrow> f i = Some (st, parent x)" and d: "distinct (keys t)"
  shows "mset (concat (map tree_ids (nest (map (\<lambda>(i, x). (i, parent x, shown x)) t)))) = mset (keys t)"
proof -
  let ?rows = "map (\<lambda>(i, x). (i, parent x, shown x)) t"
  have k: "keys ?rows = keys t" by (induction t) auto
  have "above ?rows \<subseteq> up_rel f" using f by (fastforce simp: above_def up_rel_def)
  then have "acyclic (above ?rows)" using tree by (auto simp: tree_ok_def intro: acyclic_subset)
  then show ?thesis using nest_complete [of ?rows] d unfolding k by blast
qed



end
