(* ===== verification/Matching.thy ===== *)
theory Matching
  imports Ingestion
begin

text \<open>
  \<open>internal/matching/matching.go\<close> over its queries in \<open>internal/store/matching.go\<close>: free text becomes a
  product of the storage, a choice between some of them, or a new item with what the catalogue knows
  about it. On top of it the lines of a shopping list (\<open>ingest/shoppinglist.go\<close>) and the proposals a
  person reviews (\<open>ingest/proposal.go\<close>, \<open>consume/proposal.go\<close>). The similarity of two texts is the
  trigram index's, a parameter; collation and case folding are parameters too. Similarities are numbers
  of 24 bits, so the differences and comparisons the code makes in floating point are exact, and the
  model makes them over the rationals.
\<close>

section \<open>Thresholds and results\<close>

type_synonym similarity = "string \<Rightarrow> string \<Rightarrow> rat"

definition exact_threshold :: rat where "exact_threshold = 3 / 5"
definition ambiguous_threshold :: rat where "ambiguous_threshold = 7 / 20"
definition ambiguous_margin :: rat where "ambiguous_margin = 1 / 20"
definition max_local_candidates :: nat where "max_local_candidates = 3"
definition max_variants :: nat where "max_variants = 5"

record local_candidate =
  lc_product :: uuid
  lc_name :: string
  lc_similarity :: rat

record catalog_variant =
  cv_id :: uuid
  cv_name :: string

record catalog_match =
  cm_id :: uuid
  cm_display :: string
  cm_path :: "string option"
  cm_item_type :: item_type
  cm_image :: "string option"
  cm_icon :: "string option"
  cm_days :: "int option"
  cm_variants :: "catalog_variant list"

text \<open>The statuses are those of a line of a shopping list.\<close>

record match_result =
  mr_query :: string
  mr_status :: item_status
  mr_product :: "local_candidate option"
  mr_candidates :: "local_candidate list"
  mr_catalog :: "catalog_match option"

definition needs_external_lookup :: "match_result \<Rightarrow> bool" where
  "needs_external_lookup r \<longleftrightarrow> mr_status r = ItemNew \<and> mr_catalog r = None"

section \<open>The queries\<close>

definition candidate_of :: "similarity \<Rightarrow> string \<Rightarrow> uuid \<times> product \<Rightarrow> local_candidate" where
  "candidate_of sim text x = \<lparr>lc_product = fst x, lc_name = pr_name (snd x), lc_similarity = sim (pr_name (snd x)) text\<rparr>"

definition similar_products :: "similarity \<Rightarrow> uuid \<Rightarrow> string \<Rightarrow> rat \<Rightarrow> nat \<Rightarrow> db \<Rightarrow> local_candidate list" where
  "similar_products sim storage text bar limit s =
     take limit (sort_key (\<lambda>c. (- lc_similarity c, lc_product c)) (map (candidate_of sim text)
       (tbl_select (\<lambda>_ p. pr_storage p = storage \<and> sim (pr_name p) text \<ge> bar) (products s))))"

definition match_of :: "catalog_row \<Rightarrow> catalog_match" where
  "match_of row = (case row of (i, e) \<Rightarrow> \<lparr>cm_id = i, cm_display = ct_display e, cm_path = ct_category_path e,
     cm_item_type = ct_item_type e, cm_image = ct_image e, cm_icon = ct_icon e, cm_days = ct_days e, cm_variants = []\<rparr>)"

definition similar_catalog_product :: "similarity \<Rightarrow> string \<Rightarrow> rat \<Rightarrow> db \<Rightarrow> catalog_match option" where
  "similar_catalog_product sim text bar s =
     (case sort_key (\<lambda>(i, e). (- sim (ct_normalized e) text, i))
         (tbl_select (\<lambda>_ e. sim (ct_normalized e) text \<ge> bar) (catalog s)) of
        [] \<Rightarrow> None | row # _ \<Rightarrow> Some (match_of row))"

definition catalog_variants_of ::
    "similarity \<Rightarrow> (string \<Rightarrow> 'c :: linorder) \<Rightarrow> uuid \<Rightarrow> string \<Rightarrow> nat \<Rightarrow> db \<Rightarrow> catalog_variant list" where
  "catalog_variants_of sim coll i text limit s = (case map_of (catalog s) i of
      None \<Rightarrow> []
    | Some hit \<Rightarrow> map (\<lambda>(k, e). \<lparr>cv_id = k, cv_name = ct_display e\<rparr>)
        (take limit (sort_key (\<lambda>(_, e). (- sim (ct_normalized e) text, coll (ct_display e)))
          (tbl_select (\<lambda>k e. k \<noteq> i \<and> (case ct_base hit of Some b \<Rightarrow> ct_base e = Some b | None \<Rightarrow> ct_base e = Some i))
            (catalog s)))))"

section \<open>The stages\<close>

definition match_local :: "similarity \<Rightarrow> uuid \<Rightarrow> string \<Rightarrow> db \<Rightarrow> match_result" where
  "match_local sim storage query s =
     (let none = \<lparr>mr_query = query, mr_status = ItemNew, mr_product = None, mr_candidates = [], mr_catalog = None\<rparr> in
      case similar_products sim storage query ambiguous_threshold max_local_candidates s of
        [] \<Rightarrow> none
      | best # rest \<Rightarrow>
          let clear_winner = (case rest of [] \<Rightarrow> True | second # _ \<Rightarrow> lc_similarity best - lc_similarity second > ambiguous_margin) in
          if lc_similarity best \<ge> exact_threshold \<and> clear_winner
          then none\<lparr>mr_status := ItemExactMatch, mr_product := Some best\<rparr>
          else none\<lparr>mr_status := ItemAmbiguous, mr_candidates := best # rest\<rparr>)"

text \<open>Blank text is an error, not a match.\<close>

definition match_local_product :: "similarity \<Rightarrow> (char \<Rightarrow> char) \<Rightarrow> uuid \<Rightarrow> string \<Rightarrow> db \<Rightarrow> match_result option" where
  "match_local_product sim fold_case storage text s =
     (let query = normalize_query fold_case text in if query = [] then None else Some (match_local sim storage query s))"

definition match_product_candidates ::
    "similarity \<Rightarrow> (string \<Rightarrow> 'c :: linorder) \<Rightarrow> (char \<Rightarrow> char) \<Rightarrow> uuid \<Rightarrow> string \<Rightarrow> db \<Rightarrow> match_result option" where
  "match_product_candidates sim coll fold_case storage text s =
     (let query = normalize_query fold_case text in
      if query = [] then None
      else let result = match_local sim storage query s in
        if mr_status result \<noteq> ItemNew then Some result
        else case similar_catalog_product sim query ambiguous_threshold s of
            None \<Rightarrow> Some result
          | Some m \<Rightarrow> Some (result\<lparr>mr_catalog := Some (m\<lparr>cm_variants := catalog_variants_of sim coll (cm_id m) query max_variants s\<rparr>)\<rparr>))"

section \<open>The lines of a list\<close>

definition matched_item :: "string \<Rightarrow> match_result \<Rightarrow> new_shopping_item" where
  "matched_item line r = \<lparr>ni_text = line, ni_status = mr_status r, ni_matched = map_option lc_product (mr_product r)\<rparr>"

type_synonym matcher = "string \<Rightarrow> match_result option"

fun match_lines :: "matcher \<Rightarrow> string list \<Rightarrow> (new_shopping_item list \<times> match_result list) option" where
  "match_lines matcher [] = Some ([], [])"
| "match_lines matcher (line # lines) = (case matcher (fst (parse_line line)) of
      None \<Rightarrow> None
    | Some r \<Rightarrow> (case match_lines matcher lines of
          None \<Rightarrow> None
        | Some (items, results) \<Rightarrow> Some (matched_item line r # items, r # results)))"

section \<open>Proposals\<close>

text \<open>What is shown of a match: products of the storage by id and name, a catalogue row without its id.\<close>

record catalog_card =
  cc_display :: string
  cc_path :: "string option"
  cc_item_type :: item_type
  cc_image :: "string option"
  cc_icon :: "string option"
  cc_days :: "int option"
  cc_variants :: "string list"

record shown_match =
  sm_status :: item_status
  sm_product :: "(uuid \<times> string) option"
  sm_candidates :: "(uuid \<times> string) list"
  sm_catalog :: "catalog_card option"

definition card_of :: "catalog_match \<Rightarrow> catalog_card" where
  "card_of m = \<lparr>cc_display = cm_display m, cc_path = cm_path m, cc_item_type = cm_item_type m, cc_image = cm_image m,
     cc_icon = cm_icon m, cc_days = cm_days m, cc_variants = map cv_name (cm_variants m)\<rparr>"

definition product_ref :: "local_candidate \<Rightarrow> uuid \<times> string" where
  "product_ref c = (lc_product c, lc_name c)"

definition display_match :: "match_result \<Rightarrow> shown_match" where
  "display_match r = \<lparr>sm_status = mr_status r, sm_product = map_option product_ref (mr_product r),
     sm_candidates = map product_ref (mr_candidates r), sm_catalog = map_option card_of (mr_catalog r)\<rparr>"

text \<open>A step of a proposed path: a shelf that exists, or one to create.\<close>

datatype path_segment = Existing string uuid | Proposed string

record placement =
  pl_path :: "path_segment list"
  pl_location :: "uuid option"

definition find_by_name :: "(char \<Rightarrow> char) \<Rightarrow> location_row list \<Rightarrow> string \<Rightarrow> location_row option" where
  "find_by_name fold_case nodes name =
     List.find (\<lambda>(_, l). map fold_case (trim_space (lo_name l)) = map fold_case (trim_space name)) nodes"

definition children_in :: "location_row list \<Rightarrow> uuid option \<Rightarrow> location_row list" where
  "children_in tree p = filter (\<lambda>(_, l). lo_parent l = p) tree"

fun walk_path ::
    "(char \<Rightarrow> char) \<Rightarrow> location_row list \<Rightarrow> uuid option \<Rightarrow> string list \<Rightarrow> path_segment list \<times> uuid option" where
  "walk_path fold_case tree at_node [] = ([], at_node)"
| "walk_path fold_case tree at_node (name # names) = (case find_by_name fold_case (children_in tree at_node) name of
      None \<Rightarrow> (map Proposed (name # names), None)
    | Some (i, _) \<Rightarrow> (case walk_path fold_case tree (Some i) names of (segments, leaf) \<Rightarrow> (Existing name i # segments, leaf)))"

definition place :: "(char \<Rightarrow> char) \<Rightarrow> location_row list \<Rightarrow> string list \<Rightarrow> uuid option \<Rightarrow> placement" where
  "place fold_case tree path hint =
     (if path = [] then \<lparr>pl_path = [], pl_location = hint\<rparr>
      else case walk_path fold_case tree None path of (segments, leaf) \<Rightarrow> \<lparr>pl_path = segments, pl_location = leaf\<rparr>)"

text \<open>What the model reports of one item; its confidence and its box are passed through.\<close>

record 'x detection =
  dt_label :: string
  dt_quantity :: int
  dt_seen :: 'x
  dt_path :: "string list"

record 'x analysis =
  an_items :: "'x detection list"
  an_is_list :: bool
  an_lines :: "string list"

record 'x ingest_row_shown =
  gr_row :: string
  gr_label :: string
  gr_seen :: 'x
  gr_quantity :: int
  gr_match :: shown_match
  gr_placement :: placement

record 'x ingest_proposal =
  gp_hint :: "uuid option"
  gp_rows :: "'x ingest_row_shown list"
  gp_is_list :: bool
  gp_lines :: "string list"

fun proposal_rows :: "matcher \<Rightarrow> (char \<Rightarrow> char) \<Rightarrow> location_row list \<Rightarrow> uuid option \<Rightarrow> nat \<Rightarrow> 'x detection list \<Rightarrow> 'x ingest_row_shown list option" where
  "proposal_rows matcher fold_case tree hint n [] = Some []"
| "proposal_rows matcher fold_case tree hint n (item # items) = (case matcher (dt_label item) of
      None \<Rightarrow> None
    | Some r \<Rightarrow> map_option ((#) \<lparr>gr_row = nat_text n, gr_label = dt_label item, gr_seen = dt_seen item,
        gr_quantity = dt_quantity item, gr_match = display_match r, gr_placement = place fold_case tree (dt_path item) hint\<rparr>)
        (proposal_rows matcher fold_case tree hint (Suc n) items))"

definition build_ingest_proposal ::
    "matcher \<Rightarrow> (char \<Rightarrow> char) \<Rightarrow> location_row list \<Rightarrow> uuid option \<Rightarrow> 'x analysis \<Rightarrow> 'x ingest_proposal option" where
  "build_ingest_proposal matcher fold_case tree hint a =
     map_option (\<lambda>rows. \<lparr>gp_hint = hint, gp_rows = rows, gp_is_list = an_is_list a, gp_lines = an_lines a\<rparr>)
       (proposal_rows matcher fold_case tree hint 0 (an_items a))"

record 'x consume_row_shown =
  wr_row :: string
  wr_label :: string
  wr_seen :: 'x
  wr_quantity :: int
  wr_match :: shown_match

fun consume_rows :: "matcher \<Rightarrow> nat \<Rightarrow> 'x detection list \<Rightarrow> 'x consume_row_shown list option" where
  "consume_rows matcher n [] = Some []"
| "consume_rows matcher n (item # items) = (case matcher (dt_label item) of
      None \<Rightarrow> None
    | Some r \<Rightarrow> map_option ((#) \<lparr>wr_row = nat_text n, wr_label = dt_label item, wr_seen = dt_seen item,
        wr_quantity = dt_quantity item, wr_match = display_match r\<rparr>) (consume_rows matcher (Suc n) items))"

definition build_consume_proposal :: "matcher \<Rightarrow> 'x analysis \<Rightarrow> ('x consume_row_shown list \<times> bool \<times> string list) option" where
  "build_consume_proposal matcher a = map_option (\<lambda>rows. (rows, an_is_list a, an_lines a)) (consume_rows matcher 0 (an_items a))"

section \<open>What the stages decide\<close>

definition scored :: "similarity \<Rightarrow> uuid \<Rightarrow> string \<Rightarrow> rat \<Rightarrow> db \<Rightarrow> local_candidate list" where
  "scored sim storage text bar s =
     sort_key (\<lambda>c. (- lc_similarity c, lc_product c)) (map (candidate_of sim text)
       (tbl_select (\<lambda>_ p. pr_storage p = storage \<and> sim (pr_name p) text \<ge> bar) (products s)))"

lemma similar_scored: "similar_products sim storage text bar limit s = take limit (scored sim storage text bar s)"
  by (simp add: similar_products_def scored_def)

lemma set_scored:
  "c \<in> set (scored sim storage text bar s) \<longleftrightarrow> (\<exists>i p. (i, p) \<in> set (products s) \<and> pr_storage p = storage
     \<and> bar \<le> sim (pr_name p) text \<and> c = candidate_of sim text (i, p))"
  by (auto simp: scored_def tbl_select_def)

lemma scored_distinct:
  assumes "distinct (keys (products s))"
  shows "distinct (map lc_product (scored sim storage text bar s))"
proof -
  have "mset (map lc_product (scored sim storage text bar s))
      = mset (keys (tbl_select (\<lambda>_ p. pr_storage p = storage \<and> sim (pr_name p) text \<ge> bar) (products s)))"
    by (simp add: scored_def candidate_of_def o_def multiset.map_comp)
  from mset_eq_imp_distinct_iff [OF this] assms show ?thesis by (simp add: tbl_select_def distinct_map_filter)
qed

lemma scored_descending: "sorted_wrt (\<lambda>a b. lc_similarity b \<le> lc_similarity a) (scored sim storage text bar s)"
proof -
  let ?k = "\<lambda>c. (- lc_similarity c, lc_product c)"
  have "sorted (map ?k (scored sim storage text bar s))" by (simp add: scored_def)
  then have "sorted_wrt (\<lambda>a b. ?k a \<le> ?k b) (scored sim storage text bar s)" by (simp add: sorted_wrt_map)
  then show ?thesis by (rule sorted_wrt_mono_rel [rotated]) (auto simp: less_eq_prod_def)
qed

text \<open>\<open>p\<close> is the clear winner: sure enough, and every other product of the storage is well behind.\<close>

definition clear_winner :: "similarity \<Rightarrow> uuid \<Rightarrow> string \<Rightarrow> uuid \<Rightarrow> db \<Rightarrow> bool" where
  "clear_winner sim storage query i s = (case map_of (products s) i of
      None \<Rightarrow> False
    | Some p \<Rightarrow> pr_storage p = storage \<and> exact_threshold \<le> sim (pr_name p) query
        \<and> list_all (\<lambda>(j, q). j = i \<or> pr_storage q \<noteq> storage
            \<or> sim (pr_name q) query + ambiguous_margin < sim (pr_name p) query) (products s))"

lemmas threshold_defs = exact_threshold_def ambiguous_threshold_def ambiguous_margin_def

lemma match_local_exact:
  assumes d: "distinct (keys (products s))"
  shows "(\<exists>c. mr_status (match_local sim storage query s) = ItemExactMatch
      \<and> mr_product (match_local sim storage query s) = Some c \<and> lc_product c = i) \<longleftrightarrow> clear_winner sim storage query i s"
proof -
  let ?L = "scored sim storage query ambiguous_threshold s"
  note dd = scored_distinct [OF d, of sim storage query ambiguous_threshold]
  have mem: "candidate_of sim query (j, q) \<in> set ?L" if "(j, q) \<in> set (products s)" "pr_storage q = storage"
    "ambiguous_threshold \<le> sim (pr_name q) query" for j q using that by (auto simp: set_scored)
  show ?thesis
  proof (cases ?L)
    case Nil
    have "\<not> clear_winner sim storage query i s"
    proof
      assume "clear_winner sim storage query i s"
      then obtain p where "map_of (products s) i = Some p" "pr_storage p = storage" "exact_threshold \<le> sim (pr_name p) query"
        by (auto simp: clear_winner_def split: option.splits)
      then have "candidate_of sim query (i, p) \<in> set ?L" by (intro mem map_of_SomeD) (simp_all add: threshold_defs)
      then show False by (simp add: Nil)
    qed
    then show ?thesis by (simp add: match_local_def similar_scored Nil)
  next
    case (Cons best rest)
    obtain b p where b: "(b, p) \<in> set (products s)" "pr_storage p = storage" "best = candidate_of sim query (b, p)"
      using Cons set_scored [of best sim storage query ambiguous_threshold s] by auto
    then have best: "lc_product best = b" "lc_similarity best = sim (pr_name p) query" "map_of (products s) b = Some p"
      using d by (simp_all add: candidate_of_def)
    have top: "lc_similarity c \<le> lc_similarity best" if "c \<in> set rest" for c
      using scored_descending [of sim storage query ambiguous_threshold s] that by (simp add: Cons)
    have rest: "candidate_of sim query (j, q) \<in> set rest" if "(j, q) \<in> set (products s)" "pr_storage q = storage"
      "ambiguous_threshold \<le> sim (pr_name q) query" "j \<noteq> b" for j q
      using mem [OF that(1-3)] that(4) best(1) by (auto simp: Cons candidate_of_def)
    define clear where "clear \<longleftrightarrow> (case rest of [] \<Rightarrow> True | second # _ \<Rightarrow> lc_similarity best - lc_similarity second > ambiguous_margin)"
    have exact: "mr_status (match_local sim storage query s) = ItemExactMatch \<and> mr_product (match_local sim storage query s) = Some c
        \<longleftrightarrow> exact_threshold \<le> lc_similarity best \<and> clear \<and> c = best" for c
      by (auto simp: match_local_def similar_scored Cons clear_def Let_def max_local_candidates_def eval_nat_numeral split: list.splits)
    have clear: "clear \<longleftrightarrow> (\<forall>c \<in> set rest. lc_similarity c + ambiguous_margin < lc_similarity best)"
    proof (cases rest)
      case (Cons second more)
      have "lc_similarity c \<le> lc_similarity second" if "c \<in> set more" for c
        using scored_descending [of sim storage query ambiguous_threshold s] that by (simp add: \<open>?L = best # rest\<close> Cons)
      then show ?thesis by (fastforce simp: clear_def Cons)
    qed (simp add: clear_def)
    show ?thesis
    proof
      assume "\<exists>c. mr_status (match_local sim storage query s) = ItemExactMatch
          \<and> mr_product (match_local sim storage query s) = Some c \<and> lc_product c = i"
      then have i: "i = b" and sure: "exact_threshold \<le> lc_similarity best" and cl: clear using exact best(1) by auto
      have "sim (pr_name q) query + ambiguous_margin < sim (pr_name p) query"
        if q: "(j, q) \<in> set (products s)" "pr_storage q = storage" "j \<noteq> b" for j q
      proof (cases "ambiguous_threshold \<le> sim (pr_name q) query")
        case True
        from rest [OF q(1,2) True q(3)] cl clear show ?thesis by (auto simp: candidate_of_def best(2))
      next
        case False
        with sure show ?thesis by (simp add: best(2) threshold_defs)
      qed
      then show "clear_winner sim storage query i s"
        using i b best sure by (fastforce simp: clear_winner_def list_all_iff)
    next
      assume win: "clear_winner sim storage query i s"
      then obtain p' where p': "map_of (products s) i = Some p'" "pr_storage p' = storage" "exact_threshold \<le> sim (pr_name p') query"
        and behind: "\<And>j q. (j, q) \<in> set (products s) \<Longrightarrow> j \<noteq> i \<Longrightarrow> pr_storage q = storage \<Longrightarrow>
          sim (pr_name q) query + ambiguous_margin < sim (pr_name p') query"
        by (fastforce simp: clear_winner_def list_all_iff split: option.splits)
      have "i = b"
      proof (rule ccontr)
        assume ne: "i \<noteq> b"
        have "candidate_of sim query (i, p') \<in> set rest"
          using p' ne by (intro rest map_of_SomeD) (auto simp: threshold_defs)
        from top [OF this] behind [OF b(1) _ b(2)] ne show False
          by (auto simp: best(2) candidate_of_def threshold_defs)
      qed
      with p' best have p: "p' = p" by simp
      have clear
        unfolding clear
      proof
        fix c assume c: "c \<in> set rest"
        then obtain j q where j: "(j, q) \<in> set (products s)" "pr_storage q = storage" "c = candidate_of sim query (j, q)"
          using set_scored [of c sim storage query ambiguous_threshold s] by (auto simp: Cons)
        have "lc_product best \<notin> lc_product ` set rest" using dd by (simp add: Cons)
        then have "lc_product c \<noteq> lc_product best" using imageI [OF c, of lc_product] by metis
        then have "j \<noteq> b" by (simp add: j(3) best(1) candidate_of_def)
        with behind [OF j(1) _ j(2)] \<open>i = b\<close> show "lc_similarity c + ambiguous_margin < lc_similarity best"
          by (simp add: j(3) candidate_of_def best(2) p)
      qed
      then show "\<exists>c. mr_status (match_local sim storage query s) = ItemExactMatch
          \<and> mr_product (match_local sim storage query s) = Some c \<and> lc_product c = i"
        using exact \<open>i = b\<close> best p'(3) by (auto simp: p)
    qed
  qed
qed

lemma match_local_new:
  "mr_status (match_local sim storage query s) = ItemNew \<longleftrightarrow>
     list_all (\<lambda>(_, q). pr_storage q \<noteq> storage \<or> sim (pr_name q) query < ambiguous_threshold) (products s)"
proof -
  have "mr_status (match_local sim storage query s) = ItemNew \<longleftrightarrow> scored sim storage query ambiguous_threshold s = []"
    by (auto simp: match_local_def similar_scored Let_def max_local_candidates_def eval_nat_numeral split: list.splits)
  also have "\<dots> \<longleftrightarrow> length (scored sim storage query ambiguous_threshold s) = 0" by simp
  also have "\<dots> \<longleftrightarrow> list_all (\<lambda>(_, q). pr_storage q \<noteq> storage \<or> sim (pr_name q) query < ambiguous_threshold) (products s)"
    by (auto simp: scored_def tbl_select_def filter_empty_conv list_all_iff)
  finally show ?thesis .
qed

lemma match_local_candidates:
  assumes "c \<in> set (mr_candidates (match_local sim storage query s)) \<or> mr_product (match_local sim storage query s) = Some c"
  shows "c \<in> set (scored sim storage query ambiguous_threshold s)"
proof (cases "scored sim storage query ambiguous_threshold s")
  case Nil
  with assms show ?thesis by (simp add: match_local_def similar_scored)
next
  case (Cons best rest)
  have "mr_candidates (match_local sim storage query s) \<in> {[], best # take 2 rest}"
    "mr_product (match_local sim storage query s) \<in> {None, Some best}"
    by (simp_all add: match_local_def similar_scored Cons Let_def max_local_candidates_def eval_nat_numeral)
  with assms Cons show ?thesis by (auto dest: in_set_takeD)
qed

lemma match_candidates_local:
  "match_product_candidates sim coll fold_case storage text s = Some r \<Longrightarrow>
     (let l = match_local sim storage (normalize_query fold_case text) s in
      mr_status r = mr_status l \<and> mr_product r = mr_product l \<and> mr_candidates r = mr_candidates l
      \<and> (mr_status l = ItemNew \<longrightarrow> (mr_catalog r = None
          \<longleftrightarrow> similar_catalog_product sim (normalize_query fold_case text) ambiguous_threshold s = None)))"
  by (auto simp: match_product_candidates_def match_local_def Let_def split: if_splits option.splits list.splits)

lemma similar_catalog_None:
  "similar_catalog_product sim query bar s = None \<longleftrightarrow> list_all (\<lambda>(_, e). sim (ct_normalized e) query < bar) (catalog s)"
proof -
  have "similar_catalog_product sim query bar s = None \<longleftrightarrow>
      length (sort_key (\<lambda>(i, e). (- sim (ct_normalized e) query, i)) (tbl_select (\<lambda>_ e. sim (ct_normalized e) query \<ge> bar) (catalog s))) = 0"
    by (simp add: similar_catalog_product_def del: length_sort split: list.split)
  also have "\<dots> \<longleftrightarrow> list_all (\<lambda>(_, e). sim (ct_normalized e) query < bar) (catalog s)"
    by (auto simp: tbl_select_def filter_empty_conv list_all_iff not_le)
  finally show ?thesis .
qed

text \<open>
  C16. The staged match, without the stages: the text is taken to be a product exactly when that product of
  the storage is similar enough and every other one of it is well behind; it is new exactly when no product
  of the storage comes near; an external lookup is called for exactly when the catalogue knows nothing near
  either; and whatever is offered is a product of this storage.
\<close>

theorem staged_match_correct:
  assumes "distinct (keys (products s))" and "match_product_candidates sim coll fold_case storage text s = Some r"
  shows "let query = normalize_query fold_case text in
     (\<forall>i. (mr_status r = ItemExactMatch \<and> map_option lc_product (mr_product r) = Some i) = clear_winner sim storage query i s)
     \<and> (mr_status r = ItemNew) = list_all (\<lambda>(_, p). pr_storage p \<noteq> storage \<or> sim (pr_name p) query < ambiguous_threshold) (products s)
     \<and> needs_external_lookup r = (mr_status r = ItemNew \<and> list_all (\<lambda>(_, e). sim (ct_normalized e) query < ambiguous_threshold) (catalog s))
     \<and> list_all (\<lambda>c. map_option pr_storage (map_of (products s) (lc_product c)) = Some storage)
         (mr_candidates r @ (case mr_product r of None \<Rightarrow> [] | Some c \<Rightarrow> [c]))"
proof -
  let ?q = "normalize_query fold_case text"
  let ?l = "match_local sim storage ?q s"
  from match_candidates_local [OF assms(2)] have r: "mr_status r = mr_status ?l" "mr_product r = mr_product ?l"
    "mr_candidates r = mr_candidates ?l"
    and cat: "mr_status ?l = ItemNew \<Longrightarrow> mr_catalog r = None \<longleftrightarrow> similar_catalog_product sim ?q ambiguous_threshold s = None"
    by (simp_all add: Let_def)
  have exact: "(mr_status r = ItemExactMatch \<and> map_option lc_product (mr_product r) = Some i) = clear_winner sim storage ?q i s" for i
    using match_local_exact [OF assms(1), of sim storage ?q i] by (auto simp: r)
  have "map_option pr_storage (map_of (products s) (lc_product c)) = Some storage"
    if "c \<in> set (mr_candidates ?l) \<or> mr_product ?l = Some c" for c
    using match_local_candidates [OF that] assms(1) by (auto simp: set_scored candidate_of_def)
  then have offered: "list_all (\<lambda>c. map_option pr_storage (map_of (products s) (lc_product c)) = Some storage)
         (mr_candidates r @ (case mr_product r of None \<Rightarrow> [] | Some c \<Rightarrow> [c]))"
    by (auto simp: r list_all_iff split: option.splits)
  show ?thesis
    unfolding Let_def
    by (intro conjI allI exact offered)
      (simp_all add: r match_local_new needs_external_lookup_def cat similar_catalog_None cong: conj_cong)
qed

text \<open>Text against itself is as similar as it gets; the tomato and its short name are close.\<close>

definition demo_similarity :: similarity where
  "demo_similarity a b = (if a = b then 1 else if a = ''tomato'' \<and> b = ''tomatoes'' then 1 / 2 else 0)"

definition demo_product :: "uuid \<Rightarrow> string \<Rightarrow> product" where
  "demo_product st n = \<lparr>pr_storage = st, pr_name = n, pr_category = None, pr_catalog = None, pr_item_type = LongShelfLife,
     pr_days = None, pr_min_stock = 0, pr_image = None, pr_icon = None, pr_created = 0, pr_updated = 0\<rparr>"

definition match_db :: db where
  "match_db = empty_db\<lparr>products := [(5, demo_product 1 ''tomato''), (6, demo_product 1 ''tomatoes''), (7, demo_product 2 ''eggs'')]\<rparr>"

theorem staged_match_correct_witness:
  "\<exists>r. match_product_candidates demo_similarity length id 1 '' tomatoes'' match_db = Some r
     \<and> mr_status r = ItemExactMatch \<and> map_option lc_product (mr_product r) = Some 6 \<and> \<not> needs_external_lookup r"
proof -
  have q: "normalize_query id '' tomatoes'' = ''tomatoes''"
    by (simp add: normalize_query_def trim_space_def white_space_def fields.simps)
  have "match_product_candidates demo_similarity length id 1 '' tomatoes'' match_db \<noteq> None"
    by (simp add: match_product_candidates_def q Let_def split: option.split)
  then obtain r where r: "match_product_candidates demo_similarity length id 1 '' tomatoes'' match_db = Some r" by blast
  have d: "distinct (keys (products match_db))" by (simp add: match_db_def)
  have "clear_winner demo_similarity 1 ''tomatoes'' 6 match_db"
    by (simp add: clear_winner_def match_db_def demo_product_def demo_similarity_def threshold_defs)
  with staged_match_correct [OF d r] have "mr_status r = ItemExactMatch \<and> map_option lc_product (mr_product r) = Some 6"
    unfolding q Let_def by blast
  with r show ?thesis by (simp add: needs_external_lookup_def)
qed

end
