(* ===== verification/ShoppingApi.thy ===== *)
theory ShoppingApi
  imports Matching Handlers StockApi Paging TreeApi
begin

text \<open>
  The endpoints of shopping lists (\<open>httpapi/shoppinglists.go\<close>) and the confirm of a shelf photo
  (\<open>httpapi/ingest.go\<close>): what a client may send, what is refused before the store is asked, and what the
  answer shows. What the handlers are wired to is a record: the matcher, the two case foldings, the UUID
  codec, the picture storage with its cache, and how the JSON of a payload reads. Uploads of photos, which
  start a job with a model provider, are left out.
\<close>

section \<open>What the handlers are wired to\<close>

text \<open>Taking a picked suggestion into permanent storage gives the address recorded and the provider's own.\<close>

datatype promoted = PictureUnavailable | PictureBroken | PictureSaved string string

record picture_box =
  px_promote :: "string \<Rightarrow> promoted"
  px_source :: "string option \<Rightarrow> string option"
  px_card :: "string option \<Rightarrow> string option"

text \<open>Of a payload the reclassification reads whether the photo is a list and its lines; nothing if it does not decode.\<close>

record list_env =
  le_match :: "uuid \<Rightarrow> string \<Rightarrow> db \<Rightarrow> match_result option"
  le_low :: "char \<Rightarrow> char"
  le_fold :: "char \<Rightarrow> char"
  le_codec :: uuid_codec
  le_pictures :: picture_box
  le_reading :: "job \<Rightarrow> (bool \<times> string list) option"

section \<open>What is shown\<close>

record item_view =
  iv_id :: uuid
  iv_text :: string
  iv_status :: item_status
  iv_quantity :: nat
  iv_matched :: "(uuid \<times> string) option"
  iv_candidates :: "(uuid \<times> string) list"
  iv_catalog :: "catalog_card option"
  iv_needs_search :: bool
  iv_resolved :: "int option"

record list_view =
  lv_id :: uuid
  lv_source :: list_source
  lv_created :: instant
  lv_items :: "item_view list"

text \<open>A match that was not made: only the stored status.\<close>

definition bare_match :: "item_status \<Rightarrow> match_result" where
  "bare_match st = \<lparr>mr_query = [], mr_status = st, mr_product = None, mr_candidates = [], mr_catalog = None\<rparr>"

text \<open>The card never carries the address of the provider's picture.\<close>

definition build_item_response :: "uuid \<times> shopping_item \<Rightarrow> match_result \<Rightarrow> item_view" where
  "build_item_response item r = (case item of (i, it) \<Rightarrow>
     \<lparr>iv_id = i, iv_text = si_text it, iv_status = si_status it, iv_quantity = snd (parse_line (si_text it)),
      iv_matched = (case mr_product r of Some c \<Rightarrow> Some (product_ref c)
        | None \<Rightarrow> map_option (\<lambda>p. (p, [])) (si_matched it)),
      iv_candidates = map product_ref (mr_candidates r),
      iv_catalog = map_option (\<lambda>m. (card_of m)\<lparr>cc_image := None\<rparr>) (mr_catalog r),
      iv_needs_search = needs_external_lookup r, iv_resolved = si_quantity it\<rparr>)"

definition show_catalog_image :: "picture_box \<Rightarrow> item_view \<Rightarrow> match_result \<Rightarrow> item_view" where
  "show_catalog_image px v r = (case (iv_catalog v, mr_catalog r) of
      (Some shown, Some m) \<Rightarrow> v\<lparr>iv_catalog := Some (shown\<lparr>cc_image := px_card px (cm_image m)\<rparr>)\<rparr>
    | _ \<Rightarrow> v)"

definition show_item :: "picture_box \<Rightarrow> uuid \<times> shopping_item \<Rightarrow> match_result \<Rightarrow> item_view" where
  "show_item px item r = show_catalog_image px (build_item_response item r) r"

definition build_list_response ::
    "picture_box \<Rightarrow> uuid \<times> shopping_list \<Rightarrow> (uuid \<times> shopping_item) list \<Rightarrow> match_result list \<Rightarrow> list_view" where
  "build_list_response px l items results = \<lparr>lv_id = fst l, lv_source = sl_source (snd l), lv_created = sl_created (snd l),
     lv_items = map (\<lambda>(item, r). show_item px item r) (zip items results)\<rparr>"

section \<open>Creating a list\<close>

definition max_shopping_list_lines :: nat where "max_shopping_list_lines = 200"

record list_body =
  sb_source :: string
  sb_text :: string
  sb_job :: string

text \<open>The lines an analysis found, or why the job has none to give; every refusal is the same 404.\<close>

definition reclassifiable_lines :: "(job \<Rightarrow> (bool \<times> string list) option) \<Rightarrow> job \<Rightarrow> failure + string list" where
  "reclassifiable_lines reading j =
     (if jb_kind j \<notin> {JobShelfIngestion, JobProductPhoto, JobConsumptionPhoto}
      then Inl (not_found ''job kind carries no shopping-list classification'')
      else if jb_status j \<noteq> JobDone then Inl (not_found ''job is not a proposal waiting for review'')
      else case reading j of
          None \<Rightarrow> Inl (not_found ''job payload could not be read'')
        | Some (is_list, lines) \<Rightarrow>
            if \<not> is_list \<or> lines = [] then Inl (not_found ''job was not classified as a shopping list'')
            else Inr (take max_shopping_list_lines lines))"

definition match_all :: "list_env \<Rightarrow> uuid \<Rightarrow> string list \<Rightarrow> (new_shopping_item list \<times> match_result list \<Rightarrow> 'b handler) \<Rightarrow> 'b handler" where
  "match_all env st lines k = read_state (\<lambda>s. match_lines (\<lambda>t. le_match env st t s) lines) (\<lambda>m. case m of
      None \<Rightarrow> refuse internal | Some x \<Rightarrow> k x)"

definition create_from_job :: "list_env \<Rightarrow> http_context \<Rightarrow> uuid \<Rightarrow> uuid \<Rightarrow> list_view handler" where
  "create_from_job env cx st i =
     call (job_in_storage st i) (\<lambda>e. from_store_error e ''job not found in storage'') (\<lambda>j.
       case reclassifiable_lines (le_reading env) (snd j) of
         Inl f \<Rightarrow> refuse f
       | Inr lines \<Rightarrow> match_all env st lines (\<lambda>(items, results).
           call (create_shopping_list_from_job st i (acting_user cx) items)
             (\<lambda>e. from_store_error e ''job not found in storage, or no longer waiting for review'')
             (\<lambda>(out, image). answer_with 201 (build_list_response (le_pictures env) (fst out) (snd out) results))))"

definition create_from_text :: "list_env \<Rightarrow> http_context \<Rightarrow> uuid \<Rightarrow> string \<Rightarrow> list_view handler" where
  "create_from_text env cx st text =
     (let lines = split_lines text in
      if lines = [] then refuse (validation_failed [(''raw_text'', [''Add at least one line.''])])
      else if length lines > max_shopping_list_lines
      then refuse (validation_failed [(''raw_text'', [''That is more lines than one list can hold.''])])
      else match_all env st lines (\<lambda>(items, results).
        call (create_shopping_list st SourceText (acting_user cx) items)
          (\<lambda>e. from_store_error e ''shopping list could not be created'')
          (\<lambda>(l, created). answer_with 201 (build_list_response (le_pictures env) l created results))))"

definition shopping_create :: "list_env \<Rightarrow> http_context \<Rightarrow> list_body decoded \<Rightarrow> list_view handler" where
  "shopping_create env cx body =
     with_storage cx (\<lambda>st. decode_json body (\<lambda>b.
       let raw = trim_space (sb_job b) in
       if raw \<noteq> [] then
         (if sb_source b \<noteq> [] \<and> sb_source b \<noteq> ''photo''
          then refuse (validation_failed [(''source'',
            [''A list made from a photo job is a photo list; source must be absent or \"photo\".''])])
          else id_from_path (uc_parse (le_codec env) raw) ''malformed job id'' (create_from_job env cx st))
       else if sb_source b = ''photo''
       then refuse (validation_failed [(''source'', [''Send the photo as a multipart upload, or give from_job_id.''])])
       else if sb_source b \<noteq> [] \<and> sb_source b \<noteq> ''text''
       then refuse (validation_failed [(''source'', [''Must be \"text\" or \"photo\".''])])
       else create_from_text env cx st (sb_text b)))"

section \<open>Reading and matching again\<close>

text \<open>The choices for one line, for rendering only; nothing is matched for a resolved line.\<close>

definition shown_choices :: "list_env \<Rightarrow> uuid \<Rightarrow> db \<Rightarrow> shopping_item \<Rightarrow> match_result" where
  "shown_choices env st s it =
     (if si_status it = ItemResolved then bare_match ItemResolved
      else case le_match env st (fst (parse_line (si_text it))) s of
          None \<Rightarrow> bare_match (si_status it) | Some r \<Rightarrow> r)"

definition shopping_get :: "list_env \<Rightarrow> http_context \<Rightarrow> uuid option \<Rightarrow> list_view handler" where
  "shopping_get env cx raw =
     with_storage cx (\<lambda>st. id_from_path raw ''malformed shopping list id'' (\<lambda>l.
       call (shopping_list_with_items st l) (\<lambda>e. from_store_error e ''shopping list not in this storage or nonexistent'')
         (\<lambda>(row, items). read_state (\<lambda>s. map (shown_choices env st s \<circ> snd) items) (\<lambda>results.
           answer_with 200 (build_list_response (le_pictures env) row items results)))))"

definition shopping_rematch :: "list_env \<Rightarrow> http_context \<Rightarrow> uuid option \<Rightarrow> string decoded \<Rightarrow> item_view handler" where
  "shopping_rematch env cx raw body =
     with_storage cx (\<lambda>st. id_from_path raw ''malformed shopping list item id'' (\<lambda>i. decode_json body (\<lambda>text.
       let query = fst (parse_line text) in
       if query = [] then refuse (validation_failed [(''raw_text'', [''A line cannot be empty.''])])
       else read_state (le_match env st query) (\<lambda>m. case m of
           None \<Rightarrow> refuse internal
         | Some r \<Rightarrow>
             call (rematch_shopping_list_item st i text (mr_status r) (map_option lc_product (mr_product r)))
               (\<lambda>e. conflict_as e ''shopping list item not in this storage or nonexistent'' ''This line has already been resolved.'')
               (\<lambda>item. answer_with 200 (show_item (le_pictures env) item r))))))"

section \<open>Resolving a line\<close>

definition max_ingest_rows :: nat where "max_ingest_rows = 500"
definition max_ingest_quantity :: int where "max_ingest_quantity = 100000"
definition max_product_name :: nat where "max_product_name = 255"
definition max_location_depth :: nat where "max_location_depth = 16"

text \<open>The item types of the code; any other text is kept as it is.\<close>

definition item_type_of :: "string \<Rightarrow> item_type" where
  "item_type_of t = (if t = ''perishable'' then Perishable else if t = ''long_shelf_life'' then LongShelfLife
     else if t = ''non_perishable'' then NonPerishable else OtherItemType t)"

definition known_item_type :: "string \<Rightarrow> bool" where
  "known_item_type t \<longleftrightarrow> item_type_fallback_days (item_type_of t) \<noteq> None"

definition given_item_type :: "string \<Rightarrow> item_type option" where
  "given_item_type t = (if t = [] then None else Some (item_type_of t))"

record resolve_new =
  rn_from :: string
  rn_variant :: "string option"
  rn_name :: string
  rn_category :: "uuid option"
  rn_item_type :: string
  rn_min_stock :: "int option"
  rn_image :: "string option"

record resolve_request =
  rq_quantity :: "int option"
  rq_location :: "uuid option"
  rq_product :: "uuid option"
  rq_new :: "resolve_new option"

definition name_problem :: "string \<Rightarrow> string \<Rightarrow> field_map \<Rightarrow> field_map" where
  "name_problem key name fs =
     (if name = [] then add_field key ''A name is required.'' fs
      else if rune_count name > max_product_name then add_field key ''Must be at most 255 characters.'' fs else fs)"

definition item_type_problem :: "string \<Rightarrow> string \<Rightarrow> field_map \<Rightarrow> field_map" where
  "item_type_problem key t fs =
     (if t = [] \<or> known_item_type t then fs
      else add_field key ''Must be perishable, long_shelf_life or non_perishable.'' fs)"

definition new_product_problems :: "resolve_new \<Rightarrow> field_map \<Rightarrow> field_map" where
  "new_product_problems p fs =
     (if rn_from p = ''catalog'' then fs
      else if rn_from p = ''manual'' then
        (let fs = name_problem ''new_product.name'' (trim_space (rn_name p)) fs;
             fs = item_type_problem ''new_product.item_type'' (rn_item_type p) fs in
         if pred_option (\<lambda>n. \<not> n < 0) (rn_min_stock p) then fs
         else add_field ''new_product.min_stock'' ''Cannot be negative.'' fs)
      else add_field ''new_product.from'' ''Must be \"catalog\" or \"manual\".'' fs)"

definition resolve_problems :: "resolve_request \<Rightarrow> field_map" where
  "resolve_problems b =
     (let fs = (if rq_product b \<noteq> None \<and> rq_new b \<noteq> None
            then add_field ''product_id'' ''Give product_id or new_product, not both.'' [] else []);
          fs = (case rq_quantity b of None \<Rightarrow> fs | Some q \<Rightarrow>
            if q < 0 then add_field ''quantity'' ''Cannot be negative.'' fs
            else if q > max_ingest_quantity then add_field ''quantity'' ''Too large.'' fs else fs) in
      case rq_new b of None \<Rightarrow> fs | Some p \<Rightarrow> new_product_problems p fs)"

text \<open>Accepting the card or one of the variants offered with it; no other row of the catalogue can be named.\<close>

definition accept_card :: "list_env \<Rightarrow> catalog_match option \<Rightarrow> string option \<Rightarrow> db \<Rightarrow> failure + resolved_product" where
  "accept_card env shown variant s = (case shown of
      None \<Rightarrow> Inl (validation_failed [(''new_product.from'', [''This line has no catalog description to accept.''])])
    | Some m \<Rightarrow>
        let accepted = (\<lambda>(i, name, path, ty, image, icon, days). \<lparr>rp_name = name, rp_item_type = Some ty, rp_min_stock = 0,
              rp_category = None, rp_path = path, rp_days = days, rp_icon = icon,
              rp_image = px_source (le_pictures env) image, rp_accepted = Some i, rp_catalog = None\<rparr>) in
        (case variant of
           None \<Rightarrow> Inr (accepted (cm_id m, cm_display m, cm_path m, cm_item_type m, cm_image m, cm_icon m, cm_days m))
         | Some v \<Rightarrow>
             if \<not> list_ex (\<lambda>w. normalize_query (le_fold env) (cv_name w) = normalize_query (le_fold env) v) (cm_variants m)
             then Inl (validation_failed [(''new_product.variant'', [''That is not one of this line's suggestions.''])])
             else (case find_catalog_product (le_fold env) v s of
                 Inl e \<Rightarrow> Inl (from_store_error e ''offered catalog variant vanished'')
               | Inr ((i, e), _) \<Rightarrow> Inr (accepted (i, ct_display e, ct_category_path e, ct_item_type e, ct_image e, ct_icon e, ct_days e)))))"

text \<open>The card the line shows: matched again, not trusted from the client.\<close>

definition shown_card :: "list_env \<Rightarrow> uuid \<Rightarrow> string \<Rightarrow> db \<Rightarrow> catalog_match option option" where
  "shown_card env st line s = (case le_match env st (fst (parse_line line)) s of
      None \<Rightarrow> None
    | Some r \<Rightarrow> Some (if mr_status r = ItemNew then mr_catalog r else None))"

definition described_product :: "list_env \<Rightarrow> catalog_match option \<Rightarrow> resolve_new \<Rightarrow> failure + resolved_product" where
  "described_product env shown n =
     (let name = trim_space (rn_name n); ty = given_item_type (rn_item_type n);
          declined = (case shown of None \<Rightarrow> None | Some m \<Rightarrow>
            if normalize_query (le_fold env) (cm_display m) \<noteq> normalize_query (le_fold env) name then Some (cm_id m) else None);
          entry = \<lparr>nk_display = name, nk_path = None, nk_item_type = ty, nk_image = None, nk_icon = None, nk_days = None, nk_shown = declined\<rparr>;
          product = \<lparr>rp_name = name, rp_item_type = ty, rp_min_stock = (case rn_min_stock n of None \<Rightarrow> 0 | Some q \<Rightarrow> q),
            rp_category = rn_category n, rp_path = None, rp_days = None, rp_icon = None, rp_image = None, rp_accepted = None,
            rp_catalog = Some entry\<rparr> in
      case rn_image n of
        None \<Rightarrow> Inr product
      | Some hash \<Rightarrow> (case px_promote (le_pictures env) hash of
            PictureUnavailable \<Rightarrow> Inl (validation_failed [(''new_product.image'',
              [''That picture is no longer available. Pick another, or continue without one.''])])
          | PictureBroken \<Rightarrow> Inl internal
          | PictureSaved url source \<Rightarrow> Inr (product\<lparr>rp_image := Some url, rp_catalog := Some (entry\<lparr>nk_image := Some source\<rparr>)\<rparr>)))"

definition resolved_new_product :: "list_env \<Rightarrow> uuid \<Rightarrow> string \<Rightarrow> resolve_new \<Rightarrow> db \<Rightarrow> failure + resolved_product" where
  "resolved_new_product env st line n s = (case shown_card env st line s of
      None \<Rightarrow> Inl internal
    | Some shown \<Rightarrow> if rn_from n = ''catalog'' then accept_card env shown (rn_variant n) s else described_product env shown n)"

text \<open>The quantity the line asks for, unless the person gave one or dismissed the line.\<close>

definition resolved_quantity :: "resolve_request \<Rightarrow> string \<Rightarrow> int" where
  "resolved_quantity b line = (case rq_quantity b of
      Some q \<Rightarrow> q
    | None \<Rightarrow> if rq_product b \<noteq> None \<or> rq_new b \<noteq> None then int (snd (parse_line line)) else 0)"

definition resolve_with ::
    "list_env \<Rightarrow> uuid \<Rightarrow> uuid \<Rightarrow> uuid \<Rightarrow> resolve_request \<Rightarrow> string \<Rightarrow> resolved_product option \<Rightarrow>
     (item_view \<times> bool \<times> uuid option) handler" where
  "resolve_with env st u i b line new =
     call (resolve_shopping_list_item (le_low env) (le_fold env) st i \<lparr>rl_product = rq_product b, rl_new = new,
         rl_quantity = resolved_quantity b line, rl_location = rq_location b\<rparr> (Some u))
       (\<lambda>e. conflict_as e ''shopping list item, product, category or location not in this storage or nonexistent''
         ''This line has already been resolved.'')
       (\<lambda>r. answer_with 200 (build_item_response (rr_item r) (bare_match (si_status (snd (rr_item r)))), rr_created r, rr_batch r))"

definition shopping_resolve ::
    "list_env \<Rightarrow> http_context \<Rightarrow> uuid option \<Rightarrow> resolve_request decoded \<Rightarrow> (item_view \<times> bool \<times> uuid option) handler" where
  "shopping_resolve env cx raw body =
     with_storage cx (\<lambda>st. with_user cx (\<lambda>u. id_from_path raw ''malformed shopping list item id'' (\<lambda>i. decode_json body (\<lambda>b.
       no_problems (resolve_problems b)
         (call (shopping_item_by_id st i) (\<lambda>e. from_store_error e ''shopping list item not in this storage or nonexistent'') (\<lambda>item.
           let line = si_text (snd item) in
           case rq_new b of
             None \<Rightarrow> resolve_with env st (fst u) i b line None
           | Some n \<Rightarrow> read_state (resolved_new_product env st line n) (\<lambda>made. case made of
                 Inl f \<Rightarrow> refuse f | Inr p \<Rightarrow> resolve_with env st (fst u) i b line (Some p))))))))"

section \<open>Confirming a shelf photo\<close>

datatype image_choice = CropImage | PhotoImage | CutoutImage uuid

record ingest_new =
  in_name :: string
  in_category :: "uuid option"
  in_item_type :: string
  in_image :: "string option"
  in_cutout :: "uuid option"

record ingest_item =
  im_row :: string
  im_decision :: string
  im_product :: "uuid option"
  im_new :: "ingest_new option"
  im_quantity :: int
  im_location :: "uuid option"
  im_new_location :: "(uuid option \<times> string list) option"
  im_expiration :: "date raw"
  im_label :: "string option"
  im_type :: "string option"

definition bare_decision :: "string \<Rightarrow> ingest_decision" where
  "bare_decision row = \<lparr>id_row = row, id_accept = False, id_product = None, id_new = None, id_quantity = 0, id_location = None,
     id_new_location = None, id_edited = False, id_expiration = None, id_label = None, id_type = None\<rparr>"

text \<open>The picture asked for; a cutout has to be named, and only a cutout is.\<close>

definition image_choice_of :: "nat \<Rightarrow> ingest_new \<Rightarrow> field_map \<Rightarrow> image_choice option \<times> field_map" where
  "image_choice_of i n fs =
     (let (choice, fs) = (case in_image n of
          None \<Rightarrow> (None, fs)
        | Some img \<Rightarrow>
            if img = ''crop'' then (Some CropImage, fs)
            else if img = ''photo'' then (Some PhotoImage, fs)
            else if img = ''cutout'' then (case in_cutout n of
                None \<Rightarrow> (None, add_field (item_key ''items'' i ''new_product.cutout_id'') ''Required for a cutout.'' fs)
              | Some c \<Rightarrow> (Some (CutoutImage c), fs))
            else (None, add_field (item_key ''items'' i ''new_product.image'') ''Must be crop, photo, cutout or null.'' fs)) in
      (choice, if in_cutout n \<noteq> None \<and> in_image n \<noteq> Some ''cutout''
        then add_field (item_key ''items'' i ''new_product.cutout_id'') ''Only for a cutout.'' fs else fs))"

definition item_product :: "nat \<Rightarrow> ingest_item \<Rightarrow> ingest_decision \<Rightarrow> field_map \<Rightarrow> ingest_decision \<times> image_choice option \<times> field_map" where
  "item_product i item d fs =
     (if (im_product item = None) = (im_new item = None)
      then (d, None, add_field (item_key ''items'' i ''product_id'') ''Give exactly one of product_id and new_product.'' fs)
      else case im_new item of
          None \<Rightarrow> (d\<lparr>id_product := im_product item\<rparr>, None, fs)
        | Some n \<Rightarrow>
            let name = trim_space (in_name n);
                fs = name_problem (item_key ''items'' i ''new_product.name'') name fs;
                fs = item_type_problem (item_key ''items'' i ''new_product.item_type'') (in_item_type n) fs;
                ty = (if in_item_type n = [] then LongShelfLife else item_type_of (in_item_type n));
                (choice, fs) = image_choice_of i n fs in
            (d\<lparr>id_new := Some \<lparr>ip_name = name, ip_category = in_category n, ip_item_type = Some ty, ip_image = None\<rparr>\<rparr>, choice, fs))"

fun good_names :: "string list \<Rightarrow> string list \<times> bool" where
  "good_names [] = ([], True)"
| "good_names (n # ns) = (let n = trim_space n in
     if n = [] \<or> rune_count n > max_location_name then ([], False)
     else case good_names ns of (rest, fine) \<Rightarrow> (n # rest, fine))"

definition item_location :: "nat \<Rightarrow> ingest_item \<Rightarrow> ingest_decision \<Rightarrow> field_map \<Rightarrow> ingest_decision \<times> field_map" where
  "item_location i item d fs =
     (if (im_location item = None) = (im_new_location item = None)
      then (d, add_field (item_key ''items'' i ''location_id'') ''Give exactly one of location_id and new_location.'' fs)
      else case im_new_location item of
          None \<Rightarrow> (d\<lparr>id_location := im_location item\<rparr>, fs)
        | Some (parent, raw) \<Rightarrow>
            let (names, fine) = good_names raw;
                fs = (if fine then fs else add_field (item_key ''items'' i ''new_location.names'') ''Each name must be 1 to 255 characters.'' fs);
                fs = (if raw = [] \<or> length raw > max_location_depth
                  then add_field (item_key ''items'' i ''new_location.names'') ''Give between 1 and 16 names.'' fs else fs) in
            (d\<lparr>id_new_location := Some \<lparr>il_parent = parent, il_names = names\<rparr>\<rparr>, fs))"

definition item_expiration :: "nat \<Rightarrow> ingest_item \<Rightarrow> ingest_decision \<Rightarrow> field_map \<Rightarrow> ingest_decision \<times> field_map" where
  "item_expiration i item d fs = (case im_expiration item of
      Absent \<Rightarrow> (d, fs)
    | raw \<Rightarrow> (case parse_expiration_date raw of
          Inl _ \<Rightarrow> (d\<lparr>id_edited := True, id_expiration := None\<rparr>,
            add_field (item_key ''items'' i ''expiration_date'') ''Must be a YYYY-MM-DD date or null.'' fs)
        | Inr date \<Rightarrow> (d\<lparr>id_edited := True, id_expiration := date\<rparr>, fs)))"

definition item_container :: "nat \<Rightarrow> ingest_item \<Rightarrow> ingest_decision \<Rightarrow> field_map \<Rightarrow> ingest_decision \<times> field_map" where
  "item_container i item d fs = (case parse_creation_container_fields (im_label item) (im_type item) [] of
     (label, ty, problems) \<Rightarrow> (d\<lparr>id_label := label, id_type := ty\<rparr>,
       fold (\<lambda>(field, msgs) fs. fold (add_field (item_key ''items'' i field)) msgs fs) problems fs))"

definition parse_decision :: "nat \<Rightarrow> ingest_item \<Rightarrow> field_map \<Rightarrow> (ingest_decision \<times> image_choice option) option \<times> field_map" where
  "parse_decision i item fs =
     (let d = bare_decision (im_row item);
          fs = (if im_row item = [] then add_field (item_key ''items'' i ''row_id'') ''Required.'' fs else fs) in
      if im_decision item = ''reject'' then (Some (d, None), fs)
      else if im_decision item \<noteq> ''accept''
      then (None, add_field (item_key ''items'' i ''decision'') ''Must be accept or reject.'' fs)
      else
        let (d, choice, fs) = item_product i item (d\<lparr>id_accept := True\<rparr>) fs;
            fs = (if im_quantity item < 1 \<or> im_quantity item > max_ingest_quantity
              then add_field (item_key ''items'' i ''quantity'') ''Must be a whole number of at least 1.'' fs else fs);
            (d, fs) = item_location i item (d\<lparr>id_quantity := im_quantity item\<rparr>) fs;
            (d, fs) = item_expiration i item d fs;
            (d, fs) = item_container i item d fs in
        (Some (d, choice), fs))"

fun parse_decision_rows ::
    "nat \<Rightarrow> ingest_item list \<Rightarrow> field_map \<Rightarrow> (ingest_decision \<times> image_choice option) list \<times> field_map" where
  "parse_decision_rows i [] fs = ([], fs)"
| "parse_decision_rows i (item # items) fs = (case parse_decision i item fs of
      (d, fs1) \<Rightarrow> (case parse_decision_rows (Suc i) items fs1 of
          (ds, fs2) \<Rightarrow> (case d of None \<Rightarrow> ds | Some x \<Rightarrow> x # ds, fs2)))"

text \<open>Every accepted row with the picture it asks for, when nothing is wrong with the body.\<close>

definition parse_decisions :: "ingest_item list option \<Rightarrow> failure + (ingest_decision \<times> image_choice option) list" where
  "parse_decisions items = (case items of
      None \<Rightarrow> Inl (validation_failed [(''items'', [''A decision for every proposed row is required.''])])
    | Some rows \<Rightarrow>
        if length rows > max_ingest_rows then Inl (validation_failed [(''items'', [''Too many rows.''])])
        else case parse_decision_rows 0 rows [] of
          (ds, fs) \<Rightarrow> if fs \<noteq> [] then Inl (validation_failed fs) else Inr ds)"

text \<open>
  Cutting a picture reads the photo and writes a file: it is refused with a message for the row, breaks
  down, or gives the address the product records. Files no product uses are removed afterwards.
\<close>

datatype photo_state = PhotoThere | PhotoGone | PhotoBroken

datatype cut_result = CutRefused string string | CutBroken | CutSaved string

record cutter =
  ct_photo :: "job \<Rightarrow> photo_state"
  ct_cut :: "job \<Rightarrow> string \<Rightarrow> image_choice \<Rightarrow> cut_result"

definition with_picture :: "string \<Rightarrow> ingest_decision \<Rightarrow> ingest_decision" where
  "with_picture url d = d\<lparr>id_new := map_option (\<lambda>n. n\<lparr>ip_image := Some url\<rparr>) (id_new d)\<rparr>"

fun cut_pictures ::
    "(string \<Rightarrow> image_choice \<Rightarrow> cut_result) \<Rightarrow> nat \<Rightarrow> (ingest_decision \<times> image_choice option) list \<Rightarrow> failure + ingest_decision list" where
  "cut_pictures snip i [] = Inr []"
| "cut_pictures snip i ((d, None) # ds) = map_sum id ((#) d) (cut_pictures snip (Suc i) ds)"
| "cut_pictures snip i ((d, Some choice) # ds) = (case snip (id_row d) choice of
      CutRefused field msg \<Rightarrow> Inl (validation_failed [(item_key ''items'' i field, [msg])])
    | CutBroken \<Rightarrow> Inl internal
    | CutSaved url \<Rightarrow> map_sum id ((#) (with_picture url d)) (cut_pictures snip (Suc i) ds))"

fun first_from_photo :: "nat \<Rightarrow> (ingest_decision \<times> image_choice option) list \<Rightarrow> nat option" where
  "first_from_photo i [] = None"
| "first_from_photo i ((_, c) # ds) = (if c = Some CropImage \<or> c = Some PhotoImage then Some i else first_from_photo (Suc i) ds)"

definition cut_all :: "cutter \<Rightarrow> job \<Rightarrow> (ingest_decision \<times> image_choice option) list \<Rightarrow> failure + ingest_decision list" where
  "cut_all ct j ds = (case first_from_photo 0 ds of
      None \<Rightarrow> cut_pictures (ct_cut ct j) 0 ds
    | Some i \<Rightarrow> (case ct_photo ct j of
          PhotoThere \<Rightarrow> cut_pictures (ct_cut ct j) 0 ds
        | PhotoGone \<Rightarrow> Inl (validation_failed [(item_key ''items'' i ''new_product.image'',
            [''This proposal has no photo to take a picture from.''])])
        | PhotoBroken \<Rightarrow> Inl internal))"

definition write_product_images ::
    "cutter \<Rightarrow> uuid \<Rightarrow> uuid \<Rightarrow> (ingest_decision \<times> image_choice option) list \<Rightarrow>
     (ingest_decision list \<Rightarrow> 'b handler) \<Rightarrow> 'b handler" where
  "write_product_images ct st j ds k =
     (if list_all (\<lambda>(_, c). c = None) ds then k (map fst ds)
      else call (job_in_storage st j) (\<lambda>e. from_store_error e ''job not found in storage'') (\<lambda>job.
        if jb_status (snd job) \<noteq> JobDone then k (map fst ds)
        else case cut_all ct (snd job) ds of Inl f \<Rightarrow> refuse f | Inr ds' \<Rightarrow> k ds'))"

definition ingest_error :: "err \<Rightarrow> failure" where
  "ingest_error e =
     (if e = ErrValidation then validation_failed [(''items'',
        [''Every proposed row needs exactly one decision, and only proposed rows may be decided.''])]
      else if e = ErrConflict then conflict_as e [] ''This proposal has already been confirmed, or is not ready for review.''
      else from_store_error e ''job or referenced id not found in storage'')"

definition ingest_confirm ::
    "list_env \<Rightarrow> cutter \<Rightarrow> http_context \<Rightarrow> uuid option \<Rightarrow> ingest_item list option decoded \<Rightarrow>
     ingest_result handler" where
  "ingest_confirm env ct cx raw body =
     with_storage cx (\<lambda>st. with_user cx (\<lambda>u. id_from_path raw ''malformed job id'' (\<lambda>j. decode_json body (\<lambda>items.
       case parse_decisions items of
         Inl f \<Rightarrow> refuse f
       | Inr ds \<Rightarrow> write_product_images ct st j ds (\<lambda>ds.
           call (confirm_ingestion (le_low env) (le_fold env) st j (Some (fst u)) ds) ingest_error (answer_with 200))))))"

section \<open>The requests\<close>

datatype list_request =
    CreateListRequest "list_body decoded"
  | RematchRequest "uuid option" "string decoded"
  | ResolveRequest "uuid option" "resolve_request decoded"
  | ConfirmPhotoRequest cutter "uuid option" "ingest_item list option decoded"

fun serve_lists :: "list_env \<Rightarrow> list_request \<Rightarrow> unit endpoint" where
  "serve_lists env (CreateListRequest body) cx = bodiless (shopping_create env cx body)"
| "serve_lists env (RematchRequest raw body) cx = bodiless (shopping_rematch env cx raw body)"
| "serve_lists env (ResolveRequest raw body) cx = bodiless (shopping_resolve env cx raw body)"
| "serve_lists env (ConfirmPhotoRequest ct raw body) cx = bodiless (ingest_confirm env ct cx raw body)"

lemma keeps_item_by_id: "keeps P (shopping_item_by_id st i)"
  by (auto simp: keeps_def shopping_item_by_id_def row_tx_iff)

lemma keeps_job_read: "keeps P (job_in_storage st i)"
  by (auto simp: keeps_def job_in_storage_def row_tx_iff)

lemma list_requests_uphold: "upholds stock_inv (serve_lists env r cx)"
  by (cases r)
    (simp only: serve_lists.simps, unfold shopping_create_def create_from_job_def create_from_text_def match_all_def
      shopping_rematch_def shopping_resolve_def resolve_with_def ingest_confirm_def write_product_images_def Let_def,
      (intro upholds_intros stock_intros keeps_item_by_id keeps_job_read)+)+

lemma reclassifiable_known: "reclassifiable_lines reading j = Inl f \<Longrightarrow> known_failure f"
  by (auto simp: reclassifiable_lines_def split: if_splits option.splits)

lemma accept_known: "accept_card env shown variant s = Inl f \<Longrightarrow> known_failure f"
  by (auto simp: accept_card_def Let_def split: if_splits option.splits sum.splits prod.splits)

lemma described_known: "described_product env shown n = Inl f \<Longrightarrow> known_failure f"
  by (auto simp: described_product_def Let_def split: option.splits promoted.splits)

lemma new_product_known: "resolved_new_product env st line n s = Inl f \<Longrightarrow> known_failure f"
  by (auto simp: resolved_new_product_def split: option.splits if_splits dest: accept_known described_known)

lemma decisions_known: "parse_decisions items = Inl f \<Longrightarrow> known_failure f"
  by (auto simp: parse_decisions_def split: option.splits if_splits prod.splits)

lemma cut_pictures_known: "cut_pictures snip i ds = Inl f \<Longrightarrow> known_failure f"
  by (induction snip i ds rule: cut_pictures.induct) (auto simp: map_sum_def split: cut_result.splits sum.splits)

lemma cut_all_known: "cut_all ct j ds = Inl f \<Longrightarrow> known_failure f"
  by (auto simp: cut_all_def split: option.splits photo_state.splits dest: cut_pictures_known)

lemma ingest_error_known [simp]: "known_failure (ingest_error e)"
  by (simp add: ingest_error_def)

lemma reads_item_by_id: "only_reads (shopping_item_by_id st i)"
  by (auto simp: only_reads_def shopping_item_by_id_def row_tx_iff)

lemma reads_job: "only_reads (job_in_storage st i)"
  by (auto simp: only_reads_def job_in_storage_def row_tx_iff)

text \<open>What is read is what the state gives.\<close>

lemma traceless_read_of: "(\<And>s. traceless (k (f s))) \<Longrightarrow> traceless (read_state f k)"
  by (simp add: traceless_def read_state_def)

lemmas traceless_lookups = traceless_read_of traceless_reading_call [OF reads_item_by_id] traceless_reading_call [OF reads_job]

lemma traceless_lists: "traceless (serve_lists env r cx)"
proof -
  have "traceless (shopping_create env cx b)" for b
    unfolding shopping_create_def create_from_job_def create_from_text_def match_all_def Let_def
    by (intro traceless_lookups traceless_intros) (simp_all add: reclassifiable_known)
  moreover have "traceless (shopping_rematch env cx raw b)" for raw b
    unfolding shopping_rematch_def Let_def by (intro traceless_intros) simp_all
  moreover have "traceless (resolve_with env st u i b line new)" for st u i b line new
    unfolding resolve_with_def by (intro traceless_intros) simp_all
  then have "traceless (shopping_resolve env cx raw b)" for raw b
    unfolding shopping_resolve_def Let_def by (intro traceless_lookups traceless_intros) (simp_all add: new_product_known)
  moreover have "traceless (ingest_confirm env ct cx raw b)" for ct raw b
    unfolding ingest_confirm_def write_product_images_def
    by (intro traceless_lookups traceless_intros) (simp_all add: decisions_known cut_all_known)
  ultimately show ?thesis by (cases r) (simp_all add: traceless_bodiless)
qed

section \<open>What can be accepted from the catalogue\<close>

text \<open>The matcher the server is wired to.\<close>

definition matching_env :: "similarity \<Rightarrow> (string \<Rightarrow> 'c :: linorder) \<Rightarrow> list_env \<Rightarrow> list_env" where
  "matching_env sim coll env = env\<lparr>le_match := \<lambda>st t s. match_product_candidates sim coll (le_fold env) st t s\<rparr>"

lemma similar_catalog_variants:
  assumes "match_product_candidates sim coll fold_case st t s = Some r" and "mr_catalog r = Some m"
    and "v \<in> set (cm_variants m)"
  shows "\<exists>e. (cv_id v, e) \<in> set (catalog s) \<and> ct_display e = cv_name v"
proof -
  have "cm_variants m = catalog_variants_of sim coll (cm_id m) (normalize_query fold_case t) max_variants s"
    using assms(1,2) by (auto simp: match_product_candidates_def Let_def match_local_def split: if_splits option.splits list.splits)
  with assms(3) show ?thesis
    by (auto simp: catalog_variants_of_def tbl_select_def dest!: in_set_takeD split: option.splits)
qed

lemma found_by_name:
  "find_catalog_product low n s = Inr ((i, e), s') \<Longrightarrow> (i, e) \<in> set (catalog s) \<and> ct_normalized e = normalize_query low n"
  unfolding find_catalog_product_def catalog_by_name_def row_tx_iff by (auto simp: find_Some_iff) (metis nth_mem)


definition catalog_row_of :: "string \<Rightarrow> uuid option \<Rightarrow> catalog_entry" where
  "catalog_row_of n base = \<lparr>ct_normalized = n, ct_display = n, ct_base = base, ct_category_path = None, ct_item_type = LongShelfLife,
     ct_image = None, ct_icon = None, ct_days = None, ct_created = 0\<rparr>"

definition offer_db :: db where
  "offer_db = empty_db\<lparr>catalog := [(80, catalog_row_of ''tomato'' None), (81, catalog_row_of ''cherry'' (Some 80))]\<rparr>"

definition offer_env :: list_env where
  "offer_env = matching_env demo_similarity length \<lparr>le_match = \<lambda>_ _ _. None, le_low = id, le_fold = id,
     le_codec = \<lparr>uc_text = \<lambda>_. [], uc_parse = \<lambda>_. None\<rparr>,
     le_pictures = \<lparr>px_promote = \<lambda>_. PictureUnavailable, px_source = \<lambda>_. None, px_card = \<lambda>_. None\<rparr>, le_reading = \<lambda>_. None\<rparr>"

definition take_variant :: resolve_new where
  "take_variant = \<lparr>rn_from = ''catalog'', rn_variant = Some ''cherry'', rn_name = [], rn_category = None, rn_item_type = [],
     rn_min_stock = None, rn_image = None\<rparr>"

lemma norm_words: "normalize_query id ''tomatoes'' = ''tomatoes''" "normalize_query id ''tomato'' = ''tomato''"
  "normalize_query id ''cherry'' = ''cherry''"
  by (simp_all add: normalize_query_def trim_space_def white_space_def fields.simps)


section \<open>A photo is filed once\<close>

lemma confirm_consumes:
  assumes "confirm_ingestion low fold_case st j user ds s = Inr (out, s')"
  shows "\<exists>row. find_job st j s' = Some row \<and> jb_status row = JobConsumed"
proof (rule confirm_steps [OF assms])
  fix s2 assume "consume_job st j s2 = Inr ((), s')"
  then show ?thesis by (auto simp: tx_iff find_job_Some)
qed

lemma consumed_job_refused:
  assumes "find_job st j s = Some row" and "jb_status row = JobConsumed"
  shows "confirm_ingestion low fold_case st j user ds s = Inl ErrConflict"
  using assms by (simp add: confirm_ingestion_def tx_defs)

text \<open>
  C14. A reviewed photo becomes stock once: after a confirm that was answered, any further confirm of the
  same job, with any body and by anyone of the storage, is refused and changes nothing.
\<close>

theorem photo_filed_once:
  assumes "ingest_confirm env ct cx (Some j) body s = (Inr reply, s')" and "cx_storage cx' = cx_storage cx"
  shows "\<exists>f. ingest_confirm env' ct' cx' (Some j) body' s' = (Inl f, s') \<and> known_failure f"
proof -
  obtain st user ds out where st: "cx_storage cx = Some st"
    and run: "confirm_ingestion (le_low env) (le_fold env) st j user ds s = Inr (out, s')"
    using assms(1) by (auto simp: ingest_confirm_def write_product_images_def with_storage_def with_user_def id_from_path_def
        decode_json_def refuse_def call_def answer_with_def in_tx_def job_in_storage_def row_tx_def
        split: option.splits decoded.splits sum.splits if_splits)
  obtain row where row: "find_job st j s' = Some row" "jb_status row = JobConsumed" using confirm_consumes [OF run] by blast
  have "\<exists>f. ingest_confirm env' ct' cx' (Some j) body' s' = (Inl f, s')"
    using assms(2) st row consumed_job_refused [OF row]
    by (auto simp: ingest_confirm_def write_product_images_def with_storage_def with_user_def id_from_path_def decode_json_def
        refuse_def call_def in_tx_def job_in_storage_def row_tx_def split: option.split decoded.split sum.split)
  then obtain f where f: "ingest_confirm env' ct' cx' (Some j) body' s' = (Inl f, s')" by blast
  have "bodiless (ingest_confirm env' ct' cx' (Some j) body') s' = (Inl f, s')" by (simp add: bodiless_def f)
  then show ?thesis using f tracelessD [OF traceless_lists [of env' "ConfirmPhotoRequest ct' (Some j) body'" cx']] by simp
qed

definition reject_row :: "string \<Rightarrow> ingest_item" where
  "reject_row r = \<lparr>im_row = r, im_decision = ''reject'', im_product = None, im_new = None, im_quantity = 0, im_location = None,
     im_new_location = None, im_expiration = Absent, im_label = None, im_type = None\<rparr>"

definition review :: "ingest_item list option decoded" where
  "review = Decoded (Some [(reject_row ''a'')\<lparr>im_decision := ''accept'', im_product := Some 5, im_quantity := 4, im_location := Some 11\<rparr>,
     reject_row ''b'', reject_row ''c'', reject_row ''d''])"

definition no_cutter :: cutter where
  "no_cutter = \<lparr>ct_photo = \<lambda>_. PhotoGone, ct_cut = \<lambda>_ _ _. CutBroken\<rparr>"

definition reviewer :: http_context where
  "reviewer = \<lparr>cx_user = Some (7, some_account), cx_session = None, cx_storage = Some 2\<rparr>"

definition review_db :: db where
  "review_db = ingest_db\<lparr>accounts := [(7, some_account)]\<rparr>"

lemma review_commits: "\<not> isl (fst (ingest_confirm offer_env no_cutter reviewer (Some 40) review review_db))"
  by code_simp

theorem photo_filed_once_witness:
  "\<exists>reply s' f. ingest_confirm offer_env no_cutter reviewer (Some 40) review review_db = (Inr reply, s')
     \<and> ingest_confirm offer_env no_cutter reviewer (Some 40) review s' = (Inl f, s')"
proof -
  obtain out s' where run: "ingest_confirm offer_env no_cutter reviewer (Some 40) review review_db = (out, s')"
    by (cases "ingest_confirm offer_env no_cutter reviewer (Some 40) review review_db")
  with review_commits obtain reply where "out = Inr reply" by (cases out) auto
  with run photo_filed_once [of offer_env no_cutter reviewer 40 review review_db reply s' reviewer offer_env no_cutter review]
  show ?thesis by auto
qed

end
