(* ===== verification/ProductsApi.thy ===== *)
theory ProductsApi
  imports ShoppingApi
begin

text \<open>
  The endpoints of products (\<open>httpapi/products.go\<close>): the lists, the detail every write answers with, the
  creation that reuses what the storage already has, the edits, the merge and the deletion. A strict body
  also refuses fields it does not know. The files behind pictures are arguments: what promoting a picture
  gives, and the name of the file a deletion leaves without a product.
\<close>

section \<open>Strict bodies\<close>

datatype 'a strict = UnknownField string | Lenient "'a decoded"

definition decode_json_strict :: "'a strict \<Rightarrow> ('a \<Rightarrow> 'b handler) \<Rightarrow> 'b handler" where
  "decode_json_strict d k = (case d of
      UnknownField f \<Rightarrow> refuse (validation_failed [(''body'', [''Unknown field '' @ f @ ''.''])])
    | Lenient b \<Rightarrow> decode_json b k)"

section \<open>Lists\<close>

datatype product_reply =
    ProductNames "(uuid \<times> string) list"
  | ProductHits "product_summary list"
  | ProductDelta "(uuid \<times> string) list" "uuid list" instant

definition named :: "uuid \<times> product \<Rightarrow> uuid \<times> string" where
  "named x = (fst x, pr_name (snd x))"

definition product_list_delta ::
    "(string \<Rightarrow> 'c :: linorder) \<Rightarrow> instant list \<Rightarrow> uuid \<Rightarrow> instant \<Rightarrow> product_reply handler" where
  "product_list_delta coll in_flight st since s =
     (case load_delta TombstoneProduct (products_changed_since coll) st since (delta_watermark (db_now s) in_flight) s s of
        Inl e \<Rightarrow> refuse (from_store_error e ''list product delta'') s
      | Inr d \<Rightarrow> answer_with 200 (ProductDelta (map named (dl_changed d)) (dl_deleted d) (dl_synced d)) s)"

definition product_list ::
    "(string \<Rightarrow> 'c :: linorder) \<Rightarrow> (char \<Rightarrow> char) \<Rightarrow> http_context \<Rightarrow> instant list \<Rightarrow> instant raw \<Rightarrow> string option \<Rightarrow> product_reply handler" where
  "product_list coll low cx in_flight raw q =
     with_storage cx (\<lambda>st. case read_delta_since raw of
         Inl f \<Rightarrow> refuse f
       | Inr (Some since) \<Rightarrow> product_list_delta coll in_flight st since
       | Inr None \<Rightarrow> (case q of
             Some query \<Rightarrow> read_state (search_products coll low st (trim_space query)) (answer_with 200 \<circ> ProductHits)
           | None \<Rightarrow> read_state (list_products coll st) (answer_with 200 \<circ> ProductNames \<circ> map named)))"

definition product_batches :: "http_context \<Rightarrow> uuid option \<Rightarrow> batch_view list handler" where
  "product_batches cx raw =
     with_storage cx (\<lambda>st. id_from_path raw ''malformed product id'' (\<lambda>p.
       call (list_product_batches st p) (\<lambda>e. from_store_error e ''product not found in storage'') (answer_with 200)))"

section \<open>The detail\<close>

record product_detail =
  dv_product :: "uuid \<times> product"
  dv_stock :: int
  dv_batches :: "batch_view list"
  dv_logs :: "(uuid \<times> log_row) list"
  dv_moved :: "nat option"
  dv_recomputed :: "nat option"

definition product_log_limit :: nat where "product_log_limit = 50"

text \<open>Four reads; what every write of a product answers with.\<close>

definition detail ::
    "uuid \<Rightarrow> uuid \<Rightarrow> nat option \<Rightarrow> nat option \<Rightarrow> (product_detail \<Rightarrow> 'b handler) \<Rightarrow> 'b handler" where
  "detail st p moved recomputed k =
     call (get_product st p) (\<lambda>e. from_store_error e ''product not found in storage'') (\<lambda>row.
     read_state (current_stock st p) (\<lambda>n.
     call (list_product_batches st p) (\<lambda>e. from_store_error e ''product not found in storage'') (\<lambda>bs.
     call (list_product_logs st p product_log_limit) (\<lambda>e. from_store_error e ''product not found in storage'') (\<lambda>ls.
       k \<lparr>dv_product = (p, row), dv_stock = n, dv_batches = bs, dv_logs = ls, dv_moved = moved, dv_recomputed = recomputed\<rparr>))))"

definition product_get :: "http_context \<Rightarrow> uuid option \<Rightarrow> product_detail handler" where
  "product_get cx raw =
     with_storage cx (\<lambda>st. id_from_path raw ''malformed product id'' (\<lambda>p. detail st p None None (answer_with 200)))"

section \<open>Creating a product\<close>

definition max_product_name_length :: nat where "max_product_name_length = 255"
definition max_icon_name_length :: nat where "max_icon_name_length = 100"

record create_product_request =
  cq_name :: string
  cq_category :: "uuid option option"
  cq_item_type :: string
  cq_min_stock :: "int option"
  cq_image :: "string option"
  cq_icon :: "string option"

definition product_name_problem :: "string \<Rightarrow> field_map \<Rightarrow> field_map" where
  "product_name_problem name fs =
     (if name = [] then add_field ''name'' ''Give the product a name.'' fs
      else if rune_count name > max_product_name_length then add_field ''name'' ''Keep the name under 255 characters.'' fs
      else fs)"

definition type_problem :: "field_map \<Rightarrow> field_map" where
  "type_problem fs = add_field ''item_type'' ''Must be \"perishable\", \"long_shelf_life\" or \"non_perishable\".'' fs"

definition min_stock_problem :: "int option \<Rightarrow> field_map \<Rightarrow> field_map" where
  "min_stock_problem n fs = (if pred_option (\<lambda>m. \<not> m < 0) n then fs else add_field ''min_stock'' ''Cannot be negative.'' fs)"

definition icon_of :: "string \<Rightarrow> string \<Rightarrow> field_map \<Rightarrow> string option \<times> field_map" where
  "icon_of empty_message raw fs = (let t = trim_space raw in
     if t = [] then (None, add_field ''icon_name'' empty_message fs)
     else if rune_count t > max_icon_name_length then (None, add_field ''icon_name'' ''Keep the icon name under 100 characters.'' fs)
     else (Some t, fs))"

definition parse_new_product :: "create_product_request \<Rightarrow> new_product \<times> field_map" where
  "parse_new_product b =
     (let name = trim_space (cq_name b);
          fs = product_name_problem name [];
          fs = (if cq_item_type b = [] \<or> known_item_type (cq_item_type b) then fs else type_problem fs);
          fs = min_stock_problem (cq_min_stock b) fs;
          (category, fs) = (case cq_category b of
              None \<Rightarrow> (None, fs) | Some (Some c) \<Rightarrow> (Some c, fs) | Some None \<Rightarrow> (None, add_field ''category_id'' ''Must be a UUID.'' fs));
          (icon, fs) = (case cq_icon b of
              None \<Rightarrow> (None, fs) | Some raw \<Rightarrow> icon_of ''Send null, not an empty string, for no icon.'' raw fs) in
      (\<lparr>np_name = name, np_category = category, np_catalog = None, np_item_type = given_item_type (cq_item_type b), np_days = None,
        np_min_stock = (case cq_min_stock b of None \<Rightarrow> 0 | Some m \<Rightarrow> m), np_image = None, np_icon = icon\<rparr>, fs))"

text \<open>Nothing for no picture, the address of the saved one, or why there is none.\<close>

definition promoted_picture :: "picture_box \<Rightarrow> string \<Rightarrow> string option \<Rightarrow> failure + string option" where
  "promoted_picture px gone_message hash = (case hash of
      None \<Rightarrow> Inr None
    | Some h \<Rightarrow> (case px_promote px h of
          PictureUnavailable \<Rightarrow> Inl (validation_failed [(''image'', [gone_message])])
        | PictureBroken \<Rightarrow> Inl internal
        | PictureSaved url _ \<Rightarrow> Inr (Some url)))"

definition product_insert :: "picture_box \<Rightarrow> uuid \<Rightarrow> string option \<Rightarrow> new_product \<Rightarrow> product_detail handler" where
  "product_insert px st hash inp =
     (case promoted_picture px ''That picture is no longer available. Pick another, or continue without one.'' hash of
        Inl f \<Rightarrow> refuse f
      | Inr pic \<Rightarrow>
          call (create_product st (inp\<lparr>np_image := pic\<rparr>)) (\<lambda>e. from_store_error e ''category not found in storage'')
            (\<lambda>p. detail st (fst p) None None (answer_with 201)))"

text \<open>A product the storage clearly has already is answered with, and nothing is created.\<close>

definition product_create ::
    "(uuid \<Rightarrow> string \<Rightarrow> db \<Rightarrow> match_result option) \<Rightarrow> picture_box \<Rightarrow> http_context \<Rightarrow> create_product_request decoded \<Rightarrow>
     product_detail handler" where
  "product_create matcher px cx body =
     with_storage cx (\<lambda>st. decode_json body (\<lambda>b. case parse_new_product b of (inp, fs) \<Rightarrow>
       no_problems fs (read_state (matcher st (np_name inp)) (\<lambda>m. case m of
           None \<Rightarrow> refuse internal
         | Some r \<Rightarrow> (case (mr_status r, mr_product r) of
               (ItemExactMatch, Some c) \<Rightarrow> detail st (lc_product c) None None (answer_with 200)
             | _ \<Rightarrow> product_insert px st (cq_image b) inp)))))"

section \<open>Edits\<close>

definition set_category :: "http_context \<Rightarrow> uuid option \<Rightarrow> uuid option option decoded \<Rightarrow> uuid option handler" where
  "set_category cx raw body =
     with_storage cx (\<lambda>st. with_user cx (\<lambda>u. id_from_path raw ''malformed product id'' (\<lambda>p. decode_json body (\<lambda>c. case c of
         Some None \<Rightarrow> refuse (validation_failed [(''category_id'', [''Must be a UUID or null.''])])
       | _ \<Rightarrow> let category = Option.bind c id in
           call (set_product_category_as_user st p category (fst u)) (\<lambda>e. from_store_error e ''product or category not found in storage'')
             (\<lambda>_. answer_with 200 category)))))"

definition set_image ::
    "picture_box \<Rightarrow> http_context \<Rightarrow> uuid option \<Rightarrow> (string option \<times> string option) decoded \<Rightarrow> (string option \<times> string option) handler" where
  "set_image px cx raw body =
     with_storage cx (\<lambda>st. with_user cx (\<lambda>u. id_from_path raw ''malformed product id'' (\<lambda>p. decode_json body (\<lambda>(hash, icon).
       case promoted_picture px ''That picture is no longer available. Pick another.'' hash of
         Inl f \<Rightarrow> refuse f
       | Inr pic \<Rightarrow>
           call (set_product_image_as_user st p pic icon (fst u)) (\<lambda>e. from_store_error e ''product not found in storage'')
             (\<lambda>_. answer_with 200 (pic, icon))))))"

record product_edit =
  pd_name :: "string option"
  pd_category :: "uuid raw"
  pd_item_type :: "string option"
  pd_min_stock :: "int option"
  pd_days :: "int raw"
  pd_icon :: "string raw"

definition edited_category :: "uuid raw \<Rightarrow> field_map \<Rightarrow> bool \<times> uuid option \<times> field_map" where
  "edited_category raw fs = (case raw of
      Absent \<Rightarrow> (False, None, fs) | Null \<Rightarrow> (True, None, fs) | Value c \<Rightarrow> (True, Some c, fs)
    | Malformed \<Rightarrow> (True, None, add_field ''category_id'' ''Must be a UUID or null.'' fs))"

definition edited_days :: "int raw \<Rightarrow> field_map \<Rightarrow> bool \<times> int option \<times> field_map" where
  "edited_days raw fs = (if raw = Absent then (False, None, fs) else case parse_shelf_life_days raw of
      Inl f \<Rightarrow> (True, None, add_fields (fl_fields f) fs) | Inr d \<Rightarrow> (True, d, fs))"

definition edited_icon :: "string raw \<Rightarrow> field_map \<Rightarrow> bool \<times> string option \<times> field_map" where
  "edited_icon raw fs = (case raw of
      Absent \<Rightarrow> (False, None, fs) | Null \<Rightarrow> (True, None, fs)
    | Value t \<Rightarrow> (True, icon_of ''Send null to clear the icon.'' t fs)
    | Malformed \<Rightarrow> (True, None, add_field ''icon_name'' ''Must be a string or null.'' fs))"

definition parse_product_edit :: "product_edit \<Rightarrow> product_patch \<times> field_map" where
  "parse_product_edit b =
     (let (name, fs) = (case pd_name b of None \<Rightarrow> (None, []) | Some raw \<Rightarrow> (Some (trim_space raw), product_name_problem (trim_space raw) []));
          (set_category, category, fs) = edited_category (pd_category b) fs;
          (ty, fs) = (case pd_item_type b of None \<Rightarrow> (None, fs)
            | Some t \<Rightarrow> if known_item_type t then (Some (item_type_of t), fs) else (None, type_problem fs));
          fs = min_stock_problem (pd_min_stock b) fs;
          (set_days, days, fs) = edited_days (pd_days b) fs;
          (set_icon, icon, fs) = edited_icon (pd_icon b) fs in
      (\<lparr>pp_name = name, pp_set_category = set_category, pp_category = category, pp_item_type = ty, pp_min_stock = pd_min_stock b,
        pp_set_days = set_days, pp_days = days, pp_set_icon = set_icon, pp_icon = icon\<rparr>, fs))"

definition product_update :: "http_context \<Rightarrow> uuid option \<Rightarrow> product_edit strict \<Rightarrow> product_detail handler" where
  "product_update cx raw body =
     with_storage cx (\<lambda>st. id_from_path raw ''malformed product id'' (\<lambda>p. decode_json_strict body (\<lambda>b.
       case parse_product_edit b of (patch, fs) \<Rightarrow> no_problems fs
         (call (update_product st p patch) (\<lambda>e. from_store_error e ''product or category not found in storage'')
           (\<lambda>r. detail st p None (if pp_set_days patch then Some (snd r) else None) (answer_with 200))))))"

section \<open>Merge and deletion\<close>

text \<open>
  The file of a picture no product shows any more: the last segment of one of this server's own addresses,
  and never a path.
\<close>

definition slash :: char where "slash = CHR 0x2F"

fun after_marker :: "string \<Rightarrow> string \<Rightarrow> string option" where
  "after_marker marker [] = (if marker = [] then Some [] else None)"
| "after_marker marker (c # cs) = (if take (length marker) (c # cs) = marker then Some (drop (length marker) (c # cs))
     else after_marker marker cs)"

definition stored_picture :: "string \<Rightarrow> string option" where
  "stored_picture url =
     (if url = [] \<or> take 14 url \<noteq> ''/api/storages/'' then None
      else case after_marker ''/product-images/'' url of
          None \<Rightarrow> None
        | Some name \<Rightarrow> if name = [] \<or> slash \<in> set name then None else Some name)"

definition product_merge :: "http_context \<Rightarrow> uuid option \<Rightarrow> uuid option strict \<Rightarrow> (product_detail \<times> string option) handler" where
  "product_merge cx raw body =
     with_storage cx (\<lambda>st. id_from_path raw ''malformed product id'' (\<lambda>survivor. decode_json_strict body (\<lambda>source. case source of
         None \<Rightarrow> refuse (validation_failed [(''source_product_id'', [''Must be a UUID.''])])
       | Some from \<Rightarrow>
           if from = survivor then refuse (validation_failed [(''source_product_id'', [''A product cannot be merged into itself.''])])
           else call (merge_products st survivor from) (\<lambda>e. from_store_error e ''product not found in storage'') (\<lambda>r.
             detail st survivor (Some (mr_moved r)) (Some (mr_recomputed r)) (\<lambda>d. answer_with 200 (d, stored_picture (mr_orphan r)))))))"

definition product_delete :: "http_context \<Rightarrow> uuid option \<Rightarrow> string option handler" where
  "product_delete cx raw =
     with_storage cx (\<lambda>st. id_from_path raw ''malformed product id'' (\<lambda>p.
       call (delete_product st p) (\<lambda>e. from_store_error e ''product not found in storage'')
         (\<lambda>orphan. answer_with 204 (stored_picture orphan))))"

section \<open>The requests\<close>

datatype product_request =
    CreateProductRequest "create_product_request decoded"
  | CategorizeRequest "uuid option" "uuid option option decoded"
  | PictureRequest "uuid option" "(string option \<times> string option) decoded"
  | EditProductRequest "uuid option" "product_edit strict"
  | MergeRequest "uuid option" "uuid option strict"
  | DeleteProductRequest "uuid option"

record product_env =
  pv_matcher :: "uuid \<Rightarrow> string \<Rightarrow> db \<Rightarrow> match_result option"
  pv_pictures :: picture_box

fun serve_products :: "product_env \<Rightarrow> product_request \<Rightarrow> unit endpoint" where
  "serve_products env (CreateProductRequest body) cx = bodiless (product_create (pv_matcher env) (pv_pictures env) cx body)"
| "serve_products env (CategorizeRequest raw body) cx = bodiless (set_category cx raw body)"
| "serve_products env (PictureRequest raw body) cx = bodiless (set_image (pv_pictures env) cx raw body)"
| "serve_products env (EditProductRequest raw body) cx = bodiless (product_update cx raw body)"
| "serve_products env (MergeRequest raw body) cx = bodiless (product_merge cx raw body)"
| "serve_products env (DeleteProductRequest raw) cx = bodiless (product_delete cx raw)"

section \<open>Every request keeps the books\<close>

lemma upholds_strict: "(\<And>b. upholds P (k b)) \<Longrightarrow> upholds P (decode_json_strict d k)"
  by (cases d) (simp_all add: decode_json_strict_def upholds_refuse upholds_decode)

lemma keeps_reads: "only_reads m \<Longrightarrow> keeps P m"
  by (auto simp: keeps_def only_reads_def)

lemma reads_product: "only_reads (get_product st p)"
  and reads_batches: "only_reads (list_product_batches st p)"
  and reads_logs: "only_reads (list_product_logs st p n)"
  by (auto simp: only_reads_def get_product_def list_product_batches_def list_product_logs_def tx_iff
      require_product_iff row_tx_iff)

lemmas detail_reads = reads_product reads_batches reads_logs

lemma upholds_detail: "(\<And>d. upholds P (k d)) \<Longrightarrow> upholds P (detail st p m n k)"
  unfolding detail_def by (intro upholds_intros detail_reads [THEN keeps_reads])

lemma product_requests_uphold: "upholds stock_inv (serve_products env r cx)"
proof -
  have insertion: "upholds stock_inv (product_insert px st hash inp)" for px st hash inp
    unfolding product_insert_def by (intro upholds_intros stock_intros upholds_detail)
  have create: "upholds stock_inv (product_create matcher px cx body)" for matcher px body
    unfolding product_create_def
    by (intro upholds_intros) (auto intro: upholds_detail insertion upholds_intros split: item_status.split option.split)
  show ?thesis
    by (cases r)
      (simp only: serve_products.simps, (rule upholds_bodiless)?, rule create,
       (simp only: serve_products.simps, unfold set_category_def set_image_def product_update_def product_merge_def product_delete_def Let_def,
        (intro upholds_intros stock_intros upholds_detail upholds_strict)+)+)
qed

section \<open>A refusal leaves no trace\<close>

text \<open>
  A write answers with the detail of the product it wrote, read after it has committed: the read cannot
  refuse, because the product is there.
\<close>

definition has_product :: "uuid \<Rightarrow> uuid \<Rightarrow> db \<Rightarrow> bool" where
  "has_product st p s \<longleftrightarrow> map_option pr_storage (map_of (products s) p) = Some st"

lemma detail_there:
  assumes "has_product st p s"
  shows "\<exists>d. detail st p m n k s = k d s"
  using assms
  by (auto simp: detail_def has_product_def call_def in_tx_def read_state_def get_product_def list_product_batches_def
      list_product_logs_def require_product_in_storage_def seq_tx_def bind_tx_def row_tx_def check_tx_def guard_tx_def get_tx_def)

lemma traceless_then_detail:
  assumes e: "\<And>e. known_failure (on_error e)" and k: "\<And>a d. settles (h a d)"
    and there: "\<And>s a s'. m s = Inr (a, s') \<Longrightarrow> has_product st (p a) s'"
  shows "traceless (call m on_error (\<lambda>a. detail st (p a) (mv a) (rc a) (h a)))"
  unfolding traceless_def
proof (intro allI impI)
  fix s f s' assume run: "call m on_error (\<lambda>a. detail st (p a) (mv a) (rc a) (h a)) s = (Inl f, s')"
  show "s' = s \<and> known_failure f"
  proof (cases "m s")
    case (Inl x)
    then show ?thesis using run e by (auto simp: call_def)
  next
    case (Inr x)
    then obtain a t where x: "m s = Inr (a, t)" by (cases x) simp
    obtain d where "detail st (p a) (mv a) (rc a) (h a) t = h a d t" using detail_there [OF there [OF x]] by blast
    with run x k [of a d] show ?thesis by (auto simp: call_def settles_def)
  qed
qed

lemma traceless_detail: "(\<And>d. traceless (k d)) \<Longrightarrow> traceless (detail st p m n k)"
  unfolding detail_def
  by (intro traceless_reading_call [OF reads_product] traceless_reading_call [OF reads_batches]
      traceless_reading_call [OF reads_logs] traceless_read) simp_all

lemma traceless_strict: "(\<And>b. traceless (k b)) \<Longrightarrow> traceless (decode_json_strict d k)"
  by (cases d) (simp_all add: decode_json_strict_def traceless_refuse traceless_decode)

lemma promoted_known: "promoted_picture px msg hash = Inl f \<Longrightarrow> known_failure f"
  by (auto simp: promoted_picture_def split: option.splits promoted.splits)

lemma created_there:
  assumes "create_product st inp s = Inr (r, s')"
  shows "has_product st (fst r) s'"
proof -
  obtain i s1 where r: "r = (i, product_of st inp (db_now s))"
    and ins: "insert_product i (product_of st inp (db_now s)) s1 = Inr ((), s')" by (rule create_product_steps [OF assms])
  from ins show ?thesis
    by (auto simp: r has_product_def insert_product_def tx_iff map_of_insert_fresh product_of_def)
qed

lemma applied_products: "apply_derived_expiry ds res s = Inr (n, s') \<Longrightarrow> products s' = products s"
proof -
  have "fold_tx (redate_batch res) ds a s = Inr (n, s') \<Longrightarrow> products s' = products s" for a
    by (induction ds arbitrary: a s) (auto simp: tx_iff redate_batch_def)
  then show "apply_derived_expiry ds res s = Inr (n, s') \<Longrightarrow> products s' = products s"
    by (simp add: apply_derived_expiry_def)
qed

lemma recomputed_products: "recompute_derived_expiry st p s = Inr (n, s') \<Longrightarrow> products s' = products s"
  by (auto simp: recompute_derived_expiry_def bind_tx_iff expiry_rules_iff load_derived_batches_def get_tx_iff
      dest: applied_products)

lemma touched_there:
  assumes "update_product_row i f s = Inr ((), s')" and "\<And>x. pr_storage (f x) = pr_storage x"
  shows "has_product st p s' = has_product st p s"
  using assms by (cases "map_of (products s) p") (auto simp: has_product_def update_product_row_iff map_of_tbl_upd)

lemma updated_there:
  assumes run: "update_product st p patch s = Inr (r, s')"
  shows "has_product st p s'"
proof -
  obtain row s1 where "map_of (products s) p = Some row" "pr_storage row = st"
    and u: "update_product_row p (patched patch) s = Inr ((), s1)"
    and r: "if touches_expiry_rules patch then recompute_derived_expiry st p s1 = Inr (snd r, s') else snd r = 0 \<and> s' = s1"
    by (rule update_product_steps [OF run])
  then have "has_product st p s1" using touched_there [OF u, of st p] by (simp add: has_product_def)
  moreover have "products s' = products s1" using r by (auto dest: recomputed_products split: if_splits)
  ultimately show ?thesis by (simp add: has_product_def)
qed

lemma map_of_tbl_del_other: "k \<noteq> i \<Longrightarrow> map_of (tbl_del (\<lambda>k _. k = i) t) k = map_of t k"
  by (induction t) (auto simp: tbl_del_def)

lemma merged_there:
  assumes run: "merge_products st survivor source s = Inr (r, s')"
  shows "has_product st survivor s'"
proof -
  obtain p q moved s0 s1 s2 s3 s4 s5 where "survivor \<noteq> source" "map_of (products s) survivor = Some p" "pr_storage p = st"
    "map_of (products s) source = Some q" and l: "load_derived_batches source s = Inr (moved, s0)" and rp: "repoint_all st survivor source s0 = Inr (mr_moved r, s1)"
    and ap: "apply_derived_expiry moved (resolve (product_rules st p s1)) s1 = Inr (mr_recomputed r, s2)"
    and del: "delete_product_row source s2 = Inr ((), s3)"
    and ts: "record_tombstones st TombstoneProduct [source] s3 = Inr ((), s4)"
    and orp: "orphaned_image (pr_image q) s4 = Inr (mr_orphan r, s5)"
    and up: "update_product_row survivor id s5 = Inr ((), s')"
    by (rule merge_steps [OF run], rule that, assumption+)
  have "products s2 = products s"
    using l rp applied_products [OF ap] by (auto simp: load_derived_batches_def get_tx_iff repoint_all_iff)
  moreover have "products s5 = tbl_del (\<lambda>k _. k = source) (products s2)"
    using del tombstone_rows [OF ts] orp
    by (auto simp: delete_product_row_def tx_iff orphaned_image_def)
  ultimately have "has_product st survivor s5"
    using \<open>survivor \<noteq> source\<close> \<open>map_of (products s) survivor = Some p\<close> \<open>pr_storage p = st\<close>
    by (simp add: has_product_def map_of_tbl_del_other)
  then show ?thesis using touched_there [OF up, of st survivor] by simp
qed

lemma traceless_products: "traceless (serve_products env r cx)"
proof -
  have insertion: "traceless (product_insert px st hash inp)" for px st hash inp
    unfolding product_insert_def
    by (intro traceless_sum traceless_refuse traceless_then_detail settles_answer) (simp_all add: promoted_known created_there)
  have create: "traceless (product_create matcher px cx body)" for matcher px body
    unfolding product_create_def
    by (intro traceless_intros)
      (auto intro: traceless_detail insertion traceless_intros split: item_status.split option.split)
  have edit: "traceless (product_update cx raw body)" for raw body
    unfolding product_update_def
    by (intro traceless_intros traceless_strict traceless_then_detail) (simp_all add: updated_there)
  have merge: "traceless (product_merge cx raw body)" for raw body
    unfolding product_merge_def
    by (intro traceless_intros traceless_strict traceless_then_detail) (simp_all add: merged_there)
  have categorize: "traceless (set_category cx raw body)" for raw body
    unfolding set_category_def Let_def by (intro traceless_intros) simp_all
  have picture: "traceless (set_image (pv_pictures env) cx raw body)" for raw body
    unfolding set_image_def by (intro traceless_intros) (simp_all add: promoted_known)
  have deletion: "traceless (product_delete cx raw)" for raw
    unfolding product_delete_def by (intro traceless_intros) simp_all
  show ?thesis
    by (cases r) (simp_all add: traceless_bodiless create edit merge categorize picture deletion)
qed

section \<open>A product the storage has is not created again\<close>

lemma local_exact:
  assumes d: "distinct (keys (products s))" and q: "normalize_query fold_case text \<noteq> []"
  shows "(\<exists>r c. match_local_product sim fold_case st text s = Some r \<and> mr_status r = ItemExactMatch \<and> mr_product r = Some c
      \<and> lc_product c = i) \<longleftrightarrow> clear_winner sim st (normalize_query fold_case text) i s"
  using match_local_exact [OF d, of sim st "normalize_query fold_case text" i] q by (auto simp: match_local_product_def Let_def)

lemma winner_there: "clear_winner sim st q i s \<Longrightarrow> has_product st i s"
  by (auto simp: clear_winner_def has_product_def split: option.splits)

lemma inserted_created: "product_insert px st hash inp s = (Inr (n, d), s') \<Longrightarrow> n = 201"
  by (auto simp: product_insert_def call_def refuse_def detail_def read_state_def answer_with_def split: sum.splits prod.splits)

lemma detail_answers:
  assumes "detail st p m n (answer_with c) s = (Inr (k, d), s')"
  shows "k = c \<and> s' = s \<and> fst (dv_product d) = p"
  using assms
  by (auto simp: detail_def call_def read_state_def answer_with_def in_tx_def get_product_def list_product_batches_def
      list_product_logs_def row_tx_iff tx_iff split: sum.splits prod.splits)

text \<open>
  C12. Creating a product does not make a second one of what the storage already has: a valid request is
  answered with 200 and an existing product exactly when that product is the clear winner of the storage's
  own products for the name (similar by three fifths, every other one more than a twentieth behind), the
  detail sent back is that product's, and nothing is written.
\<close>

theorem clear_winner_not_duplicated:
  assumes keys: "distinct (keys (products s))" and st: "cx_storage cx = Some st" and ok: "parse_new_product b = (inp, [])"
    and q: "normalize_query fold_case (np_name inp) \<noteq> []"
  shows "(\<exists>d s'. product_create (match_local_product sim fold_case) px cx (Decoded b) s = (Inr (200, d), s')
      \<and> s' = s \<and> fst (dv_product d) = i) \<longleftrightarrow> clear_winner sim st (normalize_query fold_case (np_name inp)) i s"
proof -
  note exact = local_exact [OF keys q, of sim st i]
  obtain r where r: "match_local_product sim fold_case st (np_name inp) s = Some r"
    using q by (auto simp: match_local_product_def Let_def)
  have run: "product_create (match_local_product sim fold_case) px cx (Decoded b) s = (case (mr_status r, mr_product r) of
      (ItemExactMatch, Some c) \<Rightarrow> detail st (lc_product c) None None (answer_with 200) s
    | _ \<Rightarrow> product_insert px st (cq_image b) inp s)"
    by (auto simp: product_create_def with_storage_def st decode_json_def ok no_problems_def read_state_def r
        split: item_status.split option.split)
  show ?thesis
  proof
    assume "clear_winner sim st (normalize_query fold_case (np_name inp)) i s"
    note won = this [THEN exact [THEN iffD2]] winner_there [OF this]
    from won(1) obtain c where "mr_status r = ItemExactMatch" "mr_product r = Some c" "lc_product c = i" by (auto simp: r)
    then have "product_create (match_local_product sim fold_case) px cx (Decoded b) s = detail st i None None (answer_with 200) s"
      by (simp add: run)
    moreover obtain d where d: "detail st i None None (answer_with 200) s = answer_with 200 d s" using detail_there [OF won(2)] by blast
    moreover have "fst (dv_product d) = i" using detail_answers [of st i None None 200 s 200 d s] d by (simp add: answer_with_def)
    ultimately show "\<exists>d s'. product_create (match_local_product sim fold_case) px cx (Decoded b) s = (Inr (200, d), s')
      \<and> s' = s \<and> fst (dv_product d) = i" by (simp add: answer_with_def)
  next
    assume "\<exists>d s'. product_create (match_local_product sim fold_case) px cx (Decoded b) s = (Inr (200, d), s')
      \<and> s' = s \<and> fst (dv_product d) = i"
    then obtain d where "product_create (match_local_product sim fold_case) px cx (Decoded b) s = (Inr (200, d), s)"
      "fst (dv_product d) = i" by blast
    then obtain c where "mr_status r = ItemExactMatch" "mr_product r = Some c" "lc_product c = i"
      using inserted_created detail_answers unfolding run by (fastforce split: item_status.splits option.splits)
    then show "clear_winner sim st (normalize_query fold_case (np_name inp)) i s" using exact r by blast
  qed
qed

definition new_tomatoes :: create_product_request where
  "new_tomatoes = \<lparr>cq_name = '' tomatoes'', cq_category = None, cq_item_type = [], cq_min_stock = None, cq_image = None, cq_icon = None\<rparr>"

definition no_pictures :: picture_box where
  "no_pictures = \<lparr>px_promote = (\<lambda>_. PictureUnavailable), px_source = (\<lambda>_. None), px_card = (\<lambda>_. None)\<rparr>"

theorem clear_winner_not_duplicated_witness:
  "\<exists>d. product_create (match_local_product demo_similarity id) no_pictures \<lparr>cx_user = None, cx_session = None, cx_storage = Some 1\<rparr> (Decoded new_tomatoes) match_db
     = (Inr (200, d), match_db) \<and> fst (dv_product d) = 6"
proof -
  let ?inp = "fst (parse_new_product new_tomatoes)"
  have name: "np_name ?inp = ''tomatoes''"
    by (simp add: parse_new_product_def new_tomatoes_def trim_space_def white_space_def Let_def product_name_problem_def min_stock_problem_def)
  have ok: "parse_new_product new_tomatoes = (?inp, [])"
    by (simp add: parse_new_product_def new_tomatoes_def trim_space_def white_space_def Let_def product_name_problem_def
        min_stock_problem_def rune_count_def max_product_name_length_def)
  have q: "normalize_query id ''tomatoes'' = ''tomatoes''"
    by (simp add: normalize_query_def trim_space_def white_space_def fields.simps)
  have keys: "distinct (keys (products match_db))" by (simp add: match_db_def)
  have "clear_winner demo_similarity 1 ''tomatoes'' 6 match_db"
    by (simp add: clear_winner_def match_db_def demo_product_def demo_similarity_def threshold_defs)
  with clear_winner_not_duplicated [OF keys _ ok, of "\<lparr>cx_user = None, cx_session = None, cx_storage = Some 1\<rparr>" 1 id demo_similarity no_pictures 6]
  show ?thesis by (simp add: name q)
qed

section \<open>A picture file is removed once nothing shows it\<close>

definition product_image_url :: "string \<Rightarrow> string \<Rightarrow> string" where
  "product_image_url st name = ''/api/storages/'' @ st @ ''/product-images/'' @ name"

text \<open>
  C13. The file a deletion takes away is that of the picture the deleted product had, and no product that is
  left, of any storage, shows that picture; its name is never empty and never a path into another
  directory.
\<close>

theorem removed_picture_unused:
  assumes "product_delete cx (Some p) s = (Inr (n, Some name), s')"
  shows "\<exists>q url. map_of (products s) p = Some q \<and> cx_storage cx = Some (pr_storage q) \<and> pr_image q = Some url
    \<and> stored_picture url = Some name \<and> list_all (\<lambda>(_, r). pr_image r \<noteq> Some url) (products s')
    \<and> name \<noteq> [] \<and> slash \<notin> set name"
proof -
  obtain st url where st: "cx_storage cx = Some st" and run: "delete_product st p s = Inr (url, s')" and url: "stored_picture url = Some name"
    using assms by (auto simp: product_delete_def with_storage_def id_from_path_def call_def in_tx_def refuse_def answer_with_def
        split: option.splits sum.splits prod.splits)
  have name: "url \<noteq> []" "name \<noteq> []" "slash \<notin> set name"
    using url by (auto simp: stored_picture_def split: if_splits option.splits)
  obtain q s1 s2 where q: "map_of (products s) p = Some q" "pr_storage q = st"
    and orp: "orphaned_image (pr_image q) s2 = Inr (url, s')" "s' = s2"
    by (rule delete_product_steps [OF run])
  from orp name(1) have "pr_image q = Some url" "list_all (\<lambda>(_, r). pr_image r \<noteq> Some url) (products s')"
    by (auto simp: orphaned_image_iff list_all_iff split: option.splits if_splits)
  with q st url name show ?thesis by blast
qed

definition pictured_db :: db where
  "pictured_db = empty_db\<lparr>storage_rows := [(1, \<lparr>sr_name = ''home'', sr_created = 0\<rparr>)], idgen := [90],
     products := [(5, (demo_product 1 ''tomato'')\<lparr>pr_image := Some (product_image_url ''1'' ''a.jpg'')\<rparr>), (6, demo_product 1 ''egg'')]\<rparr>"

theorem removed_picture_unused_witness:
  "\<exists>s'. product_delete \<lparr>cx_user = None, cx_session = None, cx_storage = Some 1\<rparr> (Some 5) pictured_db = (Inr (204, Some ''a.jpg''), s')
     \<and> list_all (\<lambda>(_, r). pr_image r \<noteq> Some (product_image_url ''1'' ''a.jpg'')) (products s')"
proof -
  have "fst (product_delete \<lparr>cx_user = None, cx_session = None, cx_storage = Some 1\<rparr> (Some 5) pictured_db) = Inr (204, Some ''a.jpg'')"
    by code_simp
  then obtain s' where run: "product_delete \<lparr>cx_user = None, cx_session = None, cx_storage = Some 1\<rparr> (Some 5) pictured_db
      = (Inr (204, Some ''a.jpg''), s')" by (metis prod.collapse)
  from removed_picture_unused [OF run] show ?thesis using run by (auto simp: pictured_db_def)
qed

end
