(* ===== verification/BarcodesApi.thy ===== *)
theory BarcodesApi
  imports ProductsApi
begin

text \<open>
  The endpoints of scanned codes (\<open>httpapi/barcodes.go\<close>, \<open>httpapi/barcodeprompt.go\<close>): attaching a code, the recall of
  a code, the one write of the scan flow, the product made from a hint, the reading of a photographed code
  and the offer to scan. The decoder of a photo and the addresses of pictures are arguments; a multipart body
  is the sequence of parts its reader gives.
\<close>

section \<open>Attaching codes\<close>

text \<open>The dash in the message is U+2013.\<close>

definition barcode_failure :: "err \<Rightarrow> string \<Rightarrow> failure" where
  "barcode_failure e reason = (case e of
      ErrValidation \<Rightarrow> validation_failed [(''barcode'',
        [''Must be 1'' @ [CHR 0xE2, CHR 0x80, CHR 0x93] @ ''64 characters of letters, digits, and . _ / -''])]
    | ErrConflict \<Rightarrow> conflict_as e reason ''That barcode already belongs to another product here.''
    | _ \<Rightarrow> from_store_error e reason)"

definition barcode_associate :: "http_context \<Rightarrow> uuid option \<Rightarrow> string strict \<Rightarrow> (string \<times> product_barcode) handler" where
  "barcode_associate cx raw body =
     with_storage cx (\<lambda>st. id_from_path raw ''malformed product id'' (\<lambda>p. decode_json_strict body (\<lambda>code.
       call (associate_barcode st p code) (\<lambda>e. barcode_failure e ''associate barcode with product'')
         (\<lambda>row. answer_with 201 (code, row)))))"

definition barcodes_of_product ::
    "(string \<Rightarrow> 'c :: linorder) \<Rightarrow> http_context \<Rightarrow> uuid option \<Rightarrow> (string \<times> product_barcode) list handler" where
  "barcodes_of_product coll cx raw =
     with_storage cx (\<lambda>st. id_from_path raw ''malformed product id'' (\<lambda>p.
       call (list_product_barcodes coll st p) (\<lambda>e. from_store_error e ''product not found in storage'')
         (\<lambda>rows. answer_with 200 (map (\<lambda>((_, code), r). (code, r)) rows))))"

definition barcode_delete :: "http_context \<Rightarrow> uuid option \<Rightarrow> string \<Rightarrow> unit handler" where
  "barcode_delete cx raw code =
     with_storage cx (\<lambda>st. id_from_path raw ''malformed product id'' (\<lambda>p.
       call (delete_product_barcode st p code) (\<lambda>e. from_store_error e ''barcode not associated with product'')
         (answer_with 204)))"

section \<open>Recall\<close>

datatype scan_answer = ScannedProduct "uuid \<times> product" int | SuggestedEntry catalog_card

definition catalog_card_for :: "(string \<Rightarrow> 'c :: linorder) \<Rightarrow> picture_box \<Rightarrow> catalog_row \<Rightarrow> db \<Rightarrow> catalog_card" where
  "catalog_card_for coll px c s =
     \<lparr>cc_display = ct_display (snd c), cc_path = ct_category_path (snd c), cc_item_type = ct_item_type (snd c),
      cc_image = px_card px (ct_image (snd c)), cc_icon = ct_icon (snd c), cc_days = ct_days (snd c),
      cc_variants = catalog_variants coll (fst c) 0 s\<rparr>"

text \<open>The scan is counted after the answer, by itself: a count that fails changes nothing about the answer.\<close>

definition then_count :: "'b handler \<Rightarrow> unit dbtx \<Rightarrow> 'b handler" where
  "then_count h m s = (case h s of (Inl f, s') \<Rightarrow> (Inl f, s') | (Inr b, s') \<Rightarrow> (Inr b, snd (in_tx m s')))"

definition barcode_recall ::
    "(string \<Rightarrow> 'c :: linorder) \<Rightarrow> picture_box \<Rightarrow> http_context \<Rightarrow> string \<Rightarrow> scan_answer handler" where
  "barcode_recall coll px cx code =
     then_count (with_storage cx (\<lambda>st.
       call (lookup_barcode st code) (\<lambda>e. from_store_error e ''barcode not known in storage'') (\<lambda>hit. case hit of
           LocalProduct p n \<Rightarrow> answer_with 200 (ScannedProduct p n)
         | CatalogHint c \<Rightarrow> read_state (catalog_card_for coll px c) (answer_with 200 \<circ> SuggestedEntry))))
       (increment_barcode_scan_count code)"

definition barcodes_hot :: "(string option \<Rightarrow> string option) \<Rightarrow> hot_barcode list handler" where
  "barcodes_hot shown = read_state hot_barcodes (answer_with 200 \<circ> map (\<lambda>b. b\<lparr>hb_image := shown (hb_image b)\<rparr>))"

section \<open>The confirmed scan\<close>

record barcode_log_request =
  bx_direction :: string
  bx_quantity :: int
  bx_location :: "uuid option"
  bx_expiration :: "date raw"
  bx_decrements :: "(uuid \<times> int) list"

definition log_direction :: "string \<Rightarrow> barcode_log_direction" where
  "log_direction d = (if d = ''in'' then BarcodeLogIn else if d = ''out'' then BarcodeLogOut else BarcodeLogOther d)"

text \<open>A date that is null decodes like one that is absent.\<close>

definition parse_barcode_log :: "barcode_log_request \<Rightarrow> barcode_log_input \<times> field_map" where
  "parse_barcode_log b =
     (let d = log_direction (bx_direction b);
          fs = (if d \<noteq> BarcodeLogIn \<and> d \<noteq> BarcodeLogOut then add_field ''direction'' ''Must be \"in\" or \"out\".'' [] else []);
          fs = (if bx_quantity b < 1 then add_field ''quantity'' ''Must be at least 1.'' fs else fs);
          fs = (if d = BarcodeLogIn \<and> bx_location b = None
                then add_field ''location_id'' ''A location is required when stocking up.'' fs else fs);
          (expiration, fs) = (case bx_expiration b of
              Value e \<Rightarrow> (Some e, fs)
            | Malformed \<Rightarrow> (None, add_field ''expiration_date'' ''Must be a YYYY-MM-DD date.'' fs)
            | _ \<Rightarrow> (None, fs)) in
      (\<lparr>bl_direction = d, bl_quantity = bx_quantity b, bl_location = bx_location b, bl_expiration = expiration,
        bl_edited = (bx_expiration b \<notin> {Absent, Null}), bl_decrements = bx_decrements b\<rparr>, fs))"

definition barcode_log :: "http_context \<Rightarrow> string \<Rightarrow> barcode_log_request strict \<Rightarrow> barcode_log_result handler" where
  "barcode_log cx code body =
     with_storage cx (\<lambda>st. with_user cx (\<lambda>u. decode_json_strict body (\<lambda>b. case parse_barcode_log b of (inp, fs) \<Rightarrow>
       no_problems fs
         (call (log_barcode st code (Some (fst u)) inp) (\<lambda>e. from_store_error e ''log against scanned barcode'')
           (answer_with 201)))))"

definition barcode_accept_catalog ::
    "(char \<Rightarrow> char) \<Rightarrow> http_context \<Rightarrow> string \<Rightarrow> ((uuid \<times> product) \<times> int) handler" where
  "barcode_accept_catalog low cx code =
     with_storage cx (\<lambda>st.
       call (create_product_from_barcode_hint low st code)
         (\<lambda>e. if e = ErrConflict then (conflict_as e [] ''That barcode already names a product here.'')
                \<lparr>fl_reason := Says ''barcode already resolves locally''\<rparr>
              else from_store_error e ''barcode carries no catalog hint'')
         (\<lambda>p. answer_with 201 (p, 0)))"

section \<open>The photographed code\<close>

definition max_decode_upload_bytes :: nat where "max_decode_upload_bytes = 8 * 2 ^ 20"

text \<open>What reading gives: the cap of the body is met, the reader fails, or there are bytes.\<close>

datatype part_read = BodyTooLarge | ReadFails | PartBytes string

datatype body_part = BadPart part_read | NamedPart string part_read

datatype multipart = NotMultipart | MultipartBody "body_part list"

definition upload_unreadable :: "string \<Rightarrow> failure" where
  "upload_unreadable field = validation_failed [(field, [''The upload could not be read.''])]"

definition image_required :: "string \<Rightarrow> failure" where
  "image_required field = validation_failed [(field, [''An image file is required.''])]"

fun first_image :: "string \<Rightarrow> body_part list \<Rightarrow> failure + string" where
  "first_image field [] = Inl (image_required field)"
| "first_image field (BadPart r # ps) = Inl (if r = BodyTooLarge then payload_too_large else upload_unreadable field)"
| "first_image field (NamedPart name r # ps) =
     (if name \<noteq> field then first_image field ps
      else case r of
          BodyTooLarge \<Rightarrow> Inl payload_too_large
        | ReadFails \<Rightarrow> Inl internal
        | PartBytes data \<Rightarrow>
            if length data > max_decode_upload_bytes then Inl payload_too_large
            else if data = [] then Inl (image_required field) else Inr data)"

definition read_image_bytes :: "string \<Rightarrow> multipart \<Rightarrow> failure + string" where
  "read_image_bytes field m = (case m of
      NotMultipart \<Rightarrow> Inl (upload_unreadable field) | MultipartBody ps \<Rightarrow> first_image field ps)"

definition no_barcode_found :: failure where
  "no_barcode_found = (failure_of 422 ''validation_failed'' ''No barcode could be read from that photo.'')
     \<lparr>fl_fields := [(''image'', [''No barcode could be read from that photo.''])]\<rparr>"

definition barcode_decode_photo :: "(string \<Rightarrow> string option) \<Rightarrow> http_context \<Rightarrow> multipart \<Rightarrow> string handler" where
  "barcode_decode_photo decoder cx m =
     with_storage cx (\<lambda>_. case read_image_bytes ''image'' m of
         Inl f \<Rightarrow> refuse f
       | Inr data \<Rightarrow> (case decoder data of
             None \<Rightarrow> refuse no_barcode_found
           | Some code \<Rightarrow> if \<not> valid_barcode code then refuse no_barcode_found else answer_with 200 code))"

section \<open>The offer\<close>

definition barcode_prompt_get :: "http_context \<Rightarrow> barcode_offer handler" where
  "barcode_prompt_get cx =
     with_user cx (\<lambda>u. call (barcode_prompt_state (fst u)) (\<lambda>e. from_store_error e ''read barcode prompt state'') (answer_with 200))"

definition barcode_prompt_patch :: "http_context \<Rightarrow> bool option strict \<Rightarrow> barcode_offer handler" where
  "barcode_prompt_patch cx body =
     with_user cx (\<lambda>u. decode_json_strict body (\<lambda>b. case b of
         None \<Rightarrow> refuse (validation_failed [(''enabled'', [''A true or false value is required.''])])
       | Some on \<Rightarrow> call (set_barcode_prompt_enabled (fst u) on) (\<lambda>e. from_store_error e ''set barcode prompt'') (answer_with 200)))"

definition barcode_prompt_shown :: "http_context \<Rightarrow> barcode_offer handler" where
  "barcode_prompt_shown cx =
     with_user cx (\<lambda>u. call (mark_barcode_prompt_shown (fst u)) (\<lambda>e. from_store_error e ''mark barcode prompt shown'') (answer_with 200))"

section \<open>The requests\<close>

datatype barcode_request =
    AttachCode "uuid option" "string strict"
  | DetachCode "uuid option" string
  | RecallCode string
  | LogCode string "barcode_log_request strict"
  | AcceptHint string
  | ReadPhoto multipart
  | SwitchOffer "bool option strict"
  | OfferShown

record 'c barcode_env =
  be_coll :: "string \<Rightarrow> 'c"
  be_low :: "char \<Rightarrow> char"
  be_pictures :: picture_box
  be_decoder :: "string \<Rightarrow> string option"

fun serve_barcodes :: "('c :: linorder) barcode_env \<Rightarrow> barcode_request \<Rightarrow> unit endpoint" where
  "serve_barcodes env (AttachCode raw body) cx = bodiless (barcode_associate cx raw body)"
| "serve_barcodes env (DetachCode raw code) cx = bodiless (barcode_delete cx raw code)"
| "serve_barcodes env (RecallCode code) cx = bodiless (barcode_recall (be_coll env) (be_pictures env) cx code)"
| "serve_barcodes env (LogCode code body) cx = bodiless (barcode_log cx code body)"
| "serve_barcodes env (AcceptHint code) cx = bodiless (barcode_accept_catalog (be_low env) cx code)"
| "serve_barcodes env (ReadPhoto m) cx = bodiless (barcode_decode_photo (be_decoder env) cx m)"
| "serve_barcodes env (SwitchOffer body) cx = bodiless (barcode_prompt_patch cx body)"
| "serve_barcodes env OfferShown cx = bodiless (barcode_prompt_shown cx)"

section \<open>Every request keeps the books and refuses without a trace\<close>

lemma upholds_then_count: "upholds P h \<Longrightarrow> keeps P m \<Longrightarrow> upholds P (then_count h m)"
  using in_tx_keeps by (fastforce simp: upholds_def then_count_def split: prod.split sum.split)

lemma reads_lookup: "only_reads (lookup_barcode st code)"
  by (auto simp: only_reads_def lookup_barcode_def tx_iff row_tx_iff split: option.splits)

lemma upholds_lookup [upholds_intros]:
  "(\<And>p n. upholds P (f p n)) \<Longrightarrow> (\<And>c. upholds P (g c)) \<Longrightarrow> upholds P (case hit of LocalProduct p n \<Rightarrow> f p n | CatalogHint c \<Rightarrow> g c)"
  by (cases hit) simp_all

lemma upholds_comp [upholds_intros]: "upholds P (h (g x)) \<Longrightarrow> upholds P ((h \<circ> g) x)"
  by simp

lemma traceless_lookup_hit [traceless_intros]:
  "(\<And>p n. traceless (f p n)) \<Longrightarrow> (\<And>c. traceless (g c)) \<Longrightarrow> traceless (case hit of LocalProduct p n \<Rightarrow> f p n | CatalogHint c \<Rightarrow> g c)"
  by (cases hit) simp_all

lemma traceless_comp [traceless_intros]: "traceless (h (g x)) \<Longrightarrow> traceless ((h \<circ> g) x)"
  by simp

lemma traceless_then_count [traceless_intros]: "traceless h \<Longrightarrow> traceless (then_count h m)"
  by (auto simp: traceless_def then_count_def split: prod.splits sum.splits)

lemmas code_handlers = barcode_associate_def barcode_delete_def barcode_recall_def barcode_log_def barcode_accept_catalog_def
  barcode_decode_photo_def barcode_prompt_patch_def barcode_prompt_shown_def

lemma barcode_requests_uphold: "upholds stock_inv (serve_barcodes env r cx)"
  by (cases r)
    (simp only: serve_barcodes.simps, unfold code_handlers,
     (intro upholds_intros stock_intros upholds_strict upholds_then_count reads_lookup [THEN keeps_reads])+)+

lemma known_barcode_failure [simp]: "known_failure (barcode_failure e reason)"
  by (cases e) (simp_all add: barcode_failure_def)

lemma known_no_barcode [simp]: "known_failure no_barcode_found"
  by (simp add: no_barcode_found_def known_failure_def failure_of_def)

lemma known_accept [simp]: "known_failure ((conflict_as ErrConflict r msg)\<lparr>fl_reason := x\<rparr>)"
  using known_conflict_as [of ErrConflict r msg] by (simp add: known_failure_def)

lemma image_known: "read_image_bytes field m = Inl f \<Longrightarrow> known_failure f"
proof -
  have "first_image field ps = Inl f \<Longrightarrow> known_failure f" for ps
    by (induction field ps rule: first_image.induct)
      (auto simp: image_required_def upload_unreadable_def split: if_splits part_read.splits)
  then show "read_image_bytes field m = Inl f \<Longrightarrow> known_failure f"
    by (auto simp: read_image_bytes_def upload_unreadable_def split: multipart.splits)
qed

lemma traceless_recall: "traceless (barcode_recall coll px cx code)"
  unfolding barcode_recall_def
  by (intro traceless_intros traceless_reading_call [OF reads_lookup]) simp_all

lemma traceless_photo: "traceless (barcode_decode_photo decoder cx m)"
  unfolding barcode_decode_photo_def by (intro traceless_intros) (simp_all add: image_known)

lemma traceless_barcodes: "traceless (serve_barcodes env r cx)"
proof -
  have "traceless (barcode_associate cx raw b1)" "traceless (barcode_delete cx raw code)" "traceless (barcode_log cx code b2)"
    "traceless (barcode_accept_catalog low cx code)" "traceless (barcode_prompt_patch cx b3)" "traceless (barcode_prompt_shown cx)"
    for raw b1 code b2 low b3
    unfolding code_handlers by (intro traceless_intros traceless_strict | simp)+
  then show ?thesis by (cases r) (simp_all add: traceless_bodiless traceless_recall traceless_photo)
qed

section \<open>What a photo can say\<close>

text \<open>
  A photo is read as a code or not at all: the answer is a code that could be attached, taken by the decoder
  from the first part of the name, which was not empty and within the limit; and reading it changes nothing.
\<close>

theorem decoded_photo_usable:
  assumes "barcode_decode_photo decoder cx m s = (Inr (n, code), s')"
  shows "s' = s \<and> n = 200 \<and> valid_barcode code \<and>
    (\<exists>data. read_image_bytes ''image'' m = Inr data \<and> data \<noteq> [] \<and> length data \<le> max_decode_upload_bytes \<and> decoder data = Some code)"
proof -
  have "first_image field ps = Inr data \<Longrightarrow> data \<noteq> [] \<and> length data \<le> max_decode_upload_bytes" for field ps data
    by (induction field ps rule: first_image.induct) (auto split: if_splits part_read.splits)
  then show ?thesis
    using assms
    by (fastforce simp: barcode_decode_photo_def with_storage_def refuse_def answer_with_def read_image_bytes_def
        split: option.splits sum.splits if_splits multipart.splits)
qed

section \<open>Scanning moves nothing\<close>

lemma associate_view: "stock_rows.quiet (associate_barcode st p code)"
  by (rule stock_rows.quietI) (auto simp: stock_view_def elim!: associate_steps split: option.splits)

lemma hint_view: "stock_rows.quiet (create_product_from_barcode_hint low st code)"
  unfolding create_product_from_barcode_hint_def insert_product_barcode_def Let_def
  by (intro stock_rows.quiet_intros stock_rows.quiet_create_product stock_rows.quiet_ensure_path) (simp add: stock_view_def)

lemma other_codes_view:
  "stock_rows.quiet (delete_product_barcode st p code)" "stock_rows.quiet (increment_barcode_scan_count code)"
  "stock_rows.quiet (set_barcode_prompt_enabled u b)" "stock_rows.quiet (mark_barcode_prompt_shown u)"
  unfolding delete_product_barcode_def increment_barcode_scan_count_def set_barcode_prompt_enabled_def
    mark_barcode_prompt_shown_def require_product_in_storage_def Let_def
  by (intro stock_rows.quiet_intros; simp add: stock_view_def)+

lemmas codes_beside_stock = associate_view hint_view other_codes_view

lemma quiet_view: "stock_rows.quiet m \<Longrightarrow> keeps (\<lambda>s. stock_view s = c) m"
  unfolding stock_rows.quiet_def by (rule spec)

lemma log_request_moves:
  assumes inv: "stock_inv s" and run: "barcode_log cx code body s = (Inr (n, out), s')"
  obtains st b where "cx_storage cx = Some st" "body = Lenient (Decoded b)"
    "map_option fst (barcode_product st code s) = Some (br_product out)" "1 \<le> bx_quantity b" "bx_direction b \<in> {''in'', ''out''}"
    "\<And>p. stock_total p s' = stock_total p s + (if p = br_product out
       then if bx_direction b = ''in'' then bx_quantity b else - bx_quantity b else 0)"
    "\<And>p. ledger_total p s' = stock_total p s'" "br_stock out = stock_total (br_product out) s'"
proof -
  obtain st u b inp where st: "cx_storage cx = Some st" and body: "body = Lenient (Decoded b)"
    and inp: "parse_barcode_log b = (inp, [])" and log: "log_barcode st code (Some (fst u)) inp s = Inr (out, s')"
    using run
    by (auto simp: barcode_log_def with_storage_def with_user_def decode_json_strict_def decode_json_def no_problems_def
        refuse_def call_def answer_with_def in_tx_def
        split: option.splits strict.splits decoded.splits if_splits sum.splits prod.splits)
  have parsed: "bl_direction inp = log_direction (bx_direction b)" "bl_quantity inp = bx_quantity b" "1 \<le> bx_quantity b"
    "log_direction (bx_direction b) \<in> {BarcodeLogIn, BarcodeLogOut}"
    using inp by (auto simp: parse_barcode_log_def Let_def split: raw.splits if_splits)
  then have d: "bx_direction b \<in> {''in'', ''out''}" "log_direction (bx_direction b) = BarcodeLogIn \<longleftrightarrow> bx_direction b = ''in''"
    by (auto simp: log_direction_def split: if_splits)
  from log_barcode_correct [OF inv log] obtain p where p: "barcode_product st code s = Some (br_product out, p)" by blast
  have p': "map_option fst (barcode_product st code s) = Some (br_product out)" by (simp add: p)
  from log_barcode_correct [OF inv log] that [OF st body p' parsed(3) d(1)] show thesis
    by (simp add: parsed d(2))
qed

lemma others_uphold_view:
  "upholds (\<lambda>t. stock_view t = c) (barcode_associate cx raw b1)" "upholds (\<lambda>t. stock_view t = c) (barcode_delete cx raw code)"
  "upholds (\<lambda>t. stock_view t = c) (barcode_recall coll px cx code)"
  "upholds (\<lambda>t. stock_view t = c) (barcode_accept_catalog low cx code)"
  "upholds (\<lambda>t. stock_view t = c) (barcode_decode_photo decoder cx m)"
  "upholds (\<lambda>t. stock_view t = c) (barcode_prompt_patch cx b3)" "upholds (\<lambda>t. stock_view t = c) (barcode_prompt_shown cx)"
  unfolding code_handlers
  by (intro upholds_intros upholds_strict upholds_then_count reads_lookup [THEN keeps_reads] codes_beside_stock [THEN quiet_view])+

text \<open>
  C6. Scanning moves nothing: of all that the endpoints of codes can be asked, only the confirmed sheet touches
  batches, containers or the ledger; and a sheet that is answered has named one product of the caller's own
  storage by its code, whose stock and ledger moved by the confirmed quantity in the confirmed direction, at
  least one unit, while no other product's did.
\<close>

theorem only_confirmed_scan_moves_stock:
  assumes inv: "stock_inv s"
  shows "case r of
      LogCode code body \<Rightarrow> (case barcode_log cx code body s of
          (Inl _, s') \<Rightarrow> s' = s
        | (Inr (_, out), s') \<Rightarrow> \<exists>st b. cx_storage cx = Some st \<and> body = Lenient (Decoded b) \<and> 1 \<le> bx_quantity b
            \<and> map_option fst (barcode_product st code s) = Some (br_product out) \<and> bx_direction b \<in> {''in'', ''out''}
            \<and> (\<forall>p. stock_total p s' = stock_total p s + (if p = br_product out
                 then if bx_direction b = ''in'' then bx_quantity b else - bx_quantity b else 0)
               \<and> ledger_total p s' = stock_total p s'))
    | _ \<Rightarrow> stock_view (snd (serve_barcodes env r cx s)) = stock_view s"
proof (cases "\<exists>code body. r = LogCode code body")
  case True
  then obtain code body where r: "r = LogCode code body" by blast
  obtain o1 s' where run: "barcode_log cx code body s = (o1, s')" by fastforce
  show ?thesis
  proof (cases o1)
    case (Inl f)
    have "traceless (barcode_log cx code body)"
      unfolding barcode_log_def by (intro traceless_intros traceless_strict) simp_all
    with run Inl show ?thesis by (auto simp: r dest: tracelessD)
  next
    case (Inr x)
    then obtain n out where x: "barcode_log cx code body s = (Inr (n, out), s')" using run by (cases x) simp
    then obtain st b where "cx_storage cx = Some st" "body = Lenient (Decoded b)" "1 \<le> bx_quantity b"
      "map_option fst (barcode_product st code s) = Some (br_product out)" "bx_direction b \<in> {''in'', ''out''}"
      "\<forall>p. stock_total p s' = stock_total p s + (if p = br_product out
                 then if bx_direction b = ''in'' then bx_quantity b else - bx_quantity b else 0)
               \<and> ledger_total p s' = stock_total p s'"
      by (rule log_request_moves [OF inv]) blast
    then show ?thesis unfolding r x barcode_request.case prod.case sum.case by blast
  qed
next
  case False
  have "upholds (\<lambda>t. stock_view t = stock_view s) (serve_barcodes env r cx)"
    using False by (cases r) (simp_all add: others_uphold_view upholds_bodiless)
  then have "stock_view (snd (serve_barcodes env r cx s)) = stock_view s" by (simp add: upholds_def)
  with False show ?thesis by (cases r) auto
qed

definition scan_home :: db where
  "scan_home = scan_db\<lparr>accounts := [(7, some_account)]\<rparr>"

definition two_out :: barcode_log_request where
  "two_out = \<lparr>bx_direction = ''out'', bx_quantity = 2, bx_location = None, bx_expiration = Absent, bx_decrements = []\<rparr>"

theorem only_confirmed_scan_moves_stock_witness:
  "(let out = barcode_log \<lparr>cx_user = Some (7, some_account), cx_session = None, cx_storage = Some 2\<rparr> ''4006''
        (Lenient (Decoded two_out)) scan_home in
    \<not> isl (fst out) \<and> stock_total 5 (snd out) = stock_total 5 scan_home - 2 \<and> ledger_total 5 (snd out) = stock_total 5 (snd out))"
proof -
  let ?cx = "\<lparr>cx_user = Some (7, some_account), cx_session = None, cx_storage = Some 2\<rparr>"
  let ?h = "barcode_log ?cx ''4006'' (Lenient (Decoded two_out)) scan_home"
  have ok: "\<not> isl (fst ?h)" by code_simp
  have inv: "stock_inv scan_home"
    unfolding scan_home_def
    by (rule shifts_keep [OF scan_db_inv shifts_other [OF stock_inv_rows [OF scan_db_inv]]]) simp_all
  obtain n r s' where run: "?h = (Inr (n, r), s')" using ok by (cases "fst ?h") (auto simp: prod_eq_iff)
  have "map_option fst (barcode_product 2 ''4006'' scan_home) = Some 5" by code_simp
  with only_confirmed_scan_moves_stock [OF inv, where r = "LogCode ''4006'' (Lenient (Decoded two_out))" and cx = ?cx
      and env = "\<lparr>be_coll = length, be_low = id, be_pictures = no_pictures, be_decoder = (\<lambda>_. None)\<rparr>"] run ok
  show ?thesis by (auto simp: two_out_def Let_def)
qed

end
