(* ===== verification/Runner.thy ===== *)
theory Runner
  imports Jobs
begin

text \<open>
  \<open>internal/jobs/runner.go\<close>: the processes that work photo jobs. A runner is the queue of a process: one
  attempt per submitted job, three of them working at a time, a lease kept current while they last, and a
  sweep of the leases nobody keeps. Any number of processes run over one database; the world below has them
  start, act, shut down and die in any order. What the work of a job gives is arbitrary.
\<close>

section \<open>A runner\<close>

definition default_concurrency :: nat where "default_concurrency = 3"
definition default_lease_ttl :: instant where "default_lease_ttl = 60 * 10 ^ 9"
definition generic_failure :: string where "generic_failure = ''Processing failed. Try uploading the photo again.''"
definition timeout_failure :: string where "timeout_failure = ''Processing took too long. Try uploading the photo again.''"

text \<open>
  How the work of a job ends: a proposal, bytes that are none, the deadline, a message for the reviewer, or
  anything else, a panic included.
\<close>

datatype work_outcome = Produced "proposal_row list" | BadPayload | OutOfTime | ToldUser string | Broke

text \<open>An attempt waits for a slot, works, has ended and is to be recorded, or was told to stop while it waited.\<close>

datatype phase = Queued | Working | Ended work_outcome | Dropped

record runner =
  rn_closed :: bool
  rn_stopped :: bool
  rn_attempts :: "(uuid \<times> phase) list"

definition new_runner :: runner where
  "new_runner = \<lparr>rn_closed = False, rn_stopped = False, rn_attempts = []\<rparr>"

definition runner_lease :: "uuid \<Rightarrow> job_lease" where
  "runner_lease owner = \<lparr>le_owner = Some owner, le_ttl = default_lease_ttl\<rparr>"

datatype runner_error = RunnerShutDown | StoreFailed err

definition start_attempt :: "uuid \<Rightarrow> runner \<Rightarrow> runner" where
  "start_attempt i r = r\<lparr>rn_attempts := rn_attempts r @ [(i, Queued)]\<rparr>"

definition submit_job :: "uuid \<Rightarrow> new_job \<Rightarrow> runner \<Rightarrow> db \<Rightarrow> (runner_error + uuid \<times> job) \<times> runner \<times> db" where
  "submit_job owner nj r s =
     (if rn_closed r then (Inl RunnerShutDown, r, s)
      else case in_tx (create_job (nj\<lparr>nj_lease := runner_lease owner\<rparr>)) s of
          (Inl e, s') \<Rightarrow> (Inl (StoreFailed e), r, s')
        | (Inr job, s') \<Rightarrow> (Inr job, start_attempt (fst job) r, s'))"

definition resubmit_job :: "uuid \<Rightarrow> uuid \<Rightarrow> uuid \<Rightarrow> runner \<Rightarrow> db \<Rightarrow> (runner_error + unit) \<times> runner \<times> db" where
  "resubmit_job owner storage i r s =
     (if rn_closed r then (Inl RunnerShutDown, r, s)
      else case in_tx (requeue_job storage i (runner_lease owner)) s of
          (Inl e, s') \<Rightarrow> (Inl (StoreFailed e), r, s')
        | (Inr _, s') \<Rightarrow> (Inr (), start_attempt i r, s'))"

text \<open>The slots are held from taking one until the attempt is recorded.\<close>

definition holds_slot :: "phase \<Rightarrow> bool" where
  "holds_slot p = (case p of Queued \<Rightarrow> False | Dropped \<Rightarrow> False | _ \<Rightarrow> True)"

definition busy :: "runner \<Rightarrow> nat" where
  "busy r = length (filter (\<lambda>a. holds_slot (snd a)) (rn_attempts r))"

definition phase_at :: "nat \<Rightarrow> runner \<Rightarrow> phase option" where
  "phase_at k r = (if k < length (rn_attempts r) then Some (snd (rn_attempts r ! k)) else None)"

definition set_phase :: "nat \<Rightarrow> phase \<Rightarrow> runner \<Rightarrow> runner" where
  "set_phase k p r = r\<lparr>rn_attempts := (rn_attempts r)[k := (fst (rn_attempts r ! k), p)]\<rparr>"

definition take_slot :: "nat \<Rightarrow> runner \<Rightarrow> runner" where
  "take_slot k r = (if phase_at k r = Some Queued \<and> busy r < default_concurrency then set_phase k Working r else r)"

definition stop_waiting :: "nat \<Rightarrow> runner \<Rightarrow> runner" where
  "stop_waiting k r = (if phase_at k r = Some Queued \<and> rn_stopped r then set_phase k Dropped r else r)"

definition work_ends :: "nat \<Rightarrow> work_outcome \<Rightarrow> runner \<Rightarrow> runner" where
  "work_ends k out r = (if phase_at k r = Some Working then set_phase k (Ended out) r else r)"

definition finish_outcome :: "bool \<Rightarrow> uuid \<Rightarrow> work_outcome \<Rightarrow> unit dbtx" where
  "finish_outcome stopped i out = (case out of
      Produced rows \<Rightarrow> complete_job i (Some rows)
    | BadPayload \<Rightarrow> fail_job i generic_failure
    | OutOfTime \<Rightarrow> fail_job i (if stopped then interrupted_job_error else timeout_failure)
    | ToldUser m \<Rightarrow> fail_job i (if stopped then interrupted_job_error else m)
    | Broke \<Rightarrow> fail_job i (if stopped then interrupted_job_error else generic_failure))"

text \<open>What the write says is only logged: the attempt is over either way.\<close>

definition finish_attempt :: "nat \<Rightarrow> runner \<Rightarrow> db \<Rightarrow> runner \<times> db" where
  "finish_attempt k r s =
     (let i = fst (rn_attempts r ! k); rest = r\<lparr>rn_attempts := take k (rn_attempts r) @ drop (Suc k) (rn_attempts r)\<rparr> in
      case phase_at k r of
        Some (Ended out) \<Rightarrow> (rest, snd (in_tx (finish_outcome (rn_stopped r) i out) s))
      | Some Dropped \<Rightarrow> (rest, snd (in_tx (finish_outcome (rn_stopped r) i Broke) s))
      | _ \<Rightarrow> (r, s))"

definition shut_down :: "runner \<Rightarrow> runner" where
  "shut_down r = r\<lparr>rn_closed := True, rn_stopped := True\<rparr>"

section \<open>Processes over one database\<close>

text \<open>
  A tick of the lease keeper is two statements, and one in flight may still land after a shutdown. Recovery at
  the start of a process is the same statement as its sweep.
\<close>

datatype runner_action =
    SubmitJob new_job | ResubmitJob uuid uuid | TakeSlot nat | StopWaiting nat | WorkEnds nat work_outcome
  | FinishAttempt nat | RenewLeases | SweepOrphans | ShutDown | ReleaseLeases

fun runner_act :: "uuid \<Rightarrow> runner_action \<Rightarrow> runner \<Rightarrow> db \<Rightarrow> runner \<times> db" where
  "runner_act p (SubmitJob nj) r s = snd (submit_job p nj r s)"
| "runner_act p (ResubmitJob st i) r s = snd (resubmit_job p st i r s)"
| "runner_act p (TakeSlot k) r s = (take_slot k r, s)"
| "runner_act p (StopWaiting k) r s = (stop_waiting k r, s)"
| "runner_act p (WorkEnds k out) r s = (work_ends k out r, s)"
| "runner_act p (FinishAttempt k) r s = finish_attempt k r s"
| "runner_act p RenewLeases r s = (r, snd (in_tx (renew_job_leases (runner_lease p)) s))"
| "runner_act p SweepOrphans r s = (r, snd (in_tx (fail_orphaned_jobs p) s))"
| "runner_act p ShutDown r s = (shut_down r, s)"
| "runner_act p ReleaseLeases r s = (r, snd (in_tx (release_job_leases p) s))"

record world =
  wd_db :: db
  wd_runners :: "(uuid \<times> runner) list"

text \<open>
  The owner of a process is a fresh random id. Reviewers act on jobs by the operations of the store that
  neither create nor requeue nor lease; everything else leaves the jobs alone and lets time pass.
\<close>

datatype world_event = Process uuid runner_action | StartProcess uuid | EndProcess uuid | Review job_op | Elsewhere db

definition reviews :: "job_op \<Rightarrow> bool" where
  "reviews op = (case op of DeleteOp _ _ \<Rightarrow> True | DiscardOp _ _ \<Rightarrow> True | ConsumeOp _ _ \<Rightarrow> True
     | ClearImageOp _ \<Rightarrow> True | DeleteLocationOp _ _ \<Rightarrow> True | _ \<Rightarrow> False)"

definition fresh_owner :: "uuid \<Rightarrow> world \<Rightarrow> bool" where
  "fresh_owner p w \<longleftrightarrow> \<not> tbl_has p (wd_runners w) \<and> list_all (\<lambda>(_, j). jb_owner j \<noteq> Some p) (jobs (wd_db w))"

fun happen :: "world_event \<Rightarrow> world \<Rightarrow> world" where
  "happen (Process p a) w = (case map_of (wd_runners w) p of
      None \<Rightarrow> w
    | Some r \<Rightarrow> (case runner_act p a r (wd_db w) of (r', s') \<Rightarrow>
        \<lparr>wd_db = s', wd_runners = tbl_upd p (\<lambda>_. r') (wd_runners w)\<rparr>))"
| "happen (StartProcess p) w = (if fresh_owner p w then w\<lparr>wd_runners := tbl_ins p new_runner (wd_runners w)\<rparr> else w)"
| "happen (EndProcess p) w = w\<lparr>wd_runners := tbl_del (\<lambda>k _. k = p) (wd_runners w)\<rparr>"
| "happen (Review op) w = (if reviews op then w\<lparr>wd_db := snd (in_tx (run_job_op op) (wd_db w))\<rparr> else w)"
| "happen (Elsewhere s) w = (if jobs s = jobs (wd_db w) \<and> db_now (wd_db w) \<le> db_now s then w\<lparr>wd_db := s\<rparr> else w)"

inductive world_step :: "world \<Rightarrow> world \<Rightarrow> bool" where
  "world_step w (happen e w)"

inductive_cases world_stepE: "world_step w w'"

inductive world_reachable :: "world \<Rightarrow> bool" where
  empty: "jobs (wd_db w) = [] \<Longrightarrow> wd_runners w = [] \<Longrightarrow> world_reachable w"
| step: "world_reachable w \<Longrightarrow> world_step w w' \<Longrightarrow> world_reachable w'"

section \<open>Claims\<close>

text \<open>The lease of a job while it is pending.\<close>

definition claim :: "uuid \<Rightarrow> db \<Rightarrow> (uuid option \<times> instant option) option" where
  "claim i s = (case map_of (jobs s) i of
      Some j \<Rightarrow> if jb_status j = JobPending then Some (jb_owner j, jb_expires j) else None | None \<Rightarrow> None)"

named_theorems claim_simps

lemma claim_pending: "claim i s \<noteq> None \<longleftrightarrow> map_option jb_status (map_of (jobs s) i) = Some JobPending"
  by (auto simp: claim_def split: option.splits)

lemma after_tx: "snd (in_tx m s) = (case m s of Inl _ \<Rightarrow> s | Inr (_, s') \<Rightarrow> s')"
  by (auto simp: in_tx_def split: sum.split)

lemma claim_finish [claim_simps]:
  "claim i (snd (in_tx (finish_job k st p m) s)) = (if i = k \<and> st \<noteq> JobPending then None else claim i s)" if "st \<noteq> JobPending"
  using that by (cases "map_of (jobs s) k")
    (auto simp: after_tx claim_def finish_job_def tx_defs split: option.splits)

lemma claim_outcome [claim_simps]:
  "claim i (snd (in_tx (finish_outcome b k out) s)) = (if i = k then None else claim i s)"
  by (cases out) (simp_all add: finish_outcome_def complete_job_def fail_job_def claim_finish)

lemma claim_renew [claim_simps]:
  "claim i (snd (in_tx (renew_job_leases (runner_lease p)) s)) = (case claim i s of
      Some (Some q, e) \<Rightarrow> if q = p then Some (Some p, Some (db_now s + default_lease_ttl)) else Some (Some q, e) | c \<Rightarrow> c)"
  by (auto simp: after_tx renew_job_leases_def runner_lease_def lease_claim_def tx_defs claim_def map_of_tbl_map held_by_def
      split: option.splits)

lemma claim_sweep [claim_simps]:
  "claim i (snd (in_tx (fail_orphaned_jobs p) s)) = (case claim i s of
      Some (q, e) \<Rightarrow> if q \<noteq> Some p \<and> pred_option (\<lambda>t. t < db_now s) e then None else Some (q, e) | None \<Rightarrow> None)"
  by (auto simp: after_tx fail_orphaned_jobs_def tx_defs claim_def map_of_tbl_map orphaned_def split: option.splits)

lemma claim_release [claim_simps]:
  "claim i (snd (in_tx (release_job_leases p) s)) = (case claim i s of
      Some (q, e) \<Rightarrow> if q = Some p then Some (None, None) else Some (q, e) | None \<Rightarrow> None)"
  by (auto simp: after_tx release_job_leases_def tx_defs claim_def map_of_tbl_map held_by_def split: option.splits)

lemma claim_create:
  assumes "create_job nj s = Inr ((k, j), s')"
  shows "claim k s = None" and "claim i s' = (if i = k then Some (lease_claim (nj_lease nj) (db_now s)) else claim i s)"
proof -
  have new: "\<not> tbl_has k (jobs s)" "jobs s' = tbl_ins k j (jobs s)" "jb_status j = JobPending"
    "(jb_owner j, jb_expires j) = lease_claim (nj_lease nj) (db_now s)"
    using assms by (auto simp: create_job_def tx_iff Let_def split: option.splits)
  show "claim k s = None" using new(1) by (simp add: claim_def tbl_has_def)
  show "claim i s' = (if i = k then Some (lease_claim (nj_lease nj) (db_now s)) else claim i s)"
    using new by (simp add: claim_def map_of_insert_fresh)
qed

lemma claim_requeue:
  assumes "requeue_job st k l s = Inr (u, s')"
  shows "claim k s = None" and "claim i s' = (if i = k then Some (lease_claim l (db_now s)) else claim i s)"
proof -
  obtain j where "map_of (jobs s) k = Some j" "jb_status j \<noteq> JobPending" "s' = s\<lparr>jobs := tbl_upd k (\<lambda>j. j\<lparr>jb_status := JobPending,
      jb_payload := None, jb_error := None, jb_updated := db_now s, jb_owner := fst (lease_claim l (db_now s)),
      jb_expires := snd (lease_claim l (db_now s))\<rparr>) (jobs s)\<rparr>"
    using assms by (auto simp: requeue_job_def tx_iff find_job_Some)
  then show "claim k s = None" and "claim i s' = (if i = k then Some (lease_claim l (db_now s)) else claim i s)"
    by (simp_all add: claim_def)
qed

lemma claim_review:
  assumes op: "reviews op" and d: "distinct (keys (jobs s))"
  shows "claim i (snd (in_tx (run_job_op op) s)) \<in> {None, claim i s}"
proof (cases "run_job_op op s")
  case (Inr r)
  then obtain s' where run: "run_job_op op s = Inr ((), s')" by (cases r) auto
  have hint: "claim i (s\<lparr>jobs := tbl_map (\<lambda>_. P) f (jobs s)\<rparr>) = claim i s"
    if "\<And>j. jb_status (f j) = jb_status j \<and> jb_owner (f j) = jb_owner j \<and> jb_expires (f j) = jb_expires j" for P f
    using that by (auto simp: claim_def map_of_tbl_map split: option.splits)
  have "claim i s' \<in> {None, claim i s}"
  proof (cases op)
    case (DeleteLocationOp st l)
    with run obtain P where "jobs s' = tbl_map (\<lambda>_. P) (\<lambda>j. j\<lparr>jb_hint := None\<rparr>) (jobs s)"
      by (auto simp: run_job_op_def delete_location_def delete_location_row_def tx_iff dest!: record_tombstones_effect)
    then have "claim i s' = claim i (s\<lparr>jobs := tbl_map (\<lambda>_. P) (\<lambda>j. j\<lparr>jb_hint := None\<rparr>) (jobs s)\<rparr>)" by (simp add: claim_def)
    then show ?thesis by (simp add: hint)
  qed (use op run in \<open>auto simp: reviews_def run_job_op_def delete_job_def discard_jobs_def consume_job_iff clear_job_image_def
      tx_iff find_job_Some claim_def map_of_tbl_del [OF d] split: option.splits if_splits\<close>)
  with run show ?thesis by (simp add: after_tx)
qed (simp add: after_tx)

section \<open>What every event leaves in order\<close>

lemma map_of_del_process: "map_of (tbl_del (\<lambda>k _. k = p) t) q = (if q = p then None else map_of t q)"
  by (induction t) (auto simp: tbl_del_def)

text \<open>Every statement of a runner is one of the operations of a job.\<close>

lemma void_in_tx: "snd (in_tx (void m) s) = snd (in_tx m s)"
  by (auto simp: after_tx void_def bind_tx_def ret_tx_def split: sum.splits)

lemma finish_outcome_op: "\<exists>op. finish_outcome b i out = run_job_op op"
proof -
  have ends: "complete_job i q = run_job_op (CompleteOp i q)" "fail_job i m = run_job_op (FailOp i m)" for q m
    by (simp_all add: run_job_op_def)
  show ?thesis by (cases out; simp only: finish_outcome_def work_outcome.case ends; blast)
qed

lemma runner_act_op: "\<exists>op. snd (runner_act p a r s) \<in> {s, snd (in_tx (run_job_op op) s)}"
proof -
  have run: "\<exists>op. snd (in_tx (finish_outcome b i out) s) = snd (in_tx (run_job_op op) s)" for b i out
    using finish_outcome_op [of b i out] by metis
  have finish: "\<exists>op. snd (finish_attempt k r s) \<in> {s, snd (in_tx (run_job_op op) s)}" for k
    using run by (auto simp: finish_attempt_def Let_def split: option.splits phase.splits)
  have submit: "snd (snd (submit_job p nj r s)) \<in> {s, snd (in_tx (run_job_op (CreateOp (nj\<lparr>nj_lease := runner_lease p\<rparr>))) s)}" for nj
    by (auto simp: submit_job_def run_job_op_def void_in_tx split: sum.splits prod.splits)
  have resubmit: "snd (snd (resubmit_job p st i r s)) \<in> {s, snd (in_tx (run_job_op (RequeueOp st i (runner_lease p))) s)}" for st i
    by (auto simp: resubmit_job_def run_job_op_def in_tx_def split: sum.splits prod.splits)
  show ?thesis
  proof (cases a)
    case (SubmitJob nj)
    then show ?thesis using submit [of nj] by (metis runner_act.simps(1))
  next
    case (ResubmitJob st i)
    then show ?thesis using resubmit [of st i] by (metis runner_act.simps(2))
  next
    case RenewLeases
    then show ?thesis by (intro exI [of _ "RenewOp (runner_lease p)"]) (simp add: run_job_op_def void_in_tx)
  next
    case SweepOrphans
    then show ?thesis by (intro exI [of _ "OrphansOp p"]) (simp add: run_job_op_def void_in_tx)
  next
    case ReleaseLeases
    then show ?thesis by (intro exI [of _ "ReleaseOp p"]) (simp add: run_job_op_def void_in_tx)
  qed (use finish in auto)
qed

lemma happen_db: "\<exists>op. wd_db (happen e w) = wd_db w \<or> wd_db (happen e w) = snd (in_tx (run_job_op op) (wd_db w))
    \<or> jobs (wd_db (happen e w)) = jobs (wd_db w) \<and> db_now (wd_db w) \<le> db_now (wd_db (happen e w))"
proof (cases e)
  case (Process p a)
  then show ?thesis
    using runner_act_op [of p a _ "wd_db w"] by (auto split: option.splits prod.splits) (metis insertE singletonD snd_conv)+
qed auto

lemma job_op_distinct: "distinct (keys (jobs s)) \<Longrightarrow> distinct (keys (jobs (snd (in_tx (run_job_op op) s))))"
  using job_op_effect [of s op] by (auto simp: after_tx split: sum.splits)

lemma tombstones_clock: "record_tombstones st kind es s = Inr (u, s') \<Longrightarrow> db_now s' = db_now s"
  unfolding record_tombstones_def by (induction es arbitrary: s) (auto simp: tx_iff)

lemma job_op_clock: "db_now (snd (in_tx (run_job_op op) s)) = db_now s"
proof (cases "run_job_op op s")
  case (Inr x)
  then obtain s' where run: "run_job_op op s = Inr ((), s')" by (cases x) auto
  have "db_now s' = db_now s"
    using run
    by (cases op)
      (auto simp: run_job_op_def create_job_def complete_job_def fail_job_def fail_orphaned_jobs_def renew_job_leases_def
        release_job_leases_def clear_job_image_def delete_job_def discard_jobs_def requeue_job_def delete_location_def
        delete_location_row_def tx_iff Let_def split: option.splits dest!: tombstones_clock)
  then show ?thesis by (simp add: after_tx run)
qed (simp add: after_tx)

lemma happen_clock: "db_now (wd_db w) \<le> db_now (wd_db (happen e w))"
  using happen_db [of e w] by (auto simp: job_op_clock)

lemma happen_distinct: "distinct (keys (jobs (wd_db w))) \<Longrightarrow> distinct (keys (jobs (wd_db (happen e w))))"
  using happen_db [of e w] by (auto simp: job_op_distinct)

section \<open>Every claimed job is being worked\<close>

definition works_on :: "uuid \<Rightarrow> runner \<Rightarrow> bool" where
  "works_on i r \<longleftrightarrow> i \<in> fst ` set (rn_attempts r)"

definition tended :: "world \<Rightarrow> bool" where
  "tended w \<longleftrightarrow> distinct (keys (jobs (wd_db w)))
     \<and> (\<forall>i p e r. claim i (wd_db w) = Some (Some p, e) \<longrightarrow> map_of (wd_runners w) p = Some r \<longrightarrow> works_on i r)"

lemma tendedD: "tended w \<Longrightarrow> claim i (wd_db w) = Some (Some p, e) \<Longrightarrow> map_of (wd_runners w) p = Some r \<Longrightarrow> works_on i r"
  by (simp add: tended_def)

lemma works_on_start [simp]: "works_on i (start_attempt k r) \<longleftrightarrow> i = k \<or> works_on i r"
  by (auto simp: works_on_def start_attempt_def)

lemma works_on_phase [simp]: "k < length (rn_attempts r) \<Longrightarrow> works_on i (set_phase k p r) \<longleftrightarrow> works_on i r"
proof -
  assume k: "k < length (rn_attempts r)"
  have "map fst (rn_attempts (set_phase k p r)) = map fst (rn_attempts r)"
    by (simp add: set_phase_def map_update list_update_same_conv k)
  then show ?thesis unfolding works_on_def by (metis image_set)
qed

lemma works_on_moves [simp]:
  "works_on i (take_slot k r) \<longleftrightarrow> works_on i r" "works_on i (stop_waiting k r) \<longleftrightarrow> works_on i r"
  "works_on i (work_ends k out r) \<longleftrightarrow> works_on i r" "works_on i (shut_down r) \<longleftrightarrow> works_on i r"
  by (simp_all add: take_slot_def stop_waiting_def work_ends_def phase_at_def shut_down_def works_on_def [of i "r\<lparr>rn_closed := _, rn_stopped := _\<rparr>"])
    (simp add: works_on_def)

lemma works_on_finished:
  assumes "works_on i r" and "i \<noteq> fst (rn_attempts r ! k)"
  shows "works_on i (r\<lparr>rn_attempts := take k (rn_attempts r) @ drop (Suc k) (rn_attempts r)\<rparr>)"
proof (cases "k < length (rn_attempts r)")
  case True
  from id_take_nth_drop [OF this] have "set (rn_attempts r) = insert (rn_attempts r ! k) (set (take k (rn_attempts r) @ drop (Suc k) (rn_attempts r)))"
    by (metis Un_insert_right list.simps(15) set_append)
  then show ?thesis using assms by (auto simp: works_on_def)
qed (use assms in \<open>simp add: works_on_def\<close>)

lemma submit_effect:
  "snd (submit_job p nj r s) = (r, s) \<or> (\<exists>k j s'. create_job (nj\<lparr>nj_lease := runner_lease p\<rparr>) s = Inr ((k, j), s')
     \<and> snd (submit_job p nj r s) = (start_attempt k r, s'))"
  by (cases "create_job (nj\<lparr>nj_lease := runner_lease p\<rparr>) s") (auto simp: submit_job_def in_tx_def)

lemma resubmit_effect:
  "snd (resubmit_job p st k r s) = (r, s) \<or> (\<exists>s'. requeue_job st k (runner_lease p) s = Inr ((), s')
     \<and> snd (resubmit_job p st k r s) = (start_attempt k r, s'))"
  by (cases "requeue_job st k (runner_lease p) s") (auto simp: resubmit_job_def in_tx_def)

text \<open>What an act of process \<open>p\<close> does to a claim: a new one is its own, and it is then at work on that job.\<close>

lemma act_claims:
  assumes c: "claim i (snd (runner_act p a r s)) = Some (Some q, e)"
  shows "(q = p \<and> works_on i (fst (runner_act p a r s)) \<and> claim i s = None)
    \<or> (\<exists>e'. claim i s = Some (Some q, e') \<and> (works_on i r \<longrightarrow> works_on i (fst (runner_act p a r s))))"
proof (cases a)
  case (SubmitJob nj)
  from submit_effect [of p nj r s] show ?thesis
  proof
    assume "\<exists>k j s'. create_job (nj\<lparr>nj_lease := runner_lease p\<rparr>) s = Inr ((k, j), s') \<and> snd (submit_job p nj r s) = (start_attempt k r, s')"
    then obtain k j s' where run: "create_job (nj\<lparr>nj_lease := runner_lease p\<rparr>) s = Inr ((k, j), s')"
      "snd (submit_job p nj r s) = (start_attempt k r, s')" by blast
    with claim_create [OF run(1)] c show ?thesis by (auto simp: SubmitJob runner_lease_def lease_claim_def split: if_splits)
  qed (use c in \<open>auto simp: SubmitJob\<close>)
next
  case (ResubmitJob st k)
  from resubmit_effect [of p st k r s] show ?thesis
  proof
    assume "\<exists>s'. requeue_job st k (runner_lease p) s = Inr ((), s') \<and> snd (resubmit_job p st k r s) = (start_attempt k r, s')"
    then obtain s' where run: "requeue_job st k (runner_lease p) s = Inr ((), s')"
      "snd (resubmit_job p st k r s) = (start_attempt k r, s')" by blast
    with claim_requeue [OF run(1)] c show ?thesis by (auto simp: ResubmitJob runner_lease_def lease_claim_def split: if_splits)
  qed (use c in \<open>auto simp: ResubmitJob\<close>)
next
  case (FinishAttempt k)
  then show ?thesis
    using c works_on_finished [of i r k]
    by (auto simp: finish_attempt_def Let_def claim_outcome split: option.splits phase.splits if_splits)
qed (use c in \<open>auto simp: claim_simps split: option.splits if_splits\<close>)

lemma tended_happen:
  assumes t: "tended w"
  shows "tended (happen e w)"
proof -
  let ?w = "happen e w"
  have "works_on i r" if c: "claim i (wd_db ?w) = Some (Some q, x)" and r: "map_of (wd_runners ?w) q = Some r" for i q x r
  proof (cases e)
    case (Process p a)
    show ?thesis
    proof (cases "map_of (wd_runners w) p")
      case None
      then show ?thesis using that tendedD [OF t] by (simp add: Process)
    next
      case (Some r0)
      obtain r1 s1 where act: "runner_act p a r0 (wd_db w) = (r1, s1)" by fastforce
      have c1: "claim i (snd (runner_act p a r0 (wd_db w))) = Some (Some q, x)" using c by (simp add: Process Some act)
      from act_claims [OF c1] show ?thesis
        using r Some tendedD [OF t, of i q] by (auto simp: Process act split: if_splits)
    qed
  next
    case (StartProcess p)
    have "jb_owner j \<noteq> Some p" if "fresh_owner p w" "map_of (jobs (wd_db w)) i = Some j" for j
      using that by (auto simp: fresh_owner_def list_all_iff dest: map_of_SomeD)
    then show ?thesis
      using that tendedD [OF t, of i q x r]
      by (auto simp: StartProcess fresh_owner_def map_of_insert_fresh claim_def split: if_splits option.splits)
  next
    case (EndProcess p)
    then show ?thesis using that tendedD [OF t, of i q x r] by (auto simp: map_of_del_process split: if_splits)
  next
    case (Review op)
    have "distinct (keys (jobs (wd_db w)))" using t by (simp add: tended_def)
    then have "claim i (wd_db w) = Some (Some q, x)"
      using c claim_review [of op "wd_db w" i] by (auto simp: Review split: if_splits)
    then show ?thesis using r tendedD [OF t, of i q x r] by (simp add: Review split: if_splits)
  next
    case (Elsewhere s)
    then show ?thesis using that tendedD [OF t, of i q x r] by (auto simp: claim_def split: if_splits)
  qed
  moreover have "distinct (keys (jobs (wd_db ?w)))" using t by (intro happen_distinct) (simp add: tended_def)
  ultimately show ?thesis by (simp add: tended_def)
qed

lemma reachable_tended: "world_reachable w \<Longrightarrow> tended w"
proof (induction rule: world_reachable.induct)
  case (empty w)
  then show ?case by (simp add: tended_def claim_def)
next
  case (step w w')
  then show ?case by (auto elim!: world_stepE intro: tended_happen)
qed

section \<open>Three at a time\<close>

lemma filter_split:
  "k < length xs \<Longrightarrow> length (filter P xs) = length (filter P (take k xs)) + of_bool (P (xs ! k)) + length (filter P (drop (Suc k) xs))"
  by (subst id_take_nth_drop [of k xs]) simp_all

lemma filter_update_length:
  assumes "k < length xs"
  shows "length (filter P (xs[k := y])) + of_bool (P (xs ! k)) = length (filter P xs) + of_bool (P y)"
  unfolding upd_conv_take_nth_drop [OF assms] by (simp add: filter_split [OF assms])

lemma busy_set_phase:
  "k < length (rn_attempts r) \<Longrightarrow> busy (set_phase k p r) + of_bool (holds_slot (snd (rn_attempts r ! k))) = busy r + of_bool (holds_slot p)"
  using filter_update_length [of k "rn_attempts r" "\<lambda>a. holds_slot (snd a)"] by (simp add: busy_def set_phase_def)

lemma busy_start [simp]: "busy (start_attempt i r) = busy r"
  by (simp add: busy_def start_attempt_def holds_slot_def)

lemma busy_finished: "busy (r\<lparr>rn_attempts := take k (rn_attempts r) @ drop (Suc k) (rn_attempts r)\<rparr>) \<le> busy r"
proof (cases "k < length (rn_attempts r)")
  case True
  then show ?thesis by (simp add: busy_def filter_split [OF True])
qed (simp add: busy_def)

lemma busy_act: "busy r \<le> default_concurrency \<Longrightarrow> busy (fst (runner_act p a r s)) \<le> default_concurrency"
proof (cases a)
  case (SubmitJob nj)
  then show "busy r \<le> default_concurrency \<Longrightarrow> ?thesis" using submit_effect [of p nj r s] by auto
next
  case (ResubmitJob st i)
  then show "busy r \<le> default_concurrency \<Longrightarrow> ?thesis" using resubmit_effect [of p st i r s] by auto
next
  case (TakeSlot k)
  then show "busy r \<le> default_concurrency \<Longrightarrow> ?thesis"
    using busy_set_phase [of k r Working] by (auto simp: take_slot_def phase_at_def holds_slot_def split: if_splits)
next
  case (StopWaiting k)
  then show "busy r \<le> default_concurrency \<Longrightarrow> ?thesis"
    using busy_set_phase [of k r Dropped] by (auto simp: stop_waiting_def phase_at_def holds_slot_def split: if_splits)
next
  case (WorkEnds k out)
  then show "busy r \<le> default_concurrency \<Longrightarrow> ?thesis"
    using busy_set_phase [of k r "Ended out"] by (auto simp: work_ends_def phase_at_def holds_slot_def split: if_splits)
next
  case (FinishAttempt k)
  then show "busy r \<le> default_concurrency \<Longrightarrow> ?thesis"
    using busy_finished [where r = r and k = k] by (auto simp: finish_attempt_def Let_def split: option.splits phase.splits)
qed (simp_all add: shut_down_def busy_def)

definition slots_kept :: "world \<Rightarrow> bool" where
  "slots_kept w \<longleftrightarrow> (\<forall>p r. map_of (wd_runners w) p = Some r \<longrightarrow> busy r \<le> default_concurrency)"

lemma slots_happen: "slots_kept w \<Longrightarrow> slots_kept (happen e w)"
proof (cases e)
  case (Process p a)
  assume w: "slots_kept w"
  have "busy r' \<le> default_concurrency" if "map_of (wd_runners w) p = Some r" "runner_act p a r (wd_db w) = (r', s')" for r r' s'
    using busy_act [of r p a "wd_db w"] w that by (auto simp: slots_kept_def)
  with w show ?thesis by (auto simp: Process slots_kept_def split: option.splits prod.splits)
qed (auto simp: slots_kept_def map_of_insert_fresh fresh_owner_def map_of_del_process new_runner_def busy_def split: if_splits)

lemma reachable_slots: "world_reachable w \<Longrightarrow> slots_kept w"
proof (induction rule: world_reachable.induct)
  case (empty w)
  then show ?case by (simp add: slots_kept_def)
next
  case (step w w')
  then show ?case by (auto elim!: world_stepE intro: slots_happen)
qed


section \<open>No job stays pending\<close>

text \<open>An owner whose process is gone keeps its claim until a sweep; no event brings the process back.\<close>

definition ownerless :: "uuid option \<Rightarrow> world \<Rightarrow> bool" where
  "ownerless q w \<longleftrightarrow> pred_option (\<lambda>p. map_of (wd_runners w) p = None) q"

lemma act_spares:
  assumes c: "claim i s = Some (q, e)" and q: "q \<noteq> Some p"
  shows "claim i (snd (runner_act p a r s)) \<in> {None, Some (q, e)}"
proof (cases a)
  case (SubmitJob nj)
  have "claim i s' = claim i s" if new: "create_job (nj\<lparr>nj_lease := runner_lease p\<rparr>) s = Inr ((k, j), s')" for k j s'
    using claim_create(1) [OF new] claim_create(2) [OF new, of i] c by auto
  then show ?thesis using submit_effect [of p nj r s] c by (auto simp: SubmitJob)
next
  case (ResubmitJob st k)
  have "claim i s' = claim i s" if again: "requeue_job st k (runner_lease p) s = Inr ((), s')" for s'
    using claim_requeue(1) [OF again] claim_requeue(2) [OF again, of i] c by auto
  then show ?thesis using resubmit_effect [of p st k r s] c by (auto simp: ResubmitJob)
next
  case (FinishAttempt k)
  then show ?thesis using c by (auto simp: finish_attempt_def Let_def claim_outcome split: option.splits phase.splits)
qed (use c q in \<open>auto simp: claim_simps split: option.splits\<close>)

lemma ownerless_kept:
  assumes d: "distinct (keys (jobs (wd_db w)))" and c: "claim i (wd_db w) = Some (q, e)" and o: "ownerless q w"
  shows "claim i (wd_db (happen ev w)) \<in> {None, Some (q, e)} \<and> ownerless q (happen ev w)"
proof (cases ev)
  case (Process p a)
  show ?thesis
  proof (cases "map_of (wd_runners w) p")
    case (Some r)
    then have "q \<noteq> Some p" using o by (auto simp: ownerless_def)
    with act_spares [OF c this, of a r] o Some show ?thesis
      by (cases q) (auto simp: Process ownerless_def split: prod.splits)
  qed (use c o in \<open>simp add: Process\<close>)
next
  case (StartProcess p)
  have "q \<noteq> Some p" if "fresh_owner p w"
    using that c by (auto simp: fresh_owner_def list_all_iff claim_def split: option.splits if_splits dest: map_of_SomeD)
  then show ?thesis
    using c o by (cases q) (auto simp: StartProcess ownerless_def fresh_owner_def map_of_insert_fresh)
next
  case (EndProcess p)
  then show ?thesis using c o by (cases q) (auto simp: ownerless_def map_of_del_process)
next
  case (Review op)
  then show ?thesis using c o claim_review [OF _ d, of op i] by (cases q) (auto simp: ownerless_def)
next
  case (Elsewhere s)
  then show ?thesis using c o by (cases q) (auto simp: ownerless_def claim_def)
qed

lemma owner_kept:
  assumes d: "distinct (keys (jobs (wd_db w)))" and c: "claim i (wd_db w) = Some (q, e)"
    and c': "claim i (wd_db (happen ev w)) = Some (Some p, e')"
  shows "q = Some p"
proof (cases ev)
  case (Process u a)
  show ?thesis
  proof (cases "map_of (wd_runners w) u")
    case (Some r)
    then have "claim i (snd (runner_act u a r (wd_db w))) = Some (Some p, e')" using c' by (auto simp: Process split: prod.splits)
    from act_claims [OF this] c show ?thesis by auto
  qed (use c c' in \<open>simp add: Process\<close>)
next
  case (Review op)
  then show ?thesis using c c' claim_review [OF _ d, of op i] by (auto split: if_splits)
qed (use c c' in \<open>auto simp: claim_def split: if_splits\<close>)

text \<open>
  A run of the world. Every attempt is recorded some day or its process ends: the work of a job respects its
  context, which ends after two minutes, and slots are handed on. Some process is there and sweeps again and
  again, and the clock passes every instant.
\<close>

definition world_run :: "(nat \<Rightarrow> world_event) \<Rightarrow> (nat \<Rightarrow> world) \<Rightarrow> bool" where
  "world_run ev w \<longleftrightarrow> world_reachable (w 0) \<and> (\<forall>n. w (Suc n) = happen (ev n) (w n))"

definition recorded_at :: "nat \<Rightarrow> uuid \<Rightarrow> runner \<Rightarrow> bool" where
  "recorded_at x i r \<longleftrightarrow> fst (rn_attempts r ! x) = i
     \<and> (case phase_at x r of Some (Ended _) \<Rightarrow> True | Some Dropped \<Rightarrow> True | _ \<Rightarrow> False)"

definition attempts_end :: "(nat \<Rightarrow> world_event) \<Rightarrow> (nat \<Rightarrow> world) \<Rightarrow> bool" where
  "attempts_end ev w \<longleftrightarrow> (\<forall>n p r i. map_of (wd_runners (w n)) p = Some r \<and> works_on i r \<longrightarrow>
     (\<exists>k\<ge>n. ev k = EndProcess p \<or> (\<exists>x r'. ev k = Process p (FinishAttempt x)
        \<and> map_of (wd_runners (w k)) p = Some r' \<and> recorded_at x i r')))"

definition swept_for_ever :: "(nat \<Rightarrow> world_event) \<Rightarrow> (nat \<Rightarrow> world) \<Rightarrow> bool" where
  "swept_for_ever ev w \<longleftrightarrow> (\<forall>n. \<exists>k\<ge>n. \<exists>p r. ev k = Process p SweepOrphans \<and> map_of (wd_runners (w k)) p = Some r)"

definition time_passes :: "(nat \<Rightarrow> world) \<Rightarrow> bool" where
  "time_passes w \<longleftrightarrow> (\<forall>t. \<exists>n. t < db_now (wd_db (w n)))"

lemma run_tended: "world_run ev w \<Longrightarrow> tended (w n)"
  by (induction n) (auto simp: world_run_def tended_happen reachable_tended)

lemma run_clock: "world_run ev w \<Longrightarrow> m \<le> n \<Longrightarrow> db_now (wd_db (w m)) \<le> db_now (wd_db (w n))"
proof (induction n)
  case (Suc n)
  then show ?case
    using happen_clock [of "w n" "ev n"] by (cases "m = Suc n") (auto simp: world_run_def intro: order_trans)
qed simp

lemma ownerless_swept:
  assumes run: "world_run ev w" and sw: "swept_for_ever ev w" and time: "time_passes w"
    and c: "claim i (wd_db (w m)) = Some (q, e)" and o: "ownerless q (w m)"
  shows "\<exists>k\<ge>m. claim i (wd_db (w k)) = None"
proof (rule ccontr)
  assume "\<not> (\<exists>k\<ge>m. claim i (wd_db (w k)) = None)"
  then have pending: "claim i (wd_db (w k)) \<noteq> None" if "m \<le> k" for k using that by auto
  have keep: "claim i (wd_db (w k)) = Some (q, e) \<and> ownerless q (w k)" if "m \<le> k" for k
    using that
  proof (induction k rule: dec_induct)
    case (step k)
    have "distinct (keys (jobs (wd_db (w k))))" using run_tended [OF run] by (simp add: tended_def)
    with step ownerless_kept [of "w k" i q e "ev k"] pending [of "Suc k"] run show ?case by (auto simp: world_run_def)
  qed (simp add: c o)
  obtain n where n: "pred_option (\<lambda>t. t < db_now (wd_db (w n))) e"
    using time by (cases e) (auto simp: time_passes_def)
  obtain k p r where k: "max m n \<le> k" "ev k = Process p SweepOrphans" "map_of (wd_runners (w k)) p = Some r"
    using sw unfolding swept_for_ever_def by blast
  have "pred_option (\<lambda>t. t < db_now (wd_db (w k))) e"
    using n run_clock [OF run, of n k] k(1) by (cases e) auto
  moreover have "q \<noteq> Some p" using keep [of k] k by (auto simp: ownerless_def)
  ultimately have "claim i (wd_db (w (Suc k))) = None"
    using run keep [of k] k by (simp add: world_run_def claim_sweep)
  with pending [of "Suc k"] k show False by simp
qed


section \<open>A process dies\<close>

definition before_crash :: world where
  "before_crash = fold happen [StartProcess 8, Process 8 (SubmitJob demo_request), Process 8 (TakeSlot 0)]
     \<lparr>wd_db = job_db, wd_runners = []\<rparr>"

definition after_crash :: world where
  "after_crash = fold happen [EndProcess 8, StartProcess 9] before_crash"

lemma fold_reachable: "world_reachable w \<Longrightarrow> world_reachable (fold happen es w)"
  by (induction es arbitrary: w) (auto intro: world_reachable.step world_step.intros)

lemma before_crash_reachable: "world_reachable before_crash"
  unfolding before_crash_def by (intro fold_reachable world_reachable.empty) (simp_all add: job_db_def empty_db_def)

lemma after_crash_reachable: "world_reachable after_crash"
  unfolding after_crash_def by (intro fold_reachable before_crash_reachable)

lemma before_crash_worked:
  "map_of (wd_runners before_crash) 8 = Some \<lparr>rn_closed = False, rn_stopped = False, rn_attempts = [(40, Working)]\<rparr>"
  "map_option (\<lambda>j. (jb_status j, jb_owner j)) (map_of (jobs (wd_db before_crash)) 40) = Some (JobPending, Some 8)"
  by code_simp+

lemma after_crash_orphan:
  "wd_runners after_crash = [(9, new_runner)]"
  "map_option jb_status (map_of (jobs (wd_db after_crash)) 40) = Some JobPending"
  by code_simp+


text \<open>The other process sweeps, an hour passes, it sweeps again, and so on.\<close>

definition keeper_event :: "nat \<Rightarrow> world \<Rightarrow> world_event" where
  "keeper_event n w = (if even n then Process 9 SweepOrphans
     else Elsewhere ((wd_db w)\<lparr>db_now := db_now (wd_db w) + 3600 * 10 ^ 9\<rparr>))"

primrec keeper_world :: "nat \<Rightarrow> world" where
  "keeper_world 0 = after_crash"
| "keeper_world (Suc n) = happen (keeper_event n (keeper_world n)) (keeper_world n)"

lemma keeper_runners: "wd_runners (keeper_world n) = [(9, new_runner)]"
  by (induction n) (simp_all add: after_crash_orphan keeper_event_def tbl_upd_def tbl_map_def)

lemma keeper_clock: "db_now (wd_db (keeper_world (Suc n))) = db_now (wd_db (keeper_world n)) + (if even n then 0 else 3600 * 10 ^ 9)"
  by (simp add: keeper_event_def keeper_runners after_tx fail_orphaned_jobs_def tx_defs)

lemma keeper_later: "db_now (wd_db (keeper_world 0)) + int n \<le> db_now (wd_db (keeper_world (2 * n)))"
proof (induction n)
  case (Suc n)
  have "db_now (wd_db (keeper_world (2 * Suc n))) = db_now (wd_db (keeper_world (2 * n))) + 3600 * 10 ^ 9"
    using keeper_clock [of "Suc (2 * n)"] keeper_clock [of "2 * n"] by simp
  with Suc show ?case by simp
qed simp


section \<open>An attempt that was given up\<close>

text \<open>
  Recording an outcome asks only that the job is pending, not that the process which records it holds the
  claim. A process that stalls past its lease has its job failed by another one; when the job is then analyzed
  again over there and the first process wakes up, its outdated result settles the job, and the result of
  the attempt that does hold the claim is thrown away.
\<close>

definition stalled :: world where
  "stalled = (let w = fold happen [StartProcess 9] before_crash in
     happen (Elsewhere ((wd_db w)\<lparr>db_now := db_now (wd_db w) + 120 * 10 ^ 9\<rparr>)) w)"

definition analyzed_again :: world where
  "analyzed_again = fold happen [Process 9 SweepOrphans, Process 9 (ResubmitJob 2 40), Process 9 (TakeSlot 0)] stalled"

definition woken_up :: world where
  "woken_up = fold happen [Process 8 (WorkEnds 0 (Produced [\<lparr>pw_row = ''old'', pw_exact = None\<rparr>])), Process 8 (FinishAttempt 0)] analyzed_again"

definition thrown_away :: world where
  "thrown_away = fold happen [Process 9 (WorkEnds 0 (Produced [\<lparr>pw_row = ''new'', pw_exact = None\<rparr>])), Process 9 (FinishAttempt 0)] woken_up"

theorem given_up_attempt_settles_job:
  "map_option jb_owner (map_of (jobs (wd_db analyzed_again)) 40) = Some (Some 9)
   \<and> map_option (\<lambda>j. (jb_status j, jb_payload j)) (map_of (jobs (wd_db woken_up)) 40) = Some (JobDone, Some [\<lparr>pw_row = ''old'', pw_exact = None\<rparr>])
   \<and> map_of (jobs (wd_db thrown_away)) 40 = map_of (jobs (wd_db woken_up)) 40"
  by code_simp

end
