(* ===== verification/Vision.thy ===== *)
theory Vision
  imports Matching StockApi
begin

text \<open>
  \<open>internal/vision\<close>: what is made of the reply of the vision model (\<open>gemini.go\<close>) and whether a model is
  there at all (\<open>vision.go\<close>). The provider is outside: its answer, the decoding of its JSON and the rounding
  of a number to the nearest double are arguments. JSON has no NaN. A fetch of the model list that is under way
  makes other callers wait and read the cache it fills, so the checker is a sequence of calls.
\<close>

section \<open>The reply\<close>

datatype vision_mode = ModeShelf | ModeProduct | ModeConsumption | ModeShoppingList

definition max_label_runes :: nat where "max_label_runes = 255"
definition max_list_lines :: nat where "max_list_lines = 200"
definition max_line_runes :: nat where "max_line_runes = 255"

record box =
  bx_x :: rat
  bx_y :: rat
  bx_width :: rat
  bx_height :: rat

record wire_item =
  wi_label :: string
  wi_confidence :: "rat option"
  wi_quantity :: "int option"
  wi_box :: "box option"
  wi_path :: "string list"

record wire_analysis =
  wa_items :: "wire_item list option"
  wa_is_list :: bool
  wa_lines :: "string list"

record sighting =
  sg_confidence :: rat
  sg_box :: "box option"

text \<open>The first \<open>n\<close> characters of a text in UTF-8.\<close>

definition starts_rune :: "char \<Rightarrow> bool" where
  "starts_rune c \<longleftrightarrow> (let n = (of_char c :: nat) in n < 128 \<or> 192 \<le> n)"

fun take_runes :: "nat \<Rightarrow> string \<Rightarrow> string" where
  "take_runes n [] = []"
| "take_runes n (c # cs) = (if starts_rune c then (case n of 0 \<Rightarrow> [] | Suc m \<Rightarrow> c # take_runes m cs) else c # take_runes n cs)"

definition bounded_runes :: "nat \<Rightarrow> string \<Rightarrow> string" where
  "bounded_runes n t = (if rune_count t > n then take_runes n t else t)"

definition valid_box :: "(rat \<Rightarrow> rat) \<Rightarrow> box \<Rightarrow> bool" where
  "valid_box fl b \<longleftrightarrow> list_all (\<lambda>v. 0 \<le> v \<and> v \<le> 1) [bx_x b, bx_y b, bx_width b, bx_height b]
     \<and> 0 < bx_width b \<and> 0 < bx_height b \<and> fl (bx_x b + bx_width b) \<le> fl (101 / 100) \<and> fl (bx_y b + bx_height b) \<le> fl (101 / 100)"

definition clean_list_lines :: "string list \<Rightarrow> string list" where
  "clean_list_lines lines = take max_list_lines
     (map (bounded_runes max_line_runes) (filter (\<lambda>l. l \<noteq> []) (map trim_space lines)))"

definition parse_item :: "(rat \<Rightarrow> rat) \<Rightarrow> vision_mode \<Rightarrow> wire_item \<Rightarrow> sighting detection option" where
  "parse_item fl mode w =
     (let label = trim_space (wi_label w) in
      if label = [] then None
      else case wi_quantity w of
          None \<Rightarrow> None
        | Some q \<Rightarrow> if q < 1 then None
            else Some \<lparr>dt_label = bounded_runes max_label_runes label, dt_quantity = q,
              dt_seen = \<lparr>sg_confidence = (case wi_confidence w of None \<Rightarrow> 0 | Some c \<Rightarrow> max 0 (min 1 c)),
                sg_box = (if mode = ModeShelf \<or> mode = ModeConsumption
                  then case wi_box w of None \<Rightarrow> None | Some b \<Rightarrow> if valid_box fl b then Some b else None else None)\<rparr>,
              dt_path = (if mode = ModeShelf then filter (\<lambda>t. t \<noteq> []) (map trim_space (wi_path w)) else [])\<rparr>)"

fun parse_items :: "(rat \<Rightarrow> rat) \<Rightarrow> vision_mode \<Rightarrow> wire_item list \<Rightarrow> sighting detection list option" where
  "parse_items fl mode [] = Some []"
| "parse_items fl mode (w # ws) = (case parse_item fl mode w of
      None \<Rightarrow> None | Some d \<Rightarrow> map_option ((#) d) (parse_items fl mode ws))"

definition most_confident :: "sighting detection list \<Rightarrow> sighting detection list" where
  "most_confident ds = take 1 (sort_key (\<lambda>d. - sg_confidence (dt_seen d)) ds)"

text \<open>Nothing is a reply that does not satisfy the contract.\<close>

definition wired_items :: "vision_mode \<Rightarrow> wire_analysis \<Rightarrow> wire_item list option" where
  "wired_items mode w = (case wa_items w of Some is \<Rightarrow> Some is | None \<Rightarrow> if mode = ModeShoppingList then Some [] else None)"

definition analysis_of :: "vision_mode \<Rightarrow> wire_analysis \<Rightarrow> sighting detection list \<Rightarrow> sighting analysis" where
  "analysis_of mode w ds =
     (let lines = clean_list_lines (wa_lines w) in
      \<lparr>an_items = (if mode = ModeProduct \<and> length ds > 1 then most_confident ds else ds),
       an_is_list = (if lines = [] \<and> mode \<noteq> ModeShoppingList then False else wa_is_list w \<or> mode = ModeShoppingList),
       an_lines = lines\<rparr>)"

definition parse_analysis :: "(rat \<Rightarrow> rat) \<Rightarrow> vision_mode \<Rightarrow> wire_analysis option \<Rightarrow> sighting analysis option" where
  "parse_analysis fl mode reply = (case reply of
      None \<Rightarrow> None
    | Some w \<Rightarrow> (case wired_items mode w of
          None \<Rightarrow> None | Some wires \<Rightarrow> map_option (analysis_of mode w) (parse_items fl mode wires)))"

text \<open>One call of the model: its status and the texts of its candidates, if the envelope decodes.\<close>

datatype provider_reply = Unreachable bool | Replied int "string list option"

datatype 'x vision_answer = Analyzed "'x analysis" | ModelNotFound | MalformedResponse | VisionFailed bool

definition analyze :: "(rat \<Rightarrow> rat) \<Rightarrow> (string \<Rightarrow> wire_analysis option) \<Rightarrow> vision_mode \<Rightarrow> provider_reply \<Rightarrow> sighting vision_answer" where
  "analyze fl decode mode reply = (case reply of
      Unreachable late \<Rightarrow> VisionFailed late
    | Replied status candidates \<Rightarrow>
        if status = 404 then ModelNotFound
        else if status \<noteq> 200 then VisionFailed False
        else case candidates of
            None \<Rightarrow> MalformedResponse
          | Some [] \<Rightarrow> MalformedResponse
          | Some (text # _) \<Rightarrow> (case parse_analysis fl mode (decode text) of
                None \<Rightarrow> MalformedResponse | Some a \<Rightarrow> Analyzed a))"

section \<open>What an analysis can be\<close>

definition item_in_order :: "(rat \<Rightarrow> rat) \<Rightarrow> vision_mode \<Rightarrow> sighting detection \<Rightarrow> bool" where
  "item_in_order fl mode d \<longleftrightarrow> dt_label d \<noteq> [] \<and> rune_count (dt_label d) \<le> 255 \<and> 1 \<le> dt_quantity d
     \<and> 0 \<le> sg_confidence (dt_seen d) \<and> sg_confidence (dt_seen d) \<le> 1
     \<and> pred_option (valid_box fl) (sg_box (dt_seen d))
     \<and> (mode = ModeProduct \<or> mode = ModeShoppingList \<longrightarrow> sg_box (dt_seen d) = None)
     \<and> (mode \<noteq> ModeShelf \<longrightarrow> dt_path d = []) \<and> list_all (\<lambda>t. t \<noteq> []) (dt_path d)"

lemma rune_count_Cons: "rune_count (c # cs) = (if starts_rune c then Suc (rune_count cs) else rune_count cs)"
  by (simp add: rune_count_def starts_rune_def)

lemma rune_count_Nil [simp]: "rune_count [] = 0"
  by (simp add: rune_count_def)

lemma take_runes_count: "rune_count (take_runes n t) \<le> n"
  by (induction n t rule: take_runes.induct) (auto simp: rune_count_Cons split: nat.split)

lemma take_runes_nonempty: "0 < n \<Longrightarrow> t \<noteq> [] \<Longrightarrow> take_runes n t \<noteq> []"
  by (cases t) (auto split: nat.split)

lemma bounded_runes_count: "rune_count (bounded_runes n t) \<le> n"
  by (simp add: bounded_runes_def take_runes_count)

lemma bounded_runes_nonempty: "0 < n \<Longrightarrow> t \<noteq> [] \<Longrightarrow> bounded_runes n t \<noteq> []"
  by (simp add: bounded_runes_def take_runes_nonempty)

lemma no_runes [simp]: "0 < n \<Longrightarrow> [] = bounded_runes n t \<longleftrightarrow> t = []"
  using bounded_runes_nonempty [of n t] by (cases "t = []") (simp_all add: bounded_runes_def eq_commute [of "[]"])

lemma parse_item_in_order: "parse_item fl mode w = Some d \<Longrightarrow> item_in_order fl mode d"
  by (auto simp: parse_item_def item_in_order_def Let_def bounded_runes_nonempty max_label_runes_def list_all_iff
      intro: bounded_runes_count split: if_splits option.splits)

lemma parse_items_in_order: "parse_items fl mode ws = Some ds \<Longrightarrow> list_all (item_in_order fl mode) ds"
  by (induction ws arbitrary: ds) (auto split: option.splits intro: parse_item_in_order)

lemma most_confident_first:
  assumes "ds \<noteq> []"
  shows "\<exists>d. most_confident ds = [d] \<and> d \<in> set ds \<and> list_all (\<lambda>x. sg_confidence (dt_seen x) \<le> sg_confidence (dt_seen d)) ds"
proof -
  let ?k = "\<lambda>d. - sg_confidence (dt_seen d)"
  have s: "sorted (map ?k (sort_key ?k ds))" and e: "set (sort_key ?k ds) = set ds" by simp_all
  have "sort_key ?k ds \<noteq> []" using assms by (metis e set_empty)
  then obtain d rest where d: "sort_key ?k ds = d # rest" by (cases "sort_key ?k ds") auto
  with s have "\<forall>x \<in> set (sort_key ?k ds). ?k d \<le> ?k x" by auto
  with e have "\<forall>x \<in> set ds. ?k d \<le> ?k x" by simp
  then have "list_all (\<lambda>x. sg_confidence (dt_seen x) \<le> sg_confidence (dt_seen d)) ds" by (simp add: list_all_iff)
  moreover have "d \<in> set ds" using d e by (metis list.set_intros(1))
  ultimately show ?thesis using d by (simp add: most_confident_def)
qed

lemma parse_analysis_SomeD:
  "parse_analysis fl mode reply = Some a \<Longrightarrow> \<exists>w wires ds. parse_items fl mode wires = Some ds \<and> a = analysis_of mode w ds"
  by (auto simp: parse_analysis_def split: option.splits)

text \<open>
  C7. Whatever the model replies, an analysis is well formed or there is none: every item has a label of 1 to
  255 characters, a positive quantity and a confidence between 0 and 1; a box only where boxes are asked for, and
  then within the picture; a path only for a shelf, without blank steps; at most one item for a product; at most
  200 lines, none blank and none longer than 255 characters; and a photo is called a list only if it has lines or
  was uploaded as one.
\<close>

theorem analysis_well_formed:
  assumes "analyze fl decode mode reply = Analyzed a"
  shows "list_all (item_in_order fl mode) (an_items a) \<and> (mode = ModeProduct \<longrightarrow> length (an_items a) \<le> 1)
    \<and> length (an_lines a) \<le> 200 \<and> list_all (\<lambda>l. l \<noteq> [] \<and> rune_count l \<le> 255) (an_lines a)
    \<and> (an_is_list a \<longrightarrow> an_lines a \<noteq> [] \<or> mode = ModeShoppingList)"
proof -
  have "\<exists>t. parse_analysis fl mode t = Some a"
    using assms by (auto simp: analyze_def split: provider_reply.splits if_splits option.splits list.splits)
  then obtain w wires ds where ds: "parse_items fl mode wires = Some ds" and a: "a = analysis_of mode w ds"
    using parse_analysis_SomeD by blast
  have items: "an_items a = (if mode = ModeProduct \<and> length ds > 1 then most_confident ds else ds)"
    and lines: "an_lines a = clean_list_lines (wa_lines w)"
    and is_list: "an_is_list a \<longrightarrow> an_lines a \<noteq> [] \<or> mode = ModeShoppingList"
    by (simp_all add: a analysis_of_def Let_def)
  note ok = parse_items_in_order [OF ds]
  have "set (most_confident ds) \<subseteq> set ds" by (auto simp: most_confident_def dest!: in_set_takeD)
  then have "list_all (item_in_order fl mode) (an_items a)" using ok by (auto simp: items list_all_iff)
  moreover have "mode = ModeProduct \<longrightarrow> length (an_items a) \<le> 1"
    by (auto simp: items most_confident_def)
  moreover have "length (an_lines a) \<le> 200" by (simp add: lines clean_list_lines_def max_list_lines_def)
  moreover have "list_all (\<lambda>l. l \<noteq> [] \<and> rune_count l \<le> 255) (an_lines a)"
    by (auto simp: lines clean_list_lines_def list_all_iff max_line_runes_def bounded_runes_nonempty
        intro: bounded_runes_count dest!: in_set_takeD)
  ultimately show ?thesis using is_list by blast
qed

definition careless_reply :: "string \<Rightarrow> wire_analysis option" where
  "careless_reply t = Some \<lparr>wa_items = Some
     [\<lparr>wi_label = '' milk '', wi_confidence = Some 7, wi_quantity = Some 2,
       wi_box = Some \<lparr>bx_x = 1 / 2, bx_y = 0, bx_width = 1, bx_height = 1\<rparr>, wi_path = [''Kitchen'', '' '']\<rparr>],
     wa_is_list = True, wa_lines = ['' '']\<rparr>"

theorem analysis_well_formed_witness:
  "\<exists>a. analyze id careless_reply ModeShelf (Replied 200 (Some [''x''])) = Analyzed a \<and> length (an_items a) = 1
     \<and> list_all (item_in_order id ModeShelf) (an_items a) \<and> \<not> an_is_list a"
proof -
  obtain a where run: "analyze id careless_reply ModeShelf (Replied 200 (Some [''x''])) = Analyzed a"
    and one: "length (an_items a) = 1" and empty: "an_lines a = []"
    by (simp add: analyze_def careless_reply_def parse_analysis_def parse_item_def trim_space_def white_space_def
        clean_list_lines_def wired_items_def analysis_of_def Let_def)
  from analysis_well_formed [OF run] one empty run show ?thesis by auto
qed

section \<open>Is the model there\<close>

record model_cache =
  mc_models :: "string list"
  mc_fetched :: instant
  mc_failed :: bool

definition model_ttl :: instant where "model_ttl = 5 * 60 * 10 ^ 9"

definition settings_model_key :: string where "settings_model_key = ''gemini_model''"

definition effective_model :: "string \<Rightarrow> db \<Rightarrow> string" where
  "effective_model env_model s = (case get_setting settings_model_key s of
      Some v \<Rightarrow> if trim_space v \<noteq> [] then trim_space v else env_model
    | None \<Rightarrow> env_model)"

definition normalize_model_id :: "string \<Rightarrow> string" where
  "normalize_model_id i = (let t = trim_space i in if take 7 t = ''models/'' then drop 7 t else t)"

text \<open>The list of the provider, page by page, at most ten of them: nothing is an error of the provider.\<close>

fun list_models :: "nat \<Rightarrow> (string \<Rightarrow> (string list \<times> string) option) \<Rightarrow> string \<Rightarrow> string list \<Rightarrow> string list option" where
  "list_models 0 page token ids = Some ids"
| "list_models (Suc n) page token ids = (case page token of
      None \<Rightarrow> None
    | Some (names, following) \<Rightarrow> if following = [] then Some (ids @ names) else list_models n page following (ids @ names))"

definition max_model_pages :: nat where "max_model_pages = 10"

text \<open>What a call gets, the cache it leaves, and whether it asked the provider. A failure is cached too.\<close>

definition fetch_models :: "instant \<Rightarrow> string list option \<Rightarrow> string list option \<times> model_cache option \<times> bool" where
  "fetch_models now listed = (case listed of
      None \<Rightarrow> (None, Some \<lparr>mc_models = [], mc_fetched = now, mc_failed = True\<rparr>, True)
    | Some ids \<Rightarrow> (Some (map normalize_model_id ids),
        Some \<lparr>mc_models = map normalize_model_id ids, mc_fetched = now, mc_failed = False\<rparr>, True))"

definition available_models :: "instant \<Rightarrow> string list option \<Rightarrow> model_cache option \<Rightarrow> string list option \<times> model_cache option \<times> bool" where
  "available_models now listed cache = (case cache of
      Some c \<Rightarrow> if now - mc_fetched c < model_ttl then (if mc_failed c then None else Some (mc_models c), cache, False)
        else fetch_models now listed
    | None \<Rightarrow> fetch_models now listed)"

definition invalidate_models :: "model_cache option \<Rightarrow> model_cache option" where
  "invalidate_models cache = None"

definition model_status :: "string \<Rightarrow> instant \<Rightarrow> string list option \<Rightarrow> db \<Rightarrow> model_cache option \<Rightarrow> bool \<times> model_cache option \<times> bool" where
  "model_status env_model now listed s cache =
     (let m = effective_model env_model s in
      if m = [] then (False, cache, False)
      else case available_models now listed cache of (ms, c, asked) \<Rightarrow> (pred_option (\<lambda>l. m \<in> set l) ms \<and> ms \<noteq> None, c, asked))"

definition offers_model :: "string \<Rightarrow> instant \<Rightarrow> string list option \<Rightarrow> model_cache option \<Rightarrow> bool \<times> model_cache option \<times> bool" where
  "offers_model model now listed cache =
     (let m = normalize_model_id model in
      if m = [] then (False, cache, False)
      else case available_models now listed cache of (ms, c, asked) \<Rightarrow> (pred_option (\<lambda>l. m \<in> set l) ms \<and> ms \<noteq> None, c, asked))"

text \<open>
  The calls of any number of probes: the times at which the provider was asked. Unless a withdrawn model drops
  the cache, two of them are at least five minutes apart, failures included.
\<close>

fun asked_at :: "(instant \<times> string list option) list \<Rightarrow> model_cache option \<Rightarrow> instant list" where
  "asked_at [] cache = []"
| "asked_at ((now, listed) # calls) cache = (case available_models now listed cache of
      (_, c, asked) \<Rightarrow> (if asked then [now] else []) @ asked_at calls c)"

lemma available_cases:
  "available_models now listed cache = (r, c, asked) \<Longrightarrow>
     (asked \<longrightarrow> (\<exists>m. c = Some m \<and> mc_fetched m = now) \<and> pred_option (\<lambda>m. model_ttl \<le> now - mc_fetched m) cache) \<and> (\<not> asked \<longrightarrow> c = cache)"
  by (auto simp: available_models_def fetch_models_def split: option.splits if_splits)

lemma asked_spaced:
  "sorted (map fst calls) \<Longrightarrow> pred_option (\<lambda>m. list_all (\<lambda>(t, _). mc_fetched m \<le> t) calls) cache \<Longrightarrow>
     sorted_wrt (\<lambda>a b. a + model_ttl \<le> b) (asked_at calls cache)
     \<and> pred_option (\<lambda>m. list_all (\<lambda>t. mc_fetched m + model_ttl \<le> t) (asked_at calls cache)) cache"
proof (induction calls cache rule: asked_at.induct)
  case (2 now listed calls cache)
  obtain r c asked where av: "available_models now listed cache = (r, c, asked)" by (metis prod_cases3)
  note step = available_cases [OF av]
  have later: "pred_option (\<lambda>m. list_all (\<lambda>(t, _). mc_fetched m \<le> t) calls) c"
    using step 2(2,3) by (cases asked; cases cache) (auto simp: list_all_iff case_prod_beta)
  have sorted: "sorted (map fst calls)" using 2(2) by simp
  note IH = 2(1) [OF av [symmetric] refl sorted later]
  have "model_ttl \<ge> 0" by (simp add: model_ttl_def)
  moreover have "asked_at ((now, listed) # calls) cache = (if asked then [now] else []) @ asked_at calls c" by (simp add: av)
  ultimately show ?case using IH step by (cases asked; cases cache) (fastforce simp: list_all_iff simp del: asked_at.simps)+
qed (simp_all split: option.split)

end
