(* ===== verification/Uploads.thy ===== *)
theory Uploads
  imports Runner Vision
begin

text \<open>
  Photos on disk (\<open>internal/uploads\<close>) and the services that turn one into a job (\<open>ingest/service.go\<close>,
  \<open>ingest/shoppinglist.go\<close>, \<open>consume/service.go\<close>). A disk is the files of the photo areas and their derived
  pictures by area, source and name; whether the file system fails is an argument of each operation. A write
  goes through a temporary file and a rename, so it happens or it does not.
\<close>

section \<open>Names\<close>

definition hex_digit :: "char \<Rightarrow> bool" where
  "hex_digit c \<longleftrightarrow> c \<in> set ''0123456789abcdef''"

fun uuid_groups :: "nat list \<Rightarrow> string \<Rightarrow> bool" where
  "uuid_groups [] t \<longleftrightarrow> False"
| "uuid_groups [n] t \<longleftrightarrow> length t = n \<and> list_all hex_digit t"
| "uuid_groups (n # ns) t \<longleftrightarrow> list_all hex_digit (take n t) \<and> length (take n t) = n
     \<and> (case drop n t of [] \<Rightarrow> False | c # cs \<Rightarrow> c = CHR 0x2D \<and> uuid_groups ns cs)"

definition stem_pattern :: "string \<Rightarrow> bool" where
  "stem_pattern t \<longleftrightarrow> uuid_groups [8, 4, 4, 4, 12] t"

definition generated_name :: "string \<Rightarrow> bool" where
  "generated_name t \<longleftrightarrow> stem_pattern (take 36 t) \<and> drop 36 t \<in> {''.jpg'', ''.png''}"

definition generated_picture_name :: "string \<Rightarrow> bool" where
  "generated_picture_name t \<longleftrightarrow> stem_pattern (take 36 t) \<and> drop 36 t \<in> {''.jpg'', ''.png'', ''.svg''}"

definition row_file_prefix :: string where "row_file_prefix = ''rows-''"

definition decimal :: "char \<Rightarrow> bool" where
  "decimal c \<longleftrightarrow> c \<in> set ''0123456789''"

definition row_name :: "string \<Rightarrow> bool" where
  "row_name t \<longleftrightarrow> take 5 t = row_file_prefix \<and> (let ds = takeWhile decimal (drop 5 t) in
     1 \<le> length ds \<and> length ds \<le> 6
     \<and> dropWhile decimal (drop 5 t) \<in> {''-thumb-192.jpg'', ''-thumb-192.png'', ''-thumb-384.jpg'', ''-thumb-384.png''})"

definition derived_name :: "string \<Rightarrow> bool" where
  "derived_name t \<longleftrightarrow> t \<in> {''preview.jpg'', ''preview.png'', ''thumb-96.jpg'', ''thumb-96.png'', ''thumb-192.jpg'', ''thumb-192.png'',
       ''thumb-384.jpg'', ''thumb-384.png'', ''thumb-768.jpg'', ''thumb-768.png''} \<or> row_name t"

text \<open>A generated name without its extension: none of its other characters is a dot.\<close>

definition stem :: "string \<Rightarrow> string" where
  "stem name = (let r = rev name in
     if CHR ''.'' \<in> set r then rev (tl (dropWhile (\<lambda>c. c \<noteq> CHR ''.'') r)) else name)"

section \<open>The disk\<close>

datatype area = AreaIngest | AreaProducts

datatype dir_error = InvalidName | Missing | DiskFailed

record disk =
  dk_files :: "((area \<times> string) \<times> string) list"
  dk_derived :: "((area \<times> string \<times> string) \<times> string) list"

definition names_of :: "area \<Rightarrow> string \<Rightarrow> bool" where
  "names_of a = (case a of AreaIngest \<Rightarrow> generated_name | AreaProducts \<Rightarrow> generated_picture_name)"

definition put_file :: "'k \<Rightarrow> string \<Rightarrow> ('k \<times> string) list \<Rightarrow> ('k \<times> string) list" where
  "put_file k v t = (if tbl_has k t then tbl_upd k (\<lambda>_. v) t else tbl_ins k v t)"

definition save_file :: "bool \<Rightarrow> area \<Rightarrow> string \<Rightarrow> string \<Rightarrow> disk \<Rightarrow> (dir_error + unit) \<times> disk" where
  "save_file fails a name data d =
     (if \<not> names_of a name then (Inl InvalidName, d)
      else if fails then (Inl DiskFailed, d)
      else (Inr (), d\<lparr>dk_files := put_file (a, name) data (dk_files d)\<rparr>))"

definition read_file :: "bool \<Rightarrow> area \<Rightarrow> string \<Rightarrow> disk \<Rightarrow> dir_error + string" where
  "read_file fails a name d =
     (if \<not> names_of a name then Inl InvalidName
      else if fails then Inl DiskFailed
      else case map_of (dk_files d) (a, name) of None \<Rightarrow> Inl Missing | Some data \<Rightarrow> Inr data)"

definition file_exists :: "area \<Rightarrow> string \<Rightarrow> disk \<Rightarrow> bool" where
  "file_exists a name d \<longleftrightarrow> names_of a name \<and> tbl_has (a, name) (dk_files d)"

definition list_files :: "area \<Rightarrow> disk \<Rightarrow> string list" where
  "list_files a d = filter (names_of a) (map (snd \<circ> fst) (filter (\<lambda>((b, _), _). b = a) (dk_files d)))"

definition remove_source :: "bool \<Rightarrow> area \<Rightarrow> string \<Rightarrow> disk \<Rightarrow> (dir_error + unit) \<times> disk" where
  "remove_source fails a st d =
     (if \<not> stem_pattern st then (Inl InvalidName, d)
      else if fails then (Inl DiskFailed, d)
      else (Inr (), d\<lparr>dk_derived := tbl_del (\<lambda>(b, s, _) _. b = a \<and> s = st) (dk_derived d)\<rparr>))"

text \<open>The source goes first; a file that is gone already is no error.\<close>

definition remove_file :: "bool \<Rightarrow> bool \<Rightarrow> area \<Rightarrow> string \<Rightarrow> disk \<Rightarrow> (dir_error + unit) \<times> disk" where
  "remove_file fails derived_fails a name d =
     (if \<not> names_of a name then (Inl InvalidName, d)
      else if fails then (Inl DiskFailed, d)
      else remove_source derived_fails a (stem name) (d\<lparr>dk_files := tbl_del (\<lambda>k _. k = (a, name)) (dk_files d)\<rparr>))"

definition write_derived :: "bool \<Rightarrow> area \<Rightarrow> string \<Rightarrow> string \<Rightarrow> string \<Rightarrow> disk \<Rightarrow> (dir_error + unit) \<times> disk" where
  "write_derived fails a st name data d =
     (if \<not> stem_pattern st \<or> \<not> derived_name name then (Inl InvalidName, d)
      else if fails then (Inl DiskFailed, d)
      else (Inr (), d\<lparr>dk_derived := put_file (a, st, name) data (dk_derived d)\<rparr>))"

definition read_derived :: "bool \<Rightarrow> area \<Rightarrow> string \<Rightarrow> string \<Rightarrow> disk \<Rightarrow> dir_error + string" where
  "read_derived fails a st name d =
     (if \<not> stem_pattern st \<or> \<not> derived_name name then Inl InvalidName
      else if fails then Inl DiskFailed
      else case map_of (dk_derived d) (a, st, name) of None \<Rightarrow> Inl Missing | Some data \<Rightarrow> Inr data)"

definition remove_rows :: "bool \<Rightarrow> area \<Rightarrow> string \<Rightarrow> disk \<Rightarrow> (dir_error + unit) \<times> disk" where
  "remove_rows fails a st d =
     (if \<not> stem_pattern st then (Inl InvalidName, d)
      else if fails then (Inl DiskFailed, d)
      else (Inr (), d\<lparr>dk_derived := tbl_del (\<lambda>(b, s, n) _. b = a \<and> s = st \<and> take 5 n = row_file_prefix \<and> derived_name n) (dk_derived d)\<rparr>))"

definition derived_stems :: "area \<Rightarrow> disk \<Rightarrow> string list" where
  "derived_stems a d = filter stem_pattern (remdups (map (\<lambda>((_, s, _), _). s) (filter (\<lambda>((b, _, _), _). b = a) (dk_derived d))))"

section \<open>The work of a job\<close>

definition msg_model_unavailable :: string where
  "msg_model_unavailable = ''The configured vision model is unavailable. Ask an admin to choose another one, then upload the photo again.''"
definition msg_unreadable :: string where "msg_unreadable = ''The photo could not be analysed. Try uploading it again.''"
definition msg_photo_missing :: string where "msg_photo_missing = ''The photo for this job is missing. Upload it again.''"
definition msg_no_lines :: string where
  "msg_no_lines = ''No shopping-list lines could be read from that photo. Try again with a clearer photo of the list.''"

text \<open>What a job reads of the photo, the answer of the model, and the error it ends with otherwise.\<close>

definition look_at :: "dir_error + string \<Rightarrow> (string \<Rightarrow> 'x vision_answer) \<Rightarrow> work_outcome + 'x analysis" where
  "look_at photo see = (case photo of
      Inl Missing \<Rightarrow> Inl (ToldUser msg_photo_missing)
    | Inl _ \<Rightarrow> Inl Broke
    | Inr pic \<Rightarrow> (case see pic of
          ModelNotFound \<Rightarrow> Inl (ToldUser msg_model_unavailable)
        | MalformedResponse \<Rightarrow> Inl (ToldUser msg_unreadable)
        | VisionFailed late \<Rightarrow> Inl (if late then OutOfTime else Broke)
        | Analyzed a \<Rightarrow> Inr a))"

definition exact_row :: "string \<Rightarrow> shown_match \<Rightarrow> proposal_row" where
  "exact_row i m = \<lparr>pw_row = i, pw_exact = (if sm_status m = ItemExactMatch then map_option fst (sm_product m) else None)\<rparr>"

definition ingest_work ::
    "matcher \<Rightarrow> (char \<Rightarrow> char) \<Rightarrow> location_row list \<Rightarrow> uuid option \<Rightarrow> dir_error + string \<Rightarrow> (string \<Rightarrow> 'x vision_answer) \<Rightarrow> work_outcome" where
  "ingest_work matcher fold_case tree hint photo see = (case look_at photo see of
      Inl out \<Rightarrow> out
    | Inr a \<Rightarrow> (case build_ingest_proposal matcher fold_case tree hint a of
          None \<Rightarrow> Broke | Some p \<Rightarrow> Produced (map (\<lambda>g. exact_row (gr_row g) (gr_match g)) (gp_rows p))))"

definition consume_work :: "matcher \<Rightarrow> dir_error + string \<Rightarrow> (string \<Rightarrow> 'x vision_answer) \<Rightarrow> work_outcome" where
  "consume_work matcher photo see = (case look_at photo see of
      Inl out \<Rightarrow> out
    | Inr a \<Rightarrow> (case build_consume_proposal matcher a of
          None \<Rightarrow> Broke | Some (rows, _, _) \<Rightarrow> Produced (map (\<lambda>g. exact_row (wr_row g) (wr_match g)) rows)))"

text \<open>A photographed list has no proposal: its job writes the list.\<close>

definition list_work ::
    "matcher \<Rightarrow> uuid \<Rightarrow> uuid option \<Rightarrow> dir_error + string \<Rightarrow> (string \<Rightarrow> 'x vision_answer) \<Rightarrow> db \<Rightarrow> work_outcome \<times> db" where
  "list_work matcher storage user photo see s = (case look_at photo see of
      Inl out \<Rightarrow> (out, s)
    | Inr a \<Rightarrow> if an_lines a = [] then (ToldUser msg_no_lines, s)
        else case match_lines matcher (an_lines a) of
            None \<Rightarrow> (Broke, s)
          | Some (items, _) \<Rightarrow> (case in_tx (create_shopping_list storage SourcePhoto user items) s of
                (Inl _, s') \<Rightarrow> (Broke, s') | (Inr _, s') \<Rightarrow> (Produced [], s')))"

section \<open>Starting a job\<close>

record upload =
  ul_storage :: uuid
  ul_kind :: job_kind
  ul_user :: uuid
  ul_hint :: "uuid option"
  ul_name :: string
  ul_image :: string

datatype start_error = UnsupportedKind | NotSaved dir_error | NotSubmitted runner_error

definition upload_job :: "upload \<Rightarrow> new_job" where
  "upload_job u = \<lparr>nj_storage = ul_storage u, nj_kind = ul_kind u, nj_created_by = Some (ul_user u), nj_image = Some (ul_name u),
     nj_hint = (if ul_kind u = JobShelfIngestion \<or> ul_kind u = JobProductPhoto then ul_hint u else None),
     nj_lease = \<lparr>le_owner = None, le_ttl = 0\<rparr>\<rparr>"

text \<open>The photo first, then the job; a job that cannot be made takes its photo with it.\<close>

definition start_upload :: "bool \<Rightarrow> bool \<Rightarrow> (job_kind \<Rightarrow> bool) \<Rightarrow> uuid \<Rightarrow> upload \<Rightarrow> runner \<Rightarrow> db \<Rightarrow> disk \<Rightarrow>
    (start_error + uuid \<times> job) \<times> runner \<times> db \<times> disk" where
  "start_upload fails stuck kinds owner u r s d =
     (if \<not> kinds (ul_kind u) then (Inl UnsupportedKind, r, s, d)
      else case save_file fails AreaIngest (ul_name u) (ul_image u) d of
          (Inl e, d') \<Rightarrow> (Inl (NotSaved e), r, s, d')
        | (Inr _, d') \<Rightarrow> (case submit_job owner (upload_job u) r s of
              (Inl e, r', s') \<Rightarrow> (Inl (NotSubmitted e), r', s', snd (remove_file stuck False AreaIngest (ul_name u) d'))
            | (Inr job, r', s') \<Rightarrow> (Inr job, r', s', d')))"

definition ingest_kinds :: "job_kind \<Rightarrow> bool" where
  "ingest_kinds k \<longleftrightarrow> k = JobShelfIngestion \<or> k = JobProductPhoto"

definition list_kinds :: "job_kind \<Rightarrow> bool" where
  "list_kinds k \<longleftrightarrow> k = JobShoppingListPhoto"

definition consume_kinds :: "job_kind \<Rightarrow> bool" where
  "consume_kinds k \<longleftrightarrow> k = JobConsumptionPhoto"

definition reanalyze :: "(job_kind \<Rightarrow> bool) \<Rightarrow> uuid \<Rightarrow> uuid \<times> job \<Rightarrow> runner \<Rightarrow> db \<Rightarrow> (start_error + unit) \<times> runner \<times> db" where
  "reanalyze kinds owner j r s =
     (if \<not> kinds (jb_kind (snd j)) then (Inl UnsupportedKind, r, s)
      else if jb_image (snd j) = None then (Inl (NotSubmitted (StoreFailed ErrConflict)), r, s)
      else case resubmit_job owner (jb_storage (snd j)) (fst j) r s of
          (Inl e, r', s') \<Rightarrow> (Inl (NotSubmitted e), r', s') | (Inr _, r', s') \<Rightarrow> (Inr (), r', s'))"

text \<open>The three services over them.\<close>

definition ingest_start :: "bool \<Rightarrow> bool \<Rightarrow> uuid \<Rightarrow> upload \<Rightarrow> runner \<Rightarrow> db \<Rightarrow> disk \<Rightarrow> (start_error + uuid \<times> job) \<times> runner \<times> db \<times> disk" where
  "ingest_start fails stuck = start_upload fails stuck ingest_kinds"

definition list_start :: "bool \<Rightarrow> bool \<Rightarrow> uuid \<Rightarrow> upload \<Rightarrow> runner \<Rightarrow> db \<Rightarrow> disk \<Rightarrow> (start_error + uuid \<times> job) \<times> runner \<times> db \<times> disk" where
  "list_start fails stuck = start_upload fails stuck list_kinds"

definition consume_start :: "bool \<Rightarrow> bool \<Rightarrow> uuid \<Rightarrow> upload \<Rightarrow> runner \<Rightarrow> db \<Rightarrow> disk \<Rightarrow> (start_error + uuid \<times> job) \<times> runner \<times> db \<times> disk" where
  "consume_start fails stuck owner u = start_upload fails stuck consume_kinds owner (u\<lparr>ul_kind := JobConsumptionPhoto\<rparr>)"

definition ingest_reanalyze :: "uuid \<Rightarrow> uuid \<times> job \<Rightarrow> runner \<Rightarrow> db \<Rightarrow> (start_error + unit) \<times> runner \<times> db" where
  "ingest_reanalyze = reanalyze ingest_kinds"

definition consume_reanalyze :: "uuid \<Rightarrow> uuid \<times> job \<Rightarrow> runner \<Rightarrow> db \<Rightarrow> (start_error + unit) \<times> runner \<times> db" where
  "consume_reanalyze = reanalyze consume_kinds"

section \<open>Sweeping reviewed photos\<close>

definition image_retention :: instant where "image_retention = 30 * 24 * 3600 * 10 ^ 9"
definition sweep_limit :: nat where "sweep_limit = 500"

text \<open>A file that cannot be removed is left with its job; a database error ends the sweep.\<close>

fun sweep_each :: "(string \<Rightarrow> bool \<times> bool) \<Rightarrow> (uuid \<times> string) list \<Rightarrow> nat \<Rightarrow> db \<Rightarrow> disk \<Rightarrow> (err + nat) \<times> db \<times> disk" where
  "sweep_each stuck [] n s d = (Inr n, s, d)"
| "sweep_each stuck ((i, name) # rest) n s d =
     (case remove_file (fst (stuck name)) (snd (stuck name)) AreaIngest name d of
        (Inl _, d') \<Rightarrow> sweep_each stuck rest n s d'
      | (Inr _, d') \<Rightarrow> (case in_tx (clear_job_image i) s of
            (Inl e, s') \<Rightarrow> (Inl e, s', d')
          | (Inr _, s') \<Rightarrow> sweep_each stuck rest (Suc n) s' d'))"

definition sweep_images :: "(string \<Rightarrow> bool \<times> bool) \<Rightarrow> instant \<Rightarrow> db \<Rightarrow> disk \<Rightarrow> (err + nat) \<times> db \<times> disk" where
  "sweep_images stuck now s d = (case in_tx (expired_job_images (now - image_retention) sweep_limit) s of
      (Inl e, s') \<Rightarrow> (Inl e, s', d)
    | (Inr expired, s') \<Rightarrow> sweep_each stuck expired 0 s' d)"

section \<open>Names lead nowhere else\<close>

lemma uuid_groups_chars: "uuid_groups ns t \<Longrightarrow> c \<in> set t \<Longrightarrow> hex_digit c \<or> c = CHR 0x2D"
proof (induction ns t rule: uuid_groups.induct)
  case (3 n m ns t)
  obtain x cs where cs: "drop n t = x # cs" "x = CHR 0x2D" "uuid_groups (m # ns) cs"
    using 3(2) by (auto split: list.splits)
  have "set t = set (take n t) \<union> set (drop n t)" by (metis append_take_drop_id set_append)
  then show ?case using 3 cs by (auto simp: list_all_iff)
qed (auto simp: list_all_iff)

lemma stem_chars: "stem_pattern t \<Longrightarrow> c \<in> set t \<Longrightarrow> hex_digit c \<or> c = CHR 0x2D"
  unfolding stem_pattern_def by (rule uuid_groups_chars)

lemma names_stem: "names_of a name \<Longrightarrow> stem_pattern (take 36 name) \<and> drop 36 name \<in> {''.jpg'', ''.png'', ''.svg''}"
  by (cases a) (auto simp: names_of_def generated_name_def generated_picture_name_def)

lemma names_plain:
  assumes n: "names_of a name" and c: "c \<in> set name"
  shows "c \<noteq> CHR 0x2F \<and> c \<noteq> CHR 0x5C"
proof -
  have "set name = set (take 36 name) \<union> set (drop 36 name)" by (metis append_take_drop_id set_append)
  with c names_stem [OF n] have "c \<in> set (take 36 name) \<or> c \<in> set ''.jpgnsv''" by auto
  then show ?thesis using stem_chars [OF conjunct1 [OF names_stem [OF n]], of c] by (auto simp: hex_digit_def)
qed

section \<open>An upload is a job with its photo, or nothing\<close>

lemma map_of_put_file: "map_of (put_file k v t) k' = (if k' = k then Some v else map_of t k')"
  by (auto simp: put_file_def map_of_insert_fresh tbl_has_def)

lemma removed_files:
  "dk_files (snd (remove_file f g a name d)) = (if names_of a name \<and> \<not> f then tbl_del (\<lambda>k _. k = (a, name)) (dk_files d) else dk_files d)"
  by (simp add: remove_file_def remove_source_def)

lemma del_put_fresh: "\<not> tbl_has k t \<Longrightarrow> tbl_del (\<lambda>k' _. k' = k) (put_file k v t) = t"
  by (induction t) (auto simp: put_file_def tbl_has_def tbl_ins_def tbl_del_def split: if_splits)

text \<open>
  C8. A photo is never lost and never left over: an upload that is refused, at whatever point, leaves database
  and queue as they were and, unless the file system keeps the file from being removed, the disk as well; one
  that is accepted has its bytes on disk under the name its pending job gives, and that job is leased by the
  process and in its queue.
\<close>

theorem upload_settled:
  assumes run: "start_upload fails stuck kinds owner u r s d = (res, r', s', d')"
    and fresh: "\<not> tbl_has (AreaIngest, ul_name u) (dk_files d)"
  shows "case res of
      Inl _ \<Rightarrow> s' = s \<and> r' = r \<and> (\<not> stuck \<longrightarrow> dk_files d' = dk_files d)
    | Inr (i, j) \<Rightarrow> read_file False AreaIngest (ul_name u) d' = Inr (ul_image u) \<and> map_of (jobs s') i = Some j
        \<and> jb_status j = JobPending \<and> jb_image j = Some (ul_name u) \<and> jb_owner j = Some owner \<and> works_on i r'"
proof (cases "kinds (ul_kind u) \<and> names_of AreaIngest (ul_name u) \<and> \<not> fails")
  case False
  with run show ?thesis by (auto simp: start_upload_def save_file_def split: if_splits)
next
  case True
  let ?d = "d\<lparr>dk_files := put_file (AreaIngest, ul_name u) (ul_image u) (dk_files d)\<rparr>"
  have save: "save_file fails AreaIngest (ul_name u) (ul_image u) d = (Inr (), ?d)" using True by (simp add: save_file_def)
  obtain sub r1 s1 where sub: "submit_job owner (upload_job u) r s = (sub, r1, s1)" by (metis prod_cases3)
  show ?thesis
  proof (cases sub)
    case (Inl e)
    then have "s1 = s \<and> r1 = r"
      using sub by (auto simp: submit_job_def in_tx_def split: if_splits sum.splits)
    with run True Inl save sub fresh show ?thesis by (auto simp: start_upload_def removed_files del_put_fresh)
  next
    case (Inr job)
    then obtain i j where new: "create_job ((upload_job u)\<lparr>nj_lease := runner_lease owner\<rparr>) s = Inr ((i, j), s1)"
      "sub = Inr (i, j)" "r1 = start_attempt i r"
      using sub by (auto simp: submit_job_def in_tx_def split: if_splits sum.splits)
    have "map_of (jobs s1) i = Some j \<and> jb_status j = JobPending \<and> jb_image j = Some (ul_name u) \<and> jb_owner j = Some owner"
      using new(1) by (auto simp: create_job_def tx_iff Let_def upload_job_def runner_lease_def lease_claim_def
          map_of_insert_fresh split: option.splits)
    with run True save sub new show ?thesis by (auto simp: start_upload_def read_file_def map_of_put_file)
  qed
qed

definition a_photo :: string where "a_photo = ''00000000-0000-7000-8000-000000000001.jpg''"

definition an_upload :: upload where
  "an_upload = \<lparr>ul_storage = 2, ul_kind = JobConsumptionPhoto, ul_user = 7, ul_hint = None, ul_name = a_photo, ul_image = ''pixels''\<rparr>"

definition upload_db :: db where
  "upload_db = job_db\<lparr>accounts := [(7, some_account)]\<rparr>"

theorem upload_settled_witness:
  "\<exists>i j r' s' d'. start_upload False False consume_kinds 8 an_upload new_runner upload_db \<lparr>dk_files = [], dk_derived = []\<rparr>
      = (Inr (i, j), r', s', d') \<and> read_file False AreaIngest a_photo d' = Inr ''pixels'' \<and> works_on i r'"
proof -
  let ?run = "start_upload False False consume_kinds 8 an_upload new_runner upload_db \<lparr>dk_files = [], dk_derived = []\<rparr>"
  have ok: "\<not> isl (fst ?run)" by code_simp
  obtain res r' s' d' where run: "?run = (res, r', s', d')" by (metis prod_cases4)
  with ok obtain i j where res: "res = Inr (i, j)" by (cases res) auto
  have fresh: "\<not> tbl_has (AreaIngest, ul_name an_upload) (dk_files \<lparr>dk_files = [], dk_derived = []\<rparr>)" by (simp add: tbl_has_def)
  from upload_settled [OF run fresh] have "read_file False AreaIngest (ul_name an_upload) d' = Inr (ul_image an_upload)" "works_on i r'"
    by (simp_all add: res)
  with run res show ?thesis by (auto simp: an_upload_def)
qed

section \<open>What the sweep leaves alone\<close>

definition expired_photo :: "instant \<Rightarrow> string \<Rightarrow> db \<Rightarrow> bool" where
  "expired_photo now name s \<longleftrightarrow> list_ex (\<lambda>(_, j). jb_status j = JobConsumed \<and> jb_image j = Some name
     \<and> jb_updated j < now - image_retention) (jobs s)"

lemma sweep_each_files:
  "sweep_each stuck es n s d = (res, s', d') \<Longrightarrow> name \<notin> snd ` set es \<Longrightarrow>
     map_of (dk_files d') (AreaIngest, name) = map_of (dk_files d) (AreaIngest, name)"
proof (induction stuck es n s d arbitrary: res s' d' rule: sweep_each.induct)
  case (2 stuck i x rest n s d)
  obtain q d1 where q: "remove_file (fst (stuck x)) (snd (stuck x)) AreaIngest x d = (q, d1)" by fastforce
  have other: "map_of (tbl_del (\<lambda>k _. k = (AreaIngest, x)) t) (AreaIngest, name) = map_of t (AreaIngest, name)" for t :: "((area \<times> string) \<times> string) list"
    using 2(4) by (simp add: map_of_del_process)
  have "map_of (dk_files d1) (AreaIngest, name) = map_of (dk_files d) (AreaIngest, name)"
    using removed_files [of "fst (stuck x)" "snd (stuck x)" AreaIngest x d] q other by simp
  with 2 q show ?case by (auto split: sum.splits prod.splits)
qed simp

lemma sweep_each_jobs:
  "sweep_each stuck es n s d = (res, s', d') \<Longrightarrow>
     map_of (jobs s') i = (if map_of (jobs s') i = map_of (jobs s) i then map_of (jobs s) i
       else map_option (\<lambda>j. j\<lparr>jb_image := None\<rparr>) (map_of (jobs s) i))
     \<and> (map_of (jobs s') i \<noteq> map_of (jobs s) i \<longrightarrow> i \<in> fst ` set es)"
proof (induction stuck es n s d arbitrary: res s' d' rule: sweep_each.induct)
  case (2 stuck k x rest n s d)
  obtain q d1 where q: "remove_file (fst (stuck x)) (snd (stuck x)) AreaIngest x d = (q, d1)" by fastforce
  have clear: "in_tx (clear_job_image k) s = (Inr (), s\<lparr>jobs := tbl_upd k (\<lambda>j. j\<lparr>jb_image := None\<rparr>) (jobs s)\<rparr>)"
    by (simp add: clear_job_image_def in_tx_def tx_defs)
  show ?case
  proof (cases q)
    case (Inl e)
    with 2 q show ?thesis by (auto simp: image_iff)
  next
    case (Inr u)
    let ?s = "s\<lparr>jobs := tbl_upd k (\<lambda>j. j\<lparr>jb_image := None\<rparr>) (jobs s)\<rparr>"
    have "sweep_each stuck rest (Suc n) ?s d1 = (res, s', d')" using 2(3) q Inr clear by simp
    from 2(2) [OF q [symmetric] Inr clear [symmetric] refl this] show ?thesis
      by (cases "map_of (jobs s) i") (auto simp: image_iff split: if_splits)
  qed
qed simp

text \<open>
  C9. The hourly sweep takes only what was reviewed long ago: a photo stays on disk unless some job confirmed more
  than thirty days ago has it, however old the photo is; and no job changes but such a job, which only loses the
  name of its photo.
\<close>

theorem sweep_spares_unreviewed:
  assumes run: "sweep_images stuck now s d = (res, s', d')" and d: "distinct (keys (jobs s))"
  shows "(\<not> expired_photo now name s \<longrightarrow> map_of (dk_files d') (AreaIngest, name) = map_of (dk_files d) (AreaIngest, name))
    \<and> (map_of (jobs s') i = map_of (jobs s) i \<or> (\<exists>j. map_of (jobs s) i = Some j \<and> jb_status j = JobConsumed
         \<and> jb_updated j < now - image_retention \<and> map_of (jobs s') i = Some (j\<lparr>jb_image := None\<rparr>)))"
proof -
  let ?es = "map (\<lambda>(i, j). (i, the (jb_image j))) (take sweep_limit (sort_key (\<lambda>(i, j). jb_updated j)
       (tbl_select (\<lambda>_ j. jb_status j = JobConsumed \<and> jb_image j \<noteq> None \<and> jb_updated j < now - image_retention) (jobs s))))"
  have each: "sweep_each stuck ?es 0 s d = (res, s', d')"
    using run by (simp add: sweep_images_def expired_job_images_def in_tx_def get_tx_def)
  have mem: "\<exists>j. (k, j) \<in> set (jobs s) \<and> jb_status j = JobConsumed \<and> jb_image j = Some x \<and> jb_updated j < now - image_retention"
    if "(k, x) \<in> set ?es" for k x
    using that by (auto simp: tbl_select_def dest!: in_set_takeD)
  have "name \<notin> snd ` set ?es" if "\<not> expired_photo now name s"
    using that mem by (fastforce simp: expired_photo_def list_ex_iff)
  then have files: "\<not> expired_photo now name s \<longrightarrow> map_of (dk_files d') (AreaIngest, name) = map_of (dk_files d) (AreaIngest, name)"
    using sweep_each_files [OF each] by blast
  have rows: "map_of (jobs s') i = map_of (jobs s) i \<or> (\<exists>j. map_of (jobs s) i = Some j \<and> jb_status j = JobConsumed
         \<and> jb_updated j < now - image_retention \<and> map_of (jobs s') i = Some (j\<lparr>jb_image := None\<rparr>))"
  proof (cases "map_of (jobs s') i = map_of (jobs s) i")
    case False
    with sweep_each_jobs [OF each, of i] obtain x where x: "(i, x) \<in> set ?es"
      and eq: "map_of (jobs s') i = map_option (\<lambda>j. j\<lparr>jb_image := None\<rparr>) (map_of (jobs s) i)" by (auto simp del: set_map)
    from mem [OF x] obtain j where "map_of (jobs s) i = Some j" "jb_status j = JobConsumed" "jb_updated j < now - image_retention"
      using d by auto
    with eq show ?thesis by simp
  qed simp
  from files rows show ?thesis by blast
qed

definition reviewed_db :: db where
  "reviewed_db = job_db\<lparr>jobs := [(40, demo_job\<lparr>jb_status := JobConsumed, jb_image := Some a_photo\<rparr>), (41, demo_job)]\<rparr>"

definition swept_disk :: disk where
  "swept_disk = \<lparr>dk_files = [((AreaIngest, a_photo), ''old''), ((AreaIngest, ''photo.jpg''), ''new'')], dk_derived = []\<rparr>"

theorem sweep_spares_unreviewed_witness:
  "map_of (dk_files (snd (snd (sweep_images (\<lambda>_. (False, False)) (40 * 24 * 3600 * 10 ^ 9) reviewed_db swept_disk)))) (AreaIngest, ''photo.jpg'')
     = Some ''new''"
proof -
  obtain res s' d' where run: "sweep_images (\<lambda>_. (False, False)) (40 * 24 * 3600 * 10 ^ 9) reviewed_db swept_disk = (res, s', d')"
    by (metis prod_cases3)
  have "distinct (keys (jobs reviewed_db))" by (simp add: reviewed_db_def)
  from sweep_spares_unreviewed [OF run this, of "''photo.jpg''"] run show ?thesis
    by (simp add: reviewed_db_def swept_disk_def expired_photo_def demo_job_def a_photo_def)
qed

end
