(* ===== verification/Spec2Isabelle.thy ===== *)
theory Spec2Isabelle
  imports Strip RateLimit StockApi Delta Notices Paging TreeApi BarcodesApi Uploads
begin

text \<open>
  A model of the household inventory server: the Go code under \<open>src/internal/\<close>, with the store of
  \<open>internal/store/\<close> at its centre.

  \<^bold>\<open>The program.\<close> A storage is a household: trees of locations and categories, products, and batches of
  them on shelves. Every change of a quantity is a batch write paired with a row of an append-only ledger.
  Photos become asynchronous jobs whose reviewed proposals are confirmed into stock; shopping lists and
  scanned barcodes become stock as well; a shared catalog describes products anonymously. Dates of expiry
  are either set by a person or derived from rules along product, category and catalog, and recomputed when
  a rule moves. Work earns progress. Accounts sign in by sessions, devices by pairing codes, and a retried
  write is replayed from a recorded reply. Administrative writes leave a trail.

  \<^bold>\<open>How it is modelled.\<close> The database is one record, \<open>db\<close> in \<open>Db\<close>, with a field per table of
  \<open>src/migrations/\<close>; a table is an association list, a row a record with the columns of the table. A store
  operation is a value of \<open>'a dbtx\<close>, a function from a state to an error or a result and a successor state;
  \<open>in_tx\<close> is \<open>Store.inTx\<close>, which rolls back on an error. Constraints of the schema are checks of the write
  primitives: a taken key, a missing referenced row or a value outside a 32-bit column is \<open>ErrInternal\<close>, as
  the code maps it. Row locks and the advisory tree lock make the modelled transactions serial, so an
  operation is a function of one state and interleavings are sequences of operations. Identifiers are drawn
  from the supply \<open>idgen\<close>; \<open>db_now\<close> is \<open>now()\<close> of the transaction, \<open>app_now\<close> is \<open>time.Now()\<close>; instants are
  nanoseconds, dates are days.

  \<^bold>\<open>Theories and the code they model.\<close>
  \<^item> \<open>Prelude\<close>, \<open>Db\<close>, \<open>Tree\<close>, \<open>Stock\<close>, \<open>Frames\<close>: errors (\<open>store/errors.go\<close>), transactions (\<open>store/tx.go\<close>), tables,
    the schema, tombstones (\<open>store/tombstones.go\<close>), parents (\<open>store/tree.go\<close>), the invariant of stock and
    ledger, and views that operations leave alone.
  \<^item> \<open>Images\<close>, \<open>Strip\<close>: metadata stripping of uploads (\<open>images/strip.go\<close>, \<open>exif.go\<close>, \<open>transform.go\<close>).
  \<^item> \<open>Expiry\<close>, \<open>StoreExpiry\<close>: the shelf-life rules (\<open>expiry/expiry.go\<close>) and their cascades (\<open>store/expiry.go\<close>).
  \<^item> \<open>Gamification\<close>, \<open>Progress\<close>: scoring (\<open>gamification/\<close>) and the scoring done by other writes
    (\<open>store/gamification.go\<close>, \<open>quests.go\<close>, \<open>achievements.go\<close>).
  \<^item> \<open>RateLimit\<close>: the limiter of sign-in attempts (\<open>httpapi/ratelimit.go\<close>).
  \<^item> \<open>Locations\<close>, \<open>Categories\<close>: the two trees (\<open>store/locations.go\<close>, \<open>categories.go\<close>).
  \<^item> \<open>Containers\<close>, \<open>Batches\<close>, \<open>BatchTheorems\<close>: \<open>store/containers.go\<close>, \<open>batches.go\<close>.
  \<^item> \<open>Products\<close>, \<open>Catalog\<close>, \<open>Barcodes\<close>, \<open>ShoppingLists\<close>: the files of \<open>store/\<close> of the same names.
  \<^item> \<open>Jobs\<close>, \<open>Consumption\<close>, \<open>Stocktake\<close>, \<open>Ingestion\<close>: jobs and the three confirms (\<open>store/jobs.go\<close> and so on).
  \<^item> \<open>Text\<close>: the line parser and the normal form of names (\<open>matching/parse.go\<close>).
  \<^item> \<open>AuditTrail\<close>, \<open>Accounts\<close>, \<open>Access\<close>, \<open>Storages\<close>: the trail, accounts, sessions, pairing, recorded replies and
    settings, memberships (\<open>store/audit.go\<close>, \<open>users.go\<close>, \<open>sessions.go\<close>, \<open>pairing.go\<close>, \<open>idempotency.go\<close>, \<open>store.go\<close>,
    \<open>storages.go\<close>).

  \<^bold>\<open>What the lemmas show.\<close> \<open>stock_inv\<close> says that the rows refer to one another as they must and that for every
  product the ledger sums to what is on the shelves; the locale \<open>ledger_operation\<close> is the contract that an
  operation keeps ledger and shelf balanced, and each operation interprets it. \<open>master_view\<close> and \<open>side_view\<close>
  are contracts of what an operation leaves alone, \<open>parent_tree\<close> of a tree, \<open>date_cascade\<close> of recomputations,
  \<open>segmented_format\<close> of an image format. The properties of each component rest on these: what each operation
  does on every branch, what a history of operations can and cannot reach, round trips and bounds.

  \<^bold>\<open>Bounds.\<close> The recursive queries of the code stop at 64 levels and so do the model's walks; the cascade of a
  location delete runs with fuel beyond the number of rows, so it is complete. Loops over rows are recursion on
  lists and end.

  \<^bold>\<open>Parameters.\<close> Collation and case folding, image codecs, digests, random tokens and password hashes are
  arguments. Whether PostgreSQL lets a RESTRICT reference block the cascade of a storage deletion is one too.

  \<^bold>\<open>Not modelled.\<close> HTTP decoding and routing, calls to models and providers, files, the web front end, the
  command line, logging and configuration; lengths of VARCHAR columns; white space beyond ASCII; the
  statements listed as not modelled in the manifest.
\<close>

end
